(* ===== verification/Kirara_Prelude.thy ===== *)
theory Kirara_Prelude
  imports Complex_Main "HOL-Library.AList" "HOL-Library.Char_ord" "HOL-Library.List_Lexorder"
begin

text \<open>
  Shared vocabulary of the development: the types every component uses (instants, error
  results, JSON documents), bounded deques, tables of rows addressed by a key, and the two
  interfaces most components are proved against: a table whose updates keep the key
  (\<open>keyed_rows\<close>) and a machine whose operations keep an invariant
  (\<open>invariant_machine\<close>).

  Python floats that carry seconds, rates and ratios are rational numbers here: the model
  keeps the exact arithmetic and does not model binary rounding. Python strings are
  \<open>string\<close>, one character per code point below 256.
\<close>

named_theorems table_simps \<open>lookup and update of rows addressed by a key\<close>
named_theorems deque_simps \<open>bounded deques\<close>

type_synonym seconds = rat

section \<open>JSON values\<close>

text \<open>
  A decoded JSON document. Python's \<open>bool\<close> is a subclass of \<open>int\<close>, which the readers
  below keep: \<open>isinstance(True, int)\<close> holds.
\<close>

datatype json =
    JNull
  | JBool bool
  | JInt int
  | JFloat rat
  | JStr string
  | JArr "json list"
  | JObj "(string \<times> json) list"

fun json_number :: "json \<Rightarrow> rat option" where
  "json_number (JBool b) = Some (if b then 1 else 0)"
| "json_number (JInt i) = Some (of_int i)"
| "json_number (JFloat r) = Some r"
| "json_number _ = None"

fun json_int :: "json \<Rightarrow> int option" where
  "json_int (JBool b) = Some (if b then 1 else 0)"
| "json_int (JInt i) = Some i"
| "json_int _ = None"

fun json_string :: "json \<Rightarrow> string option" where
  "json_string (JStr s) = Some s"
| "json_string _ = None"

fun json_object :: "json \<Rightarrow> (string \<times> json) list option" where
  "json_object (JObj kvs) = Some kvs"
| "json_object _ = None"

section \<open>Strings\<close>

text \<open>\<open>s.startswith(p)\<close>, \<open>p in s\<close> and the ASCII part of \<open>s.lower()\<close>.\<close>

fun starts_with :: "'a list \<Rightarrow> 'a list \<Rightarrow> bool" where
  "starts_with [] s = True"
| "starts_with (p # ps) [] = False"
| "starts_with (p # ps) (c # cs) = (p = c \<and> starts_with ps cs)"

fun contains :: "'a list \<Rightarrow> 'a list \<Rightarrow> bool" where
  "contains p [] = (p = [])"
| "contains p (c # cs) = (starts_with p (c # cs) \<or> contains p cs)"

definition char_lower :: "char \<Rightarrow> char" where
  "char_lower c =
     (if 65 \<le> (of_char c :: nat) \<and> (of_char c :: nat) \<le> 90
      then char_of ((of_char c :: nat) + 32) else c)"

definition str_lower :: "string \<Rightarrow> string" where
  "str_lower s = map char_lower s"

definition char_is_space :: "char \<Rightarrow> bool" where
  "char_is_space c = ((of_char c :: nat) \<in> {9, 10, 11, 12, 13, 28, 29, 30, 31, 32, 133, 160})"

definition str_strip :: "string \<Rightarrow> string" where
  "str_strip s = rev (dropWhile char_is_space (rev (dropWhile char_is_space s)))"

lemma starts_with_iff: "starts_with p s \<longleftrightarrow> (\<exists>t. s = p @ t)"
  by (induction p s rule: starts_with.induct) auto

lemma contains_iff: "contains p s \<longleftrightarrow> (\<exists>u t. s = u @ p @ t)"
proof (induction s)
  case Nil
  show ?case by auto
next
  case (Cons c cs)
  have "(\<exists>u t. c # cs = u @ p @ t) \<longleftrightarrow> (\<exists>t. c # cs = p @ t) \<or> (\<exists>u t. cs = u @ p @ t)"
    by (metis append_Cons append_Nil neq_Nil_conv list.inject)
  with Cons show ?case by (simp add: starts_with_iff)
qed

section \<open>Bounded deques\<close>

text \<open>
  \<open>collections.deque(xs, maxlen=m)\<close> keeps the last \<open>m\<close> elements; \<open>append\<close> on a full
  deque drops the oldest one.
\<close>

definition take_last :: "nat \<Rightarrow> 'a list \<Rightarrow> 'a list" where
  "take_last m xs = drop (length xs - m) xs"

definition deque_append :: "nat \<Rightarrow> 'a list \<Rightarrow> 'a \<Rightarrow> 'a list" where
  "deque_append m xs x = take_last m (xs @ [x])"

lemma length_take_last [deque_simps, simp]: "length (take_last m xs) = min m (length xs)"
  by (simp add: take_last_def)

lemma length_deque_append [deque_simps, simp]:
  "length (deque_append m xs x) = min m (Suc (length xs))"
  by (simp add: deque_append_def)

lemma take_last_short [deque_simps]: "length xs \<le> m \<Longrightarrow> take_last m xs = xs"
  by (simp add: take_last_def)

lemma set_take_last: "set (take_last m xs) \<subseteq> set xs"
  by (simp add: take_last_def set_drop_subset)

lemma deque_append_room [deque_simps]:
  "length xs < m \<Longrightarrow> deque_append m xs x = xs @ [x]"
  by (simp add: deque_append_def take_last_short)

lemma set_deque_append: "set (deque_append m xs x) \<subseteq> insert x (set xs)"
  using set_take_last [of m "xs @ [x]"] by (simp add: deque_append_def)

lemma last_deque_append: "0 < m \<Longrightarrow> last (deque_append m xs x) = x"
  by (simp add: deque_append_def take_last_def last_drop)

lemma deque_append_nonempty: "0 < m \<Longrightarrow> deque_append m xs x \<noteq> []"
  by (metis length_deque_append list.size(3) min_0R not_gr_zero min.commute min_def nat.distinct(1))

section \<open>Lists of optional results\<close>

lemma those_total: "\<forall>x\<in>set xs. f x = Some (g x) \<Longrightarrow> those (map f xs) = Some (map g xs)"
  by (induction xs) auto

lemma those_member: "those (map f xs) = Some ys \<Longrightarrow> x \<in> set xs \<Longrightarrow> \<exists>y\<in>set ys. f x = Some y"
  by (induction xs arbitrary: ys) (auto split: option.splits)

lemma those_list_all:
  "those (map f xs) = Some ys \<Longrightarrow> \<forall>x\<in>set xs. \<forall>y. f x = Some y \<longrightarrow> P y \<Longrightarrow> list_all P ys"
  by (induction xs arbitrary: ys) (auto split: option.splits)

section \<open>Rows addressed by a key\<close>

definition find_row :: "('r \<Rightarrow> 'k) \<Rightarrow> 'k \<Rightarrow> 'r list \<Rightarrow> 'r option" where
  "find_row key k rows = List.find (\<lambda>r. key r = k) rows"

definition update_row :: "('r \<Rightarrow> 'k) \<Rightarrow> 'k \<Rightarrow> ('r \<Rightarrow> 'r) \<Rightarrow> 'r list \<Rightarrow> 'r list" where
  "update_row key k f rows = map (\<lambda>r. if key r = k then f r else r) rows"

lemma find_row_Nil [table_simps]: "find_row key k [] = None"
  by (simp add: find_row_def)

lemma find_row_Cons [table_simps]:
  "find_row key k (r # rows) = (if key r = k then Some r else find_row key k rows)"
  by (simp add: find_row_def)

lemma update_row_Nil [table_simps]: "update_row key k f [] = []"
  by (simp add: update_row_def)

lemma update_row_Cons [table_simps]:
  "update_row key k f (r # rows) =
     (if key r = k then f r else r) # update_row key k f rows"
  by (simp add: update_row_def)

lemma find_row_append:
  "find_row key k (rows @ more) =
     (case find_row key k rows of Some r \<Rightarrow> Some r | None \<Rightarrow> find_row key k more)"
  by (induction rows) (auto simp: table_simps)

lemma find_row_None: "find_row key k rows = None \<longleftrightarrow> k \<notin> key ` set rows"
  by (induction rows) (auto simp: table_simps)

lemma find_row_SomeD: "find_row key k rows = Some r \<Longrightarrow> r \<in> set rows \<and> key r = k"
  by (induction rows) (auto simp: table_simps split: if_splits)

lemma find_row_distinct:
  "distinct (map key rows) \<Longrightarrow> r \<in> set rows \<Longrightarrow> find_row key (key r) rows = Some r"
  by (induction rows) (auto simp: table_simps)

lemma set_update_row:
  "set (update_row key k f rows) = (\<lambda>r. if key r = k then f r else r) ` set rows"
  by (simp add: update_row_def)

lemma length_update_row [simp]: "length (update_row key k f rows) = length rows"
  by (simp add: update_row_def)

text \<open>
  The contract of a table of rows: \<open>upd u\<close> is any of the row updates the component
  performs, and none of them touches the key. What a lookup returns after an update, and
  that keys stay distinct, follow once for every table.
\<close>

locale keyed_rows =
  fixes key :: "'r \<Rightarrow> 'k"
    and upd :: "'u \<Rightarrow> 'r \<Rightarrow> 'r"
  assumes key_upd: "key (upd u r) = key r"
begin

lemma keys_update: "map key (update_row key k (upd u) rows) = map key rows"
  by (simp add: update_row_def key_upd)

lemma find_update_same:
  "find_row key k (update_row key k (upd u) rows) = map_option (upd u) (find_row key k rows)"
  by (induction rows) (auto simp: table_simps key_upd)

lemma find_update_other:
  "k' \<noteq> k \<Longrightarrow> find_row key k' (update_row key k (upd u) rows) = find_row key k' rows"
  by (induction rows) (auto simp: table_simps key_upd)

lemma find_update:
  "find_row key k' (update_row key k (upd u) rows) =
     (if k' = k then map_option (upd u) (find_row key k rows) else find_row key k' rows)"
  by (simp add: find_update_same find_update_other)

end

section \<open>Operations that keep an invariant\<close>

text \<open>
  A component whose operations are the events \<open>'e\<close>: when each one keeps the invariant, so
  does every sequence of them, whatever order the callers produce.
\<close>

locale invariant_machine =
  fixes step :: "'e \<Rightarrow> 's \<Rightarrow> 's"
    and inv :: "'s \<Rightarrow> bool"
  assumes step_inv: "inv s \<Longrightarrow> inv (step e s)"
begin

lemma run_inv: "inv s \<Longrightarrow> inv (fold step es s)"
  by (induction es arbitrary: s) (auto intro: step_inv)

end

text \<open>
  A machine that also refines an abstract transition relation through \<open>abs\<close>: each
  operation moves the abstract state along zero or more abstract steps, and so does a run.
\<close>

locale refining_machine = invariant_machine step inv
  for step :: "'e \<Rightarrow> 's \<Rightarrow> 's" and inv :: "'s \<Rightarrow> bool" +
  fixes abs :: "'s \<Rightarrow> 'a"
    and spec :: "'a \<Rightarrow> 'a \<Rightarrow> bool"
  assumes step_refines: "inv s \<Longrightarrow> spec\<^sup>*\<^sup>* (abs s) (abs (step e s))"
begin

lemma run_refines: "inv s \<Longrightarrow> spec\<^sup>*\<^sup>* (abs s) (abs (fold step es s))"
proof (induction es arbitrary: s)
  case Nil
  show ?case by simp
next
  case (Cons e es)
  have "spec\<^sup>*\<^sup>* (abs (step e s)) (abs (fold step es (step e s)))"
    by (rule Cons.IH [OF step_inv [OF Cons.prems]])
  with step_refines [OF Cons.prems, of e] show ?case
    by (simp add: rtranclp_trans)
qed

end

end
