(* ===== verification/Price_Catalog.thy ===== *)
theory Price_Catalog
  imports Kirara_Prelude
begin

text \<open>
  The price catalogue of \<open>llm/pricing.py\<close>: versions of prices, the catalogue in memory, its document with
  revision and digest, the backups, and every operation of \<open>PriceCatalog\<close>.

  The validation and dump of a version (pydantic) and SHA-256 over the canonical document are a
  \<open>price_codec\<close>. A file transaction happens or fails as a whole, as shown in \<open>File_Recovery\<close>; an argument
  says which. Locks are held for the whole of an operation, and always obtained. A revision that is no
  number raises (the code would also read digits in a text). Instants are UTC.
\<close>

section \<open>Versions\<close>

record price_version =
  pv_id :: string
  pv_provider :: string
  pv_model :: string
  pv_display :: "string option"
  pv_from :: seconds
  pv_currency :: string
  pv_input :: rat
  pv_output :: rat
  pv_read :: rat
  pv_write :: rat

definition valid_price :: "price_version \<Rightarrow> bool" where
  "valid_price v =
     (pv_id v \<noteq> [] \<and> pv_provider v \<noteq> [] \<and> pv_model v \<noteq> [] \<and> length (pv_currency v) = 3 \<and>
      (case pv_display v of None \<Rightarrow> True | Some d \<Rightarrow> d \<noteq> [] \<and> length d \<le> 200) \<and>
      0 \<le> pv_input v \<and> 0 \<le> pv_output v \<and> 0 \<le> pv_read v \<and> 0 \<le> pv_write v)"

text \<open>The constructor strips the display name.\<close>

definition make_price :: "price_version \<Rightarrow> price_version option" where
  "make_price v =
     (if \<not> valid_price v then None
      else case pv_display v of
             None \<Rightarrow> Some v
           | Some d \<Rightarrow> if str_strip d = [] then None else Some (v\<lparr>pv_display := Some (str_strip d)\<rparr>))"

datatype price_error =
    DuplicateVersion string
  | ConflictingVersion string
  | UnknownVersion string
  | RevisionConflict
  | ChangedSinceLoaded
  | InvalidDocument
  | IntegrityFailed
  | NoCatalogPath
  | NoSuchBackup
  | NoSuchGeneration
  | NoEffectivePrice
  | TransactionFailed

definition same_slot :: "price_version \<Rightarrow> price_version \<Rightarrow> bool" where
  "same_slot v e = (pv_provider e = pv_provider v \<and> pv_model e = pv_model v \<and> pv_from e = pv_from v)"

definition add_to_mapping :: "price_version \<Rightarrow> price_version list \<Rightarrow> price_error + price_version list" where
  "add_to_mapping v vs =
     (if pv_id v \<in> set (map pv_id vs) then Inl (DuplicateVersion (pv_id v))
      else if list_ex (same_slot v) vs then Inl (ConflictingVersion (pv_id v))
      else Inr (vs @ [v]))"

fun add_all :: "price_version list \<Rightarrow> price_version list \<Rightarrow> price_error + price_version list" where
  "add_all [] vs = Inr vs"
| "add_all (v # new) vs = (case add_to_mapping v vs of Inl e \<Rightarrow> Inl e | Inr vs' \<Rightarrow> add_all new vs')"

section \<open>Documents\<close>

record price_codec =
  pd_dump :: "price_version \<Rightarrow> json"
  pd_validate :: "json \<Rightarrow> price_version option"
  pd_digest :: "(string \<times> json) list \<Rightarrow> string"

definition canonical_document :: "(string \<times> json) list \<Rightarrow> (string \<times> json) list" where
  "canonical_document d = sort_key fst (filter (\<lambda>kv. fst kv \<noteq> ''integrity'') d)"

definition compute_integrity :: "price_codec \<Rightarrow> (string \<times> json) list \<Rightarrow> string" where
  "compute_integrity cx d = pd_digest cx (canonical_document d)"

definition document_body :: "price_codec \<Rightarrow> price_version list \<Rightarrow> int \<Rightarrow> (string \<times> json) list" where
  "document_body cx vs revision =
     [(''schema'', JStr ''kirara-ai.price-catalog''), (''schema_version'', JInt 1), (''format_version'', JInt 1),
      (''revision'', JInt revision), (''versions'', JArr (map (pd_dump cx) vs))]"

definition catalog_document :: "price_codec \<Rightarrow> price_version list \<Rightarrow> int \<Rightarrow> (string \<times> json) list" where
  "catalog_document cx vs revision =
     document_body cx vs revision @
     [(''integrity'', JStr (compute_integrity cx (document_body cx vs revision)))]"

definition is_one :: "json option \<Rightarrow> bool" where
  "is_one v = (Option.bind v json_number = Some 1)"

fun validate_all :: "price_codec \<Rightarrow> json list \<Rightarrow> price_version list \<Rightarrow> price_error + price_version list" where
  "validate_all cx [] vs = Inr vs"
| "validate_all cx (j # js) vs =
     (case (if json_object j = None then None else pd_validate cx j) of
        None \<Rightarrow> Inl InvalidDocument
      | Some v \<Rightarrow> (case add_to_mapping v vs of Inl e \<Rightarrow> Inl e | Inr vs' \<Rightarrow> validate_all cx js vs'))"

definition parse_revision :: "json option \<Rightarrow> int option" where
  "parse_revision v =
     (case v of None \<Rightarrow> Some 0 | Some (JInt i) \<Rightarrow> if 0 \<le> i then Some i else None | _ \<Rightarrow> None)"

definition integrity_holds :: "price_codec \<Rightarrow> (string \<times> json) list \<Rightarrow> bool" where
  "integrity_holds cx d =
     (case map_of d ''integrity'' of
        None \<Rightarrow> True | Some JNull \<Rightarrow> True | Some (JStr s) \<Rightarrow> s = compute_integrity cx d | _ \<Rightarrow> False)"

definition parse_document ::
    "price_codec \<Rightarrow> (string \<times> json) list \<Rightarrow> price_error + (price_version list \<times> int)" where
  "parse_document cx d =
     (if map_of d ''schema'' \<noteq> Some (JStr ''kirara-ai.price-catalog'') \<or> \<not> is_one (map_of d ''schema_version'') \<or>
         \<not> is_one (map_of d ''format_version'') then Inl InvalidDocument
      else case (map_of d ''versions'', parse_revision (map_of d ''revision'')) of
             (Some (JArr js), Some revision) \<Rightarrow>
               if \<not> integrity_holds cx d then Inl IntegrityFailed
               else (case validate_all cx js [] of Inl e \<Rightarrow> Inl e | Inr vs \<Rightarrow> Inr (vs, revision))
           | _ \<Rightarrow> Inl InvalidDocument)"

section \<open>Files\<close>

text \<open>A file holds a JSON document, or a text that is none.\<close>

type_synonym price_disk = "string \<Rightarrow> json option option"

definition is_file :: "price_disk \<Rightarrow> string \<Rightarrow> bool" where
  "is_file disk p = (disk p \<noteq> None)"

definition read_document :: "price_disk \<Rightarrow> string \<Rightarrow> price_error + (string \<times> json) list" where
  "read_document disk p =
     (case disk p of Some (Some j) \<Rightarrow> (case json_object j of Some d \<Rightarrow> Inr d | None \<Rightarrow> Inl InvalidDocument)
      | _ \<Rightarrow> Inl InvalidDocument)"

definition legacy_backup_path :: "string \<Rightarrow> string" where
  "legacy_backup_path target = target @ ''.bak''"

definition backup_path :: "string \<Rightarrow> nat \<Rightarrow> string option" where
  "backup_path target generation =
     (if generation < 1 \<or> 3 < generation then None
      else Some (target @ ''.bak.'' @ [''0123'' ! generation]))"

definition rotate_backup :: "price_disk \<Rightarrow> string \<Rightarrow> string \<Rightarrow> price_disk \<Rightarrow> price_disk" where
  "rotate_backup before previous destination disk =
     (if is_file before previous then disk(destination := before previous)
      else if is_file before destination then disk(destination := None) else disk)"

definition persist_document ::
    "string \<Rightarrow> (string \<times> json) list \<Rightarrow> bool \<Rightarrow> price_disk \<Rightarrow> price_disk" where
  "persist_document target d backup disk =
     (let written = disk(target := Some (Some (JObj d)));
          b1 = the (backup_path target 1); b2 = the (backup_path target 2); b3 = the (backup_path target 3)
      in if backup \<and> is_file disk target
         then rotate_backup disk b2 b3 (rotate_backup disk b1 b2
                (written(b1 := disk target, legacy_backup_path target := disk target)))
         else written)"

section \<open>The catalogue\<close>

record catalog =
  pc_versions :: "price_version list"
  pc_path :: "string option"
  pc_revision :: int
  pc_integrity :: "string option"

definition new_catalog :: "price_version list \<Rightarrow> price_error + catalog" where
  "new_catalog vs =
     (case add_all vs [] of
        Inl e \<Rightarrow> Inl e
      | Inr m \<Rightarrow> Inr \<lparr>pc_versions = m, pc_path = None, pc_revision = 0, pc_integrity = None\<rparr>)"

definition document_integrity :: "(string \<times> json) list \<Rightarrow> string option" where
  "document_integrity d = (case map_of d ''integrity'' of Some (JStr s) \<Rightarrow> if s = [] then None else Some s | _ \<Rightarrow> None)"

definition load_locked :: "price_codec \<Rightarrow> price_disk \<Rightarrow> string \<Rightarrow> price_error + catalog" where
  "load_locked cx disk target =
     (case read_document disk target of
        Inl e \<Rightarrow> Inl e
      | Inr d \<Rightarrow>
          (case parse_document cx d of
             Inl e \<Rightarrow> Inl e
           | Inr (vs, revision) \<Rightarrow>
               Inr \<lparr>pc_versions = vs, pc_path = Some target, pc_revision = revision,
                    pc_integrity = document_integrity d\<rparr>))"

definition load_or_create ::
    "price_codec \<Rightarrow> bool \<Rightarrow> string \<Rightarrow> price_disk \<Rightarrow> price_error + (catalog \<times> price_disk)" where
  "load_or_create cx ok target disk =
     (if is_file disk target then (case load_locked cx disk target of Inl e \<Rightarrow> Inl e | Inr c \<Rightarrow> Inr (c, disk))
      else if \<not> ok then Inl TransactionFailed
      else (let d = catalog_document cx [] 0 in
            Inr (\<lparr>pc_versions = [], pc_path = Some target, pc_revision = 0, pc_integrity = document_integrity d\<rparr>,
                 persist_document target d False disk)))"

text \<open>\<open>int()\<close> drops the fraction.\<close>

definition truncate_number :: "rat \<Rightarrow> int" where
  "truncate_number r = (if r < 0 then - \<lfloor>- r\<rfloor> else \<lfloor>r\<rfloor>)"

definition current_revision :: "(string \<times> json) list \<Rightarrow> int option" where
  "current_revision d =
     (case map_of d ''revision'' of None \<Rightarrow> Some 0 | Some j \<Rightarrow> map_option truncate_number (json_number j))"

text \<open>\<open>_check_current\<close>; \<open>None\<close> means that the document is current.\<close>

definition check_current ::
    "catalog \<Rightarrow> (string \<times> json) list option \<Rightarrow> int option \<Rightarrow> price_error option" where
  "check_current c current expected =
     (case current of
        None \<Rightarrow> if expected \<notin> {None, Some 0} then Some RevisionConflict else None
      | Some d \<Rightarrow>
          (case current_revision d of
             None \<Rightarrow> Some InvalidDocument
           | Some r \<Rightarrow>
               if expected \<noteq> None \<and> expected \<noteq> Some r then Some RevisionConflict
               else if pc_path c \<noteq> None \<and> pc_integrity c \<noteq> None \<and>
                       map_of d ''integrity'' \<noteq> map_option JStr (pc_integrity c)
               then Some ChangedSinceLoaded else None))"

definition commit_versions ::
    "price_codec \<Rightarrow> bool \<Rightarrow> price_version list \<Rightarrow> int option \<Rightarrow> catalog \<Rightarrow> price_disk \<Rightarrow>
     price_error + (catalog \<times> price_disk)" where
  "commit_versions cx ok vs expected c disk =
     (case pc_path c of
        None \<Rightarrow>
          if expected \<noteq> None \<and> expected \<noteq> Some (pc_revision c) then Inl RevisionConflict
          else Inr (c\<lparr>pc_versions := vs\<rparr>, disk)
      | Some target \<Rightarrow>
          (case read_document disk target of
             Inl e \<Rightarrow> Inl e
           | Inr d \<Rightarrow>
               (case check_current c (Some d) expected of
                  Some e \<Rightarrow> Inl e
                | None \<Rightarrow>
                    if \<not> ok then Inl TransactionFailed
                    else (let revision = the (current_revision d) + 1; d' = catalog_document cx vs revision in
                          Inr (c\<lparr>pc_versions := vs, pc_revision := revision, pc_integrity := document_integrity d'\<rparr>,
                               persist_document target d' True disk)))))"

text \<open>What \<open>add\<close>, \<open>update\<close>, \<open>remove\<close> and \<open>import_document\<close> make of the versions.\<close>

datatype price_edit =
    AddVersion price_version
  | UpdateVersion price_version
  | RemoveVersion string
  | ImportDocument "(string \<times> json) list"

fun apply_edit :: "price_codec \<Rightarrow> price_edit \<Rightarrow> price_version list \<Rightarrow> price_error + price_version list" where
  "apply_edit cx (AddVersion v) vs = add_to_mapping v vs"
| "apply_edit cx (UpdateVersion v) vs =
     (if pv_id v \<notin> set (map pv_id vs) then Inl (UnknownVersion (pv_id v))
      else add_to_mapping v (filter (\<lambda>e. pv_id e \<noteq> pv_id v) vs))"
| "apply_edit cx (RemoveVersion i) vs =
     (if i \<notin> set (map pv_id vs) then Inl (UnknownVersion i) else Inr (filter (\<lambda>e. pv_id e \<noteq> i) vs))"
| "apply_edit cx (ImportDocument d) vs =
     (case parse_document cx d of Inl e \<Rightarrow> Inl e | Inr (new, revision) \<Rightarrow> add_all new vs)"

definition edit_catalog ::
    "price_codec \<Rightarrow> bool \<Rightarrow> price_edit \<Rightarrow> int option \<Rightarrow> catalog \<Rightarrow> price_disk \<Rightarrow>
     price_error + (catalog \<times> price_disk)" where
  "edit_catalog cx ok e expected c disk =
     (case apply_edit cx e (pc_versions c) of
        Inl err \<Rightarrow> Inl err | Inr vs \<Rightarrow> commit_versions cx ok vs expected c disk)"

definition import_from ::
    "price_codec \<Rightarrow> bool \<Rightarrow> string \<Rightarrow> int option \<Rightarrow> catalog \<Rightarrow> price_disk \<Rightarrow> price_error + (catalog \<times> price_disk)" where
  "import_from cx ok p expected c disk =
     (case read_document disk p of
        Inl e \<Rightarrow> Inl e | Inr d \<Rightarrow> edit_catalog cx ok (ImportDocument d) expected c disk)"

definition bind_path :: "catalog \<Rightarrow> string option \<Rightarrow> price_error + string" where
  "bind_path c p =
     (case p of Some q \<Rightarrow> Inr q | None \<Rightarrow> (case pc_path c of None \<Rightarrow> Inl NoCatalogPath | Some q \<Rightarrow> Inr q))"

text \<open>A document that is empty counts as none, as in the code.\<close>

definition save_to ::
    "price_codec \<Rightarrow> bool \<Rightarrow> string \<Rightarrow> (string \<times> json) list option \<Rightarrow> catalog \<Rightarrow> price_disk \<Rightarrow>
     price_error + (catalog \<times> price_disk)" where
  "save_to cx ok target current c disk =
     (case (if pc_path c \<noteq> None \<and> current \<noteq> None then check_current c current None else None) of
        Some e \<Rightarrow> Inl e
      | None \<Rightarrow>
          (case (case current of None \<Rightarrow> Some 0 | Some d \<Rightarrow> current_revision d) of
             None \<Rightarrow> Inl InvalidDocument
           | Some revision \<Rightarrow>
               if \<not> ok then Inl TransactionFailed
               else (let d' = catalog_document cx (pc_versions c) revision in
                     Inr (c\<lparr>pc_path := Some target, pc_revision := revision, pc_integrity := document_integrity d'\<rparr>,
                          persist_document target d' (current \<noteq> None \<and> current \<noteq> Some []) disk))))"

definition save_catalog ::
    "price_codec \<Rightarrow> bool \<Rightarrow> string option \<Rightarrow> catalog \<Rightarrow> price_disk \<Rightarrow> price_error + (catalog \<times> price_disk)" where
  "save_catalog cx ok p c disk =
     (case bind_path c p of
        Inl e \<Rightarrow> Inl e
      | Inr target \<Rightarrow>
          if is_file disk target
          then (case read_document disk target of Inl e \<Rightarrow> Inl e | Inr d \<Rightarrow> save_to cx ok target (Some d) c disk)
          else save_to cx ok target None c disk)"

definition export_document :: "price_codec \<Rightarrow> catalog \<Rightarrow> (string \<times> json) list" where
  "export_document cx c = catalog_document cx (pc_versions c) (pc_revision c)"

definition export_to :: "price_codec \<Rightarrow> bool \<Rightarrow> string \<Rightarrow> catalog \<Rightarrow> price_disk \<Rightarrow> price_error + price_disk" where
  "export_to cx ok target c disk =
     (if ok then Inr (persist_document target (export_document cx c) False disk) else Inl TransactionFailed)"

definition backup_generations :: "catalog \<Rightarrow> price_disk \<Rightarrow> nat list" where
  "backup_generations c disk =
     (case pc_path c of
        None \<Rightarrow> []
      | Some target \<Rightarrow> filter (\<lambda>g. is_file disk (the (backup_path target g))) [1, 2, 3])"

definition refresh_catalog :: "price_codec \<Rightarrow> catalog \<Rightarrow> price_disk \<Rightarrow> price_error + (int \<times> catalog)" where
  "refresh_catalog cx c disk =
     (case pc_path c of
        None \<Rightarrow> Inl NoCatalogPath
      | Some target \<Rightarrow>
          (case load_locked cx disk target of Inl e \<Rightarrow> Inl e | Inr c' \<Rightarrow> Inr (pc_revision c', c')))"

definition select_backup :: "price_disk \<Rightarrow> string \<Rightarrow> nat option \<Rightarrow> price_error + string" where
  "select_backup disk target generation =
     (case generation of
        Some g \<Rightarrow> (case backup_path target g of None \<Rightarrow> Inl NoSuchGeneration | Some p \<Rightarrow> Inr p)
      | None \<Rightarrow>
          (let newest = the (backup_path target 1)
           in Inr (if is_file disk newest then newest else legacy_backup_path target)))"

definition restore_from ::
    "price_codec \<Rightarrow> bool \<Rightarrow> string \<Rightarrow> string \<Rightarrow> (string \<times> json) list \<Rightarrow> (string \<times> json) list option \<Rightarrow> int option \<Rightarrow>
     catalog \<Rightarrow> price_disk \<Rightarrow> price_error + (catalog \<times> price_disk)" where
  "restore_from cx ok target selected source current expected c disk =
     (case (case current of None \<Rightarrow> Some (pc_revision c)
            | Some d \<Rightarrow> if d = [] \<or> map_of d ''revision'' = None then Some (pc_revision c) else current_revision d) of
        None \<Rightarrow> Inl InvalidDocument
      | Some r \<Rightarrow>
          (case check_current c current expected of
             Some e \<Rightarrow> Inl e
           | None \<Rightarrow>
               (case parse_document cx source of
                  Inl e \<Rightarrow> Inl e
                | Inr (vs, _) \<Rightarrow>
                    if \<not> ok then Inl TransactionFailed
                    else (let d' = catalog_document cx vs (r + 1);
                              disk' = persist_document target d' (current \<noteq> None \<and> current \<noteq> Some []) disk
                          in Inr (c\<lparr>pc_versions := vs, pc_path := Some target, pc_revision := r + 1,
                                    pc_integrity := document_integrity d'\<rparr>,
                                  if current = None \<and> selected = legacy_backup_path target
                                  then disk'(selected := None) else disk')))))"

definition restore_backup ::
    "price_codec \<Rightarrow> bool \<Rightarrow> string option \<Rightarrow> nat option \<Rightarrow> int option \<Rightarrow> catalog \<Rightarrow> price_disk \<Rightarrow>
     price_error + (catalog \<times> price_disk)" where
  "restore_backup cx ok p generation expected c disk =
     (case bind_path c p of
        Inl e \<Rightarrow> Inl e
      | Inr target \<Rightarrow>
          (case select_backup disk target generation of
             Inl e \<Rightarrow> Inl e
           | Inr selected \<Rightarrow>
               if \<not> is_file disk selected then Inl NoSuchBackup
               else (case read_document disk selected of
                       Inl e \<Rightarrow> Inl e
                     | Inr source \<Rightarrow>
                         (if is_file disk target
                          then (case read_document disk target of
                                  Inl e \<Rightarrow> Inl e
                                | Inr d \<Rightarrow> restore_from cx ok target selected source (Some d) expected c disk)
                          else restore_from cx ok target selected source None expected c disk))))"

section \<open>The effective price\<close>

definition effective_matches :: "string \<Rightarrow> string \<Rightarrow> seconds \<Rightarrow> catalog \<Rightarrow> price_version list" where
  "effective_matches provider model t c =
     filter (\<lambda>v. pv_provider v = provider \<and> pv_model v = model \<and> pv_from v \<le> t) (pc_versions c)"

text \<open>\<open>max\<close> keeps the first of equal keys.\<close>

fun latest :: "price_version \<Rightarrow> price_version list \<Rightarrow> price_version" where
  "latest best [] = best"
| "latest best (v # vs) = latest (if pv_from best < pv_from v then v else best) vs"

definition resolve_price :: "string \<Rightarrow> string \<Rightarrow> seconds \<Rightarrow> catalog \<Rightarrow> price_error + price_version" where
  "resolve_price provider model t c =
     (case effective_matches provider model t c of
        [] \<Rightarrow> Inl NoEffectivePrice | v # vs \<Rightarrow> Inr (latest v vs))"

end
