(* ===== verification/Price_Store.thy ===== *)
theory Price_Store
  imports Price_Catalog
begin

text \<open>
  Several processes with the price catalogue of one file (\<open>llm/pricing.py\<close>): every operation of every
  process keeps the file and its backups readable, and an edit that succeeds acts on what the file holds.
\<close>

section \<open>Versions side by side\<close>

definition settled_price :: "price_version \<Rightarrow> bool" where
  "settled_price v = (make_price v = Some v)"

definition apart :: "price_version \<Rightarrow> price_version \<Rightarrow> bool" where
  "apart a b = (pv_id b \<noteq> pv_id a \<and> \<not> same_slot b a)"

definition wf_versions :: "price_version list \<Rightarrow> bool" where
  "wf_versions vs = (sorted_wrt apart vs \<and> list_all settled_price vs)"

lemma added: "add_to_mapping v vs = Inr vs' \<longleftrightarrow> vs' = vs @ [v] \<and> (\<forall>e\<in>set vs. apart e v)"
  by (auto simp: add_to_mapping_def apart_def list_ex_iff)

lemma all_added: "add_all new vs = Inr vs' \<Longrightarrow> vs' = vs @ new \<and> (sorted_wrt apart vs \<longrightarrow> sorted_wrt apart vs')"
proof (induction new arbitrary: vs)
  case (Cons v new)
  from Cons.prems obtain "\<forall>e\<in>set vs. apart e v" "add_all new (vs @ [v]) = Inr vs'"
    by (auto simp: added split: sum.splits)
  with Cons.IH [of "vs @ [v]"] show ?case by (auto simp: sorted_wrt_append)
qed simp

lemma add_all_wf: "sorted_wrt apart (vs @ new) \<Longrightarrow> add_all new vs = Inr (vs @ new)"
proof (induction new arbitrary: vs)
  case (Cons v new)
  then have "add_to_mapping v vs = Inr (vs @ [v])" by (auto simp: added sorted_wrt_append)
  with Cons show ?case by simp
qed simp

text \<open>What is asked of pydantic and of the digest: a version that was accepted is dumped to an object that is
  accepted as the same version, accepted versions are settled, and a digest is not empty.\<close>

definition codec_ok :: "price_codec \<Rightarrow> bool" where
  "codec_ok cx =
     ((\<forall>v. settled_price v \<longrightarrow> pd_validate cx (pd_dump cx v) = Some v \<and> json_object (pd_dump cx v) \<noteq> None) \<and>
      (\<forall>j v. pd_validate cx j = Some v \<longrightarrow> settled_price v) \<and> (\<forall>d. pd_digest cx d \<noteq> []))"

lemma codec_okD:
  assumes "codec_ok cx"
  shows "settled_price v \<Longrightarrow> pd_validate cx (pd_dump cx v) = Some v"
    "settled_price v \<Longrightarrow> json_object (pd_dump cx v) \<noteq> None" "pd_validate cx j = Some v \<Longrightarrow> settled_price v"
    "pd_digest cx d \<noteq> []"
  using assms by (auto simp: codec_ok_def)

lemma validated_dumps:
  assumes "codec_ok cx" "list_all settled_price new"
  shows "validate_all cx (map (pd_dump cx) new) vs = add_all new vs"
  using assms(2)
proof (induction new arbitrary: vs)
  case (Cons v new)
  then have "pd_validate cx (pd_dump cx v) = Some v" "json_object (pd_dump cx v) \<noteq> None"
    using codec_okD(1,2) [OF assms(1)] by auto
  with Cons show ?case by (auto split: sum.split)
qed simp

lemma validated_wf:
  assumes "codec_ok cx"
  shows "validate_all cx js vs = Inr vs' \<Longrightarrow> wf_versions vs \<Longrightarrow> wf_versions vs'"
proof (induction js arbitrary: vs)
  case (Cons j js)
  from Cons.prems(1) obtain v where v: "pd_validate cx j = Some v" "\<forall>e\<in>set vs. apart e v"
    "validate_all cx js (vs @ [v]) = Inr vs'"
    by (auto simp: added split: option.splits if_splits sum.splits)
  with Cons.prems(2) codec_okD(3) [OF assms v(1)] have "wf_versions (vs @ [v])"
    by (auto simp: wf_versions_def sorted_wrt_append)
  with Cons.IH v(3) show ?case by blast
qed simp

section \<open>Good documents\<close>

definition good_document :: "price_codec \<Rightarrow> json option \<Rightarrow> bool" where
  "good_document cx t =
     (\<exists>vs r. t = Some (JObj (catalog_document cx vs r)) \<and> wf_versions vs \<and> 0 \<le> r)"

lemma document_fields [simp]:
  "map_of (catalog_document cx vs r) ''schema'' = Some (JStr ''kirara-ai.price-catalog'')"
  "map_of (catalog_document cx vs r) ''schema_version'' = Some (JInt 1)"
  "map_of (catalog_document cx vs r) ''format_version'' = Some (JInt 1)"
  "map_of (catalog_document cx vs r) ''revision'' = Some (JInt r)"
  "map_of (catalog_document cx vs r) ''versions'' = Some (JArr (map (pd_dump cx) vs))"
  "map_of (catalog_document cx vs r) ''integrity'' = Some (JStr (compute_integrity cx (document_body cx vs r)))"
  by (simp_all add: catalog_document_def document_body_def)

lemma document_digest [simp]:
  "compute_integrity cx (catalog_document cx vs r) = compute_integrity cx (document_body cx vs r)"
  by (simp add: compute_integrity_def canonical_document_def catalog_document_def)

lemma parsed_document:
  assumes "codec_ok cx" "wf_versions vs" "0 \<le> r"
  shows "parse_document cx (catalog_document cx vs r) = Inr (vs, r)"
  using assms add_all_wf [of "[]" vs]
  by (simp add: parse_document_def is_one_def parse_revision_def integrity_holds_def validated_dumps wf_versions_def)

lemma current_document [simp]: "current_revision (catalog_document cx vs r) = Some r"
  by (simp add: current_revision_def truncate_number_def)

lemma digest_of_document:
  "codec_ok cx \<Longrightarrow>
     document_integrity (catalog_document cx vs r) = Some (compute_integrity cx (document_body cx vs r))"
  by (simp add: document_integrity_def compute_integrity_def codec_okD)

lemma document_nonempty [simp]: "catalog_document cx vs r \<noteq> []"
  by (simp add: catalog_document_def)

section \<open>Processes\<close>

definition kept_files :: "string \<Rightarrow> string set" where
  "kept_files target =
     {target, legacy_backup_path target, the (backup_path target 1), the (backup_path target 2),
      the (backup_path target 3)}"

definition disk_ok :: "price_codec \<Rightarrow> string \<Rightarrow> price_disk \<Rightarrow> bool" where
  "disk_ok cx target disk = (\<forall>p\<in>kept_files target. \<forall>t. disk p = Some t \<longrightarrow> good_document cx t)"

definition catalog_ok :: "price_codec \<Rightarrow> string \<Rightarrow> catalog \<Rightarrow> bool" where
  "catalog_ok cx target c =
     (wf_versions (pc_versions c) \<and> pc_path c = Some target \<and> 0 \<le> pc_revision c \<and>
      pc_integrity c = document_integrity (catalog_document cx (pc_versions c) (pc_revision c)))"

definition settled_edit :: "price_edit \<Rightarrow> bool" where
  "settled_edit e = (case e of AddVersion v \<Rightarrow> settled_price v | UpdateVersion v \<Rightarrow> settled_price v | _ \<Rightarrow> True)"

text \<open>A version that its constructor rejects never arrives; a call that raises changes nothing.\<close>

datatype price_event =
    PeOpen bool
  | PeEdit nat bool price_edit "int option"
  | PeSave nat bool
  | PeRefresh nat
  | PeRestore nat bool "nat option" "int option"

definition with_catalog ::
    "nat \<Rightarrow> (catalog \<Rightarrow> price_disk \<Rightarrow> price_error + (catalog \<times> price_disk)) \<Rightarrow>
     price_disk \<times> catalog list \<Rightarrow> price_disk \<times> catalog list" where
  "with_catalog i f s =
     (case s of (disk, cs) \<Rightarrow>
        if i < length cs
        then (case f (cs ! i) disk of Inl e \<Rightarrow> (disk, cs) | Inr (c, disk') \<Rightarrow> (disk', cs[i := c]))
        else (disk, cs))"

fun price_step :: "price_codec \<Rightarrow> string \<Rightarrow> price_event \<Rightarrow> price_disk \<times> catalog list \<Rightarrow> price_disk \<times> catalog list" where
  "price_step cx target (PeOpen ok) (disk, cs) =
     (case load_or_create cx ok target disk of Inl e \<Rightarrow> (disk, cs) | Inr (c, disk') \<Rightarrow> (disk', cs @ [c]))"
| "price_step cx target (PeEdit i ok e expected) s =
     (if settled_edit e then with_catalog i (edit_catalog cx ok e expected) s else s)"
| "price_step cx target (PeSave i ok) s = with_catalog i (save_catalog cx ok None) s"
| "price_step cx target (PeRefresh i) s =
     with_catalog i (\<lambda>c disk. case refresh_catalog cx c disk of Inl e \<Rightarrow> Inl e | Inr (_, c') \<Rightarrow> Inr (c', disk)) s"
| "price_step cx target (PeRestore i ok generation expected) s =
     with_catalog i (restore_backup cx ok None generation expected) s"

definition price_inv :: "price_codec \<Rightarrow> string \<Rightarrow> price_disk \<times> catalog list \<Rightarrow> bool" where
  "price_inv cx target s = (disk_ok cx target (fst s) \<and> list_all (catalog_ok cx target) (snd s))"

lemma read_good:
  assumes "disk_ok cx target disk" "p \<in> kept_files target" "read_document disk p = Inr d"
  obtains vs r where "d = catalog_document cx vs r" "wf_versions vs" "0 \<le> r"
proof -
  from assms(3) obtain t where t: "disk p = Some (Some (JObj t))" "d = t"
    by (auto simp: read_document_def split: option.splits json.splits elim!: json_object.elims)
  with assms(1,2) have "good_document cx (Some (JObj d))" by (auto simp: disk_ok_def)
  with that show thesis by (auto simp: good_document_def)
qed

lemma target_kept [simp]: "target \<in> kept_files target"
  by (simp add: kept_files_def)

lemma rotated_ok:
  "disk_ok cx target before \<Longrightarrow> disk_ok cx target disk \<Longrightarrow> p \<in> kept_files target \<Longrightarrow>
     disk_ok cx target (rotate_backup before p q disk)"
  by (auto simp: disk_ok_def rotate_backup_def is_file_def)

lemma persisted_ok:
  assumes "disk_ok cx target disk" "wf_versions vs" "0 \<le> r"
  shows "disk_ok cx target (persist_document target (catalog_document cx vs r) backup disk)"
proof -
  have good: "good_document cx (Some (JObj (catalog_document cx vs r)))" using assms(2,3) by (auto simp: good_document_def)
  with assms(1) have w: "disk_ok cx target (disk(target := Some (Some (JObj (catalog_document cx vs r)))))"
    by (auto simp: disk_ok_def)
  have old: "disk_ok cx target (D(p := disk target))" if "disk_ok cx target D" for D p
    using that assms(1) by (auto simp: disk_ok_def)
  from w show ?thesis
    unfolding persist_document_def Let_def
    by (auto intro!: rotated_ok old assms(1) simp: kept_files_def)
qed

lemma persisted_target:
  "persist_document target d backup disk target = Some (Some (JObj d))"
proof -
  have "target \<noteq> legacy_backup_path target" "target \<noteq> the (backup_path target 1)"
    "target \<noteq> the (backup_path target 2)" "target \<noteq> the (backup_path target 3)"
    by (simp_all add: legacy_backup_path_def backup_path_def)
  then show ?thesis by (simp add: persist_document_def Let_def rotate_backup_def del: One_nat_def)
qed

section \<open>Every operation keeps them\<close>

lemma edited_wf:
  assumes "codec_ok cx" "wf_versions vs" "settled_edit e" "apply_edit cx e vs = Inr vs'"
  shows "wf_versions vs'"
proof -
  have add: "wf_versions (us @ [v])" if "wf_versions us" "settled_price v" "\<forall>u\<in>set us. apart u v" for us v
    using that by (auto simp: wf_versions_def sorted_wrt_append)
  have drop: "wf_versions (filter P vs)" for P
    using assms(2) by (auto simp: wf_versions_def sorted_wrt_filter list_all_iff)
  show ?thesis
  proof (cases e)
    case (ImportDocument d)
    with assms(4) obtain new r where new: "parse_document cx d = Inr (new, r)" "add_all new vs = Inr vs'"
      by (auto split: sum.splits)
    then obtain js where "validate_all cx js [] = Inr new"
      by (auto simp: parse_document_def split: if_splits option.splits json.splits sum.splits)
    from validated_wf [OF assms(1) this] have "list_all settled_price new" by (simp add: wf_versions_def)
    with all_added [OF new(2)] assms(2) show ?thesis by (auto simp: wf_versions_def)
  qed (use assms(2-4) drop in \<open>auto simp: added settled_edit_def intro!: add split: if_splits\<close>)
qed

lemma price_committed:
  assumes "commit_versions cx ok vs expected c disk = Inr (c', disk')" "pc_path c = Some target"
  obtains d where "read_document disk target = Inr d" "check_current c (Some d) expected = None"
    "c' = c\<lparr>pc_versions := vs, pc_revision := the (current_revision d) + 1,
            pc_integrity := document_integrity (catalog_document cx vs (the (current_revision d) + 1))\<rparr>"
    "disk' = persist_document target (catalog_document cx vs (the (current_revision d) + 1)) True disk"
  using assms by (auto simp: commit_versions_def Let_def split: sum.splits option.splits if_splits)

lemma edited_ok:
  assumes "codec_ok cx" "disk_ok cx target disk" "catalog_ok cx target c" "settled_edit e"
    and "edit_catalog cx ok e expected c disk = Inr (c', disk')"
  shows "disk_ok cx target disk' \<and> catalog_ok cx target c'"
proof -
  from assms(5) obtain vs where vs: "apply_edit cx e (pc_versions c) = Inr vs"
    and commit: "commit_versions cx ok vs expected c disk = Inr (c', disk')"
    by (auto simp: edit_catalog_def split: sum.splits)
  have wf: "wf_versions vs" using edited_wf [OF assms(1) _ assms(4) vs] assms(3) by (simp add: catalog_ok_def)
  have path: "pc_path c = Some target" using assms(3) by (simp add: catalog_ok_def)
  from commit path obtain d where d: "read_document disk target = Inr d"
    "c' = c\<lparr>pc_versions := vs, pc_revision := the (current_revision d) + 1,
            pc_integrity := document_integrity (catalog_document cx vs (the (current_revision d) + 1))\<rparr>"
    "disk' = persist_document target (catalog_document cx vs (the (current_revision d) + 1)) True disk"
    by (rule price_committed)
  from read_good [OF assms(2) target_kept d(1)] obtain us r where "d = catalog_document cx us r" "0 \<le> r" .
  with d(2,3) wf path assms(2) show ?thesis by (auto simp: catalog_ok_def intro!: persisted_ok)
qed

lemma loaded_ok:
  assumes "codec_ok cx" "disk_ok cx target disk" "load_locked cx disk target = Inr c"
  shows "catalog_ok cx target c"
proof -
  from assms(3) obtain d where d: "read_document disk target = Inr d" by (auto simp: load_locked_def split: sum.splits)
  from read_good [OF assms(2) target_kept d] obtain vs r where doc: "d = catalog_document cx vs r" "wf_versions vs" "0 \<le> r" .
  with assms(3) d parsed_document [OF assms(1) doc(2,3)] show ?thesis by (auto simp: load_locked_def catalog_ok_def)
qed

lemma opened_ok:
  assumes "codec_ok cx" "disk_ok cx target disk" "load_or_create cx ok target disk = Inr (c, disk')"
  shows "disk_ok cx target disk' \<and> catalog_ok cx target c"
proof (cases "is_file disk target")
  case True
  with assms(3) loaded_ok [OF assms(1,2)] assms(2) show ?thesis by (auto simp: load_or_create_def split: sum.splits)
next
  case False
  have "wf_versions []" by (simp add: wf_versions_def)
  with False assms(2,3) show ?thesis
    by (auto simp: load_or_create_def Let_def catalog_ok_def split: if_splits intro!: persisted_ok)
qed

lemma saved_ok:
  assumes "codec_ok cx" "disk_ok cx target disk" "catalog_ok cx target c"
    and "save_catalog cx ok None c disk = Inr (c', disk')"
  shows "disk_ok cx target disk' \<and> catalog_ok cx target c'"
proof -
  have c: "pc_path c = Some target" "wf_versions (pc_versions c)" using assms(3) by (simp_all add: catalog_ok_def)
  obtain current where "save_to cx ok target current c disk = Inr (c', disk')"
    and cur: "\<And>d. current = Some d \<Longrightarrow> read_document disk target = Inr d"
    using assms(4) c(1) by (auto simp: save_catalog_def bind_path_def split: if_splits sum.splits)
  then obtain r b where r: "(case current of None \<Rightarrow> Some 0 | Some d \<Rightarrow> current_revision d) = Some r"
    "c' = c\<lparr>pc_path := Some target, pc_revision := r, pc_integrity := document_integrity (catalog_document cx (pc_versions c) r)\<rparr>"
    "disk' = persist_document target (catalog_document cx (pc_versions c) r) b disk"
    by (auto simp: save_to_def Let_def split: option.splits if_splits)
  have "0 \<le> r"
  proof (cases current)
    case (Some d)
    from read_good [OF assms(2) target_kept cur [OF Some]] obtain vs r' where "d = catalog_document cx vs r'" "0 \<le> r'" .
    with r(1) Some show ?thesis by simp
  qed (use r in simp)
  with r(2,3) c assms(2) show ?thesis by (auto simp: catalog_ok_def intro!: persisted_ok)
qed

lemma selected_kept: "select_backup disk target g = Inr p \<Longrightarrow> p \<in> kept_files target"
proof (cases g)
  case (Some n)
  assume "select_backup disk target g = Inr p"
  with Some have "backup_path target n = Some p" by (auto simp: select_backup_def split: option.splits)
  then have "n \<in> {1, 2, 3}" "p = the (backup_path target n)" by (auto simp: backup_path_def split: if_splits)
  then show ?thesis by (auto simp: kept_files_def)
qed (auto simp: select_backup_def kept_files_def Let_def)

lemma restored_ok:
  assumes "codec_ok cx" "disk_ok cx target disk" "catalog_ok cx target c"
    and "restore_backup cx ok None g expected c disk = Inr (c', disk')"
  shows "disk_ok cx target disk' \<and> catalog_ok cx target c'"
proof -
  have path: "pc_path c = Some target" and rev: "0 \<le> pc_revision c" using assms(3) by (simp_all add: catalog_ok_def)
  from assms(4) path obtain p source current where p: "select_backup disk target g = Inr p" "read_document disk p = Inr source"
    and restore: "restore_from cx ok target p source current expected c disk = Inr (c', disk')"
    and cur: "\<And>d. current = Some d \<Longrightarrow> read_document disk target = Inr d"
    by (auto simp: restore_backup_def bind_path_def split: if_splits sum.splits)
  from read_good [OF assms(2) selected_kept [OF p(1)] p(2)] obtain vs r0
    where source: "source = catalog_document cx vs r0" "wf_versions vs" "0 \<le> r0" .
  from restore parsed_document [OF assms(1) source(2,3)] source(1) obtain r b where r:
    "(case current of None \<Rightarrow> Some (pc_revision c)
      | Some d \<Rightarrow> if d = [] \<or> map_of d ''revision'' = None then Some (pc_revision c) else current_revision d) = Some r"
    "c' = c\<lparr>pc_versions := vs, pc_path := Some target, pc_revision := r + 1,
            pc_integrity := document_integrity (catalog_document cx vs (r + 1))\<rparr>"
    "disk' = (let D = persist_document target (catalog_document cx vs (r + 1)) b disk
              in if current = None \<and> p = legacy_backup_path target then D(p := None) else D)"
    by (auto simp: restore_from_def Let_def split: option.splits if_splits)
  have "0 \<le> r"
  proof (cases current)
    case (Some d)
    from read_good [OF assms(2) target_kept cur [OF Some]] obtain us r' where "d = catalog_document cx us r'" "0 \<le> r'" .
    with r(1) Some show ?thesis by simp
  qed (use r rev in simp)
  then have "disk_ok cx target (persist_document target (catalog_document cx vs (r + 1)) b disk)"
    using source(2) assms(2) by (intro persisted_ok) auto
  then have "disk_ok cx target disk'" unfolding r(3) by (auto simp: Let_def disk_ok_def)
  with r(2) source(2) \<open>0 \<le> r\<close> show ?thesis by (auto simp: catalog_ok_def)
qed

lemma with_catalog_inv:
  assumes "price_inv cx target s"
    and "\<And>c disk c' disk'. disk_ok cx target disk \<Longrightarrow> catalog_ok cx target c \<Longrightarrow> f c disk = Inr (c', disk') \<Longrightarrow>
      disk_ok cx target disk' \<and> catalog_ok cx target c'"
  shows "price_inv cx target (with_catalog i f s)"
proof -
  obtain disk cs where s: "s = (disk, cs)" by (cases s)
  show ?thesis
  proof (cases "i < length cs")
    case True
    show ?thesis
    proof (cases "f (cs ! i) disk")
      case (Inr x)
      obtain c' disk' where x: "x = (c', disk')" by (cases x)
      have "disk_ok cx target disk' \<and> catalog_ok cx target c'"
        using assms(1) True Inr x by (intro assms(2) [of disk "cs ! i"]) (auto simp: price_inv_def s list_all_length)
      with assms(1) True Inr x show ?thesis
        by (auto simp: with_catalog_def price_inv_def s list_all_length nth_list_update)
    qed (use assms(1) s in \<open>simp add: with_catalog_def\<close>)
  qed (use assms(1) s in \<open>simp add: with_catalog_def\<close>)
qed

lemma price_step_inv:
  assumes "codec_ok cx" "price_inv cx target s"
  shows "price_inv cx target (price_step cx target e s)"
proof (cases e)
  case (PeOpen ok)
  with assms opened_ok [OF assms(1)] show ?thesis
    by (cases s) (auto simp: price_inv_def split: sum.splits)
next
  case (PeEdit i ok e expected)
  have "price_inv cx target (with_catalog i (edit_catalog cx ok e expected) s)" if "settled_edit e"
    by (rule with_catalog_inv [OF assms(2) edited_ok [OF assms(1) _ _ that]])
  with assms(2) PeEdit show ?thesis by (cases s) simp
next
  case (PeSave i ok)
  have "price_inv cx target (with_catalog i (save_catalog cx ok None) s)"
    by (rule with_catalog_inv [OF assms(2) saved_ok [OF assms(1)]])
  with PeSave show ?thesis by (cases s) simp
next
  case (PeRefresh i)
  have "disk_ok cx target disk' \<and> catalog_ok cx target c'" if "disk_ok cx target disk" "catalog_ok cx target c"
    "(case refresh_catalog cx c disk of Inl e \<Rightarrow> Inl e | Inr (_, c') \<Rightarrow> Inr (c', disk)) = (Inr (c', disk') :: price_error + _)"
    for c disk c' disk'
    using that loaded_ok [OF assms(1) that(1)]
    by (auto simp: refresh_catalog_def catalog_ok_def split: sum.splits option.splits)
  from with_catalog_inv [OF assms(2) this] PeRefresh show ?thesis by (cases s) simp
next
  case (PeRestore i ok g expected)
  have "price_inv cx target (with_catalog i (restore_backup cx ok None g expected) s)"
    by (rule with_catalog_inv [OF assms(2) restored_ok [OF assms(1)]])
  with PeRestore show ?thesis by (cases s) simp
qed

lemma price_run_inv:
  "codec_ok cx \<Longrightarrow> price_inv cx target s \<Longrightarrow> price_inv cx target (fold (price_step cx target) es s)"
proof (induction es arbitrary: s)
  case (Cons e es)
  from price_step_inv [OF Cons.prems] Cons.IH Cons.prems(1) show ?case by simp
qed simp

section \<open>No edit is lost\<close>

definition file_versions :: "price_codec \<Rightarrow> price_disk \<Rightarrow> string \<Rightarrow> price_error + (price_version list \<times> int)" where
  "file_versions cx disk p =
     (case read_document disk p of Inl e \<Rightarrow> Inl e | Inr d \<Rightarrow> parse_document cx d)"

text \<open>Two different documents with one digest.\<close>

definition digest_clash ::
    "price_codec \<Rightarrow> price_version list \<times> int \<Rightarrow> price_version list \<times> int \<Rightarrow> bool" where
  "digest_clash cx a b =
     (canonical_document (document_body cx (fst a) (snd a)) \<noteq> canonical_document (document_body cx (fst b) (snd b)) \<and>
      compute_integrity cx (document_body cx (fst a) (snd a)) = compute_integrity cx (document_body cx (fst b) (snd b)))"

lemma same_canonical:
  assumes "codec_ok cx" "wf_versions vs" "wf_versions us"
    and "canonical_document (document_body cx vs r) = canonical_document (document_body cx us q)"
  shows "vs = us"
proof -
  have no_digest: "filter (\<lambda>kv. fst kv \<noteq> ''integrity'') (document_body cx xs k) = document_body cx xs k" for xs k
    by (simp add: document_body_def)
  have "set (canonical_document (document_body cx xs k)) = set (document_body cx xs k)" for xs k
    unfolding canonical_document_def no_digest by (rule set_sort)
  from this [of vs r] this [of us q] assms(4) have same: "set (document_body cx vs r) = set (document_body cx us q)" by simp
  have "(''versions'', JArr (map (pd_dump cx) vs)) \<in> set (document_body cx vs r)" by (simp add: document_body_def)
  then have "(''versions'', JArr (map (pd_dump cx) vs)) \<in> set (document_body cx us q)" unfolding same .
  then have dumps: "map (pd_dump cx) vs = map (pd_dump cx) us" by (simp add: document_body_def)
  have undump: "map (pd_validate cx) (map (pd_dump cx) xs) = map Some xs" if "wf_versions xs" for xs
    using that by (simp add: wf_versions_def list_all_iff codec_okD(1) [OF assms(1)])
  have "map Some vs = map Some us" using undump [OF assms(2)] undump [OF assms(3)] unfolding dumps by simp
  then show ?thesis by (simp add: inj_map_eq_map)
qed

lemma checked:
  assumes "check_current c (Some (catalog_document cx vs r)) expected = None" "pc_path c \<noteq> None"
    and "pc_integrity c = Some s"
  shows "expected = None \<or> expected = Some r" "s = compute_integrity cx (document_body cx vs r)"
  using assms by (auto simp: check_current_def split: if_splits)

lemma persisted_backup:
  assumes "is_file disk target"
  shows "persist_document target d True disk (the (backup_path target 1)) = disk target"
proof -
  have "the (backup_path target 1) \<noteq> the (backup_path target 2)" "the (backup_path target 1) \<noteq> the (backup_path target 3)"
    "the (backup_path target 1) \<noteq> legacy_backup_path target"
    by (simp_all add: legacy_backup_path_def backup_path_def)
  with assms show ?thesis by (simp add: persist_document_def Let_def rotate_backup_def del: One_nat_def)
qed

lemma empty_system: "price_inv cx target (\<lambda>p. None, [])"
  by (simp add: price_inv_def disk_ok_def)

text \<open>C2. No price edit is lost. Several processes open the catalogue of one file and edit, save, refresh and
  restore it in any order, with writes that succeed or fail. An edit that succeeds acts on what the file
  holds at that moment: the file then holds the edited versions under the next revision, the process
  too, and the document before is the newest backup - unless two different documents have one digest.\<close>

theorem price_edits_are_never_lost:
  assumes "codec_ok cx" "fold (price_step cx target) es (\<lambda>p. None, []) = (disk, cs)" "i < length cs" "settled_edit e"
    and "edit_catalog cx ok e expected (cs ! i) disk = Inr (c', disk')"
  shows "\<exists>vs r. file_versions cx disk target = Inr (vs, r) \<and> expected \<in> {None, Some r} \<and>
    disk' (the (backup_path target 1)) = disk target \<and>
    (digest_clash cx (vs, r) (pc_versions (cs ! i), pc_revision (cs ! i)) \<or>
     (\<exists>vs'. apply_edit cx e vs = Inr vs' \<and> file_versions cx disk' target = Inr (vs', r + 1) \<and> pc_versions c' = vs'))"
proof -
  let ?c = "cs ! i"
  from price_run_inv [OF assms(1) empty_system, of target es] assms(2,3)
  have ok: "disk_ok cx target disk" "catalog_ok cx target ?c" by (auto simp: price_inv_def list_all_length)
  then have c: "wf_versions (pc_versions ?c)" "pc_path ?c = Some target"
    "pc_integrity ?c = Some (compute_integrity cx (document_body cx (pc_versions ?c) (pc_revision ?c)))"
    by (simp_all add: catalog_ok_def digest_of_document [OF assms(1)])
  from assms(5) obtain vs' where vs': "apply_edit cx e (pc_versions ?c) = Inr vs'"
    and commit: "commit_versions cx ok vs' expected ?c disk = Inr (c', disk')"
    by (auto simp: edit_catalog_def split: sum.splits)
  have wf': "wf_versions vs'" by (rule edited_wf [OF assms(1) c(1) assms(4) vs'])
  from commit c(2) obtain d where d: "read_document disk target = Inr d" "check_current ?c (Some d) expected = None"
    "c' = ?c\<lparr>pc_versions := vs', pc_revision := the (current_revision d) + 1,
            pc_integrity := document_integrity (catalog_document cx vs' (the (current_revision d) + 1))\<rparr>"
    "disk' = persist_document target (catalog_document cx vs' (the (current_revision d) + 1)) True disk"
    by (rule price_committed)
  from read_good [OF ok(1) target_kept d(1)] obtain vs r where doc: "d = catalog_document cx vs r" "wf_versions vs" "0 \<le> r" .
  have now: "file_versions cx disk target = Inr (vs, r)"
    by (simp add: file_versions_def d(1) doc(1) parsed_document [OF assms(1) doc(2,3)])
  have new: "file_versions cx disk' target = Inr (vs', r + 1)"
    using doc(3) parsed_document [OF assms(1) wf', of "r + 1"]
    by (simp add: file_versions_def read_document_def d(4) doc(1) persisted_target)
  have there: "is_file disk target" using d(1) by (auto simp: read_document_def is_file_def split: option.splits)
  have "digest_clash cx (vs, r) (pc_versions ?c, pc_revision ?c) \<or> vs = pc_versions ?c"
    using checked(2) [OF d(2) [unfolded doc(1)] _ c(3)] c(2) same_canonical [OF assms(1) doc(2) c(1)]
    by (auto simp: digest_clash_def)
  moreover have "expected \<in> {None, Some r}" using checked(1) [OF d(2) [unfolded doc(1)] _ c(3)] c(2) by auto
  moreover have "disk' (the (backup_path target 1)) = disk target" unfolding d(4) by (rule persisted_backup [OF there])
  ultimately show ?thesis using now new vs' d(3) by auto
qed

text \<open>A codec whose digest counts the versions, and a process that adds a price.\<close>

definition plain_dump :: "price_version \<Rightarrow> json" where
  "plain_dump v =
     JObj [(''id'', JStr (pv_id v)), (''provider'', JStr (pv_provider v)), (''model'', JStr (pv_model v)),
       (''display'', (case pv_display v of None \<Rightarrow> JNull | Some d \<Rightarrow> JStr d)), (''from'', JFloat (pv_from v)),
       (''currency'', JStr (pv_currency v)), (''input'', JFloat (pv_input v)), (''output'', JFloat (pv_output v)),
       (''read'', JFloat (pv_read v)), (''write'', JFloat (pv_write v))]"

definition text_at :: "(string \<times> json) list \<Rightarrow> string \<Rightarrow> string option" where
  "text_at d k = Option.bind (map_of d k) json_string"

definition number_at :: "(string \<times> json) list \<Rightarrow> string \<Rightarrow> rat option" where
  "number_at d k = Option.bind (map_of d k) json_number"

definition plain_validate :: "json \<Rightarrow> price_version option" where
  "plain_validate j =
     Option.bind (json_object j) (\<lambda>d.
     Option.bind (text_at d ''id'') (\<lambda>i. Option.bind (text_at d ''provider'') (\<lambda>p.
     Option.bind (text_at d ''model'') (\<lambda>m. Option.bind (text_at d ''currency'') (\<lambda>c.
     Option.bind (number_at d ''from'') (\<lambda>f. Option.bind (number_at d ''input'') (\<lambda>a.
     Option.bind (number_at d ''output'') (\<lambda>b. Option.bind (number_at d ''read'') (\<lambda>r.
     Option.bind (number_at d ''write'') (\<lambda>w.
       make_price \<lparr>pv_id = i, pv_provider = p, pv_model = m, pv_display = text_at d ''display'', pv_from = f,
         pv_currency = c, pv_input = a, pv_output = b, pv_read = r, pv_write = w\<rparr>))))))))))"

definition plain_codec :: price_codec where
  "plain_codec = \<lparr>pd_dump = plain_dump, pd_validate = plain_validate,
     pd_digest = (\<lambda>d. case map_of d ''versions'' of Some (JArr js) \<Rightarrow> replicate (Suc (length js)) CHR ''x'' | _ \<Rightarrow> ''d'')\<rparr>"

lemma strip_twice [simp]: "str_strip (str_strip s) = str_strip s"
proof -
  have drop: "dropWhile P (dropWhile P xs) = dropWhile P xs" for P and xs :: string
    by (induction xs) auto
  have inner: "dropWhile P (rev (dropWhile P (rev xs))) = rev (dropWhile P (rev xs))"
    if "xs = [] \<or> \<not> P (hd xs)" for P and xs :: string
  proof (cases "rev (dropWhile P (rev xs))")
    case (Cons y ys)
    have "rev (dropWhile P (rev xs)) @ rev (takeWhile P (rev xs)) = xs"
      by (metis rev_append rev_rev_ident takeWhile_dropWhile_id)
    with Cons have "hd xs = y" by (metis append_Cons list.sel(1))
    moreover have "xs \<noteq> []" using Cons by auto
    ultimately have "\<not> P y" using that by simp
    with Cons show ?thesis by simp
  next
    case Nil
    show ?thesis unfolding Nil by simp
  qed
  have "dropWhile char_is_space s = [] \<or> \<not> char_is_space (hd (dropWhile char_is_space s))"
    using hd_dropWhile by blast
  from inner [where xs = "dropWhile char_is_space s" and P = char_is_space, OF this] show ?thesis by (simp add: str_strip_def drop)
qed

lemma made_settled: "make_price w = Some v \<Longrightarrow> settled_price v"
proof (cases "pv_display w")
  case (Some d)
  assume "make_price w = Some v"
  with Some have v: "v = w\<lparr>pv_display := Some (str_strip d)\<rparr>" "str_strip d \<noteq> []" "valid_price w"
    by (auto simp: make_price_def split: if_splits)
  have "length (str_strip d) \<le> length d"
    by (simp add: str_strip_def) (metis length_dropWhile_le length_rev order_trans)
  with v Some show ?thesis by (auto simp: settled_price_def make_price_def valid_price_def)
qed (auto simp: settled_price_def make_price_def split: if_splits)

lemma plain_codec_ok: "codec_ok plain_codec"
proof -
  have "plain_validate (plain_dump v) = Some v" if "settled_price v" for v
    using that by (cases v; cases "pv_display v")
      (auto simp: plain_dump_def plain_validate_def text_at_def number_at_def settled_price_def)
  moreover have "settled_price v" if "plain_validate j = Some v" for j v
    using that by (auto simp: plain_validate_def bind_eq_Some_conv intro: made_settled)
  ultimately show ?thesis
    by (auto simp: codec_ok_def plain_codec_def plain_dump_def split: option.splits json.splits)
qed

definition sample_price :: "string \<Rightarrow> seconds \<Rightarrow> price_version" where
  "sample_price i t = \<lparr>pv_id = i, pv_provider = ''acme'', pv_model = ''m'', pv_display = None, pv_from = t,
     pv_currency = ''USD'', pv_input = 3, pv_output = 9, pv_read = 0, pv_write = 0\<rparr>"

definition price_history :: "price_event list" where
  "price_history = [PeOpen True, PeOpen True, PeEdit 0 True (AddVersion (sample_price ''a'' 1)) None,
     PeEdit 1 True (AddVersion (sample_price ''b'' 2)) None, PeRefresh 1]"

theorem price_edits_are_never_lost_witness:
  "case fold (price_step plain_codec ''p'') price_history (\<lambda>p. None, []) of
     (disk, cs) \<Rightarrow>
       (case edit_catalog plain_codec True (AddVersion (sample_price ''b'' 2)) (Some 1) (cs ! 1) disk of
          Inl e \<Rightarrow> False
        | Inr (c', disk') \<Rightarrow>
            \<exists>vs r. file_versions plain_codec disk ''p'' = Inr (vs, r) \<and> Some 1 \<in> {None, Some r} \<and>
              disk' (the (backup_path ''p'' 1)) = disk ''p'')"
proof -
  obtain disk cs where run: "fold (price_step plain_codec ''p'') price_history (\<lambda>p. None, []) = (disk, cs)" by fastforce
  have "length (snd (fold (price_step plain_codec ''p'') price_history (\<lambda>p. None, []))) = 2" by code_simp
  with run have i: "1 < length cs" by simp
  have "case fold (price_step plain_codec ''p'') price_history (\<lambda>p. None, []) of (disk, cs) \<Rightarrow>
      \<not> (case edit_catalog plain_codec True (AddVersion (sample_price ''b'' 2)) (Some 1) (cs ! 1) disk of
           Inl e \<Rightarrow> True | Inr x \<Rightarrow> False)"
    by code_simp
  with run obtain c' disk' where
    e: "edit_catalog plain_codec True (AddVersion (sample_price ''b'' 2)) (Some 1) (cs ! 1) disk = Inr (c', disk')"
    by (auto split: sum.splits)
  have s: "settled_edit (AddVersion (sample_price ''b'' 2))" by code_simp
  from price_edits_are_never_lost [OF plain_codec_ok run i s e] obtain vs r where "file_versions plain_codec disk ''p'' = Inr (vs, r)" "Some 1 \<in> {None, Some r}"
      "disk' (the (backup_path ''p'' 1)) = disk ''p''" by blast
  then show ?thesis unfolding run prod.case e sum.case by blast
qed

section \<open>The effective price\<close>

lemma latest_max: "latest b vs \<in> set (b # vs) \<and> (\<forall>u\<in>set (b # vs). pv_from u \<le> pv_from (latest b vs))"
proof (induction vs arbitrary: b)
  case (Cons v vs)
  show ?case
  proof (cases "pv_from b < pv_from v")
    case True
    with Cons.IH [of v] show ?thesis by (simp add: order_trans [of "pv_from b" "pv_from v"])
  next
    case False
    with Cons.IH [of b] have "pv_from v \<le> pv_from (latest b vs)" by (simp add: not_less order_trans [of "pv_from v" "pv_from b"])
    with Cons.IH [of b] False show ?thesis by auto
  qed
qed simp

lemma apart_unique:
  assumes "sorted_wrt apart vs" "u \<in> set vs" "v \<in> set vs" "pv_provider u = pv_provider v" "pv_model u = pv_model v"
    and "pv_from u = pv_from v"
  shows "u = v"
  using assms by (induction vs) (auto simp: apart_def same_slot_def)

text \<open>C40. The effective price is the newest one. In every process, after any such history, the price of a
  request made at time \<open>t\<close> is the version of its provider and model that took effect last, at \<open>t\<close> or
  before, and that version is unique; there is no price only if no version of that provider and model had
  taken effect at \<open>t\<close>.\<close>

theorem effective_price_is_the_newest:
  assumes "codec_ok cx" "fold (price_step cx target) es (\<lambda>p. None, []) = (disk, cs)" "i < length cs"
  shows "(resolve_price provider model t (cs ! i) = Inr v \<longleftrightarrow>
      v \<in> set (pc_versions (cs ! i)) \<and> pv_provider v = provider \<and> pv_model v = model \<and> pv_from v \<le> t \<and>
      (\<forall>u\<in>set (pc_versions (cs ! i)).
         pv_provider u = provider \<and> pv_model u = model \<and> pv_from u \<le> t \<longrightarrow> u = v \<or> pv_from u < pv_from v)) \<and>
    (resolve_price provider model t (cs ! i) = Inl NoEffectivePrice \<longleftrightarrow>
      (\<forall>u\<in>set (pc_versions (cs ! i)). pv_provider u = provider \<and> pv_model u = model \<longrightarrow> t < pv_from u))"
proof -
  let ?ms = "effective_matches provider model t (cs ! i)"
  from price_run_inv [OF assms(1) empty_system, of target es] assms(2,3)
  have wf: "sorted_wrt apart (pc_versions (cs ! i))"
    by (auto simp: price_inv_def list_all_length catalog_ok_def wf_versions_def)
  have unique: "u = v" if "u \<in> set ?ms" "v \<in> set ?ms" "pv_from u = pv_from v" for u v
    using that apart_unique [OF wf, of u v] by (auto simp: effective_matches_def)
  have ms: "u \<in> set ?ms \<longleftrightarrow> u \<in> set (pc_versions (cs ! i)) \<and> pv_provider u = provider \<and> pv_model u = model \<and> pv_from u \<le> t" for u
    by (auto simp: effective_matches_def)
  have "(resolve_price provider model t (cs ! i) = Inr v \<longleftrightarrow>
        v \<in> set ?ms \<and> (\<forall>u\<in>set ?ms. u = v \<or> pv_from u < pv_from v)) \<and>
      (resolve_price provider model t (cs ! i) = Inl NoEffectivePrice \<longleftrightarrow> set ?ms = {})"
  proof (cases ?ms)
    case (Cons b vs)
    have best: "latest b vs \<in> set ?ms" "\<And>u. u \<in> set ?ms \<Longrightarrow> pv_from u \<le> pv_from (latest b vs)"
      using latest_max [of b vs] Cons by auto
    have "\<forall>u\<in>set ?ms. u = latest b vs \<or> pv_from u < pv_from (latest b vs)"
      using best unique by (metis order_less_le)
    moreover have "v = latest b vs" if "v \<in> set ?ms" "\<forall>u\<in>set ?ms. u = v \<or> pv_from u < pv_from v"
      using that best by (metis not_less)
    moreover have "resolve_price provider model t (cs ! i) = Inr (latest b vs)"
      by (simp add: resolve_price_def Cons)
    ultimately show ?thesis using best(1) Cons by auto
  qed (simp add: resolve_price_def)
  moreover have "set ?ms = {} \<longleftrightarrow>
      (\<forall>u\<in>set (pc_versions (cs ! i)). pv_provider u = provider \<and> pv_model u = model \<longrightarrow> t < pv_from u)"
  proof -
    have "set ?ms = {} \<longleftrightarrow> (\<forall>u. u \<notin> set ?ms)" by (rule all_not_in_conv [symmetric])
    then show ?thesis unfolding ms by (auto simp: not_le)
  qed
  moreover have "(\<forall>u\<in>set ?ms. u = v \<or> pv_from u < pv_from v) \<longleftrightarrow>
      (\<forall>u\<in>set (pc_versions (cs ! i)).
         pv_provider u = provider \<and> pv_model u = model \<and> pv_from u \<le> t \<longrightarrow> u = v \<or> pv_from u < pv_from v)"
    using ms by blast
  ultimately show ?thesis unfolding ms by blast
qed

text \<open>A request between the two prices gets the older one.\<close>

theorem effective_price_is_the_newest_witness:
  "resolve_price ''acme'' ''m'' (3 / 2)
     (snd (fold (price_step plain_codec ''p'') (price_history @ [PeEdit 1 True (AddVersion (sample_price ''b'' 2)) None])
        (\<lambda>p. None, [])) ! 1) = Inr (sample_price ''a'' 1)"
proof -
  let ?es = "price_history @ [PeEdit 1 True (AddVersion (sample_price ''b'' 2)) None]"
  obtain disk cs where run: "fold (price_step plain_codec ''p'') ?es (\<lambda>p. None, []) = (disk, cs)" by fastforce
  have "length (snd (fold (price_step plain_codec ''p'') ?es (\<lambda>p. None, []))) = 2 \<and>
      pc_versions (snd (fold (price_step plain_codec ''p'') ?es (\<lambda>p. None, [])) ! 1) =
        [sample_price ''a'' 1, sample_price ''b'' 2]" by code_simp
  with run have "1 < length cs" "pc_versions (cs ! 1) = [sample_price ''a'' 1, sample_price ''b'' 2]" by auto
  with effective_price_is_the_newest [OF plain_codec_ok run, of 1 "''acme''" "''m''" "3 / 2" "sample_price ''a'' 1"] run
  show ?thesis by (auto simp: sample_price_def)
qed

section \<open>Documents of older versions\<close>

text \<open>A document without a digest carries nothing to compare: of two processes that read it, each replaces
  what the other has added.\<close>

definition old_document :: "json option" where
  "old_document = Some (JObj (document_body plain_codec [] 0))"

lemma edit_lost_without_digest:
  "case fold (price_step plain_codec ''p'')
     [PeOpen True, PeOpen True, PeEdit 0 True (AddVersion (sample_price ''a'' 1)) None,
      PeEdit 1 True (AddVersion (sample_price ''b'' 2)) None] (\<lambda>p. if p = ''p'' then Some old_document else None, []) of
     (disk, cs) \<Rightarrow> file_versions plain_codec disk ''p'' = Inr ([sample_price ''b'' 2], 2)"
  by code_simp

end
