(* ===== verification/Price_Sync.thy ===== *)
theory Price_Sync
  imports Price_Store
begin

text \<open>
  Prices from a public catalogue (\<open>llm/pricing_sync.py\<close>) and the cost of one request
  (\<open>calculate_cost_snapshot\<close> of \<open>llm/pricing.py\<close>, \<open>_calculate_cost_snapshot\<close> of \<open>llm/llm_manager.py\<close>).

  Fetching is HTTP: what came back, a document or an error, is an argument, as are the clock and, for each
  entry, whether its write succeeds and what other processes make of the files before. Decimal arithmetic
  is exact here, as it is in the code up to 28 digits. The code reads a price number through its decimal
  text, which is the number itself.
\<close>

section \<open>Decimal numbers in a text\<close>

definition is_digit :: "char \<Rightarrow> bool" where
  "is_digit c = (48 \<le> (of_char c :: nat) \<and> (of_char c :: nat) \<le> 57)"

definition digits_value :: "string \<Rightarrow> nat" where
  "digits_value s = foldl (\<lambda>n c. 10 * n + (of_char c - 48)) 0 s"

definition ten_to :: "int \<Rightarrow> rat" where
  "ten_to k = (if 0 \<le> k then 10 ^ nat k else 1 / 10 ^ nat (- k))"

definition signed :: "string \<Rightarrow> bool \<times> string" where
  "signed s = (case s of [] \<Rightarrow> (False, s) | c # cs \<Rightarrow>
     if c = CHR ''-'' then (True, cs) else if c = CHR ''+'' then (False, cs) else (False, s))"

definition parse_exponent :: "string \<Rightarrow> int option" where
  "parse_exponent s =
     (case s of [] \<Rightarrow> Some 0
      | c # cs \<Rightarrow>
          (case signed cs of (neg, ds) \<Rightarrow>
             if c \<in> {CHR ''e'', CHR ''E''} \<and> ds \<noteq> [] \<and> list_all is_digit ds
             then Some (if neg then - int (digits_value ds) else int (digits_value ds)) else None))"

text \<open>The finite numbers \<open>Decimal(text)\<close> accepts; \<open>Infinity\<close> and \<open>NaN\<close> are refused by the caller.\<close>

definition parse_decimal :: "string \<Rightarrow> rat option" where
  "parse_decimal s =
     (case signed (filter (\<lambda>c. c \<noteq> CHR ''_'') (str_strip s)) of
        (neg, u) \<Rightarrow>
          (let ip = takeWhile is_digit u; r = dropWhile is_digit u;
               point = (case r of [] \<Rightarrow> False | c # _ \<Rightarrow> c = CHR ''.'');
               fp = (if point then takeWhile is_digit (tl r) else []);
               rest = (if point then dropWhile is_digit (tl r) else r)
           in if ip @ fp = [] then None
              else map_option
                     (\<lambda>e. (if neg then -1 else 1) * of_nat (digits_value (ip @ fp)) * ten_to (e - int (length fp)))
                     (parse_exponent rest)))"

definition as_decimal :: "json option \<Rightarrow> rat option" where
  "as_decimal v =
     (case (case v of Some (JInt i) \<Rightarrow> Some (of_int i) | Some (JFloat r) \<Rightarrow> Some r
            | Some (JStr s) \<Rightarrow> parse_decimal s | _ \<Rightarrow> None) of
        None \<Rightarrow> None | Some r \<Rightarrow> if r < 0 then None else Some r)"

section \<open>The public catalogue\<close>

record upstream_entry =
  ue_key :: string
  ue_provider :: string
  ue_model :: string
  ue_provider_name :: string
  ue_display :: "string option"
  ue_input :: rat
  ue_output :: rat
  ue_read :: rat
  ue_write :: rat

definition entry_id :: "upstream_entry \<Rightarrow> string" where
  "entry_id e = ''upstream:'' @ ue_key e"

definition or_zero :: "rat option \<Rightarrow> rat" where
  "or_zero r = (case r of None \<Rightarrow> 0 | Some x \<Rightarrow> x)"

definition model_entry ::
    "string \<Rightarrow> string \<Rightarrow> string \<times> json \<Rightarrow> upstream_entry list" where
  "model_entry provider provider_name kv =
     (case Option.bind (json_object (snd kv)) (\<lambda>m. Option.bind (map_of m ''cost'') (\<lambda>c.
             map_option (\<lambda>cost. (m, cost)) (json_object c))) of
        None \<Rightarrow> []
      | Some (m, cost) \<Rightarrow>
          (let input = as_decimal (map_of cost ''input''); output = as_decimal (map_of cost ''output'')
           in if input = None \<and> output = None then []
              else [\<lparr>ue_key = provider @ ''/'' @ fst kv, ue_provider = provider, ue_model = fst kv,
                     ue_provider_name = provider_name,
                     ue_display =
                       (case Option.bind (map_of m ''name'') json_string of
                          None \<Rightarrow> None | Some n \<Rightarrow> if str_strip n = [] then None else Some (str_strip n)),
                     ue_input = or_zero input, ue_output = or_zero output,
                     ue_read = or_zero (as_decimal (map_of cost ''cache_read'')),
                     ue_write = or_zero (as_decimal (map_of cost ''cache_write''))\<rparr>]))"

definition provider_entries :: "string \<times> json \<Rightarrow> upstream_entry list" where
  "provider_entries kv =
     (case Option.bind (json_object (snd kv)) (\<lambda>p. Option.bind (map_of p ''models'') (\<lambda>m.
             map_option (\<lambda>models. (p, models)) (json_object m))) of
        None \<Rightarrow> []
      | Some (p, models) \<Rightarrow>
          (let name = (case Option.bind (map_of p ''name'') json_string of
                         None \<Rightarrow> fst kv | Some n \<Rightarrow> if n = [] then fst kv else n)
           in concat (map (model_entry (fst kv) name) models)))"

definition parse_upstream_catalog :: "json \<Rightarrow> upstream_entry list" where
  "parse_upstream_catalog document =
     (case json_object document of None \<Rightarrow> [] | Some ps \<Rightarrow> concat (map provider_entries ps))"

section \<open>One round\<close>

record sync_report =
  sr_imported :: nat
  sr_unchanged :: nat
  sr_skipped_manual :: nat
  sr_error :: "string option"
  sr_synced_at :: "seconds option"
  sr_changed_models :: "string list"

definition empty_report :: sync_report where
  "empty_report = \<lparr>sr_imported = 0, sr_unchanged = 0, sr_skipped_manual = 0, sr_error = None,
     sr_synced_at = None, sr_changed_models = []\<rparr>"

definition upstream_version :: "price_version \<Rightarrow> bool" where
  "upstream_version v = starts_with ''upstream:'' (pv_id v)"

definition manual_keys :: "price_version list \<Rightarrow> (string \<times> string) list" where
  "manual_keys existing =
     map (\<lambda>v. (pv_provider v, pv_model v)) (filter (\<lambda>v. \<not> upstream_version v) existing)"

definition is_same_price :: "price_version \<Rightarrow> upstream_entry \<Rightarrow> bool" where
  "is_same_price v e =
     (pv_input v = ue_input e \<and> pv_output v = ue_output e \<and> pv_read v = ue_read e \<and> pv_write v = ue_write e)"

definition entry_version :: "string \<Rightarrow> seconds \<Rightarrow> upstream_entry \<Rightarrow> price_version" where
  "entry_version currency now e =
     \<lparr>pv_id = entry_id e, pv_provider = ue_provider e, pv_model = ue_model e, pv_display = ue_display e,
      pv_from = now, pv_currency = currency, pv_input = ue_input e, pv_output = ue_output e,
      pv_read = ue_read e, pv_write = ue_write e\<rparr>"

text \<open>What a round meets: the clock, the writes, the other processes.\<close>

record sync_env =
  se_codec :: price_codec
  se_currency :: string
  se_now :: seconds
  se_writes :: "upstream_entry \<Rightarrow> bool"
  se_others :: "upstream_entry \<Rightarrow> price_disk \<Rightarrow> price_disk"

text \<open>A version that its constructor refuses raises out of the loop: the Boolean tells.\<close>

fun sync_entries ::
    "sync_env \<Rightarrow> price_version list \<Rightarrow> upstream_entry list \<Rightarrow> sync_report \<Rightarrow> catalog \<Rightarrow> price_disk \<Rightarrow>
     bool \<times> sync_report \<times> catalog \<times> price_disk" where
  "sync_entries env existing [] report c disk = (False, report, c, disk)"
| "sync_entries env existing (e # es) report c disk =
     (if (ue_provider e, ue_model e) \<in> set (manual_keys existing)
      then sync_entries env existing es (report\<lparr>sr_skipped_manual := sr_skipped_manual report + 1\<rparr>) c disk
      else
        (let current = find (\<lambda>v. pv_id v = entry_id e) existing
         in if (case current of None \<Rightarrow> False | Some v \<Rightarrow> is_same_price v e)
            then sync_entries env existing es (report\<lparr>sr_unchanged := sr_unchanged report + 1\<rparr>) c disk
            else
              (case make_price (entry_version (se_currency env) (se_now env) e) of
                 None \<Rightarrow> (True, report, c, disk)
               | Some v \<Rightarrow>
                   (let disk1 = se_others env e disk
                    in case edit_catalog (se_codec env) (se_writes env e)
                              (if current = None then AddVersion v else UpdateVersion v) None c disk1 of
                         Inl err \<Rightarrow> sync_entries env existing es report c disk1
                       | Inr (c', disk') \<Rightarrow>
                           sync_entries env existing es
                             (report\<lparr>sr_imported := sr_imported report + 1,
                                     sr_changed_models := sr_changed_models report @ [ue_key e]\<rparr>) c' disk'))))"

definition apply_sync ::
    "sync_env \<Rightarrow> upstream_entry list \<Rightarrow> catalog \<Rightarrow> price_disk \<Rightarrow> bool \<times> sync_report \<times> catalog \<times> price_disk" where
  "apply_sync env es c disk =
     sync_entries env (pc_versions c) es (empty_report\<lparr>sr_synced_at := Some (se_now env)\<rparr>) c disk"

definition wanted_entries :: "string list option \<Rightarrow> upstream_entry list \<Rightarrow> upstream_entry list" where
  "wanted_entries wanted es =
     (case wanted of None \<Rightarrow> es | Some ks \<Rightarrow> filter (\<lambda>e. ue_key e \<in> set ks) es)"

definition sync_prices ::
    "sync_env \<Rightarrow> string + json \<Rightarrow> string list option \<Rightarrow> catalog \<Rightarrow> price_disk \<Rightarrow>
     bool \<times> sync_report \<times> catalog \<times> price_disk" where
  "sync_prices env fetched wanted c disk =
     (case fetched of
        Inl err \<Rightarrow> (False, empty_report\<lparr>sr_error := Some err\<rparr>, c, disk)
      | Inr document \<Rightarrow>
          apply_sync env (wanted_entries wanted (parse_upstream_catalog document)) c disk)"

section \<open>The cost of a request\<close>

datatype usage_source = UsProvider | UsProviderPartial | UsEstimated | UsUnknown

record usage =
  us_completion :: "int option"
  us_prompt :: "int option"
  us_total :: "int option"
  us_cached :: "int option"
  us_cache_write :: "int option"
  us_source :: usage_source

record cost_snapshot =
  cs_version :: string
  cs_provider :: string
  cs_model :: string
  cs_currency :: string
  cs_priced_at :: seconds
  cs_input_tokens :: "int option"
  cs_output_tokens :: "int option"
  cs_read_tokens :: "int option"
  cs_write_tokens :: "int option"
  cs_input_cost :: "rat option"
  cs_output_cost :: "rat option"
  cs_read_cost :: "rat option"
  cs_write_cost :: "rat option"
  cs_total_cost :: "rat option"
  cs_source :: usage_source

definition or_none :: "int option \<Rightarrow> int" where
  "or_none n = (case n of None \<Rightarrow> 0 | Some i \<Rightarrow> i)"

definition input_tokens :: "usage \<Rightarrow> int option" where
  "input_tokens u = map_option (\<lambda>n. max 0 (n - (or_none (us_cached u) + or_none (us_cache_write u)))) (us_prompt u)"

text \<open>\<open>quantize\<close> rounds to the nearest value, and a tie to the even one.\<close>

definition half_even :: "rat \<Rightarrow> int" where
  "half_even x =
     (let f = \<lfloor>x\<rfloor>; d = x - of_int f
      in if d < 1 / 2 then f else if 1 / 2 < d then f + 1 else if even f then f else f + 1)"

definition quantize :: "rat \<Rightarrow> rat" where
  "quantize x = of_int (half_even (x * 100000000)) / 100000000"

definition token_cost :: "int option \<Rightarrow> rat \<Rightarrow> rat option" where
  "token_cost tokens rate = map_option (\<lambda>n. quantize (of_int n * rate / 1000000)) tokens"

definition or_default :: "string option \<Rightarrow> string \<Rightarrow> string" where
  "or_default s d = (case s of None \<Rightarrow> d | Some x \<Rightarrow> if x = [] then d else x)"

definition calculate_cost_snapshot ::
    "usage \<Rightarrow> price_version \<Rightarrow> seconds \<Rightarrow> string option \<Rightarrow> string option \<Rightarrow> cost_snapshot option" where
  "calculate_cost_snapshot u price t provider model =
     (if or_default provider (pv_provider price) \<noteq> pv_provider price \<or>
         or_default model (pv_model price) \<noteq> pv_model price then None
      else
        (let input = token_cost (input_tokens u) (pv_input price);
             output = token_cost (us_completion u) (pv_output price);
             read = token_cost (us_cached u) (pv_read price);
             written = token_cost (us_cache_write u) (pv_write price);
             priced = map the (filter (\<lambda>x. x \<noteq> None) [input, output, read, written])
         in Some \<lparr>cs_version = pv_id price, cs_provider = pv_provider price, cs_model = pv_model price,
              cs_currency = pv_currency price, cs_priced_at = t, cs_input_tokens = input_tokens u,
              cs_output_tokens = us_completion u, cs_read_tokens = us_cached u,
              cs_write_tokens = us_cache_write u, cs_input_cost = input, cs_output_cost = output,
              cs_read_cost = read, cs_write_cost = written,
              cs_total_cost = (if priced = [] then None else Some (sum_list priced)), cs_source = us_source u\<rparr>))"

text \<open>The manager: no usage, catalogue, model name or price leaves a request without a cost.\<close>

definition request_cost ::
    "catalog option \<Rightarrow> usage option \<Rightarrow> string option \<Rightarrow> string \<Rightarrow> seconds \<Rightarrow> cost_snapshot option" where
  "request_cost catalogue reported model provider t =
     (case (reported, catalogue, model) of
        (Some u, Some c, Some m) \<Rightarrow>
          if m = [] then None
          else (case resolve_price provider m t c of
                  Inl e \<Rightarrow> None
                | Inr price \<Rightarrow> calculate_cost_snapshot u price t (Some provider) (Some m))
      | _ \<Rightarrow> None)"

section \<open>What a round does to the versions\<close>

lemma edited_versions:
  assumes "edit_catalog cx ok e expected c disk = Inr (c', disk')"
  shows "apply_edit cx e (pc_versions c) = Inr (pc_versions c')"
proof -
  from assms obtain vs where vs: "apply_edit cx e (pc_versions c) = Inr vs"
    and commit: "commit_versions cx ok vs expected c disk = Inr (c', disk')"
    by (auto simp: edit_catalog_def split: sum.splits)
  from commit have "pc_versions c' = vs"
    by (auto simp: commit_versions_def Let_def split: option.splits sum.splits if_splits)
  with vs show ?thesis by simp
qed

text \<open>What one written entry leaves, whether it was there before or not.\<close>

definition rewritten :: "price_version \<Rightarrow> price_version list \<Rightarrow> price_version list \<Rightarrow> bool" where
  "rewritten v vs vs' = (vs' = filter (\<lambda>e. pv_id e \<noteq> pv_id v) vs @ [v])"

lemma entry_rewritten:
  assumes "edit_catalog cx ok (if b then AddVersion v else UpdateVersion v) None c disk = Inr (c', disk')"
  shows "rewritten v (pc_versions c) (pc_versions c')"
proof (cases b)
  case True
  with edited_versions [OF assms] have vs: "pc_versions c' = pc_versions c @ [v]"
    "\<forall>e\<in>set (pc_versions c). apart e v" by (auto simp: added)
  then have "filter (\<lambda>e. pv_id e \<noteq> pv_id v) (pc_versions c) = pc_versions c"
    by (intro filter_True) (force simp: apart_def)
  with vs(1) show ?thesis by (simp add: rewritten_def)
next
  case False
  with edited_versions [OF assms] show ?thesis by (auto simp: rewritten_def added split: if_splits)
qed

lemma made_entry:
  assumes "make_price (entry_version currency now e) = Some v"
  shows "pv_id v = entry_id e" "pv_provider v = ue_provider e" "pv_model v = ue_model e" "pv_from v = now"
    "is_same_price v e" "upstream_version v"
  using assms
  by (auto simp: make_price_def entry_version_def is_same_price_def upstream_version_def entry_id_def starts_with_iff
      split: if_splits option.splits)

lemma rewritten_manual:
  "rewritten v vs vs' \<Longrightarrow> upstream_version v \<Longrightarrow>
     filter (\<lambda>v. \<not> upstream_version v) vs' = filter (\<lambda>v. \<not> upstream_version v) vs"
  by (auto simp: rewritten_def upstream_version_def intro!: filter_cong)

lemma find_append: "find P (xs @ ys) = (case find P xs of None \<Rightarrow> find P ys | Some x \<Rightarrow> Some x)"
  by (induction xs) auto

lemma find_filter: "\<forall>x. P x \<longrightarrow> Q x \<Longrightarrow> find P (filter Q xs) = find P xs"
  by (induction xs) auto

lemma rewritten_find:
  assumes "rewritten v vs vs'"
  shows "pv_id v \<noteq> k \<Longrightarrow> find (\<lambda>v. pv_id v = k) vs' = find (\<lambda>v. pv_id v = k) vs"
    "find (\<lambda>u. pv_id u = pv_id v) vs' = Some v"
proof -
  assume k: "pv_id v \<noteq> k"
  then have "find (\<lambda>v. pv_id v = k) (filter (\<lambda>e. pv_id e \<noteq> pv_id v) vs) = find (\<lambda>v. pv_id v = k) vs"
    by (intro find_filter) auto
  with k assms show "find (\<lambda>v. pv_id v = k) vs' = find (\<lambda>v. pv_id v = k) vs"
    by (simp add: rewritten_def find_append split: option.split)
next
  have "find (\<lambda>u. pv_id u = pv_id v) (filter (\<lambda>e. pv_id e \<noteq> pv_id v) vs) = None"
    by (auto simp: find_None_iff)
  with assms show "find (\<lambda>u. pv_id u = pv_id v) vs' = Some v" by (simp add: rewritten_def find_append)
qed

text \<open>One entry: passed over, refused by the constructor, not written, or written.\<close>

definition is_manual :: "price_version list \<Rightarrow> upstream_entry \<Rightarrow> bool" where
  "is_manual existing e = ((ue_provider e, ue_model e) \<in> set (manual_keys existing))"

definition up_to_date :: "price_version list \<Rightarrow> upstream_entry \<Rightarrow> bool" where
  "up_to_date vs e = (\<exists>v. find (\<lambda>v. pv_id v = entry_id e) vs = Some v \<and> is_same_price v e)"

definition counted_entries :: "sync_report \<Rightarrow> nat" where
  "counted_entries r = sr_imported r + sr_unchanged r + sr_skipped_manual r"

lemma sync_cases:
  obtains
    (manual) "is_manual existing e"
      "sync_entries env existing (e # es) r c disk =
        sync_entries env existing es (r\<lparr>sr_skipped_manual := sr_skipped_manual r + 1\<rparr>) c disk"
  | (same) "\<not> is_manual existing e" "up_to_date existing e"
      "sync_entries env existing (e # es) r c disk =
        sync_entries env existing es (r\<lparr>sr_unchanged := sr_unchanged r + 1\<rparr>) c disk"
  | (refused) "sync_entries env existing (e # es) r c disk = (True, r, c, disk)"
  | (failed) "\<not> is_manual existing e"
      "sync_entries env existing (e # es) r c disk = sync_entries env existing es r c (se_others env e disk)"
  | (wrote) v c' disk' where "\<not> is_manual existing e" "make_price (entry_version (se_currency env) (se_now env) e) = Some v"
      "rewritten v (pc_versions c) (pc_versions c')"
      "sync_entries env existing (e # es) r c disk =
        sync_entries env existing es
          (r\<lparr>sr_imported := sr_imported r + 1, sr_changed_models := sr_changed_models r @ [ue_key e]\<rparr>) c' disk'"
proof (cases "is_manual existing e")
  case True
  then show thesis by (intro manual) (simp_all add: is_manual_def)
next
  case False
  let ?current = "find (\<lambda>v. pv_id v = entry_id e) existing"
  show thesis
  proof (cases "case ?current of None \<Rightarrow> False | Some v \<Rightarrow> is_same_price v e")
    case True
    with False show thesis by (intro same) (auto simp: is_manual_def up_to_date_def split: option.splits)
  next
    case differs: False
    show thesis
    proof (cases "make_price (entry_version (se_currency env) (se_now env) e)")
      case None
      with False differs show thesis by (intro refused) (simp add: is_manual_def)
    next
      case (Some v)
      let ?d = "se_others env e disk"
      show thesis
      proof (cases "edit_catalog (se_codec env) (se_writes env e)
          (if ?current = None then AddVersion v else UpdateVersion v) None c ?d")
        case (Inl err)
        with False differs Some show thesis by (intro failed) (simp_all add: is_manual_def Let_def)
      next
        case (Inr x)
        obtain c' disk' where x: "x = (c', disk')" by (cases x)
        with False differs Some Inr entry_rewritten [OF Inr [unfolded x]] show thesis
          by (intro wrote [of v c' disk']) (simp_all add: is_manual_def Let_def)
      qed
    qed
  qed
qed

lemma sync_manual:
  "sync_entries env existing es r c disk = (raised, r', c', disk') \<Longrightarrow>
     filter (\<lambda>v. \<not> upstream_version v) (pc_versions c') = filter (\<lambda>v. \<not> upstream_version v) (pc_versions c)"
proof (induction es arbitrary: r c disk)
  case (Cons e es)
  show ?case
  proof (cases rule: sync_cases [of existing e env es r c disk])
    case (wrote v c1 d1)
    from Cons.IH [OF Cons.prems [unfolded wrote(4)]] rewritten_manual [OF wrote(3) made_entry(6) [OF wrote(2)]]
    show ?thesis by (rule trans)
  qed (use Cons in auto)
qed simp

text \<open>A version that a round wrote.\<close>

definition written_for :: "sync_env \<Rightarrow> price_version list \<Rightarrow> upstream_entry \<Rightarrow> price_version \<Rightarrow> bool" where
  "written_for env existing e v =
     (\<not> is_manual existing e \<and> pv_id v = entry_id e \<and> pv_provider v = ue_provider e \<and> pv_model v = ue_model e \<and>
      pv_from v = se_now env \<and> is_same_price v e)"

lemma sync_written:
  "sync_entries env existing es r c disk = (raised, r', c', disk') \<Longrightarrow>
     set (pc_versions c') \<subseteq> set (pc_versions c) \<union> {v. \<exists>e. e \<in> set es \<and> written_for env existing e v}"
proof (induction es arbitrary: r c disk)
  case (Cons e es)
  show ?case
  proof (cases rule: sync_cases [of existing e env es r c disk])
    case (wrote v c1 d1)
    have "written_for env existing e v"
      using wrote(1) made_entry [OF wrote(2)] by (simp add: written_for_def)
    moreover have "set (pc_versions c1) \<subseteq> insert v (set (pc_versions c))"
      using wrote(3) by (auto simp: rewritten_def)
    moreover note Cons.IH [OF Cons.prems [unfolded wrote(4)]]
    ultimately show ?thesis by fastforce
  next
    case refused
    with Cons.prems show ?thesis by auto
  next
    case manual
    from Cons.IH [OF Cons.prems [unfolded manual(2)]] show ?thesis by fastforce
  next
    case same
    from Cons.IH [OF Cons.prems [unfolded same(3)]] show ?thesis by fastforce
  next
    case failed
    from Cons.IH [OF Cons.prems [unfolded failed(2)]] show ?thesis by fastforce
  qed
qed simp

lemma sync_count:
  "sync_entries env existing es r c disk = (raised, r', c', disk') \<Longrightarrow>
     counted_entries r' \<le> counted_entries r + length es \<and> sr_imported r' + length (sr_changed_models r) = sr_imported r + length (sr_changed_models r') \<and>
     sr_error r' = sr_error r"
proof (induction es arbitrary: r c disk)
  case (Cons e es)
  show ?case
  proof (cases rule: sync_cases [of existing e env es r c disk])
    case manual
    from Cons.IH [OF Cons.prems [unfolded manual(2)]] show ?thesis by (simp add: counted_entries_def)
  next
    case same
    from Cons.IH [OF Cons.prems [unfolded same(3)]] show ?thesis by (simp add: counted_entries_def)
  next
    case failed
    from Cons.IH [OF Cons.prems [unfolded failed(2)]] show ?thesis by simp
  next
    case (wrote v c1 d1)
    from Cons.IH [OF Cons.prems [unfolded wrote(4)]] show ?thesis by (simp add: counted_entries_def)
  qed (use Cons.prems in auto)
qed simp

definition fetched_entries :: "string + json \<Rightarrow> upstream_entry list" where
  "fetched_entries fetched = (case fetched of Inl _ \<Rightarrow> [] | Inr d \<Rightarrow> parse_upstream_catalog d)"

text \<open>C3. A price kept by hand is never touched. Whatever a round of synchronisation fetches, whichever of
  its writes fail and whatever other processes do meanwhile, the versions kept by hand are afterwards the
  same, in the same order; every other version is one of before or the fetched price of a model nobody
  keeps by hand, in effect from the time of the round; the list of changed models counts the imports.\<close>

theorem sync_keeps_manual_prices:
  "case sync_prices env fetched wanted c disk of (raised, report, c', disk') \<Rightarrow>
     filter (\<lambda>v. \<not> upstream_version v) (pc_versions c') = filter (\<lambda>v. \<not> upstream_version v) (pc_versions c) \<and>
     set (pc_versions c') \<subseteq> set (pc_versions c) \<union>
       {v. \<exists>e. e \<in> set (fetched_entries fetched) \<and> written_for env (pc_versions c) e v} \<and>
     sr_imported report = length (sr_changed_models report) \<and> counted_entries report \<le> length (fetched_entries fetched)"
proof (cases fetched)
  case (Inr d)
  let ?es = "wanted_entries wanted (parse_upstream_catalog d)"
  let ?r = "empty_report\<lparr>sr_synced_at := Some (se_now env)\<rparr>"
  obtain raised r' c' disk' where run: "sync_entries env (pc_versions c) ?es ?r c disk = (raised, r', c', disk')"
    by (metis prod_cases4)
  have es: "set ?es \<subseteq> set (fetched_entries fetched)" "length ?es \<le> length (fetched_entries fetched)"
    using Inr by (auto simp: fetched_entries_def wanted_entries_def split: option.splits)
  have sum: "sync_prices env fetched wanted c disk = (raised, r', c', disk')"
    by (simp add: sync_prices_def apply_sync_def Inr run)
  have count: "sr_imported r' = length (sr_changed_models r')" "counted_entries r' \<le> length ?es"
    using sync_count [OF run] by (simp_all add: empty_report_def counted_entries_def)
  show ?thesis unfolding sum prod.case
    using sync_manual [OF run] sync_written [OF run] es count by (intro conjI) (auto intro: order_trans)
qed (simp add: sync_prices_def empty_report_def counted_entries_def fetched_entries_def)

section \<open>A second round\<close>

lemma sync_settles:
  "sync_entries env existing es r c disk = (False, r', c', disk') \<Longrightarrow> counted_entries r' = counted_entries r + length es \<Longrightarrow>
     distinct (map entry_id es) \<Longrightarrow>
     (\<forall>e\<in>set es. find (\<lambda>v. pv_id v = entry_id e) (pc_versions c) = find (\<lambda>v. pv_id v = entry_id e) existing) \<Longrightarrow>
     (\<forall>e\<in>set es. is_manual existing e \<or> up_to_date (pc_versions c') e) \<and>
     (\<forall>k. k \<notin> entry_id ` set es \<longrightarrow>
        find (\<lambda>v. pv_id v = k) (pc_versions c') = find (\<lambda>v. pv_id v = k) (pc_versions c))"
proof (induction es arbitrary: r c disk)
  case (Cons e es)
  have fresh: "entry_id e \<notin> entry_id ` set es" and d: "distinct (map entry_id es)" using Cons.prems(3) by auto
  have rest: "\<forall>e\<in>set es. find (\<lambda>v. pv_id v = entry_id e) (pc_versions c) = find (\<lambda>v. pv_id v = entry_id e) existing"
    using Cons.prems(4) by simp
  show ?case
  proof (cases rule: sync_cases [of existing e env es r c disk])
    case manual
    have "counted_entries r' = counted_entries (r\<lparr>sr_skipped_manual := sr_skipped_manual r + 1\<rparr>) + length es"
      using Cons.prems(2) by (simp add: counted_entries_def)
    from Cons.IH [OF Cons.prems(1) [unfolded manual(2)] this d rest] manual(1) show ?thesis by simp
  next
    case same
    have "counted_entries r' = counted_entries (r\<lparr>sr_unchanged := sr_unchanged r + 1\<rparr>) + length es"
      using Cons.prems(2) by (simp add: counted_entries_def)
    note IH = Cons.IH [OF Cons.prems(1) [unfolded same(3)] this d rest]
    with fresh Cons.prems(4) have "find (\<lambda>v. pv_id v = entry_id e) (pc_versions c') = find (\<lambda>v. pv_id v = entry_id e) existing"
      by simp
    with same(2) have "up_to_date (pc_versions c') e" by (simp add: up_to_date_def)
    with IH show ?thesis by simp
  next
    case refused
    with Cons.prems(1) show ?thesis by simp
  next
    case failed
    from sync_count [OF Cons.prems(1) [unfolded failed(2)]] Cons.prems(2) show ?thesis by simp
  next
    case (wrote v c1 d1)
    note v = made_entry [OF wrote(2)]
    have keep: "find (\<lambda>v. pv_id v = k) (pc_versions c1) = find (\<lambda>v. pv_id v = k) (pc_versions c)" if "k \<noteq> entry_id e" for k
      using rewritten_find(1) [OF wrote(3)] that v(1) by metis
    have "counted_entries r' = counted_entries (r\<lparr>sr_imported := sr_imported r + 1, sr_changed_models := sr_changed_models r @ [ue_key e]\<rparr>)
        + length es" using Cons.prems(2) by (simp add: counted_entries_def)
    moreover have "\<forall>u\<in>set es. find (\<lambda>v. pv_id v = entry_id u) (pc_versions c1) = find (\<lambda>v. pv_id v = entry_id u) existing"
    proof
      fix u assume u: "u \<in> set es"
      with fresh have "entry_id u \<noteq> entry_id e" by (metis image_eqI)
      from keep [OF this] rest u show "find (\<lambda>v. pv_id v = entry_id u) (pc_versions c1) = find (\<lambda>v. pv_id v = entry_id u) existing"
        by simp
    qed
    ultimately have IH: "(\<forall>e\<in>set es. is_manual existing e \<or> up_to_date (pc_versions c') e) \<and>
     (\<forall>k. k \<notin> entry_id ` set es \<longrightarrow>
        find (\<lambda>v. pv_id v = k) (pc_versions c') = find (\<lambda>v. pv_id v = k) (pc_versions c1))"
      by (rule Cons.IH [OF Cons.prems(1) [unfolded wrote(4)] _ d])
    with fresh have "find (\<lambda>v. pv_id v = entry_id e) (pc_versions c') = find (\<lambda>v. pv_id v = entry_id e) (pc_versions c1)" by blast
    with rewritten_find(2) [OF wrote(3)] v(1,5) have "up_to_date (pc_versions c') e" by (simp add: up_to_date_def)
    with IH keep show ?thesis by simp
  qed
qed simp

lemma sync_quiet:
  "\<forall>e\<in>set es. is_manual existing e \<or> up_to_date existing e \<Longrightarrow>
     \<exists>r'. sync_entries env existing es r c disk = (False, r', c, disk) \<and> sr_imported r' = sr_imported r \<and>
       counted_entries r' = counted_entries r + length es"
proof (induction es arbitrary: r)
  case (Cons e es)
  show ?case
  proof (cases "is_manual existing e")
    case True
    with Cons.IH [of "r\<lparr>sr_skipped_manual := sr_skipped_manual r + 1\<rparr>"] Cons.prems show ?thesis
      by (auto simp: is_manual_def counted_entries_def)
  next
    case False
    with Cons.prems obtain v where "find (\<lambda>v. pv_id v = entry_id e) existing = Some v" "is_same_price v e"
      by (auto simp: up_to_date_def)
    with False Cons.IH [of "r\<lparr>sr_unchanged := sr_unchanged r + 1\<rparr>"] Cons.prems show ?thesis
      by (auto simp: is_manual_def counted_entries_def)
  qed
qed simp

lemma same_manual:
  "filter (\<lambda>v. \<not> upstream_version v) us = filter (\<lambda>v. \<not> upstream_version v) vs \<Longrightarrow> is_manual us e = is_manual vs e"
  by (simp add: is_manual_def manual_keys_def)

text \<open>C5. Prices that have not changed are not written again. After a round in which every entry was imported,
  unchanged or kept by hand, every fetched model has a price that is kept by hand or is the fetched one,
  and the next round over the same prices, at whatever time and whatever happens meanwhile to the files,
  changes neither the catalogue nor a file.\<close>

theorem sync_is_idempotent:
  assumes "sync_prices env (Inr document) wanted c disk = (False, report, c1, disk1)"
    and "distinct (map entry_id (wanted_entries wanted (parse_upstream_catalog document)))"
    and "counted_entries report = length (wanted_entries wanted (parse_upstream_catalog document))"
  shows "list_all (\<lambda>e. is_manual (pc_versions c1) e \<or> up_to_date (pc_versions c1) e)
      (wanted_entries wanted (parse_upstream_catalog document)) \<and>
    (\<exists>report'. sync_prices env' (Inr document) wanted c1 disk2 = (False, report', c1, disk2) \<and>
      sr_imported report' = 0 \<and> counted_entries report' = counted_entries report)"
proof -
  let ?es = "wanted_entries wanted (parse_upstream_catalog document)"
  have run: "sync_entries env (pc_versions c) ?es (empty_report\<lparr>sr_synced_at := Some (se_now env)\<rparr>) c disk =
      (False, report, c1, disk1)"
    using assms(1) by (simp add: sync_prices_def apply_sync_def)
  have "counted_entries report = counted_entries (empty_report\<lparr>sr_synced_at := Some (se_now env)\<rparr>) + length ?es"
    using assms(3) by (simp add: counted_entries_def empty_report_def)
  from sync_settles [OF run this assms(2)] same_manual [OF sync_manual [OF run]]
  have settled: "\<forall>e\<in>set ?es. is_manual (pc_versions c1) e \<or> up_to_date (pc_versions c1) e" by simp
  from sync_quiet [OF this, of env' "empty_report\<lparr>sr_synced_at := Some (se_now env')\<rparr>" c1 disk2] settled assms(3)
  show ?thesis by (simp add: sync_prices_def apply_sync_def empty_report_def counted_entries_def list_all_iff)
qed

text \<open>Two models of one provider, one of them with a price kept by hand.\<close>

definition sample_env :: "seconds \<Rightarrow> sync_env" where
  "sample_env t = \<lparr>se_codec = plain_codec, se_currency = ''USD'', se_now = t, se_writes = (\<lambda>e. True),
     se_others = (\<lambda>e disk. disk)\<rparr>"

definition model_prices :: "string \<Rightarrow> rat \<Rightarrow> string \<times> json" where
  "model_prices m r = (m, JObj [(''cost'', JObj [(''input'', JFloat r)])])"

definition upstream_document :: "rat \<Rightarrow> json" where
  "upstream_document r =
     JObj [(''acme'', JObj [(''models'', JObj [model_prices ''m'' r, model_prices ''n'' r])])]"

definition local_catalog :: "price_version list \<Rightarrow> catalog" where
  "local_catalog vs = \<lparr>pc_versions = vs, pc_path = None, pc_revision = 0, pc_integrity = None\<rparr>"

definition sample_round :: "bool \<times> sync_report \<times> catalog \<times> price_disk" where
  "sample_round =
     sync_prices (sample_env 5) (Inr (upstream_document 2)) None (local_catalog [sample_price ''a'' 1]) (\<lambda>p. None)"

theorem sync_is_idempotent_witness:
  "\<exists>report'. sync_prices (sample_env 9) (Inr (upstream_document 2)) None (fst (snd (snd sample_round))) (\<lambda>p. None) =
      (False, report', fst (snd (snd sample_round)), \<lambda>p. None) \<and> sr_imported report' = 0 \<and> counted_entries report' = 2"
proof -
  have checks: "\<not> fst sample_round" "counted_entries (fst (snd sample_round)) = 2"
    "distinct (map entry_id (wanted_entries None (parse_upstream_catalog (upstream_document 2))))"
    "length (wanted_entries None (parse_upstream_catalog (upstream_document 2))) = 2"
    by code_simp+
  obtain raised r c1 d1 where round: "sample_round = (raised, r, c1, d1)" by (metis prod_cases4)
  have run: "sync_prices (sample_env 5) (Inr (upstream_document 2)) None (local_catalog [sample_price ''a'' 1]) (\<lambda>p. None) =
      (False, r, c1, d1)"
    using round checks(1) by (simp add: sample_round_def)
  have "counted_entries r = length (wanted_entries None (parse_upstream_catalog (upstream_document 2)))"
    using checks(2) unfolding round fst_conv snd_conv checks(4) .
  from sync_is_idempotent [OF run checks(3) this, of "sample_env 9" "\<lambda>p. None"] checks(2)
  show ?thesis unfolding round fst_conv snd_conv by simp
qed

section \<open>What a round does not survive\<close>

text \<open>The constructor of a version is called outside the handler of a failed write: an entry that it refuses
  (here a display name of more than 200 characters) ends the round, and the entries after it are not
  written, though one bad entry should not stop the others.\<close>

definition long_name_document :: json where
  "long_name_document =
     JObj [(''acme'', JObj [(''models'', JObj
       [(''m'', JObj [(''name'', JStr (replicate 201 CHR ''x'')), (''cost'', JObj [(''input'', JInt 1)])]),
        model_prices ''n'' 2])])]"

lemma bad_entry_stops_the_round:
  "case sync_prices (sample_env 5) (Inr long_name_document) None (local_catalog []) (\<lambda>p. None) of
     (raised, report, c, disk) \<Rightarrow> raised \<and> pc_versions c = []"
  by code_simp

text \<open>An import replaces the version of before, which also ends the price of the requests that started before
  the round and finish after it.\<close>

lemma running_request_loses_its_price:
  "case sync_prices (sample_env 3) (Inr (upstream_document 1)) None (local_catalog []) (\<lambda>p. None) of
     (_, _, c, disk) \<Rightarrow>
       (case sync_prices (sample_env 8) (Inr (upstream_document 2)) None c disk of
          (raised, report, c', _) \<Rightarrow> \<not> raised \<and> sr_imported report = 2 \<and>
            (case resolve_price ''acme'' ''m'' 7 c of Inl e \<Rightarrow> False | Inr v \<Rightarrow> pv_input v = 1) \<and>
            resolve_price ''acme'' ''m'' 7 c' = Inl NoEffectivePrice)"
  by code_simp

text \<open>Two models with one key: each round writes the one over the other.\<close>

definition clashing_document :: json where
  "clashing_document =
     JObj [(''a'', JObj [(''models'', JObj [model_prices ''b/c'' 1])]),
       (''a/b'', JObj [(''models'', JObj [model_prices ''c'' 2])])]"

lemma clashing_keys_alternate:
  "case sync_prices (sample_env 3) (Inr clashing_document) None (local_catalog []) (\<lambda>p. None) of
     (_, r1, c1, d1) \<Rightarrow>
       (case sync_prices (sample_env 4) (Inr clashing_document) None c1 d1 of
          (_, r2, c2, d2) \<Rightarrow>
            sr_imported r2 = 1 \<and> map pv_provider (pc_versions c1) = [''a''] \<and>
            map pv_provider (pc_versions c2) = [''a/b''])"
  by code_simp

section \<open>Costs are accurate\<close>

lemma half_even_near: "\<bar>of_int (half_even x) - x\<bar> \<le> 1 / 2"
proof -
  have "of_int \<lfloor>x\<rfloor> \<le> x" "x < of_int \<lfloor>x\<rfloor> + 1" by linarith+
  then show ?thesis by (auto simp: half_even_def Let_def abs_le_iff)
qed

lemma quantize_near: "\<bar>quantize x - x\<bar> \<le> 1 / 200000000"
  using half_even_near [of "x * 100000000"] by (simp add: quantize_def abs_le_iff field_simps)

lemma token_cost_near: "\<bar>or_zero (token_cost n rate) - of_int (or_none n) * rate / 1000000\<bar> \<le> 1 / 200000000"
  using quantize_near by (auto simp: or_zero_def token_cost_def or_none_def split: option.split)

lemma four_near:
  fixes a b c d :: rat
  assumes "\<bar>a - a'\<bar> \<le> e" "\<bar>b - b'\<bar> \<le> e" "\<bar>c - c'\<bar> \<le> e" "\<bar>d - d'\<bar> \<le> e"
  shows "\<bar>(a + (b + (c + d))) - (a' + b' + c' + d')\<bar> \<le> 4 * e"
  using assms by linarith

lemma sum_of_present: "sum_list (map the (filter (\<lambda>x. x \<noteq> None) xs)) = sum_list (map or_zero xs)"
  by (induction xs) (auto simp: or_zero_def split: option.split)

definition exact_cost :: "usage \<Rightarrow> price_version \<Rightarrow> rat" where
  "exact_cost u price =
     of_int (or_none (input_tokens u)) * pv_input price / 1000000 +
     of_int (or_none (us_completion u)) * pv_output price / 1000000 +
     of_int (or_none (us_cached u)) * pv_read price / 1000000 +
     of_int (or_none (us_cache_write u)) * pv_write price / 1000000"

text \<open>C4. A cost is what the tokens cost, each of them once. A request that gets a cost is charged the price
  that was effective when it was made; the total is within 2 hundred-millionths of the exact amount and is
  missing only if no token was reported; cached tokens are not charged as input again.\<close>

theorem costs_are_accurate:
  assumes "request_cost (Some c) (Some u) (Some model) provider t = Some s"
  shows "\<exists>price. resolve_price provider model t c = Inr price \<and> cs_version s = pv_id price \<and>
    \<bar>or_zero (cs_total_cost s) - exact_cost u price\<bar> \<le> 2 / 100000000 \<and>
    (cs_total_cost s = None \<longleftrightarrow>
       us_prompt u = None \<and> us_completion u = None \<and> us_cached u = None \<and> us_cache_write u = None) \<and>
    map_option (\<lambda>n. n + or_none (us_cached u) + or_none (us_cache_write u)) (cs_input_tokens s) =
      map_option (\<lambda>n. max n (or_none (us_cached u) + or_none (us_cache_write u))) (us_prompt u)"
proof -
  from assms obtain price where price: "resolve_price provider model t c = Inr price"
    "calculate_cost_snapshot u price t (Some provider) (Some model) = Some s"
    by (auto simp: request_cost_def split: if_splits sum.splits)
  let ?costs = "[token_cost (input_tokens u) (pv_input price), token_cost (us_completion u) (pv_output price),
      token_cost (us_cached u) (pv_read price), token_cost (us_cache_write u) (pv_write price)]"
  let ?paid = "map the (filter (\<lambda>x. x \<noteq> None) ?costs)"
  have s: "cs_version s = pv_id price" "cs_input_tokens s = input_tokens u"
    "cs_total_cost s = (if ?paid = [] then None else Some (sum_list ?paid))"
    using price(2) by (auto simp: calculate_cost_snapshot_def Let_def simp del: filter.simps list.map split: if_splits)
  have "or_zero (cs_total_cost s) = sum_list ?paid" unfolding s(3) by (simp add: or_zero_def)
  also have "\<dots> = sum_list (map or_zero ?costs)" by (rule sum_of_present)
  finally have total: "or_zero (cs_total_cost s) = sum_list (map or_zero ?costs)" .
  have near: "\<bar>or_zero (cs_total_cost s) - exact_cost u price\<bar> \<le> 2 / 100000000"
    using four_near [OF token_cost_near token_cost_near token_cost_near token_cost_near,
        of "input_tokens u" "pv_input price" "us_completion u" "pv_output price" "us_cached u" "pv_read price"
          "us_cache_write u" "pv_write price"]
    unfolding total exact_cost_def by simp
  have none: "cs_total_cost s = None \<longleftrightarrow> list_all (\<lambda>x. x = None) ?costs"
    unfolding s(3) by (simp add: filter_empty_conv)
  have "cs_total_cost s = None \<longleftrightarrow>
       us_prompt u = None \<and> us_completion u = None \<and> us_cached u = None \<and> us_cache_write u = None"
    unfolding none by (simp add: token_cost_def input_tokens_def)
  moreover have "map_option (\<lambda>n. n + or_none (us_cached u) + or_none (us_cache_write u)) (cs_input_tokens s) =
      map_option (\<lambda>n. max n (or_none (us_cached u) + or_none (us_cache_write u))) (us_prompt u)"
    unfolding s(2) input_tokens_def by (cases "us_prompt u") auto
  ultimately show ?thesis using price(1) s(1) near by - (intro exI [of _ price] conjI; assumption)
qed

definition sample_usage :: usage where
  "sample_usage = \<lparr>us_completion = Some 200, us_prompt = Some 1000, us_total = Some 1200, us_cached = Some 400,
     us_cache_write = None, us_source = UsProviderPartial\<rparr>"

theorem costs_are_accurate_witness:
  "\<exists>s. request_cost (Some (local_catalog [sample_price ''a'' 1])) (Some sample_usage) (Some ''m'') ''acme'' 5 = Some s \<and>
     cs_version s = ''a'' \<and> cs_total_cost s = Some (36 / 10000)"
proof -
  let ?c = "request_cost (Some (local_catalog [sample_price ''a'' 1])) (Some sample_usage) (Some ''m'') ''acme'' 5"
  have price: "resolve_price ''acme'' ''m'' 5 (local_catalog [sample_price ''a'' 1]) = Inr (sample_price ''a'' 1)"
    by code_simp
  have "Option.bind ?c cs_total_cost = Some (36 / 10000)" by code_simp
  then obtain s where s: "?c = Some s" "cs_total_cost s = Some (36 / 10000)" by (auto simp: bind_eq_Some_conv)
  from costs_are_accurate [OF s(1)] price s show ?thesis by (auto simp: sample_price_def)
qed

end
