(* ===== verification/Dispatch_Rules.thy ===== *)
theory Dispatch_Rules
  imports Kirara_Prelude
begin

text \<open>
  The dispatch rules of \<open>kirara_ai/workflow/core/dispatch\<close>: the conditions of \<open>rules/*.py\<close>,
  \<open>CombinedDispatchRule.match\<close> and \<open>explain_match\<close> (\<open>models/dispatch_rules.py\<close>), and the
  dispatch order and reachability analysis (\<open>reachability.py\<close>).

  A condition is given after validation: \<open>Rejected\<close> stands for an unknown type or a
  configuration pydantic refuses. The regular expression engine, the random draws and the
  lookup of a running IM instance are functions of the surroundings; \<open>None\<close> is an exception.
  A draw belongs to the place it is made at (the rule, the group, the condition): a message
  evaluates each place at most once.
\<close>

section \<open>Messages and conditions\<close>

datatype chat_type = C2C | Group

record chat_sender =
  snd_display_name :: string
  snd_user_id :: string
  snd_chat_type :: chat_type
  snd_group_id :: "string option"

definition get_bot_sender :: chat_sender where
  "get_bot_sender = \<lparr>snd_display_name = ''bot'', snd_user_id = ''bot'', snd_chat_type = C2C,
                     snd_group_id = None\<rparr>"

text \<open>\<open>ChatSender.__eq__\<close>: the display name does not count.\<close>

definition same_sender :: "chat_sender \<Rightarrow> chat_sender \<Rightarrow> bool" where
  "same_sender s t = (snd_user_id s = snd_user_id t \<and> snd_chat_type s = snd_chat_type t \<and>
                      snd_group_id s = snd_group_id t)"

text \<open>An element that is neither text nor a mention carries its plain form.\<close>

datatype element = TextElement string | MentionElement chat_sender | OtherElement string

fun to_plain :: "element \<Rightarrow> string" where
  "to_plain (TextElement t) = t"
| "to_plain (MentionElement s) =
     CHR 0x40 # (if snd_display_name s = [] then snd_user_id s else snd_display_name s)"
| "to_plain (OtherElement p) = p"

record im_message =
  msg_sender :: chat_sender
  msg_elements :: "element list"

definition msg_content :: "im_message \<Rightarrow> string" where
  "msg_content m = str_strip (concat (map
     (\<lambda>e. to_plain e @ (case e of TextElement t \<Rightarrow> [CHR 0x0A] | _ \<Rightarrow> [])) (msg_elements m)))"

datatype condition =
    Regex string
  | Prefix string
  | Keyword "string list"
  | BotMention
  | Sender string string
  | SenderMismatch string string
  | ChatTypeIs chat_type
  | RandomChance int
  | ImInstance string
  | Fallback
  | Rejected

record surroundings =
  sr_regex_search :: "string \<Rightarrow> string \<Rightarrow> bool option"
  sr_roll :: "string \<Rightarrow> nat \<Rightarrow> nat \<Rightarrow> rat"
  sr_is_instance :: "string \<Rightarrow> bool option"

fun first_text :: "element list \<Rightarrow> string option" where
  "first_text [] = None"
| "first_text (TextElement t # es) = Some t"
| "first_text (_ # es) = first_text es"

text \<open>The \<open>match\<close> methods of the rule classes.\<close>

definition regex_match :: "surroundings \<Rightarrow> string \<Rightarrow> im_message \<Rightarrow> bool option" where
  "regex_match sr p m = sr_regex_search sr p (msg_content m)"

definition prefix_match :: "string \<Rightarrow> im_message \<Rightarrow> bool" where
  "prefix_match p m =
     (case first_text (msg_elements m) of Some t \<Rightarrow> starts_with p t | None \<Rightarrow> False)"

definition keyword_match :: "string list \<Rightarrow> im_message \<Rightarrow> bool" where
  "keyword_match ks m = list_ex (\<lambda>k. contains k (msg_content m)) ks"

definition bot_mention_match :: "im_message \<Rightarrow> bool" where
  "bot_mention_match m =
     list_ex (\<lambda>e. case e of MentionElement t \<Rightarrow> same_sender t get_bot_sender | _ \<Rightarrow> False) (msg_elements m)"

definition sender_match :: "string \<Rightarrow> string \<Rightarrow> im_message \<Rightarrow> bool" where
  "sender_match uid gid m =
     (if gid \<noteq> [] \<and> snd_group_id (msg_sender m) \<noteq> Some gid then False
      else if uid \<noteq> [] \<and> snd_user_id (msg_sender m) \<noteq> uid then False else True)"

definition sender_mismatch :: "string \<Rightarrow> string \<Rightarrow> im_message \<Rightarrow> bool" where
  "sender_mismatch uid gid m =
     (if gid \<noteq> [] \<and> snd_group_id (msg_sender m) = Some gid then False
      else if uid \<noteq> [] \<and> snd_user_id (msg_sender m) = uid then False else True)"

definition chat_type_match :: "chat_type \<Rightarrow> im_message \<Rightarrow> bool" where
  "chat_type_match t m = (snd_chat_type (msg_sender m) = t)"

definition random_match :: "rat \<Rightarrow> int \<Rightarrow> bool" where
  "random_match draw chance = (draw * 100 < of_int chance)"

definition im_instance_match :: "surroundings \<Rightarrow> string \<Rightarrow> bool option" where
  "im_instance_match sr n = sr_is_instance sr n"

definition fallback_match :: bool where
  "fallback_match = True"

text \<open>The class registered for the type, built from the configuration, and its \<open>match\<close>.\<close>

fun eval_condition :: "surroundings \<Rightarrow> string \<Rightarrow> nat \<Rightarrow> nat \<Rightarrow> im_message \<Rightarrow> condition \<Rightarrow> bool option" where
  "eval_condition sr q j i m (Regex p) = regex_match sr p m"
| "eval_condition sr q j i m (Prefix p) = Some (prefix_match p m)"
| "eval_condition sr q j i m (Keyword ks) = Some (keyword_match ks m)"
| "eval_condition sr q j i m BotMention = Some (bot_mention_match m)"
| "eval_condition sr q j i m (Sender uid gid) = Some (sender_match uid gid m)"
| "eval_condition sr q j i m (SenderMismatch uid gid) = Some (sender_mismatch uid gid m)"
| "eval_condition sr q j i m (ChatTypeIs t) = Some (chat_type_match t m)"
| "eval_condition sr q j i m (RandomChance c) = Some (random_match (sr_roll sr q j i) c)"
| "eval_condition sr q j i m (ImInstance n) = im_instance_match sr n"
| "eval_condition sr q j i m Fallback = Some fallback_match"
| "eval_condition sr q j i m Rejected = None"

section \<open>Rules\<close>

datatype rule_type =
    TRegex | TPrefix | TKeyword | TBotMention | TSender | TSenderMismatch | TChatType | TRandom
  | TImInstance | TFallback | TOther string

record simple_rule =
  sim_type :: rule_type
  sim_condition :: condition

text \<open>The types and conditions that can occur together: a registered type has its own
  condition, or its configuration was rejected; an unknown type has none. The configuration of
  the fallback type has no fields, so it is never rejected.\<close>

fun well_typed :: "simple_rule \<Rightarrow> bool" where
  "well_typed r =
     (case sim_condition r of
        Regex p \<Rightarrow> sim_type r = TRegex
      | Prefix p \<Rightarrow> sim_type r = TPrefix
      | Keyword ks \<Rightarrow> sim_type r = TKeyword
      | BotMention \<Rightarrow> sim_type r = TBotMention
      | Sender u g \<Rightarrow> sim_type r = TSender
      | SenderMismatch u g \<Rightarrow> sim_type r = TSenderMismatch
      | ChatTypeIs t \<Rightarrow> sim_type r = TChatType
      | RandomChance c \<Rightarrow> sim_type r = TRandom
      | ImInstance n \<Rightarrow> sim_type r = TImInstance
      | Fallback \<Rightarrow> sim_type r = TFallback
      | Rejected \<Rightarrow> sim_type r \<noteq> TFallback)"

datatype group_operator = AndOp | OrOp

record rule_group =
  grp_operator :: group_operator
  grp_rules :: "simple_rule list"

record combined_rule =
  cr_rule_id :: string
  cr_name :: string
  cr_workflow_id :: string
  cr_agent_id :: "string option"
  cr_priority :: int
  cr_enabled :: bool
  cr_groups :: "rule_group list"
  cr_metadata_agent :: "string option"

definition bound_agent_id :: "combined_rule \<Rightarrow> string option" where
  "bound_agent_id r =
     (case cr_agent_id r of
        Some a \<Rightarrow>
          (if str_strip a \<noteq> [] then Some (str_strip a)
           else (case cr_metadata_agent r of
               Some b \<Rightarrow> if str_strip b = [] then None else Some (str_strip b) | None \<Rightarrow> None))
      | None \<Rightarrow>
          (case cr_metadata_agent r of
             Some b \<Rightarrow> if str_strip b = [] then None else Some (str_strip b) | None \<Rightarrow> None))"

text \<open>A condition evaluated at its place; one that raises is skipped, and a group in which every
  condition raises fails.\<close>

type_synonym evaluator = "string \<Rightarrow> nat \<Rightarrow> nat \<Rightarrow> simple_rule \<Rightarrow> bool option"

fun condition_results :: "(nat \<Rightarrow> simple_rule \<Rightarrow> bool option) \<Rightarrow> nat \<Rightarrow> simple_rule list \<Rightarrow> bool list" where
  "condition_results ev i [] = []"
| "condition_results ev i (r # rs) =
     (case ev i r of
        None \<Rightarrow> condition_results ev (Suc i) rs
      | Some b \<Rightarrow> b # condition_results ev (Suc i) rs)"

definition group_matches :: "(nat \<Rightarrow> simple_rule \<Rightarrow> bool option) \<Rightarrow> rule_group \<Rightarrow> bool" where
  "group_matches ev g =
     (if grp_rules g = [] then True
      else
        (let results = condition_results ev 0 (grp_rules g)
         in if results = [] then False
            else (case grp_operator g of
                    AndOp \<Rightarrow> list_all id results
                  | OrOp \<Rightarrow> list_ex id results)))"

fun groups_match :: "(nat \<Rightarrow> nat \<Rightarrow> simple_rule \<Rightarrow> bool option) \<Rightarrow> nat \<Rightarrow> rule_group list \<Rightarrow> bool" where
  "groups_match ev j [] = True"
| "groups_match ev j (g # gs) = (if group_matches (ev j) g then groups_match ev (Suc j) gs else False)"

definition rule_matches :: "evaluator \<Rightarrow> combined_rule \<Rightarrow> bool" where
  "rule_matches ev r =
     (if \<not> cr_enabled r then False else groups_match (ev (cr_rule_id r)) 0 (cr_groups r))"

section \<open>Explanation\<close>

text \<open>The dry run: the results it may use, \<open>None\<close> standing for one that cannot be determined
  without side effects.\<close>

fun explain_results :: "(nat \<Rightarrow> simple_rule \<Rightarrow> bool option) \<Rightarrow> nat \<Rightarrow> simple_rule list \<Rightarrow> bool option list" where
  "explain_results ev i [] = []"
| "explain_results ev i (r # rs) =
     (if sim_type r = TRandom then None # explain_results ev (Suc i) rs
      else if sim_type r = TImInstance then None # explain_results ev (Suc i) rs
      else (case ev i r of
              None \<Rightarrow> explain_results ev (Suc i) rs
            | Some b \<Rightarrow> Some b # explain_results ev (Suc i) rs))"

definition three_all :: "bool option list \<Rightarrow> bool option" where
  "three_all rs =
     (if Some False \<in> set rs then Some False
      else if list_all (\<lambda>r. r = Some True) rs then Some True else None)"

definition three_any :: "bool option list \<Rightarrow> bool option" where
  "three_any rs =
     (if Some True \<in> set rs then Some True
      else if list_all (\<lambda>r. r = Some False) rs then Some False else None)"

definition explain_group :: "(nat \<Rightarrow> simple_rule \<Rightarrow> bool option) \<Rightarrow> rule_group \<Rightarrow> bool option" where
  "explain_group ev g =
     (if grp_rules g = [] then Some True
      else
        (let results = explain_results ev 0 (grp_rules g)
         in if results = [] then Some False
            else (case grp_operator g of AndOp \<Rightarrow> three_all results | OrOp \<Rightarrow> three_any results)))"

fun explain_groups :: "(nat \<Rightarrow> nat \<Rightarrow> simple_rule \<Rightarrow> bool option) \<Rightarrow> nat \<Rightarrow> rule_group list \<Rightarrow> bool option list" where
  "explain_groups ev j [] = []"
| "explain_groups ev j (g # gs) = explain_group (ev j) g # explain_groups ev (Suc j) gs"

definition explain_match :: "evaluator \<Rightarrow> combined_rule \<Rightarrow> bool option" where
  "explain_match ev r =
     (if \<not> cr_enabled r then Some False
      else three_all (explain_groups (ev (cr_rule_id r)) 0 (cr_groups r)))"

section \<open>Dispatch order\<close>

text \<open>\<open>(-priority, rule_id)\<close>, compared as Python compares the pair.\<close>

datatype dispatch_key = DispatchKey int string

instantiation dispatch_key :: linorder
begin

fun less_eq_dispatch_key :: "dispatch_key \<Rightarrow> dispatch_key \<Rightarrow> bool" where
  "less_eq_dispatch_key (DispatchKey p s) (DispatchKey q t) = (p < q \<or> (p = q \<and> s \<le> t))"

definition less_dispatch_key :: "dispatch_key \<Rightarrow> dispatch_key \<Rightarrow> bool" where
  "less_dispatch_key k l = (k \<le> l \<and> \<not> l \<le> (k :: dispatch_key))"

instance
proof
  fix x y z :: dispatch_key
  show "(x < y) = (x \<le> y \<and> \<not> y \<le> x)" by (rule less_dispatch_key_def)
  show "x \<le> x" by (cases x) simp
  show "x \<le> y \<Longrightarrow> y \<le> z \<Longrightarrow> x \<le> z" by (cases x; cases y; cases z) auto
  show "x \<le> y \<Longrightarrow> y \<le> x \<Longrightarrow> x = y" by (cases x; cases y) auto
  show "x \<le> y \<or> y \<le> x" by (cases x; cases y) auto
qed

end

definition dispatch_order_key :: "combined_rule \<Rightarrow> dispatch_key" where
  "dispatch_order_key r = DispatchKey (- cr_priority r) (cr_rule_id r)"

definition sort_rules_in_dispatch_order :: "combined_rule list \<Rightarrow> combined_rule list" where
  "sort_rules_in_dispatch_order rules = sort_key dispatch_order_key rules"

definition active_rules :: "combined_rule list \<Rightarrow> combined_rule list" where
  "active_rules rules = sort_rules_in_dispatch_order (filter cr_enabled rules)"

text \<open>The rule the dispatcher runs for a message: the first active one that matches.\<close>

definition chosen_rule :: "evaluator \<Rightarrow> combined_rule list \<Rightarrow> combined_rule option" where
  "chosen_rule ev rules = List.find (rule_matches ev) (active_rules rules)"

section \<open>Reachability\<close>

definition is_unconditional_group :: "rule_group \<Rightarrow> bool" where
  "is_unconditional_group g =
     (if grp_rules g = [] then True
      else (case grp_operator g of
              AndOp \<Rightarrow> list_all (\<lambda>r. sim_type r = TFallback) (grp_rules g)
            | OrOp \<Rightarrow> list_ex (\<lambda>r. sim_type r = TFallback) (grp_rules g)))"

definition is_catch_all_rule :: "combined_rule \<Rightarrow> bool" where
  "is_catch_all_rule r = (cr_groups r = [] \<or> list_all is_unconditional_group (cr_groups r))"

record reachability =
  rb_rule_id :: string
  rb_enabled :: bool
  rb_order :: "nat option"
  rb_catch_all :: bool
  rb_unreachable :: bool
  rb_shadowed_by :: "string option"

text \<open>The loop: the shadowing rule so far and the number of enabled rules so far.\<close>

fun analyze_loop :: "string option \<Rightarrow> nat \<Rightarrow> combined_rule list \<Rightarrow> reachability list" where
  "analyze_loop shadow n [] = []"
| "analyze_loop shadow n (r # rs) =
     (let catch_all = is_catch_all_rule r;
          unreachable = (cr_enabled r \<and> shadow \<noteq> None);
          n' = (if cr_enabled r then n + 1 else n)
      in \<lparr>rb_rule_id = cr_rule_id r, rb_enabled = cr_enabled r,
          rb_order = (if cr_enabled r then Some n' else None), rb_catch_all = catch_all,
          rb_unreachable = unreachable,
          rb_shadowed_by = (if unreachable then shadow else None)\<rparr>
         # analyze_loop
             (if shadow = None \<and> cr_enabled r \<and> catch_all then Some (cr_rule_id r) else shadow) n' rs)"

definition analyze_dispatch_reachability :: "combined_rule list \<Rightarrow> reachability list" where
  "analyze_dispatch_reachability rules = analyze_loop None 0 (sort_rules_in_dispatch_order rules)"

section \<open>The contract of an evaluator\<close>

lemma all_true_iff: "list_all id bs = (False \<notin> set bs)"
  by (induction bs) (auto simp: id_def)

lemma some_value: "bs \<noteq> [] \<Longrightarrow> True \<in> set bs \<or> False \<in> set bs"
  by (cases bs) auto

lemma any_true: "list_ex id bs = (True \<in> set bs)"
  by (induction bs) (auto simp: id_def)

lemma three_all_Cons:
  "three_all (x # xs) =
     (if x = Some False \<or> three_all xs = Some False then Some False
      else if x = Some True \<and> three_all xs = Some True then Some True else None)"
  by (auto simp: three_all_def)

lemma three_all_ConsE:
  assumes "three_all (x # xs) = Some b"
  shows "(\<not> b \<and> (x = Some False \<or> three_all xs = Some False)) \<or>
         (b \<and> x = Some True \<and> three_all xs = Some True)"
  using assms by (cases b) (simp_all add: three_all_Cons split: if_split_asm)

text \<open>A three-valued verdict that is known is the verdict over the real results.\<close>

lemma three_all_agrees:
  assumes "three_all xs = Some b" "xs \<noteq> []"
    and "\<And>c. Some c \<in> set xs \<Longrightarrow> c \<in> set ys" "\<And>c. c \<in> set ys \<Longrightarrow> Some c \<in> set xs \<or> None \<in> set xs"
  shows "(if ys = [] then False else list_all id ys) = b"
proof (cases b)
  case True
  then have t: "\<forall>x\<in>set xs. x = Some True"
    using assms(1) by (auto simp: three_all_def list_all_iff split: if_splits)
  then have "Some True \<in> set xs" using assms(2) by (cases xs) auto
  moreover have "False \<notin> set ys" using t assms(4) [of False] by auto
  ultimately show ?thesis using assms(3) [of True] all_true_iff [of ys] True by auto
next
  case False
  then have "False \<in> set ys"
    using assms(1) assms(3) [of False] by (auto simp: three_all_def split: if_splits)
  then show ?thesis using False by (auto simp: list_all_iff)
qed

lemma three_any_agrees:
  assumes "three_any xs = Some b" "xs \<noteq> []"
    and "\<And>c. Some c \<in> set xs \<Longrightarrow> c \<in> set ys" "\<And>c. c \<in> set ys \<Longrightarrow> Some c \<in> set xs \<or> None \<in> set xs"
  shows "(if ys = [] then False else list_ex id ys) = b"
proof (cases b)
  case True
  then have "True \<in> set ys"
    using assms(1) assms(3) [of True] by (auto simp: three_any_def split: if_splits)
  then show ?thesis using True by (auto simp: any_true)
next
  case False
  then have t: "\<forall>x\<in>set xs. x = Some False"
    using assms(1) by (auto simp: three_any_def list_all_iff split: if_splits)
  then have "True \<notin> set ys" using assms(4) [of True] by auto
  then show ?thesis using False by (simp add: any_true)
qed

text \<open>
  What the analyses use of the condition classes: a fallback condition holds for every
  message, and an evaluation without side effects agrees with the real one except on the
  two types the dry run leaves open.
\<close>

locale rule_evaluator =
  fixes ev dry :: evaluator
    and ok :: "simple_rule \<Rightarrow> bool"
  assumes fallback_holds: "ok r \<Longrightarrow> sim_type r = TFallback \<Longrightarrow> ev q j i r = Some True"
    and dry_agrees: "ok r \<Longrightarrow> sim_type r \<noteq> TRandom \<Longrightarrow> sim_type r \<noteq> TImInstance \<Longrightarrow>
                     dry q j i r = ev q j i r"
begin

lemma condition_results_fallback:
  "list_all ok rs \<Longrightarrow> list_ex (\<lambda>r. sim_type r = TFallback) rs \<Longrightarrow>
   True \<in> set (condition_results (ev q j) i rs)"
  by (induction rs arbitrary: i) (auto simp: fallback_holds split: option.split)

lemma condition_results_all_fallback:
  "list_all ok rs \<Longrightarrow> list_all (\<lambda>r. sim_type r = TFallback) rs \<Longrightarrow>
   condition_results (ev q j) i rs = replicate (length rs) True"
  by (induction rs arbitrary: i) (simp_all add: fallback_holds)

lemma unconditional_group_matches:
  assumes "list_all ok (grp_rules g)" "is_unconditional_group g"
  shows "group_matches (ev q j) g"
proof (cases "grp_operator g")
  case AndOp
  with assms show ?thesis
    by (auto simp: group_matches_def is_unconditional_group_def Let_def condition_results_all_fallback
        list_all_iff split: if_splits)
next
  case OrOp
  show ?thesis
  proof (cases "grp_rules g = []")
    case False
    with OrOp assms have "True \<in> set (condition_results (ev q j) 0 (grp_rules g))"
      by (intro condition_results_fallback) (simp_all add: is_unconditional_group_def)
    with False OrOp show ?thesis by (auto simp: group_matches_def Let_def any_true)
  qed (simp add: group_matches_def)
qed

lemma catch_all_groups:
  "list_all (\<lambda>g. list_all ok (grp_rules g)) gs \<Longrightarrow> list_all is_unconditional_group gs \<Longrightarrow>
   groups_match (ev q) j gs"
  by (induction gs arbitrary: j) (simp_all add: unconditional_group_matches)

lemma catch_all_matches:
  assumes "list_all (\<lambda>g. list_all ok (grp_rules g)) (cr_groups r)" "is_catch_all_rule r" "cr_enabled r"
  shows "rule_matches ev r"
  using assms catch_all_groups by (auto simp: rule_matches_def is_catch_all_rule_def)

text \<open>The results of a dry run that are known are results of the real run, and a real result
  missing from the dry run leaves an unknown one behind.\<close>

lemma explain_results_known:
  "list_all ok rs \<Longrightarrow> Some b \<in> set (explain_results (dry q j) i rs) \<Longrightarrow>
   b \<in> set (condition_results (ev q j) i rs)"
  by (induction rs arbitrary: i) (auto simp: dry_agrees split: option.splits if_splits)

lemma condition_results_known:
  "list_all ok rs \<Longrightarrow> b \<in> set (condition_results (ev q j) i rs) \<Longrightarrow>
   Some b \<in> set (explain_results (dry q j) i rs) \<or> None \<in> set (explain_results (dry q j) i rs)"
  by (induction rs arbitrary: i) (auto simp: dry_agrees split: option.splits if_splits)

lemma condition_results_empty:
  "list_all ok rs \<Longrightarrow> explain_results (dry q j) i rs = [] \<Longrightarrow> condition_results (ev q j) i rs = []"
  by (induction rs arbitrary: i) (auto simp: dry_agrees split: option.splits if_splits)

lemma explain_group_sound:
  assumes "list_all ok (grp_rules g)" "explain_group (dry q j) g = Some b"
  shows "group_matches (ev q j) g = b"
proof (cases "grp_rules g = [] \<or> explain_results (dry q j) 0 (grp_rules g) = []")
  case True
  with assms show ?thesis
    by (auto simp: explain_group_def group_matches_def condition_results_empty Let_def split: if_splits)
next
  case False
  define xs where "xs = explain_results (dry q j) 0 (grp_rules g)"
  define ys where "ys = condition_results (ev q j) 0 (grp_rules g)"
  have known: "Some c \<in> set xs \<Longrightarrow> c \<in> set ys"
    and found: "c \<in> set ys \<Longrightarrow> Some c \<in> set xs \<or> None \<in> set xs" for c
    using explain_results_known [OF assms(1)] condition_results_known [OF assms(1)]
    by (simp_all add: xs_def ys_def)
  have ne: "xs \<noteq> []" "grp_rules g \<noteq> []" using False by (simp_all add: xs_def)
  have gm: "group_matches (ev q j) g = (if ys = [] then False
      else case grp_operator g of AndOp \<Rightarrow> list_all id ys | OrOp \<Rightarrow> list_ex id ys)"
    using ne(2) by (simp add: group_matches_def Let_def ys_def split: group_operator.split)
  have eg: "(case grp_operator g of AndOp \<Rightarrow> three_all xs | OrOp \<Rightarrow> three_any xs) = Some b"
    using assms(2) ne by (simp add: explain_group_def Let_def flip: xs_def)
  show ?thesis
  proof (cases "grp_operator g")
    case AndOp
    with eg have "three_all xs = Some b" by simp
    from three_all_agrees [OF this ne(1) known found] show ?thesis
      unfolding gm using AndOp by auto
  next
    case OrOp
    with eg have "three_any xs = Some b" by simp
    from three_any_agrees [OF this ne(1) known found] show ?thesis
      unfolding gm using OrOp by auto
  qed
qed

lemma explain_groups_sound:
  "list_all (\<lambda>g. list_all ok (grp_rules g)) gs \<Longrightarrow>
   three_all (explain_groups (dry q) j gs) = Some b \<Longrightarrow> groups_match (ev q) j gs = b"
proof (induction gs arbitrary: j b)
  case Nil
  then show ?case by (simp add: three_all_def)
next
  case (Cons g gs)
  let ?gs = "explain_groups (dry q) (Suc j) gs"
  have g: "explain_group (dry q j) g = Some c \<Longrightarrow> group_matches (ev q j) g = c" for c
    using explain_group_sound Cons.prems(1) by simp
  have ih: "three_all ?gs = Some c \<Longrightarrow> groups_match (ev q) (Suc j) gs = c" for c
    using Cons.IH Cons.prems(1) by simp
  have "three_all (explain_group (dry q j) g # ?gs) = Some b" using Cons.prems(2) by simp
  from three_all_ConsE [OF this] show ?case
    using g [of True] g [of False] ih [of True] ih [of False] by (elim disjE conjE) simp_all
qed

lemma explain_sound:
  assumes "list_all (\<lambda>g. list_all ok (grp_rules g)) (cr_groups r)" "explain_match dry r = Some b"
  shows "rule_matches ev r = b"
proof (cases "cr_enabled r")
  case False
  with assms(2) show ?thesis by (simp add: explain_match_def rule_matches_def)
next
  case True
  with assms(2) have "three_all (explain_groups (dry (cr_rule_id r)) 0 (cr_groups r)) = Some b"
    by (simp add: explain_match_def)
  from explain_groups_sound [OF assms(1) this] True show ?thesis by (simp add: rule_matches_def)
qed

text \<open>In the dispatch order, a rule behind an enabled catch-all rule is not the one found.\<close>

lemma shadowed_not_found:
  assumes "\<forall>g\<in>set (cr_groups c). list_all ok (grp_rules g)" "is_catch_all_rule c" "cr_enabled c"
    and "c \<in> set front" "List.find (rule_matches ev) (front @ later) = Some r"
  shows "r \<in> set front"
proof -
  have "rule_matches ev c" using assms(1-3) by (intro catch_all_matches) (simp_all add: list_all_iff)
  with assms(4,5) show ?thesis
    by (induction front) (auto split: if_splits)
qed

end

section \<open>The evaluator of the code\<close>

definition evaluate :: "surroundings \<Rightarrow> im_message \<Rightarrow> evaluator" where
  "evaluate sr m q j i r = eval_condition sr q j i m (sim_condition r)"

text \<open>Two surroundings that agree on the regular expression engine, and may differ in the
  draws and in the running instance.\<close>

definition same_regex_engine :: "surroundings \<Rightarrow> surroundings \<Rightarrow> bool" where
  "same_regex_engine sr sr' = (sr_regex_search sr = sr_regex_search sr')"

definition well_typed_rule :: "combined_rule \<Rightarrow> bool" where
  "well_typed_rule r = list_all (\<lambda>g. list_all well_typed (grp_rules g)) (cr_groups r)"

lemma evaluate_fallback:
  "well_typed r \<Longrightarrow> sim_type r = TFallback \<Longrightarrow> evaluate sr m q j i r = Some True"
  by (cases "sim_condition r") (simp_all add: evaluate_def fallback_match_def)

lemma evaluate_dry:
  assumes "well_typed r" "sim_type r \<noteq> TRandom" "sim_type r \<noteq> TImInstance" "same_regex_engine sr dr"
  shows "evaluate dr m q' j' i' r = evaluate sr m q j i r"
  using assms by (cases "sim_condition r") (simp_all add: evaluate_def same_regex_engine_def regex_match_def)

interpretation code_rules: rule_evaluator "evaluate sr m"
  "evaluate (sr\<lparr>sr_roll := rolls, sr_is_instance := inst\<rparr>) m" well_typed
  for sr m rolls inst
  by unfold_locales (auto intro: evaluate_fallback evaluate_dry simp: same_regex_engine_def)

section \<open>The chosen rule\<close>

lemma sort_rules_set [simp]: "set (sort_rules_in_dispatch_order rules) = set rules"
  by (simp add: sort_rules_in_dispatch_order_def)

lemma active_rules_filter: "active_rules rules = filter cr_enabled (sort_rules_in_dispatch_order rules)"
  by (simp add: active_rules_def sort_rules_in_dispatch_order_def filter_sort)

lemma rule_matches_enabled: "rule_matches ev r \<Longrightarrow> cr_enabled r"
  by (simp add: rule_matches_def split: if_splits)

lemma find_active: "chosen_rule ev rules = List.find (rule_matches ev) (sort_rules_in_dispatch_order rules)"
proof -
  have "List.find (rule_matches ev) (filter cr_enabled rs) = List.find (rule_matches ev) rs" for rs
    by (induction rs) (auto dest: rule_matches_enabled)
  then show ?thesis by (simp add: chosen_rule_def active_rules_filter)
qed

text \<open>The first element of a list sorted by a key that satisfies a predicate has the least key.\<close>

lemma find_sorted_least:
  "sorted (map f xs) \<Longrightarrow> List.find P xs = Some x \<Longrightarrow> y \<in> set xs \<Longrightarrow> P y \<Longrightarrow> f x \<le> (f y :: 'k :: linorder)"
  by (induction xs) (auto split: if_splits)

lemma find_some: "List.find P xs = Some x \<Longrightarrow> x \<in> set xs \<and> P x"
  by (induction xs) (auto split: if_splits)

lemma find_none: "List.find P xs = None \<Longrightarrow> x \<in> set xs \<Longrightarrow> \<not> P x"
  by (induction xs) (auto split: if_splits)

lemma same_key_same_rule:
  assumes "distinct (map cr_rule_id rules)" "r \<in> set rules" "s \<in> set rules"
    and "dispatch_order_key r = dispatch_order_key s"
  shows "r = s"
  using assms by (auto simp: dispatch_order_key_def distinct_map inj_on_def)

text \<open>C33. The rule the dispatcher runs is determined by the rules themselves, not by the order in
  which they were registered or read from disk: it is the enabled and matching rule with the least
  \<open>(-priority, rule_id)\<close>, and there is none exactly when no rule matches.\<close>

theorem chosen_rule_is_least:
  assumes "distinct (map cr_rule_id rules)"
  shows "chosen_rule ev rules = Some r \<longleftrightarrow>
           (r \<in> set rules \<and> rule_matches ev r \<and>
            (\<forall>s\<in>set rules. rule_matches ev s \<longrightarrow> dispatch_order_key r \<le> dispatch_order_key s))"
proof -
  let ?rs = "sort_rules_in_dispatch_order rules"
  have sorted: "sorted (map dispatch_order_key ?rs)"
    by (simp add: sort_rules_in_dispatch_order_def)
  show ?thesis
  proof
    assume "chosen_rule ev rules = Some r"
    then have found: "List.find (rule_matches ev) ?rs = Some r" by (simp add: find_active)
    from find_some [OF this] find_sorted_least [OF sorted this]
    show "r \<in> set rules \<and> rule_matches ev r \<and>
            (\<forall>s\<in>set rules. rule_matches ev s \<longrightarrow> dispatch_order_key r \<le> dispatch_order_key s)"
      by simp
  next
    assume r: "r \<in> set rules \<and> rule_matches ev r \<and>
            (\<forall>s\<in>set rules. rule_matches ev s \<longrightarrow> dispatch_order_key r \<le> dispatch_order_key s)"
    then obtain t where t: "List.find (rule_matches ev) ?rs = Some t"
      using find_none [of "rule_matches ev" ?rs r] by (cases "List.find (rule_matches ev) ?rs") auto
    from find_some [OF t] have "t \<in> set rules" "rule_matches ev t" by simp_all
    with r find_sorted_least [OF sorted t] have "dispatch_order_key r = dispatch_order_key t"
      by (intro order_antisym) simp_all
    with r \<open>t \<in> set rules\<close> have "t = r" using same_key_same_rule [OF assms] by metis
    with t show "chosen_rule ev rules = Some r" by (simp add: find_active)
  qed
qed

section \<open>Groups and failing conditions\<close>

lemma ex_less_Suc_split: "(\<exists>k<Suc n. P k) \<longleftrightarrow> P 0 \<or> (\<exists>k<n. P (Suc k))"
  using less_Suc_eq_0_disj by auto

lemma condition_results_set:
  "b \<in> set (condition_results ev i rs) \<longleftrightarrow> (\<exists>k<length rs. ev (i + k) (rs ! k) = Some b)"
proof (induction rs arbitrary: i)
  case (Cons r rs)
  have "(\<exists>k<length (r # rs). ev (i + k) ((r # rs) ! k) = Some b) \<longleftrightarrow>
        ev i r = Some b \<or> (\<exists>k<length rs. ev (Suc i + k) (rs ! k) = Some b)"
    by (simp add: ex_less_Suc_split)
  with Cons.IH [of "Suc i"] show ?case by (cases "ev i r") (simp_all, blast)
qed simp

text \<open>What a condition group means: an \<open>or\<close> group holds when one of its conditions evaluates to
  true; an \<open>and\<close> group holds when one does and none evaluates to false. A condition that raises
  (an unknown type, a rejected configuration, an exception while matching) is therefore ignored in
  an \<open>and\<close> group that has another valid condition, and does not make the group fail; only a group
  in which every condition raises fails. An empty group holds.\<close>

theorem group_ignores_failing_conditions:
  "group_matches ev g =
     (let n = length (grp_rules g); result = (\<lambda>k. ev k (grp_rules g ! k))
      in if n = 0 then True
         else (\<exists>k<n. result k = Some True) \<and>
              (case grp_operator g of OrOp \<Rightarrow> True | AndOp \<Rightarrow> \<not> (\<exists>k<n. result k = Some False)))"
proof -
  let ?bs = "condition_results ev 0 (grp_rules g)"
  have t: "True \<in> set ?bs \<longleftrightarrow> (\<exists>k<length (grp_rules g). ev k (grp_rules g ! k) = Some True)"
    and f: "False \<in> set ?bs \<longleftrightarrow> (\<exists>k<length (grp_rules g). ev k (grp_rules g ! k) = Some False)"
    using condition_results_set [of _ ev 0 "grp_rules g"] by simp_all
  have empty: "?bs = [] \<Longrightarrow> True \<notin> set ?bs" by simp
  have "group_matches ev g \<longleftrightarrow> (grp_rules g = [] \<or>
      True \<in> set ?bs \<and> (grp_operator g = OrOp \<or> False \<notin> set ?bs))"
  proof (cases "grp_operator g")
    case AndOp
    then show ?thesis using some_value [of ?bs] empty
      by (auto simp: group_matches_def Let_def all_true_iff)
  next
    case OrOp
    then show ?thesis using empty by (auto simp: group_matches_def Let_def any_true)
  qed
  then have "group_matches ev g = (if grp_rules g = [] then True
      else True \<in> set ?bs \<and> (case grp_operator g of OrOp \<Rightarrow> True | AndOp \<Rightarrow> False \<notin> set ?bs))"
    by (cases "grp_operator g") simp_all
  then show ?thesis unfolding Let_def length_0_conv t f .
qed

section \<open>Soundness of the dry run and of the reachability report\<close>

text \<open>The dry run of the management page does not mislead: it evaluates the conditions without
  sampling the random chance and without asking for a running instance, and whenever it still
  reports a verdict, the real dispatch of the same message reaches that verdict, whatever is drawn
  and whichever instance runs.\<close>

theorem explain_agrees_with_match:
  assumes "well_typed_rule r" "same_regex_engine sr dr" "explain_match (evaluate dr m) r = Some b"
  shows "rule_matches (evaluate sr m) r = b"
proof -
  have "dr = sr\<lparr>sr_roll := sr_roll dr, sr_is_instance := sr_is_instance dr\<rparr>"
    using assms(2) by (simp add: same_regex_engine_def)
  with assms(1,3) show ?thesis
    using code_rules.explain_sound [where sr = sr and m = m and r = r and b = b
      and rolls = "sr_roll dr" and inst = "sr_is_instance dr"]
    by (simp add: well_typed_rule_def)
qed

lemma analyze_loop_member:
  assumes "x \<in> set (analyze_loop shadow n rs)"
  shows "\<exists>front r rest. rs = front @ r # rest \<and> rb_rule_id x = cr_rule_id r \<and>
     rb_enabled x = cr_enabled r \<and> rb_catch_all x = is_catch_all_rule r \<and>
     rb_order x = (if cr_enabled r then Some (n + length (filter cr_enabled front) + 1) else None) \<and>
     rb_shadowed_by x = (if rb_unreachable x then (case shadow of Some s \<Rightarrow> Some s | None \<Rightarrow>
       map_option cr_rule_id (List.find (\<lambda>c. cr_enabled c \<and> is_catch_all_rule c) front)) else None) \<and>
     rb_unreachable x = (cr_enabled r \<and>
       (shadow \<noteq> None \<or> (\<exists>c\<in>set front. cr_enabled c \<and> is_catch_all_rule c)))"
  using assms
proof (induction rs arbitrary: shadow n)
  case (Cons c rs)
  let ?shadow = "if shadow = None \<and> cr_enabled c \<and> is_catch_all_rule c then Some (cr_rule_id c) else shadow"
  let ?n = "if cr_enabled c then n + 1 else n"
  from Cons.prems consider
      "x = \<lparr>rb_rule_id = cr_rule_id c, rb_enabled = cr_enabled c,
          rb_order = (if cr_enabled c then Some ?n else None), rb_catch_all = is_catch_all_rule c,
          rb_unreachable = (cr_enabled c \<and> shadow \<noteq> None),
          rb_shadowed_by = (if cr_enabled c \<and> shadow \<noteq> None then shadow else None)\<rparr>"
    | "x \<in> set (analyze_loop ?shadow ?n rs)"
    by (auto simp: Let_def)
  then show ?case
  proof cases
    case 1
    then show ?thesis by (intro exI [of _ "[]"] exI [of _ c] exI [of _ rs]) auto
  next
    case 2
    from Cons.IH [OF this] obtain front r rest where
      eqs: "rs = front @ r # rest" "rb_rule_id x = cr_rule_id r"
      "rb_enabled x = cr_enabled r" "rb_catch_all x = is_catch_all_rule r"
      "rb_order x = (if cr_enabled r then Some (?n + length (filter cr_enabled front) + 1) else None)"
      "rb_shadowed_by x = (if rb_unreachable x then (case ?shadow of Some s \<Rightarrow> Some s | None \<Rightarrow>
         map_option cr_rule_id (List.find (\<lambda>c. cr_enabled c \<and> is_catch_all_rule c) front)) else None)"
      "rb_unreachable x = (cr_enabled r \<and>
         (?shadow \<noteq> None \<or> (\<exists>c\<in>set front. cr_enabled c \<and> is_catch_all_rule c)))"
      by blast
    show ?thesis
      by (rule exI [of _ "c # front"], rule exI [of _ r], rule exI [of _ rest])
        (simp add: eqs split: option.split; blast)
  qed
qed simp

text \<open>C34. The reachability report is sound: for rules with distinct identifiers, a rule reported as
  unreachable is enabled, the report names an enabled rule with no real condition that comes before
  it, and no message, no draw and no running instance ever makes the dispatcher choose it.\<close>

theorem unreachable_is_never_chosen:
  assumes "distinct (map cr_rule_id rules)" "\<forall>r\<in>set rules. well_typed_rule r"
    and "x \<in> set (analyze_dispatch_reachability rules)" "rb_unreachable x"
  shows "\<exists>c r. c \<in> set rules \<and> r \<in> set rules \<and> rb_rule_id x = cr_rule_id r \<and> cr_enabled r \<and>
           cr_enabled c \<and> is_catch_all_rule c \<and> rb_shadowed_by x = Some (cr_rule_id c) \<and>
           dispatch_order_key c < dispatch_order_key r \<and>
           (\<forall>sr m. chosen_rule (evaluate sr m) rules \<noteq> Some r)"
proof -
  let ?rs = "sort_rules_in_dispatch_order rules" and ?P = "\<lambda>c. cr_enabled c \<and> is_catch_all_rule c"
  from analyze_loop_member [of x None 0 ?rs] assms(3,4) obtain front r rest where
    split: "?rs = front @ r # rest" and x: "rb_rule_id x = cr_rule_id r" "cr_enabled r"
    "rb_shadowed_by x = map_option cr_rule_id (List.find ?P front)" "\<exists>c\<in>set front. ?P c"
    by (auto simp: analyze_dispatch_reachability_def)
  from x(4) obtain c where found: "List.find ?P front = Some c"
    using find_none [of ?P front] by (cases "List.find ?P front") auto
  have c: "c \<in> set front" "cr_enabled c" "is_catch_all_rule c" using find_some [OF found] by simp_all
  have mem: "c \<in> set rules" "r \<in> set rules"
    using c(1) split sort_rules_set [of rules] by auto
  have "distinct (map cr_rule_id ?rs)"
    using assms(1) by (simp add: sort_rules_in_dispatch_order_def distinct_map)
  with split have "r \<notin> set front" by auto
  have "sorted (map dispatch_order_key ?rs)" by (simp add: sort_rules_in_dispatch_order_def)
  with split c(1) have "dispatch_order_key c \<le> dispatch_order_key r" by (auto simp: sorted_append)
  moreover have "c \<noteq> r" using c(1) \<open>r \<notin> set front\<close> by auto
  then have "dispatch_order_key c \<noteq> dispatch_order_key r"
    using same_key_same_rule [OF assms(1) mem] by blast
  ultimately have "dispatch_order_key c < dispatch_order_key r" by simp
  moreover have "chosen_rule (evaluate sr m) rules \<noteq> Some r" for sr m
  proof
    assume "chosen_rule (evaluate sr m) rules = Some r"
    then have "List.find (rule_matches (evaluate sr m)) (front @ r # rest) = Some r"
      by (simp add: find_active split)
    moreover have "\<forall>g\<in>set (cr_groups c). list_all well_typed (grp_rules g)"
      using assms(2) mem by (simp add: well_typed_rule_def list_all_iff)
    ultimately have "r \<in> set front"
      using code_rules.shadowed_not_found [where sr = sr and m = m and c = c and front = front
          and later = "r # rest" and r = r] c by simp
    with \<open>r \<notin> set front\<close> show False ..
  qed
  ultimately show ?thesis using c mem x found by auto
qed

section \<open>Examples\<close>

definition sample_condition :: simple_rule where
  "sample_condition = \<lparr>sim_type = TKeyword, sim_condition = Keyword [''help'']\<rparr>"

definition sample_draw :: simple_rule where
  "sample_draw = \<lparr>sim_type = TRandom, sim_condition = RandomChance 50\<rparr>"

definition sample_fallback :: simple_rule where
  "sample_fallback = \<lparr>sim_type = TFallback, sim_condition = Fallback\<rparr>"

definition sample_rule :: "string \<Rightarrow> int \<Rightarrow> rule_group list \<Rightarrow> combined_rule" where
  "sample_rule q p gs = \<lparr>cr_rule_id = q, cr_name = q, cr_workflow_id = ''w'', cr_agent_id = None,
     cr_priority = p, cr_enabled = True, cr_groups = gs, cr_metadata_agent = None\<rparr>"

definition sample_help :: combined_rule where
  "sample_help = sample_rule ''help'' 5
     [\<lparr>grp_operator = OrOp, grp_rules = [sample_draw, sample_condition]\<rparr>]"

definition sample_rules :: "combined_rule list" where
  "sample_rules = [sample_help,
     sample_rule ''all'' 9 [\<lparr>grp_operator = AndOp, grp_rules = [sample_fallback]\<rparr>]]"

definition sample_surroundings :: surroundings where
  "sample_surroundings = \<lparr>sr_regex_search = \<lambda>p s. None, sr_roll = \<lambda>q j i. 0,
     sr_is_instance = \<lambda>n. None\<rparr>"

definition sample_message :: im_message where
  "sample_message = \<lparr>msg_sender = get_bot_sender, msg_elements = [TextElement ''help me'']\<rparr>"

theorem chosen_rule_is_least_witness:
  "distinct (map cr_rule_id sample_rules) \<and>
   chosen_rule (evaluate sample_surroundings sample_message) sample_rules = Some (sample_rules ! 1)"
proof -
  have d: "distinct (map cr_rule_id sample_rules)" by code_simp
  have "chosen_rule (evaluate sample_surroundings sample_message) sample_rules = Some (sample_rules ! 1)"
    unfolding chosen_rule_is_least [OF d] by code_simp
  with d show ?thesis by simp
qed

theorem explain_agrees_with_match_witness:
  "explain_match (evaluate sample_surroundings sample_message) sample_help = Some True \<and>
   rule_matches (evaluate (sample_surroundings\<lparr>sr_roll := \<lambda>q j i. 99 / 100\<rparr>) sample_message) sample_help"
proof -
  have e: "explain_match (evaluate sample_surroundings sample_message) sample_help = Some True"
    by code_simp
  have "same_regex_engine (sample_surroundings\<lparr>sr_roll := \<lambda>q j i. 99 / 100\<rparr>) sample_surroundings"
    by (simp add: same_regex_engine_def)
  moreover have "well_typed_rule sample_help" by code_simp
  ultimately show ?thesis using explain_agrees_with_match [OF _ _ e] e by blast
qed

theorem unreachable_is_never_chosen_witness:
  "\<exists>c r. c \<in> set sample_rules \<and> r \<in> set sample_rules \<and> cr_rule_id r = ''help'' \<and>
     cr_rule_id c = ''all'' \<and> (\<forall>sr m. chosen_rule (evaluate sr m) sample_rules \<noteq> Some r)"
proof -
  let ?x = "analyze_dispatch_reachability sample_rules ! 1"
  have "distinct (map cr_rule_id sample_rules)" by code_simp
  moreover have "\<forall>r\<in>set sample_rules. well_typed_rule r" by code_simp
  moreover have "?x \<in> set (analyze_dispatch_reachability sample_rules)"
    by (rule nth_mem) code_simp
  moreover have "rb_unreachable ?x" by code_simp
  ultimately have "\<exists>c r. c \<in> set sample_rules \<and> r \<in> set sample_rules \<and> rb_rule_id ?x = cr_rule_id r \<and>
     cr_enabled r \<and> cr_enabled c \<and> is_catch_all_rule c \<and> rb_shadowed_by ?x = Some (cr_rule_id c) \<and>
     dispatch_order_key c < dispatch_order_key r \<and>
     (\<forall>sr m. chosen_rule (evaluate sr m) sample_rules \<noteq> Some r)"
    by (rule unreachable_is_never_chosen)
  moreover have "rb_rule_id ?x = ''help''" "rb_shadowed_by ?x = Some ''all''" by code_simp+
  ultimately show ?thesis by (metis option.inject)
qed

end
