(* ===== verification/Memory_Codec.thy ===== *)
theory Memory_Codec
  imports Dispatch_Rules
begin

text \<open>
  Remembered entries (\<open>memory/entry.py\<close>) and their JSON form: \<open>MemoryJSONEncoder\<close> and
  \<open>memory_json_decoder\<close> of \<open>memory/persistences/codecs.py\<close>, and the entry documents of
  \<open>file_persistence.py\<close>, which \<open>redis_persistence.py\<close> writes too.

  A Python value is one that JSON can hold, or a sender. An instant is the ISO text of a naive date and
  time, whose lexicographic order is the order of time.
\<close>

section \<open>Values\<close>

datatype pyval =
    PNull
  | PBool bool
  | PInt int
  | PFloat rat
  | PStr string
  | PArr "pyval list"
  | PObj "(string \<times> pyval) list"
  | PSender chat_sender "(string \<times> pyval) list"

fun chat_type_value :: "chat_type \<Rightarrow> string" where
  "chat_type_value C2C = ''c2c''"
| "chat_type_value Group = ''group''"

definition chat_type_of :: "string \<Rightarrow> chat_type option" where
  "chat_type_of s = List.find (\<lambda>t. chat_type_value t = s) [C2C, Group]"

definition sender_fields :: "chat_sender \<Rightarrow> json \<Rightarrow> (string \<times> json) list" where
  "sender_fields s raw =
     [(''__type__'', JStr ''ChatSender''), (''user_id'', JStr (snd_user_id s)),
      (''chat_type'', JStr (chat_type_value (snd_chat_type s))),
      (''group_id'', (case snd_group_id s of None \<Rightarrow> JNull | Some g \<Rightarrow> JStr g)),
      (''display_name'', JStr (snd_display_name s)), (''raw_metadata'', raw)]"

fun encode :: "pyval \<Rightarrow> json" where
  "encode PNull = JNull"
| "encode (PBool b) = JBool b"
| "encode (PInt i) = JInt i"
| "encode (PFloat r) = JFloat r"
| "encode (PStr s) = JStr s"
| "encode (PArr vs) = JArr (map encode vs)"
| "encode (PObj kvs) = JObj (map (\<lambda>(k, v). (k, encode v)) kvs)"
| "encode (PSender s raw) = JObj (sender_fields s (JObj (map (\<lambda>(k, v). (k, encode v)) raw)))"

text \<open>The object hook sees an object whose values are decoded. \<open>None\<close> is an exception, or a sender with
  fields of other types.\<close>

definition as_text :: "pyval option \<Rightarrow> string option" where
  "as_text v = (case v of Some (PStr s) \<Rightarrow> Some s | _ \<Rightarrow> None)"

definition as_object :: "pyval option \<Rightarrow> (string \<times> pyval) list option" where
  "as_object v = (case v of Some (PObj d) \<Rightarrow> Some d | _ \<Rightarrow> None)"

definition as_optional_text :: "pyval option \<Rightarrow> string option option" where
  "as_optional_text v = (case v of Some PNull \<Rightarrow> Some None | _ \<Rightarrow> map_option Some (as_text v))"

definition decode_sender :: "(string \<times> pyval) list \<Rightarrow> pyval option" where
  "decode_sender d =
     Option.bind (as_text (map_of d ''user_id'')) (\<lambda>user.
     Option.bind (Option.bind (as_text (map_of d ''chat_type'')) chat_type_of) (\<lambda>ty.
     Option.bind (as_optional_text (map_of d ''group_id'')) (\<lambda>grp.
     Option.bind (as_text (map_of d ''display_name'')) (\<lambda>name.
     Option.bind (as_object (map_of d ''raw_metadata'')) (\<lambda>raw.
       Some (PSender \<lparr>snd_display_name = name, snd_user_id = user, snd_chat_type = ty, snd_group_id = grp\<rparr> raw))))))"

definition memory_json_decoder :: "(string \<times> pyval) list \<Rightarrow> pyval option" where
  "memory_json_decoder d =
     (if map_of d ''__type__'' = Some (PStr ''ChatSender'') then decode_sender d else Some (PObj d))"

fun decode :: "json \<Rightarrow> pyval option" where
  "decode JNull = Some PNull"
| "decode (JBool b) = Some (PBool b)"
| "decode (JInt i) = Some (PInt i)"
| "decode (JFloat r) = Some (PFloat r)"
| "decode (JStr s) = Some (PStr s)"
| "decode (JArr vs) = map_option PArr (those (map decode vs))"
| "decode (JObj kvs) =
     Option.bind (those (map (\<lambda>(k, v). map_option (Pair k) (decode v)) kvs)) memory_json_decoder"

text \<open>A value that is not mistaken for a sender.\<close>

fun plain :: "pyval \<Rightarrow> bool" where
  "plain (PArr vs) = list_all plain vs"
| "plain (PObj kvs) =
     (map_of kvs ''__type__'' \<noteq> Some (PStr ''ChatSender'') \<and> list_all (\<lambda>(k, v). plain v) kvs)"
| "plain (PSender s raw) =
     (map_of raw ''__type__'' \<noteq> Some (PStr ''ChatSender'') \<and> list_all (\<lambda>(k, v). plain v) raw)"
| "plain _ = True"

section \<open>Entries\<close>

record memory_entry =
  me_sender :: chat_sender
  me_raw :: "(string \<times> pyval) list"
  me_content :: string
  me_time :: string
  me_metadata :: "(string \<times> pyval) list"

definition media_ids :: "memory_entry \<Rightarrow> string list" where
  "media_ids e =
     (case map_of (me_metadata e) ''_media_ids'' of
        Some (PArr vs) \<Rightarrow> List.map_filter (\<lambda>v. as_text (Some v)) vs | _ \<Rightarrow> [])"

definition serialize_entry :: "memory_entry \<Rightarrow> json" where
  "serialize_entry e =
     encode (PObj [(''sender'', PSender (me_sender e) (me_raw e)), (''content'', PStr (me_content e)),
                   (''timestamp'', PStr (me_time e)), (''metadata'', PObj (me_metadata e))])"

definition serialize_entries :: "memory_entry list \<Rightarrow> json" where
  "serialize_entries es = JArr (map serialize_entry es)"

definition as_sender :: "pyval option \<Rightarrow> (chat_sender \<times> (string \<times> pyval) list) option" where
  "as_sender v = (case v of Some (PSender s raw) \<Rightarrow> Some (s, raw) | _ \<Rightarrow> None)"

definition deserialize_entry :: "pyval \<Rightarrow> memory_entry option" where
  "deserialize_entry v =
     Option.bind (as_object (Some v)) (\<lambda>d.
     Option.bind (as_sender (map_of d ''sender'')) (\<lambda>(s, raw).
     Option.bind (as_object (map_of d ''metadata'')) (\<lambda>meta.
     Option.bind (as_text (map_of d ''content'')) (\<lambda>content.
     Option.bind (as_text (map_of d ''timestamp'')) (\<lambda>time.
     Some \<lparr>me_sender = s, me_raw = raw, me_content = content, me_time = time, me_metadata = meta\<rparr>)))))"

definition deserialize_entries :: "json \<Rightarrow> memory_entry list option" where
  "deserialize_entries j =
     (case decode j of Some (PArr vs) \<Rightarrow> those (map deserialize_entry vs) | _ \<Rightarrow> None)"

definition plain_entry :: "memory_entry \<Rightarrow> bool" where
  "plain_entry e = (plain (PObj (me_metadata e)) \<and> plain (PSender (me_sender e) (me_raw e)))"

section \<open>Round trip\<close>

lemma as_object_Some: "as_object v = Some d \<longleftrightarrow> v = Some (PObj d)"
  by (auto simp: as_object_def split: option.splits pyval.splits)

lemma as_sender_Some: "as_sender v = Some (s, raw) \<longleftrightarrow> v = Some (PSender s raw)"
  by (auto simp: as_sender_def split: option.splits pyval.splits)

lemma plain_value: "list_all (\<lambda>(k, v). plain v) d \<Longrightarrow> map_of d k = Some v \<Longrightarrow> plain v"
  by (auto simp: list_all_iff dest: map_of_SomeD)

lemma chat_type_of_value [simp]: "chat_type_of (chat_type_value t) = Some t"
  by (cases t) (simp_all add: chat_type_of_def)

lemma decode_pairs:
  assumes "\<And>k v. (k, v) \<in> set kvs \<Longrightarrow> decode (encode v) = Some v"
  shows "those (map ((\<lambda>(k, v). map_option (Pair k) (decode v)) \<circ> (\<lambda>(k, v). (k, encode v))) kvs) = Some kvs"
proof -
  have "\<forall>kv\<in>set kvs. ((\<lambda>(k, v). map_option (Pair k) (decode v)) \<circ> (\<lambda>(k, v). (k, encode v))) kv = Some (id kv)"
    using assms by auto
  from those_total [OF this] show ?thesis by (simp only: list.map_id)
qed

lemma decode_encode: "plain v \<Longrightarrow> decode (encode v) = Some v"
proof (induction v rule: plain.induct)
  case (1 vs)
  then show ?case using those_total [of vs "decode \<circ> encode" id] by (auto simp: list_all_iff)
next
  case (2 kvs)
  then have "those (map ((\<lambda>(k, v). map_option (Pair k) (decode v)) \<circ> (\<lambda>(k, v). (k, encode v))) kvs) = Some kvs"
    by (intro decode_pairs) (fastforce simp: list_all_iff)
  with 2 show ?case by (simp add: memory_json_decoder_def)
next
  case (3 s raw)
  then have "those (map ((\<lambda>(k, v). map_option (Pair k) (decode v)) \<circ> (\<lambda>(k, v). (k, encode v))) raw) = Some raw"
    by (intro decode_pairs) (fastforce simp: list_all_iff)
  with 3 show ?case
    by (cases s; cases "snd_group_id s")
      (auto simp: sender_fields_def memory_json_decoder_def decode_sender_def as_text_def
        as_object_def as_optional_text_def)
qed auto

lemma deserialize_serialize:
  assumes "list_all plain_entry es"
  shows "deserialize_entries (serialize_entries es) = Some es"
proof -
  define obj where "obj = (\<lambda>e :: memory_entry. PObj [(''sender'', PSender (me_sender e) (me_raw e)), (''content'', PStr (me_content e)),
    (''timestamp'', PStr (me_time e)), (''metadata'', PObj (me_metadata e))])"
  have "plain (obj e)" if "e \<in> set es" for e
    using that assms by (simp add: list_all_iff plain_entry_def obj_def)
  then have "decode (serialize_entry e) = Some (obj e)" if "e \<in> set es" for e
    using decode_encode [of "obj e"] that unfolding serialize_entry_def obj_def by blast
  then have "those (map decode (map serialize_entry es)) = Some (map obj es)"
    using those_total [of es "decode \<circ> serialize_entry" obj] by simp
  moreover have "deserialize_entry (obj e) = Some e" for e
    by (simp add: deserialize_entry_def obj_def as_text_def as_object_def as_sender_def)
  ultimately show ?thesis
    using those_total [of es "deserialize_entry \<circ> obj" id]
    by (simp add: deserialize_entries_def serialize_entries_def)
qed

lemma decoded_plain: "decode j = Some v \<Longrightarrow> plain v"
proof (induction j arbitrary: v rule: decode.induct)
  case (6 vs)
  then obtain us where us: "those (map decode vs) = Some us" "v = PArr us" by auto
  with 6 those_list_all [OF us(1), of plain] show ?case by auto
next
  case (7 kvs)
  then obtain d where d: "those (map (\<lambda>(k, v). map_option (Pair k) (decode v)) kvs) = Some d"
    "memory_json_decoder d = Some v" by (auto simp: bind_eq_Some_conv)
  have "(case y of (k, v) \<Rightarrow> plain v)" if kv: "kv \<in> set kvs" "(case kv of (k, v) \<Rightarrow> map_option (Pair k) (decode v)) = Some y" for kv y
  proof -
    obtain k j where "kv = (k, j)" by (cases kv)
    with kv obtain u where "(k, j) \<in> set kvs" "decode j = Some u" "y = (k, u)" by auto
    with 7(1) [OF \<open>(k, j) \<in> set kvs\<close> refl] show ?thesis by simp
  qed
  then have pd: "list_all (\<lambda>(k, v). plain v) d" by (intro those_list_all [OF d(1)] ballI allI impI)
  show ?case
  proof (cases "map_of d ''__type__'' = Some (PStr ''ChatSender'')")
    case True
    with d(2) obtain s raw where v: "v = PSender s raw" "map_of d ''raw_metadata'' = Some (PObj raw)"
      by (auto simp: memory_json_decoder_def decode_sender_def bind_eq_Some_conv as_object_Some)
    from plain_value [OF pd v(2)] have "plain (PObj raw)" .
    with v show ?thesis by simp
  next
    case False
    with d(2) pd show ?thesis by (auto simp: memory_json_decoder_def)
  qed
qed auto

lemma deserialized_plain: "deserialize_entries j = Some es \<Longrightarrow> list_all plain_entry es"
proof -
  assume "deserialize_entries j = Some es"
  then obtain vs where vs: "decode j = Some (PArr vs)" "those (map deserialize_entry vs) = Some es"
    by (auto simp: deserialize_entries_def split: option.splits pyval.splits)
  have entry: "plain_entry e" if "deserialize_entry v = Some e" "plain v" for v e
  proof -
    from that(1) obtain d s raw meta where d: "v = PObj d" "map_of d ''sender'' = Some (PSender s raw)"
      "map_of d ''metadata'' = Some (PObj meta)" "me_sender e = s" "me_raw e = raw" "me_metadata e = meta"
      by (auto simp: deserialize_entry_def bind_eq_Some_conv as_object_Some as_sender_Some)
    from that(2) d(1) have "list_all (\<lambda>(k, v). plain v) d" by simp
    from plain_value [OF this d(2)] plain_value [OF this d(3)] have "plain (PSender s raw)" "plain (PObj meta)" .
    with d show ?thesis by (simp add: plain_entry_def)
  qed
  from decoded_plain [OF vs(1)] entry have "\<forall>v\<in>set vs. \<forall>e. deserialize_entry v = Some e \<longrightarrow> plain_entry e"
    by (auto simp: list_all_iff)
  with those_list_all [OF vs(2)] show ?thesis by blast
qed

end
