(* ===== verification/Media_Store.thy ===== *)
theory Media_Store
  imports Kirara_Prelude
begin

text \<open>
  Media files: \<open>MediaMetadata\<close> (\<open>media/metadata.py\<close>) and \<open>MediaManager\<close> (\<open>media/manager.py\<close>) - the
  metadata of each file, its references, and the two directories they are kept in.

  A set of references is a list without duplicates. An instant is its ISO text. What is outside the
  media directory (files, downloads, the detection of formats, the SHA-1 number, base64) is a \<open>media_world\<close>. The
  operations on the media directory succeed.
\<close>

section \<open>Metadata\<close>

datatype media_type = Image | Audio | Video | FileType

fun media_type_value :: "media_type \<Rightarrow> string" where
  "media_type_value Image = ''image''"
| "media_type_value Audio = ''audio''"
| "media_type_value Video = ''video''"
| "media_type_value FileType = ''file''"

definition media_type_of :: "string \<Rightarrow> media_type option" where
  "media_type_of s = List.find (\<lambda>t. media_type_value t = s) [Image, Audio, Video, FileType]"

definition from_mime :: "string \<Rightarrow> media_type" where
  "from_mime mime =
     (let main_type = takeWhile (\<lambda>c. c \<noteq> CHR ''/'') mime in
      if main_type = ''image'' then Image else if main_type = ''audio'' then Audio
      else if main_type = ''video'' then Video else FileType)"

record metadata =
  md_id :: string
  md_type :: media_type
  md_format :: string
  md_size :: "int option"
  md_created :: string
  md_source :: "string option"
  md_description :: "string option"
  md_tags :: "string list"
  md_references :: "string list"
  md_url :: "string option"
  md_path :: "string option"

definition truthy :: "string option \<Rightarrow> bool" where
  "truthy v = (v \<noteq> None \<and> v \<noteq> Some [])"

definition json_or_null :: "string option \<Rightarrow> json" where
  "json_or_null v = (case v of None \<Rightarrow> JNull | Some s \<Rightarrow> JStr s)"

definition to_dict :: "metadata \<Rightarrow> (string \<times> json) list" where
  "to_dict m =
     [(''media_id'', JStr (md_id m)), (''created_at'', JStr (md_created m)),
      (''source'', json_or_null (md_source m)), (''description'', json_or_null (md_description m)),
      (''tags'', JArr (map JStr (md_tags m))), (''references'', JArr (map JStr (md_references m))),
      (''media_type'', JStr (media_type_value (md_type m)))] @
     (if md_format m = [] then [] else [(''format'', JStr (md_format m))]) @
     (case md_size m of None \<Rightarrow> [] | Some n \<Rightarrow> [(''size'', JInt n)]) @
     (if truthy (md_url m) then [(''url'', json_or_null (md_url m))] else []) @
     (if truthy (md_path m) then [(''path'', json_or_null (md_path m))] else [])"

text \<open>Reading a document. A value of a type that the manager never writes is \<open>None\<close>. \<open>guess\<close> is the MIME
  type of an extension.\<close>

definition text_field :: "(string \<times> json) list \<Rightarrow> string \<Rightarrow> string option option" where
  "text_field d k =
     (case map_of d k of None \<Rightarrow> Some None | Some JNull \<Rightarrow> Some None | Some (JStr s) \<Rightarrow> Some (Some s) | _ \<Rightarrow> None)"

definition texts_field :: "(string \<times> json) list \<Rightarrow> string \<Rightarrow> string list option" where
  "texts_field d k =
     (case map_of d k of None \<Rightarrow> Some [] | Some (JArr vs) \<Rightarrow> those (map json_string vs) | _ \<Rightarrow> None)"

definition extension_of :: "string \<Rightarrow> string" where
  "extension_of p =
     (if CHR ''.'' \<in> set p
      then takeWhile (\<lambda>c. c \<noteq> CHR ''?'') (rev (takeWhile (\<lambda>c. c \<noteq> CHR ''.'') (rev p))) else ''bin'')"

definition first_text :: "string option list \<Rightarrow> string" where
  "first_text vs = (case List.find truthy vs of Some (Some s) \<Rightarrow> s | _ \<Rightarrow> [])"

definition read_format :: "string option \<Rightarrow> string option \<Rightarrow> string option \<Rightarrow> string" where
  "read_format fmt path url = (if truthy fmt then the fmt else extension_of (first_text [path, url]))"

definition read_type :: "(string \<Rightarrow> string option) \<Rightarrow> string option \<Rightarrow> string \<Rightarrow> media_type option" where
  "read_type guess v fmt =
     (if truthy v then media_type_of (the v)
      else Some (case guess fmt of None \<Rightarrow> FileType | Some mime \<Rightarrow> from_mime mime))"

definition from_dict :: "(string \<Rightarrow> string option) \<Rightarrow> (string \<times> json) list \<Rightarrow> metadata option" where
  "from_dict guess d =
     Option.bind (text_field d ''format'') (\<lambda>fmt.
     Option.bind (text_field d ''path'') (\<lambda>path.
     Option.bind (text_field d ''url'') (\<lambda>url.
     Option.bind (text_field d ''media_type'') (\<lambda>ty.
     Option.bind (read_type guess ty (read_format fmt path url)) (\<lambda>mtype.
     Option.bind (Option.bind (map_of d ''media_id'') json_string) (\<lambda>mid.
     Option.bind (Option.bind (map_of d ''created_at'') json_string) (\<lambda>created.
     Option.bind (text_field d ''source'') (\<lambda>source.
     Option.bind (text_field d ''description'') (\<lambda>description.
     Option.bind (texts_field d ''tags'') (\<lambda>tags.
     Option.bind (texts_field d ''references'') (\<lambda>refs.
     Some \<lparr>md_id = mid, md_type = mtype, md_format = read_format fmt path url,
           md_size = Option.bind (map_of d ''size'') json_int, md_created = created, md_source = source,
           md_description = description, md_tags = tags, md_references = remdups refs, md_url = url,
           md_path = path\<rparr>)))))))))))"

text \<open>An empty URL or path is not written.\<close>

definition as_read :: "metadata \<Rightarrow> metadata" where
  "as_read m = m\<lparr>md_url := (if truthy (md_url m) then md_url m else None),
                 md_path := (if truthy (md_path m) then md_path m else None)\<rparr>"

lemma media_type_of_value [simp]: "media_type_of (media_type_value t) = Some t"
  by (cases t) (simp_all add: media_type_of_def)

lemma media_type_value_nonempty [simp]: "media_type_value t \<noteq> []"
  by (cases t) simp_all

lemma those_texts [simp]: "those (map (json_string \<circ> JStr) xs) = Some xs"
  by (induction xs) auto

lemma from_dict_to_dict:
  assumes "md_format m \<noteq> []" "distinct (md_references m)"
  shows "from_dict guess (to_dict m) = Some (as_read m)"
proof -
  have "text_field (to_dict m) ''format'' = Some (Some (md_format m))"
    "text_field (to_dict m) ''path'' = Some (if truthy (md_path m) then md_path m else None)"
    "text_field (to_dict m) ''url'' = Some (if truthy (md_url m) then md_url m else None)"
    "text_field (to_dict m) ''media_type'' = Some (Some (media_type_value (md_type m)))"
    "map_of (to_dict m) ''media_id'' = Some (JStr (md_id m))"
    "map_of (to_dict m) ''created_at'' = Some (JStr (md_created m))"
    "text_field (to_dict m) ''source'' = Some (md_source m)"
    "text_field (to_dict m) ''description'' = Some (md_description m)"
    "texts_field (to_dict m) ''tags'' = Some (md_tags m)"
    "texts_field (to_dict m) ''references'' = Some (md_references m)"
    "Option.bind (map_of (to_dict m) ''size'') json_int = md_size m"
    using assms by (auto simp: to_dict_def text_field_def texts_field_def json_or_null_def truthy_def
        split: option.splits)
  with assms show ?thesis
    by (simp add: from_dict_def read_type_def read_format_def truthy_def as_read_def)
qed

section \<open>The manager\<close>

record media_world =
  mw_dir :: string
  mw_sha1 :: "string \<Rightarrow> nat"
  mw_detect :: "string \<Rightarrow> media_type \<times> string"
  mw_download :: "string \<Rightarrow> string option"
  mw_outside :: "string \<Rightarrow> string option"
  mw_base64 :: "string \<Rightarrow> string"

record media_request =
  rq_url :: "string option"
  rq_path :: "string option"
  rq_data :: "string option"
  rq_format :: "string option"
  rq_type :: "media_type option"
  rq_size :: "int option"
  rq_source :: "string option"
  rq_description :: "string option"
  rq_tags :: "string list"
  rq_reference :: "string option"

text \<open>A registration that waits: for the digest of its data, for its file to be written, or for its turn to
  record the metadata. Other calls run meanwhile.\<close>

datatype registration_stage = Fetched | Checked media_type string | Saved media_type string | Ended

record registration =
  rg_request :: media_request
  rg_data :: string
  rg_stage :: registration_stage

text \<open>The index in memory, the metadata directory, the file directory, and the registrations under way.\<close>

record media_store =
  ms_cache :: "metadata list"
  ms_docs :: "(string \<times> (string \<times> json) list) list"
  ms_files :: "(string \<times> string) list"
  ms_open :: "registration list"

definition put_entry :: "('r \<Rightarrow> 'k) \<Rightarrow> 'r \<Rightarrow> 'r list \<Rightarrow> 'r list" where
  "put_entry key r rows =
     (if find_row key (key r) rows = None then rows @ [r] else update_row key (key r) (\<lambda>_. r) rows)"

text \<open>\<open>hexdigest()\<close> of SHA-1: forty digits.\<close>

fun hex_digits :: "nat \<Rightarrow> nat \<Rightarrow> string" where
  "hex_digits 0 n = []"
| "hex_digits (Suc k) n = hex_digits k (n div 16) @ [''0123456789abcdef'' ! (n mod 16)]"

definition hexdigest :: "nat \<Rightarrow> string" where
  "hexdigest n = hex_digits 40 n"

definition media_id :: "media_world \<Rightarrow> string \<Rightarrow> string" where
  "media_id w data = hexdigest (mw_sha1 w data)"

definition file_name :: "string \<Rightarrow> string \<Rightarrow> string" where
  "file_name mid fmt = mid @ CHR ''.'' # fmt"

definition get_metadata :: "string \<Rightarrow> media_store \<Rightarrow> metadata option" where
  "get_metadata mid s = find_row md_id mid (ms_cache s)"

definition save_metadata :: "metadata \<Rightarrow> media_store \<Rightarrow> media_store" where
  "save_metadata m s =
     s\<lparr>ms_docs := put_entry fst (md_id m, to_dict m) (ms_docs s), ms_cache := put_entry md_id m (ms_cache s)\<rparr>"

text \<open>\<open>listing\<close> is the order in which the directory is read.\<close>

definition load_all_metadata ::
    "(string \<Rightarrow> string option) \<Rightarrow> (string \<times> (string \<times> json) list) list \<Rightarrow> media_store \<Rightarrow> media_store" where
  "load_all_metadata guess listing s =
     s\<lparr>ms_cache := fold (put_entry md_id) (List.map_filter (\<lambda>d. from_dict guess (snd d)) listing) []\<rparr>"

definition save_file :: "string \<Rightarrow> string \<Rightarrow> media_store \<Rightarrow> media_store" where
  "save_file name data s = s\<lparr>ms_files := put_entry fst (name, data) (ms_files s)\<rparr>"

definition managed_path :: "media_world \<Rightarrow> string \<Rightarrow> string" where
  "managed_path w name = mw_dir w @ CHR ''/'' # name"

definition file_at :: "media_world \<Rightarrow> media_store \<Rightarrow> string \<Rightarrow> string option" where
  "file_at w s p =
     (case List.find (\<lambda>f. managed_path w (fst f) = p) (ms_files s) of
        Some f \<Rightarrow> Some (snd f) | None \<Rightarrow> mw_outside w p)"

datatype media_error =
    NoInput | MediaFileNotFound | DownloadFailed | NoFormatDetected | MediaNotFound string

definition fetch_data :: "media_world \<Rightarrow> media_request \<Rightarrow> media_store \<Rightarrow> media_error + string" where
  "fetch_data w q s =
     (if \<not> truthy (rq_url q) \<and> \<not> truthy (rq_path q) \<and> \<not> truthy (rq_data q) then Inl NoInput
      else if truthy (rq_path q) then
        (case file_at w s (the (rq_path q)) of None \<Rightarrow> Inl MediaFileNotFound | Some b \<Rightarrow> Inr b)
      else if truthy (rq_url q) then
        (case mw_download w (the (rq_url q)) of None \<Rightarrow> Inl DownloadFailed | Some b \<Rightarrow> Inr b)
      else Inr (the (rq_data q)))"

definition media_details :: "media_world \<Rightarrow> media_request \<Rightarrow> string \<Rightarrow> media_type \<times> string" where
  "media_details w q data =
     (if rq_type q = None \<or> \<not> truthy (rq_format q)
      then (case mw_detect w data of (t, f) \<Rightarrow>
              (case rq_type q of None \<Rightarrow> t | Some t' \<Rightarrow> t', if truthy (rq_format q) then the (rq_format q) else f))
      else (the (rq_type q), the (rq_format q)))"

definition make_metadata ::
    "media_world \<Rightarrow> media_request \<Rightarrow> string \<Rightarrow> string \<Rightarrow> string \<Rightarrow> media_type \<Rightarrow> string \<Rightarrow> metadata" where
  "make_metadata w q now mid data t f =
     \<lparr>md_id = mid, md_type = t, md_format = f,
      md_size = (case rq_size q of None \<Rightarrow> Some (int (length data))
                 | Some n \<Rightarrow> Some (if n = 0 then int (length data) else n)),
      md_created = now, md_source = rq_source q, md_description = rq_description q, md_tags = rq_tags q,
      md_references = (if truthy (rq_reference q) then [the (rq_reference q)] else []),
      md_url = rq_url q, md_path = Some (managed_path w (file_name mid f))\<rparr>"

text \<open>\<open>register_media\<close> from one \<open>await\<close> to the next: the data are fetched; the index is asked and the details
  are settled; the file is written; the metadata are recorded, whatever the index holds by then.\<close>

definition check_registration ::
    "media_world \<Rightarrow> registration \<Rightarrow> media_store \<Rightarrow> media_error + registration" where
  "check_registration w g s =
     (if get_metadata (media_id w (rg_data g)) s \<noteq> None then Inr (g\<lparr>rg_stage := Ended\<rparr>)
      else case media_details w (rg_request g) (rg_data g) of (t, f) \<Rightarrow>
        if f = [] then Inl NoFormatDetected else Inr (g\<lparr>rg_stage := Checked t f\<rparr>))"

definition save_registration :: "media_world \<Rightarrow> registration \<Rightarrow> media_store \<Rightarrow> registration \<times> media_store" where
  "save_registration w g s =
     (case rg_stage g of
        Checked t f \<Rightarrow>
          (g\<lparr>rg_stage := Saved t f\<rparr>, save_file (file_name (media_id w (rg_data g)) f) (rg_data g) s)
      | _ \<Rightarrow> (g, s))"

definition finish_registration ::
    "media_world \<Rightarrow> registration \<Rightarrow> string \<Rightarrow> media_store \<Rightarrow> registration \<times> media_store" where
  "finish_registration w g now s =
     (case rg_stage g of
        Saved t f \<Rightarrow>
          (g\<lparr>rg_stage := Ended\<rparr>,
           save_metadata (make_metadata w (rg_request g) now (media_id w (rg_data g)) (rg_data g) t f) s)
      | _ \<Rightarrow> (g, s))"

text \<open>A call during whose waits nothing else runs.\<close>

definition register_media ::
    "media_world \<Rightarrow> media_request \<Rightarrow> string \<Rightarrow> media_store \<Rightarrow> media_error + (string \<times> media_store)" where
  "register_media w q now s =
     (case fetch_data w q s of
        Inl e \<Rightarrow> Inl e
      | Inr data \<Rightarrow>
          (case check_registration w \<lparr>rg_request = q, rg_data = data, rg_stage = Fetched\<rparr> s of
             Inl e \<Rightarrow> Inl e
           | Inr g \<Rightarrow>
               (case save_registration w g s of (g', s') \<Rightarrow>
                  Inr (media_id w data, snd (finish_registration w g' now s')))))"

lemma register_media_steps:
  "register_media w q now s =
     (case fetch_data w q s of
        Inl e \<Rightarrow> Inl e
      | Inr data \<Rightarrow>
          (let mid = media_id w data in
           if get_metadata mid s \<noteq> None then Inr (mid, s)
           else case media_details w q data of (t, f) \<Rightarrow>
             if f = [] then Inl NoFormatDetected
             else Inr (mid, save_metadata (make_metadata w q now mid data t f) (save_file (file_name mid f) data s))))"
  by (simp add: register_media_def check_registration_def save_registration_def finish_registration_def Let_def
      split: sum.split prod.split)

definition delete_media :: "string \<Rightarrow> media_store \<Rightarrow> media_store" where
  "delete_media mid s =
     (case get_metadata mid s of
        None \<Rightarrow> s
      | Some m \<Rightarrow>
          s\<lparr>ms_files := (if md_format m = [] then ms_files s
                         else filter (\<lambda>f. fst f \<noteq> file_name mid (md_format m)) (ms_files s)),
            ms_docs := filter (\<lambda>d. fst d \<noteq> mid) (ms_docs s),
            ms_cache := filter (\<lambda>m. md_id m \<noteq> mid) (ms_cache s)\<rparr>)"

definition change_metadata :: "string \<Rightarrow> (metadata \<Rightarrow> metadata) \<Rightarrow> media_store \<Rightarrow> media_error + media_store" where
  "change_metadata mid f s =
     (case get_metadata mid s of None \<Rightarrow> Inl (MediaNotFound mid) | Some m \<Rightarrow> Inr (save_metadata (f m) s))"

definition add_reference :: "string \<Rightarrow> string \<Rightarrow> media_store \<Rightarrow> media_error + media_store" where
  "add_reference mid r = change_metadata mid (\<lambda>m. m\<lparr>md_references :=
     (if r \<in> set (md_references m) then md_references m else md_references m @ [r])\<rparr>)"

definition remove_reference :: "string \<Rightarrow> string \<Rightarrow> media_store \<Rightarrow> media_error + media_store" where
  "remove_reference mid r s =
     (case get_metadata mid s of
        None \<Rightarrow> Inl (MediaNotFound mid)
      | Some m \<Rightarrow>
          if r \<notin> set (md_references m) then Inr s
          else (let m' = m\<lparr>md_references := removeAll r (md_references m)\<rparr>;
                    s' = save_metadata m' s
                in Inr (if md_references m' = [] then delete_media mid s' else s')))"

definition update_metadata ::
    "string \<Rightarrow> string option \<Rightarrow> string option \<Rightarrow> string list option \<Rightarrow> string option \<Rightarrow> string option \<Rightarrow>
     media_store \<Rightarrow> media_error + media_store" where
  "update_metadata mid source description tags url path = change_metadata mid (\<lambda>m.
     m\<lparr>md_source := (if source = None then md_source m else source),
       md_description := (if description = None then md_description m else description),
       md_tags := (case tags of None \<Rightarrow> md_tags m | Some ts \<Rightarrow> ts),
       md_url := (if url = None then md_url m else url),
       md_path := (if path = None then md_path m else path)\<rparr>)"

definition add_tags :: "string \<Rightarrow> string list \<Rightarrow> media_store \<Rightarrow> media_error + media_store" where
  "add_tags mid tags = change_metadata mid (\<lambda>m. m\<lparr>md_tags :=
     fold (\<lambda>t ts. if t \<in> set ts then ts else ts @ [t]) tags (md_tags m)\<rparr>)"

definition remove_tags :: "string \<Rightarrow> string list \<Rightarrow> media_store \<Rightarrow> media_error + media_store" where
  "remove_tags mid tags = change_metadata mid (\<lambda>m. m\<lparr>md_tags := fold remove1 tags (md_tags m)\<rparr>)"

definition cleanup_unreferenced :: "media_store \<Rightarrow> nat \<times> media_store" where
  "cleanup_unreferenced s =
     (let idle = map md_id (filter (\<lambda>m. md_references m = []) (ms_cache s))
      in (length idle, fold delete_media idle s))"

section \<open>Reading files\<close>

definition copy_detected ::
    "media_world \<Rightarrow> metadata \<Rightarrow> string option \<Rightarrow> media_store \<Rightarrow> string option \<times> media_store" where
  "copy_detected w m data s =
     (case data of
        None \<Rightarrow> (None, s)
      | Some b \<Rightarrow>
          (case mw_detect w b of (t, f) \<Rightarrow>
             (Some (managed_path w (file_name (md_id m) f)),
              save_file (file_name (md_id m) f) b
                (save_metadata (m\<lparr>md_type := t, md_format := f, md_size := Some (int (length b))\<rparr>) s))))"

definition ensure_file_exists :: "media_world \<Rightarrow> string \<Rightarrow> media_store \<Rightarrow> string option \<times> media_store" where
  "ensure_file_exists w mid s =
     (case get_metadata mid s of
        None \<Rightarrow> (None, s)
      | Some m \<Rightarrow>
          if md_format m = [] then
            (if truthy (md_path m) then copy_detected w m (file_at w s (the (md_path m))) s
             else if truthy (md_url m) then copy_detected w m (mw_download w (the (md_url m))) s
             else (None, s))
          else
            (let name = file_name mid (md_format m) in
             if find_row fst name (ms_files s) \<noteq> None then (Some (managed_path w name), s)
             else case (if truthy (md_url m) then mw_download w (the (md_url m)) else None) of
                    Some b \<Rightarrow> (Some (managed_path w name), save_file name b s)
                  | None \<Rightarrow>
                      (case (if truthy (md_path m) then file_at w s (the (md_path m)) else None) of
                         Some b \<Rightarrow> (Some (managed_path w name), save_file name b s)
                       | None \<Rightarrow> (None, s))))"

definition media_file_path :: "media_world \<Rightarrow> string \<Rightarrow> media_store \<Rightarrow> string option \<times> media_store" where
  "media_file_path w mid s =
     (case get_metadata mid s of
        None \<Rightarrow> (None, s)
      | Some m \<Rightarrow>
          if truthy (md_path m) \<and> file_at w s (the (md_path m)) \<noteq> None then (md_path m, s)
          else ensure_file_exists w mid s)"

definition get_data :: "media_world \<Rightarrow> string \<Rightarrow> media_store \<Rightarrow> string option \<times> media_store" where
  "get_data w mid s =
     (case get_metadata mid s of
        None \<Rightarrow> (None, s)
      | Some m \<Rightarrow>
          (case media_file_path w mid s of
             (p, s') \<Rightarrow>
               (case Option.bind p (file_at w s') of
                  Some b \<Rightarrow> (Some b, s')
                | None \<Rightarrow> (if truthy (md_url m) then mw_download w (the (md_url m)) else None, s'))))"

definition data_url :: "media_world \<Rightarrow> metadata \<Rightarrow> string option \<Rightarrow> string option" where
  "data_url w m data =
     (if truthy data \<and> md_format m \<noteq> []
      then Some (''data:'' @ media_type_value (md_type m) @ CHR ''/'' # md_format m @ '';base64,'' @
                 mw_base64 w (the data))
      else None)"

definition get_base64_url :: "media_world \<Rightarrow> string \<Rightarrow> media_store \<Rightarrow> string option \<times> media_store" where
  "get_base64_url w mid s =
     (case get_metadata mid s of
        None \<Rightarrow> (None, s)
      | Some m \<Rightarrow> (case get_data w mid s of (data, s') \<Rightarrow> (data_url w m data, s')))"

definition get_url :: "media_world \<Rightarrow> string \<Rightarrow> media_store \<Rightarrow> string option \<times> media_store" where
  "get_url w mid s =
     (case get_metadata mid s of
        None \<Rightarrow> (None, s)
      | Some m \<Rightarrow> if truthy (md_url m) then (md_url m, s) else get_base64_url w mid s)"

definition get_all_media_ids :: "media_store \<Rightarrow> string list" where
  "get_all_media_ids s = map md_id (ms_cache s)"

definition search_by_tags :: "string list \<Rightarrow> bool \<Rightarrow> media_store \<Rightarrow> string list" where
  "search_by_tags tags match_all s =
     map md_id (filter (\<lambda>m. if match_all then list_all (\<lambda>t. t \<in> set (md_tags m)) tags
                            else list_ex (\<lambda>t. t \<in> set (md_tags m)) tags) (ms_cache s))"

definition mentions :: "string \<Rightarrow> string option \<Rightarrow> bool" where
  "mentions query v = (truthy v \<and> contains (str_lower query) (str_lower (the v)))"

definition search_by_description :: "string \<Rightarrow> media_store \<Rightarrow> string list" where
  "search_by_description query s = map md_id (filter (\<lambda>m. mentions query (md_description m)) (ms_cache s))"

definition search_by_source :: "string \<Rightarrow> media_store \<Rightarrow> string list" where
  "search_by_source source s = map md_id (filter (\<lambda>m. mentions source (md_source m)) (ms_cache s))"

definition search_by_type :: "media_type \<Rightarrow> media_store \<Rightarrow> string list" where
  "search_by_type t s = map md_id (filter (\<lambda>m. md_type m = t) (ms_cache s))"

end
