(* ===== verification/Media_Life.thy ===== *)
theory Media_Life
  imports Media_Store
begin

text \<open>
  The life of media files (\<open>media/manager.py\<close>): sequences of the operations of \<open>Media_Store\<close> and of
  restarts, and what they keep - a file that is known is there with the content its name is the
  digest of, the metadata files hold what is in memory, and a referenced file stays.

  A registration waits three times. It runs whole (\<open>MeRegister\<close>) or in its parts (\<open>MeFetch\<close>, then
  \<open>MeCheck\<close>, \<open>MeSave\<close> and \<open>MeFinish\<close> of its number), with any other events between them.
\<close>

section \<open>Histories\<close>

text \<open>A call that raises changes nothing. A restart reads the directory in any order, and the registrations
  under way end.\<close>

datatype media_event =
    MeRegister media_request string
  | MeFetch media_request
  | MeCheck nat
  | MeSave nat
  | MeFinish nat string
  | MeAddReference string string
  | MeRemoveReference string string
  | MeDelete string
  | MeUpdate string "string option" "string option" "string list option" "string option" "string option"
  | MeAddTags string "string list"
  | MeRemoveTags string "string list"
  | MeCleanup
  | MeEnsure string
  | MeRestart "(string \<times> (string \<times> json) list) list"

definition or_unchanged :: "'s \<Rightarrow> 'e + 's \<Rightarrow> 's" where
  "or_unchanged s r = (case r of Inl _ \<Rightarrow> s | Inr s' \<Rightarrow> s')"

definition is_listing :: "('k \<times> 'v) list \<Rightarrow> ('k \<times> 'v) list \<Rightarrow> bool" where
  "is_listing listing docs = (distinct (map fst listing) \<and> set listing = set docs)"

definition open_registration :: "nat \<Rightarrow> media_store \<Rightarrow> registration option" where
  "open_registration i s = (if i < length (ms_open s) then Some (ms_open s ! i) else None)"

definition put_registration :: "nat \<Rightarrow> registration \<Rightarrow> media_store \<Rightarrow> media_store" where
  "put_registration i g s = s\<lparr>ms_open := (ms_open s)[i := g]\<rparr>"

definition begin_registration :: "media_world \<Rightarrow> media_request \<Rightarrow> media_store \<Rightarrow> media_store" where
  "begin_registration w q s =
     (case fetch_data w q s of
        Inl _ \<Rightarrow> s
      | Inr data \<Rightarrow> s\<lparr>ms_open := ms_open s @ [\<lparr>rg_request = q, rg_data = data, rg_stage = Fetched\<rparr>]\<rparr>)"

definition resume_check :: "media_world \<Rightarrow> nat \<Rightarrow> media_store \<Rightarrow> media_store" where
  "resume_check w i s =
     (case open_registration i s of
        None \<Rightarrow> s
      | Some g \<Rightarrow>
          if rg_stage g = Fetched
          then put_registration i (case check_registration w g s of Inl _ \<Rightarrow> g\<lparr>rg_stage := Ended\<rparr> | Inr g' \<Rightarrow> g') s
          else s)"

definition resume_with :: "(registration \<Rightarrow> media_store \<Rightarrow> registration \<times> media_store) \<Rightarrow> nat \<Rightarrow> media_store \<Rightarrow> media_store" where
  "resume_with part i s =
     (case open_registration i s of
        None \<Rightarrow> s
      | Some g \<Rightarrow> (case part g s of (g', s') \<Rightarrow> put_registration i g' s'))"

definition restart_media ::
    "(string \<Rightarrow> string option) \<Rightarrow> (string \<times> (string \<times> json) list) list \<Rightarrow> media_store \<Rightarrow> media_store" where
  "restart_media guess listing s =
     (if is_listing listing (ms_docs s) then (load_all_metadata guess listing s)\<lparr>ms_open := []\<rparr> else s)"

fun media_step ::
    "media_world \<Rightarrow> (string \<Rightarrow> string option) \<Rightarrow> media_event \<Rightarrow> media_store \<Rightarrow> media_store" where
  "media_step w guess (MeRegister q now) s = (case register_media w q now s of Inl _ \<Rightarrow> s | Inr (_, s') \<Rightarrow> s')"
| "media_step w guess (MeFetch q) s = begin_registration w q s"
| "media_step w guess (MeCheck i) s = resume_check w i s"
| "media_step w guess (MeSave i) s = resume_with (save_registration w) i s"
| "media_step w guess (MeFinish i now) s = resume_with (\<lambda>g. finish_registration w g now) i s"
| "media_step w guess (MeAddReference mid r) s = or_unchanged s (add_reference mid r s)"
| "media_step w guess (MeRemoveReference mid r) s = or_unchanged s (remove_reference mid r s)"
| "media_step w guess (MeDelete mid) s = delete_media mid s"
| "media_step w guess (MeUpdate mid source description tags url path) s =
     or_unchanged s (update_metadata mid source description tags url path s)"
| "media_step w guess (MeAddTags mid tags) s = or_unchanged s (add_tags mid tags s)"
| "media_step w guess (MeRemoveTags mid tags) s = or_unchanged s (remove_tags mid tags s)"
| "media_step w guess MeCleanup s = snd (cleanup_unreferenced s)"
| "media_step w guess (MeEnsure mid) s = snd (ensure_file_exists w mid s)"
| "media_step w guess (MeRestart listing) s = restart_media guess listing s"

definition no_media :: media_store where
  "no_media = \<lparr>ms_cache = [], ms_docs = [], ms_files = [], ms_open = []\<rparr>"

text \<open>The parts in a row are the whole.\<close>

lemma registration_in_parts:
  assumes "ms_open s = []" "register_media w q now s = Inr (mid, s')"
  shows "(fold (media_step w guess) [MeFetch q, MeCheck 0, MeSave 0, MeFinish 0 now] s)\<lparr>ms_open := []\<rparr> = s'"
proof -
  obtain data where data: "fetch_data w q s = Inr data"
    using assms(2) by (auto simp: register_media_def split: sum.splits)
  define g where "g = \<lparr>rg_request = q, rg_data = data, rg_stage = Fetched\<rparr>"
  have first: "media_step w guess (MeFetch q) s = s\<lparr>ms_open := [g]\<rparr>"
    using assms(1) data by (simp add: begin_registration_def g_def)
  have same: "get_metadata k (s\<lparr>ms_open := gs\<rparr>) = get_metadata k s" for k gs by (simp add: get_metadata_def)
  have check: "check_registration w g (s\<lparr>ms_open := gs\<rparr>) = check_registration w g s" for gs
    by (simp add: check_registration_def same)
  from assms(2) data obtain h where h: "check_registration w g s = Inr h"
    by (auto simp: register_media_def g_def split: sum.splits)
  then have second: "media_step w guess (MeCheck 0) (s\<lparr>ms_open := [g]\<rparr>) = s\<lparr>ms_open := [h]\<rparr>"
    by (simp add: resume_check_def open_registration_def put_registration_def check) (simp add: g_def)
  have s': "s' = snd (finish_registration w (fst (save_registration w h s)) now (snd (save_registration w h s)))"
    using assms(2) data h by (simp add: register_media_def g_def split: prod.splits)
  have "(media_step w guess (MeFinish 0 now) (media_step w guess (MeSave 0) (s\<lparr>ms_open := [h]\<rparr>)))\<lparr>ms_open := []\<rparr> = s'"
    using assms(1) unfolding s'
    by (cases "rg_stage h")
      (simp_all add: resume_with_def open_registration_def put_registration_def save_registration_def
        finish_registration_def save_file_def save_metadata_def)
  with first second show ?thesis by simp
qed

section \<open>Tables\<close>

lemma find_put_entry [table_simps]:
  "find_row key k (put_entry key r rows) = (if k = key r then Some r else find_row key k rows)"
proof (cases "find_row key (key r) rows")
  case None
  then show ?thesis by (auto simp: put_entry_def find_row_append table_simps split: option.split)
next
  case (Some q)
  have "find_row key k (update_row key (key r) (\<lambda>_. r) rows) = find_row key k rows" if "k \<noteq> key r"
    using that by (induction rows) (auto simp: table_simps)
  moreover have "find_row key (key r) (update_row key (key r) (\<lambda>_. r) rows) = Some r"
    using Some by (induction rows) (auto simp: table_simps split: if_splits)
  ultimately show ?thesis using Some by (auto simp: put_entry_def)
qed

lemma distinct_put_entry: "distinct (map key rows) \<Longrightarrow> distinct (map key (put_entry key r rows))"
proof -
  have "map key (update_row key (key r) (\<lambda>_. r) rows) = map key rows"
    by (induction rows) (auto simp: table_simps)
  then show "distinct (map key rows) \<Longrightarrow> distinct (map key (put_entry key r rows))"
    by (auto simp: put_entry_def find_row_None)
qed

lemma put_entry_twice: "key r = key r' \<Longrightarrow> put_entry key r (put_entry key r' rows) = put_entry key r rows"
proof (cases "find_row key (key r) rows")
  case None
  then have "update_row key (key r) (\<lambda>_. r) rows = rows"
    by (induction rows) (auto simp: table_simps split: if_splits)
  then show "key r = key r' \<Longrightarrow> put_entry key r (put_entry key r' rows) = put_entry key r rows"
    using None find_put_entry [of key "key r" r' rows]
    by (auto simp: put_entry_def update_row_def find_row_append table_simps)
next
  case (Some q)
  then show "key r = key r' \<Longrightarrow> put_entry key r (put_entry key r' rows) = put_entry key r rows"
    using find_put_entry [of key "key r" r' rows] by (auto simp: put_entry_def update_row_def)
qed

lemma keys_put_entry: "key ` set (put_entry key r rows) = insert (key r) (key ` set rows)"
proof (rule set_eqI)
  fix k
  show "k \<in> key ` set (put_entry key r rows) \<longleftrightarrow> k \<in> insert (key r) (key ` set rows)"
    using find_row_None [of key k "put_entry key r rows"] find_row_None [of key k rows] find_put_entry [of key k r rows]
    by (cases "k = key r") auto
qed

lemma find_filtered:
  "find_row key k (filter (\<lambda>r. key r \<noteq> k') rows) = (if k = k' then None else find_row key k rows)"
  by (induction rows) (auto simp: table_simps)

lemma distinct_filtered: "distinct (map key rows) \<Longrightarrow> distinct (map key (filter P rows))"
  by (induction rows) auto

lemma find_fold_put:
  "distinct (map key rs) \<Longrightarrow>
     find_row key k (fold (put_entry key) rs rows) =
       (case find_row key k rs of None \<Rightarrow> find_row key k rows | Some r \<Rightarrow> Some r)"
proof (induction rs arbitrary: rows)
  case (Cons r rs)
  then have "find_row key (key r) rs = None" by (simp add: find_row_None)
  with Cons show ?case by (auto simp: table_simps split: option.split)
qed (simp add: table_simps)

lemma distinct_fold_put: "distinct (map key rows) \<Longrightarrow> distinct (map key (fold (put_entry key) rs rows))"
  by (induction rs arbitrary: rows) (auto simp: distinct_put_entry)

lemma find_listing:
  assumes "is_listing listing docs" "distinct (map fst docs)"
  shows "find_row fst k listing = find_row fst k docs"
proof (cases "find_row fst k docs")
  case None
  with assms(1) have "find_row fst k listing = None" unfolding find_row_None by (simp add: is_listing_def)
  with None show ?thesis by simp
next
  case (Some d)
  with find_row_SomeD [OF Some] assms(1) have "d \<in> set listing" "fst d = k" by (auto simp: is_listing_def)
  with assms(1) Some show ?thesis using find_row_distinct [of fst listing d] by (simp add: is_listing_def)
qed

section \<open>Digests and file names\<close>

lemma hexdigest_dotless: "CHR ''.'' \<notin> set (hexdigest n)"
proof -
  have digit: "''0123456789abcdef'' ! i \<noteq> CHR ''.''" if "i < 16" for i
  proof -
    have "list_all (\<lambda>j. ''0123456789abcdef'' ! j \<noteq> CHR ''.'') [0..<16]" by code_simp
    with that show ?thesis by (simp add: list_all_iff)
  qed
  have "CHR ''.'' \<notin> set (hex_digits k m)" for k m
    by (induction k m rule: hex_digits.induct) (use digit in \<open>auto simp: eq_commute [of "CHR ''.''"]\<close>)
  then show ?thesis by (simp add: hexdigest_def)
qed

lemma file_name_inj:
  "CHR ''.'' \<notin> set a \<Longrightarrow> CHR ''.'' \<notin> set b \<Longrightarrow> file_name a f = file_name b g \<longleftrightarrow> a = b \<and> f = g"
proof -
  have "takeWhile (\<lambda>c. c \<noteq> CHR ''.'') (file_name x h) = x" if "CHR ''.'' \<notin> set x" for x h
    using that unfolding file_name_def by (subst takeWhile_append2) auto
  then show "CHR ''.'' \<notin> set a \<Longrightarrow> CHR ''.'' \<notin> set b \<Longrightarrow> file_name a f = file_name b g \<longleftrightarrow> a = b \<and> f = g"
    by (metis file_name_def list.inject same_append_eq)
qed

section \<open>What is kept\<close>

text \<open>The content of a file is the one that its media identifier is the digest of.\<close>

fun content_is :: "media_world \<Rightarrow> string \<Rightarrow> (string \<times> string) option \<Rightarrow> bool" where
  "content_is w mid None = False"
| "content_is w mid (Some f) = (media_id w (snd f) = mid)"

text \<open>\<open>lost\<close> are the identifiers whose file may be missing: a registration can record its metadata after the
  file it wrote has been deleted.\<close>

definition file_ok :: "media_world \<Rightarrow> string set \<Rightarrow> (string \<times> string) list \<Rightarrow> metadata \<Rightarrow> bool" where
  "file_ok w lost files m =
     (md_format m \<noteq> [] \<and> distinct (md_references m) \<and> CHR ''.'' \<notin> set (md_id m) \<and>
      (md_id m \<in> lost \<or> content_is w (md_id m) (find_row fst (file_name (md_id m) (md_format m)) files)))"

fun named_format :: "registration_stage \<Rightarrow> bool" where
  "named_format (Checked t f) = (f \<noteq> [])"
| "named_format (Saved t f) = (f \<noteq> [])"
| "named_format _ = True"

definition media_ok :: "media_world \<Rightarrow> string set \<Rightarrow> media_store \<Rightarrow> bool" where
  "media_ok w lost s =
     (distinct (map md_id (ms_cache s)) \<and> distinct (map fst (ms_docs s)) \<and>
      (\<forall>k. find_row fst k (ms_docs s) = map_option (\<lambda>m. (k, to_dict m)) (get_metadata k s)) \<and>
      (\<forall>k m. get_metadata k s = Some m \<longrightarrow> file_ok w lost (ms_files s) m) \<and>
      (\<forall>g\<in>set (ms_open s). named_format (rg_stage g)))"

lemma media_okD:
  assumes "media_ok w X s"
  shows "distinct (map md_id (ms_cache s))" "distinct (map fst (ms_docs s))"
    "find_row fst k (ms_docs s) = map_option (\<lambda>m. (k, to_dict m)) (get_metadata k s)"
    "get_metadata k s = Some m \<Longrightarrow> file_ok w X (ms_files s) m"
    "g \<in> set (ms_open s) \<Longrightarrow> named_format (rg_stage g)"
  using assms unfolding media_ok_def by blast+

lemma media_ok_more: "media_ok w X s \<Longrightarrow> X \<subseteq> Y \<Longrightarrow> media_ok w Y s"
  unfolding media_ok_def file_ok_def by blast

lemma get_metadata_id: "get_metadata k s = Some m \<Longrightarrow> md_id m = k"
  unfolding get_metadata_def by (blast dest: find_row_SomeD)

lemma get_saved: "get_metadata k (save_metadata m s) = (if k = md_id m then Some m else get_metadata k s)"
  by (simp add: get_metadata_def save_metadata_def table_simps)

lemma get_deleted: "get_metadata k (delete_media mid s) = (if k = mid then None else get_metadata k s)"
  by (auto simp: delete_media_def get_metadata_def find_filtered split: option.split)

lemma save_ok:
  assumes "media_ok w X s" "file_ok w X (ms_files s) m"
  shows "media_ok w X (save_metadata m s)"
  using media_okD [OF assms(1)] assms(2)
  by (auto simp: media_ok_def get_saved) (auto simp: save_metadata_def table_simps distinct_put_entry)

lemma delete_ok:
  assumes "media_ok w X s"
  shows "media_ok w X (delete_media mid s)"
proof (cases "get_metadata mid s")
  case None
  with assms show ?thesis by (simp add: delete_media_def)
next
  case (Some m)
  note ok = media_okD [OF assms]
  from ok(4) [OF Some] get_metadata_id [OF Some] have m: "md_format m \<noteq> []" "CHR ''.'' \<notin> set mid"
    by (auto simp: file_ok_def)
  have "file_ok w X (ms_files (delete_media mid s)) m'" if m': "get_metadata k s = Some m'" "k \<noteq> mid" for k m'
  proof -
    have "file_name (md_id m') (md_format m') \<noteq> file_name mid (md_format m)"
      using ok(4) [OF m'(1)] get_metadata_id [OF m'(1)] m m'(2) by (auto simp: file_ok_def file_name_inj)
    with ok(4) [OF m'(1)] Some m(1) show ?thesis by (simp add: file_ok_def delete_media_def find_filtered)
  qed
  with ok(1-3) ok(5) Some show ?thesis
    by (auto simp: media_ok_def get_deleted) (auto simp: delete_media_def find_filtered distinct_filtered)
qed

lemma change_ok:
  assumes "media_ok w X s" "change_metadata mid f s = Inr s'"
    and "\<And>m. md_id (f m) = md_id m" "\<And>m. md_format (f m) = md_format m"
    and "\<And>m. distinct (md_references m) \<Longrightarrow> distinct (md_references (f m))"
  shows "media_ok w X s'"
proof -
  from assms(2) obtain m where m: "get_metadata mid s = Some m" "s' = save_metadata (f m) s"
    by (auto simp: change_metadata_def split: option.splits)
  with media_okD(4) [OF assms(1) m(1)] assms(3-5) have "file_ok w X (ms_files s) (f m)"
    by (simp add: file_ok_def)
  with assms(1) m(2) show ?thesis by (simp add: save_ok)
qed

lemma remove_ok:
  assumes "media_ok w X s" "remove_reference mid r s = Inr s'"
  shows "media_ok w X s'"
proof (cases "get_metadata mid s")
  case (Some m)
  from media_okD(4) [OF assms(1) Some] have "file_ok w X (ms_files s) (m\<lparr>md_references := removeAll r (md_references m)\<rparr>)"
    by (simp add: file_ok_def distinct_removeAll)
  from save_ok [OF assms(1) this] assms Some show ?thesis
    by (auto simp: remove_reference_def Let_def delete_ok split: if_splits)
qed (use assms in \<open>simp add: remove_reference_def\<close>)

lemma find_saved_file:
  "find_row fst k (ms_files (save_file name data s)) = (if k = name then Some (name, data) else find_row fst k (ms_files s))"
  by (simp add: save_file_def table_simps)

lemma get_save_file [simp]: "get_metadata k (save_file n d s) = get_metadata k s"
  by (simp add: get_metadata_def save_file_def)

lemma registered:
  assumes "register_media w q now s = Inr (mid, s')"
  obtains "s' = s"
  | data t f where "mid = media_id w data" "f \<noteq> []"
      "s' = save_metadata (make_metadata w q now mid data t f) (save_file (file_name mid f) data s)"
  using assms by (auto simp: register_media_steps Let_def split: sum.splits if_splits prod.splits)

lemma file_saved_ok:
  assumes "media_ok w X s" "CHR ''.'' \<notin> set mid" "mid \<in> X \<or> media_id w data = mid"
  shows "media_ok w X (save_file (file_name mid f) data s)"
proof -
  have "file_ok w X (ms_files (save_file (file_name mid f) data s)) m" if "get_metadata k s = Some m" for k m
    using media_okD(4) [OF assms(1) that] assms(2,3) by (auto simp: file_ok_def find_saved_file file_name_inj)
  with media_okD [OF assms(1)] show ?thesis
    by (simp add: media_ok_def) (simp add: save_file_def)
qed

lemma id_dotless [simp]: "CHR ''.'' \<notin> set (media_id w data)"
  by (simp add: media_id_def hexdigest_dotless)

lemma register_ok:
  assumes "media_ok w X s" "register_media w q now s = Inr (mid, s')"
  shows "media_ok w X s'"
  using assms(2)
proof (rule registered)
  fix data t f
  assume new: "mid = media_id w data" "f \<noteq> []"
    "s' = save_metadata (make_metadata w q now mid data t f) (save_file (file_name mid f) data s)"
  have "file_ok w X (ms_files (save_file (file_name mid f) data s)) (make_metadata w q now mid data t f)"
    using new(1,2) by (simp add: file_ok_def make_metadata_def find_saved_file)
  with new file_saved_ok [OF assms(1)] show ?thesis by (auto intro: save_ok)
qed (use assms in simp)

lemma registrations_ok:
  assumes "media_ok w X s" "\<forall>g\<in>set gs. named_format (rg_stage g)"
  shows "media_ok w X (s\<lparr>ms_open := gs\<rparr>)"
  using media_okD [OF assms(1)] assms(2) by (simp add: media_ok_def get_metadata_def)

lemma put_registration_ok:
  assumes "media_ok w X s" "named_format (rg_stage g)"
  shows "media_ok w X (put_registration i g s)"
  using media_okD(5) [OF assms(1)] assms(2) unfolding put_registration_def
  by (intro registrations_ok [OF assms(1)]) (auto dest: set_update_subset_insert [THEN subsetD])

lemma open_registration_ok: "media_ok w X s \<Longrightarrow> open_registration i s = Some g \<Longrightarrow> named_format (rg_stage g)"
  using media_okD(5) by (fastforce simp: open_registration_def split: if_splits)

lemma begin_ok: "media_ok w X s \<Longrightarrow> media_ok w X (begin_registration w q s)"
  by (auto simp: begin_registration_def dest: media_okD(5) intro!: registrations_ok split: sum.split)

lemma check_ok: "media_ok w X s \<Longrightarrow> media_ok w X (resume_check w i s)"
  by (auto simp: resume_check_def check_registration_def intro!: put_registration_ok split: option.split sum.splits prod.splits if_splits)

lemma save_part_ok:
  assumes "media_ok w X s"
  shows "media_ok w X (resume_with (save_registration w) i s)"
proof (cases "open_registration i s")
  case (Some g)
  with assms open_registration_ok [OF assms Some] show ?thesis
    by (cases "rg_stage g") (auto simp: resume_with_def save_registration_def intro!: put_registration_ok file_saved_ok)
qed (use assms in \<open>simp add: resume_with_def\<close>)

text \<open>The registration whose metadata would be recorded next, and whether its file is gone.\<close>

definition finishing :: "media_event \<Rightarrow> media_store \<Rightarrow> (registration \<times> string) option" where
  "finishing e s =
     (case e of
        MeFinish i now \<Rightarrow>
          (case open_registration i s of
             Some g \<Rightarrow> (case rg_stage g of Saved t f \<Rightarrow> Some (g, f) | _ \<Rightarrow> None)
           | None \<Rightarrow> None)
      | _ \<Rightarrow> None)"

definition loses :: "media_world \<Rightarrow> media_event \<Rightarrow> media_store \<Rightarrow> string list" where
  "loses w e s =
     (case finishing e s of
        None \<Rightarrow> []
      | Some (g, f) \<Rightarrow>
          (let mid = media_id w (rg_data g) in
           if content_is w mid (find_row fst (file_name mid f) (ms_files s)) then [] else [mid]))"

lemma finish_ok:
  assumes "media_ok w X s" "set (loses w (MeFinish i now) s) \<subseteq> X"
  shows "media_ok w X (resume_with (\<lambda>g. finish_registration w g now) i s)"
proof (cases "finishing (MeFinish i now) s")
  case None
  show ?thesis
  proof (cases "open_registration i s")
    case (Some g)
    with assms(1) None open_registration_ok [OF assms(1) Some] show ?thesis
      by (cases "rg_stage g")
        (auto simp: resume_with_def finish_registration_def finishing_def intro!: put_registration_ok)
  qed (use assms(1) in \<open>simp add: resume_with_def\<close>)
next
  case (Some gf)
  then obtain g t f where g: "open_registration i s = Some g" "rg_stage g = Saved t f" "gf = (g, f)"
    by (auto simp: finishing_def split: option.splits registration_stage.splits)
  let ?m = "make_metadata w (rg_request g) now (media_id w (rg_data g)) (rg_data g) t f"
  have "f \<noteq> []" using open_registration_ok [OF assms(1) g(1)] g(2) by simp
  with assms(2) Some g(3) have "file_ok w X (ms_files s) ?m"
    by (auto simp: loses_def file_ok_def make_metadata_def Let_def split: if_splits)
  with assms(1) g(1,2) show ?thesis
    by (simp add: resume_with_def finish_registration_def put_registration_ok save_ok)
qed

lemma ensure_saves:
  assumes "media_ok w X s"
  obtains "snd (ensure_file_exists w mid s) = s"
  | f b where "mid \<in> X" "CHR ''.'' \<notin> set mid" "snd (ensure_file_exists w mid s) = save_file (file_name mid f) b s"
proof (cases "get_metadata mid s")
  case None
  then show thesis using that(1) by (simp add: ensure_file_exists_def)
next
  case (Some m)
  note m = media_okD(4) [OF assms Some] get_metadata_id [OF Some]
  show thesis
  proof (cases "find_row fst (file_name mid (md_format m)) (ms_files s)")
    case None
    with m have X: "mid \<in> X" "CHR ''.'' \<notin> set mid" "md_format m \<noteq> []" by (auto simp: file_ok_def)
    have "snd (ensure_file_exists w mid s) = s \<or>
        (\<exists>b. snd (ensure_file_exists w mid s) = save_file (file_name mid (md_format m)) b s)"
      using Some None X(3) by (auto simp: ensure_file_exists_def Let_def split: option.split)
    with that X(1,2) show thesis by blast
  next
    case (Some f)
    with m \<open>get_metadata mid s = Some m\<close> that(1) show thesis by (simp add: ensure_file_exists_def file_ok_def Let_def)
  qed
qed

lemma ensure_ok: "media_ok w X s \<Longrightarrow> media_ok w X (snd (ensure_file_exists w mid s))"
  by (rule ensure_saves [where mid = mid]) (auto intro: file_saved_ok)

lemma get_ensured: "media_ok w X s \<Longrightarrow> get_metadata k (snd (ensure_file_exists w mid s)) = get_metadata k s"
  by (rule ensure_saves [where mid = mid]) auto

lemma loaded_metadata:
  assumes "media_ok w X s" "is_listing listing (ms_docs s)"
  shows "get_metadata k (load_all_metadata guess listing s) = map_option as_read (get_metadata k s)"
    and "distinct (map md_id (ms_cache (load_all_metadata guess listing s)))"
proof -
  note ok = media_okD [OF assms(1)]
  define read where "read = (\<lambda>d :: string \<times> (string \<times> json) list. the (from_dict guess (snd d)))"
  have doc: "\<exists>m. get_metadata (fst d) s = Some m \<and> snd d = to_dict m \<and> from_dict guess (snd d) = Some (as_read m) \<and>
      md_id (as_read m) = fst d" if "d \<in> set listing" for d
  proof -
    from that assms(2) ok(2) have "find_row fst (fst d) (ms_docs s) = Some d"
      by (intro find_row_distinct) (auto simp: is_listing_def)
    with ok(3) [of "fst d"] obtain m where m: "get_metadata (fst d) s = Some m" "snd d = to_dict m"
      by (cases d) auto
    with ok(4) [OF m(1)] get_metadata_id [OF m(1)] show ?thesis
      by (auto simp: file_ok_def from_dict_to_dict as_read_def)
  qed
  have all: "List.map_filter (\<lambda>d. from_dict guess (snd d)) listing = map read listing"
  proof -
    have "filter (\<lambda>d. from_dict guess (snd d) \<noteq> None) listing = listing" using doc by (fastforce intro: filter_True)
    then show ?thesis unfolding List.map_filter_def read_def by (simp add: comp_def)
  qed
  have "md_id (read d) = fst d" if "d \<in> set listing" for d
    using doc [OF that] by (auto simp: read_def)
  then have ids: "map md_id (map read listing) = map fst listing" by simp
  have find: "find_row md_id k (map read listing) = map_option read (find_row fst k listing)"
    using ids by (induction listing) (auto simp: table_simps)
  have "get_metadata k (load_all_metadata guess listing s) = find_row md_id k (map read listing)"
  proof -
    have "distinct (map md_id (map read listing))" using assms(2) unfolding ids is_listing_def by simp
    from find_fold_put [OF this, of k "[]"] show ?thesis
      by (simp add: get_metadata_def load_all_metadata_def all table_simps split: option.splits)
  qed
  also have "\<dots> = map_option as_read (get_metadata k s)"
  proof (cases "get_metadata k s")
    case None
    with ok(3) [of k] find find_listing [OF assms(2) ok(2), of k] show ?thesis by simp
  next
    case (Some m)
    with ok(3) [of k] find_listing [OF assms(2) ok(2), of k] have "find_row fst k listing = Some (k, to_dict m)" by simp
    with doc [of "(k, to_dict m)"] find Some show ?thesis by (auto simp: read_def dest: find_row_SomeD)
  qed
  finally show "get_metadata k (load_all_metadata guess listing s) = map_option as_read (get_metadata k s)" .
  show "distinct (map md_id (ms_cache (load_all_metadata guess listing s)))"
    by (simp add: load_all_metadata_def distinct_fold_put)
qed

lemma as_read_keeps [simp]:
  "md_id (as_read m) = md_id m" "md_format (as_read m) = md_format m" "md_references (as_read m) = md_references m"
  "to_dict (as_read m) = to_dict m"
  by (simp_all add: as_read_def to_dict_def truthy_def json_or_null_def)

lemma file_ok_as_read [simp]: "file_ok w X files (as_read m) = file_ok w X files m"
  by (simp add: file_ok_def)

lemma load_ok:
  assumes "media_ok w X s" "is_listing listing (ms_docs s)"
  shows "media_ok w X (load_all_metadata guess listing s)"
proof -
  have "ms_docs (load_all_metadata guess listing s) = ms_docs s" "ms_files (load_all_metadata guess listing s) = ms_files s"
    "ms_open (load_all_metadata guess listing s) = ms_open s"
    by (simp_all add: load_all_metadata_def)
  with media_okD [OF assms(1)] loaded_metadata [OF assms, where guess = guess] show ?thesis
    by (auto simp: media_ok_def option.map_comp comp_def)
qed

lemma restart_ok: "media_ok w X s \<Longrightarrow> media_ok w X (restart_media guess listing s)"
  by (auto simp: restart_media_def intro!: registrations_ok load_ok)

lemma get_registrations [simp]: "get_metadata k (s\<lparr>ms_open := gs\<rparr>) = get_metadata k s"
  by (simp add: get_metadata_def)

lemma get_put_registration [simp]: "get_metadata k (put_registration i g s) = get_metadata k s"
  by (simp add: put_registration_def)

lemma get_restarted:
  "media_ok w X s \<Longrightarrow> get_metadata k (restart_media guess listing s) =
     (if is_listing listing (ms_docs s) then map_option as_read (get_metadata k s) else get_metadata k s)"
  by (simp add: restart_media_def loaded_metadata)

lemma cleanup_ok: "media_ok w X s \<Longrightarrow> media_ok w X (snd (cleanup_unreferenced s))"
proof -
  have "media_ok w X s \<Longrightarrow> media_ok w X (fold delete_media ids s)" for ids
    by (induction ids arbitrary: s) (auto intro: delete_ok)
  then show "media_ok w X s \<Longrightarrow> media_ok w X (snd (cleanup_unreferenced s))"
    by (simp add: cleanup_unreferenced_def Let_def)
qed

lemma distinct_fold_tags: "distinct ts \<Longrightarrow> distinct (fold (\<lambda>t ts. if t \<in> set ts then ts else ts @ [t]) xs ts)"
  by (induction xs arbitrary: ts) auto

lemma media_step_ok:
  assumes ok: "media_ok w X s" and X: "set (loses w e s) \<subseteq> X"
  shows "media_ok w X (media_step w guess e s)"
proof (cases e)
  case (MeRegister q now)
  with ok show ?thesis by (auto simp: register_ok split: sum.split)
next
  case (MeRemoveReference mid r)
  with ok show ?thesis by (auto simp: or_unchanged_def remove_ok split: sum.split)
next
  case (MeFinish i now)
  with ok X show ?thesis by (simp add: finish_ok)
qed (use ok in \<open>auto simp: or_unchanged_def delete_ok cleanup_ok ensure_ok restart_ok begin_ok check_ok save_part_ok
    add_reference_def update_metadata_def add_tags_def remove_tags_def
    intro: change_ok split: sum.split\<close>)

text \<open>Without looking at lost files, every event keeps the index.\<close>

interpretation media_life: invariant_machine "media_step w guess" "media_ok w UNIV" for w guess
  by unfold_locales (simp add: media_step_ok)

fun lost_media ::
    "media_world \<Rightarrow> (string \<Rightarrow> string option) \<Rightarrow> media_event list \<Rightarrow> media_store \<Rightarrow> string list" where
  "lost_media w guess [] s = []"
| "lost_media w guess (e # es) s = loses w e s @ lost_media w guess es (media_step w guess e s)"

lemma media_run_ok:
  "media_ok w X s \<Longrightarrow> set (lost_media w guess es s) \<subseteq> X \<Longrightarrow> media_ok w X (fold (media_step w guess) es s)"
  by (induction es arbitrary: s) (auto intro: media_step_ok)

lemma no_media_ok: "media_ok w X no_media"
  by (simp add: media_ok_def no_media_def get_metadata_def table_simps)

fun in_parts :: "media_event \<Rightarrow> bool" where
  "in_parts (MeFinish i now) = True"
| "in_parts _ = False"

lemma whole_registrations_lose_nothing: "list_ex in_parts es \<or> lost_media w guess es s = []"
proof (induction es arbitrary: s)
  case (Cons e es)
  have "in_parts e \<or> loses w e s = []" by (cases e) (simp_all add: loses_def finishing_def)
  with Cons show ?case by auto
qed simp

section \<open>What histories show\<close>

text \<open>C9. Media files are kept as they were registered. After any registrations, whole or in parts, and any
  references, updates, clean-ups, reads and restarts, every known media file is in the directory with
  the content whose digest is its name, except the media for which a registration recorded its metadata
  when the file it had written was gone - none if no registration was interleaved with other calls -
  and a restart reads back the metadata that are in memory (an empty URL or path as none).\<close>

theorem media_files_are_kept:
  "let s = fold (media_step w guess) es no_media; lost = lost_media w guess es no_media in
     list_all (file_ok w (set lost) (ms_files s)) (ms_cache s) \<and> (list_ex in_parts es \<or> lost = []) \<and>
     get_metadata mid (load_all_metadata guess (ms_docs s) s) = map_option as_read (get_metadata mid s)"
proof -
  let ?s = "fold (media_step w guess) es no_media" and ?X = "set (lost_media w guess es no_media)"
  have ok: "media_ok w ?X ?s" by (rule media_run_ok [OF no_media_ok]) simp
  note facts = media_okD [OF ok]
  have "file_ok w ?X (ms_files ?s) m" if "m \<in> set (ms_cache ?s)" for m
    using facts(4) find_row_distinct [OF facts(1) that] by (simp add: get_metadata_def)
  moreover have "get_metadata mid (load_all_metadata guess (ms_docs ?s) ?s) = map_option as_read (get_metadata mid ?s)"
    using loaded_metadata(1) [OF ok] facts(2) by (simp add: is_listing_def)
  ultimately show ?thesis
    using whole_registrations_lose_nothing by (simp add: list_all_iff Let_def)
qed

definition has_reference :: "string \<Rightarrow> string \<Rightarrow> media_store \<Rightarrow> bool" where
  "has_reference mid r s = (case get_metadata mid s of None \<Rightarrow> False | Some m \<Rightarrow> r \<in> set (md_references m))"

text \<open>The calls that can drop a reference. A registration that finishes replaces the metadata, with no
  reference but its own.\<close>

definition takes_away :: "media_world \<Rightarrow> string \<Rightarrow> string \<Rightarrow> media_event \<Rightarrow> media_store \<Rightarrow> bool" where
  "takes_away w mid r e s =
     (e = MeRemoveReference mid r \<or> e = MeDelete mid \<or>
      (case finishing e s of
         None \<Rightarrow> False
       | Some (g, f) \<Rightarrow> media_id w (rg_data g) = mid \<and> (rq_reference (rg_request g) \<noteq> Some r \<or> r = [])))"

lemma change_keeps_reference:
  assumes "change_metadata k f s = Inr s'" "has_reference mid r s"
    and "\<And>m. md_id (f m) = md_id m" "\<And>m. set (md_references m) \<subseteq> set (md_references (f m))"
  shows "has_reference mid r s'"
proof -
  from assms(1) obtain m where m: "get_metadata k s = Some m" "s' = save_metadata (f m) s"
    by (auto simp: change_metadata_def split: option.splits)
  show ?thesis
  proof (cases "k = mid")
    case True
    with assms(2) m(1) have "r \<in> set (md_references m)" by (simp add: has_reference_def)
    with assms(4) have "r \<in> set (md_references (f m))" by blast
    with True m assms(3) get_metadata_id [OF m(1)] show ?thesis by (simp add: has_reference_def get_saved)
  next
    case False
    with assms(2,3) m get_metadata_id [OF m(1)] show ?thesis by (simp add: has_reference_def get_saved)
  qed
qed

lemma delete_keeps_reference: "has_reference mid r s \<Longrightarrow> mid \<noteq> k \<Longrightarrow> has_reference mid r (delete_media k s)"
  by (simp add: has_reference_def get_deleted)

lemma removed_reference:
  assumes "remove_reference k r' s = Inr s'"
  shows "has_reference mid r s' \<longleftrightarrow> has_reference mid r s \<and> (mid, r) \<noteq> (k, r')"
proof (cases "get_metadata k s")
  case None
  with assms show ?thesis by (simp add: remove_reference_def)
next
  case (Some m)
  note id = get_metadata_id [OF Some]
  show ?thesis
  proof (cases "r' \<in> set (md_references m)")
    case False
    with Some assms show ?thesis by (auto simp: remove_reference_def has_reference_def)
  next
    case True
    define t where "t = save_metadata (m\<lparr>md_references := removeAll r' (md_references m)\<rparr>) s"
    have t: "has_reference mid r t \<longleftrightarrow> has_reference mid r s \<and> (mid, r) \<noteq> (k, r')"
      using Some id by (cases "mid = k") (auto simp: t_def has_reference_def get_saved)
    have s': "s' = (if removeAll r' (md_references m) = [] then delete_media k t else t)"
      using Some True assms unfolding remove_reference_def t_def Let_def by simp
    have "\<not> has_reference k r t" if "removeAll r' (md_references m) = []"
      using that id by (simp add: t_def has_reference_def get_saved)
    with t s' show ?thesis by (auto simp: has_reference_def get_deleted)
  qed
qed

lemma remove_keeps_reference:
  "has_reference mid r s \<Longrightarrow> remove_reference k r' s = Inr s' \<Longrightarrow> (k, r') \<noteq> (mid, r) \<Longrightarrow> has_reference mid r s'"
  by (auto simp: removed_reference)

lemma register_keeps_reference:
  assumes "has_reference mid r s" "register_media w q now s = Inr (k, s')"
  shows "has_reference mid r s'"
proof (cases "get_metadata k s")
  case None
  with assms(1) have "k \<noteq> mid" by (auto simp: has_reference_def)
  from assms(2) show ?thesis
  proof (rule registered)
    fix data t f
    assume "s' = save_metadata (make_metadata w q now k data t f) (save_file (file_name k f) data s)"
    with assms(1) \<open>k \<noteq> mid\<close> show ?thesis
      by (simp add: has_reference_def get_saved make_metadata_def)
  qed (use assms in simp)
next
  case (Some m)
  with assms show ?thesis by (auto simp: register_media_steps Let_def split: sum.splits if_splits prod.splits)
qed

lemma finish_keeps_reference:
  assumes "has_reference mid r s" "\<not> takes_away w mid r (MeFinish i now) s"
  shows "has_reference mid r (resume_with (\<lambda>g. finish_registration w g now) i s)"
  using assms
  by (auto simp: resume_with_def finish_registration_def takes_away_def finishing_def has_reference_def get_saved
      make_metadata_def truthy_def split: option.splits registration_stage.splits)

lemma parts_change_no_metadata:
  "get_metadata k (begin_registration w q s) = get_metadata k s"
  "get_metadata k (resume_check w i s) = get_metadata k s"
  "get_metadata k (resume_with (save_registration w) i s) = get_metadata k s"
  by (auto simp: begin_registration_def resume_check_def resume_with_def save_registration_def
      split: option.split sum.split registration_stage.split)

lemma cleanup_keeps_reference:
  assumes "media_ok w X s" "has_reference mid r s"
  shows "has_reference mid r (snd (cleanup_unreferenced s))"
proof -
  have keep: "mid \<notin> set ids \<Longrightarrow> has_reference mid r t \<Longrightarrow> has_reference mid r (fold delete_media ids t)" for ids t
    by (induction ids arbitrary: t) (auto intro: delete_keeps_reference)
  have "mid \<noteq> md_id m" if "m \<in> set (ms_cache s)" "md_references m = []" for m
    using find_row_distinct [OF media_okD(1) [OF assms(1)] that(1)] assms(2) that(2)
    by (auto simp: has_reference_def get_metadata_def)
  then have "mid \<notin> set (map md_id (filter (\<lambda>m. md_references m = []) (ms_cache s)))" by auto
  from keep [OF this assms(2)] show ?thesis by (simp add: cleanup_unreferenced_def Let_def)
qed

lemma step_keeps_reference:
  assumes "media_ok w X s" "has_reference mid r s" "\<not> takes_away w mid r e s"
  shows "has_reference mid r (media_step w guess e s)"
proof (cases e)
  case (MeRegister q now)
  with assms show ?thesis by (auto simp: register_keeps_reference split: sum.split)
next
  case (MeRemoveReference k r')
  with assms show ?thesis by (auto simp: or_unchanged_def takes_away_def remove_keeps_reference split: sum.split)
next
  case (MeDelete k)
  with assms show ?thesis by (auto simp: takes_away_def delete_keeps_reference)
next
  case MeCleanup
  with assms cleanup_keeps_reference show ?thesis by simp
next
  case (MeEnsure k)
  with assms get_ensured [OF assms(1)] show ?thesis by (simp add: has_reference_def)
next
  case (MeFinish i now)
  with assms finish_keeps_reference show ?thesis by simp
next
  case (MeRestart listing)
  with assms show ?thesis by (auto simp: has_reference_def get_restarted split: option.splits)
next
  case (MeFetch q)
  with assms show ?thesis by (simp add: has_reference_def parts_change_no_metadata)
next
  case (MeCheck i)
  with assms show ?thesis by (simp add: has_reference_def parts_change_no_metadata)
next
  case (MeSave i)
  with assms show ?thesis by (simp add: has_reference_def parts_change_no_metadata)
qed (use assms in \<open>auto simp: or_unchanged_def add_reference_def update_metadata_def
    add_tags_def remove_tags_def intro: change_keeps_reference split: sum.split\<close>)

lemma first_change:
  "P s \<Longrightarrow> \<not> P (fold f es s) \<Longrightarrow>
     \<exists>before e after. es = before @ e # after \<and> P (fold f before s) \<and> \<not> P (f e (fold f before s))"
proof (induction es arbitrary: s)
  case (Cons e es)
  show ?case
  proof (cases "P (f e s)")
    case True
    with Cons obtain before e' after where "es = before @ e' # after" "P (fold f before (f e s))"
        "\<not> P (f e' (fold f before (f e s)))" by fastforce
    then show ?thesis by (intro exI [of _ "e # before"] exI [of _ e'] exI [of _ after]) simp
  qed (use Cons.prems in \<open>intro exI [of _ "[]"] exI [of _ e] exI [of _ es]; simp\<close>)
qed simp

text \<open>C8. A referenced media file stays. Whatever registrations (whole or in parts), updates, references of
  others, clean-ups and restarts follow, a media file that loses a reference loses it in one of three
  events: exactly that reference is removed, the file is deleted by name, or a registration of the same
  content with another reference, which was under way, records its metadata over those of the file.\<close>

theorem referenced_media_stays:
  assumes "has_reference mid r (fold (media_step w guess) es no_media)"
    and "\<not> has_reference mid r (fold (media_step w guess) (es @ later) no_media)"
  shows "\<exists>before e after. later = before @ e # after \<and>
    has_reference mid r (fold (media_step w guess) (es @ before) no_media) \<and>
    takes_away w mid r e (fold (media_step w guess) (es @ before) no_media)"
proof -
  let ?s = "\<lambda>xs. fold (media_step w guess) xs no_media"
  have "\<not> has_reference mid r (fold (media_step w guess) later (?s es))" using assms(2) by simp
  from first_change [of "has_reference mid r", OF assms(1) this] obtain before e after
    where split: "later = before @ e # after" "has_reference mid r (?s (es @ before))"
      "\<not> has_reference mid r (media_step w guess e (?s (es @ before)))" by auto
  have "media_ok w UNIV (?s (es @ before))" by (rule media_life.run_inv [OF no_media_ok])
  from step_keeps_reference [OF this split(2)] split show ?thesis by blast
qed

text \<open>A world in which every file is a picture, and two messages with the same picture.\<close>

definition album :: media_world where
  "album = \<lparr>mw_dir = ''files'', mw_sha1 = (\<lambda>b. length b), mw_detect = (\<lambda>b. (Image, ''png'')),
     mw_download = (\<lambda>u. None), mw_outside = (\<lambda>p. None), mw_base64 = (\<lambda>b. b)\<rparr>"

definition picture :: "string \<Rightarrow> media_request" where
  "picture r = \<lparr>rq_url = None, rq_path = None, rq_data = Some ''xyz'', rq_format = None, rq_type = None,
     rq_size = None, rq_source = Some ''chat'', rq_description = None, rq_tags = [], rq_reference = Some r\<rparr>"

definition picture_id :: string where
  "picture_id = hexdigest 3"

theorem referenced_media_stays_witness:
  "\<exists>before e after. [MeAddReference picture_id ''second'', MeCleanup, MeRemoveReference picture_id ''first''] =
     before @ e # after \<and>
     takes_away album picture_id ''first'' e
       (fold (media_step album (\<lambda>e. None)) ([MeRegister (picture ''first'') ''2026-01-01T10:00:00''] @ before) no_media)"
proof -
  let ?run = "\<lambda>xs. fold (media_step album (\<lambda>e. None)) xs no_media"
    and ?es = "[MeRegister (picture ''first'') ''2026-01-01T10:00:00'']"
    and ?later = "[MeAddReference picture_id ''second'', MeCleanup, MeRemoveReference picture_id ''first'']"
  have "has_reference picture_id ''first'' (?run ?es)" by code_simp
  moreover have "\<not> has_reference picture_id ''first'' (?run (?es @ ?later))" by code_simp
  ultimately obtain before e after where "?later = before @ e # after" "takes_away album picture_id ''first'' e (?run (?es @ before))"
    by (rule referenced_media_stays [THEN exE]) blast
  then show ?thesis by (intro exI [of _ before] exI [of _ e] exI [of _ after] conjI)
qed

text \<open>Registering content that is known already does not record the new reference: when the first
  message gives up its own, the file of the second message is deleted.\<close>

lemma second_registration_is_not_referenced:
  "ms_files (fold (media_step album (\<lambda>e. None))
     [MeRegister (picture ''first'') ''2026-01-01T10:00:00'', MeRegister (picture ''second'') ''2026-01-01T11:00:00'',
      MeRemoveReference picture_id ''first''] no_media) = []"
  by code_simp

section \<open>Overlapping registrations\<close>

text \<open>Two messages with one new picture arrive together: both registrations find it unknown and both record
  their metadata, so the reference of the message that finished first is gone, and with the reference
  of the second the file is deleted.\<close>

definition together :: "media_event list" where
  "together =
     [MeFetch (picture ''first''), MeFetch (picture ''second''), MeCheck 0, MeCheck 1, MeSave 0,
      MeFinish 0 ''2026-01-01T10:00:00'', MeSave 1]"

lemma overlapping_registration_drops_reference:
  "has_reference picture_id ''first'' (fold (media_step album (\<lambda>e. None)) together no_media)"
  "\<not> has_reference picture_id ''first''
     (fold (media_step album (\<lambda>e. None)) (together @ [MeFinish 1 ''2026-01-01T10:00:01'']) no_media)"
  "ms_files (fold (media_step album (\<lambda>e. None))
     (together @ [MeFinish 1 ''2026-01-01T10:00:01'', MeRemoveReference picture_id ''second'']) no_media) = []"
  by code_simp+

text \<open>When the first message gives its reference up in between, the second leaves metadata without a file.\<close>

lemma overlapping_registration_without_file:
  "let s = fold (media_step album (\<lambda>e. None))
       (together @ [MeRemoveReference picture_id ''first'', MeFinish 1 ''2026-01-01T10:00:01'']) no_media in
     has_reference picture_id ''second'' s \<and> ms_files s = []"
  by code_simp

end
