(* ===== verification/Media_Carrier.thy ===== *)
theory Media_Carrier
  imports Media_Life
begin

text \<open>
  \<open>MediaCarrierService\<close> (\<open>media/carrier/service.py\<close>) and its registry of providers: references named
  after the component that holds them, the index from a reference to its media file, and the removal of
  references whose provider is gone. The providers are known by their names.
\<close>

record carrier =
  ca_providers :: "string list"
  ca_index :: "(string \<times> string \<times> string) list"

definition full_key :: "string \<Rightarrow> string \<Rightarrow> string" where
  "full_key provider key = provider @ CHR '':'' # key"

definition has_provider :: "string \<Rightarrow> bool" where
  "has_provider r = (CHR '':'' \<in> set r)"

definition provider_of :: "string \<Rightarrow> string" where
  "provider_of r = takeWhile (\<lambda>c. c \<noteq> CHR '':'') r"

definition key_of :: "string \<Rightarrow> string" where
  "key_of r = drop 1 (dropWhile (\<lambda>c. c \<noteq> CHR '':'') r)"

definition set_index :: "string \<Rightarrow> string \<times> string \<Rightarrow> carrier \<Rightarrow> carrier" where
  "set_index r v c = c\<lparr>ca_index := put_entry fst (r, v) (ca_index c)\<rparr>"

definition drop_index :: "string \<Rightarrow> carrier \<Rightarrow> carrier" where
  "drop_index r c = c\<lparr>ca_index := filter (\<lambda>i. fst i \<noteq> r) (ca_index c)\<rparr>"

definition register_provider :: "string \<Rightarrow> carrier \<Rightarrow> carrier" where
  "register_provider p c = c\<lparr>ca_providers := (if p \<in> set (ca_providers c) then ca_providers c else ca_providers c @ [p])\<rparr>"

definition unregister_provider :: "string \<Rightarrow> carrier \<Rightarrow> carrier" where
  "unregister_provider p c = c\<lparr>ca_providers := removeAll p (ca_providers c)\<rparr>"

definition build_reference_index :: "media_store \<Rightarrow> carrier \<Rightarrow> carrier" where
  "build_reference_index s c =
     fold (\<lambda>(r, mid). set_index r (provider_of r, mid))
       (concat (map (\<lambda>m. map (\<lambda>r. (r, md_id m)) (filter has_provider (md_references m))) (ms_cache s)))
       (c\<lparr>ca_index := []\<rparr>)"

definition register_reference ::
    "string \<Rightarrow> string \<Rightarrow> string \<Rightarrow> media_store \<times> carrier \<Rightarrow> media_error + (media_store \<times> carrier)" where
  "register_reference mid provider key sc =
     (case sc of (s, c) \<Rightarrow>
        (case add_reference mid (full_key provider key) s of
           Inl e \<Rightarrow> Inl e
         | Inr s' \<Rightarrow> Inr (s', set_index (full_key provider key) (provider, mid) c)))"

definition release_reference :: "string \<Rightarrow> string \<Rightarrow> string \<Rightarrow> media_store \<times> carrier \<Rightarrow> media_store \<times> carrier" where
  "release_reference mid provider key sc =
     (case sc of (s, c) \<Rightarrow>
        (case remove_reference mid (full_key provider key) s of
           Inl e \<Rightarrow> (s, c)
         | Inr s' \<Rightarrow> (s', drop_index (full_key provider key) c)))"

text \<open>Which provider is asked for the owner, and by which key.\<close>

definition reference_owner :: "string \<Rightarrow> carrier \<Rightarrow> (string \<times> string) option" where
  "reference_owner r c =
     (case find_row fst r (ca_index c) of
        None \<Rightarrow> None
      | Some (_, provider, _) \<Rightarrow>
          if provider \<in> set (ca_providers c) \<and> has_provider r then Some (provider, key_of r) else None)"

definition media_by_reference :: "string \<Rightarrow> string \<Rightarrow> media_store \<times> carrier \<Rightarrow> string list" where
  "media_by_reference provider key sc =
     (case sc of (s, c) \<Rightarrow>
        List.map_filter (\<lambda>(r, _, mid).
            if r = full_key provider key \<and> get_metadata mid s \<noteq> None then Some mid else None) (ca_index c))"

definition references_by_media :: "string \<Rightarrow> media_store \<Rightarrow> (string \<times> string) list" where
  "references_by_media mid s =
     (case get_metadata mid s of
        None \<Rightarrow> []
      | Some m \<Rightarrow> map (\<lambda>r. (provider_of r, key_of r)) (filter has_provider (md_references m)))"

definition orphaned :: "carrier \<Rightarrow> string \<Rightarrow> bool" where
  "orphaned c r = (has_provider r \<and> provider_of r \<notin> set (ca_providers c))"

definition drop_orphan :: "string \<times> string \<Rightarrow> media_store \<times> carrier \<Rightarrow> media_store \<times> carrier" where
  "drop_orphan = (\<lambda>(mid, r) (s, c). (or_unchanged s (remove_reference mid r s), drop_index r c))"

definition cleanup_orphaned_references :: "media_store \<times> carrier \<Rightarrow> nat \<times> media_store \<times> carrier" where
  "cleanup_orphaned_references sc =
     (let orphans = concat (map (\<lambda>m. map (\<lambda>r. (md_id m, r)) (filter (orphaned (snd sc)) (md_references m)))
                              (ms_cache (fst sc)))
      in (length orphans, fold drop_orphan orphans sc))"

section \<open>Orphaned references\<close>

lemma removing_unknown: "remove_reference k r' s = Inl e \<Longrightarrow> \<not> has_reference k r' s"
  by (auto simp: remove_reference_def has_reference_def Let_def split: option.splits if_splits)

lemma dropped_orphan:
  "has_reference mid r (fst (drop_orphan x sc)) \<longleftrightarrow> has_reference mid r (fst sc) \<and> (mid, r) \<noteq> x"
proof -
  obtain k r' s c where x: "x = (k, r')" "sc = (s, c)" by (metis surj_pair)
  show ?thesis
  proof (cases "remove_reference k r' s")
    case (Inl e)
    with x removing_unknown [OF Inl] show ?thesis by (auto simp: drop_orphan_def or_unchanged_def)
  next
    case (Inr s')
    with x removed_reference [OF Inr] show ?thesis by (simp add: drop_orphan_def or_unchanged_def)
  qed
qed

lemma dropped_orphans:
  "has_reference mid r (fst (fold drop_orphan xs sc)) \<longleftrightarrow> has_reference mid r (fst sc) \<and> (mid, r) \<notin> set xs"
  by (induction xs arbitrary: sc) (auto simp: dropped_orphan)

lemma listed_references:
  assumes "media_ok w X s"
  shows "(mid, r) \<in> set (concat (map (\<lambda>m. map (\<lambda>r. (md_id m, r)) (filter P (md_references m))) (ms_cache s))) \<longleftrightarrow>
    has_reference mid r s \<and> P r"
proof (cases "get_metadata mid s")
  case None
  then have "mid \<notin> md_id ` set (ms_cache s)" by (simp add: get_metadata_def find_row_None)
  with None show ?thesis by (auto simp: has_reference_def)
next
  case (Some m)
  then have m: "m \<in> set (ms_cache s)" "md_id m = mid" unfolding get_metadata_def by (auto dest: find_row_SomeD)
  have only: "m' \<in> set (ms_cache s) \<and> md_id m' = mid \<longleftrightarrow> m' = m" for m'
  proof
    assume m': "m' \<in> set (ms_cache s) \<and> md_id m' = mid"
    then have "get_metadata mid s = Some m'"
      using find_row_distinct [OF media_okD(1) [OF assms], of m'] unfolding get_metadata_def by blast
    with Some show "m' = m" by simp
  qed (use m in simp)
  have "(mid, r) \<in> set (concat (map (\<lambda>m. map (\<lambda>r. (md_id m, r)) (filter P (md_references m))) (ms_cache s))) \<longleftrightarrow>
      (\<exists>m'. (m' \<in> set (ms_cache s) \<and> md_id m' = mid) \<and> r \<in> set (md_references m') \<and> P r)" by auto
  with Some show ?thesis unfolding only by (simp add: has_reference_def)
qed

text \<open>C0. Exactly the orphaned references go. After any history of media files, the clean-up of references
  removes those whose provider is not registered and no other: a media file loses no reference of a
  registered provider, or without provider, and keeps no other.\<close>

theorem orphan_cleanup_is_exact:
  "let s = fold (media_step w guess) es no_media in
     has_reference mid r (fst (snd (cleanup_orphaned_references (s, c)))) \<longleftrightarrow>
     has_reference mid r s \<and> \<not> orphaned c r"
  using listed_references [OF media_life.run_inv [OF no_media_ok, of w guess es], of mid r "orphaned c"]
  by (auto simp: cleanup_orphaned_references_def Let_def dropped_orphans simp del: set_concat)

section \<open>The index\<close>

text \<open>The index keeps one media file per reference: of two pictures in one conversation the later hides
  the earlier, and when the earlier is released the later is not found either.\<close>

definition two_pictures :: media_store where
  "two_pictures = fold (media_step album (\<lambda>e. None))
     [MeRegister (picture ''x'') ''2026-01-01T10:00:00'',
      MeRegister ((picture ''x'')\<lparr>rq_data := Some ''wxyz''\<rparr>) ''2026-01-01T10:00:01''] no_media"

definition both_remembered :: "media_store \<times> carrier" where
  "both_remembered =
     (case register_reference (hexdigest 3) ''memory'' ''c2c:1'' (two_pictures, \<lparr>ca_providers = [''memory''], ca_index = []\<rparr>) of
        Inl _ \<Rightarrow> (two_pictures, \<lparr>ca_providers = [], ca_index = []\<rparr>)
      | Inr sc \<Rightarrow> (case register_reference (hexdigest 4) ''memory'' ''c2c:1'' sc of Inl _ \<Rightarrow> sc | Inr sc' \<Rightarrow> sc'))"

lemma later_picture_hides_earlier:
  "media_by_reference ''memory'' ''c2c:1'' both_remembered = [hexdigest 4]"
  "has_reference (hexdigest 3) ''memory:c2c:1'' (fst both_remembered)"
  by code_simp+

lemma released_picture_takes_the_other:
  "media_by_reference ''memory'' ''c2c:1'' (release_reference (hexdigest 3) ''memory'' ''c2c:1'' both_remembered) = []"
  "has_reference (hexdigest 4) ''memory:c2c:1'' (fst (release_reference (hexdigest 3) ''memory'' ''c2c:1'' both_remembered))"
  by code_simp+

end
