(* ===== verification/Memory_Store.thy ===== *)
theory Memory_Store
  imports Memory_Codec Media_Carrier
begin

text \<open>
  Conversation memory: the scopes (\<open>memory/scopes\<close>), the manager (\<open>memory/memory_manager.py\<close>) with its
  cache, the file persistence (\<open>memory/persistences/file_persistence.py\<close>) and its queue
  (\<open>memory/persistences/base.py\<close>), and the references to media files that entries hold.

  The queue holds what each save was given. The code shares the list with the cache, so that the worker
  may write an entry that was added since; the save that follows the addition writes it anyway. Writes
  succeed.
\<close>

section \<open>Scopes\<close>

datatype scope = MemberScope | GroupScope | GlobalScope

definition group_text :: "chat_sender \<Rightarrow> string" where
  "group_text s = (case snd_group_id s of None \<Rightarrow> ''None'' | Some g \<Rightarrow> g)"

fun get_scope_key :: "scope \<Rightarrow> chat_sender \<Rightarrow> string" where
  "get_scope_key MemberScope s =
     (if snd_chat_type s = Group then ''member:'' @ group_text s @ CHR '':'' # snd_user_id s
      else ''c2c:'' @ snd_user_id s)"
| "get_scope_key GroupScope s =
     (if snd_chat_type s = Group then ''group:'' @ group_text s else ''c2c:'' @ snd_user_id s)"
| "get_scope_key GlobalScope s = ''global''"

fun is_in_scope :: "scope \<Rightarrow> chat_sender \<Rightarrow> chat_sender \<Rightarrow> bool" where
  "is_in_scope MemberScope t q =
     (snd_chat_type t = snd_chat_type q \<and>
      (if snd_chat_type t = Group then snd_group_id t = snd_group_id q \<and> snd_user_id t = snd_user_id q
       else snd_user_id t = snd_user_id q))"
| "is_in_scope GroupScope t q =
     (snd_chat_type t = snd_chat_type q \<and>
      (if snd_chat_type t = Group then snd_group_id t = snd_group_id q else snd_user_id t = snd_user_id q))"
| "is_in_scope GlobalScope t q = True"

definition scope_key :: "scope \<Rightarrow> chat_sender \<Rightarrow> string option \<Rightarrow> string" where
  "scope_key sc sender extra =
     (case extra of None \<Rightarrow> get_scope_key sc sender | Some x \<Rightarrow> x @ CHR ''-'' # get_scope_key sc sender)"

section \<open>Registries\<close>

text \<open>\<open>Registry\<close> of \<open>memory/registry.py\<close> and its three uses: names to classes; \<open>None\<close> is the error for an
  unknown name.\<close>

definition register_class :: "string \<Rightarrow> 'c \<Rightarrow> (string \<times> 'c) list \<Rightarrow> (string \<times> 'c) list" where
  "register_class name c reg = put_entry fst (name, c) reg"

definition unregister_class :: "string \<Rightarrow> (string \<times> 'c) list \<Rightarrow> (string \<times> 'c) list" where
  "unregister_class name reg = filter (\<lambda>e. fst e \<noteq> name) reg"

definition registered_class :: "string \<Rightarrow> (string \<times> 'c) list \<Rightarrow> 'c option" where
  "registered_class name reg = map_option snd (find_row fst name reg)"

lemma registered_after:
  "registered_class n (register_class name c reg) = (if n = name then Some c else registered_class n reg)"
  "registered_class n (unregister_class name reg) = (if n = name then None else registered_class n reg)"
  by (simp_all add: registered_class_def register_class_def unregister_class_def find_put_entry find_filtered)

section \<open>Files and queue\<close>

record memory_state =
  mm_memories :: "(string \<times> memory_entry list) list"
  mm_queue :: "(string \<times> memory_entry list) list"
  mm_files :: "(string \<times> json) list"
  mm_media :: "media_store \<times> carrier"

definition file_path :: "string \<Rightarrow> string" where
  "file_path key = map (\<lambda>c. if c = CHR '':'' then CHR ''_'' else c) key @ ''.json''"

definition persistence_save :: "string \<times> memory_entry list \<Rightarrow> (string \<times> json) list \<Rightarrow> (string \<times> json) list" where
  "persistence_save = (\<lambda>(key, es). put_entry fst (file_path key, serialize_entries es))"

definition persistence_load :: "string \<Rightarrow> (string \<times> json) list \<Rightarrow> memory_entry list option" where
  "persistence_load key files =
     (case find_row fst (file_path key) files of None \<Rightarrow> Some [] | Some (_, j) \<Rightarrow> deserialize_entries j)"

definition save_later :: "string \<Rightarrow> memory_entry list \<Rightarrow> memory_state \<Rightarrow> memory_state" where
  "save_later key es s = s\<lparr>mm_queue := mm_queue s @ [(key, es)]\<rparr>"

definition worker_step :: "memory_state \<Rightarrow> memory_state" where
  "worker_step s =
     (case mm_queue s of
        [] \<Rightarrow> s | item # rest \<Rightarrow> s\<lparr>mm_queue := rest, mm_files := persistence_save item (mm_files s)\<rparr>)"

section \<open>The manager\<close>

text \<open>Slices with Python's reading of negative positions.\<close>

definition slice_to :: "'a list \<Rightarrow> int \<Rightarrow> 'a list" where
  "slice_to xs i = (if 0 \<le> i then take (nat i) xs else take (length xs - nat (- i)) xs)"

definition slice_from :: "'a list \<Rightarrow> int \<Rightarrow> 'a list" where
  "slice_from xs i = (if 0 \<le> i then drop (nat i) xs else drop (length xs - nat (- i)) xs)"

datatype memory_error = MemoryNotReadable | MemoryMedia media_error

definition set_memories :: "string \<Rightarrow> memory_entry list \<Rightarrow> memory_state \<Rightarrow> memory_state" where
  "set_memories key es s = s\<lparr>mm_memories := put_entry fst (key, es) (mm_memories s)\<rparr>"

text \<open>The cached entries of a key, loaded on first use.\<close>

definition fetch_memories :: "string \<Rightarrow> memory_state \<Rightarrow> (memory_entry list \<times> memory_state) option" where
  "fetch_memories key s =
     (case find_row fst key (mm_memories s) of
        Some (_, es) \<Rightarrow> Some (es, s)
      | None \<Rightarrow> map_option (\<lambda>es. (es, set_memories key es s)) (persistence_load key (mm_files s)))"

fun register_media_references ::
    "string list \<Rightarrow> string \<Rightarrow> media_store \<times> carrier \<Rightarrow> media_error option \<times> media_store \<times> carrier" where
  "register_media_references [] key sc = (None, sc)"
| "register_media_references (m # ms) key sc =
     (case register_reference m ''memory'' key sc of
        Inl err \<Rightarrow> (Some err, sc) | Inr sc' \<Rightarrow> register_media_references ms key sc')"

definition remove_media_references ::
    "memory_entry list \<Rightarrow> memory_entry list \<Rightarrow> string \<Rightarrow> media_store \<times> carrier \<Rightarrow> media_store \<times> carrier" where
  "remove_media_references removed unremoved key =
     fold (\<lambda>m. if m \<in> set (concat (map media_ids unremoved)) then id else release_reference m ''memory'' key)
       (concat (map media_ids removed))"

definition store_memory ::
    "int \<Rightarrow> scope \<Rightarrow> memory_entry \<Rightarrow> string option \<Rightarrow> memory_state \<Rightarrow> memory_error option \<times> memory_state" where
  "store_memory max_entries sc e extra s =
     (let key = scope_key sc (me_sender e) extra in
      case fetch_memories key s of
        None \<Rightarrow> (Some MemoryNotReadable, s)
      | Some (old, s1) \<Rightarrow>
          (let es = old @ [e]; s2 = set_memories key es s1 in
           case register_media_references (media_ids e) key (mm_media s2) of
             (Some err, media) \<Rightarrow> (Some (MemoryMedia err), s2\<lparr>mm_media := media\<rparr>)
           | (None, media) \<Rightarrow>
               (if max_entries < int (length es)
                then (let kept = slice_from es (- max_entries) in
                      (None, save_later key kept (set_memories key kept (s2\<lparr>mm_media :=
                         remove_media_references (slice_to es (- max_entries)) kept key media\<rparr>))))
                else (None, save_later key es (s2\<lparr>mm_media := media\<rparr>)))))"

definition query_memory ::
    "scope \<Rightarrow> chat_sender \<Rightarrow> string option \<Rightarrow> memory_state \<Rightarrow> memory_entry list option \<times> memory_state" where
  "query_memory sc sender extra s =
     (case fetch_memories (scope_key sc sender extra) s of
        None \<Rightarrow> (None, s)
      | Some (es, s1) \<Rightarrow> (Some (sort_key me_time (filter (\<lambda>e. is_in_scope sc (me_sender e) sender) es)), s1))"

definition clear_memory :: "scope \<Rightarrow> chat_sender \<Rightarrow> string option \<Rightarrow> memory_state \<Rightarrow> memory_state" where
  "clear_memory sc sender extra s =
     (let key = scope_key sc sender extra in
      case find_row fst key (mm_memories s) of
        None \<Rightarrow> s
      | Some (_, es) \<Rightarrow>
          save_later key [] (set_memories key []
            (s\<lparr>mm_media := remove_media_references es [] key (mm_media s)\<rparr>)))"

text \<open>\<open>shutdown()\<close> saves what is cached and waits for the worker.\<close>

definition shutdown_memory :: "memory_state \<Rightarrow> memory_state" where
  "shutdown_memory s =
     s\<lparr>mm_queue := [], mm_files := fold persistence_save (mm_queue s @ mm_memories s) (mm_files s)\<rparr>"

definition memory_reference_owner :: "string \<Rightarrow> memory_state \<Rightarrow> (memory_entry list \<times> memory_state) option" where
  "memory_reference_owner key s = fetch_memories key s"

text \<open>The next process: an empty cache, the media files read again and the index rebuilt.\<close>

definition start_memory ::
    "(string \<Rightarrow> string option) \<Rightarrow> (string \<times> (string \<times> json) list) list \<Rightarrow> memory_state \<Rightarrow> memory_state" where
  "start_memory guess listing s =
     s\<lparr>mm_memories := [],
       mm_media := (case mm_media s of (m, c) \<Rightarrow>
         let m' = restart_media guess listing m in (m', build_reference_index m' c))\<rparr>"

section \<open>Histories\<close>

datatype memory_event =
    MmStore scope memory_entry "string option"
  | MmQuery scope chat_sender "string option"
  | MmClear scope chat_sender "string option"
  | MmWork
  | MmRestart "(string \<times> (string \<times> json) list) list"
  | MmMedia media_event

text \<open>\<open>None\<close> is a call that raises.\<close>

fun memory_step ::
    "int \<Rightarrow> media_world \<Rightarrow> (string \<Rightarrow> string option) \<Rightarrow> memory_event \<Rightarrow> memory_state \<Rightarrow> memory_state option" where
  "memory_step mx w guess (MmStore sc e extra) s =
     (case store_memory mx sc e extra s of (None, s') \<Rightarrow> Some s' | _ \<Rightarrow> None)"
| "memory_step mx w guess (MmQuery sc sender extra) s =
     (case query_memory sc sender extra s of (None, _) \<Rightarrow> None | (Some _, s') \<Rightarrow> Some s')"
| "memory_step mx w guess (MmClear sc sender extra) s = Some (clear_memory sc sender extra s)"
| "memory_step mx w guess MmWork s = Some (worker_step s)"
| "memory_step mx w guess (MmRestart listing) s = Some (start_memory guess listing (shutdown_memory s))"
| "memory_step mx w guess (MmMedia me) s =
     Some (s\<lparr>mm_media := (case mm_media s of (m, c) \<Rightarrow> (media_step w guess me m, c))\<rparr>)"

fun memory_run ::
    "int \<Rightarrow> media_world \<Rightarrow> (string \<Rightarrow> string option) \<Rightarrow> memory_event list \<Rightarrow> memory_state \<Rightarrow> memory_state option" where
  "memory_run mx w guess [] s = Some s"
| "memory_run mx w guess (e # es) s = Option.bind (memory_step mx w guess e s) (memory_run mx w guess es)"

fun event_key :: "memory_event \<Rightarrow> string option" where
  "event_key (MmStore sc e extra) = Some (scope_key sc (me_sender e) extra)"
| "event_key (MmQuery sc sender extra) = Some (scope_key sc sender extra)"
| "event_key (MmClear sc sender extra) = Some (scope_key sc sender extra)"
| "event_key _ = None"

fun stored_entries :: "memory_event \<Rightarrow> memory_entry list" where
  "stored_entries (MmStore sc e extra) = [e]"
| "stored_entries _ = []"

end
