(* ===== verification/Memory_History.thy ===== *)
theory Memory_History
  imports Memory_Store
begin

text \<open>
  What conversation memory promises (\<open>memory/memory_manager.py\<close>): a query sees the entries that an
  abstract memory holds - the last ones stored under its key, across restarts - and the media files of
  remembered entries are exactly the referenced ones.
\<close>

section \<open>The abstract memory\<close>

text \<open>The entries of each key, and the keys used since the last start: a clear of another key does
  nothing.\<close>

type_synonym abstract_memory = "(string \<Rightarrow> memory_entry list option) \<times> string set"

definition trim :: "int \<Rightarrow> memory_entry list \<Rightarrow> memory_entry list" where
  "trim mx es = (if mx < int (length es) then slice_from es (- mx) else es)"

fun spec_step :: "int \<Rightarrow> memory_event \<Rightarrow> abstract_memory \<Rightarrow> abstract_memory" where
  "spec_step mx (MmStore sc e extra) (c, used) =
     (let k = scope_key sc (me_sender e) extra
      in (c(k := map_option (\<lambda>es. trim mx (es @ [e])) (c k)), insert k used))"
| "spec_step mx (MmQuery sc sender extra) (c, used) = (c, insert (scope_key sc sender extra) used)"
| "spec_step mx (MmClear sc sender extra) (c, used) =
     (let k = scope_key sc sender extra in (if k \<in> used then c(k := Some []) else c, used))"
| "spec_step mx (MmRestart listing) (c, used) = (c, {})"
| "spec_step mx _ a = a"

section \<open>Contents\<close>

text \<open>What the files hold when the queue is written.\<close>

definition drained :: "memory_state \<Rightarrow> (string \<times> json) list" where
  "drained s = fold persistence_save (mm_queue s) (mm_files s)"

definition contents :: "memory_state \<Rightarrow> string \<Rightarrow> memory_entry list option" where
  "contents s k = persistence_load k (drained s)"

definition used_keys :: "memory_state \<Rightarrow> string set" where
  "used_keys s = fst ` set (mm_memories s)"

definition memory_ok :: "string set \<Rightarrow> memory_state \<Rightarrow> bool" where
  "memory_ok K s =
     ((\<forall>k es. find_row fst k (mm_memories s) = Some (k, es) \<longrightarrow> contents s k = Some es \<and> list_all plain_entry es) \<and>
      distinct (map fst (mm_memories s)) \<and> fst ` set (mm_queue s) \<subseteq> used_keys s \<and> used_keys s \<subseteq> K)"

lemma loaded_saved:
  assumes "list_all plain_entry es" "inj_on file_path K" "key \<in> K" "k \<in> K"
  shows "persistence_load k (persistence_save (key, es) files) = (if k = key then Some es else persistence_load k files)"
  using assms by (auto simp: persistence_load_def persistence_save_def table_simps deserialize_serialize inj_on_def)

lemma not_queued:
  assumes "inj_on file_path K" "fst ` set q \<subseteq> K" "k \<in> K" "k \<notin> fst ` set q"
  shows "persistence_load k (fold persistence_save q files) = persistence_load k files"
  using assms(2,4)
proof (induction q arbitrary: files)
  case (Cons item q)
  obtain key es where item: "item = (key, es)" by (cases item)
  with Cons.prems have "file_path k \<noteq> file_path key"
    using assms(1,3) by (auto simp: inj_on_def)
  then have "persistence_load k (persistence_save item files) = persistence_load k files"
    by (simp add: item persistence_save_def persistence_load_def table_simps)
  with Cons show ?case by simp
qed simp

lemma find_pair: "find_row fst k rows = Some p \<Longrightarrow> \<exists>v. p = (k, v)"
  by (cases p) (auto dest: find_row_SomeD)

lemma used_find: "k \<in> used_keys s \<longleftrightarrow> (\<exists>es. find_row fst k (mm_memories s) = Some (k, es))"
proof
  assume "k \<in> used_keys s"
  then have "find_row fst k (mm_memories s) \<noteq> None" by (simp add: used_keys_def find_row_None)
  then show "\<exists>es. find_row fst k (mm_memories s) = Some (k, es)" using find_pair by fastforce
qed (force simp: used_keys_def dest!: find_row_SomeD)

text \<open>Loading a key reads its contents, and changes none.\<close>

lemma fetched:
  assumes "memory_ok K s" "inj_on file_path K" "k \<in> K" "fetch_memories k s = Some (es, s1)"
  shows "contents s k = Some es" "list_all plain_entry es" "contents s1 = contents s"
    "used_keys s1 = insert k (used_keys s)" "memory_ok K s1" "mm_media s1 = mm_media s"
    "find_row fst k (mm_memories s1) = Some (k, es)" "mm_queue s1 = mm_queue s" "mm_files s1 = mm_files s"
proof -
  have "contents s k = Some es \<and> list_all plain_entry es \<and> contents s1 = contents s \<and>
    used_keys s1 = insert k (used_keys s) \<and> memory_ok K s1 \<and> mm_media s1 = mm_media s \<and>
    find_row fst k (mm_memories s1) = Some (k, es) \<and> mm_queue s1 = mm_queue s \<and> mm_files s1 = mm_files s"
  proof (cases "find_row fst k (mm_memories s)")
    case None
    then have fresh: "k \<notin> used_keys s" by (simp add: used_keys_def find_row_None)
    from None assms(4) have s1: "s1 = set_memories k es s" "persistence_load k (mm_files s) = Some es"
      by (auto simp: fetch_memories_def)
    have keys: "used_keys s1 = insert k (used_keys s)"
      by (simp add: s1 used_keys_def set_memories_def keys_put_entry)
    have same: "contents s1 = contents s" by (simp add: s1 contents_def drained_def set_memories_def fun_eq_iff)
    have "contents s k = Some es"
      using not_queued [OF assms(2), of "mm_queue s" k "mm_files s"] assms(1,3) fresh s1(2)
      by (auto simp: contents_def drained_def memory_ok_def)
    moreover have "list_all plain_entry es"
      using s1(2) by (auto simp: persistence_load_def deserialized_plain split: option.splits)
    ultimately show ?thesis
      using assms(1,3) keys same
      by (auto simp: memory_ok_def s1 set_memories_def table_simps used_keys_def distinct_put_entry split: if_splits)
  next
    case (Some p)
    with assms(4) have s1: "s1 = s" "p = (k, es)" using find_pair [OF Some] by (auto simp: fetch_memories_def)
    with Some assms(1) show ?thesis using used_find [of k s] by (auto simp: memory_ok_def)
  qed
  then show "contents s k = Some es" "list_all plain_entry es" "contents s1 = contents s"
    "used_keys s1 = insert k (used_keys s)" "memory_ok K s1" "mm_media s1 = mm_media s"
    "find_row fst k (mm_memories s1) = Some (k, es)" "mm_queue s1 = mm_queue s" "mm_files s1 = mm_files s" by blast+
qed

text \<open>Replacing the entries of a used key and saving them.\<close>

lemma replaced:
  assumes "memory_ok K s" "inj_on file_path K" "k \<in> used_keys s" "list_all plain_entry es" "mm_memories t = mm_memories s"
    "mm_queue t = mm_queue s" "mm_files t = mm_files s"
  defines "s' \<equiv> save_later k es (set_memories k es t)"
  shows "memory_ok K s'" "j \<in> K \<Longrightarrow> contents s' j = ((contents s)(k := Some es)) j" "used_keys s' = used_keys s"
proof -
  from assms(1,3) have k: "k \<in> K" by (auto simp: memory_ok_def)
  have cont: "contents s' j = ((contents s)(k := Some es)) j" if "j \<in> K" for j
    using loaded_saved [OF assms(4,2) k that] assms(6,7)
    by (simp add: s'_def contents_def drained_def save_later_def set_memories_def)
  have keys: "used_keys s' = used_keys s"
    using assms(3,5) by (auto simp: s'_def used_keys_def save_later_def set_memories_def keys_put_entry)
  have "memory_ok K s'"
    unfolding memory_ok_def
  proof (intro conjI allI impI)
    fix i es'
    assume i: "find_row fst i (mm_memories s') = Some (i, es')"
    then have "i \<in> K" using keys assms(1) used_find [of i s'] by (auto simp: memory_ok_def)
    with i cont [of i] assms(1,4,5)
    show "contents s' i = Some es'" "list_all plain_entry es'"
      by (auto simp: s'_def save_later_def set_memories_def table_simps memory_ok_def split: if_splits)
  next
    from assms(1,3,6) keys show "fst ` set (mm_queue s') \<subseteq> used_keys s'"
      by (auto simp: memory_ok_def s'_def save_later_def set_memories_def)
    from assms(1) keys show "used_keys s' \<subseteq> K" by (simp add: memory_ok_def)
    from assms(1,5) show "distinct (map fst (mm_memories s'))"
      by (simp add: memory_ok_def s'_def save_later_def set_memories_def distinct_put_entry)
  qed
  with cont keys show "memory_ok K s'" "j \<in> K \<Longrightarrow> contents s' j = ((contents s)(k := Some es)) j"
    "used_keys s' = used_keys s" by auto
qed

section \<open>Each call\<close>

lemma trim_subset: "set (trim mx es) \<subseteq> set es"
  by (auto simp: trim_def slice_from_def dest: in_set_dropD)

lemma stored:
  assumes "store_memory mx sc e extra s = (None, s')"
  obtains old s1 media where "fetch_memories (scope_key sc (me_sender e) extra) s = Some (old, s1)"
    "register_media_references (media_ids e) (scope_key sc (me_sender e) extra) (mm_media s1) = (None, media)"
    "s' = save_later (scope_key sc (me_sender e) extra) (trim mx (old @ [e]))
       (set_memories (scope_key sc (me_sender e) extra) (trim mx (old @ [e])) (s1\<lparr>mm_media :=
          (if mx < int (length (old @ [e]))
           then remove_media_references (slice_to (old @ [e]) (- mx)) (trim mx (old @ [e])) (scope_key sc (me_sender e) extra) media
           else media)\<rparr>))"
proof -
  let ?k = "scope_key sc (me_sender e) extra"
  from assms obtain old s1 where f: "fetch_memories ?k s = Some (old, s1)"
    by (auto simp: store_memory_def Let_def split: option.splits)
  from assms f obtain media where r: "register_media_references (media_ids e) ?k (mm_media s1) = (None, media)"
    by (auto simp: store_memory_def Let_def set_memories_def split: option.splits prod.splits)
  show thesis
  proof (rule that [OF f r])
    show "s' = save_later ?k (trim mx (old @ [e])) (set_memories ?k (trim mx (old @ [e])) (s1\<lparr>mm_media :=
        (if mx < int (length (old @ [e]))
         then remove_media_references (slice_to (old @ [e]) (- mx)) (trim mx (old @ [e])) ?k media else media)\<rparr>))"
      using assms f r by (auto simp: store_memory_def Let_def set_memories_def trim_def save_later_def put_entry_twice
          split: if_splits)
  qed
qed

definition agrees :: "string set \<Rightarrow> memory_state \<Rightarrow> abstract_memory \<Rightarrow> bool" where
  "agrees K s a = ((\<forall>k\<in>K. contents s k = fst a k) \<and> snd a = used_keys s)"

lemma resaved:
  assumes "inj_on file_path K" "j \<in> K"
  shows "list_all (\<lambda>(k, es). k \<in> K \<and> list_all plain_entry es \<and> persistence_load k F = Some es) ms \<Longrightarrow>
    \<forall>i\<in>K. persistence_load i G = persistence_load i F \<Longrightarrow>
    persistence_load j (fold persistence_save ms G) = persistence_load j F"
proof (induction ms arbitrary: G)
  case (Cons m ms)
  obtain k es where m: "m = (k, es)" by (cases m)
  with Cons.prems(1) have "k \<in> K" "list_all plain_entry es" "persistence_load k F = Some es" by auto
  with loaded_saved [OF this(2) assms(1) this(1)] Cons.prems(2)
  have "\<forall>i\<in>K. persistence_load i (persistence_save m G) = persistence_load i F" by (simp add: m)
  with Cons show ?case by simp
qed (use assms in simp)

lemma restarted:
  assumes "memory_ok K s" "inj_on file_path K"
  shows "memory_ok K (start_memory guess listing (shutdown_memory s))"
    and "j \<in> K \<Longrightarrow> contents (start_memory guess listing (shutdown_memory s)) j = contents s j"
    and "used_keys (start_memory guess listing (shutdown_memory s)) = {}"
proof -
  have "k \<in> K \<and> list_all plain_entry es \<and> persistence_load k (drained s) = Some es" if m: "(k, es) \<in> set (mm_memories s)" for k es
  proof -
    have "find_row fst k (mm_memories s) = Some (k, es)"
      using find_row_distinct [of fst "mm_memories s", OF _ m] assms(1) by (simp add: memory_ok_def)
    moreover have "k \<in> used_keys s" using m by (force simp: used_keys_def)
    ultimately show ?thesis using assms(1) by (auto simp: memory_ok_def contents_def)
  qed
  then have cached: "list_all (\<lambda>(k, es). k \<in> K \<and> list_all plain_entry es \<and> persistence_load k (drained s) = Some es) (mm_memories s)"
    by (auto simp: list_all_iff)
  show "memory_ok K (start_memory guess listing (shutdown_memory s))"
    "used_keys (start_memory guess listing (shutdown_memory s)) = {}"
    by (simp_all add: memory_ok_def start_memory_def shutdown_memory_def used_keys_def table_simps)
  show "contents (start_memory guess listing (shutdown_memory s)) j = contents s j" if "j \<in> K"
    using resaved [OF assms(2) that cached, of "drained s"]
    by (simp add: contents_def drained_def start_memory_def shutdown_memory_def)
qed

lemma worked: "memory_ok K s \<Longrightarrow> memory_ok K (worker_step s)" "contents (worker_step s) = contents s"
  "used_keys (worker_step s) = used_keys s"
proof -
  show same: "contents (worker_step s) = contents s" "used_keys (worker_step s) = used_keys s"
    by (cases "mm_queue s"; simp add: contents_def drained_def worker_step_def used_keys_def fun_eq_iff)+
  show "memory_ok K s \<Longrightarrow> memory_ok K (worker_step s)"
    unfolding memory_ok_def same
    by (cases "mm_queue s") (auto simp: worker_step_def)
qed

lemma memory_ok_media: "memory_ok K (s\<lparr>mm_media := x\<rparr>) = memory_ok K s" "contents (s\<lparr>mm_media := x\<rparr>) = contents s"
  "used_keys (s\<lparr>mm_media := x\<rparr>) = used_keys s"
  by (simp_all add: memory_ok_def contents_def drained_def used_keys_def fun_eq_iff)

lemma step_refines:
  assumes "memory_ok K s" "inj_on file_path K" "set_option (event_key e) \<subseteq> K" "list_all plain_entry (stored_entries e)"
    and "agrees K s a" "memory_step mx w guess e s = Some s'"
  shows "memory_ok K s' \<and> agrees K s' (spec_step mx e a)"
proof -
  obtain c used where a: "a = (c, used)" by (cases a)
  with assms(5) have c: "\<And>k. k \<in> K \<Longrightarrow> contents s k = c k" "used = used_keys s" by (auto simp: agrees_def)
  show ?thesis
  proof (cases e)
    case (MmStore sc en extra)
    let ?k = "scope_key sc (me_sender en) extra"
    from assms(6) MmStore have "store_memory mx sc en extra s = (None, s')"
      by (auto split: prod.splits option.splits)
    then obtain old s1 media where st: "fetch_memories ?k s = Some (old, s1)" and s': "\<exists>M. s' = save_later ?k (trim mx (old @ [en]))
        (set_memories ?k (trim mx (old @ [en])) (s1\<lparr>mm_media := M\<rparr>))"
      by (rule stored) blast
    from assms(3) MmStore have k: "?k \<in> K" by simp
    note f = fetched [OF assms(1,2) k st]
    have "list_all plain_entry (trim mx (old @ [en]))"
      using f(2) assms(4) MmStore trim_subset [of mx "old @ [en]"] by (auto simp: list_all_iff)
    moreover have "?k \<in> used_keys s1" using f(4) by simp
    ultimately show ?thesis
      using s' replaced [OF f(5) assms(2)] f(1,3,4) c k MmStore a
      by (auto simp: agrees_def Let_def)
  next
    case (MmQuery sc sender extra)
    with assms(6) obtain es where st: "fetch_memories (scope_key sc sender extra) s = Some (es, s')"
      by (auto simp: query_memory_def split: option.splits prod.splits)
    from fetched [OF assms(1,2) _ st] assms(3) MmQuery c a show ?thesis by (auto simp: agrees_def)
  next
    case (MmClear sc sender extra)
    let ?k = "scope_key sc sender extra"
    from assms(6) MmClear have s': "s' = clear_memory sc sender extra s" by simp
    show ?thesis
    proof (cases "?k \<in> used_keys s")
      case False
      then have "s' = s" by (auto simp: s' clear_memory_def Let_def used_keys_def find_row_None [symmetric])
      with assms(1,5) False c a MmClear show ?thesis by (auto simp: Let_def)
    next
      case True
      then obtain es where "find_row fst ?k (mm_memories s) = Some (?k, es)" unfolding used_find by blast
      then have "\<exists>M. s' = save_later ?k [] (set_memories ?k [] (s\<lparr>mm_media := M\<rparr>))"
        by (intro exI [where x = "remove_media_references es [] ?k (mm_media s)"]) (simp add: s' clear_memory_def Let_def)
      with replaced [OF assms(1,2) True, of "[]"] True c a MmClear show ?thesis by (auto simp: agrees_def Let_def)
    qed
  next
    case MmWork
    with assms worked(1) [of K s] worked(2,3) [of s] a show ?thesis by (auto simp: agrees_def)
  next
    case (MmRestart listing)
    with assms(6) restarted [OF assms(1,2), where guess = guess and listing = listing] c a show ?thesis by (auto simp: agrees_def)
  next
    case (MmMedia me)
    with assms a show ?thesis by (auto simp: agrees_def memory_ok_media)
  qed
qed

lemma memory_run_refines:
  assumes "inj_on file_path K"
  shows "memory_ok K s \<Longrightarrow> \<Union> (set (map (set_option \<circ> event_key) es)) \<subseteq> K \<Longrightarrow>
    list_all (\<lambda>e. list_all plain_entry (stored_entries e)) es \<Longrightarrow> agrees K s a \<Longrightarrow>
    memory_run mx w guess es s = Some s' \<Longrightarrow> memory_ok K s' \<and> agrees K s' (fold (spec_step mx) es a)"
proof (induction es arbitrary: s a)
  case (Cons e es)
  then obtain t where t: "memory_step mx w guess e s = Some t" "memory_run mx w guess es t = Some s'"
    by (auto simp: bind_eq_Some_conv)
  with step_refines [OF Cons.prems(1) assms _ _ Cons.prems(4) t(1)] Cons.prems(2,3)
  have "memory_ok K t \<and> agrees K t (spec_step mx e a)" by auto
  with Cons.IH [of t "spec_step mx e a"] Cons.prems(2,3) t(2) show ?case by simp
qed auto

section \<open>Queries\<close>

text \<open>C7. Conversation memory is the last entries stored. In any sequence of stores, queries, clears, writes
  of the queue and restarts in which no call raises, over keys with different files and entries that
  are not mistaken for senders, a query returns what the abstract memory holds for its key - the last
  \<open>max_entries\<close> of the entries stored since it was cleared - restricted to the scope of the sender and in
  the order of time, whatever the files held before.\<close>

theorem query_returns_the_memory:
  assumes "memory_run mx w guess es \<lparr>mm_memories = [], mm_queue = [], mm_files = files, mm_media = media\<rparr> = Some s"
    and "inj_on file_path (insert (scope_key sc sender extra) (\<Union> (set (map (set_option \<circ> event_key) es))))"
    and "list_all (\<lambda>e. list_all plain_entry (stored_entries e)) es"
  shows "fst (query_memory sc sender extra s) =
    map_option (\<lambda>es. sort_key me_time (filter (\<lambda>e. is_in_scope sc (me_sender e) sender) es))
      (fst (fold (spec_step mx) es (\<lambda>k. persistence_load k files, {})) (scope_key sc sender extra))"
proof -
  let ?k = "scope_key sc sender extra" and ?K = "insert (scope_key sc sender extra) (\<Union> (set (map (set_option \<circ> event_key) es)))"
    and ?s = "\<lparr>mm_memories = [], mm_queue = [], mm_files = files, mm_media = media\<rparr>"
  have "memory_ok ?K ?s" "agrees ?K ?s (\<lambda>k. persistence_load k files, {})"
    by (simp_all add: memory_ok_def agrees_def contents_def drained_def used_keys_def table_simps)
  from memory_run_refines [OF assms(2) this(1) _ assms(3) this(2) assms(1)]
  have ok: "memory_ok ?K s" "agrees ?K s (fold (spec_step mx) es (\<lambda>k. persistence_load k files, {}))" by auto
  then have "fst (fold (spec_step mx) es (\<lambda>k. persistence_load k files, {})) ?k = contents s ?k"
    by (simp add: agrees_def)
  moreover have "fst (query_memory sc sender extra s) =
      map_option (\<lambda>es. sort_key me_time (filter (\<lambda>e. is_in_scope sc (me_sender e) sender) es)) (contents s ?k)"
  proof (cases "fetch_memories ?k s")
    case None
    then have "?k \<notin> used_keys s" "persistence_load ?k (mm_files s) = None"
      using used_find [of ?k s] by (auto simp: fetch_memories_def split: option.splits)
    with ok(1) have "fst ` set (mm_queue s) \<subseteq> ?K" "?k \<notin> fst ` set (mm_queue s)"
      unfolding memory_ok_def by blast+
    from not_queued [OF assms(2) this(1) _ this(2)] None \<open>persistence_load ?k (mm_files s) = None\<close> show ?thesis
      by (simp add: contents_def drained_def query_memory_def)
  next
    case (Some p)
    obtain old s1 where p: "p = (old, s1)" by (cases p)
    with fetched(1) [OF ok(1) assms(2) _ Some [unfolded p]] Some show ?thesis by (simp add: query_memory_def)
  qed
  ultimately show ?thesis by simp
qed

definition alice :: chat_sender where
  "alice = \<lparr>snd_display_name = ''Alice'', snd_user_id = ''1'', snd_chat_type = C2C, snd_group_id = None\<rparr>"

definition said :: "string \<Rightarrow> string \<Rightarrow> memory_entry" where
  "said words time = \<lparr>me_sender = alice, me_raw = [], me_content = words, me_time = time, me_metadata = []\<rparr>"

definition empty_memory :: memory_state where
  "empty_memory = \<lparr>mm_memories = [], mm_queue = [], mm_files = [],
     mm_media = (no_media, \<lparr>ca_providers = [''memory''], ca_index = []\<rparr>)\<rparr>"

definition small_talk :: "memory_event list" where
  "small_talk = [MmStore MemberScope (said ''one'' ''2026-01-01T10:00:00'') None,
     MmStore MemberScope (said ''two'' ''2026-01-01T10:00:01'') None, MmRestart [],
     MmStore MemberScope (said ''three'' ''2026-01-01T10:00:02'') None]"

theorem query_returns_the_memory_witness:
  "map_option (\<lambda>s. fst (query_memory MemberScope alice None s)) (memory_run 2 album (\<lambda>e. None) small_talk empty_memory) =
   Some (Some [said ''two'' ''2026-01-01T10:00:01'', said ''three'' ''2026-01-01T10:00:02''])"
proof (cases "memory_run 2 album (\<lambda>e. None) small_talk empty_memory")
  case None
  moreover have "memory_run 2 album (\<lambda>e. None) small_talk empty_memory \<noteq> None" by code_simp
  ultimately show ?thesis by simp
next
  case (Some s)
  have "event_key e \<in> {None, Some ''c2c:1''}" if "e \<in> set small_talk" for e
    using that by (auto simp: small_talk_def said_def alice_def scope_key_def)
  then have "insert (scope_key MemberScope alice None) (\<Union> (set (map (set_option \<circ> event_key) small_talk))) \<subseteq> {''c2c:1''}"
    by (fastforce simp: alice_def scope_key_def)
  then have "inj_on file_path (insert (scope_key MemberScope alice None) (\<Union> (set (map (set_option \<circ> event_key) small_talk))))"
    by (rule inj_on_subset [rotated]) simp
  moreover have "list_all (\<lambda>e. list_all plain_entry (stored_entries e)) small_talk" by code_simp
  moreover have "map_option (\<lambda>es. sort_key me_time (filter (\<lambda>e. is_in_scope MemberScope (me_sender e) alice) es))
      (fst (fold (spec_step 2) small_talk (\<lambda>k. persistence_load k [], {})) (scope_key MemberScope alice None)) =
      Some [said ''two'' ''2026-01-01T10:00:01'', said ''three'' ''2026-01-01T10:00:02'']" by code_simp
  ultimately show ?thesis
    using query_returns_the_memory [OF Some [unfolded empty_memory_def]] Some by simp
qed

end
