(* ===== verification/Memory_Media.thy ===== *)
theory Memory_Media
  imports Memory_History
begin

text \<open>
  Memory and media together: the entries of \<open>memory/memory_manager.py\<close> hold references in the index of
  \<open>media/manager.py\<close> through \<open>media/carrier/service.py\<close>, and nothing else is referenced for them.
\<close>

section \<open>References that a call adds\<close>

definition gives :: "string \<Rightarrow> string \<Rightarrow> media_event \<Rightarrow> media_store \<Rightarrow> bool" where
  "gives mid r e s =
     (case e of
        MeAddReference k r' \<Rightarrow> k = mid \<and> r' = r
      | MeRegister q now \<Rightarrow> rq_reference q = Some r
      | _ \<Rightarrow> (case finishing e s of None \<Rightarrow> False | Some (g, f) \<Rightarrow> rq_reference (rg_request g) = Some r))"

lemma changed_references:
  assumes "change_metadata k f s = Inr s'" "has_reference mid r s'" "\<And>m. md_id (f m) = md_id m"
  obtains "has_reference mid r s" | m where "mid = k" "r \<in> set (md_references (f m)) - set (md_references m)"
proof -
  from assms(1) obtain m where m: "get_metadata k s = Some m" "s' = save_metadata (f m) s"
    by (auto simp: change_metadata_def split: option.splits)
  with assms(2,3) get_metadata_id [OF m(1)] that show thesis
    by (cases "mid = k"; cases "r \<in> set (md_references m)") (auto simp: has_reference_def get_saved)
qed

lemma unchanged_references:
  assumes "change_metadata k f s = Inr s'" "has_reference mid r s'" "\<And>m. md_id (f m) = md_id m"
    "\<And>m. md_references (f m) = md_references m"
  shows "has_reference mid r s"
  by (rule changed_references [OF assms(1-3)]) (auto simp: assms(4))

lemma registered_reference:
  assumes "register_media w q now s = Inr (k, s')" "has_reference mid r s'" "rq_reference q \<noteq> Some r"
  shows "has_reference mid r s"
  using assms(1)
proof (rule registered)
  fix data t f
  assume "s' = save_metadata (make_metadata w q now k data t f) (save_file (file_name k f) data s)"
  with assms(2,3) show ?thesis
    by (cases "mid = k") (auto simp: has_reference_def get_saved make_metadata_def truthy_def split: if_splits)
qed (use assms in simp)

lemma deleted_references: "has_reference mid r (fold delete_media ids s) \<Longrightarrow> has_reference mid r s"
proof (induction ids arbitrary: s)
  case (Cons k ids)
  then have "has_reference mid r (delete_media k s)" by simp
  then show ?case by (cases "mid = k") (auto simp: has_reference_def get_deleted)
qed simp

lemma finished_reference:
  assumes "has_reference mid r (media_step w guess (MeFinish i now) s)" "\<not> gives mid r (MeFinish i now) s"
  shows "has_reference mid r s"
  using assms
  by (auto simp: resume_with_def finish_registration_def gives_def finishing_def has_reference_def get_saved
      make_metadata_def truthy_def split: option.splits registration_stage.splits if_splits)

lemma step_adds_reference:
  assumes "media_ok w X s" "has_reference mid r (media_step w guess e s)" "\<not> gives mid r e s"
  shows "has_reference mid r s"
proof (cases e)
  case (MeRegister q now)
  with assms show ?thesis by (auto simp: gives_def dest: registered_reference split: sum.splits)
next
  case (MeAddReference k r')
  show ?thesis
  proof (cases "add_reference k r' s")
    case (Inr s')
    then have "change_metadata k (\<lambda>m. m\<lparr>md_references :=
        (if r' \<in> set (md_references m) then md_references m else md_references m @ [r'])\<rparr>) s = Inr s'"
      by (simp add: add_reference_def)
    then show ?thesis
      by (rule changed_references [where mid = mid and r = r])
        (use assms(2,3) MeAddReference Inr in \<open>auto simp: or_unchanged_def gives_def split: if_splits\<close>)
  qed (use assms MeAddReference in \<open>simp add: or_unchanged_def\<close>)
next
  case (MeRemoveReference k r')
  with assms show ?thesis by (auto simp: or_unchanged_def removed_reference split: sum.splits)
next
  case (MeDelete k)
  with assms deleted_references [of mid r "[k]" s] show ?thesis by simp
next
  case MeCleanup
  with assms show ?thesis by (auto simp: cleanup_unreferenced_def Let_def dest: deleted_references)
next
  case (MeRestart listing)
  with assms show ?thesis by (auto simp: has_reference_def get_restarted split: option.splits if_splits)
next
  case (MeEnsure k)
  with assms get_ensured [OF assms(1)] show ?thesis by (simp add: has_reference_def)
next
  case (MeFinish i now)
  with assms finished_reference [of mid r w guess i now s] show ?thesis by simp
next
  case (MeFetch q)
  with assms show ?thesis by (simp add: has_reference_def parts_change_no_metadata)
next
  case (MeCheck i)
  with assms show ?thesis by (simp add: has_reference_def parts_change_no_metadata)
next
  case (MeSave i)
  with assms show ?thesis by (simp add: has_reference_def parts_change_no_metadata)
qed (use assms in \<open>auto simp: or_unchanged_def update_metadata_def
    add_tags_def remove_tags_def dest: unchanged_references split: sum.splits\<close>)

section \<open>References of the memory\<close>

text \<open>Events of other components: they neither hold nor drop a reference of the memory, and delete no
  media file by name. A registration that is interleaved with other calls records its metadata only while
  no other registration of its content has, and its file is in place.\<close>

definition memory_reference :: "string \<Rightarrow> bool" where
  "memory_reference r = starts_with ''memory:'' r"

definition foreign :: "string option \<Rightarrow> bool" where
  "foreign v = (case v of None \<Rightarrow> True | Some r \<Rightarrow> \<not> memory_reference r)"

fun keeps_off :: "media_world \<Rightarrow> media_event \<Rightarrow> media_store \<Rightarrow> bool" where
  "keeps_off w (MeRegister q now) s = foreign (rq_reference q)"
| "keeps_off w (MeAddReference mid r) s = (\<not> memory_reference r)"
| "keeps_off w (MeRemoveReference mid r) s = (\<not> memory_reference r)"
| "keeps_off w (MeDelete mid) s = False"
| "keeps_off w (MeFinish i now) s =
     (case finishing (MeFinish i now) s of
        None \<Rightarrow> True
      | Some (g, f) \<Rightarrow> foreign (rq_reference (rg_request g)) \<and> get_metadata (media_id w (rg_data g)) s = None \<and>
          loses w (MeFinish i now) s = [])"
| "keeps_off w _ s = True"

fun others_keep_off :: "media_world \<Rightarrow> memory_event \<Rightarrow> memory_state \<Rightarrow> bool" where
  "others_keep_off w (MmMedia e) s = keeps_off w e (fst (mm_media s))"
| "others_keep_off w _ s = True"

fun undisturbed ::
    "int \<Rightarrow> media_world \<Rightarrow> (string \<Rightarrow> string option) \<Rightarrow> memory_event list \<Rightarrow> memory_state \<Rightarrow> bool" where
  "undisturbed mx w guess [] s = True"
| "undisturbed mx w guess (e # es) s =
     (others_keep_off w e s \<and>
      (case memory_step mx w guess e s of None \<Rightarrow> True | Some t \<Rightarrow> undisturbed mx w guess es t))"

lemma keeps_off_loses: "keeps_off w e s \<Longrightarrow> loses w e s = []"
  by (cases e) (simp_all add: loses_def finishing_def split: option.splits prod.splits)

lemma full_memory_key: "memory_reference (full_key ''memory'' k)"
  by (simp add: memory_reference_def full_key_def)

lemma full_key_inj [simp]: "full_key p k = full_key p k' \<longleftrightarrow> k = k'"
  by (simp add: full_key_def)

lemma others_change_nothing:
  assumes "media_ok w X s" "keeps_off w e s" "memory_reference r"
  shows "has_reference mid r (media_step w guess e s) \<longleftrightarrow> has_reference mid r s"
proof
  have "\<not> gives mid r e s"
    using assms(2,3) by (cases e) (auto simp: gives_def finishing_def foreign_def split: option.splits)
  then show "has_reference mid r (media_step w guess e s) \<Longrightarrow> has_reference mid r s"
    using step_adds_reference [OF assms(1)] by blast
  show "has_reference mid r (media_step w guess e s)" if "has_reference mid r s"
  proof (rule step_keeps_reference [OF assms(1) that])
    show "\<not> takes_away w mid r e s"
      using assms(2,3) that
      by (cases e) (auto simp: takes_away_def finishing_def has_reference_def split: option.splits prod.splits)
  qed
qed

lemma holding:
  assumes "media_ok w {} (fst sc)" "register_reference m p key sc = Inr sc'"
  shows "media_ok w {} (fst sc')"
    "has_reference mid r (fst sc') \<longleftrightarrow> has_reference mid r (fst sc) \<or> (mid, r) = (m, full_key p key)"
proof -
  from assms(2) have a: "add_reference m (full_key p key) (fst sc) = Inr (fst sc')"
    by (auto simp: register_reference_def split: prod.splits sum.splits)
  then have step: "media_step w guess (MeAddReference m (full_key p key)) (fst sc) = fst sc'" for guess
    by (simp add: or_unchanged_def)
  show "media_ok w {} (fst sc')"
    using media_step_ok [OF assms(1), of "MeAddReference m (full_key p key)"] step by (simp add: loses_def finishing_def)
  have "has_reference m (full_key p key) (fst sc')"
  proof (cases "get_metadata m (fst sc)")
    case (Some x)
    from a have "save_metadata (x\<lparr>md_references := (if full_key p key \<in> set (md_references x) then md_references x
        else md_references x @ [full_key p key])\<rparr>) (fst sc) = fst sc'"
      unfolding add_reference_def change_metadata_def Some by simp
    then have "get_metadata m (fst sc') = Some (x\<lparr>md_references := (if full_key p key \<in> set (md_references x)
        then md_references x else md_references x @ [full_key p key])\<rparr>)"
      using get_saved get_metadata_id [OF Some] by (metis metadata.select_convs(1) metadata.surjective metadata.update_convs(9))
    then show ?thesis by (simp add: has_reference_def)
  qed (use a in \<open>simp add: add_reference_def change_metadata_def\<close>)
  moreover have "has_reference mid r (fst sc) \<Longrightarrow> has_reference mid r (fst sc')"
    using step_keeps_reference [OF assms(1), of mid r "MeAddReference m (full_key p key)"] step
    by (simp add: takes_away_def finishing_def)
  moreover have "has_reference mid r (fst sc)" if "has_reference mid r (fst sc')" "(mid, r) \<noteq> (m, full_key p key)"
    using step_adds_reference [OF assms(1), of mid r _ "MeAddReference m (full_key p key)"] step that
    by (auto simp: gives_def finishing_def)
  ultimately show "has_reference mid r (fst sc') \<longleftrightarrow> has_reference mid r (fst sc) \<or> (mid, r) = (m, full_key p key)"
    by blast
qed

lemma releasing:
  assumes "media_ok w {} (fst sc)"
  shows "media_ok w {} (fst (release_reference m p key sc))"
    "has_reference mid r (fst (release_reference m p key sc)) \<longleftrightarrow>
     has_reference mid r (fst sc) \<and> (mid, r) \<noteq> (m, full_key p key)"
proof -
  obtain s c where sc: "sc = (s, c)" by (cases sc)
  show "media_ok w {} (fst (release_reference m p key sc))"
    using assms by (auto simp: sc release_reference_def remove_ok split: sum.split)
  show "has_reference mid r (fst (release_reference m p key sc)) \<longleftrightarrow>
     has_reference mid r (fst sc) \<and> (mid, r) \<noteq> (m, full_key p key)"
    by (cases "remove_reference m (full_key p key) s")
      (auto simp: sc release_reference_def removed_reference dest: removing_unknown)
qed

lemma held:
  "media_ok w {} (fst sc) \<Longrightarrow> register_media_references ms key sc = (None, sc') \<Longrightarrow> media_ok w {} (fst sc') \<and>
     (has_reference mid r (fst sc') \<longleftrightarrow> has_reference mid r (fst sc) \<or> (r = full_key ''memory'' key \<and> mid \<in> set ms))"
proof (induction ms arbitrary: sc)
  case (Cons m ms)
  then obtain t where t: "register_reference m ''memory'' key sc = Inr t" "register_media_references ms key t = (None, sc')"
    by (auto split: sum.splits)
  from holding [OF Cons.prems(1) t(1)] Cons.IH [OF _ t(2)] show ?case by auto
qed simp

lemma released:
  assumes "media_ok w {} (fst sc)"
  shows "media_ok w {} (fst (remove_media_references removed kept key sc)) \<and>
    (has_reference mid r (fst (remove_media_references removed kept key sc)) \<longleftrightarrow>
     has_reference mid r (fst sc) \<and>
     \<not> (r = full_key ''memory'' key \<and> mid \<in> set (concat (map media_ids removed)) \<and>
        mid \<notin> set (concat (map media_ids kept))))"
proof -
  have "media_ok w {} (fst sc) \<Longrightarrow>
      media_ok w {} (fst (fold (\<lambda>m. if m \<in> X then id else release_reference m ''memory'' key) ms sc)) \<and>
      (has_reference mid r (fst (fold (\<lambda>m. if m \<in> X then id else release_reference m ''memory'' key) ms sc)) \<longleftrightarrow>
       has_reference mid r (fst sc) \<and> \<not> (r = full_key ''memory'' key \<and> mid \<in> set ms \<and> mid \<notin> X))" for ms X sc
  proof (induction ms arbitrary: sc)
    case (Cons m ms)
    show ?case
    proof (cases "m \<in> X")
      case True
      with Cons.IH [OF Cons.prems] show ?thesis by auto
    next
      case False
      with Cons.IH [OF releasing(1) [OF Cons.prems]] releasing(2) [OF Cons.prems] show ?thesis by auto
    qed
  qed simp
  from this [OF assms] show ?thesis unfolding remove_media_references_def .
qed

section \<open>Exact references\<close>

definition mentioned :: "memory_state \<Rightarrow> string \<Rightarrow> string \<Rightarrow> bool" where
  "mentioned s k mid =
     (case contents s k of None \<Rightarrow> False | Some es \<Rightarrow> mid \<in> set (concat (map media_ids es)))"

definition references_exact :: "media_world \<Rightarrow> string set \<Rightarrow> memory_state \<Rightarrow> bool" where
  "references_exact w K s =
     (media_ok w {} (fst (mm_media s)) \<and>
      (\<forall>k\<in>K. \<forall>mid. has_reference mid (full_key ''memory'' k) (fst (mm_media s)) \<longleftrightarrow> mentioned s k mid))"

lemma slices_cover: "set (slice_to xs i) \<union> set (slice_from xs i) = set xs"
  by (simp add: slice_to_def slice_from_def flip: set_append)

lemma exact_store:
  assumes "memory_ok K s" "inj_on file_path K" "references_exact w K s" "k \<in> K" "k = scope_key sc (me_sender e) extra"
    and "store_memory mx sc e extra s = (None, s')" "list_all plain_entry [e]"
  shows "references_exact w K s'"
proof -
  obtain old s1 media where st: "fetch_memories k s = Some (old, s1)"
    and reg: "register_media_references (media_ids e) k (mm_media s1) = (None, media)"
    and s': "s' = save_later k (trim mx (old @ [e])) (set_memories k (trim mx (old @ [e])) (s1\<lparr>mm_media :=
      (if mx < int (length (old @ [e])) then remove_media_references (slice_to (old @ [e]) (- mx)) (trim mx (old @ [e])) k media
       else media)\<rparr>))"
    by (rule stored [OF assms(6), folded assms(5)])
  note f = fetched [OF assms(1,2,4) st]
  have plain: "list_all plain_entry (trim mx (old @ [e]))"
    using f(2) assms(7) trim_subset [of mx "old @ [e]"] by (auto simp: list_all_iff)
  have used: "k \<in> used_keys s1" using f(4) by simp
  have cont: "contents s' j = ((contents s)(k := Some (trim mx (old @ [e])))) j" if "j \<in> K" for j
    unfolding s' using replaced(2) [OF f(5) assms(2) used plain _ _ _ that] f(3) by simp
  let ?ids = "\<lambda>es. set (concat (map media_ids es))"
  define removed where "removed = (if mx < int (length (old @ [e])) then slice_to (old @ [e]) (- mx) else [])"
  have cover: "?ids removed \<union> ?ids (trim mx (old @ [e])) = ?ids old \<union> set (media_ids e)"
  proof -
    have "set removed \<union> set (trim mx (old @ [e])) = set (old @ [e])"
      using slices_cover [of "old @ [e]" "- mx"] by (auto simp: removed_def trim_def)
    then have "(\<Union>x\<in>set removed \<union> set (trim mx (old @ [e])). set (media_ids x)) = (\<Union>x\<in>set (old @ [e]). set (media_ids x))"
      by simp
    then show ?thesis by auto
  qed
  have media: "mm_media s' = remove_media_references removed (trim mx (old @ [e])) k media"
    by (simp add: s' save_later_def set_memories_def removed_def remove_media_references_def)
  from assms(3) f(6) have ok: "media_ok w {} (fst (mm_media s1))" by (simp add: references_exact_def)
  note h = held [OF ok reg]
  note r = released [OF conjunct1 [OF h], of removed "trim mx (old @ [e])" k]
  have "has_reference mid (full_key ''memory'' j) (fst (mm_media s')) \<longleftrightarrow> mentioned s' j mid" if j: "j \<in> K" for j mid
  proof (cases "j = k")
    case True
    have "has_reference mid (full_key ''memory'' k) (fst (mm_media s')) \<longleftrightarrow>
        (mentioned s k mid \<or> mid \<in> set (media_ids e)) \<and> \<not> (mid \<in> ?ids removed \<and> mid \<notin> ?ids (trim mx (old @ [e])))"
      using h r assms(3,4) f(6) unfolding media references_exact_def by auto
    also have "\<dots> \<longleftrightarrow> mid \<in> ?ids (trim mx (old @ [e]))"
      using cover f(1) by (auto simp: mentioned_def)
    finally show ?thesis using True cont [OF j] by (simp add: mentioned_def)
  next
    case False
    with h r assms(3) f(6) j cont [OF j] show ?thesis
      unfolding media references_exact_def mentioned_def by auto
  qed
  with h r show ?thesis unfolding references_exact_def media by blast
qed

lemma exact_clear:
  assumes "memory_ok K s" "inj_on file_path K" "references_exact w K s" "scope_key sc sender extra \<in> K"
  shows "references_exact w K (clear_memory sc sender extra s)"
proof (cases "scope_key sc sender extra \<in> used_keys s")
  case False
  then have "clear_memory sc sender extra s = s"
    by (auto simp: clear_memory_def Let_def used_keys_def find_row_None [symmetric])
  with assms(3) show ?thesis by simp
next
  case True
  let ?k = "scope_key sc sender extra"
  from True obtain es where es: "find_row fst ?k (mm_memories s) = Some (?k, es)" unfolding used_find by blast
  with assms(1) have c: "contents s ?k = Some es" by (auto simp: memory_ok_def)
  define s' where "s' = clear_memory sc sender extra s"
  have s': "s' = save_later ?k [] (set_memories ?k [] (s\<lparr>mm_media := remove_media_references es [] ?k (mm_media s)\<rparr>))"
    using es by (simp add: s'_def clear_memory_def Let_def)
  have cont: "contents s' j = ((contents s)(?k := Some [])) j" if "j \<in> K" for j
    unfolding s' using replaced(2) [OF assms(1,2) True, of "[]"] that by simp
  have media: "mm_media s' = remove_media_references es [] ?k (mm_media s)"
    by (simp add: s' save_later_def set_memories_def)
  from assms(3) have "media_ok w {} (fst (mm_media s))" by (simp add: references_exact_def)
  note r = released [OF this, of es "[]" ?k]
  have "has_reference mid (full_key ''memory'' j) (fst (mm_media s')) \<longleftrightarrow> mentioned s' j mid" if j: "j \<in> K" for j mid
    using r [of mid "full_key ''memory'' j"] assms(3) j cont [OF j] c unfolding media references_exact_def mentioned_def
    by (cases "j = ?k") auto
  with r show ?thesis unfolding s'_def [symmetric] references_exact_def media by blast
qed

lemma exact_step:
  assumes "memory_ok K s" "inj_on file_path K" "set_option (event_key e) \<subseteq> K" "list_all plain_entry (stored_entries e)"
    and "others_keep_off w e s" "references_exact w K s" "memory_step mx w guess e s = Some s'"
  shows "references_exact w K s'"
proof (cases e)
  case (MmStore sc en extra)
  with assms show ?thesis
    by (intro exact_store [OF assms(1,2,6), where e = en and sc = sc and extra = extra and mx = mx])
      (auto split: prod.splits option.splits)
next
  case (MmQuery sc sender extra)
  with assms(7) obtain es where st: "fetch_memories (scope_key sc sender extra) s = Some (es, s')"
    by (auto simp: query_memory_def split: option.splits prod.splits)
  from fetched [OF assms(1,2) _ st] assms(3,6) MmQuery show ?thesis by (simp add: references_exact_def mentioned_def)
next
  case (MmClear sc sender extra)
  with assms(7) have "s' = clear_memory sc sender extra s" by simp
  with MmClear assms(3) exact_clear [OF assms(1,2,6)] show ?thesis by simp
next
  case MmWork
  have "mm_media (worker_step s) = mm_media s" by (simp add: worker_step_def split: list.split)
  with MmWork assms(6,7) worked(2) [of s] show ?thesis by (simp add: references_exact_def mentioned_def)
next
  case (MmRestart listing)
  obtain m c where mc: "mm_media s = (m, c)" by (cases "mm_media s")
  define m' where "m' = media_step w guess (MeRestart listing) m"
  have media: "fst (mm_media s') = m'" "s' = start_memory guess listing (shutdown_memory s)"
    using MmRestart assms(7) mc by (auto simp: m'_def start_memory_def shutdown_memory_def Let_def)
  have "media_ok w {} m" using assms(6) mc by (simp add: references_exact_def)
  then have "media_ok w {} m'" "has_reference mid (full_key ''memory'' k) m' \<longleftrightarrow> has_reference mid (full_key ''memory'' k) m" for mid k
    unfolding m'_def
    by (auto intro!: media_step_ok simp: keeps_off_loses others_change_nothing full_memory_key simp del: media_step.simps)
  with media restarted(2) [OF assms(1,2)] assms(6) mc show ?thesis
    by (simp add: references_exact_def mentioned_def)
next
  case (MmMedia me)
  obtain m c where mc: "mm_media s = (m, c)" by (cases "mm_media s")
  have "media_ok w {} m" using assms(6) mc by (simp add: references_exact_def)
  then have "media_ok w {} (media_step w guess me m)"
    "has_reference mid (full_key ''memory'' k) (media_step w guess me m) \<longleftrightarrow> has_reference mid (full_key ''memory'' k) m" for mid k
    using assms(5) MmMedia mc
    by (auto intro!: media_step_ok simp: keeps_off_loses others_change_nothing full_memory_key simp del: media_step.simps)
  moreover have "s' = s\<lparr>mm_media := (media_step w guess me m, c)\<rparr>" using assms(7) MmMedia mc by simp
  ultimately show ?thesis using assms(6) mc by (simp add: references_exact_def mentioned_def memory_ok_media)
qed

lemma exact_run:
  assumes "inj_on file_path K"
  shows "memory_ok K s \<Longrightarrow> references_exact w K s \<Longrightarrow> \<Union> (set (map (set_option \<circ> event_key) es)) \<subseteq> K \<Longrightarrow>
    list_all (\<lambda>e. list_all plain_entry (stored_entries e)) es \<Longrightarrow> undisturbed mx w guess es s \<Longrightarrow>
    memory_run mx w guess es s = Some s' \<Longrightarrow> references_exact w K s'"
proof (induction es arbitrary: s)
  case (Cons e es)
  then obtain t where t: "memory_step mx w guess e s = Some t" "memory_run mx w guess es t = Some s'"
    by (auto simp: bind_eq_Some_conv)
  have "memory_ok K t"
    using step_refines [OF Cons.prems(1) assms _ _ _ t(1), of "(contents s, used_keys s)"] Cons.prems(3,4)
    by (auto simp: agrees_def)
  moreover have "references_exact w K t"
    using exact_step [OF Cons.prems(1) assms _ _ _ Cons.prems(2) t(1)] Cons.prems(3-5) by auto
  ultimately show ?case using Cons.IH [of t] Cons.prems(3-5) t by simp
qed auto

text \<open>C6. Remembered media files are exactly the referenced ones. Start without memory and media, and let
  stores, queries, clears, queue writes and restarts follow in which no call raises, whose keys are
  kept in distinct files and whose entries are written and read back as they are, among events of other
  components that neither use the references of the memory nor delete a media file by name, and whose
  registrations, whole or interleaved, do not record their metadata over those of another registration
  of the same content: then a media file has the reference of a memory key if and only if an entry
  that is remembered under that key mentions it, and the file is in the directory.\<close>

theorem remembered_media_are_referenced:
  assumes "memory_run mx w guess es \<lparr>mm_memories = [], mm_queue = [], mm_files = [], mm_media = (no_media, c)\<rparr> = Some s"
    and "inj_on file_path (insert k (\<Union> (set (map (set_option \<circ> event_key) es))))"
    and "list_all (\<lambda>e. list_all plain_entry (stored_entries e)) es"
    and "undisturbed mx w guess es \<lparr>mm_memories = [], mm_queue = [], mm_files = [], mm_media = (no_media, c)\<rparr>"
  shows "has_reference mid (full_key ''memory'' k) (fst (mm_media s)) = mentioned s k mid \<and>
    (mentioned s k mid \<longrightarrow>
       (\<exists>m. get_metadata mid (fst (mm_media s)) = Some m \<and> file_ok w {} (ms_files (fst (mm_media s))) m))"
proof -
  let ?K = "insert k (\<Union> (set (map (set_option \<circ> event_key) es)))"
    and ?s = "\<lparr>mm_memories = [], mm_queue = [], mm_files = [], mm_media = (no_media, c)\<rparr>"
  have "memory_ok ?K ?s" "references_exact w ?K ?s"
    by (simp_all add: memory_ok_def references_exact_def mentioned_def contents_def drained_def used_keys_def table_simps
        no_media_ok persistence_load_def) (simp add: has_reference_def get_metadata_def no_media_def table_simps)
  from exact_run [OF assms(2) this _ assms(3,4,1)] have ex: "references_exact w ?K s" by auto
  then have ref: "has_reference mid (full_key ''memory'' k) (fst (mm_media s)) = mentioned s k mid"
    by (simp add: references_exact_def)
  moreover have "\<exists>m. get_metadata mid (fst (mm_media s)) = Some m \<and> file_ok w {} (ms_files (fst (mm_media s))) m"
    if "mentioned s k mid"
    using that ref ex media_okD(4) [of w "{}" "fst (mm_media s)" mid]
    by (cases "get_metadata mid (fst (mm_media s))") (auto simp: has_reference_def references_exact_def)
  ultimately show ?thesis by blast
qed

definition photo :: memory_entry where
  "photo = (said ''look'' ''2026-01-01T10:00:05'')\<lparr>me_metadata := [(''_media_ids'', PArr [PStr picture_id])]\<rparr>"

definition shared_picture :: "memory_event list" where
  "shared_picture =
     [MmMedia (MeFetch (picture ''inbox'')), MmMedia (MeCheck 0), MmMedia (MeSave 0), MmMedia MeCleanup,
      MmMedia (MeFinish 0 ''2026-01-01T10:00:04''), MmStore MemberScope photo None,
      MmMedia (MeRemoveReference picture_id ''inbox''), MmMedia MeCleanup, MmWork]"

theorem remembered_media_are_referenced_witness:
  "map_option (\<lambda>s. has_reference picture_id (full_key ''memory'' ''c2c:1'') (fst (mm_media s)))
     (memory_run 9 album (\<lambda>e. None) shared_picture empty_memory) = Some True"
proof (cases "memory_run 9 album (\<lambda>e. None) shared_picture empty_memory")
  case None
  moreover have "memory_run 9 album (\<lambda>e. None) shared_picture empty_memory \<noteq> None" by code_simp
  ultimately show ?thesis by simp
next
  case (Some s)
  have "event_key e \<in> {None, Some ''c2c:1''}" if "e \<in> set shared_picture" for e
    using that by (auto simp: shared_picture_def photo_def said_def alice_def scope_key_def)
  then have "insert ''c2c:1'' (\<Union> (set (map (set_option \<circ> event_key) shared_picture))) \<subseteq> {''c2c:1''}" by fastforce
  then have inj: "inj_on file_path (insert ''c2c:1'' (\<Union> (set (map (set_option \<circ> event_key) shared_picture))))"
    by (rule inj_on_subset [rotated]) simp
  have plain: "list_all (\<lambda>e. list_all plain_entry (stored_entries e)) shared_picture" by code_simp
  have und: "undisturbed 9 album (\<lambda>e. None) shared_picture empty_memory" by code_simp
  have "map_option (\<lambda>s. mentioned s ''c2c:1'' picture_id) (memory_run 9 album (\<lambda>e. None) shared_picture empty_memory) = Some True"
    by code_simp
  with Some have "mentioned s ''c2c:1'' picture_id" by (simp only: option.map option.inject simp_thms)
  with remembered_media_are_referenced [OF Some [unfolded empty_memory_def] inj plain und [unfolded empty_memory_def]]
  have "has_reference picture_id (full_key ''memory'' ''c2c:1'') (fst (mm_media s))" by (simp only: simp_thms)
  with Some show ?thesis by (simp only: option.map option.inject simp_thms)
qed

section \<open>Where the memory falls short\<close>

text \<open>A clear whose key has not been used since the start does nothing: after a restart the first request to
  forget leaves the stored conversation, and the next query returns it.\<close>

lemma clear_after_restart_forgets_nothing:
  "map_option (\<lambda>s. fst (query_memory MemberScope alice None s))
     (memory_run 9 album (\<lambda>e. None) [MmStore MemberScope (said ''secret'' ''2026-01-01T10:00:00'') None, MmRestart [],
        MmClear MemberScope alice None] empty_memory) =
   Some (Some [said ''secret'' ''2026-01-01T10:00:00''])"
  by code_simp

text \<open>The limit 0 keeps everything.\<close>

lemma zero_limit_keeps_everything: "0 < length es \<Longrightarrow> trim 0 es = es"
  by (simp add: trim_def slice_from_def)

text \<open>Colons become underscores in file names, so two conversations can share a file: the second one
  overwrites what the first has written.\<close>

definition groupmate :: "string \<Rightarrow> string \<Rightarrow> chat_sender" where
  "groupmate g u = \<lparr>snd_display_name = u, snd_user_id = u, snd_chat_type = Group, snd_group_id = Some g\<rparr>"

lemma two_conversations_one_file:
  "map_option (\<lambda>s. fst (query_memory MemberScope (groupmate ''a'' ''b_c'') None s))
     (memory_run 9 album (\<lambda>e. None)
        [MmStore MemberScope ((said ''mine'' ''2026-01-01T10:00:00'')\<lparr>me_sender := groupmate ''a'' ''b_c''\<rparr>) None,
         MmStore MemberScope ((said ''other'' ''2026-01-01T10:00:01'')\<lparr>me_sender := groupmate ''a_b'' ''c''\<rparr>) None,
         MmRestart []] empty_memory) = Some (Some [])"
  by code_simp

end
