(* ===== verification/Agent_Identity.thy ===== *)
theory Agent_Identity
  imports Dispatch_Rules
begin

text \<open>
  Who a message comes from: \<open>RuntimePrincipal\<close> of \<open>web/auth/principal.py\<close>, and the canonical
  channel identity \<open>ChannelContext\<close> of \<open>agent_runtime/core.py\<close> with the keys of its session.

  An attribute that is missing or \<open>None\<close> is \<open>None\<close>; every other value is given by its text
  (\<open>str(value)\<close>). SHA-256 is the parameter \<open>digest\<close>.
\<close>

section \<open>Principals\<close>

record principal =
  pr_subject :: string
  pr_role :: string
  pr_scopes :: "string set"
  pr_is_creator :: bool

definition make_principal :: "string \<Rightarrow> string \<Rightarrow> string list \<Rightarrow> bool \<Rightarrow> principal option" where
  "make_principal subject role scopes creator =
     (let s = str_strip subject; r = str_lower (str_strip role) in
      if s = [] \<or> 256 < length s then None
      else Some \<lparr>pr_subject = s, pr_role = (if r = [] then ''user'' else r),
                 pr_scopes = set (filter (\<lambda>x. x \<noteq> []) (map str_strip scopes)), pr_is_creator = creator\<rparr>)"

definition has_scopes :: "string list \<Rightarrow> principal \<Rightarrow> bool" where
  "has_scopes required p =
     (required = [] \<or> ''*'' \<in> pr_scopes p \<or> set required \<subseteq> pr_scopes p)"

text \<open>\<open>secrets.compare_digest\<close> raises on strings with other than ASCII characters.\<close>

definition compare_digest :: "string \<Rightarrow> string \<Rightarrow> bool option" where
  "compare_digest s t =
     (if list_all (\<lambda>c. of_char c < (128 :: nat)) (s @ t) then Some (s = t) else None)"

definition can_control_agent :: "principal option \<Rightarrow> string option \<Rightarrow> bool option" where
  "can_control_agent who owner =
     (case owner of
        None \<Rightarrow> Some False
      | Some x \<Rightarrow>
          if x = [] then Some False
          else (case who of
                  None \<Rightarrow> Some False
                | Some p \<Rightarrow> if pr_is_creator p then compare_digest (pr_subject p) x else Some False))"

text \<open>A creator whose name has other than ASCII characters controls no Agent: the check raises.\<close>

lemma control_check_raises:
  "can_control_agent (make_principal [CHR 0xE9] [] [] True) (Some [CHR 0xE9]) = None"
  by code_simp

section \<open>Identifiers\<close>

definition id_char :: "char \<Rightarrow> bool" where
  "id_char c = (c \<in> set ''abcdefghijklmnopqrstuvwxyzABCDEFGHIJKLMNOPQRSTUVWXYZ0123456789._:@/-'')"

text \<open>Every run of other characters becomes one underscore.\<close>

function squeeze_other :: "string \<Rightarrow> string" where
  "squeeze_other [] = []"
| "squeeze_other (c # s) =
     (if id_char c then c # squeeze_other s
      else CHR ''_'' # squeeze_other (dropWhile (\<lambda>c. \<not> id_char c) s))"
  by pat_completeness auto
termination
  by (relation "measure length") (simp_all add: le_imp_less_Suc length_dropWhile_le)

definition clean_identifier :: "string option \<Rightarrow> string \<Rightarrow> string" where
  "clean_identifier v fallback =
     (case v of
        None \<Rightarrow> fallback
      | Some s \<Rightarrow>
          (let t = str_strip s in
           if t = [] then fallback
           else take 256 (if list_all id_char t then t else squeeze_other t)))"

section \<open>Channel contexts\<close>

record channel_context =
  cc_channel :: string
  cc_adapter :: string
  cc_account :: string
  cc_conversation :: string
  cc_sender :: string

definition make_context :: "string \<Rightarrow> string \<Rightarrow> string \<Rightarrow> string \<Rightarrow> string \<Rightarrow> channel_context" where
  "make_context channel adapter account conversation sender =
     (let clean = (\<lambda>s. clean_identifier (Some s) ''unknown'') in
      \<lparr>cc_channel = clean channel, cc_adapter = clean adapter, cc_account = clean account,
       cc_conversation = clean conversation, cc_sender = clean sender\<rparr>)"

text \<open>What the code reads of an adapter, and of an event: \<open>ev_self_id\<close> is \<open>onebot_self_id\<close> of the
  raw metadata.\<close>

record adapter_view =
  av_channel_type :: "string option"
  av_adapter_type :: "string option"
  av_class_name :: string
  av_instance :: "string option"
  av_name :: "string option"
  av_account_scope :: "string option"
  av_account_id :: "string option"
  av_config :: "(string \<times> string) list"

record event_origin =
  ev_sender :: chat_sender
  ev_self_id :: "string option"

definition first_some :: "string option list \<Rightarrow> string option" where
  "first_some xs = (case List.find (\<lambda>x. x \<noteq> None) xs of Some x \<Rightarrow> x | None \<Rightarrow> None)"

definition remove_suffix :: "string \<Rightarrow> string \<Rightarrow> string" where
  "remove_suffix suffix s =
     (if starts_with (rev suffix) (rev s) then take (length s - length suffix) s else s)"

definition config_account :: "(string \<times> string) list \<Rightarrow> string option" where
  "config_account config =
     first_some (map (\<lambda>f. case map_of config f of
                        Some v \<Rightarrow> if str_strip v = [] then None else Some v
                      | None \<Rightarrow> None)
       [''account_scope'', ''account_id'', ''app_id'', ''corp_id'', ''bot_id'', ''agent_id''])"

definition from_message :: "adapter_view \<Rightarrow> event_origin \<Rightarrow> channel_context" where
  "from_message a e =
     (let channel = str_lower (clean_identifier
            (first_some [av_channel_type a, av_adapter_type a, Some (remove_suffix ''Adapter'' (av_class_name a))])
            ''unknown'');
          adapter = clean_identifier (first_some [av_instance a, av_name a]) ''default'';
          account = clean_identifier
            (first_some [if channel = ''onebot'' then ev_self_id e else None, av_account_scope a,
               av_account_id a, config_account (av_config a), Some adapter]) ''default'';
          sender = clean_identifier (Some (snd_user_id (ev_sender e))) ''unknown-sender'';
          conversation =
            (case snd_chat_type (ev_sender e) of
               Group \<Rightarrow> ''group:'' @ clean_identifier (snd_group_id (ev_sender e)) ''unknown-group''
             | C2C \<Rightarrow> ''c2c:'' @ sender)
      in make_context channel adapter account conversation sender)"

section \<open>Session keys\<close>

text \<open>\<open>quote(component, safe="._:@-")\<close>: the UTF-8 bytes of every other character, in hexadecimal.\<close>

definition hex_digit :: "nat \<Rightarrow> char" where
  "hex_digit n = ''0123456789ABCDEF'' ! n"

definition quote_byte :: "nat \<Rightarrow> string" where
  "quote_byte n = [CHR ''%'', hex_digit (n div 16), hex_digit (n mod 16)]"

definition quote_char :: "char \<Rightarrow> string" where
  "quote_char c =
     (let n = of_char c in
      if (id_char c \<and> c \<noteq> CHR ''/'') \<or> c = CHR ''~'' then [c]
      else if n < (128 :: nat) then quote_byte n
      else quote_byte (192 + n div 64) @ quote_byte (128 + n mod 64))"

definition quote :: "string \<Rightarrow> string" where
  "quote s = concat (map quote_char s)"

fun join_slash :: "string list \<Rightarrow> string" where
  "join_slash [] = []"
| "join_slash [s] = s"
| "join_slash (s # ss) = s @ CHR ''/'' # join_slash ss"

definition session_components :: "channel_context \<Rightarrow> string list" where
  "session_components c = [cc_channel c, cc_adapter c, cc_account c, cc_conversation c, cc_sender c]"

definition session_key :: "channel_context \<Rightarrow> string" where
  "session_key c = join_slash (map quote (session_components c))"

definition legacy_session_key :: "channel_context \<Rightarrow> string" where
  "legacy_session_key c = join_slash (session_components c)"

definition redacted :: "(string \<Rightarrow> string) \<Rightarrow> channel_context \<Rightarrow> (string \<times> string) list" where
  "redacted digest c =
     (let short = (\<lambda>s. take 16 (digest s)) in
      [(''channel_type'', cc_channel c), (''adapter_instance'', short (cc_adapter c)),
       (''account_scope'', short (cc_account c)), (''conversation_scope'', short (cc_conversation c)),
       (''sender_scope'', short (cc_sender c))])"

section \<open>Clean identifiers\<close>

definition is_identifier :: "string \<Rightarrow> bool" where
  "is_identifier s = (s \<noteq> [] \<and> list_all id_char s \<and> length s \<le> 256)"

lemma underscore [simp]: "id_char CHR ''_''"
  by (simp add: id_char_def)

lemma squeezed_chars: "list_all id_char (squeeze_other s)"
  by (induction s rule: squeeze_other.induct) auto

lemma squeezed_nonempty: "s \<noteq> [] \<Longrightarrow> squeeze_other s \<noteq> []"
  by (cases s) auto

lemma cleaned: "is_identifier fallback \<Longrightarrow> is_identifier (clean_identifier v fallback)"
  using squeezed_chars squeezed_nonempty
  by (auto simp: clean_identifier_def is_identifier_def Let_def list_all_iff split: option.split dest: in_set_takeD)

lemma id_char_not_space:
  assumes "id_char c"
  shows "\<not> char_is_space c"
proof
  let ?spaces = "[9, 10, 11, 12, 13, 28, 29, 30, 31, 32, 133, 160] :: nat list"
  have none: "list_all (\<lambda>n. \<not> id_char (char_of n)) ?spaces" by code_simp
  assume "char_is_space c"
  then have "of_char c \<in> set ?spaces" by (simp add: char_is_space_def)
  with none have "\<not> id_char (char_of (of_char c :: nat))"
    unfolding list_all_iff by blast
  with assms show False by simp
qed

lemma drop_none: "\<forall>c\<in>set s. \<not> P c \<Longrightarrow> dropWhile P s = s"
  by (cases s) simp_all

lemma strip_solid: "\<forall>c\<in>set s. \<not> char_is_space c \<Longrightarrow> str_strip s = s"
  by (simp add: str_strip_def drop_none)

lemma clean_stable: "is_identifier s \<Longrightarrow> clean_identifier (Some s) fallback = s"
proof -
  assume s: "is_identifier s"
  then have "str_strip s = s"
    using id_char_not_space by (intro strip_solid) (simp add: is_identifier_def list_all_iff)
  with s show ?thesis by (simp add: clean_identifier_def is_identifier_def)
qed

definition wf_context :: "channel_context \<Rightarrow> bool" where
  "wf_context c = list_all is_identifier (session_components c)"

lemma unknown_identifier: "is_identifier ''unknown''"
  by code_simp

lemma made_context: "wf_context (make_context channel adapter account conversation sender)"
  by (simp add: wf_context_def make_context_def session_components_def Let_def cleaned unknown_identifier)

lemma from_message_wf: "wf_context (from_message a e)"
  by (simp add: from_message_def Let_def made_context)

section \<open>Keys identify sessions\<close>

lemma quote_char_simps:
  "id_char c \<Longrightarrow> quote_char c = (if c = CHR ''/'' then ''%2F'' else [c])"
  by (auto simp: quote_char_def quote_byte_def hex_digit_def Let_def)

lemma quote_identifier_simps:
  "quote [] = []" "id_char c \<Longrightarrow> quote (c # s) = (if c = CHR ''/'' then ''%2F'' else [c]) @ quote s"
  by (simp_all add: quote_def quote_char_simps)

lemma percent [simp]: "\<not> id_char CHR ''%''"
  by (simp add: id_char_def)

lemma quote_inj: "list_all id_char s \<Longrightarrow> list_all id_char t \<Longrightarrow> quote s = quote t \<Longrightarrow> s = t"
proof (induction s arbitrary: t)
  case Nil
  then show ?case by (cases t) (auto simp: quote_identifier_simps split: if_splits)
next
  case (Cons c s)
  then obtain d u where t: "t = d # u"
    by (cases t) (auto simp: quote_identifier_simps split: if_splits)
  with Cons.prems have "c = d \<and> quote s = quote u"
    by (auto simp: quote_identifier_simps split: if_splits)
  with Cons t show ?case by simp
qed

lemma quote_no_slash: "list_all id_char s \<Longrightarrow> CHR ''/'' \<notin> set (quote s)"
  by (induction s) (auto simp: quote_identifier_simps)

lemma quote_plain: "list_all id_char s \<Longrightarrow> CHR ''/'' \<notin> set s \<Longrightarrow> quote s = s"
  by (induction s) (auto simp: quote_identifier_simps)

lemma split_at_slash:
  "CHR ''/'' \<notin> set a \<Longrightarrow> CHR ''/'' \<notin> set b \<Longrightarrow> a @ CHR ''/'' # x = b @ CHR ''/'' # y \<Longrightarrow> a = b \<and> x = y"
proof (induction a arbitrary: b)
  case Nil
  then show ?case by (cases b) auto
next
  case (Cons c a)
  then show ?case by (cases b) auto
qed

lemma join_inj:
  "length ss = length ts \<Longrightarrow> \<forall>s\<in>set ss. CHR ''/'' \<notin> set s \<Longrightarrow> \<forall>t\<in>set ts. CHR ''/'' \<notin> set t \<Longrightarrow>
     join_slash ss = join_slash ts \<Longrightarrow> ss = ts"
proof (induction ss ts rule: list_induct2)
  case (Cons s ss t ts)
  then show ?case
    by (cases ss; cases ts) (auto dest: split_at_slash)
qed simp

lemma components_eq: "session_components c = session_components d \<longleftrightarrow> c = d"
  by (cases c; cases d) (simp add: session_components_def)

lemma map_quote_inj:
  "list_all (list_all id_char) ss \<Longrightarrow> list_all (list_all id_char) ts \<Longrightarrow> map quote ss = map quote ts \<Longrightarrow> ss = ts"
proof (induction ss arbitrary: ts)
  case (Cons s ss)
  then obtain t us where ts: "ts = t # us" by (cases ts) auto
  from Cons.prems quote_inj [of s t] have "s = t" by (simp add: ts)
  moreover from Cons.prems have "ss = us" by (intro Cons.IH) (simp_all add: ts)
  ultimately show ?case by (simp add: ts)
qed simp

lemma wf_chars: "wf_context c \<Longrightarrow> list_all (list_all id_char) (session_components c)"
  unfolding wf_context_def by (erule list.pred_mono_strong) (simp add: is_identifier_def)

lemma session_key_inj:
  assumes "wf_context c" "wf_context d" "session_key c = session_key d"
  shows "c = d"
proof -
  have ids: "list_all id_char s" if "s \<in> set (session_components c) \<union> set (session_components d)" for s
    using that assms(1,2) by (auto simp: wf_context_def list_all_iff is_identifier_def)
  have "map quote (session_components c) = map quote (session_components d)"
    using assms(3) quote_no_slash ids unfolding session_key_def
    by (intro join_inj) (auto simp: session_components_def)
  then have "session_components c = session_components d"
    by (rule map_quote_inj [OF wf_chars [OF assms(1)] wf_chars [OF assms(2)]])
  then show ?thesis by (simp add: components_eq)
qed

text \<open>A key in the old format with a slash inside a component has too many slashes to be a key of
  the new format.\<close>

definition slashes :: "string \<Rightarrow> nat" where
  "slashes s = length (filter (\<lambda>c. c = CHR ''/'') s)"

lemma slashes_append [simp]: "slashes (s @ t) = slashes s + slashes t"
  "slashes (c # s) = (if c = CHR ''/'' then Suc (slashes s) else slashes s)" "slashes [] = 0"
  by (simp_all add: slashes_def)

lemma slashes_zero: "slashes s = 0 \<longleftrightarrow> CHR ''/'' \<notin> set s"
  by (auto simp: slashes_def filter_empty_conv)

lemma slashes_join: "ss \<noteq> [] \<Longrightarrow> slashes (join_slash ss) = sum_list (map slashes ss) + (length ss - 1)"
  by (induction ss rule: join_slash.induct) auto

lemma legacy_key_is_session_key:
  assumes "wf_context c" "wf_context d" "legacy_session_key d = session_key c"
  shows "c = d"
proof -
  have ids: "list_all id_char s" if "s \<in> set (session_components c) \<union> set (session_components d)" for s
    using that assms(1,2) by (auto simp: wf_context_def list_all_iff is_identifier_def)
  have "slashes (session_key c) = 4"
  proof -
    have "map slashes (map quote (session_components c)) = [0, 0, 0, 0, 0]"
      using quote_no_slash ids by (simp add: session_components_def slashes_zero)
    then show ?thesis
      unfolding session_key_def by (subst slashes_join) (simp_all add: session_components_def)
  qed
  then have "slashes (legacy_session_key d) = 4" by (simp add: assms(3))
  then have "sum_list (map slashes (session_components d)) = 0"
    unfolding legacy_session_key_def by (simp add: slashes_join session_components_def)
  then have "\<forall>s\<in>set (session_components d). CHR ''/'' \<notin> set s"
    by (simp add: session_components_def slashes_zero)
  then have "map quote (session_components d) = session_components d"
    using quote_plain ids by (simp add: map_idI)
  then have "session_key d = legacy_session_key d"
    by (simp add: session_key_def legacy_session_key_def)
  with session_key_inj [OF assms(1,2)] assms(3) show ?thesis by simp
qed

text \<open>Identifiers that differ only in characters outside the pattern become the same
  identifier.\<close>

lemma distinct_users_one_identifier:
  "clean_identifier (Some [CHR 0xE9]) ''unknown-sender'' = ''_''"
  "clean_identifier (Some [CHR 0xE8, CHR 0xFC]) ''unknown-sender'' = ''_''"
  by code_simp+

end
