(* ===== verification/Agent_Policy.thy ===== *)
theory Agent_Policy
  imports Agent_Identity
begin

text \<open>
  Which tools an Agent may call: \<open>effective_mcp_allowlist\<close>, \<open>resolve_mcp_tool_allowlist\<close> and
  \<open>SessionPolicy\<close> of \<open>agent_runtime/core.py\<close>. A refusal carries its label and the names that
  would expand the permissions.
\<close>

section \<open>Names\<close>

definition as_tuple :: "string list \<Rightarrow> string list" where
  "as_tuple vs = filter (\<lambda>s. s \<noteq> []) (map str_strip vs)"

definition as_frozenset :: "string list \<Rightarrow> string set" where
  "as_frozenset vs = set (as_tuple vs)"

type_synonym 'a policy_result = "(string \<times> string set) + 'a"

section \<open>Lists of tool names\<close>

definition narrow ::
    "string set \<Rightarrow> string \<Rightarrow> string list option \<Rightarrow> string set policy_result \<Rightarrow> string set policy_result" where
  "narrow agent label values r =
     (case (values, r) of
        (Some vs, Inr effective) \<Rightarrow>
          (let candidate = as_frozenset vs in
           if candidate \<subseteq> agent then Inr (effective \<inter> candidate)
           else Inl (label, candidate - agent))
      | _ \<Rightarrow> r)"

definition effective_mcp_allowlist ::
    "string list \<Rightarrow> string list option \<Rightarrow> string list option \<Rightarrow> string list option \<Rightarrow>
     string set policy_result" where
  "effective_mcp_allowlist agent session workflow connected_tools =
     (let allowed = as_frozenset agent in
      case narrow allowed ''workflow'' workflow (narrow allowed ''session'' session (Inr allowed)) of
        Inl e \<Rightarrow> Inl e
      | Inr effective \<Rightarrow>
          Inr (case connected_tools of None \<Rightarrow> effective | Some vs \<Rightarrow> effective \<inter> as_frozenset vs))"

record session_policy =
  sp_agent_allowlist :: "string set"
  sp_allowlist :: "string set"
  sp_max_iterations :: int

datatype policy_error = NegativeIterations | Expands string "string set"

definition from_allowlists ::
    "string list \<Rightarrow> string list option \<Rightarrow> string list option \<Rightarrow> string list option \<Rightarrow> int \<Rightarrow>
     policy_error + session_policy" where
  "from_allowlists agent session workflow connected_tools iterations =
     (if iterations < 0 then Inl NegativeIterations
      else case effective_mcp_allowlist agent session workflow connected_tools of
             Inl (label, extra) \<Rightarrow> Inl (Expands label extra)
           | Inr allowed \<Rightarrow> Inr \<lparr>sp_agent_allowlist = as_frozenset agent, sp_allowlist = allowed,
                                  sp_max_iterations = iterations\<rparr>)"

section \<open>Tools of the connected servers\<close>

text \<open>An entry of the tool cache: its server, its own name and the name its description gives.\<close>

record tool_entry =
  te_server :: string
  te_original :: string
  te_info_name :: string

type_synonym identities = "(string \<times> string \<times> string) list"

definition original_name :: "string \<Rightarrow> tool_entry \<Rightarrow> string" where
  "original_name cache_name e =
     str_strip (if te_original e \<noteq> [] then te_original e
                else if te_info_name e \<noteq> [] then te_info_name e else cache_name)"

definition tool_identities :: "string set option \<Rightarrow> (string \<times> tool_entry) list \<Rightarrow> identities" where
  "tool_identities bound entries =
     foldl (\<lambda>ids (cache_name, e).
       let server = str_strip (te_server e); name = original_name cache_name e in
       if server = [] \<or> (case bound of None \<Rightarrow> False | Some b \<Rightarrow> server \<notin> b) \<or> name = [] then ids
       else AList.update (str_strip cache_name) (server, name) ids) [] entries"

definition canonical :: "string \<Rightarrow> string \<Rightarrow> string" where
  "canonical server name = server @ ''.'' @ name"

text \<open>A canonical name that one tool has, else a name that one tool has as its own name or in the
  cache.\<close>

definition the_one :: "string list \<Rightarrow> string option" where
  "the_one xs = (case remdups xs of [x] \<Rightarrow> Some x | _ \<Rightarrow> None)"

definition resolve_token :: "identities \<Rightarrow> string \<Rightarrow> string option" where
  "resolve_token ids token =
     (case the_one (map fst (filter (\<lambda>(_, server, name). canonical server name = token) ids)) of
        Some n \<Rightarrow> Some n
      | None \<Rightarrow>
          the_one (map fst (filter (\<lambda>(_, _, name). name = token) ids) @
                   (if map_of ids token \<noteq> None then [token] else [])))"

definition resolve_names :: "identities \<Rightarrow> string set \<Rightarrow> string set" where
  "resolve_names ids tokens = {n. \<exists>t\<in>tokens. resolve_token ids t = Some n}"

lemma resolve_names_code [code]:
  "resolve_names ids tokens = (\<Union>t\<in>tokens. set_option (resolve_token ids t))"
  by (auto simp: resolve_names_def)

definition narrow_resolved ::
    "identities \<Rightarrow> string set \<Rightarrow> string \<Rightarrow> string list option \<Rightarrow> string set policy_result \<Rightarrow>
     string set policy_result" where
  "narrow_resolved ids raw_agent label values r =
     (case (values, r) of
        (Some vs, Inr effective) \<Rightarrow>
          (let raw = as_frozenset vs; agent = resolve_names ids raw_agent;
               candidate = resolve_names ids raw;
               extra = (if \<not> candidate \<subseteq> agent then (raw - raw_agent) \<union> (candidate - agent)
                        else Set.filter (\<lambda>t. \<not> resolve_names ids {t} \<subseteq> agent \<or> resolve_names ids {t} = {})
                               (raw - raw_agent))
           in if extra \<noteq> {} then Inl (label, extra) else Inr (effective \<inter> candidate))
      | _ \<Rightarrow> r)"

definition resolve_mcp_tool_allowlist ::
    "string list \<Rightarrow> (string \<times> tool_entry) list \<Rightarrow> string list option \<Rightarrow> string list option \<Rightarrow>
     string list option \<Rightarrow> string set policy_result" where
  "resolve_mcp_tool_allowlist agent entries servers session workflow =
     (let ids = tool_identities (map_option as_frozenset servers) entries;
          raw_agent = as_frozenset agent
      in narrow_resolved ids raw_agent ''workflow'' workflow
           (narrow_resolved ids raw_agent ''session'' session (Inr (resolve_names ids raw_agent))))"

section \<open>Permissions only narrow\<close>

lemma the_one_Some: "the_one xs = Some x \<Longrightarrow> set xs = {x}"
proof -
  assume "the_one xs = Some x"
  then have "remdups xs = [x]" by (auto simp: the_one_def split: list.splits)
  then show "set xs = {x}" by (metis empty_set list.simps(15) set_remdups)
qed

lemma set_update_subset: "set (AList.update k v xs) \<subseteq> insert (k, v) (set xs)"
  by (induction xs) auto

lemma identities_sound:
  "(n, server, name) \<in> set (tool_identities bound entries) \<Longrightarrow>
     (case bound of None \<Rightarrow> True | Some b \<Rightarrow> server \<in> b) \<and>
     (\<exists>(c, e)\<in>set entries. n = str_strip c \<and> server = str_strip (te_server e) \<and> name = original_name c e)"
  unfolding tool_identities_def
proof (induction entries rule: rev_induct)
  case (snoc x entries)
  obtain c e where x: "x = (c, e)" by (cases x)
  from snoc show ?case
    by (auto simp: x Let_def split: if_splits option.splits dest!: subsetD [OF set_update_subset])
qed simp

lemma distinct_fst_sort [simp]: "distinct (map fst (sort_key fst m)) \<longleftrightarrow> distinct (map fst m)"
  by (simp add: distinct_map)

lemma lookup_sorted: "distinct (map fst m) \<Longrightarrow> map_of (sort_key fst m) = map_of m"
  by (simp add: map_of_inject_set)

text \<open>How a token names a tool.\<close>

definition names_tool :: "identities \<Rightarrow> string \<Rightarrow> string \<Rightarrow> bool" where
  "names_tool ids token n =
     (\<exists>server name. (n, server, name) \<in> set ids \<and> token \<in> {canonical server name, name, n})"

lemma the_one_member: "the_one (map fst (filter P ids)) = Some n \<Longrightarrow> \<exists>x. (n, x) \<in> set ids \<and> P (n, x)"
proof -
  assume "the_one (map fst (filter P ids)) = Some n"
  then have "n \<in> fst ` set (filter P ids)" using the_one_Some by fastforce
  then show ?thesis by force
qed

lemma resolved_named: "resolve_token ids token = Some n \<Longrightarrow> names_tool ids token n"
proof (cases "the_one (map fst (filter (\<lambda>(_, server, name). canonical server name = token) ids))")
  case (Some m)
  assume "resolve_token ids token = Some n"
  with Some have "m = n" by (simp add: resolve_token_def)
  with the_one_member [OF Some] show ?thesis by (auto simp: names_tool_def)
next
  case None
  let ?own = "map fst (filter (\<lambda>(_, _, name). name = token) ids)"
  assume "resolve_token ids token = Some n"
  with None have "set (?own @ (if map_of ids token \<noteq> None then [token] else [])) = {n}"
    by (intro the_one_Some) (simp add: resolve_token_def)
  then have "n \<in> set ?own \<or> map_of ids token \<noteq> None \<and> n = token"
    by (auto split: if_splits)
  then show ?thesis
  proof
    assume "n \<in> set ?own"
    then obtain server where "(n, server, token) \<in> set ids" by auto
    then show ?thesis unfolding names_tool_def by blast
  next
    assume cached: "map_of ids token \<noteq> None \<and> n = token"
    then obtain server name where "map_of ids token = Some (server, name)" by auto
    with cached show ?thesis by (auto simp: names_tool_def dest: map_of_SomeD)
  qed
qed

lemma narrow_cases:
  assumes "narrow_resolved ids raw_agent label values r = Inr e"
  obtains "values = None" "r = Inr e"
  | vs e0 where "values = Some vs" "r = Inr e0" "e = e0 \<inter> resolve_names ids (as_frozenset vs)"
      "resolve_names ids (as_frozenset vs) \<subseteq> resolve_names ids raw_agent"
proof (cases "values")
  case None
  with assms that(1) show thesis by (simp add: narrow_resolved_def)
next
  case (Some vs)
  with assms obtain e0 where r: "r = Inr e0" by (cases r) (auto simp: narrow_resolved_def)
  let ?raw = "as_frozenset vs"
  have "resolve_names ids ?raw \<subseteq> resolve_names ids raw_agent"
  proof (rule ccontr)
    assume wider: "\<not> resolve_names ids ?raw \<subseteq> resolve_names ids raw_agent"
    then have "resolve_names ids ?raw - resolve_names ids raw_agent \<noteq> {}" by blast
    with assms Some r wider show False by (auto simp: narrow_resolved_def Let_def split: if_splits)
  qed
  moreover from assms Some r have "e = e0 \<inter> resolve_names ids ?raw"
    by (auto simp: narrow_resolved_def Let_def split: if_splits)
  ultimately show thesis using that(2) Some r by blast
qed

lemma granted_tools:
  assumes "resolve_mcp_tool_allowlist agent entries servers session workflow = Inr granted"
    and ids: "ids = tool_identities (map_option as_frozenset servers) entries"
  shows "granted = resolve_names ids (as_frozenset agent) \<inter>
    (case session of None \<Rightarrow> UNIV | Some vs \<Rightarrow> resolve_names ids (as_frozenset vs)) \<inter>
    (case workflow of None \<Rightarrow> UNIV | Some vs \<Rightarrow> resolve_names ids (as_frozenset vs))"
proof -
  let ?start = "Inr (resolve_names ids (as_frozenset agent)) :: string set policy_result"
  let ?one = "narrow_resolved ids (as_frozenset agent) ''session'' session ?start"
  from assms have "narrow_resolved ids (as_frozenset agent) ''workflow'' workflow ?one = Inr granted"
    by (simp add: resolve_mcp_tool_allowlist_def Let_def)
  then obtain e where one: "?one = Inr e"
    and two: "granted = e \<inter> (case workflow of None \<Rightarrow> UNIV | Some vs \<Rightarrow> resolve_names ids (as_frozenset vs))"
    by (rule narrow_cases) auto
  from one have "e = resolve_names ids (as_frozenset agent) \<inter>
      (case session of None \<Rightarrow> UNIV | Some vs \<Rightarrow> resolve_names ids (as_frozenset vs))"
    by (rule narrow_cases) auto
  with two show ?thesis by blast
qed

text \<open>C15. Tool permissions only narrow. Whatever the lists of an Agent, of its session and of its
  workflow say, every tool that is granted belongs to a server the Agent is bound to and is
  named by the list of the Agent and by each of the narrower lists that was given: by its
  canonical name, by its own name or by its name in the cache.\<close>

theorem granted_tools_are_named:
  assumes "resolve_mcp_tool_allowlist agent entries servers session workflow = Inr granted"
    and "n \<in> granted"
  shows "let ids = tool_identities (map_option as_frozenset servers) entries;
             named = (\<lambda>vs. \<exists>token\<in>as_frozenset vs. names_tool ids token n)
         in (\<exists>server name c e. (n, server, name) \<in> set ids \<and> (c, e) \<in> set entries \<and>
               server = str_strip (te_server e) \<and> name = original_name c e \<and>
               (case servers of None \<Rightarrow> True | Some b \<Rightarrow> server \<in> as_frozenset b)) \<and>
            named agent \<and>
            (case session of None \<Rightarrow> True | Some vs \<Rightarrow> named vs) \<and>
            (case workflow of None \<Rightarrow> True | Some vs \<Rightarrow> named vs)"
proof -
  let ?ids = "tool_identities (map_option as_frozenset servers) entries"
  have named: "\<exists>token\<in>as_frozenset vs. names_tool ?ids token n"
    if "n \<in> resolve_names ?ids (as_frozenset vs)" for vs
    using that resolved_named by (auto simp: resolve_names_def)
  from granted_tools [OF assms(1) refl] assms(2)
  have n: "n \<in> resolve_names ?ids (as_frozenset agent)"
    "case session of None \<Rightarrow> True | Some vs \<Rightarrow> n \<in> resolve_names ?ids (as_frozenset vs)"
    "case workflow of None \<Rightarrow> True | Some vs \<Rightarrow> n \<in> resolve_names ?ids (as_frozenset vs)"
    by (auto split: option.splits)
  from named [OF n(1)] obtain server name where "(n, server, name) \<in> set ?ids"
    by (auto simp: names_tool_def)
  with identities_sound [OF this] named n show ?thesis
    by (fastforce simp: Let_def split: option.splits)
qed

definition pilot_tools :: "(string \<times> tool_entry) list" where
  "pilot_tools =
     [(''read'', \<lparr>te_server = ''notes'', te_original = ''read'', te_info_name = []\<rparr>),
      (''mail_read'', \<lparr>te_server = ''mail'', te_original = ''read'', te_info_name = []\<rparr>),
      (''send'', \<lparr>te_server = ''mail'', te_original = [], te_info_name = ''send''\<rparr>)]"

definition pilot_grant :: "string set policy_result" where
  "pilot_grant =
     resolve_mcp_tool_allowlist [''notes.read'', ''send''] pilot_tools (Some [''notes'', ''mail''])
       (Some ['' notes.read'']) None"

theorem granted_tools_are_named_witness:
  "pilot_grant = Inr {''read''} \<and>
   (\<exists>token. token \<in> as_frozenset ['' notes.read''] \<and>
      names_tool (tool_identities (Some (as_frozenset [''notes'', ''mail''])) pilot_tools) token ''read'')"
proof -
  have "(case pilot_grant of Inr g \<Rightarrow> g = {''read''} | Inl _ \<Rightarrow> False)" by code_simp
  then have granted: "pilot_grant = Inr {''read''}" by (auto split: sum.splits)
  from granted_tools_are_named [OF this [unfolded pilot_grant_def], of "''read''"] granted show ?thesis
    by (auto simp: Let_def)
qed

end
