(* ===== verification/Agent_Definition.thy ===== *)
theory Agent_Definition
  imports Agent_Policy
begin

text \<open>
  Resource bindings and Agent definitions: the dataclasses \<open>ResourceBinding\<close> and
  \<open>AgentDefinition\<close> of \<open>agent_runtime/core.py\<close>, with the checks and the cleaning of their
  constructors. \<open>dataclasses.replace\<close> runs the constructor again.
\<close>

section \<open>Resource bindings\<close>

record resource_binding =
  rb_id :: string
  rb_type :: string
  rb_version :: string
  rb_sha256 :: string
  rb_enabled :: bool
  rb_permissions :: "string list"
  rb_source :: string
  rb_policy :: string

definition resource_types :: "string list" where
  "resource_types = [''prompt'', ''skill'', ''memory'', ''mcp'', ''hook'']"

definition is_sha256 :: "string \<Rightarrow> bool" where
  "is_sha256 s = (length s = 64 \<and> list_all (\<lambda>c. c \<in> set ''0123456789abcdef'') s)"

definition make_binding :: "resource_binding \<Rightarrow> resource_binding option" where
  "make_binding b =
     (let kind = str_lower (str_strip (rb_type b)); version = str_strip (rb_version b);
          sha = str_lower (str_strip (rb_sha256 b)); policy = str_lower (str_strip (rb_policy b))
      in if kind \<notin> set resource_types \<or> \<not> is_sha256 sha \<or> policy \<notin> {''fixed'', ''current''} then None
         else Some \<lparr>rb_id = clean_identifier (Some (rb_id b)) ''unknown-resource'', rb_type = kind,
                    rb_version = (if version = [] then ''unversioned'' else version), rb_sha256 = sha,
                    rb_enabled = rb_enabled b, rb_permissions = as_tuple (rb_permissions b),
                    rb_source = clean_identifier (Some (rb_source b)) ''local'', rb_policy = policy\<rparr>)"

section \<open>Agent definitions\<close>

record agent_definition =
  ag_id :: string
  ag_owner :: "string option"
  ag_display_name :: "string option"
  ag_enabled :: bool
  ag_workflow :: "string option"
  ag_models :: "string list"
  ag_providers :: "string set"
  ag_capabilities :: "string set"
  ag_prompts :: "resource_binding list"
  ag_skills :: "resource_binding list"
  ag_memories :: "resource_binding list"
  ag_mcps :: "resource_binding list"
  ag_hooks :: "resource_binding list"
  ag_mcp_allowlist :: "string set"
  ag_allow_tools :: bool
  ag_max_iterations :: int
  ag_teammates :: "string list"
  ag_stream_mode :: string

datatype agent_error =
    OwnerInvalid
  | NoModelCandidate
  | IterationsNegative
  | StreamModeUnknown
  | TeammateIsSelf
  | BindingOfWrongType string

definition stream_modes :: "string list" where
  "stream_modes = [''off'', ''aggregate'', ''incremental'', ''inherit'']"

definition clean_owner :: "string option \<Rightarrow> string option option" where
  "clean_owner owner =
     (case owner of
        None \<Rightarrow> Some None
      | Some s \<Rightarrow> (let t = str_strip s in if t = [] \<or> 256 < length t then None else Some (Some t)))"

definition clean_set :: "string set \<Rightarrow> string set" where
  "clean_set S = Set.filter (\<lambda>s. s \<noteq> []) (str_strip ` S)"

fun clean_teammates :: "string \<Rightarrow> string list \<Rightarrow> string list \<Rightarrow> string list option" where
  "clean_teammates me acc [] = Some acc"
| "clean_teammates me acc (c # cs) =
     (let name = str_strip c in
      if name = [] \<or> name \<in> set acc then clean_teammates me acc cs
      else if name = me then None
      else clean_teammates me (acc @ [name]) cs)"

definition binding_fields :: "agent_definition \<Rightarrow> (string \<times> resource_binding list) list" where
  "binding_fields a =
     [(''prompt'', ag_prompts a), (''skill'', ag_skills a), (''memory'', ag_memories a),
      (''mcp'', ag_mcps a), (''hook'', ag_hooks a)]"

definition wrong_type :: "string \<times> resource_binding list \<Rightarrow> bool" where
  "wrong_type f = list_ex (\<lambda>b. rb_type b \<noteq> fst f) (snd f)"

definition post_init :: "agent_definition \<Rightarrow> agent_error + agent_definition" where
  "post_init a =
     (let me = clean_identifier (Some (ag_id a)) ''agent'' in
      case clean_owner (ag_owner a) of
        None \<Rightarrow> Inl OwnerInvalid
      | Some owner \<Rightarrow>
          if ag_models a = [] then Inl NoModelCandidate
          else if ag_max_iterations a < 0 then Inl IterationsNegative
          else if ag_stream_mode a \<notin> set stream_modes then Inl StreamModeUnknown
          else case clean_teammates me [] (ag_teammates a) of
                 None \<Rightarrow> Inl TeammateIsSelf
               | Some teammates \<Rightarrow>
                   (case List.find wrong_type (binding_fields a) of
                      Some f \<Rightarrow> Inl (BindingOfWrongType (fst f))
                    | None \<Rightarrow>
                        Inr (a\<lparr>ag_id := me, ag_owner := owner, ag_models := as_tuple (ag_models a),
                               ag_providers := clean_set (ag_providers a),
                               ag_capabilities := clean_set (ag_capabilities a),
                               ag_mcp_allowlist := clean_set (ag_mcp_allowlist a),
                               ag_teammates := teammates\<rparr>)))"

definition resource_bindings :: "agent_definition \<Rightarrow> resource_binding list" where
  "resource_bindings a = ag_prompts a @ ag_skills a @ ag_memories a @ ag_mcps a @ ag_hooks a"

section \<open>Delegation to teammates\<close>

text \<open>A delegation tool is its name, the label of the teammate and its id; the rest of its
  description is fixed.\<close>

definition delegation_tool :: "string \<Rightarrow> agent_definition \<Rightarrow> string \<times> string \<times> string" where
  "delegation_tool teammate d =
     (''delegate_to_'' @ teammate,
      (case ag_display_name d of Some s \<Rightarrow> if s = [] then teammate else s | None \<Rightarrow> teammate), teammate)"

definition build_teammate_tools ::
    "agent_definition \<Rightarrow> (string \<Rightarrow> agent_definition option) \<Rightarrow> int \<Rightarrow> (string \<times> string \<times> string) list" where
  "build_teammate_tools a registered depth =
     (if depth \<le> 0 then []
      else List.map_filter (\<lambda>t. case registered t of
              Some d \<Rightarrow> if ag_enabled d then Some (delegation_tool t d) else None
            | None \<Rightarrow> None) (ag_teammates a))"

section \<open>Constructed values\<close>

text \<open>What the constructors leave, so that constructing a value again changes nothing.\<close>

definition solid :: "string \<Rightarrow> bool" where
  "solid s = (s \<noteq> [] \<and> str_strip s = s)"

definition wf_binding :: "resource_binding \<Rightarrow> bool" where
  "wf_binding b =
     (is_identifier (rb_id b) \<and> rb_type b \<in> set resource_types \<and> solid (rb_version b) \<and>
      is_sha256 (rb_sha256 b) \<and> list_all solid (rb_permissions b) \<and> is_identifier (rb_source b) \<and>
      rb_policy b \<in> {''fixed'', ''current''})"

definition wf_agent :: "agent_definition \<Rightarrow> bool" where
  "wf_agent a =
     (is_identifier (ag_id a) \<and>
      (case ag_owner a of None \<Rightarrow> True | Some s \<Rightarrow> solid s \<and> length s \<le> 256) \<and>
      list_all solid (ag_models a) \<and> 0 \<le> ag_max_iterations a \<and> ag_stream_mode a \<in> set stream_modes \<and>
      (\<forall>s\<in>ag_providers a \<union> ag_capabilities a \<union> ag_mcp_allowlist a. solid s) \<and>
      list_all solid (ag_teammates a) \<and> distinct (ag_teammates a) \<and> ag_id a \<notin> set (ag_teammates a) \<and>
      list_all (\<lambda>f. \<not> wrong_type f) (binding_fields a))"

lemma dropWhile_idem: "dropWhile P (dropWhile P xs) = dropWhile P xs"
  by (induction xs) auto

lemma dropWhile_rev_idem:
  "dropWhile P xs = xs \<Longrightarrow> dropWhile P (rev (dropWhile P (rev xs))) = rev (dropWhile P (rev xs))"
proof -
  assume xs: "dropWhile P xs = xs"
  show ?thesis
  proof (cases "rev (dropWhile P (rev xs))")
    case (Cons y ys)
    have "xs = rev (dropWhile P (rev xs)) @ rev (takeWhile P (rev xs))"
      by (metis rev_append rev_rev_ident takeWhile_dropWhile_id)
    with Cons have "hd xs = y" "xs \<noteq> []" by (metis append_Cons list.sel(1), metis append_is_Nil_conv list.distinct(1))
    with xs have "\<not> P y" by (metis hd_dropWhile)
    with Cons show ?thesis by simp
  next
    case Nil
    then show ?thesis by (metis dropWhile.simps(1))
  qed
qed

lemma strip_strip [simp]: "str_strip (str_strip s) = str_strip s"
proof -
  let ?t = "dropWhile char_is_space s"
  have "dropWhile char_is_space (str_strip s) = str_strip s"
    unfolding str_strip_def by (rule dropWhile_rev_idem) (rule dropWhile_idem)
  then show ?thesis
    by (subst str_strip_def) (simp add: str_strip_def dropWhile_idem)
qed

lemma solid_strip [simp]: "str_strip s \<noteq> [] \<Longrightarrow> solid (str_strip s)"
  by (simp add: solid_def)

lemma as_tuple_solid: "list_all solid (as_tuple vs)"
  by (auto simp: as_tuple_def list_all_iff)

lemma as_tuple_stable: "list_all solid vs \<Longrightarrow> as_tuple vs = vs"
  by (induction vs) (auto simp: as_tuple_def solid_def)

lemma clean_set_solid: "s \<in> clean_set S \<Longrightarrow> solid s"
  by (auto simp: clean_set_def)

lemma clean_set_stable: "\<forall>s\<in>S. solid s \<Longrightarrow> clean_set S = S"
  by (force simp: clean_set_def solid_def)

lemma clean_set_tuple: "clean_set (set vs) = as_frozenset vs"
  by (auto simp: clean_set_def as_frozenset_def as_tuple_def)

lemma teammates_clean:
  "clean_teammates me acc cs = Some ts \<Longrightarrow> list_all solid acc \<Longrightarrow> distinct acc \<Longrightarrow> me \<notin> set acc \<Longrightarrow>
     list_all solid ts \<and> distinct ts \<and> me \<notin> set ts"
  by (induction me acc cs rule: clean_teammates.induct) (auto simp: Let_def split: if_splits)

lemma teammates_stable:
  "list_all solid ts \<Longrightarrow> distinct (acc @ ts) \<Longrightarrow> me \<notin> set ts \<Longrightarrow> clean_teammates me acc ts = Some (acc @ ts)"
  by (induction ts arbitrary: acc) (auto simp: solid_def)

lemma resource_types_lower: "t \<in> set resource_types \<Longrightarrow> str_lower (str_strip t) = t"
proof -
  have "list_all (\<lambda>t. str_lower (str_strip t) = t) resource_types" by code_simp
  then show "t \<in> set resource_types \<Longrightarrow> ?thesis" by (simp only: list_all_iff)
qed

lemma policies_lower: "p \<in> {''fixed'', ''current''} \<Longrightarrow> str_lower (str_strip p) = p"
proof -
  have "list_all (\<lambda>t. str_lower (str_strip t) = t) [''fixed'', ''current'']" by code_simp
  then show "p \<in> {''fixed'', ''current''} \<Longrightarrow> ?thesis" by (auto simp only: list_all_iff list.set)
qed

lemma hex_char: "c \<in> set ''0123456789abcdef'' \<Longrightarrow> \<not> char_is_space c \<and> char_lower c = c"
proof -
  have "list_all (\<lambda>c. \<not> char_is_space c \<and> char_lower c = c) ''0123456789abcdef''" by code_simp
  then show "c \<in> set ''0123456789abcdef'' \<Longrightarrow> ?thesis" unfolding list_all_iff by blast
qed

lemma sha_lower: "is_sha256 s \<Longrightarrow> str_lower (str_strip s) = s"
proof -
  assume "is_sha256 s"
  then have chars: "\<forall>c\<in>set s. \<not> char_is_space c \<and> char_lower c = c"
    unfolding is_sha256_def list_all_iff using hex_char by blast
  then have "str_strip s = s" by (intro strip_solid) blast
  with chars show ?thesis by (simp add: str_lower_def map_idI)
qed

lemma fallbacks:
  "is_identifier ''unknown-resource''" "is_identifier ''local''" "is_identifier ''agent''"
  "is_identifier ''default''" "solid ''unversioned''"
  by code_simp+

lemma make_binding_wf: "make_binding b = Some b' \<Longrightarrow> wf_binding b'"
  by (auto simp: make_binding_def wf_binding_def Let_def cleaned fallbacks as_tuple_solid split: if_splits)

lemma make_binding_stable: "wf_binding b \<Longrightarrow> make_binding b = Some b"
  using resource_types_lower [of "rb_type b"] sha_lower [of "rb_sha256 b"] policies_lower [of "rb_policy b"]
  by (auto simp: make_binding_def wf_binding_def Let_def clean_stable as_tuple_stable solid_def)

lemma binding_fields_only:
  "binding_fields (a\<lparr>ag_id := i, ag_owner := ow, ag_models := m, ag_providers := p, ag_capabilities := c,
     ag_mcp_allowlist := l, ag_teammates := t\<rparr>) = binding_fields a"
  by (simp add: binding_fields_def)

lemma no_wrong_type: "List.find P xs = None \<Longrightarrow> list_all (\<lambda>x. \<not> P x) xs"
  by (simp add: find_None_iff list_all_iff)

lemma constructed: "post_init raw = Inr a \<Longrightarrow> wf_agent a"
  by (auto simp: post_init_def wf_agent_def Let_def clean_owner_def binding_fields_only cleaned fallbacks
      as_tuple_solid clean_set_solid dest: teammates_clean no_wrong_type
      split: if_splits option.splits)

lemma construct_again:
  assumes "wf_agent a" "ag_models a \<noteq> []"
  shows "post_init a = Inr a"
proof -
  have "clean_owner (ag_owner a) = Some (ag_owner a)"
    using assms by (auto simp: wf_agent_def clean_owner_def solid_def split: option.splits)
  moreover have "List.find wrong_type (binding_fields a) = None"
    using assms by (simp add: wf_agent_def find_None_iff list_all_iff)
  ultimately show ?thesis
    using assms by (simp add: post_init_def wf_agent_def clean_stable teammates_stable as_tuple_stable
        clean_set_stable ball_Un)
qed

lemma construct_again_without_model: "ag_models a = [] \<Longrightarrow> post_init a \<noteq> Inr b"
  by (auto simp: post_init_def Let_def split: option.splits if_splits)

text \<open>A constructed definition may have no model: blank candidates pass the check, and are
  cleaned away after it.\<close>

definition blank_model_agent :: agent_definition where
  "blank_model_agent =
     \<lparr>ag_id = ''sales'', ag_owner = None, ag_display_name = None, ag_enabled = True, ag_workflow = None,
      ag_models = ['' ''], ag_providers = {}, ag_capabilities = {}, ag_prompts = [], ag_skills = [],
      ag_memories = [], ag_mcps = [], ag_hooks = [], ag_mcp_allowlist = {}, ag_allow_tools = True,
      ag_max_iterations = 8, ag_teammates = [], ag_stream_mode = ''inherit''\<rparr>"

lemma blank_model_constructed: "post_init blank_model_agent = Inr (blank_model_agent\<lparr>ag_models := []\<rparr>)"
  by code_simp

end
