(* ===== verification/Agent_Registry.thy ===== *)
theory Agent_Registry
  imports Agent_Definition "HOL-Library.Product_Lexorder"
begin

text \<open>
  \<open>AgentRegistry\<close> of \<open>agent_runtime/core.py\<close>: Agent definitions with their channel, account and
  session bindings. A mutator computes the next state from the captured one; \<open>_commit\<close> checks its
  references, writes it and then applies it. A dictionary is the list of its items.

  The Agents that a caller passes in are constructed definitions. The principal of the request
  (\<open>get_runtime_principal\<close>) is an argument of the operations that read it.
\<close>

section \<open>States\<close>

type_synonym account_key = "string \<times> string \<times> string"

record agent_state =
  as_agents :: "(string \<times> agent_definition) list"
  as_channels :: "(string \<times> string) list"
  as_accounts :: "(account_key \<times> string) list"
  as_sessions :: "(string \<times> string) list"
  as_default :: "string option"

datatype agent_fault =
    AgentUnknown string
  | AgentDisabled string
  | AgentExists string
  | AgentInUse string
  | ChannelUnsupported string
  | SessionEmpty
  | OwnerNotPermitted
  | OwnerChange
  | OwnerNotComparable
  | DefinitionRejected agent_error
  | ReferencesUnknown
  | RegistryNotWritten

definition empty_agents :: agent_state where
  "empty_agents = \<lparr>as_agents = [], as_channels = [], as_accounts = [], as_sessions = [], as_default = None\<rparr>"

definition channel_types :: "string list" where
  "channel_types = [''webui'', ''http'', ''onebot'', ''qqbot'', ''telegram'', ''wecom'']"

definition channel_key :: "string \<Rightarrow> string" where
  "channel_key channel = str_lower (clean_identifier (Some channel) ''unknown'')"

definition normalize_channel :: "string \<Rightarrow> agent_fault + string" where
  "normalize_channel channel =
     (let c = channel_key channel in
      if c \<in> set channel_types then Inr c else Inl (ChannelUnsupported c))"

definition account_key :: "string \<Rightarrow> string \<Rightarrow> string \<Rightarrow> account_key" where
  "account_key channel adapter account =
     (channel, clean_identifier (Some adapter) ''default'', clean_identifier (Some account) ''default'')"

definition require_enabled :: "string \<Rightarrow> agent_state \<Rightarrow> agent_fault + agent_definition" where
  "require_enabled i st =
     (case map_of (as_agents st) i of
        None \<Rightarrow> Inl (AgentUnknown i)
      | Some a \<Rightarrow> if ag_enabled a then Inr a else Inl (AgentDisabled i))"

text \<open>The first failure of a sequence of checks ends the operation.\<close>

definition and_then :: "'e + 'a \<Rightarrow> ('a \<Rightarrow> 'e + 'b) \<Rightarrow> 'e + 'b" where
  "and_then r f = (case r of Inl e \<Rightarrow> Inl e | Inr x \<Rightarrow> f x)"

fun all_ok :: "('a \<Rightarrow> 'e + 'b) \<Rightarrow> 'a list \<Rightarrow> 'e + 'b list" where
  "all_ok f [] = Inr []"
| "all_ok f (x # xs) = and_then (f x) (\<lambda>y. and_then (all_ok f xs) (\<lambda>ys. Inr (y # ys)))"

lemma and_then_Inr [simp]: "and_then r f = Inr y \<longleftrightarrow> (\<exists>x. r = Inr x \<and> f x = Inr y)"
  by (cases r) (auto simp: and_then_def)

section \<open>Owners\<close>

definition bind_creation_owner ::
    "principal option \<Rightarrow> agent_definition \<Rightarrow> agent_fault + agent_definition" where
  "bind_creation_owner who a =
     (case ag_owner a of
        None \<Rightarrow>
          (case who of
             Some p \<Rightarrow>
               if pr_is_creator p
               then (case post_init (a\<lparr>ag_owner := Some (pr_subject p)\<rparr>) of
                       Inl e \<Rightarrow> Inl (DefinitionRejected e) | Inr b \<Rightarrow> Inr b)
               else Inr a
           | None \<Rightarrow> Inr a)
      | Some x \<Rightarrow>
          (case who of
             Some p \<Rightarrow>
               if \<not> pr_is_creator p then Inl OwnerNotPermitted
               else (case compare_digest (pr_subject p) x of
                       None \<Rightarrow> Inl OwnerNotComparable
                     | Some same \<Rightarrow> if same then Inr a else Inl OwnerNotPermitted)
           | None \<Rightarrow> Inl OwnerNotPermitted))"

definition preserve_owner :: "agent_definition \<Rightarrow> agent_definition \<Rightarrow> agent_fault + agent_definition" where
  "preserve_owner current replacement =
     (case (ag_owner current, ag_owner replacement) of
        (None, None) \<Rightarrow> Inr replacement
      | (None, Some _) \<Rightarrow> Inl OwnerChange
      | (Some x, None) \<Rightarrow>
          (case post_init (replacement\<lparr>ag_owner := Some x\<rparr>) of
             Inl e \<Rightarrow> Inl (DefinitionRejected e) | Inr b \<Rightarrow> Inr b)
      | (Some x, Some y) \<Rightarrow>
          (case compare_digest x y of
             None \<Rightarrow> Inl OwnerNotComparable
           | Some same \<Rightarrow> if same then Inr replacement else Inl OwnerChange))"

section \<open>Operations\<close>

definition put_agent :: "agent_definition \<Rightarrow> agent_state \<Rightarrow> agent_state" where
  "put_agent a st = st\<lparr>as_agents := AList.update (ag_id a) a (as_agents st)\<rparr>"

definition enable_agent :: "string \<Rightarrow> bool \<Rightarrow> agent_state \<Rightarrow> agent_fault + agent_state" where
  "enable_agent i enabled st =
     (case map_of (as_agents st) i of
        None \<Rightarrow> Inl (AgentUnknown i)
      | Some a \<Rightarrow>
          if \<not> enabled \<and> as_default st = Some i then Inl (AgentInUse i)
          else case post_init (a\<lparr>ag_enabled := enabled\<rparr>) of
                 Inl e \<Rightarrow> Inl (DefinitionRejected e)
               | Inr b \<Rightarrow> Inr (st\<lparr>as_agents := AList.update i b (as_agents st)\<rparr>))"

definition register_agent ::
    "principal option \<Rightarrow> agent_definition \<Rightarrow> agent_state \<Rightarrow> agent_fault + agent_state" where
  "register_agent who a st =
     (if map_of (as_agents st) (ag_id a) \<noteq> None then Inl (AgentExists (ag_id a))
      else and_then (bind_creation_owner who a) (\<lambda>b.
        let new = put_agent b st in
        Inr (if as_default st = None \<and> ag_id b = ''default'' then new\<lparr>as_default := Some (ag_id b)\<rparr> else new)))"

definition update_agent :: "agent_definition \<Rightarrow> agent_state \<Rightarrow> agent_fault + agent_state" where
  "update_agent a st =
     (case map_of (as_agents st) (ag_id a) of
        None \<Rightarrow> Inl (AgentUnknown (ag_id a))
      | Some current \<Rightarrow> and_then (preserve_owner current a) (\<lambda>b. Inr (put_agent b st)))"

definition remove_agent :: "string \<Rightarrow> agent_state \<Rightarrow> agent_fault + agent_state option" where
  "remove_agent i st =
     (if map_of (as_agents st) i = None then Inr None
      else if as_default st = Some i \<or> i \<in> snd ` set (as_channels st) \<or> i \<in> snd ` set (as_accounts st) \<or>
              i \<in> snd ` set (as_sessions st)
      then Inl (AgentInUse i)
      else Inr (Some (st\<lparr>as_agents := AList.delete i (as_agents st)\<rparr>)))"

definition default_agent :: "string \<Rightarrow> agent_state \<Rightarrow> agent_fault + agent_state" where
  "default_agent i st = and_then (require_enabled i st) (\<lambda>_. Inr (st\<lparr>as_default := Some i\<rparr>))"

definition before_slash :: "string \<Rightarrow> string" where
  "before_slash s = takeWhile (\<lambda>c. c \<noteq> CHR ''/'') s"

definition bind_all :: "'k list \<Rightarrow> string \<Rightarrow> ('k \<times> string) list \<Rightarrow> ('k \<times> string) list" where
  "bind_all ks i m = foldl (\<lambda>m k. AList.update k i m) (filter (\<lambda>(_, v). v \<noteq> i) m) ks"

definition relations ::
    "string list \<Rightarrow> account_key list \<Rightarrow> string list \<Rightarrow>
     agent_fault + (string list \<times> account_key list \<times> string list)" where
  "relations channels accounts sessions =
     and_then (all_ok normalize_channel channels) (\<lambda>cs.
     and_then (all_ok (\<lambda>(c, adapter, account).
         and_then (normalize_channel c) (\<lambda>c. Inr (account_key c adapter account))) accounts) (\<lambda>acs.
     let ss = map str_strip sessions in
     if [] \<in> set ss then Inl SessionEmpty
     else and_then (all_ok (normalize_channel \<circ> before_slash) ss) (\<lambda>_. Inr (cs, acs, ss))))"

definition configure_agent ::
    "principal option \<Rightarrow> agent_definition \<Rightarrow> string list \<Rightarrow> account_key list \<Rightarrow> string list \<Rightarrow> bool \<Rightarrow> bool \<Rightarrow>
     agent_state \<Rightarrow> agent_fault + agent_state" where
  "configure_agent who a channels accounts sessions is_default create st =
     (let i = ag_id a in
      and_then
        (case map_of (as_agents st) i of
           Some current \<Rightarrow> if create then Inl (AgentExists i) else preserve_owner current a
         | None \<Rightarrow> if create then bind_creation_owner who a else Inl (AgentUnknown i)) (\<lambda>b.
      and_then (relations channels accounts sessions) (\<lambda>(cs, acs, ss).
        if \<not> ag_enabled b \<and> (is_default \<or> cs \<noteq> [] \<or> acs \<noteq> [] \<or> ss \<noteq> []) then Inl (AgentDisabled i)
        else Inr \<lparr>as_agents = AList.update i b (as_agents st),
                  as_channels = bind_all cs i (as_channels st),
                  as_accounts = bind_all acs i (as_accounts st),
                  as_sessions = bind_all ss i (as_sessions st),
                  as_default = (if is_default then Some i
                                else if as_default st = Some i then None else as_default st)\<rparr>)))"

definition bind_channel :: "string \<Rightarrow> string \<Rightarrow> agent_state \<Rightarrow> agent_fault + agent_state" where
  "bind_channel channel i st =
     and_then (require_enabled i st) (\<lambda>_. and_then (normalize_channel channel) (\<lambda>c.
       Inr (st\<lparr>as_channels := AList.update c i (as_channels st)\<rparr>)))"

definition unbind_channel :: "string \<Rightarrow> agent_state \<Rightarrow> agent_state" where
  "unbind_channel channel st = st\<lparr>as_channels := AList.delete (channel_key channel) (as_channels st)\<rparr>"

definition bind_account :: "string \<Rightarrow> string \<Rightarrow> string \<Rightarrow> string \<Rightarrow> agent_state \<Rightarrow> agent_fault + agent_state" where
  "bind_account channel adapter account i st =
     and_then (require_enabled i st) (\<lambda>_. and_then (normalize_channel channel) (\<lambda>c.
       Inr (st\<lparr>as_accounts := AList.update (account_key c adapter account) i (as_accounts st)\<rparr>)))"

definition unbind_account :: "string \<Rightarrow> string \<Rightarrow> string \<Rightarrow> agent_state \<Rightarrow> agent_state" where
  "unbind_account channel adapter account st =
     st\<lparr>as_accounts := AList.delete (account_key (channel_key channel) adapter account) (as_accounts st)\<rparr>"

datatype session_ref = SessionText string | SessionOf channel_context

definition bind_session :: "session_ref \<Rightarrow> string \<Rightarrow> agent_state \<Rightarrow> agent_fault + agent_state" where
  "bind_session ref i st =
     and_then (require_enabled i st) (\<lambda>_.
       let key = (case ref of SessionText s \<Rightarrow> s | SessionOf c \<Rightarrow> session_key c) in
       and_then (normalize_channel (before_slash key)) (\<lambda>_.
         Inr (st\<lparr>as_sessions := AList.update key i (as_sessions st)\<rparr>)))"

definition unbind_session :: "session_ref \<Rightarrow> agent_state \<Rightarrow> agent_state" where
  "unbind_session ref st =
     st\<lparr>as_sessions :=
       (case ref of
          SessionText s \<Rightarrow> AList.delete s (as_sessions st)
        | SessionOf c \<Rightarrow> AList.delete (legacy_session_key c) (AList.delete (session_key c) (as_sessions st)))\<rparr>"

record resource_update =
  ru_prompts :: "resource_binding list"
  ru_skills :: "resource_binding list"
  ru_mcps :: "resource_binding list"
  ru_memories :: "resource_binding list option"
  ru_hooks :: "resource_binding list option"
  ru_mcp_allowlist :: "string list option"

definition update_resource_bindings ::
    "string \<Rightarrow> resource_update \<Rightarrow> agent_state \<Rightarrow> agent_fault + agent_state" where
  "update_resource_bindings i u st =
     (case map_of (as_agents st) i of
        None \<Rightarrow> Inl (AgentUnknown i)
      | Some a \<Rightarrow>
          (case post_init (a\<lparr>ag_prompts := ru_prompts u, ag_skills := ru_skills u,
                   ag_memories := (case ru_memories u of None \<Rightarrow> ag_memories a | Some bs \<Rightarrow> bs),
                   ag_mcps := ru_mcps u,
                   ag_hooks := (case ru_hooks u of None \<Rightarrow> ag_hooks a | Some bs \<Rightarrow> bs),
                   ag_mcp_allowlist := (case ru_mcp_allowlist u of None \<Rightarrow> ag_mcp_allowlist a | Some l \<Rightarrow> set l)\<rparr>) of
             Inl e \<Rightarrow> Inl (DefinitionRejected e)
           | Inr b \<Rightarrow> Inr (st\<lparr>as_agents := AList.update i b (as_agents st)\<rparr>)))"

section \<open>Queries\<close>

definition list_agents :: "agent_state \<Rightarrow> agent_definition list" where
  "list_agents st = map snd (sort_key fst (as_agents st))"

definition resolve_agent ::
    "channel_context \<Rightarrow> string option \<Rightarrow> agent_state \<Rightarrow> agent_fault option + agent_definition" where
  "resolve_agent c session_agent st =
     (let persisted = (case map_of (as_sessions st) (session_key c) of
                         Some i \<Rightarrow> Some i
                       | None \<Rightarrow> map_of (as_sessions st) (legacy_session_key c))
      in case first_some [session_agent, persisted,
                map_of (as_accounts st) (cc_channel c, cc_adapter c, cc_account c),
                map_of (as_channels st) (cc_channel c), as_default st] of
           None \<Rightarrow> Inl None
         | Some i \<Rightarrow> (case require_enabled i st of Inl e \<Rightarrow> Inl (Some e) | Inr a \<Rightarrow> Inr a))"

record relation_view =
  rv_channels :: "string list"
  rv_accounts :: "account_key list"
  rv_sessions :: "string list"
  rv_is_default :: bool

definition bound_to :: "string \<Rightarrow> ('k :: linorder \<times> string) list \<Rightarrow> 'k list" where
  "bound_to i m = sort (map fst (filter (\<lambda>(_, v). v = i) m))"

definition relation_summary :: "string \<Rightarrow> agent_state \<Rightarrow> relation_view option" where
  "relation_summary i st =
     (if map_of (as_agents st) i = None then None
      else Some \<lparr>rv_channels = bound_to i (as_channels st), rv_accounts = bound_to i (as_accounts st),
                 rv_sessions = bound_to i (as_sessions st), rv_is_default = (as_default st = Some i)\<rparr>)"

end
