(* ===== verification/Message_Dispatch.thy ===== *)
theory Message_Dispatch
  imports Agent_Registry
begin

text \<open>
  The way of a message through \<open>WorkflowDispatcher\<close> (\<open>workflow/core/dispatch/dispatcher.py\<close>): whose
  authority it runs with, whether it resumes a confirmation, runs an Agent or runs the workflow of a
  rule, and what is sent back.

  The confirmation a message carries is an argument: the word that announces it has characters
  above 255. So is what the container holds. Recording of stages and durations is left out.
\<close>

section \<open>Authority\<close>

record creator_identity =
  ci_channel :: string
  ci_sender :: string
  ci_account :: "string option"
  ci_instance :: "string option"
  ci_allow_group :: bool

text \<open>The validators of the declaration: \<open>None\<close> rejects it.\<close>

definition require_non_empty :: "string \<Rightarrow> string option" where
  "require_non_empty s = (if str_strip s = [] then None else Some (str_strip s))"

definition normalize_optional :: "string option \<Rightarrow> string option" where
  "normalize_optional v =
     (case v of None \<Rightarrow> None | Some s \<Rightarrow> if str_strip s = [] then None else Some (str_strip s))"

definition make_identity ::
    "string \<Rightarrow> string \<Rightarrow> string option \<Rightarrow> string option \<Rightarrow> bool \<Rightarrow> creator_identity option" where
  "make_identity channel sender account adapter allow_group =
     (case (require_non_empty channel, require_non_empty sender) of
        (Some ch, Some se) \<Rightarrow>
          Some \<lparr>ci_channel = ch, ci_sender = se, ci_account = normalize_optional account,
                ci_instance = normalize_optional adapter, ci_allow_group = allow_group\<rparr>
      | _ \<Rightarrow> None)"

definition matches_or_any :: "string option \<Rightarrow> string \<Rightarrow> bool" where
  "matches_or_any v s = (case v of None \<Rightarrow> True | Some x \<Rightarrow> str_strip x = s)"

definition identity_matches :: "creator_identity \<Rightarrow> channel_context \<Rightarrow> bool \<Rightarrow> bool" where
  "identity_matches i c is_group =
     ((is_group \<longrightarrow> ci_allow_group i) \<and> str_lower (str_strip (ci_channel i)) = cc_channel c \<and>
      str_strip (ci_sender i) = cc_sender c \<and> matches_or_any (ci_account i) (cc_account c) \<and>
      matches_or_any (ci_instance i) (cc_adapter c))"

text \<open>The subject of the creator, when the authentication service has one; \<open>None\<close> is an exception.\<close>

definition creator_subject :: "string option \<Rightarrow> string option" where
  "creator_subject s = (case s of None \<Rightarrow> None | Some x \<Rightarrow> if str_strip x = [] then None else Some x)"

definition creator_principal ::
    "creator_identity list \<Rightarrow> string option \<Rightarrow> channel_context \<Rightarrow> principal option option" where
  "creator_principal identities subject c =
     (let is_group = starts_with ''group:'' (cc_conversation c) in
      if \<not> list_ex (\<lambda>i. identity_matches i c is_group) identities then Some None
      else case creator_subject subject of
             None \<Rightarrow> Some None
           | Some s \<Rightarrow> map_option Some (make_principal s ''admin'' [''*''] True))"

text \<open>The principal the whole dispatch runs with.\<close>

definition dispatch_principal ::
    "principal option \<Rightarrow> creator_identity list \<Rightarrow> string option \<Rightarrow> channel_context \<Rightarrow> principal option option" where
  "dispatch_principal current identities subject c =
     (if current \<noteq> None then Some current else creator_principal identities subject c)"

section \<open>The route\<close>

record dispatch_env =
  de_runtime :: bool
  de_registry :: "agent_state option"
  de_session_agent :: "string option"
  de_has_workflow :: "string \<Rightarrow> bool"

datatype dispatch_action =
    ResumeConfirmation string
  | RunAgent string
  | RunWorkflow combined_rule
  | NoRule

datatype dispatch_fault =
    AgentConfigurationNotFound
  | AgentResolution "agent_fault option"
  | AgentRuntimeMissing
  | WorkflowNotFound string

definition resolve_automatic_agent ::
    "dispatch_env \<Rightarrow> channel_context \<Rightarrow> bool \<Rightarrow> dispatch_fault + string option" where
  "resolve_automatic_agent env c require_agent =
     (case de_registry env of
        None \<Rightarrow> if require_agent then Inl AgentConfigurationNotFound else Inr None
      | Some st \<Rightarrow>
          if \<not> de_runtime env then (if require_agent then Inl AgentConfigurationNotFound else Inr None)
          else case resolve_agent c (de_session_agent env) st of
                 Inr a \<Rightarrow> Inr (Some (ag_id a))
               | Inl e \<Rightarrow>
                   if (case e of None \<Rightarrow> True | Some (AgentUnknown _) \<Rightarrow> True | _ \<Rightarrow> False)
                   then (if de_session_agent env \<noteq> None then Inl (AgentResolution e)
                         else if require_agent then Inl AgentConfigurationNotFound else Inr None)
                   else Inl (AgentResolution e))"

definition dispatch_agent :: "dispatch_env \<Rightarrow> string \<Rightarrow> dispatch_fault + dispatch_action" where
  "dispatch_agent env i = (if de_runtime env then Inr (RunAgent i) else Inl AgentRuntimeMissing)"

definition dispatch_rule ::
    "dispatch_env \<Rightarrow> channel_context \<Rightarrow> bool \<Rightarrow> combined_rule \<Rightarrow> dispatch_fault + dispatch_action" where
  "dispatch_rule env c require_agent r =
     and_then (case bound_agent_id r of Some i \<Rightarrow> Inr (Some i) | None \<Rightarrow> resolve_automatic_agent env c require_agent)
       (\<lambda>agent. case agent of
          Some i \<Rightarrow> dispatch_agent env i
        | None \<Rightarrow> if de_has_workflow env (cr_workflow_id r) then Inr (RunWorkflow r)
                  else Inl (WorkflowNotFound (cr_name r)))"

definition dispatch_message ::
    "dispatch_env \<Rightarrow> evaluator \<Rightarrow> combined_rule list \<Rightarrow> channel_context \<Rightarrow> bool \<Rightarrow> string option \<Rightarrow>
     dispatch_fault + dispatch_action" where
  "dispatch_message env ev rules c require_agent confirmation =
     (if confirmation \<noteq> None \<and> de_runtime env then Inr (ResumeConfirmation (the confirmation))
      else case chosen_rule ev rules of
             Some r \<Rightarrow> dispatch_rule env c require_agent r
           | None \<Rightarrow>
               if require_agent
               then and_then (resolve_automatic_agent env c True)
                      (\<lambda>agent. case agent of Some i \<Rightarrow> dispatch_agent env i | None \<Rightarrow> Inr NoRule)
               else Inr NoRule)"

section \<open>The reply\<close>

datatype run_status = RunCompleted | RunAwaiting | RunFailed

record run_result =
  rr_status :: run_status
  rr_text :: string
  rr_confirmation :: "string option"
  rr_error :: "string option"
  rr_delivered_incrementally :: bool

text \<open>A reply is a text, the request to confirm, or the notice for an error of a confirmation.\<close>

datatype channel_reply = ReplyText string | AskConfirmation string | ConfirmationNotice string

definition known_notices :: "string list" where
  "known_notices = [''ConfirmationSessionMismatch'', ''ConfirmationExpired'', ''ConfirmationInProgress'',
     ''ConfirmationAlreadyProcessed'', ''ConfirmationNotFound'']"

definition error_type :: "run_result \<Rightarrow> string" where
  "error_type r = (case rr_error r of None \<Rightarrow> ''RuntimeError'' | Some e \<Rightarrow> e)"

text \<open>What is sent, or the error that is raised.\<close>

definition deliver_runtime_result :: "bool \<Rightarrow> run_result \<Rightarrow> string + channel_reply list" where
  "deliver_runtime_result confirmation_flow r =
     (case rr_status r of
        RunCompleted \<Rightarrow>
          Inr (if rr_text r = [] \<or> rr_delivered_incrementally r then [] else [ReplyText (rr_text r)])
      | RunAwaiting \<Rightarrow>
          Inr [AskConfirmation (case rr_confirmation r of
                 None \<Rightarrow> ''pending'' | Some i \<Rightarrow> if i = [] then ''pending'' else i)]
      | RunFailed \<Rightarrow>
          if confirmation_flow
          then Inr [ConfirmationNotice (if error_type r \<in> set known_notices then error_type r else [])]
          else Inl (error_type r))"

lemma at_most_one_reply: "deliver_runtime_result flow r = Inr replies \<Longrightarrow> length replies \<le> 1"
  by (auto simp: deliver_runtime_result_def split: run_status.splits if_splits)

section \<open>Who may control\<close>

lemma group_conversation:
  "snd_chat_type (ev_sender e) = Group \<Longrightarrow> starts_with ''group:'' (cc_conversation (from_message a e))"
proof -
  assume "snd_chat_type (ev_sender e) = Group"
  then obtain g where conv: "cc_conversation (from_message a e) = clean_identifier (Some (''group:'' @ g)) ''unknown''"
    and g: "is_identifier g"
    by (auto simp: from_message_def make_context_def Let_def cleaned is_identifier_def [of "''unknown-group''"]
        id_char_def intro: that)
  from g have chars: "list_all id_char (''group:'' @ g)" by (simp add: is_identifier_def id_char_def)
  then have "str_strip (''group:'' @ g) = ''group:'' @ g"
    using id_char_not_space by (intro strip_solid) (auto simp: list_all_iff)
  with chars conv have "cc_conversation (from_message a e) = take 256 (''group:'' @ g)"
    by (simp add: clean_identifier_def Let_def)
  then have "cc_conversation (from_message a e) = ''group:'' @ take 250 g" by simp
  then show ?thesis by (simp add: starts_with_iff)
qed

lemma context_sender:
  "cc_sender (from_message a e) = clean_identifier (Some (snd_user_id (ev_sender e))) ''unknown-sender''"
proof -
  have "is_identifier ''unknown-sender''" by code_simp
  from cleaned [OF this] show ?thesis by (simp add: from_message_def make_context_def Let_def clean_stable)
qed

lemma clean_of_identifier: "is_identifier (str_strip s) \<Longrightarrow> clean_identifier (Some s) fallback = str_strip s"
  by (simp add: clean_identifier_def is_identifier_def Let_def)

text \<open>C10. Control over an Agent needs a declared identity. A message that arrives without a principal, from
  any adapter, can control an Agent only when the configuration lists, as the creator, the channel of
  that message and the cleaned form of its sender's identifier (with the account and the adapter,
  where those are given), allows group chats there if the message is from a group, and the Agent is
  owned by that creator. Cleaning strips the text and replaces other characters by one underscore, so
  senders can share a cleaned form; a sender whose stripped identifier is one already is listed itself.\<close>

theorem control_needs_a_declared_identity:
  assumes "dispatch_principal None identities subject (from_message a e) = Some who"
    and "can_control_agent who owner = Some True"
  shows "\<exists>i. i \<in> set identities \<and> str_lower (str_strip (ci_channel i)) = cc_channel (from_message a e) \<and>
    str_strip (ci_sender i) = clean_identifier (Some (snd_user_id (ev_sender e))) ''unknown-sender'' \<and>
    (is_identifier (str_strip (snd_user_id (ev_sender e))) \<longrightarrow>
       str_strip (ci_sender i) = str_strip (snd_user_id (ev_sender e))) \<and>
    matches_or_any (ci_account i) (cc_account (from_message a e)) \<and>
    matches_or_any (ci_instance i) (cc_adapter (from_message a e)) \<and>
    (snd_chat_type (ev_sender e) = C2C \<or> ci_allow_group i) \<and> owner = map_option str_strip subject"
proof -
  let ?c = "from_message a e" and ?group = "starts_with ''group:'' (cc_conversation (from_message a e))"
  from assms(2) obtain p x where p: "who = Some p" and x: "owner = Some x" "compare_digest (pr_subject p) x = Some True"
    by (auto simp: can_control_agent_def split: option.splits if_splits)
  from x(2) have owner: "pr_subject p = x" by (simp add: compare_digest_def split: if_splits)
  from assms(1) p have listed: "list_ex (\<lambda>i. identity_matches i ?c ?group) identities"
    by (auto simp: dispatch_principal_def creator_principal_def Let_def split: if_splits)
  with assms(1) p obtain s where "creator_subject subject = Some s" "make_principal s ''admin'' [''*''] True = Some p"
    by (auto simp: dispatch_principal_def creator_principal_def Let_def split: option.splits)
  then have "subject = Some s" "pr_subject p = str_strip s"
    by (auto simp: creator_subject_def make_principal_def Let_def split: option.splits if_splits)
  with owner x have "owner = map_option str_strip subject" by simp
  moreover from listed obtain i where i: "i \<in> set identities" "identity_matches i ?c ?group"
    by (auto simp: list_ex_iff)
  moreover have "?group" if "snd_chat_type (ev_sender e) \<noteq> C2C"
    using that group_conversation by (cases "snd_chat_type (ev_sender e)") auto
  moreover have "str_strip (ci_sender i) = clean_identifier (Some (snd_user_id (ev_sender e))) ''unknown-sender''"
    using i(2) by (simp add: identity_matches_def context_sender)
  moreover note clean_of_identifier [of "snd_user_id (ev_sender e)" "''unknown-sender''"]
  ultimately show ?thesis by (intro exI [of _ i]) (auto simp: identity_matches_def)
qed

definition pilot_view :: adapter_view where
  "pilot_view = \<lparr>av_channel_type = Some ''onebot'', av_adapter_type = None, av_class_name = ''OneBotAdapter'',
     av_instance = Some ''qq'', av_name = None, av_account_scope = None, av_account_id = None, av_config = []\<rparr>"

definition pilot_event :: event_origin where
  "pilot_event =
     \<lparr>ev_sender = \<lparr>snd_display_name = ''Ann'', snd_user_id = ''10001'', snd_chat_type = Group, snd_group_id = Some ''77''\<rparr>,
      ev_self_id = Some ''900''\<rparr>"

definition pilot_identity :: creator_identity where
  "pilot_identity = \<lparr>ci_channel = '' OneBot'', ci_sender = ''10001'', ci_account = Some ''900'', ci_instance = None,
     ci_allow_group = True\<rparr>"

theorem control_needs_a_declared_identity_witness:
  "\<exists>i. i \<in> set [pilot_identity] \<and> ci_allow_group i \<and> str_strip (ci_sender i) = snd_user_id (ev_sender pilot_event)"
proof -
  have "dispatch_principal None [pilot_identity] (Some ''ann'') (from_message pilot_view pilot_event) =
      Some (make_principal ''ann'' ''admin'' [''*''] True)" by code_simp
  moreover have "can_control_agent (make_principal ''ann'' ''admin'' [''*''] True) (Some ''ann'') = Some True" by code_simp
  moreover have "is_identifier (str_strip (snd_user_id (ev_sender pilot_event)))"
    "str_strip (snd_user_id (ev_sender pilot_event)) = snd_user_id (ev_sender pilot_event)" by code_simp+
  ultimately show ?thesis
    using control_needs_a_declared_identity [of "[pilot_identity]" "Some ''ann''" pilot_view pilot_event]
    by (fastforce simp: pilot_event_def)
qed

text \<open>A declaration is compared with the cleaned identifier of the sender, so another user whose name is
  cleaned to the same text is the creator, and a declared name that needs cleaning never matches.\<close>

lemma cleaned_sender_is_the_creator:
  "map_option (\<lambda>i. creator_principal [i] (Some ''ann'')
       (from_message pilot_view (pilot_event\<lparr>ev_sender := (ev_sender pilot_event)\<lparr>snd_user_id := ''ann lee'', snd_chat_type := C2C\<rparr>\<rparr>)))
     (make_identity ''onebot'' ''ann_lee'' None None False) =
   Some (Some (make_principal ''ann'' ''admin'' [''*''] True))"
  by code_simp

lemma declared_text_is_not_cleaned:
  "map_option (\<lambda>i. creator_principal [i] (Some ''ann'')
       (from_message pilot_view (pilot_event\<lparr>ev_sender := (ev_sender pilot_event)\<lparr>snd_user_id := ''ann lee'', snd_chat_type := C2C\<rparr>\<rparr>)))
     (make_identity ''onebot'' ''ann lee'' None None False) = Some (Some None)"
  by code_simp

section \<open>Required Agents\<close>

lemma resolved_enabled: "resolve_agent c s st = Inr a \<Longrightarrow> ag_enabled a"
  by (auto simp: resolve_agent_def require_enabled_def Let_def split: option.splits sum.splits if_splits)

lemma automatic_agent:
  "resolve_automatic_agent env c True = Inr x \<Longrightarrow>
     \<exists>st a. x = Some (ag_id a) \<and> de_registry env = Some st \<and> resolve_agent c (de_session_agent env) st = Inr a \<and> ag_enabled a"
  by (auto simp: resolve_automatic_agent_def resolved_enabled split: option.splits if_splits sum.splits)

text \<open>C11. A required Agent is never replaced. Where the caller requires an Agent, a message ends in an
  error, resumes the confirmation it carries, or runs an Agent - the one bound to the rule that is
  chosen, or the enabled one the registry resolves for the channel context - and never falls back
  to the workflow of a rule or to silence, whatever rules, bindings and services there are.\<close>

theorem required_agent_is_never_replaced:
  "case dispatch_message env ev rules c True confirmation of
     Inl _ \<Rightarrow> True
   | Inr (ResumeConfirmation i) \<Rightarrow> confirmation = Some i \<and> de_runtime env
   | Inr (RunAgent i) \<Rightarrow>
       de_runtime env \<and>
       ((\<exists>r. chosen_rule ev rules = Some r \<and> bound_agent_id r = Some i) \<or>
        (\<exists>st a. de_registry env = Some st \<and> resolve_agent c (de_session_agent env) st = Inr a \<and>
           ag_enabled a \<and> ag_id a = i))
   | Inr (RunWorkflow _) \<Rightarrow> False
   | Inr NoRule \<Rightarrow> False"
proof (cases "confirmation \<noteq> None \<and> de_runtime env")
  case True
  then show ?thesis by (auto simp: dispatch_message_def)
next
  case False
  show ?thesis
  proof (cases "chosen_rule ev rules")
    case None
    show ?thesis
    proof (cases "resolve_automatic_agent env c True")
      case (Inr x)
      with automatic_agent [OF Inr] False None show ?thesis
        by (auto simp: dispatch_message_def and_then_def dispatch_agent_def)
    qed (use False None in \<open>auto simp: dispatch_message_def and_then_def\<close>)
  next
    case (Some r)
    show ?thesis
    proof (cases "bound_agent_id r")
      case None
      show ?thesis
      proof (cases "resolve_automatic_agent env c True")
        case (Inr x)
        with automatic_agent [OF Inr] False Some None show ?thesis
          by (auto simp: dispatch_message_def dispatch_rule_def and_then_def dispatch_agent_def)
      qed (use False Some None in \<open>auto simp: dispatch_message_def dispatch_rule_def and_then_def\<close>)
    qed (use False Some in \<open>auto simp: dispatch_message_def dispatch_rule_def and_then_def dispatch_agent_def\<close>)
  qed
qed

end
