(* ===== verification/Agent_Document.thy ===== *)
theory Agent_Document
  imports Agent_Registry "HOL-Library.Monad_Syntax"
begin

text \<open>
  The file of the Agent registry: \<open>_serialize_state\<close>, \<open>_load_state\<close> and what they call in
  \<open>agent_runtime/core.py\<close>, over decoded JSON documents. Reading is \<open>None\<close> where the code raises, and
  where a value has another JSON type than \<open>_serialize_state\<close> gives it. The keys of an object are
  distinct, as \<open>json.loads\<close> leaves them.
\<close>

section \<open>Writing\<close>

definition json_opt :: "string option \<Rightarrow> json" where
  "json_opt v = (case v of None \<Rightarrow> JNull | Some s \<Rightarrow> JStr s)"

definition json_texts :: "string list \<Rightarrow> json" where
  "json_texts vs = JArr (map JStr vs)"

definition binding_to_dict :: "resource_binding \<Rightarrow> json" where
  "binding_to_dict b =
     JObj [(''resource_id'', JStr (rb_id b)), (''resource_type'', JStr (rb_type b)),
       (''version'', JStr (rb_version b)), (''version_policy'', JStr (rb_policy b)),
       (''content_sha256'', JStr (rb_sha256 b)), (''enabled'', JBool (rb_enabled b)),
       (''permissions'', json_texts (rb_permissions b)), (''source'', JStr (rb_source b))]"

definition agent_to_dict :: "agent_definition \<Rightarrow> json" where
  "agent_to_dict a =
     JObj [(''agent_id'', JStr (ag_id a)), (''owner_subject'', json_opt (ag_owner a)),
       (''display_name'', json_opt (ag_display_name a)), (''enabled'', JBool (ag_enabled a)),
       (''workflow_id'', json_opt (ag_workflow a)), (''model_priority'', json_texts (ag_models a)),
       (''provider_allowlist'', json_texts (sorted_list_of_set (ag_providers a))),
       (''capabilities'', json_texts (sorted_list_of_set (ag_capabilities a))),
       (''prompt_bindings'', JArr (map binding_to_dict (ag_prompts a))),
       (''skill_bindings'', JArr (map binding_to_dict (ag_skills a))),
       (''memory_bindings'', JArr (map binding_to_dict (ag_memories a))),
       (''mcp_bindings'', JArr (map binding_to_dict (ag_mcps a))),
       (''hook_bindings'', JArr (map binding_to_dict (ag_hooks a))),
       (''mcp_allowlist'', json_texts (sorted_list_of_set (ag_mcp_allowlist a))),
       (''allow_tools'', JBool (ag_allow_tools a)),
       (''max_tool_iterations'', JInt (ag_max_iterations a)),
       (''teammate_agent_ids'', json_texts (ag_teammates a)),
       (''reply_stream_mode'', JStr (ag_stream_mode a))]"

definition channel_item :: "string \<times> string \<Rightarrow> json" where
  "channel_item e = JObj [(''channel_type'', JStr (fst e)), (''agent_id'', JStr (snd e))]"

definition account_item :: "account_key \<times> string \<Rightarrow> json" where
  "account_item e =
     (case e of ((c, adapter, account), i) \<Rightarrow>
        JObj [(''channel_type'', JStr c), (''adapter_instance'', JStr adapter),
              (''account_scope'', JStr account), (''agent_id'', JStr i)])"

definition session_item :: "string \<times> string \<Rightarrow> json" where
  "session_item e = JObj [(''session_key'', JStr (fst e)), (''agent_id'', JStr (snd e))]"

definition serialize_state :: "agent_state \<Rightarrow> json" where
  "serialize_state st =
     JObj [(''format_version'', JInt 1),
       (''agents'', JArr (map (agent_to_dict \<circ> snd) (sort_key fst (as_agents st)))),
       (''default_agent_id'', json_opt (as_default st)),
       (''channel_bindings'', JArr (map channel_item (sort_key fst (as_channels st)))),
       (''account_bindings'', JArr (map account_item (sort_key fst (as_accounts st)))),
       (''session_bindings'', JArr (map session_item (sort_key fst (as_sessions st))))]"

section \<open>Reading\<close>

fun json_list :: "json \<Rightarrow> json list option" where
  "json_list (JArr vs) = Some vs"
| "json_list _ = None"

fun json_truth :: "json \<Rightarrow> bool option" where
  "json_truth (JBool b) = Some b"
| "json_truth _ = None"

definition text_or_null :: "json \<Rightarrow> string option option" where
  "text_or_null v = (if v = JNull then Some None else map_option Some (json_string v))"

definition json_strings :: "json \<Rightarrow> string list option" where
  "json_strings v = Option.bind (json_list v) (\<lambda>vs. those (map json_string vs))"

definition check :: "bool \<Rightarrow> unit option" where
  "check b = (if b then Some () else None)"

text \<open>An argument of a constructor, or its default.\<close>

definition argument :: "(string \<times> json) list \<Rightarrow> string \<Rightarrow> (json \<Rightarrow> 'a option) \<Rightarrow> 'a \<Rightarrow> 'a option" where
  "argument kvs k read absent = (case map_of kvs k of None \<Rightarrow> Some absent | Some v \<Rightarrow> read v)"

definition required :: "(string \<times> json) list \<Rightarrow> string \<Rightarrow> string option" where
  "required kvs k = Option.bind (map_of kvs k) json_string"

definition binding_keys :: "string list" where
  "binding_keys = [''resource_id'', ''resource_type'', ''version'', ''version_policy'', ''content_sha256'',
     ''enabled'', ''permissions'', ''source'']"

definition load_binding :: "string \<Rightarrow> json \<Rightarrow> resource_binding option" where
  "load_binding expected j =
     do {
       kvs \<leftarrow> json_object j;
       check (set (map fst kvs) \<subseteq> set binding_keys);
       i \<leftarrow> required kvs ''resource_id'';
       kind \<leftarrow> required kvs ''resource_type'';
       version \<leftarrow> required kvs ''version'';
       sha \<leftarrow> required kvs ''content_sha256'';
       enabled \<leftarrow> argument kvs ''enabled'' json_truth True;
       permissions \<leftarrow> argument kvs ''permissions'' json_strings [];
       source \<leftarrow> argument kvs ''source'' json_string ''local'';
       policy \<leftarrow> argument kvs ''version_policy'' json_string ''fixed'';
       b \<leftarrow> make_binding \<lparr>rb_id = i, rb_type = kind, rb_version = version, rb_sha256 = sha,
              rb_enabled = enabled, rb_permissions = permissions, rb_source = source, rb_policy = policy\<rparr>;
       check (rb_type b = expected);
       Some b
     }"

definition load_bindings :: "(string \<times> json) list \<Rightarrow> string \<Rightarrow> string \<Rightarrow> resource_binding list option" where
  "load_bindings kvs k expected =
     argument kvs k (\<lambda>v. Option.bind (json_list v) (\<lambda>vs. those (map (load_binding expected) vs))) []"

definition agent_keys :: "string list" where
  "agent_keys = [''agent_id'', ''owner_subject'', ''display_name'', ''enabled'', ''workflow_id'',
     ''model_priority'', ''provider_allowlist'', ''capabilities'', ''prompt_bindings'', ''skill_bindings'',
     ''memory_bindings'', ''mcp_bindings'', ''hook_bindings'', ''mcp_allowlist'', ''allow_tools'',
     ''max_tool_iterations'', ''teammate_agent_ids'', ''reply_stream_mode'']"

definition load_agent :: "json \<Rightarrow> agent_definition option" where
  "load_agent j =
     do {
       kvs \<leftarrow> json_object j;
       prompts \<leftarrow> load_bindings kvs ''prompt_bindings'' ''prompt'';
       skills \<leftarrow> load_bindings kvs ''skill_bindings'' ''skill'';
       memories \<leftarrow> load_bindings kvs ''memory_bindings'' ''memory'';
       mcps \<leftarrow> load_bindings kvs ''mcp_bindings'' ''mcp'';
       hooks \<leftarrow> load_bindings kvs ''hook_bindings'' ''hook'';
       check (set (map fst kvs) \<subseteq> set agent_keys);
       i \<leftarrow> required kvs ''agent_id'';
       owner \<leftarrow> argument kvs ''owner_subject'' text_or_null None;
       name \<leftarrow> argument kvs ''display_name'' text_or_null None;
       enabled \<leftarrow> argument kvs ''enabled'' json_truth True;
       workflow \<leftarrow> argument kvs ''workflow_id'' text_or_null None;
       models \<leftarrow> argument kvs ''model_priority'' json_strings [];
       providers \<leftarrow> argument kvs ''provider_allowlist'' json_strings [];
       capabilities \<leftarrow> argument kvs ''capabilities'' json_strings [];
       allowlist \<leftarrow> argument kvs ''mcp_allowlist'' json_strings [];
       tools \<leftarrow> argument kvs ''allow_tools'' json_truth True;
       iterations \<leftarrow> argument kvs ''max_tool_iterations'' json_int 8;
       teammates \<leftarrow> argument kvs ''teammate_agent_ids'' json_strings [];
       mode \<leftarrow> argument kvs ''reply_stream_mode'' json_string ''inherit'';
       (case post_init \<lparr>ag_id = i, ag_owner = owner, ag_display_name = name, ag_enabled = enabled,
              ag_workflow = workflow, ag_models = models, ag_providers = set providers,
              ag_capabilities = set capabilities, ag_prompts = prompts, ag_skills = skills,
              ag_memories = memories, ag_mcps = mcps, ag_hooks = hooks, ag_mcp_allowlist = set allowlist,
              ag_allow_tools = tools, ag_max_iterations = iterations, ag_teammates = teammates,
              ag_stream_mode = mode\<rparr> of
         Inl _ \<Rightarrow> None
       | Inr a \<Rightarrow> Some a)
     }"

definition dict_of :: "('k \<times> 'v) list \<Rightarrow> ('k \<times> 'v) list" where
  "dict_of kvs = foldl (\<lambda>m (k, v). AList.update k v m) [] kvs"

definition load_items ::
    "(string \<times> json) list \<Rightarrow> string \<Rightarrow> ((string \<times> json) list \<Rightarrow> 'k option) \<Rightarrow> ('k \<times> string) list option" where
  "load_items kvs name key =
     do {
       items \<leftarrow> argument kvs name json_list [];
       entries \<leftarrow> those (map (\<lambda>item. do {
         entry \<leftarrow> json_object item;
         k \<leftarrow> key entry;
         i \<leftarrow> required entry ''agent_id'';
         Some (k, i)
       }) items);
       Some (dict_of entries)
     }"

definition references :: "agent_state \<Rightarrow> string set" where
  "references st = snd ` set (as_channels st) \<union> snd ` set (as_accounts st) \<union> snd ` set (as_sessions st) \<union>
     set_option (as_default st)"

definition validate_state :: "agent_state \<Rightarrow> bool" where
  "validate_state st = (references st \<subseteq> fst ` set (as_agents st))"

definition load_state :: "json \<Rightarrow> agent_state option" where
  "load_state j =
     do {
       kvs \<leftarrow> json_object j;
       check (Option.bind (map_of kvs ''format_version'') json_number = Some 1);
       items \<leftarrow> Option.bind (map_of kvs ''agents'') json_list;
       agents \<leftarrow> those (map load_agent items);
       check (distinct (map ag_id agents));
       channels \<leftarrow> load_items kvs ''channel_bindings''
         (\<lambda>entry. map_option channel_key (required entry ''channel_type''));
       accounts \<leftarrow> load_items kvs ''account_bindings''
         (\<lambda>entry. do {
           c \<leftarrow> required entry ''channel_type'';
           adapter \<leftarrow> required entry ''adapter_instance'';
           account \<leftarrow> required entry ''account_scope'';
           Some (account_key (channel_key c) adapter account)
         });
       sessions \<leftarrow> load_items kvs ''session_bindings'' (\<lambda>entry. required entry ''session_key'');
       the_default \<leftarrow> argument kvs ''default_agent_id'' text_or_null None;
       (let st = \<lparr>as_agents = map (\<lambda>a. (ag_id a, a)) agents, as_channels = channels,
                  as_accounts = accounts, as_sessions = sessions, as_default = the_default\<rparr>
        in if validate_state st then Some st else None)
     }"

section \<open>A document reads back\<close>

lemma json_readers [simp]:
  "text_or_null (json_opt v) = Some v" "json_strings (json_texts vs) = Some vs"
proof -
  show "text_or_null (json_opt v) = Some v" by (cases v) (auto simp: text_or_null_def json_opt_def)
  have "those (map json_string (map JStr vs)) = Some vs" by (induction vs) auto
  then show "json_strings (json_texts vs) = Some vs" by (simp add: json_strings_def json_texts_def)
qed

text \<open>A definition that a constructor has made from constructed bindings; it may have no model.\<close>

definition built_agent :: "agent_definition \<Rightarrow> bool" where
  "built_agent a =
     (wf_agent a \<and> list_all wf_binding (resource_bindings a) \<and>
      finite (ag_providers a) \<and> finite (ag_capabilities a) \<and> finite (ag_mcp_allowlist a))"

lemmas reading_simps = required_def argument_def check_def

lemma binding_reads_back: "wf_binding b \<Longrightarrow> load_binding (rb_type b) (binding_to_dict b) = Some b"
  using make_binding_stable [of b]
  by (cases b) (simp add: load_binding_def binding_to_dict_def reading_simps binding_keys_def)

lemma bindings_read_back:
  "list_all wf_binding bs \<Longrightarrow> \<not> wrong_type (expected, bs) \<Longrightarrow>
     those (map (load_binding expected) (map binding_to_dict bs)) = Some bs"
  by (induction bs) (auto simp: wrong_type_def binding_reads_back)

lemma load_bindings_back:
  assumes "map_of kvs k = Some (JArr (map binding_to_dict bs))" "list_all wf_binding bs"
    and "\<not> wrong_type (expected, bs)"
  shows "load_bindings kvs k expected = Some bs"
  using bindings_read_back [OF assms(2,3)] assms(1) by (simp add: load_bindings_def argument_def)

lemma fields_spelled:
  "a\<lparr>ag_providers := p, ag_capabilities := c, ag_mcp_allowlist := l\<rparr> =
     \<lparr>ag_id = ag_id a, ag_owner = ag_owner a, ag_display_name = ag_display_name a,
      ag_enabled = ag_enabled a, ag_workflow = ag_workflow a, ag_models = ag_models a,
      ag_providers = p, ag_capabilities = c, ag_prompts = ag_prompts a, ag_skills = ag_skills a,
      ag_memories = ag_memories a, ag_mcps = ag_mcps a, ag_hooks = ag_hooks a, ag_mcp_allowlist = l,
      ag_allow_tools = ag_allow_tools a, ag_max_iterations = ag_max_iterations a,
      ag_teammates = ag_teammates a, ag_stream_mode = ag_stream_mode a\<rparr>"
  by (cases a) simp

lemma load_agent_constructs:
  assumes "built_agent a"
  shows "load_agent (agent_to_dict a) = (case post_init a of Inl _ \<Rightarrow> None | Inr b \<Rightarrow> Some b)"
proof -
  obtain kvs where kvs: "agent_to_dict a = JObj kvs" by (simp add: agent_to_dict_def)
  note fields = kvs [unfolded agent_to_dict_def, simplified, symmetric]
  from assms have bindings:
      "load_bindings kvs ''prompt_bindings'' ''prompt'' = Some (ag_prompts a)"
      "load_bindings kvs ''skill_bindings'' ''skill'' = Some (ag_skills a)"
      "load_bindings kvs ''memory_bindings'' ''memory'' = Some (ag_memories a)"
      "load_bindings kvs ''mcp_bindings'' ''mcp'' = Some (ag_mcps a)"
      "load_bindings kvs ''hook_bindings'' ''hook'' = Some (ag_hooks a)"
    unfolding built_agent_def wf_agent_def resource_bindings_def binding_fields_def
    by (auto intro!: load_bindings_back simp: fields)
  have same: "a\<lparr>ag_providers := set (sorted_list_of_set (ag_providers a)),
      ag_capabilities := set (sorted_list_of_set (ag_capabilities a)),
      ag_mcp_allowlist := set (sorted_list_of_set (ag_mcp_allowlist a))\<rparr> = a"
    using assms by (simp add: built_agent_def)
  have keys: "set (map fst kvs) \<subseteq> set agent_keys" by (simp add: fields agent_keys_def)
  have "load_agent (JObj kvs) =
    (case post_init (a\<lparr>ag_providers := set (sorted_list_of_set (ag_providers a)),
      ag_capabilities := set (sorted_list_of_set (ag_capabilities a)),
      ag_mcp_allowlist := set (sorted_list_of_set (ag_mcp_allowlist a))\<rparr>) of Inl _ \<Rightarrow> None | Inr b \<Rightarrow> Some b)"
    unfolding load_agent_def using keys
    by (simp add: bindings) (simp add: reading_simps fields fields_spelled)
  with same kvs show ?thesis by simp
qed

lemma agent_reads_back: "built_agent a \<Longrightarrow> ag_models a \<noteq> [] \<Longrightarrow> load_agent (agent_to_dict a) = Some a"
  by (simp add: load_agent_constructs construct_again built_agent_def)

lemma modelless_agent_unreadable: "built_agent a \<Longrightarrow> ag_models a = [] \<Longrightarrow> load_agent (agent_to_dict a) = None"
  using construct_again_without_model [of a] by (auto simp: load_agent_constructs split: sum.split)

section \<open>The state reads back\<close>

text \<open>The tables of a state: distinct keys in their stored form, Agents under their own id.\<close>

definition wf_account_key :: "account_key \<Rightarrow> bool" where
  "wf_account_key k =
     (case k of (c, adapter, account) \<Rightarrow> c \<in> set channel_types \<and> is_identifier adapter \<and> is_identifier account)"

definition wf_tables :: "agent_state \<Rightarrow> bool" where
  "wf_tables st =
     (distinct (map fst (as_agents st)) \<and> list_all (\<lambda>(i, a). i = ag_id a \<and> built_agent a) (as_agents st) \<and>
      distinct (map fst (as_channels st)) \<and> list_all (\<lambda>(c, _). c \<in> set channel_types) (as_channels st) \<and>
      distinct (map fst (as_accounts st)) \<and> list_all (\<lambda>(k, _). wf_account_key k) (as_accounts st) \<and>
      distinct (map fst (as_sessions st)))"

definition sorted_state :: "agent_state \<Rightarrow> agent_state" where
  "sorted_state st =
     st\<lparr>as_agents := sort_key fst (as_agents st), as_channels := sort_key fst (as_channels st),
        as_accounts := sort_key fst (as_accounts st), as_sessions := sort_key fst (as_sessions st)\<rparr>"

lemma update_new_key: "k \<notin> fst ` set m \<Longrightarrow> AList.update k v m = m @ [(k, v)]"
  by (induction m) auto

lemma dict_of_distinct: "distinct (map fst kvs) \<Longrightarrow> dict_of kvs = kvs"
proof -
  have "distinct (map fst (acc @ kvs)) \<Longrightarrow> foldl (\<lambda>m (k, v). AList.update k v m) acc kvs = acc @ kvs" for acc
  proof (induction kvs arbitrary: acc)
    case (Cons x kvs)
    then show ?case by (cases x) (simp add: update_new_key)
  qed simp
  from this [of "[]"] show "distinct (map fst kvs) \<Longrightarrow> ?thesis" by (simp add: dict_of_def)
qed

lemma load_items_back:
  assumes "map_of kvs name = Some (JArr (map item m))" "distinct (map fst m)"
    and "\<forall>(k, i)\<in>set m. \<exists>fields. item (k, i) = JObj fields \<and> key fields = Some k \<and> required fields ''agent_id'' = Some i"
  shows "load_items kvs name key = Some m"
proof -
  let ?read = "\<lambda>item. do {entry \<leftarrow> json_object item; k \<leftarrow> key entry; i \<leftarrow> required entry ''agent_id''; Some (k, i)}"
  have "those (map ?read (map item m)) = Some m"
    using assms(3) by (induction m) fastforce+
  with assms(1,2) show ?thesis
    by (simp add: load_items_def argument_def dict_of_distinct)
qed

lemma channel_key_stable: "c \<in> set channel_types \<Longrightarrow> channel_key c = c"
proof -
  have "list_all (\<lambda>c. channel_key c = c) channel_types" by code_simp
  then show "c \<in> set channel_types \<Longrightarrow> ?thesis" unfolding list_all_iff by blast
qed

lemma account_key_stable:
  "wf_account_key (c, adapter, account) \<Longrightarrow> account_key (channel_key c) adapter account = (c, adapter, account)"
  by (simp add: wf_account_key_def account_key_def channel_key_stable clean_stable)

lemma sorted_spelled:
  "\<lparr>as_agents = sort_key fst (as_agents st), as_channels = sort_key fst (as_channels st),
    as_accounts = sort_key fst (as_accounts st), as_sessions = sort_key fst (as_sessions st),
    as_default = as_default st\<rparr> = sorted_state st"
  by (cases st) (simp add: sorted_state_def)

lemma references_sorted [simp]: "references (sorted_state st) = references st"
  by (simp add: references_def sorted_state_def)

lemma validate_sorted [simp]: "validate_state (sorted_state st) = validate_state st"
  by (simp add: validate_state_def) (simp add: sorted_state_def)

definition all_modelled :: "agent_state \<Rightarrow> bool" where
  "all_modelled st = list_all (\<lambda>(_, a). ag_models a \<noteq> []) (as_agents st)"

lemma state_reads_back:
  assumes "wf_tables st" "validate_state st" "all_modelled st"
  shows "load_state (serialize_state st) = Some (sorted_state st)"
proof -
  obtain kvs where kvs: "serialize_state st = JObj kvs" by (simp add: serialize_state_def)
  note fields = kvs [unfolded serialize_state_def, simplified, symmetric]
  let ?agents = "map snd (sort_key fst (as_agents st))"
  have agents: "\<forall>(i, a)\<in>set (as_agents st). i = ag_id a \<and> built_agent a"
    using assms(1) by (simp add: wf_tables_def list_all_iff)
  then have "those (map (load_agent \<circ> (agent_to_dict \<circ> snd)) (sort_key fst (as_agents st))) = Some ?agents"
    using assms(3) by (intro those_total) (fastforce simp: agent_reads_back all_modelled_def list_all_iff)
  moreover have "map (\<lambda>a. (ag_id a, a)) ?agents = sort_key fst (as_agents st)"
    unfolding map_map using agents by (intro map_idI) auto
  moreover have "distinct (map ag_id ?agents)"
  proof -
    have "map ag_id ?agents = map fst (sort_key fst (as_agents st))"
      unfolding map_map using agents by (intro map_cong) auto
    with assms(1) show ?thesis by (metis distinct_fst_sort wf_tables_def)
  qed
  moreover have "load_items kvs ''channel_bindings'' (\<lambda>entry. map_option channel_key (required entry ''channel_type'')) =
      Some (sort_key fst (as_channels st))"
    using assms(1)
    by (intro load_items_back [where item = channel_item])
      (auto simp: fields wf_tables_def list_all_iff reading_simps channel_key_stable channel_item_def)
  moreover have "load_items kvs ''account_bindings'' (\<lambda>entry. do {
           c \<leftarrow> required entry ''channel_type'';
           adapter \<leftarrow> required entry ''adapter_instance'';
           account \<leftarrow> required entry ''account_scope'';
           Some (account_key (channel_key c) adapter account)
         }) = Some (sort_key fst (as_accounts st))"
    using assms(1)
    by (intro load_items_back [where item = account_item])
      (auto simp: fields wf_tables_def list_all_iff reading_simps account_key_stable account_item_def)
  moreover have "load_items kvs ''session_bindings'' (\<lambda>entry. required entry ''session_key'') =
      Some (sort_key fst (as_sessions st))"
    using assms(1)
    by (intro load_items_back [where item = session_item])
      (auto simp: fields wf_tables_def reading_simps session_item_def)
  ultimately show ?thesis
    using assms(2) unfolding kvs load_state_def
    by (simp add: reading_simps fields Let_def sorted_spelled)
qed

lemma those_None: "x \<in> set xs \<Longrightarrow> f x = None \<Longrightarrow> those (map f xs) = None"
  by (induction xs) (auto split: option.split)

lemma modelless_state_unreadable:
  assumes "wf_tables st" "\<not> all_modelled st"
  shows "load_state (serialize_state st) = None"
proof -
  from assms obtain i a where "(i, a) \<in> set (as_agents st)" "ag_models a = []"
    by (auto simp: all_modelled_def list_all_iff)
  moreover from this assms(1) have "built_agent a"
    by (auto simp: wf_tables_def list_all_iff)
  ultimately have "those (map (load_agent \<circ> (agent_to_dict \<circ> snd)) (sort_key fst (as_agents st))) = None"
    by (intro those_None [of "(i, a)"]) (simp_all add: modelless_agent_unreadable)
  then show ?thesis by (simp add: load_state_def serialize_state_def check_def)
qed

section \<open>Constructors build\<close>

lemma constructor_fields:
  "post_init raw = Inr a \<Longrightarrow> resource_bindings a = resource_bindings raw \<and> ag_id a = clean_identifier (Some (ag_id raw)) ''agent'' \<and>
     ag_providers a = clean_set (ag_providers raw) \<and> ag_capabilities a = clean_set (ag_capabilities raw) \<and>
     ag_mcp_allowlist a = clean_set (ag_mcp_allowlist raw) \<and> clean_owner (ag_owner raw) = Some (ag_owner a) \<and>
     ag_enabled a = ag_enabled raw"
  by (auto simp: post_init_def resource_bindings_def Let_def split: option.splits if_splits)

lemma finite_clean_set: "finite S \<Longrightarrow> finite (clean_set S)"
  by (simp add: clean_set_def)

lemma constructor_builds:
  assumes "post_init raw = Inr a" "list_all wf_binding (resource_bindings raw)"
    and "finite (ag_providers raw)" "finite (ag_capabilities raw)" "finite (ag_mcp_allowlist raw)"
  shows "built_agent a"
  using constructor_fields [OF assms(1)] constructed [OF assms(1)] assms(2-)
  by (simp add: built_agent_def finite_clean_set)

end
