(* ===== verification/Agent_Restart.thy ===== *)
theory Agent_Restart
  imports Agent_Document
begin

text \<open>
  The Agent registry as a process serves it: \<open>_commit\<close> and \<open>_write_state\<close> over the operations of
  \<open>Agent_Registry\<close>, sequences of requests, and the restart that loads the file
  (\<open>AgentRegistry.__init__\<close>). A request says whether its write succeeds: the file is replaced as a
  whole (\<open>os.replace\<close>), or an \<open>OSError\<close> leaves it as it was.
\<close>

section \<open>Requests\<close>

datatype agent_call =
    SetEnabled string bool
  | Register agent_definition
  | Update agent_definition
  | Remove string
  | SetDefault string
  | Configure agent_definition "string list" "account_key list" "string list" bool bool
  | BindChannel string string
  | UnbindChannel string
  | BindAccount string string string string
  | UnbindAccount string string string
  | BindSession session_ref string
  | UnbindSession session_ref
  | UpdateResources string resource_update

record agent_request =
  rq_who :: "principal option"
  rq_call :: agent_call
  rq_writes :: bool

record agent_registry =
  ar_persistent :: bool
  ar_memory :: agent_state
  ar_file :: "json option"

text \<open>The state an operation hands to \<open>_commit\<close>; \<open>None\<close> when it returns before.\<close>

fun next_state :: "principal option \<Rightarrow> agent_call \<Rightarrow> agent_state \<Rightarrow> agent_fault + agent_state option" where
  "next_state who (SetEnabled i e) st = map_sum id Some (enable_agent i e st)"
| "next_state who (Register a) st = map_sum id Some (register_agent who a st)"
| "next_state who (Update a) st = map_sum id Some (update_agent a st)"
| "next_state who (Remove i) st = remove_agent i st"
| "next_state who (SetDefault i) st = map_sum id Some (default_agent i st)"
| "next_state who (Configure a cs acs ss d create) st =
     map_sum id Some (configure_agent who a cs acs ss d create st)"
| "next_state who (BindChannel c i) st = map_sum id Some (bind_channel c i st)"
| "next_state who (UnbindChannel c) st = Inr (Some (unbind_channel c st))"
| "next_state who (BindAccount c ad ac i) st = map_sum id Some (bind_account c ad ac i st)"
| "next_state who (UnbindAccount c ad ac) st = Inr (Some (unbind_account c ad ac st))"
| "next_state who (BindSession ref i) st = map_sum id Some (bind_session ref i st)"
| "next_state who (UnbindSession ref) st = Inr (Some (unbind_session ref st))"
| "next_state who (UpdateResources i u) st = map_sum id Some (update_resource_bindings i u st)"

definition commit_state :: "bool \<Rightarrow> agent_state \<Rightarrow> agent_registry \<Rightarrow> agent_fault option \<times> agent_registry" where
  "commit_state writes st r =
     (if \<not> validate_state st then (Some ReferencesUnknown, r)
      else if \<not> ar_persistent r then (None, r\<lparr>ar_memory := st\<rparr>)
      else if writes then (None, r\<lparr>ar_memory := st, ar_file := Some (serialize_state st)\<rparr>)
      else (Some RegistryNotWritten, r))"

definition serve_agents :: "agent_request \<Rightarrow> agent_registry \<Rightarrow> agent_fault option \<times> agent_registry" where
  "serve_agents q r =
     (case next_state (rq_who q) (rq_call q) (ar_memory r) of
        Inl e \<Rightarrow> (Some e, r)
      | Inr None \<Rightarrow> (None, r)
      | Inr (Some st) \<Rightarrow> commit_state (rq_writes q) st r)"

definition serve_all :: "agent_request list \<Rightarrow> agent_registry \<Rightarrow> agent_registry" where
  "serve_all qs r = fold (\<lambda>q r. snd (serve_agents q r)) qs r"

definition open_registry :: "json option \<Rightarrow> agent_registry option" where
  "open_registry disk =
     (case disk of
        None \<Rightarrow> Some \<lparr>ar_persistent = True, ar_memory = empty_agents, ar_file = None\<rparr>
      | Some j \<Rightarrow>
          map_option (\<lambda>st. \<lparr>ar_persistent = True, ar_memory = st, ar_file = Some j\<rparr>) (load_state j))"

lemma map_sum_Inr: "map_sum id Some r = Inr (Some x) \<longleftrightarrow> r = Inr x"
  by (cases r) auto

section \<open>Operations keep the tables\<close>

text \<open>What a caller passes in: constructed definitions and bindings, and a principal made by its
  constructor.\<close>

fun call_ok :: "agent_call \<Rightarrow> bool" where
  "call_ok (Register a) = built_agent a"
| "call_ok (Update a) = built_agent a"
| "call_ok (Configure a _ _ _ _ _) = built_agent a"
| "call_ok (UpdateResources _ u) =
     (list_all wf_binding (ru_prompts u @ ru_skills u @ ru_mcps u) \<and>
      pred_option (list_all wf_binding) (ru_memories u) \<and> pred_option (list_all wf_binding) (ru_hooks u))"
| "call_ok _ = True"

definition request_ok :: "agent_request \<Rightarrow> bool" where
  "request_ok q = (call_ok (rq_call q) \<and> pred_option (\<lambda>p. solid (pr_subject p)) (rq_who q))"

lemma built_owner: "built_agent a \<Longrightarrow> clean_owner (ag_owner a) = Some (ag_owner a)"
  by (auto simp: built_agent_def wf_agent_def clean_owner_def solid_def split: option.splits)

lemma built_id: "built_agent a \<Longrightarrow> clean_identifier (Some (ag_id a)) fallback = ag_id a"
  by (simp add: built_agent_def wf_agent_def clean_stable)

lemma rebuilt:
  assumes "post_init raw = Inr b" "built_agent a" "ag_id raw = ag_id a"
    and "list_all wf_binding (resource_bindings raw)" "finite (ag_mcp_allowlist raw)"
    and "ag_providers raw = ag_providers a" "ag_capabilities raw = ag_capabilities a"
  shows "built_agent b \<and> ag_id b = ag_id a \<and> clean_owner (ag_owner raw) = Some (ag_owner b)"
proof -
  have "built_agent b"
    using assms by (intro constructor_builds [OF assms(1)]) (simp_all add: built_agent_def)
  with constructor_fields [OF assms(1)] assms(2,3) show ?thesis by (simp add: built_id)
qed

lemma rebuilt_with_owner:
  assumes "post_init (a\<lparr>ag_owner := w\<rparr>) = Inr b" "built_agent a"
  shows "built_agent b \<and> ag_id b = ag_id a \<and> clean_owner w = Some (ag_owner b)"
  using rebuilt [OF assms] assms(2) by (simp add: built_agent_def resource_bindings_def)

lemma creation_owner:
  assumes "bind_creation_owner who a = Inr b" "built_agent a" "pred_option (\<lambda>p. solid (pr_subject p)) who"
  shows "built_agent b \<and> ag_id b = ag_id a \<and>
    (ag_owner b = None \<or> (\<exists>p. who = Some p \<and> pr_is_creator p \<and> ag_owner b = Some (pr_subject p)))"
proof (cases "ag_owner a = None \<and> (\<exists>p. who = Some p \<and> pr_is_creator p)")
  case True
  then obtain p where p: "who = Some p" "pr_is_creator p" by blast
  with True assms(1) have b: "post_init (a\<lparr>ag_owner := Some (pr_subject p)\<rparr>) = Inr b"
    by (auto simp: bind_creation_owner_def split: sum.splits)
  from rebuilt_with_owner [OF b assms(2)] p assms(3) show ?thesis
    by (auto simp: clean_owner_def solid_def Let_def split: if_splits)
next
  case False
  with assms(1,2) show ?thesis
    by (auto simp: bind_creation_owner_def compare_digest_def split: option.splits if_splits)
qed

lemma preserved_owner:
  assumes "preserve_owner current a = Inr b" "built_agent current" "built_agent a"
  shows "built_agent b \<and> ag_id b = ag_id a \<and> ag_owner b = ag_owner current"
proof (cases "ag_owner a = None \<and> ag_owner current \<noteq> None")
  case True
  then obtain x where x: "ag_owner current = Some x" by blast
  with True assms(1) have b: "post_init (a\<lparr>ag_owner := Some x\<rparr>) = Inr b"
    by (auto simp: preserve_owner_def split: sum.splits)
  from rebuilt_with_owner [OF b assms(3)] built_owner [OF assms(2)] x show ?thesis by simp
next
  case False
  with assms show ?thesis
    by (auto simp: preserve_owner_def compare_digest_def split: option.splits if_splits)
qed

text \<open>What one operation does to the Agents: the ones it stores are constructed and keep the
  owner they had, or get that of the creator.\<close>

definition owner_step :: "principal option \<Rightarrow> agent_state \<Rightarrow> agent_definition \<Rightarrow> bool" where
  "owner_step who st b =
     (case map_of (as_agents st) (ag_id b) of
        Some a \<Rightarrow> ag_owner b = ag_owner a
      | None \<Rightarrow> ag_owner b = None \<or> (\<exists>p. who = Some p \<and> pr_is_creator p \<and> ag_owner b = Some (pr_subject p)))"

lemma stored_agent:
  assumes "wf_tables st" "map_of (as_agents st) i = Some a"
  shows "built_agent a \<and> ag_id a = i"
  using assms by (auto simp: wf_tables_def list_all_iff dest: map_of_SomeD)

lemma enable_agent_stores:
  assumes "enable_agent i e st = Inr st'" "wf_tables st"
  shows "\<exists>b. built_agent b \<and> owner_step who st b \<and> st' = put_agent b st"
proof -
  from assms(1) obtain a b where a: "map_of (as_agents st) i = Some a"
    and b: "post_init (a\<lparr>ag_enabled := e\<rparr>) = Inr b" and st': "st' = st\<lparr>as_agents := AList.update i b (as_agents st)\<rparr>"
    by (auto simp: enable_agent_def split: option.splits if_splits sum.splits)
  from stored_agent [OF assms(2) a] have "built_agent a" "ag_id a = i" by auto
  with rebuilt [OF b \<open>built_agent a\<close>] built_owner [OF \<open>built_agent a\<close>] a st' show ?thesis
    by (auto simp: owner_step_def put_agent_def built_agent_def resource_bindings_def)
qed

lemma update_resources_stores:
  assumes "update_resource_bindings i u st = Inr st'" "wf_tables st" "call_ok (UpdateResources i u)"
  shows "\<exists>b. built_agent b \<and> owner_step who st b \<and> st' = put_agent b st"
proof -
  from assms(1) obtain a b where a: "map_of (as_agents st) i = Some a"
    and b: "post_init (a\<lparr>ag_prompts := ru_prompts u, ag_skills := ru_skills u,
         ag_memories := (case ru_memories u of None \<Rightarrow> ag_memories a | Some bs \<Rightarrow> bs), ag_mcps := ru_mcps u,
         ag_hooks := (case ru_hooks u of None \<Rightarrow> ag_hooks a | Some bs \<Rightarrow> bs),
         ag_mcp_allowlist := (case ru_mcp_allowlist u of None \<Rightarrow> ag_mcp_allowlist a | Some l \<Rightarrow> set l)\<rparr>) = Inr b"
    and st': "st' = st\<lparr>as_agents := AList.update i b (as_agents st)\<rparr>"
    by (auto simp: update_resource_bindings_def split: option.splits sum.splits)
  from stored_agent [OF assms(2) a] have built: "built_agent a" "ag_id a = i" by auto
  have bound: "list_all wf_binding (ag_memories a)" "list_all wf_binding (ag_hooks a)" "finite (ag_mcp_allowlist a)"
    using built(1) by (simp_all add: built_agent_def resource_bindings_def)
  have "list_all wf_binding (case ru_memories u of None \<Rightarrow> ag_memories a | Some bs \<Rightarrow> bs)"
    "list_all wf_binding (case ru_hooks u of None \<Rightarrow> ag_hooks a | Some bs \<Rightarrow> bs)"
    "finite (case ru_mcp_allowlist u of None \<Rightarrow> ag_mcp_allowlist a | Some l \<Rightarrow> set l)"
    using assms(3) bound by (auto split: option.split)
  moreover have "list_all wf_binding (ru_prompts u @ ru_skills u @ ru_mcps u)" using assms(3) by simp
  ultimately have "built_agent b \<and> ag_id b = ag_id a \<and> clean_owner (ag_owner a) = Some (ag_owner b)"
    using rebuilt [OF b built(1)] by (simp add: resource_bindings_def)
  with built_owner [OF built(1)] built a st' show ?thesis
    by (auto simp: owner_step_def put_agent_def)
qed

lemma list_all_update: "list_all P m \<Longrightarrow> P (k, v) \<Longrightarrow> list_all P (AList.update k v m)"
  using set_update_subset [of k v m] by (auto simp: list_all_iff)

lemma list_all_delete: "list_all P m \<Longrightarrow> list_all P (AList.delete k m)"
  by (auto simp: list_all_iff AList.delete_eq)

lemmas table_intros = list_all_update list_all_delete distinct_update distinct_delete

lemma put_agent_tables: "wf_tables st \<Longrightarrow> built_agent b \<Longrightarrow> wf_tables (put_agent b st)"
  by (simp add: wf_tables_def put_agent_def table_intros)

lemma default_tables [simp]: "wf_tables (st\<lparr>as_default := d\<rparr>) = wf_tables st"
  by (simp add: wf_tables_def)

lemma bind_all_tables:
  "distinct (map fst m) \<Longrightarrow> distinct (map fst (bind_all ks i m))"
  "list_all (\<lambda>(k, _). P k) m \<Longrightarrow> list_all P ks \<Longrightarrow> list_all (\<lambda>(k, _). P k) (bind_all ks i m)"
proof -
  have update: "distinct (map fst m) \<Longrightarrow> distinct (map fst (foldl (\<lambda>m k. AList.update k i m) m ks))" for m
    by (induction ks arbitrary: m) (simp_all add: distinct_update)
  show "distinct (map fst m) \<Longrightarrow> distinct (map fst (bind_all ks i m))"
    unfolding bind_all_def by (rule update) (rule distinct_map_filter)
  have update: "list_all (\<lambda>(k, _). P k) m \<Longrightarrow> list_all P ks \<Longrightarrow>
      list_all (\<lambda>(k, _). P k) (foldl (\<lambda>m k. AList.update k i m) m ks)" for m
    by (induction ks arbitrary: m) (simp_all add: list_all_update)
  show "list_all (\<lambda>(k, _). P k) m \<Longrightarrow> list_all P ks \<Longrightarrow> list_all (\<lambda>(k, _). P k) (bind_all ks i m)"
    unfolding bind_all_def by (rule update) (auto simp: list_all_iff)
qed

lemma all_ok_list: "all_ok f xs = Inr ys \<Longrightarrow> (\<And>x y. f x = Inr y \<Longrightarrow> P y) \<Longrightarrow> list_all P ys"
  by (induction xs arbitrary: ys) auto

lemma normalized: "normalize_channel c = Inr k \<Longrightarrow> k \<in> set channel_types"
  by (auto simp: normalize_channel_def Let_def split: if_splits)

lemma normalized_account: "k \<in> set channel_types \<Longrightarrow> wf_account_key (account_key k adapter account)"
  by (simp add: account_key_def wf_account_key_def cleaned fallbacks)

lemma relations_keys:
  assumes "relations channels accounts sessions = Inr (cs, acs, ss)"
  shows "list_all (\<lambda>c. c \<in> set channel_types) cs" "list_all wf_account_key acs"
proof -
  from assms have channels: "all_ok normalize_channel channels = Inr cs"
    and accounts: "all_ok (\<lambda>(c, adapter, account).
         and_then (normalize_channel c) (\<lambda>c. Inr (account_key c adapter account))) accounts = Inr acs"
    by (auto simp: relations_def Let_def split: if_splits)
  from channels show "list_all (\<lambda>c. c \<in> set channel_types) cs"
    by (rule all_ok_list) (rule normalized)
  from accounts show "list_all wf_account_key acs"
  proof (rule all_ok_list)
    fix x y
    assume "(case x of (c, adapter, account) \<Rightarrow>
         and_then (normalize_channel c) (\<lambda>c. Inr (account_key c adapter account))) = Inr y"
    then show "wf_account_key y"
      using normalized normalized_account by (cases x) auto
  qed
qed

lemma configure_stores:
  assumes "configure_agent who a cs acs ss d create st = Inr st'" "wf_tables st" "built_agent a"
    and "pred_option (\<lambda>p. solid (pr_subject p)) who"
  shows "wf_tables st' \<and> (\<exists>b. built_agent b \<and> owner_step who st b \<and>
    as_agents st' = AList.update (ag_id b) b (as_agents st))"
proof -
  from assms(1) obtain b cs' acs' ss' where rel: "relations cs acs ss = Inr (cs', acs', ss')"
    and b: "(case map_of (as_agents st) (ag_id a) of
           Some current \<Rightarrow> if create then Inl (AgentExists (ag_id a)) else preserve_owner current a
         | None \<Rightarrow> if create then bind_creation_owner who a else Inl (AgentUnknown (ag_id a))) = Inr b"
    and st': "st' = \<lparr>as_agents = AList.update (ag_id a) b (as_agents st),
        as_channels = bind_all cs' (ag_id a) (as_channels st), as_accounts = bind_all acs' (ag_id a) (as_accounts st),
        as_sessions = bind_all ss' (ag_id a) (as_sessions st),
        as_default = (if d then Some (ag_id a) else if as_default st = Some (ag_id a) then None else as_default st)\<rparr>"
    by (auto simp: configure_agent_def Let_def split: if_splits)
  have built: "built_agent b \<and> ag_id b = ag_id a \<and> owner_step who st b"
  proof (cases "map_of (as_agents st) (ag_id a)")
    case None
    with b have "bind_creation_owner who a = Inr b" by (auto split: if_splits)
    from creation_owner [OF this assms(3,4)] None show ?thesis by (simp add: owner_step_def)
  next
    case (Some current)
    with b have "preserve_owner current a = Inr b" by (auto split: if_splits)
    from preserved_owner [OF this _ assms(3)] stored_agent [OF assms(2) Some] Some
    show ?thesis by (simp add: owner_step_def)
  qed
  with assms(2) relations_keys [OF rel] st' have "wf_tables st'"
    by (simp add: wf_tables_def table_intros bind_all_tables)
  with built st' show ?thesis by auto
qed

lemma next_state_tables:
  assumes "next_state who call st = Inr (Some st')" "wf_tables st" "call_ok call"
    and "pred_option (\<lambda>p. solid (pr_subject p)) who"
  shows "wf_tables st' \<and>
    (as_agents st' = as_agents st \<or>
     (\<exists>b. built_agent b \<and> owner_step who st b \<and> as_agents st' = AList.update (ag_id b) b (as_agents st)) \<or>
     (\<exists>i. call = Remove i \<and> as_agents st' = AList.delete i (as_agents st)))"
proof -
  have stores: ?thesis if "built_agent b \<and> owner_step who st b"
    "st' = put_agent b st \<or> st' = (put_agent b st)\<lparr>as_default := d\<rparr>" for b d
  proof -
    from that put_agent_tables [OF assms(2)] have "wf_tables st'" by auto
    moreover from that have "as_agents st' = AList.update (ag_id b) b (as_agents st)"
      by (auto simp: put_agent_def)
    ultimately show ?thesis using that by blast
  qed
  show ?thesis
  proof (cases call)
    case (SetEnabled i e)
    with assms(1) have "enable_agent i e st = Inr st'" by (cases "enable_agent i e st") auto
    from enable_agent_stores [OF this assms(2), of who] stores show ?thesis by blast
  next
    case (UpdateResources i u)
    with assms(1) have "update_resource_bindings i u st = Inr st'"
      by (cases "update_resource_bindings i u st") auto
    from update_resources_stores [OF this assms(2), of who] assms(3) UpdateResources stores
    show ?thesis by blast
  next
    case (Register a)
    with assms(1) obtain b where b: "bind_creation_owner who a = Inr b" and fresh: "map_of (as_agents st) (ag_id a) = None"
      and st': "st' = put_agent b st \<or> st' = (put_agent b st)\<lparr>as_default := Some (ag_id b)\<rparr>"
      by (cases "register_agent who a st") (auto simp: register_agent_def Let_def split: if_splits)
    from creation_owner [OF b _ assms(4)] assms(3) Register fresh
    have "built_agent b \<and> owner_step who st b" by (simp add: owner_step_def)
    with st' stores show ?thesis by blast
  next
    case (Update a)
    with assms(1) obtain b current where current: "map_of (as_agents st) (ag_id a) = Some current"
      and b: "preserve_owner current a = Inr b" and st': "st' = put_agent b st"
      by (cases "update_agent a st") (auto simp: update_agent_def split: option.splits)
    from preserved_owner [OF b] stored_agent [OF assms(2) current] assms(3) Update current
    have "built_agent b \<and> owner_step who st b" by (simp add: owner_step_def)
    with st' stores show ?thesis by blast
  next
    case (Configure a cs acs ss d create)
    with assms(1) have "configure_agent who a cs acs ss d create st = Inr st'"
      by (cases "configure_agent who a cs acs ss d create st") auto
    from configure_stores [OF this assms(2) _ assms(4)] assms(3) Configure show ?thesis by auto
  qed (use assms in \<open>auto simp: map_sum_Inr remove_agent_def default_agent_def bind_channel_def unbind_channel_def
      bind_account_def unbind_account_def bind_session_def unbind_session_def wf_tables_def table_intros
      normalized normalized_account Let_def split: if_splits session_ref.splits\<close>)
qed

section \<open>The file and the memory agree\<close>

definition fresh_registry :: agent_registry where
  "fresh_registry = \<lparr>ar_persistent = True, ar_memory = empty_agents, ar_file = None\<rparr>"

definition registry_ok :: "agent_registry \<Rightarrow> bool" where
  "registry_ok r =
     (ar_persistent r \<and> wf_tables (ar_memory r) \<and> validate_state (ar_memory r) \<and>
      (case ar_file r of None \<Rightarrow> ar_memory r = empty_agents | Some j \<Rightarrow> j = serialize_state (ar_memory r)))"

lemma fresh_registry_ok: "registry_ok fresh_registry"
  by (simp add: registry_ok_def fresh_registry_def empty_agents_def wf_tables_def validate_state_def references_def)

lemma committed:
  "commit_state w st r = (f, r') \<Longrightarrow> registry_ok r \<Longrightarrow> wf_tables st \<Longrightarrow>
     registry_ok r' \<and> (ar_memory r' = st \<or> r' = r)"
  by (auto simp: commit_state_def registry_ok_def split: if_splits)

lemma served:
  assumes "serve_agents q r = (f, r')" "registry_ok r" "request_ok q"
  shows "registry_ok r' \<and>
    (as_agents (ar_memory r') = as_agents (ar_memory r) \<or>
     (\<exists>b. owner_step (rq_who q) (ar_memory r) b \<and>
        as_agents (ar_memory r') = AList.update (ag_id b) b (as_agents (ar_memory r))) \<or>
     (\<exists>i. rq_call q = Remove i \<and> as_agents (ar_memory r') = AList.delete i (as_agents (ar_memory r))))"
proof (cases "next_state (rq_who q) (rq_call q) (ar_memory r)")
  case (Inr n)
  show ?thesis
  proof (cases n)
    case (Some st)
    from assms(2) have "wf_tables (ar_memory r)" by (simp add: registry_ok_def)
    with next_state_tables [of "rq_who q" "rq_call q" "ar_memory r" st] assms(3) Inr Some
    have st: "wf_tables st" "as_agents st = as_agents (ar_memory r) \<or>
     (\<exists>b. owner_step (rq_who q) (ar_memory r) b \<and> as_agents st = AList.update (ag_id b) b (as_agents (ar_memory r))) \<or>
     (\<exists>i. rq_call q = Remove i \<and> as_agents st = AList.delete i (as_agents (ar_memory r)))"
      unfolding request_ok_def by auto
    from assms(1) Inr Some have "commit_state (rq_writes q) st r = (f, r')" by (simp add: serve_agents_def)
    from committed [OF this assms(2) st(1)] st(2) show ?thesis by auto
  qed (use assms Inr in \<open>simp add: serve_agents_def\<close>)
qed (use assms in \<open>simp add: serve_agents_def\<close>)

lemma serve_all_simps [simp]:
  "serve_all [] r = r" "serve_all (q # qs) r = serve_all qs (snd (serve_agents q r))"
  by (simp_all add: serve_all_def)

lemma serve_all_ok: "registry_ok r \<Longrightarrow> \<forall>q\<in>set qs. request_ok q \<Longrightarrow> registry_ok (serve_all qs r)"
proof (induction qs arbitrary: r)
  case (Cons q qs)
  from served [of q r] Cons.prems have "registry_ok (snd (serve_agents q r))"
    by (metis list.set_intros(1) prod.collapse)
  with Cons show ?case by simp
qed simp

definition same_answers :: "agent_state \<Rightarrow> agent_state \<Rightarrow> bool" where
  "same_answers st st' =
     (map_of (as_agents st) = map_of (as_agents st') \<and> list_agents st = list_agents st' \<and>
      (\<forall>c s. resolve_agent c s st = resolve_agent c s st') \<and>
      (\<forall>i. relation_summary i st = relation_summary i st'))"

lemma bound_to_sorted:
  assumes "distinct (map fst m)"
  shows "bound_to i (sort_key fst m) = bound_to i m"
  unfolding bound_to_def
  using assms by (intro sorted_distinct_set_unique) (simp_all add: distinct_map_filter)

lemma sorted_answers:
  assumes "wf_tables st"
  shows "same_answers (sorted_state st) st"
proof -
  from assms have lookups: "map_of (sort_key fst (as_agents st)) = map_of (as_agents st)"
    "map_of (sort_key fst (as_channels st)) = map_of (as_channels st)"
    "map_of (sort_key fst (as_accounts st)) = map_of (as_accounts st)"
    "map_of (sort_key fst (as_sessions st)) = map_of (as_sessions st)"
    by (simp_all add: wf_tables_def lookup_sorted)
  then have same: "map_of (as_agents (sorted_state st)) = map_of (as_agents st)"
    "map_of (as_channels (sorted_state st)) = map_of (as_channels st)"
    "map_of (as_accounts (sorted_state st)) = map_of (as_accounts st)"
    "map_of (as_sessions (sorted_state st)) = map_of (as_sessions st)"
    "as_default (sorted_state st) = as_default st"
    by (simp_all add: sorted_state_def)
  then have "require_enabled i (sorted_state st) = require_enabled i st" for i
    by (simp add: require_enabled_def)
  with same have "resolve_agent c s (sorted_state st) = resolve_agent c s st" for c s
    by (simp add: resolve_agent_def cong: option.case_cong)
  moreover have "relation_summary i (sorted_state st) = relation_summary i st" for i
    unfolding relation_summary_def same using assms
    by (simp add: sorted_state_def bound_to_sorted wf_tables_def) (force simp: map_of_eq_None_iff)
  moreover have "list_agents (sorted_state st) = list_agents st"
    by (simp add: list_agents_def sorted_state_def sort_key_id_if_sorted)
  ultimately show ?thesis using same by (simp add: same_answers_def)
qed

lemma reopened:
  assumes "registry_ok r"
  shows "(case open_registry (ar_file r) of
            Some r' \<Rightarrow> all_modelled (ar_memory r) \<and> same_answers (ar_memory r') (ar_memory r)
          | None \<Rightarrow> \<not> all_modelled (ar_memory r))"
proof (cases "ar_file r")
  case None
  with assms show ?thesis
    by (simp add: registry_ok_def open_registry_def all_modelled_def same_answers_def empty_agents_def)
next
  case (Some j)
  with assms have j: "j = serialize_state (ar_memory r)" "wf_tables (ar_memory r)" "validate_state (ar_memory r)"
    by (simp_all add: registry_ok_def)
  then show ?thesis
    using Some state_reads_back [of "ar_memory r"] modelless_state_unreadable [of "ar_memory r"] sorted_answers [of "ar_memory r"]
    by (cases "all_modelled (ar_memory r)") (simp_all add: open_registry_def)
qed

text \<open>C12. The registry and its file. After any sequence of requests on a new registry, whether their
  writes succeed or fail, every binding and the default name a registered Agent, and the process
  that opens the file next answers every query as this one does - except when an Agent has no
  model candidate, and then it cannot open the file.\<close>

theorem registry_survives_restart:
  assumes "\<forall>q\<in>set qs. request_ok q"
  shows "let r = serve_all qs fresh_registry in
    references (ar_memory r) \<subseteq> fst ` set (as_agents (ar_memory r)) \<and>
    (case open_registry (ar_file r) of
       Some r' \<Rightarrow> all_modelled (ar_memory r) \<and> same_answers (ar_memory r') (ar_memory r)
     | None \<Rightarrow> \<not> all_modelled (ar_memory r))"
  using reopened [OF serve_all_ok [OF fresh_registry_ok assms]] serve_all_ok [OF fresh_registry_ok assms]
  by (simp add: Let_def registry_ok_def validate_state_def)

text \<open>A run: an Agent is registered by its creator, made the default, bound to a session and
  updated; one write fails.\<close>

definition pilot_binding :: resource_binding where
  "pilot_binding = \<lparr>rb_id = ''notes'', rb_type = ''memory'', rb_version = ''1'', rb_sha256 = replicate 64 CHR ''a'',
     rb_enabled = True, rb_permissions = [''read''], rb_source = ''local'', rb_policy = ''fixed''\<rparr>"

definition pilot_agent :: agent_definition where
  "pilot_agent = blank_model_agent\<lparr>ag_models := [''m1''], ag_memories := [pilot_binding], ag_mcp_allowlist := {''srv.read''}\<rparr>"

definition pilot_creator :: "principal option" where
  "pilot_creator = make_principal ''root'' ''admin'' [] True"

definition pilot_context :: channel_context where
  "pilot_context = make_context ''telegram'' ''tg'' ''bot'' ''c2c:7'' ''7''"

definition pilot_requests :: "agent_request list" where
  "pilot_requests = map (\<lambda>(c, w). \<lparr>rq_who = pilot_creator, rq_call = c, rq_writes = w\<rparr>)
     [(Register pilot_agent, True), (SetDefault ''sales'', True), (BindChannel ''telegram'' ''sales'', False),
      (BindSession (SessionOf pilot_context) ''sales'', True), (Remove ''sales'', True),
      (SetEnabled ''sales'' False, True), (Update (pilot_agent\<lparr>ag_enabled := False\<rparr>), True)]"

lemma pilot_agent_built: "built_agent (pilot_agent\<lparr>ag_enabled := e\<rparr>)"
proof -
  have "wf_agent (pilot_agent\<lparr>ag_enabled := True\<rparr>)" "wf_agent (pilot_agent\<lparr>ag_enabled := False\<rparr>)"
    "list_all wf_binding (resource_bindings pilot_agent)" "solid (pr_subject (the pilot_creator))"
    by code_simp+
  then show ?thesis
    by (cases e) (simp_all add: built_agent_def resource_bindings_def pilot_agent_def blank_model_agent_def)
qed

lemma pilot_requests_ok: "\<forall>q\<in>set pilot_requests. request_ok q"
proof -
  have "built_agent pilot_agent" using pilot_agent_built [of True] by (simp add: pilot_agent_def blank_model_agent_def)
  moreover have "pilot_creator = Some (the pilot_creator)" "solid (pr_subject (the pilot_creator))" by code_simp+
  then have "pred_option (\<lambda>p. solid (pr_subject p)) pilot_creator" by (metis option.pred_inject(2))
  ultimately show ?thesis using pilot_agent_built [of False] by (simp add: pilot_requests_def request_ok_def)
qed

theorem registry_survives_restart_witness:
  "let r = serve_all pilot_requests fresh_registry in
    map fst (as_agents (ar_memory r)) = [''sales''] \<and> as_channels (ar_memory r) = [] \<and>
    (case open_registry (ar_file r) of
       Some r' \<Rightarrow> resolve_agent pilot_context None (ar_memory r') = Inl (Some (AgentDisabled ''sales'')) \<and>
         same_answers (ar_memory r') (ar_memory r)
     | None \<Rightarrow> False)"
proof -
  let ?r = "serve_all pilot_requests fresh_registry"
  have run: "map fst (as_agents (ar_memory ?r)) = [''sales'']" "as_channels (ar_memory ?r) = []"
    "all_modelled (ar_memory ?r)" "resolve_agent pilot_context None (ar_memory ?r) = Inl (Some (AgentDisabled ''sales''))"
    by code_simp+
  with registry_survives_restart [OF pilot_requests_ok] show ?thesis
    by (auto simp: Let_def same_answers_def split: option.splits)
qed

section \<open>Owners\<close>

definition owner_of :: "string \<Rightarrow> agent_registry \<Rightarrow> string option option" where
  "owner_of i r = map_option ag_owner (map_of (as_agents (ar_memory r)) i)"

lemma served_owner:
  assumes "serve_agents q r = (f, r')" "registry_ok r" "request_ok q"
  shows "owner_of i r' = owner_of i r \<or> rq_call q = Remove i \<or>
    (owner_of i r = None \<and>
     (owner_of i r' = Some None \<or>
      (\<exists>p. rq_who q = Some p \<and> pr_is_creator p \<and> owner_of i r' = Some (Some (pr_subject p)))))"
  using served [OF assms]
  by (cases "map_of (as_agents (ar_memory r)) i") (auto simp: owner_of_def owner_step_def update_conv delete_conv split: option.splits if_splits)

lemma owner_kept:
  "registry_ok r \<Longrightarrow> \<forall>q\<in>set qs. request_ok q \<and> rq_call q \<noteq> Remove i \<Longrightarrow> owner_of i r = Some w \<Longrightarrow>
     owner_of i (serve_all qs r) = Some w"
proof (induction qs arbitrary: r)
  case (Cons q qs)
  obtain f r' where q: "serve_agents q r = (f, r')" by fastforce
  from served [OF q] served_owner [OF q, of i] Cons.prems
  have "registry_ok r'" "owner_of i r' = Some w" by auto
  with Cons q show ?case by simp
qed simp

text \<open>C14. An Agent keeps its owner. Once an Agent is registered, no sequence of requests - updates that
  name another owner or none, reconfigurations, failed writes - changes who owns it, or gives one
  to an Agent without owner, until the Agent is removed; and an Agent that a request has added
  has no owner, or the creator who made that request.\<close>

theorem agents_keep_their_owner:
  assumes "\<forall>q\<in>set (before @ q # after). request_ok q" "\<forall>q\<in>set after. rq_call q \<noteq> Remove i"
    and "owner_of i (serve_all before fresh_registry) = None"
    and "owner_of i (serve_all (before @ [q]) fresh_registry) = Some w"
  shows "owner_of i (serve_all (before @ q # after) fresh_registry) = Some w \<and>
    (w = None \<or> (\<exists>p. rq_who q = Some p \<and> pr_is_creator p \<and> w = Some (pr_subject p)))"
proof -
  let ?r = "serve_all before fresh_registry"
  obtain f r' where q: "serve_agents q ?r = (f, r')" by fastforce
  have ok: "registry_ok ?r" by (rule serve_all_ok [OF fresh_registry_ok]) (use assms(1) in simp)
  from assms(4) q have r': "owner_of i r' = Some w" by (simp add: serve_all_def)
  from served [OF q ok] assms(1) have "registry_ok r'" by simp
  with owner_kept [of r' after i w] assms(1,2) r' have "owner_of i (serve_all after r') = Some w" by simp
  moreover have "serve_all (before @ q # after) fresh_registry = serve_all after r'"
    using q by (simp add: serve_all_def)
  moreover have "rq_call q \<noteq> Remove i \<or> owner_of i r' = None"
    using q assms(3) by (auto simp: serve_agents_def remove_agent_def owner_of_def)
  ultimately show ?thesis
    using served_owner [OF q ok, of i] assms(1,3) r' by auto
qed

definition pilot_after :: "agent_request list" where
  "pilot_after = take 3 (tl pilot_requests) @ drop 5 pilot_requests"

theorem agents_keep_their_owner_witness:
  "owner_of ''sales'' (serve_all ([] @ hd pilot_requests # pilot_after) fresh_registry) = Some (Some ''root'')"
proof -
  have after: "\<forall>q\<in>set pilot_after. rq_call q \<noteq> Remove ''sales''"
    by (simp add: pilot_after_def pilot_requests_def)
  have ok: "\<forall>q\<in>set ([] @ hd pilot_requests # pilot_after). request_ok q"
    using pilot_requests_ok by (simp add: pilot_after_def pilot_requests_def)
  have "owner_of ''sales'' (serve_all [] fresh_registry) = None"
    "owner_of ''sales'' (serve_all ([] @ [hd pilot_requests]) fresh_registry) = Some (Some ''root'')"
    by code_simp+
  from agents_keep_their_owner [OF ok after this] show ?thesis by simp
qed

section \<open>Sessions\<close>

lemma resolve_same:
  assumes "map_of (as_sessions st') (session_key d) = map_of (as_sessions st) (session_key d)"
    and "map_of (as_sessions st') (legacy_session_key d) = map_of (as_sessions st) (legacy_session_key d)"
    and "as_agents st' = as_agents st" "as_accounts st' = as_accounts st" "as_channels st' = as_channels st"
    and "as_default st' = as_default st"
  shows "resolve_agent d s st' = resolve_agent d s st"
proof -
  have "require_enabled i st' = require_enabled i st" for i
    using assms(3) by (simp add: require_enabled_def)
  then show ?thesis using assms by (simp add: resolve_agent_def cong: option.case_cong)
qed

text \<open>C13. A session binding is private to its session. Binding an Agent to the session of one channel
  context makes that Agent answer there when the caller names none, and changes the Agent of no
  other context - another sender, conversation, account, adapter or channel - whatever the
  identifiers are, also when that context is looked up by its key in the old format.\<close>

theorem session_bindings_are_private:
  assumes "bind_session (SessionOf (from_message a e)) i st = Inr st'"
  shows "(\<exists>b. require_enabled i st = Inr b \<and> resolve_agent (from_message a e) None st' = Inr b) \<and>
    (from_message a' e' = from_message a e \<or>
     resolve_agent (from_message a' e') s st' = resolve_agent (from_message a' e') s st)"
proof -
  let ?c = "from_message a e" and ?d = "from_message a' e'"
  from assms obtain b where enabled: "require_enabled i st = Inr b"
    and st': "st' = st\<lparr>as_sessions := AList.update (session_key ?c) i (as_sessions st)\<rparr>"
    by (auto simp: bind_session_def Let_def)
  have "require_enabled i st' = Inr b" using enabled st' by (simp add: require_enabled_def)
  then have "resolve_agent ?c None st' = Inr b"
    by (simp add: resolve_agent_def st' first_some_def update_conv)
  moreover have "resolve_agent ?d s st' = resolve_agent ?d s st" if "?d \<noteq> ?c"
    using session_key_inj [of ?d ?c] legacy_key_is_session_key [of ?c ?d] from_message_wf that
    by (intro resolve_same) (auto simp: st' update_conv)
  ultimately show ?thesis using enabled by auto
qed

definition telegram_view :: adapter_view where
  "telegram_view = \<lparr>av_channel_type = Some ''telegram'', av_adapter_type = None, av_class_name = ''TelegramAdapter'',
     av_instance = Some ''tg'', av_name = None, av_account_scope = None, av_account_id = Some ''bot/1'', av_config = []\<rparr>"

definition telegram_event :: "string \<Rightarrow> event_origin" where
  "telegram_event user =
     \<lparr>ev_sender = \<lparr>snd_display_name = user, snd_user_id = user, snd_chat_type = C2C, snd_group_id = None\<rparr>,
      ev_self_id = None\<rparr>"

definition bound_state :: "channel_context \<Rightarrow> agent_state" where
  "bound_state c = empty_agents\<lparr>as_agents := [(''sales'', pilot_agent)], as_sessions := [(session_key c, ''sales'')]\<rparr>"

theorem session_bindings_are_private_witness:
  "let c = from_message telegram_view (telegram_event ''7''); d = from_message telegram_view (telegram_event ''c2c:7'') in
   cc_account c = ''bot/1'' \<and> resolve_agent c None (bound_state c) = Inr pilot_agent \<and>
   resolve_agent d None (bound_state c) = Inl None"
proof -
  let ?st = "empty_agents\<lparr>as_agents := [(''sales'', pilot_agent)]\<rparr>"
  let ?c = "from_message telegram_view (telegram_event ''7'')"
  have "normalize_channel (before_slash (session_key ?c)) = Inr ''telegram''" by code_simp
  moreover have enabled: "require_enabled ''sales'' ?st = Inr pilot_agent"
    by (simp add: require_enabled_def pilot_agent_def blank_model_agent_def)
  ultimately have bound: "bind_session (SessionOf ?c) ''sales'' ?st = Inr (bound_state ?c)"
    by (simp add: bind_session_def bound_state_def and_then_def empty_agents_def)
  have none: "resolve_agent d None ?st = Inl None" for d
    by (simp add: resolve_agent_def first_some_def empty_agents_def)
  have "cc_account ?c = ''bot/1''" "from_message telegram_view (telegram_event ''c2c:7'') \<noteq> ?c"
    by code_simp+
  with session_bindings_are_private [OF bound, where a' = telegram_view and e' = "telegram_event ''c2c:7''" and s = None]
    none enabled
  show ?thesis by (auto simp: Let_def)
qed

section \<open>What the constructors let through\<close>

text \<open>An Agent whose model candidates are blank registers and is saved; the saved file does not
  open.\<close>

lemma blank_model_stops_the_restart:
  "let r = serve_all [\<lparr>rq_who = None, rq_call = Register (blank_model_agent\<lparr>ag_models := []\<rparr>), rq_writes = True\<rparr>]
      fresh_registry
   in ar_file r \<noteq> None \<and> open_registry (ar_file r) = None"
  by code_simp

text \<open>An update disables the default Agent, which \<open>set_enabled\<close> refuses to do.\<close>

lemma update_disables_the_default:
  "let st = empty_agents\<lparr>as_agents := [(''sales'', pilot_agent)], as_default := Some ''sales''\<rparr> in
   enable_agent ''sales'' False st = Inl (AgentInUse ''sales'') \<and>
   update_agent (pilot_agent\<lparr>ag_enabled := False\<rparr>) st =
     Inr (st\<lparr>as_agents := [(''sales'', pilot_agent\<lparr>ag_enabled := False\<rparr>)]\<rparr>)"
  by (simp add: enable_agent_def update_agent_def preserve_owner_def put_agent_def pilot_agent_def
      blank_model_agent_def and_then_def Let_def)

text \<open>An owner with other than ASCII characters cannot be named again, not even by itself.\<close>

lemma owner_not_comparable:
  "preserve_owner (pilot_agent\<lparr>ag_owner := Some [CHR 0xE9]\<rparr>) (pilot_agent\<lparr>ag_owner := Some [CHR 0xE9]\<rparr>) =
     Inl OwnerNotComparable"
  by (simp add: preserve_owner_def compare_digest_def pilot_agent_def blank_model_agent_def)

end
