(* ===== verification/Agent_Confirmation.thy ===== *)
theory Agent_Confirmation
  imports Agent_Definition
begin

text \<open>
  Tool calls of an Agent that wait for a confirmation: the confirmation records of \<open>SessionStore\<close>
  (\<open>agent_runtime/session_store.py\<close>), their file, and the claim with which
  \<open>AgentRuntime.confirm\<close> (\<open>agent_runtime/executor.py\<close>) starts the call.

  The store is \<open>pending.json\<close>: absent, not readable or not of the format, or a list of records. A
  transaction holds the lock of the store across threads and processes, so a history is a sequence
  of operations. Instants are seconds, SHA-256 is the parameter \<open>sha\<close>, and \<open>'p\<close> are the fields of a
  record that the store only carries (the call, the messages, the snapshot). \<open>None\<close> is an exception.
\<close>

section \<open>Records\<close>

datatype confirmation_status = CfAwaiting | CfExecuting | CfSucceeded | CfFailed | CfExpired

record 'p confirmation =
  cf_id :: string
  cf_session :: string
  cf_status :: confirmation_status
  cf_correlation :: "string option"
  cf_created :: seconds
  cf_updated :: seconds
  cf_expires :: seconds
  cf_error :: "string option"
  cf_payload :: 'p

text \<open>A record of the file: one of this format, or one of the older format, which has the five parts
  of the channel context in place of a status and of times.\<close>

datatype 'p stored_confirmation =
    Stored "'p confirmation"
  | StoredOld string "string list" "string option" 'p

datatype 'p pending_file = NoPendingFile | BadPendingFile | PendingFile "'p stored_confirmation list"

text \<open>What an operation reads of its surroundings: the clock when it loads the file, when it checks
  the expiry and when it stamps the record; a fresh identifier; and whether its writes succeed.\<close>

record store_env =
  se_load :: seconds
  se_check :: seconds
  se_stamp :: seconds
  se_fresh :: string
  se_first_write :: bool
  se_write :: bool

definition active_status :: "confirmation_status \<Rightarrow> bool" where
  "active_status s = (s \<in> {CfAwaiting, CfExecuting})"

definition validate_confirmation :: "'p confirmation \<Rightarrow> 'p confirmation option" where
  "validate_confirmation r =
     (if cf_id r \<noteq> [] \<and> is_sha256 (cf_session r) \<and>
         (case cf_correlation r of None \<Rightarrow> True | Some c \<Rightarrow> c \<noteq> [] \<and> length c \<le> 64)
      then Some r else None)"

definition upgrade_confirmation ::
    "(string \<Rightarrow> string) \<Rightarrow> seconds \<Rightarrow> seconds \<Rightarrow> 'p stored_confirmation \<Rightarrow> 'p confirmation" where
  "upgrade_confirmation sha ttl now s =
     (case s of
        Stored r \<Rightarrow> r
      | StoredOld i parts correlation p \<Rightarrow>
          \<lparr>cf_id = i, cf_session = sha (join_slash parts), cf_status = CfAwaiting, cf_correlation = correlation,
           cf_created = now, cf_updated = now, cf_expires = now + ttl, cf_error = None, cf_payload = p\<rparr>)"

definition load_confirmation_payload ::
    "(string \<Rightarrow> string) \<Rightarrow> seconds \<Rightarrow> seconds \<Rightarrow> 'p pending_file \<Rightarrow> (string \<times> 'p confirmation) list option" where
  "load_confirmation_payload sha ttl now f =
     (case f of
        NoPendingFile \<Rightarrow> Some []
      | BadPendingFile \<Rightarrow> None
      | PendingFile items \<Rightarrow>
          (case those (map (validate_confirmation \<circ> upgrade_confirmation sha ttl now) items) of
             None \<Rightarrow> None
           | Some rs \<Rightarrow> if distinct (map cf_id rs) then Some (map (\<lambda>r. (cf_id r, r)) rs) else None))"

definition write_confirmations :: "(string \<times> 'p confirmation) list \<Rightarrow> 'p pending_file" where
  "write_confirmations records = PendingFile (map (Stored \<circ> snd) (sort_key fst records))"

definition transition_to :: "seconds \<Rightarrow> confirmation_status \<Rightarrow> string option \<Rightarrow> 'p confirmation \<Rightarrow> 'p confirmation option" where
  "transition_to now status err r =
     validate_confirmation
       (r\<lparr>cf_status := status, cf_updated := now,
          cf_error := (case err of Some e \<Rightarrow> if e = [] then None else Some (take 128 e) | None \<Rightarrow> None)\<rparr>)"

definition is_expired :: "seconds \<Rightarrow> 'p confirmation \<Rightarrow> bool" where
  "is_expired now r = (cf_expires r \<le> now)"

section \<open>Operations\<close>

text \<open>An operation returns its result, or \<open>None\<close>, and the file it leaves.\<close>

type_synonym ('a, 'p) store_result = "'a option \<times> 'p pending_file"

definition store_change ::
    "bool \<Rightarrow> 'a \<Rightarrow> (string \<times> 'p confirmation) list \<Rightarrow> 'p pending_file \<Rightarrow> ('a, 'p) store_result" where
  "store_change writes x records f = (if writes then (Some x, write_confirmations records) else (None, f))"

definition save_pending ::
    "(string \<Rightarrow> string) \<Rightarrow> seconds \<Rightarrow> store_env \<Rightarrow> string \<Rightarrow> string option \<Rightarrow> 'p \<Rightarrow> string \<Rightarrow> 'p pending_file \<Rightarrow>
     (unit, 'p) store_result" where
  "save_pending sha ttl env i correlation p session f =
     (if i = [] then (None, f)
      else case load_confirmation_payload sha ttl (se_load env) f of
             None \<Rightarrow> (None, f)
           | Some records \<Rightarrow>
               (case validate_confirmation
                       \<lparr>cf_id = i, cf_session = sha session, cf_status = CfAwaiting, cf_correlation = correlation,
                        cf_created = se_stamp env, cf_updated = se_stamp env, cf_expires = se_stamp env + ttl,
                        cf_error = None, cf_payload = p\<rparr> of
                  None \<Rightarrow> (None, f)
                | Some r \<Rightarrow>
                    if map_of records i \<noteq> None then (None, f)
                    else store_change (se_write env) () (AList.update i r records) f))"

datatype claim_outcome = ClaimNotFound | ClaimMismatch | ClaimOutcome confirmation_status

text \<open>The part of the claim after the correlation identifier is known.\<close>

definition claim_record ::
    "(string \<Rightarrow> string) \<Rightarrow> store_env \<Rightarrow> string \<Rightarrow> string \<Rightarrow> 'p confirmation \<Rightarrow> (string \<times> 'p confirmation) list \<Rightarrow>
     'p pending_file \<Rightarrow> (claim_outcome \<times> 'p confirmation option, 'p) store_result" where
  "claim_record sha env i session r records f =
     (if cf_session r \<noteq> sha session then (Some (ClaimMismatch, Some r), f)
      else if cf_status r \<noteq> CfAwaiting then (Some (ClaimOutcome (cf_status r), Some r), f)
      else
        (let (status, err) = (if is_expired (se_check env) r then (CfExpired, Some ''ConfirmationExpired'')
                              else (CfExecuting, None))
         in case transition_to (se_stamp env) status err r of
              None \<Rightarrow> (None, f)
            | Some r' \<Rightarrow>
                store_change (se_write env) (ClaimOutcome status, Some r') (AList.update i r' records) f))"

definition claim_pending ::
    "(string \<Rightarrow> string) \<Rightarrow> seconds \<Rightarrow> store_env \<Rightarrow> string \<Rightarrow> string \<Rightarrow> 'p pending_file \<Rightarrow>
     (claim_outcome \<times> 'p confirmation option, 'p) store_result" where
  "claim_pending sha ttl env i session f =
     (case load_confirmation_payload sha ttl (se_load env) f of
        None \<Rightarrow> (None, f)
      | Some records \<Rightarrow>
          (case map_of records i of
             None \<Rightarrow> (Some (ClaimNotFound, None), f)
           | Some r \<Rightarrow>
               if cf_correlation r = None
               then (let r' = r\<lparr>cf_correlation := Some (se_fresh env)\<rparr>;
                         records' = AList.update i r' records
                     in if se_first_write env
                        then claim_record sha env i session r' records' (write_confirmations records')
                        else (None, f))
               else claim_record sha env i session r records f))"

definition complete_pending ::
    "(string \<Rightarrow> string) \<Rightarrow> seconds \<Rightarrow> store_env \<Rightarrow> string \<Rightarrow> confirmation_status \<Rightarrow> string option \<Rightarrow>
     'p pending_file \<Rightarrow> ('p confirmation, 'p) store_result" where
  "complete_pending sha ttl env i status err f =
     (if status \<notin> {CfSucceeded, CfFailed, CfExpired} then (None, f)
      else case load_confirmation_payload sha ttl (se_load env) f of
             None \<Rightarrow> (None, f)
           | Some records \<Rightarrow>
               (case map_of records i of
                  None \<Rightarrow> (None, f)
                | Some r \<Rightarrow>
                    if cf_status r = status then (Some r, f)
                    else if cf_status r \<noteq> CfExecuting then (None, f)
                    else (case transition_to (se_stamp env) status err r of
                            None \<Rightarrow> (None, f)
                          | Some r' \<Rightarrow> store_change (se_write env) r' (AList.update i r' records) f)))"


definition load_confirmations ::
    "(string \<Rightarrow> string) \<Rightarrow> seconds \<Rightarrow> store_env \<Rightarrow> 'p pending_file \<Rightarrow> 'p confirmation list option" where
  "load_confirmations sha ttl env f =
     map_option (\<lambda>records. map snd (sort_key fst records)) (load_confirmation_payload sha ttl (se_load env) f)"

definition load_pending ::
    "(string \<Rightarrow> string) \<Rightarrow> seconds \<Rightarrow> store_env \<Rightarrow> 'p pending_file \<Rightarrow> 'p confirmation list option" where
  "load_pending sha ttl env f =
     map_option (filter (\<lambda>r. active_status (cf_status r))) (load_confirmations sha ttl env f)"

definition delete_pending ::
    "(string \<Rightarrow> string) \<Rightarrow> seconds \<Rightarrow> store_env \<Rightarrow> string \<Rightarrow> 'p pending_file \<Rightarrow> (unit, 'p) store_result" where
  "delete_pending sha ttl env i f =
     (case load_confirmation_payload sha ttl (se_load env) f of
        None \<Rightarrow> (None, f)
      | Some records \<Rightarrow>
          (case map_of records i of
             None \<Rightarrow> (Some (), f)
           | Some r \<Rightarrow>
               if \<not> active_status (cf_status r) then (Some (), f)
               else store_change (se_write env) () (AList.delete i records) f))"

section \<open>Histories\<close>

text \<open>\<open>AgentRuntime.confirm\<close> goes on to the tool call exactly when the claim says \<open>executing\<close>.\<close>

definition confirm_proceeds :: "(claim_outcome \<times> 'p confirmation option) option \<Rightarrow> bool" where
  "confirm_proceeds x = (case x of Some (outcome, _) \<Rightarrow> outcome = ClaimOutcome CfExecuting | None \<Rightarrow> False)"

datatype 'p confirmation_event =
    SaveEvent store_env string "string option" 'p string
  | ConfirmEvent store_env string string
  | CompleteEvent store_env string confirmation_status "string option"
  | DeleteEvent store_env string

text \<open>The file, and the confirmations whose call has been started, in order.\<close>

fun confirmation_step ::
    "(string \<Rightarrow> string) \<Rightarrow> seconds \<Rightarrow> 'p confirmation_event \<Rightarrow> 'p pending_file \<times> string list \<Rightarrow>
     'p pending_file \<times> string list" where
  "confirmation_step sha ttl (SaveEvent env i c p session) (f, started) =
     (snd (save_pending sha ttl env i c p session f), started)"
| "confirmation_step sha ttl (ConfirmEvent env i session) (f, started) =
     (case claim_pending sha ttl env i session f of
        (x, f') \<Rightarrow> (f', if confirm_proceeds x then started @ [i] else started))"
| "confirmation_step sha ttl (CompleteEvent env i s err) (f, started) =
     (snd (complete_pending sha ttl env i s err f), started)"
| "confirmation_step sha ttl (DeleteEvent env i) (f, started) =
     (snd (delete_pending sha ttl env i f), started)"

definition on_disk :: "'p pending_file \<Rightarrow> string \<Rightarrow> confirmation_status \<Rightarrow> bool" where
  "on_disk f i s =
     (case f of
        PendingFile items \<Rightarrow>
          list_ex (\<lambda>x. case x of Stored r \<Rightarrow> cf_id r = i \<and> cf_status r = s | StoredOld _ _ _ _ \<Rightarrow> False) items
      | _ \<Rightarrow> False)"

lemma on_disk_iff:
  "on_disk f i s \<longleftrightarrow> (\<exists>items r. f = PendingFile items \<and> Stored r \<in> set items \<and> cf_id r = i \<and> cf_status r = s)"
proof (cases f)
  case (PendingFile items)
  have "list_ex (\<lambda>x. case x of Stored r \<Rightarrow> cf_id r = i \<and> cf_status r = s | StoredOld _ _ _ _ \<Rightarrow> False) items \<longleftrightarrow>
      (\<exists>r. Stored r \<in> set items \<and> cf_id r = i \<and> cf_status r = s)"
    by (induction items) (auto split: stored_confirmation.splits)
  with PendingFile show ?thesis by (simp add: on_disk_def)
qed (simp_all add: on_disk_def)

lemma validated: "validate_confirmation r = Some r' \<Longrightarrow> r' = r"
  by (auto simp: validate_confirmation_def split: if_splits)

lemma loaded_status:
  assumes "load_confirmation_payload sha ttl t f = Some records" "on_disk f i s"
  shows "\<exists>r. map_of records i = Some r \<and> cf_id r = i \<and> cf_status r = s"
proof -
  from assms(2) obtain items r where f: "f = PendingFile items" and r: "Stored r \<in> set items" "cf_id r = i" "cf_status r = s"
    by (auto simp: on_disk_iff)
  from assms(1) f obtain rs where rs: "those (map (validate_confirmation \<circ> upgrade_confirmation sha ttl t) items) = Some rs"
    and distinct: "distinct (map cf_id rs)" and records: "records = map (\<lambda>r. (cf_id r, r)) rs"
    by (auto simp: load_confirmation_payload_def split: option.splits if_splits)
  from those_member [OF rs r(1)] have "r \<in> set rs"
    by (auto simp: upgrade_confirmation_def dest: validated)
  with distinct r records have "map_of records i = Some r"
    by (intro map_of_is_SomeI) (auto simp: comp_def)
  with r show ?thesis by blast
qed

lemma written_status:
  assumes "map_of records i = Some r" "cf_id r = i" "cf_status r = s"
  shows "on_disk (write_confirmations records) i s"
  using map_of_SomeD [OF assms(1)] assms(2,3) by (force simp: on_disk_iff write_confirmations_def)

lemma changed_status:
  assumes "map_of records i = Some r" "cf_id r = i" "cf_status r = s" "on_disk f i s"
  shows "on_disk (snd (store_change w x records f)) i s"
  using assms(4) written_status [OF assms(1-3)] by (cases w) (simp_all add: store_change_def)

lemma updated_other: "j \<noteq> i \<Longrightarrow> map_of (AList.update j v m) i = map_of m i"
  by (simp add: update_conv')

lemma save_keeps:
  assumes "on_disk f i s"
  shows "on_disk (snd (save_pending sha ttl env j c p session f)) i s"
  using assms
  by (cases "j = i") (auto simp: save_pending_def updated_other split: option.splits
      dest!: loaded_status intro!: changed_status)

lemma complete_keeps:
  assumes "on_disk f i s" "\<not> active_status s"
  shows "on_disk (snd (complete_pending sha ttl env j s' err f)) i s"
  using assms
  by (cases "j = i") (auto simp: complete_pending_def active_status_def updated_other split: option.splits
      dest!: loaded_status intro!: changed_status)

lemma delete_keeps:
  assumes "on_disk f i s" "\<not> active_status s"
  shows "on_disk (snd (delete_pending sha ttl env j f)) i s"
  using assms
  by (cases "j = i") (auto simp: delete_pending_def delete_conv' split: option.splits
      dest!: loaded_status intro!: changed_status)

lemma claim_record_keeps:
  assumes "map_of records i = Some ri" "cf_id ri = i" "cf_status ri = s" "on_disk f i s" "\<not> active_status s"
    and "map_of records j = Some r"
  shows "on_disk (snd (claim_record sha env j session r records f)) i s \<and>
    (\<not> confirm_proceeds (fst (claim_record sha env j session r records f)) \<or> j \<noteq> i)"
proof (cases "j = i")
  case True
  with assms show ?thesis by (auto simp: claim_record_def active_status_def confirm_proceeds_def)
next
  case False
  with assms(1-4) show ?thesis
    by (auto simp: claim_record_def Let_def updated_other split: option.splits prod.splits intro!: changed_status)
qed

lemma claim_keeps:
  assumes "on_disk f i s" "\<not> active_status s"
  shows "on_disk (snd (claim_pending sha ttl env j session f)) i s \<and>
    (\<not> confirm_proceeds (fst (claim_pending sha ttl env j session f)) \<or> j \<noteq> i)"
proof (cases "load_confirmation_payload sha ttl (se_load env) f")
  case (Some records)
  from loaded_status [OF Some assms(1)] obtain ri
    where ri: "map_of records i = Some ri" "cf_id ri = i" "cf_status ri = s" by blast
  show ?thesis
  proof (cases "map_of records j")
    case None
    with assms(1) Some show ?thesis
      by (cases "j = i") (simp_all add: claim_pending_def confirm_proceeds_def)
  next
    case (Some r)
    let ?r = "r\<lparr>cf_correlation := Some (se_fresh env)\<rparr>"
    let ?records = "AList.update j ?r records"
    obtain ri' where ri': "map_of ?records i = Some ri'" "cf_id ri' = i" "cf_status ri' = s"
      using ri Some by (cases "j = i") (auto simp: update_conv')
    have new: "map_of ?records j = Some ?r" by (simp add: update_conv')
    note load = \<open>load_confirmation_payload sha ttl (se_load env) f = Some records\<close>
    show ?thesis
    proof (cases "cf_correlation r")
      case None
      with claim_record_keeps [OF ri' written_status [OF ri'] assms(2) new] assms(1) load Some
      show ?thesis by (cases "se_first_write env") (simp_all add: claim_pending_def Let_def, simp add: confirm_proceeds_def)
    next
      case (Some c)
      with claim_record_keeps [OF ri assms \<open>map_of records j = Some r\<close>] load \<open>map_of records j = Some r\<close>
      show ?thesis by (simp add: claim_pending_def)
    qed
  qed
qed (use assms in \<open>simp add: claim_pending_def confirm_proceeds_def\<close>)

lemma finished_stays:
  assumes "on_disk f i s" "\<not> active_status s" "i \<notin> set started"
  shows "on_disk (fst (fold (confirmation_step sha ttl) es (f, started))) i s \<and>
    i \<notin> set (snd (fold (confirmation_step sha ttl) es (f, started)))"
  using assms
proof (induction es arbitrary: f started)
  case (Cons e es)
  obtain f' started' where step: "confirmation_step sha ttl e (f, started) = (f', started')" by fastforce
  have "on_disk f' i s \<and> i \<notin> set started'"
  proof (cases e)
    case (ConfirmEvent env j session)
    with claim_keeps [OF Cons.prems(1,2), of sha ttl env j session] step Cons.prems(3) show ?thesis
      by (auto split: prod.splits if_splits)
  qed (use step Cons.prems save_keeps complete_keeps delete_keeps in auto)
  with Cons.IH Cons.prems(2) step show ?case by simp
qed simp

section \<open>Loading what was written\<close>

definition wf_records :: "(string \<times> 'p confirmation) list \<Rightarrow> bool" where
  "wf_records records =
     (distinct (map fst records) \<and> list_all (\<lambda>(i, r). i = cf_id r \<and> validate_confirmation r = Some r) records)"

lemma those_map_set: "those (map f xs) = Some ys \<Longrightarrow> y \<in> set ys \<Longrightarrow> \<exists>x\<in>set xs. f x = Some y"
  by (induction xs arbitrary: ys) (auto split: option.splits)

lemma loaded_records:
  assumes "load_confirmation_payload sha ttl t f = Some records"
  shows "wf_records records"
proof (cases f)
  case (PendingFile items)
  with assms obtain rs where rs: "those (map (validate_confirmation \<circ> upgrade_confirmation sha ttl t) items) = Some rs"
    and distinct: "distinct (map cf_id rs)" and records: "records = map (\<lambda>r. (cf_id r, r)) rs"
    by (auto simp: load_confirmation_payload_def split: option.splits if_splits)
  have "validate_confirmation r = Some r" if "r \<in> set rs" for r
    using those_map_set [OF rs that] validated by fastforce
  with distinct records show ?thesis by (auto simp: wf_records_def list_all_iff comp_def)
qed (use assms in \<open>auto simp: load_confirmation_payload_def wf_records_def\<close>)

lemma loaded_settled:
  assumes "load_confirmation_payload sha ttl t f = Some records" "map_of records i = Some r" "cf_status r \<noteq> CfAwaiting"
  shows "on_disk f i (cf_status r)"
proof -
  from assms(1,2) obtain items rs where f: "f = PendingFile items"
    and rs: "those (map (validate_confirmation \<circ> upgrade_confirmation sha ttl t) items) = Some rs"
    and records: "records = map (\<lambda>r. (cf_id r, r)) rs"
    by (auto simp: load_confirmation_payload_def split: pending_file.splits option.splits if_splits)
  from map_of_SomeD [OF assms(2)] records have r: "r \<in> set rs" "cf_id r = i" by auto
  from those_map_set [OF rs r(1)] obtain x where x: "x \<in> set items" "upgrade_confirmation sha ttl t x = r"
    by (auto dest: validated)
  with assms(3) have "x = Stored r" by (auto simp: upgrade_confirmation_def split: stored_confirmation.splits)
  with x r f show ?thesis by (auto simp: on_disk_iff)
qed



section \<open>Calls are started\<close>

text \<open>C17. A finished confirmation starts no call. Once \<open>complete_pending\<close> has returned for a confirmation -
  succeeded, failed or expired - no sequence of saves, confirms, completions and deletions, from
  any session, in this process or another, starts its call again or changes its status.\<close>

theorem finished_confirmation_starts_no_call:
  assumes "complete_pending sha ttl env i status err f = (Some r, f')"
  shows "case fold (confirmation_step sha ttl) es (f', []) of
    (f'', started) \<Rightarrow> on_disk f'' i status \<and> i \<notin> set started"
proof -
  from assms obtain records q where status: "status \<in> {CfSucceeded, CfFailed, CfExpired}"
    and load: "load_confirmation_payload sha ttl (se_load env) f = Some records" and q: "map_of records i = Some q"
    by (auto simp: complete_pending_def split: if_splits option.splits)
  have "on_disk f' i status"
  proof (cases "cf_status q = status")
    case True
    with assms status load q loaded_settled [OF load q] show ?thesis
      by (auto simp: complete_pending_def)
  next
    case False
    from loaded_records [OF load] map_of_SomeD [OF q] have "cf_id q = i"
      by (auto simp: wf_records_def list_all_iff)
    with False assms status load q show ?thesis
      by (auto simp: complete_pending_def store_change_def transition_to_def update_conv' split: if_splits option.splits
          intro!: written_status dest!: validated)
  qed
  with status finished_stays [of f' i status "[]" sha ttl es] show ?thesis
    by (auto simp: active_status_def split: prod.split)
qed





definition pilot_env :: "seconds \<Rightarrow> store_env" where
  "pilot_env t = \<lparr>se_load = t, se_check = t, se_stamp = t, se_fresh = replicate 32 CHR ''f'', se_first_write = True, se_write = True\<rparr>"

definition pilot_sha :: "string \<Rightarrow> string" where
  "pilot_sha s = replicate 64 (if s = ''s1'' then CHR ''a'' else CHR ''b'')"

definition pilot_pending :: "nat pending_file" where
  "pilot_pending = snd (save_pending pilot_sha 900 (pilot_env 0) ''c1'' None 7 ''s1'' NoPendingFile)"

definition pilot_claimed :: "nat pending_file" where
  "pilot_claimed = snd (claim_pending pilot_sha 900 (pilot_env 1) ''c1'' ''s1'' pilot_pending)"


theorem finished_confirmation_starts_no_call_witness:
  "case fold (confirmation_step pilot_sha 900) [ConfirmEvent (pilot_env 3) ''c1'' ''s1'', DeleteEvent (pilot_env 4) ''c1'']
     (snd (complete_pending pilot_sha 900 (pilot_env 2) ''c1'' CfSucceeded None pilot_claimed), []) of
   (f, started) \<Rightarrow> on_disk f ''c1'' CfSucceeded \<and> ''c1'' \<notin> set started"
proof -
  let ?c = "complete_pending pilot_sha 900 (pilot_env 2) ''c1'' CfSucceeded None pilot_claimed"
  have "fst ?c \<noteq> None" by code_simp
  then obtain r where "?c = (Some r, snd ?c)" by (metis option.exhaust prod.collapse)
  from finished_confirmation_starts_no_call [OF this] show ?thesis .
qed

text \<open>A record of the older format is upgraded each time the file is read, with a new expiry.\<close>

lemma old_record_never_expires:
  assumes "i \<noteq> []" "is_sha256 (sha (join_slash parts))" "0 < ttl"
  shows "map_option (map (is_expired now \<circ> snd)) (load_confirmation_payload sha ttl now (PendingFile [StoredOld i parts None p])) =
    Some [False]"
  using assms
  by (simp add: load_confirmation_payload_def upgrade_confirmation_def validate_confirmation_def is_expired_def)

end
