(* ===== verification/Mcp_Confirmation.thy ===== *)
theory Mcp_Confirmation
  imports Agent_Definition
begin

text \<open>
  One-time confirmations of management tool calls: \<open>MCPConfirmationStore\<close> of
  \<open>mcp_module/confirmation_store.py\<close>, a table of token digests. An operation is one transaction of
  the database, so concurrent callers and processes are a sequence of operations. SHA-256 is the
  parameter \<open>sha\<close>; an exception is \<open>None\<close>.
\<close>

section \<open>The table\<close>

text \<open>What a confirmation is bound to.\<close>

record tool_call_scope =
  tc_agent :: string
  tc_server :: string
  tc_tool :: string
  tc_params_digest :: string
  tc_tool_digest :: string

record token_row =
  tk_digest :: string
  tk_subject :: string
  tk_scope :: tool_call_scope
  tk_expires :: seconds

definition subject_digest ::
    "(string \<Rightarrow> string) \<Rightarrow> principal option \<Rightarrow> string option \<Rightarrow> bool \<Rightarrow> string option option" where
  "subject_digest sha who given must =
     (case given of
        Some v \<Rightarrow> if is_sha256 v then Some (Some v) else None
      | None \<Rightarrow>
          (case who of
             None \<Rightarrow> if must then None else Some None
           | Some p \<Rightarrow> (let v = sha (pr_subject p) in if is_sha256 v then Some (Some v) else None)))"

definition drop_expired :: "seconds \<Rightarrow> token_row list \<Rightarrow> token_row list" where
  "drop_expired now rows = filter (\<lambda>r. now < tk_expires r) rows"

definition initialize_tokens :: "seconds \<Rightarrow> token_row list \<Rightarrow> token_row list" where
  "initialize_tokens now rows = drop_expired now rows"

definition issue_token ::
    "(string \<Rightarrow> string) \<Rightarrow> principal option \<Rightarrow> string option \<Rightarrow> string \<Rightarrow> tool_call_scope \<Rightarrow> seconds \<Rightarrow>
     token_row list \<Rightarrow> token_row list option" where
  "issue_token sha who given token scope expires rows =
     (case subject_digest sha who given True of
        None \<Rightarrow> None
      | Some None \<Rightarrow> None
      | Some (Some subject) \<Rightarrow>
          if sha token \<in> tk_digest ` set rows then None
          else Some (rows @ [\<lparr>tk_digest = sha token, tk_subject = subject, tk_scope = scope, tk_expires = expires\<rparr>]))"

definition token_matches :: "string \<Rightarrow> string \<Rightarrow> tool_call_scope \<Rightarrow> seconds \<Rightarrow> token_row \<Rightarrow> bool" where
  "token_matches digest subject scope now r =
     (tk_digest r = digest \<and> tk_subject r = subject \<and> tk_scope r = scope \<and> now < tk_expires r)"

definition consume_token ::
    "(string \<Rightarrow> string) \<Rightarrow> principal option \<Rightarrow> string option \<Rightarrow> string \<Rightarrow> tool_call_scope \<Rightarrow> seconds \<Rightarrow>
     token_row list \<Rightarrow> (bool \<times> token_row list) option" where
  "consume_token sha who given token scope now rows =
     (case subject_digest sha who given False of
        None \<Rightarrow> None
      | Some None \<Rightarrow> Some (False, rows)
      | Some (Some subject) \<Rightarrow>
          (let live = drop_expired now rows; hits = filter (token_matches (sha token) subject scope now) live
           in Some (length hits = 1, filter (\<lambda>r. r \<notin> set hits) live)))"

section \<open>Sequences of operations\<close>

datatype token_event =
    Issue "principal option" "string option" string tool_call_scope seconds
  | Consume "principal option" "string option" string tool_call_scope seconds
  | Reopen seconds

text \<open>The log lists the rows that were issued, and the tokens that were accepted, each with the
  subject, the scope and the time.\<close>

datatype token_log =
    Issued token_row
  | Accepted string string tool_call_scope seconds

fun token_step :: "(string \<Rightarrow> string) \<Rightarrow> token_event \<Rightarrow> token_row list \<times> token_log list \<Rightarrow> token_row list \<times> token_log list" where
  "token_step sha (Issue who given token scope expires) (rows, lg) =
     (case issue_token sha who given token scope expires rows of
        None \<Rightarrow> (rows, lg)
      | Some rows' \<Rightarrow> (rows', lg @ [Issued (last rows')]))"
| "token_step sha (Consume who given token scope now) (rows, lg) =
     (case consume_token sha who given token scope now rows of
        None \<Rightarrow> (rows, lg)
      | Some (ok, rows') \<Rightarrow>
          (rows', if ok
                  then lg @ [Accepted (sha token) (the (the (subject_digest sha who given False))) scope now]
                  else lg))"
| "token_step sha (Reopen now) (rows, lg) = (initialize_tokens now rows, lg)"

definition issued :: "string \<Rightarrow> token_log list \<Rightarrow> nat" where
  "issued d lg = length (filter (\<lambda>e. case e of Issued r \<Rightarrow> tk_digest r = d | _ \<Rightarrow> False) lg)"

definition accepted :: "string \<Rightarrow> token_log list \<Rightarrow> nat" where
  "accepted d lg = length (filter (\<lambda>e. case e of Accepted d' _ _ _ \<Rightarrow> d' = d | _ \<Rightarrow> False) lg)"

text \<open>The row an accepted token was issued as.\<close>

definition backed :: "token_log list \<Rightarrow> token_log \<Rightarrow> bool" where
  "backed lg e =
     (case e of
        Accepted d subject scope now \<Rightarrow>
          list_ex (\<lambda>e'. case e' of Issued r \<Rightarrow> token_matches d subject scope now r | _ \<Rightarrow> False) lg
      | Issued _ \<Rightarrow> True)"

text \<open>Rows have distinct digests, each is logged as issued, and a live row is one more acceptance to
  come.\<close>

definition token_inv :: "token_row list \<times> token_log list \<Rightarrow> bool" where
  "token_inv s =
     (case s of (rows, lg) \<Rightarrow>
        distinct (map tk_digest rows) \<and> (\<forall>r\<in>set rows. Issued r \<in> set lg) \<and>
        (\<forall>d. accepted d lg + (if d \<in> tk_digest ` set rows then 1 else 0) \<le> issued d lg) \<and>
        (\<forall>e\<in>set lg. backed lg e))"

lemma backed_more: "backed lg e \<Longrightarrow> backed (lg @ es) e"
  by (auto simp: backed_def split: token_log.splits)

lemma log_counts [simp]:
  "issued d (lg @ [Issued r]) = issued d lg + (if tk_digest r = d then 1 else 0)"
  "accepted d (lg @ [Issued r]) = accepted d lg"
  "issued d (lg @ [Accepted d' s c t]) = issued d lg"
  "accepted d (lg @ [Accepted d' s c t]) = accepted d lg + (if d' = d then 1 else 0)"
  by (simp_all add: issued_def accepted_def)

lemma token_inv_subset:
  assumes "token_inv (rows, lg)"
  shows "token_inv (filter P rows, lg)"
proof -
  have "accepted d lg + (if d \<in> tk_digest ` set (filter P rows) then 1 else 0) \<le> issued d lg" for d
  proof (cases "d \<in> tk_digest ` set rows")
    case True
    with assms have "accepted d lg + 1 \<le> issued d lg" unfolding token_inv_def prod.case by metis
    then show ?thesis by simp
  next
    case False
    with assms have "accepted d lg \<le> issued d lg" unfolding token_inv_def prod.case by (metis add.right_neutral)
    with False show ?thesis by auto
  qed
  with assms show ?thesis by (simp add: token_inv_def distinct_map_filter)
qed

lemma issue_inv:
  assumes "token_inv (rows, lg)" "issue_token sha who given token scope expires rows = Some rows'"
  shows "token_inv (rows', lg @ [Issued (last rows')])"
proof -
  from assms(2) obtain subject where fresh: "sha token \<notin> tk_digest ` set rows"
    and rows': "rows' = rows @ [\<lparr>tk_digest = sha token, tk_subject = subject, tk_scope = scope, tk_expires = expires\<rparr>]"
    by (auto simp: issue_token_def split: option.splits if_splits)
  have counts: "accepted d (lg @ [Issued (last rows')]) + (if d \<in> tk_digest ` set rows' then 1 else 0) \<le>
      issued d (lg @ [Issued (last rows')])" for d
  proof -
    have "accepted d lg + (if d \<in> tk_digest ` set rows then 1 else 0) \<le> issued d lg"
      using assms(1) by (simp add: token_inv_def)
    with fresh show ?thesis by (cases "d = sha token") (simp_all add: rows')
  qed
  from assms(1) fresh have "distinct (map tk_digest rows')" "\<forall>r\<in>set rows'. Issued r \<in> set (lg @ [Issued (last rows')])"
    by (auto simp: token_inv_def rows')
  moreover have "\<forall>e\<in>set (lg @ [Issued (last rows')]). backed (lg @ [Issued (last rows')]) e"
    using assms(1) by (auto simp: token_inv_def intro: backed_more) (simp add: backed_def)
  ultimately show ?thesis using counts unfolding token_inv_def prod.case by blast
qed

lemma consume_inv:
  assumes "token_inv (rows, lg)" "consume_token sha who given token scope now rows = Some (ok, rows')"
  shows "token_inv (rows', if ok then lg @ [Accepted (sha token) (the (the (subject_digest sha who given False))) scope now] else lg)"
proof (cases "subject_digest sha who given False = Some None")
  case True
  with assms show ?thesis by (auto simp: consume_token_def)
next
  case False
  with assms(2) obtain subject where subject: "subject_digest sha who given False = Some (Some subject)"
    by (auto simp: consume_token_def split: option.splits)
  let ?live = "drop_expired now rows"
  let ?hits = "filter (token_matches (sha token) subject scope now) ?live"
  from assms(2) subject have ok: "ok \<longleftrightarrow> length ?hits = 1" and rows': "rows' = filter (\<lambda>r. r \<notin> set ?hits) ?live"
    by (auto simp: consume_token_def Let_def)
  have kept: "token_inv (rows', lg)"
    unfolding rows' drop_expired_def by (intro token_inv_subset assms(1))
  show ?thesis
  proof (cases ok)
    case True
    with ok obtain r where hits: "?hits = [r]" by (auto simp: length_Suc_conv)
    then have r: "r \<in> set rows" "token_matches (sha token) subject scope now r"
      unfolding drop_expired_def by (auto dest!: arg_cong [where f = set])
    then have digest: "tk_digest r = sha token" by (simp add: token_matches_def)
    have gone: "sha token \<notin> tk_digest ` set rows'"
    proof
      assume "sha token \<in> tk_digest ` set rows'"
      then obtain r' where r': "r' \<in> set rows'" "tk_digest r' = sha token" by auto
      then have "r' \<in> set rows" by (simp add: rows' drop_expired_def)
      with r digest r'(2) assms(1) have "r' = r"
        by (simp add: token_inv_def distinct_map inj_on_def)
      with r' hits show False by (simp add: rows')
    qed
    have "sha token \<in> tk_digest ` set rows" using r(1) digest by (metis imageI)
    moreover from assms(1)
    have "accepted (sha token) lg + (if sha token \<in> tk_digest ` set rows then 1 else 0) \<le> issued (sha token) lg"
      unfolding token_inv_def prod.case by blast
    ultimately have "accepted (sha token) lg + 1 \<le> issued (sha token) lg" by simp
    with kept gone have "accepted d (lg @ [Accepted (sha token) subject scope now]) +
        (if d \<in> tk_digest ` set rows' then 1 else 0) \<le> issued d lg" for d
      by (cases "d = sha token") (simp_all add: token_inv_def)
    moreover have "backed (lg @ [Accepted (sha token) subject scope now]) (Accepted (sha token) subject scope now)"
      using assms(1) r by (force simp: backed_def token_inv_def list_ex_iff)
    ultimately show ?thesis
      using kept True subject by (auto simp: token_inv_def intro: backed_more)
  qed (use kept in simp)
qed

interpretation token_table: invariant_machine "token_step sha" token_inv for sha
proof
  fix s e
  assume inv: "token_inv s"
  obtain rows lg where s: "s = (rows, lg)" by (cases s)
  from inv show "token_inv (token_step sha e s)"
    unfolding s
    by (cases e) (auto simp: issue_inv consume_inv initialize_tokens_def drop_expired_def token_inv_subset
        split: option.splits)
qed

text \<open>C18. Confirmations are single use. In any sequence of issues, uses and restarts, by any callers, a
  token is accepted at most as often as it was issued, and only for the subject, Agent, server,
  tool, parameters and tool version it was issued for, before it expires.\<close>

theorem confirmations_are_single_use:
  "let lg = snd (fold (token_step sha) es ([], [])) in
    accepted d lg \<le> issued d lg \<and> list_all (backed lg) lg"
proof -
  have "token_inv (fold (token_step sha) es ([], []))"
    by (rule token_table.run_inv) (simp add: token_inv_def issued_def accepted_def)
  then show ?thesis
    unfolding Let_def token_inv_def list_all_iff
    by (metis (no_types, lifting) case_prod_unfold le_add1 order_trans)
qed

text \<open>A live token is accepted the first time it is used as issued.\<close>

lemma issued_token_is_accepted:
  assumes "issue_token sha who given token scope expires [] = Some rows" "now < expires"
  shows "consume_token sha who given token scope now rows = Some (True, []) \<and>
    consume_token sha who given token scope now [] = Some (False, [])"
proof -
  from assms(1) obtain subject where subject: "subject_digest sha who given True = Some (Some subject)"
    and rows: "rows = [\<lparr>tk_digest = sha token, tk_subject = subject, tk_scope = scope, tk_expires = expires\<rparr>]"
    by (auto simp: issue_token_def split: option.splits if_splits)
  from subject have "subject_digest sha who given False = Some (Some subject)"
    by (auto simp: subject_digest_def Let_def split: option.splits if_splits)
  with rows assms(2) show ?thesis
    by (simp add: consume_token_def drop_expired_def token_matches_def)
qed

end
