(* ===== verification/Circuit_Breaker.thy ===== *)
theory Circuit_Breaker
  imports Kirara_Prelude
begin

text \<open>
  The circuit breaker of \<open>kirara_ai/llm/resilience.py\<close> (class \<open>CircuitBreaker\<close>) and the
  queue summary built from a set of breakers (\<open>ResilienceSummary.from_breakers\<close>).

  An operation of the class is a function of the reading \<open>now\<close> that \<open>_now(now)\<close> returns
  in it, and of the breaker; it returns the changed breaker, paired with the result where
  the method has one. The re-entrant lock makes each method atomic, so a concurrent use is
  a sequence of these operations.
\<close>

section \<open>States and fields\<close>

datatype circuit_state = Closed | Open | HalfOpen

text \<open>\<open>CircuitState\<close> is a \<open>str\<close> enumeration; \<open>.value\<close> is its string.\<close>

fun circuit_value :: "circuit_state \<Rightarrow> string" where
  "circuit_value Closed = ''closed''"
| "circuit_value Open = ''open''"
| "circuit_value HalfOpen = ''half-open''"

datatype transition_reason =
    RecoveryTimeout
  | RecoverySuccess
  | HalfOpenProbeFailed
  | FailureThreshold
  | ErrorRate

record transition =
  t_from :: circuit_state
  t_to :: circuit_state
  t_reason :: transition_reason
  t_at :: seconds
  t_failure_count :: int
  t_error_rate :: rat

definition circuit_transition_history :: nat where
  "circuit_transition_history = 64"

record breaker =
  failure_threshold :: int
  error_rate_threshold :: rat
  min_requests :: int
  recovery_timeout :: seconds
  recovery_success_threshold :: int
  history_size :: int
  outcomes_maxlen :: nat
  outcomes :: "bool list"
  consecutive_failures :: int
  circuit :: circuit_state
  opened_at :: "seconds option"
  probe_in_flight :: bool
  recovery_successes :: int
  in_flight :: int
  transitions :: "transition list"

definition new_breaker :: "int \<Rightarrow> rat \<Rightarrow> int \<Rightarrow> seconds \<Rightarrow> int \<Rightarrow> int \<Rightarrow> breaker" where
  "new_breaker ft er mr rt rs hs =
     \<lparr>failure_threshold = max 1 ft,
      error_rate_threshold = min 1 (max 0 er),
      min_requests = max 1 mr,
      recovery_timeout = max 0 rt,
      recovery_success_threshold = max 1 rs,
      history_size = max 1 hs,
      outcomes_maxlen = nat (max 1 (max hs (max 1 mr))),
      outcomes = [],
      consecutive_failures = 0,
      circuit = Closed,
      opened_at = None,
      probe_in_flight = False,
      recovery_successes = 0,
      in_flight = 0,
      transitions = []\<rparr>"

text \<open>The keyword defaults of the constructor.\<close>

definition default_breaker :: breaker where
  "default_breaker = new_breaker 3 (1/2) 10 30 2 20"

text \<open>
  \<open>reconfigure\<close>: an omitted keyword is \<open>None\<close> and leaves its field. The window follows
  \<open>min_requests\<close>; \<open>history_size or 0\<close> is 0 when it is omitted.
\<close>

definition set_opt :: "'a option \<Rightarrow> ('a \<Rightarrow> 'b) \<Rightarrow> 'b \<Rightarrow> 'b" where
  "set_opt arg f old = (case arg of None \<Rightarrow> old | Some v \<Rightarrow> f v)"

lemma set_opt_simps [simp]: "set_opt None f old = old" "set_opt (Some v) f old = f v"
  by (simp_all add: set_opt_def)

definition reconfigure_thresholds ::
  "int option \<Rightarrow> rat option \<Rightarrow> int option \<Rightarrow> seconds option \<Rightarrow> int option \<Rightarrow> breaker \<Rightarrow> breaker" where
  "reconfigure_thresholds ft er mr rt rs b =
     b\<lparr>failure_threshold := set_opt ft (max 1) (failure_threshold b),
       error_rate_threshold := set_opt er (\<lambda>v. min 1 (max 0 v)) (error_rate_threshold b),
       min_requests := set_opt mr (max 1) (min_requests b),
       recovery_timeout := set_opt rt (max 0) (recovery_timeout b),
       recovery_success_threshold := set_opt rs (max 1) (recovery_success_threshold b)\<rparr>"

definition resize_window :: "nat \<Rightarrow> breaker \<Rightarrow> breaker" where
  "resize_window desired b =
     (if desired = outcomes_maxlen b then b
      else b\<lparr>outcomes_maxlen := desired, outcomes := take_last desired (outcomes b)\<rparr>)"

definition reconfigure ::
  "int option \<Rightarrow> rat option \<Rightarrow> int option \<Rightarrow> seconds option \<Rightarrow> int option \<Rightarrow> int option
    \<Rightarrow> breaker \<Rightarrow> breaker" where
  "reconfigure ft er mr rt rs hs b =
     (let b1 = reconfigure_thresholds ft er mr rt rs b
      in case hs of
           None \<Rightarrow>
             resize_window (nat (max 1 (max 0 (max (history_size b1) (min_requests b1))))) b1
         | Some h \<Rightarrow>
             resize_window (nat (max 1 (max (max 1 h) (min_requests b1))))
               (b1\<lparr>history_size := max 1 h\<rparr>))"

section \<open>Operations\<close>

definition success_count :: "bool list \<Rightarrow> nat" where
  "success_count xs = length (filter id xs)"

definition current_error_rate :: "breaker \<Rightarrow> rat" where
  "current_error_rate b =
     (let requests = length (outcomes b)
      in if requests = 0 then 0
         else 1 - (of_nat (success_count (outcomes b)) / of_nat requests))"

definition record_transition ::
  "circuit_state \<Rightarrow> circuit_state \<Rightarrow> transition_reason \<Rightarrow> seconds \<Rightarrow> breaker \<Rightarrow> breaker" where
  "record_transition previous current reason now b =
     (if previous = current then b
      else b\<lparr>transitions := deque_append circuit_transition_history (transitions b)
               \<lparr>t_from = previous, t_to = current, t_reason = reason, t_at = now,
                t_failure_count = consecutive_failures b,
                t_error_rate = current_error_rate b\<rparr>\<rparr>)"

definition refresh_state :: "seconds \<Rightarrow> breaker \<Rightarrow> breaker" where
  "refresh_state now b =
     (case (circuit b, opened_at b) of
        (Open, Some t) \<Rightarrow>
          (if recovery_timeout b \<le> now - t
           then (record_transition Open HalfOpen RecoveryTimeout now b)
                  \<lparr>circuit := HalfOpen, probe_in_flight := False\<rparr>
           else b)
      | _ \<Rightarrow> b)"

text \<open>\<open>state(now)\<close> refreshes first, so it may move an expired open breaker to half-open.\<close>

definition breaker_state :: "seconds \<Rightarrow> breaker \<Rightarrow> circuit_state \<times> breaker" where
  "breaker_state now b = (let b' = refresh_state now b in (circuit b', b'))"

definition acquire :: "seconds \<Rightarrow> breaker \<Rightarrow> bool \<times> breaker" where
  "acquire now b =
     (let b' = refresh_state now b
      in case circuit b' of
           Open \<Rightarrow> (False, b')
         | HalfOpen \<Rightarrow>
             (if probe_in_flight b' then (False, b')
              else (True, b'\<lparr>probe_in_flight := True, in_flight := in_flight b' + 1\<rparr>))
         | Closed \<Rightarrow> (True, b'\<lparr>in_flight := in_flight b' + 1\<rparr>))"

definition should_open :: "breaker \<Rightarrow> bool" where
  "should_open b =
     (if failure_threshold b \<le> consecutive_failures b then True
      else min_requests b \<le> int (length (outcomes b)) \<and>
           error_rate_threshold b
             \<le> 1 - (of_nat (success_count (outcomes b)) / of_nat (length (outcomes b))))"

definition release_in_flight :: "breaker \<Rightarrow> breaker" where
  "release_in_flight b = (if 0 < in_flight b then b\<lparr>in_flight := in_flight b - 1\<rparr> else b)"

text \<open>
  \<open>record_success\<close> after its refresh: \<open>success_closes\<close> is the tail the closed state and
  the last successful probe share.
\<close>

definition success_closes :: "seconds \<Rightarrow> circuit_state \<Rightarrow> breaker \<Rightarrow> breaker" where
  "success_closes now current b =
     (let b1 = b\<lparr>outcomes := deque_append (outcomes_maxlen b) (outcomes b) True,
                 consecutive_failures := 0, opened_at := None, probe_in_flight := False\<rparr>;
          b2 = (if current \<noteq> Closed
                then record_transition current Closed RecoverySuccess now b1 else b1)
      in refresh_state now (b2\<lparr>circuit := Closed\<rparr>))"

definition record_success :: "seconds \<Rightarrow> breaker \<Rightarrow> breaker" where
  "record_success now b =
     (let b1 = refresh_state now (release_in_flight b)
      in case circuit b1 of
           Open \<Rightarrow> b1
         | HalfOpen \<Rightarrow>
             (let b2 = b1\<lparr>recovery_successes := recovery_successes b1 + 1,
                          probe_in_flight := False\<rparr>
              in if recovery_successes b2 < recovery_success_threshold b2 then b2
                 else success_closes now HalfOpen
                        (b2\<lparr>outcomes := [], recovery_successes := 0\<rparr>))
         | Closed \<Rightarrow> success_closes now Closed b1)"

definition record_failure :: "seconds \<Rightarrow> breaker \<Rightarrow> breaker" where
  "record_failure now b =
     (let b0 = release_in_flight b;
          previous = circuit b0;
          b1 = b0\<lparr>outcomes := deque_append (outcomes_maxlen b0) (outcomes b0) False,
                  consecutive_failures := consecutive_failures b0 + 1,
                  probe_in_flight := False,
                  recovery_successes := 0\<rparr>
      in if previous = HalfOpen \<or> should_open b1
         then (let reason = (if previous = HalfOpen then HalfOpenProbeFailed
                             else if failure_threshold b1 \<le> consecutive_failures b1
                                  then FailureThreshold else ErrorRate)
               in (record_transition previous Open reason now b1)
                    \<lparr>circuit := Open, opened_at := Some now\<rparr>)
         else b1)"

definition record_cancelled :: "breaker \<Rightarrow> breaker" where
  "record_cancelled b = (release_in_flight b)\<lparr>probe_in_flight := False\<rparr>"

record breaker_snapshot =
  snap_state :: circuit_state
  snap_failure_count :: int
  snap_error_rate :: rat
  snap_requests :: nat
  snap_recovery_successes :: int
  snap_recovery_success_threshold :: int
  snap_next_recovery_time :: "seconds option"

definition breaker_snapshot :: "seconds \<Rightarrow> breaker \<Rightarrow> breaker_snapshot \<times> breaker" where
  "breaker_snapshot now b =
     (let b' = refresh_state now b
      in (\<lparr>snap_state = circuit b',
           snap_failure_count = consecutive_failures b',
           snap_error_rate = current_error_rate b',
           snap_requests = length (outcomes b'),
           snap_recovery_successes = recovery_successes b',
           snap_recovery_success_threshold = recovery_success_threshold b',
           snap_next_recovery_time =
             (if circuit b' = Open
              then map_option (\<lambda>t. t + recovery_timeout b') (opened_at b') else None)\<rparr>, b'))"

section \<open>Durable state\<close>

record durable =
  d_state :: circuit_state
  d_consecutive_failures :: int
  d_recovery_successes :: int
  d_opened_ago :: "seconds option"

text \<open>
  \<open>durable_state\<close> reads the clock twice: \<open>now\<close> for the refresh and \<open>now2\<close> for the age.
\<close>

definition durable_state :: "seconds \<Rightarrow> seconds \<Rightarrow> breaker \<Rightarrow> durable option \<times> breaker" where
  "durable_state now now2 b =
     (let b' = refresh_state now b
      in if circuit b' = Closed then (None, b')
         else (Some \<lparr>d_state = circuit b',
                     d_consecutive_failures = consecutive_failures b',
                     d_recovery_successes = recovery_successes b',
                     d_opened_ago = map_option (\<lambda>t. max 0 (now2 - t)) (opened_at b')\<rparr>, b'))"

text \<open>The mapping the method returns, as the JSON document the store writes.\<close>

definition durable_json :: "durable \<Rightarrow> (string \<times> json) list" where
  "durable_json d =
     [(''state'', JStr (circuit_value (d_state d))),
      (''consecutive_failures'', JInt (d_consecutive_failures d)),
      (''recovery_successes'', JInt (d_recovery_successes d)),
      (''opened_ago_seconds'',
         (case d_opened_ago d of None \<Rightarrow> JNull | Some r \<Rightarrow> JFloat r))]"

text \<open>
  \<open>restore_durable_state\<close> on an arbitrary mapping: \<open>str(state.get(''state'') or '''')\<close> can
  equal one of the two accepted words only for a string, and the counters are used only when
  they are non-negative integers. The clock is read twice.
\<close>

definition stored_count :: "(string \<times> json) list \<Rightarrow> string \<Rightarrow> int" where
  "stored_count st field =
     (case Option.bind (map_of st field) json_int of
        Some n \<Rightarrow> (if 0 \<le> n then n else 0)
      | None \<Rightarrow> 0)"

definition stored_state :: "(string \<times> json) list \<Rightarrow> string" where
  "stored_state st =
     (case Option.bind (map_of st ''state'') json_string of Some s \<Rightarrow> s | None \<Rightarrow> [])"

definition restore_durable_state ::
  "seconds \<Rightarrow> seconds \<Rightarrow> (string \<times> json) list \<Rightarrow> seconds \<Rightarrow> breaker \<Rightarrow> bool \<times> breaker" where
  "restore_durable_state clock1 clock2 st elapsed b =
     (if stored_state st \<notin> {circuit_value Open, circuit_value HalfOpen} then (False, b)
      else
        (let opened_ago = (case Option.bind (map_of st ''opened_ago_seconds'') json_number of
               Some r \<Rightarrow> max 0 r | None \<Rightarrow> 0);
             total_open = opened_ago + max 0 elapsed;
             b1 = b\<lparr>consecutive_failures := stored_count st ''consecutive_failures'',
                    recovery_successes := stored_count st ''recovery_successes'',
                    outcomes := [],
                    probe_in_flight := False,
                    circuit := Open,
                    opened_at := Some (clock1 - total_open)\<rparr>
         in (True, refresh_state clock2 b1)))"

section \<open>Queue summary\<close>

record resilience_summary =
  active_connections :: int
  total_requests :: nat
  success_rate :: "rat option"
  uptime_seconds :: seconds
  total_providers :: nat
  healthy_providers :: nat
  probing_providers :: nat
  tripped_providers :: nat
  sample_window :: int

record summary_acc =
  sa_active :: int
  sa_requests :: nat
  sa_successes :: int
  sa_healthy :: nat
  sa_probing :: nat
  sa_tripped :: nat
  sa_window :: int

text \<open>Python's \<open>round\<close> on a number: to the nearest integer, ties to the even one.\<close>

definition py_round :: "rat \<Rightarrow> int" where
  "py_round r =
     (let f = \<lfloor>r\<rfloor>; d = r - of_int f
      in if d < 1/2 then f else if 1/2 < d then f + 1 else if even f then f else f + 1)"

definition summary_step :: "seconds \<Rightarrow> breaker \<Rightarrow> summary_acc \<Rightarrow> summary_acc" where
  "summary_step now b acc =
     (let (snap, b') = breaker_snapshot now b;
          sampled = snap_requests snap
      in acc\<lparr>sa_active := sa_active acc + in_flight b',
             sa_requests := sa_requests acc + sampled,
             sa_successes := sa_successes acc + py_round (of_nat sampled * (1 - snap_error_rate snap)),
             sa_tripped := sa_tripped acc + (if snap_state snap = Open then 1 else 0),
             sa_probing := sa_probing acc + (if snap_state snap = HalfOpen then 1 else 0),
             sa_healthy := sa_healthy acc + (if snap_state snap = Closed then 1 else 0),
             sa_window := max (sa_window acc) (min_requests b')\<rparr>)"

definition from_breakers ::
  "seconds \<Rightarrow> (string \<times> breaker) list \<Rightarrow> seconds \<Rightarrow> resilience_summary" where
  "from_breakers now breakers uptime =
     (let acc = fold (summary_step now) (map snd breakers)
            \<lparr>sa_active = 0, sa_requests = 0, sa_successes = 0, sa_healthy = 0, sa_probing = 0,
             sa_tripped = 0, sa_window = 0\<rparr>
      in \<lparr>active_connections = sa_active acc,
          total_requests = sa_requests acc,
          success_rate = (if sa_requests acc = 0 then None
                          else Some (of_int (sa_successes acc) / of_nat (sa_requests acc))),
          uptime_seconds = max 0 uptime,
          total_providers = length breakers,
          healthy_providers = sa_healthy acc,
          probing_providers = sa_probing acc,
          tripped_providers = sa_tripped acc,
          sample_window = sa_window acc\<rparr>)"

section \<open>The abstract circuit and the invariant\<close>

text \<open>
  The specification of the breaker is the three-state automaton with four edges. In
  particular nothing leads from open to closed: a probe has to succeed first.
\<close>

inductive circuit_edge :: "circuit_state \<Rightarrow> circuit_state \<Rightarrow> bool" where
  trip: "circuit_edge Closed Open"
| cool_down: "circuit_edge Open HalfOpen"
| probe_failed: "circuit_edge HalfOpen Open"
| recovered: "circuit_edge HalfOpen Closed"

inductive_simps circuit_edge_simps [simp]: "circuit_edge c c'"
inductive_cases edge_from_open: "circuit_edge Open c"

definition log_ok :: "transition list \<Rightarrow> circuit_state \<Rightarrow> bool" where
  "log_ok ts c \<longleftrightarrow>
     (\<forall>t\<in>set ts. circuit_edge (t_from t) (t_to t)) \<and>
     successively (\<lambda>t u. t_to t = t_from u) ts \<and>
     (ts \<noteq> [] \<longrightarrow> t_to (last ts) = c)"

definition params_ok :: "breaker \<Rightarrow> bool" where
  "params_ok b \<longleftrightarrow>
     1 \<le> failure_threshold b \<and> 0 \<le> error_rate_threshold b \<and> error_rate_threshold b \<le> 1 \<and>
     1 \<le> min_requests b \<and> 0 \<le> recovery_timeout b \<and> 1 \<le> recovery_success_threshold b \<and>
     1 \<le> history_size b \<and> int (outcomes_maxlen b) = max (history_size b) (min_requests b)"

definition counters_ok :: "breaker \<Rightarrow> bool" where
  "counters_ok b \<longleftrightarrow>
     length (outcomes b) \<le> outcomes_maxlen b \<and> 0 \<le> consecutive_failures b \<and>
     0 \<le> recovery_successes b \<and> 0 \<le> in_flight b \<and>
     length (transitions b) \<le> circuit_transition_history"

definition circuit_ok :: "breaker \<Rightarrow> bool" where
  "circuit_ok b \<longleftrightarrow>
     (probe_in_flight b \<longrightarrow> circuit b = HalfOpen) \<and>
     (circuit b = Closed \<longleftrightarrow> opened_at b = None)"

definition breaker_inv :: "breaker \<Rightarrow> bool" where
  "breaker_inv b \<longleftrightarrow>
     params_ok b \<and> counters_ok b \<and> circuit_ok b \<and> log_ok (transitions b) (circuit b)"

lemmas inv_defs = breaker_inv_def params_ok_def counters_ok_def circuit_ok_def

lemma history_pos [simp]: "0 < circuit_transition_history"
  by (simp add: circuit_transition_history_def)

lemma successively_drop: "successively P xs \<Longrightarrow> successively P (drop n xs)"
  by (metis append_take_drop_id successively_append_iff)

lemma log_ok_append:
  assumes "log_ok ts c" "circuit_edge c c'" "t_from t = c" "t_to t = c'"
  shows "log_ok (deque_append circuit_transition_history ts t) c'"
proof -
  have "successively (\<lambda>t u. t_to t = t_from u) (ts @ [t])"
    using assms by (auto simp: log_ok_def successively_append_iff)
  then have "successively (\<lambda>t u. t_to t = t_from u)
      (deque_append circuit_transition_history ts t)"
    by (simp add: deque_append_def take_last_def successively_drop del: drop_append)
  moreover have "\<forall>u\<in>set (deque_append circuit_transition_history ts t).
      circuit_edge (t_from u) (t_to u)"
    using assms set_deque_append [of circuit_transition_history ts t]
    by (auto simp: log_ok_def simp del: circuit_edge_simps)
  ultimately show ?thesis
    using assms by (simp add: log_ok_def last_deque_append del: circuit_edge_simps)
qed

subsection \<open>The parts of the state an operation leaves alone\<close>

lemma record_transition_fields [simp]:
  "failure_threshold (record_transition p c r n b) = failure_threshold b"
  "error_rate_threshold (record_transition p c r n b) = error_rate_threshold b"
  "min_requests (record_transition p c r n b) = min_requests b"
  "recovery_timeout (record_transition p c r n b) = recovery_timeout b"
  "recovery_success_threshold (record_transition p c r n b) = recovery_success_threshold b"
  "history_size (record_transition p c r n b) = history_size b"
  "outcomes_maxlen (record_transition p c r n b) = outcomes_maxlen b"
  "outcomes (record_transition p c r n b) = outcomes b"
  "consecutive_failures (record_transition p c r n b) = consecutive_failures b"
  "circuit (record_transition p c r n b) = circuit b"
  "opened_at (record_transition p c r n b) = opened_at b"
  "probe_in_flight (record_transition p c r n b) = probe_in_flight b"
  "recovery_successes (record_transition p c r n b) = recovery_successes b"
  "in_flight (record_transition p c r n b) = in_flight b"
  by (simp_all add: record_transition_def)

lemma refresh_fields [simp]:
  "failure_threshold (refresh_state n b) = failure_threshold b"
  "error_rate_threshold (refresh_state n b) = error_rate_threshold b"
  "min_requests (refresh_state n b) = min_requests b"
  "recovery_timeout (refresh_state n b) = recovery_timeout b"
  "recovery_success_threshold (refresh_state n b) = recovery_success_threshold b"
  "history_size (refresh_state n b) = history_size b"
  "outcomes_maxlen (refresh_state n b) = outcomes_maxlen b"
  "outcomes (refresh_state n b) = outcomes b"
  "consecutive_failures (refresh_state n b) = consecutive_failures b"
  "opened_at (refresh_state n b) = opened_at b"
  "recovery_successes (refresh_state n b) = recovery_successes b"
  "in_flight (refresh_state n b) = in_flight b"
  by (simp_all add: refresh_state_def split: circuit_state.split option.split)

lemma refresh_not_open [simp]: "circuit b \<noteq> Open \<Longrightarrow> refresh_state n b = b"
  by (cases "circuit b") (auto simp: refresh_state_def)

lemma refresh_early [simp]:
  "opened_at b = Some t \<Longrightarrow> n - t < recovery_timeout b \<Longrightarrow> refresh_state n b = b"
  by (simp add: refresh_state_def split: circuit_state.split)

lemma refresh_due:
  "circuit b = Open \<Longrightarrow> opened_at b = Some t \<Longrightarrow> recovery_timeout b \<le> n - t \<Longrightarrow>
   circuit (refresh_state n b) = HalfOpen \<and> \<not> probe_in_flight (refresh_state n b)"
  by (simp add: refresh_state_def)

lemma record_transition_log:
  "p \<noteq> c \<Longrightarrow> log_ok (transitions b) p \<Longrightarrow> circuit_edge p c \<Longrightarrow>
   log_ok (transitions (record_transition p c r n b)) c"
  by (simp add: record_transition_def log_ok_append del: circuit_edge_simps)

lemma record_transition_log_length:
  "length (transitions b) \<le> circuit_transition_history \<Longrightarrow>
   length (transitions (record_transition p c r n b)) \<le> circuit_transition_history"
  by (simp add: record_transition_def)

lemma release_fields [simp]:
  "failure_threshold (release_in_flight b) = failure_threshold b"
  "error_rate_threshold (release_in_flight b) = error_rate_threshold b"
  "min_requests (release_in_flight b) = min_requests b"
  "recovery_timeout (release_in_flight b) = recovery_timeout b"
  "recovery_success_threshold (release_in_flight b) = recovery_success_threshold b"
  "history_size (release_in_flight b) = history_size b"
  "outcomes_maxlen (release_in_flight b) = outcomes_maxlen b"
  "outcomes (release_in_flight b) = outcomes b"
  "consecutive_failures (release_in_flight b) = consecutive_failures b"
  "circuit (release_in_flight b) = circuit b"
  "opened_at (release_in_flight b) = opened_at b"
  "probe_in_flight (release_in_flight b) = probe_in_flight b"
  "recovery_successes (release_in_flight b) = recovery_successes b"
  "transitions (release_in_flight b) = transitions b"
  by (simp_all add: release_in_flight_def)

lemma release_nonneg: "0 \<le> in_flight b \<Longrightarrow> 0 \<le> in_flight (release_in_flight b)"
  by (simp add: release_in_flight_def)

subsection \<open>Every operation keeps the invariant\<close>

lemma breaker_invI:
  "params_ok b \<Longrightarrow> counters_ok b \<Longrightarrow> circuit_ok b \<Longrightarrow> log_ok (transitions b) (circuit b) \<Longrightarrow>
   breaker_inv b"
  by (simp add: breaker_inv_def)

lemma breaker_invD:
  assumes "breaker_inv b"
  shows "params_ok b" "counters_ok b" "circuit_ok b" "log_ok (transitions b) (circuit b)"
  using assms by (simp_all add: breaker_inv_def)

lemma new_breaker_inv: "breaker_inv (new_breaker ft er mr rt rs hs)"
  by (auto simp: inv_defs new_breaker_def log_ok_def)

lemma refresh_inv:
  assumes "breaker_inv b"
  shows "breaker_inv (refresh_state now b)"
proof (cases "circuit b = Open \<and> (\<exists>t. opened_at b = Some t \<and> recovery_timeout b \<le> now - t)")
  case True
  then obtain t where t: "circuit b = Open" "opened_at b = Some t" "recovery_timeout b \<le> now - t"
    by blast
  have eq: "refresh_state now b =
      (record_transition Open HalfOpen RecoveryTimeout now b)
        \<lparr>circuit := HalfOpen, probe_in_flight := False\<rparr>"
    using t by (simp add: refresh_state_def)
  show ?thesis
  proof (rule breaker_invI)
    show "params_ok (refresh_state now b)"
      using assms by (simp add: eq inv_defs)
    show "counters_ok (refresh_state now b)"
      using assms by (simp add: eq inv_defs record_transition_log_length)
    show "circuit_ok (refresh_state now b)"
      using t by (simp add: eq inv_defs)
    show "log_ok (transitions (refresh_state now b)) (circuit (refresh_state now b))"
      using breaker_invD(4) [OF assms] t by (simp add: eq record_transition_log)
  qed
next
  case False
  then have "refresh_state now b = b"
    by (auto simp: refresh_state_def split: circuit_state.split option.split)
  with assms show ?thesis by simp
qed

lemma release_inv: "breaker_inv b \<Longrightarrow> breaker_inv (release_in_flight b)"
  by (simp add: inv_defs release_nonneg)

lemma acquire_inv:
  assumes "breaker_inv b"
  shows "breaker_inv (snd (acquire now b))"
  using refresh_inv [OF assms, of now]
  by (auto simp: acquire_def Let_def inv_defs split: circuit_state.split)

lemma success_closes_inv:
  assumes "params_ok b" "counters_ok b" "log_ok (transitions b) c" "circuit_edge c Closed \<or> c = Closed"
  shows "breaker_inv (success_closes now c b)"
  using assms
  by (auto simp: success_closes_def Let_def inv_defs record_transition_log
      record_transition_log_length)

lemma record_success_inv:
  assumes "breaker_inv b"
  shows "breaker_inv (record_success now b)"
proof -
  define b1 where "b1 = refresh_state now (release_in_flight b)"
  have b1: "breaker_inv b1"
    unfolding b1_def by (rule refresh_inv [OF release_inv [OF assms]])
  define b2 where "b2 = b1\<lparr>recovery_successes := recovery_successes b1 + 1, probe_in_flight := False\<rparr>"
  show ?thesis
  proof (cases "circuit b1")
    case Open
    with b1 show ?thesis by (simp add: record_success_def b1_def [symmetric])
  next
    case Closed
    have "breaker_inv (success_closes now Closed b1)"
      using breaker_invD [OF b1] Closed by (intro success_closes_inv) simp_all
    with Closed show ?thesis
      by (simp add: record_success_def b1_def [symmetric])
  next
    case HalfOpen
    have "breaker_inv b2"
      using b1 HalfOpen by (auto simp: b2_def inv_defs)
    moreover have "breaker_inv (success_closes now HalfOpen (b2\<lparr>outcomes := [], recovery_successes := 0\<rparr>))"
      using b1 HalfOpen by (intro success_closes_inv) (auto simp: b2_def inv_defs)
    ultimately show ?thesis
      using HalfOpen by (simp add: record_success_def b1_def [symmetric] Let_def b2_def [symmetric])
  qed
qed

lemma record_failure_inv:
  assumes "breaker_inv b"
  shows "breaker_inv (record_failure now b)"
proof -
  define b0 where "b0 = release_in_flight b"
  have b0: "breaker_inv b0" unfolding b0_def by (rule release_inv [OF assms])
  define b1 where "b1 = b0\<lparr>outcomes := deque_append (outcomes_maxlen b0) (outcomes b0) False,
      consecutive_failures := consecutive_failures b0 + 1, probe_in_flight := False,
      recovery_successes := 0\<rparr>"
  have b1: "breaker_inv b1"
    using b0 by (auto simp: b1_def inv_defs)
  have log: "log_ok (transitions (record_transition (circuit b0) Open r now b1)) Open" for r
  proof (cases "circuit b0")
    case Open
    with b1 show ?thesis by (simp add: record_transition_def b1_def breaker_inv_def)
  qed (use b1 in \<open>auto intro!: record_transition_log simp: breaker_inv_def b1_def\<close>)
  have opened: "breaker_inv ((record_transition (circuit b0) Open r now b1)
      \<lparr>circuit := Open, opened_at := Some now\<rparr>)" for r
  proof (rule breaker_invI)
    show "params_ok ((record_transition (circuit b0) Open r now b1)
        \<lparr>circuit := Open, opened_at := Some now\<rparr>)"
      using breaker_invD(1) [OF b1] by (simp add: params_ok_def)
    show "counters_ok ((record_transition (circuit b0) Open r now b1)
        \<lparr>circuit := Open, opened_at := Some now\<rparr>)"
      using breaker_invD(2) [OF b1] by (simp add: counters_ok_def record_transition_log_length)
    show "circuit_ok ((record_transition (circuit b0) Open r now b1)
        \<lparr>circuit := Open, opened_at := Some now\<rparr>)"
      by (simp add: circuit_ok_def b1_def)
  qed (use log [of r] in simp)
  show ?thesis
    unfolding record_failure_def Let_def b0_def [symmetric] b1_def [symmetric]
    by (simp only: b1 opened split: if_split) simp
qed

lemma record_cancelled_inv: "breaker_inv b \<Longrightarrow> breaker_inv (record_cancelled b)"
  by (auto simp: record_cancelled_def inv_defs release_nonneg)

lemma set_opt_max: "(m :: 'a::linorder) \<le> old \<Longrightarrow> m \<le> set_opt arg (max m) old"
  by (cases arg) simp_all

lemma thresholds_fields [simp]:
  "failure_threshold (reconfigure_thresholds ft er mr rt rs b) =
     set_opt ft (max 1) (failure_threshold b)"
  "error_rate_threshold (reconfigure_thresholds ft er mr rt rs b) =
     set_opt er (\<lambda>v. min 1 (max 0 v)) (error_rate_threshold b)"
  "min_requests (reconfigure_thresholds ft er mr rt rs b) = set_opt mr (max 1) (min_requests b)"
  "recovery_timeout (reconfigure_thresholds ft er mr rt rs b) =
     set_opt rt (max 0) (recovery_timeout b)"
  "recovery_success_threshold (reconfigure_thresholds ft er mr rt rs b) =
     set_opt rs (max 1) (recovery_success_threshold b)"
  "history_size (reconfigure_thresholds ft er mr rt rs b) = history_size b"
  "outcomes_maxlen (reconfigure_thresholds ft er mr rt rs b) = outcomes_maxlen b"
  "outcomes (reconfigure_thresholds ft er mr rt rs b) = outcomes b"
  "circuit (reconfigure_thresholds ft er mr rt rs b) = circuit b"
  "opened_at (reconfigure_thresholds ft er mr rt rs b) = opened_at b"
  "probe_in_flight (reconfigure_thresholds ft er mr rt rs b) = probe_in_flight b"
  "consecutive_failures (reconfigure_thresholds ft er mr rt rs b) = consecutive_failures b"
  "recovery_successes (reconfigure_thresholds ft er mr rt rs b) = recovery_successes b"
  "in_flight (reconfigure_thresholds ft er mr rt rs b) = in_flight b"
  "transitions (reconfigure_thresholds ft er mr rt rs b) = transitions b"
  by (simp_all add: reconfigure_thresholds_def)

lemma resize_fields [simp]:
  "failure_threshold (resize_window m b) = failure_threshold b"
  "error_rate_threshold (resize_window m b) = error_rate_threshold b"
  "min_requests (resize_window m b) = min_requests b"
  "recovery_timeout (resize_window m b) = recovery_timeout b"
  "recovery_success_threshold (resize_window m b) = recovery_success_threshold b"
  "history_size (resize_window m b) = history_size b"
  "outcomes_maxlen (resize_window m b) = m"
  "circuit (resize_window m b) = circuit b"
  "opened_at (resize_window m b) = opened_at b"
  "probe_in_flight (resize_window m b) = probe_in_flight b"
  "consecutive_failures (resize_window m b) = consecutive_failures b"
  "recovery_successes (resize_window m b) = recovery_successes b"
  "in_flight (resize_window m b) = in_flight b"
  "transitions (resize_window m b) = transitions b"
  by (simp_all add: resize_window_def)

lemma resize_outcomes:
  "length (outcomes b) \<le> outcomes_maxlen b \<Longrightarrow>
   outcomes (resize_window m b) = take_last m (outcomes b)"
  by (simp add: resize_window_def take_last_short)

lemma reconfigure_fields [simp]:
  "failure_threshold (reconfigure ft er mr rt rs hs b) = set_opt ft (max 1) (failure_threshold b)"
  "error_rate_threshold (reconfigure ft er mr rt rs hs b) =
     set_opt er (\<lambda>v. min 1 (max 0 v)) (error_rate_threshold b)"
  "min_requests (reconfigure ft er mr rt rs hs b) = set_opt mr (max 1) (min_requests b)"
  "recovery_timeout (reconfigure ft er mr rt rs hs b) = set_opt rt (max 0) (recovery_timeout b)"
  "recovery_success_threshold (reconfigure ft er mr rt rs hs b) =
     set_opt rs (max 1) (recovery_success_threshold b)"
  "history_size (reconfigure ft er mr rt rs hs b) = set_opt hs (max 1) (history_size b)"
  by (cases hs; simp add: reconfigure_def Let_def)+

lemma reconfigure_maxlen:
  assumes "1 \<le> history_size b"
  shows "int (outcomes_maxlen (reconfigure ft er mr rt rs hs b)) =
      max (set_opt hs (max 1) (history_size b)) (set_opt mr (max 1) (min_requests b))"
  using assms by (cases hs) (simp_all add: reconfigure_def Let_def)

lemma reconfigure_params:
  assumes "breaker_inv b"
  shows "params_ok (reconfigure ft er mr rt rs hs b)"
proof -
  have p: "1 \<le> failure_threshold b" "0 \<le> error_rate_threshold b \<and> error_rate_threshold b \<le> 1"
    "1 \<le> min_requests b" "0 \<le> recovery_timeout b" "1 \<le> recovery_success_threshold b"
    "1 \<le> history_size b"
    using breaker_invD(1) [OF assms] by (simp_all only: params_ok_def)
  have mr: "1 \<le> set_opt mr (max 1) (min_requests b)"
    by (rule set_opt_max [OF p(3)])
  have er: "0 \<le> set_opt er (\<lambda>v. min 1 (max 0 v)) (error_rate_threshold b) \<and>
      set_opt er (\<lambda>v. min 1 (max 0 v)) (error_rate_threshold b) \<le> 1"
    using p(2) by (cases er) simp_all
  have ft: "1 \<le> set_opt ft (max 1) (failure_threshold b)"
    by (rule set_opt_max [OF p(1)])
  have rt: "0 \<le> set_opt rt (max 0) (recovery_timeout b)"
    by (rule set_opt_max [OF p(4)])
  have rs: "1 \<le> set_opt rs (max 1) (recovery_success_threshold b)"
    by (rule set_opt_max [OF p(5)])
  have hs: "1 \<le> set_opt hs (max 1) (history_size b)"
    by (rule set_opt_max [OF p(6)])
  from reconfigure_maxlen [OF p(6)] show ?thesis
    unfolding params_ok_def reconfigure_fields
    by (intro conjI ft er [THEN conjunct1] er [THEN conjunct2] mr rt rs hs)
qed

lemma reconfigure_runtime:
  "circuit (reconfigure ft er mr rt rs hs b) = circuit b"
  "opened_at (reconfigure ft er mr rt rs hs b) = opened_at b"
  "probe_in_flight (reconfigure ft er mr rt rs hs b) = probe_in_flight b"
  "consecutive_failures (reconfigure ft er mr rt rs hs b) = consecutive_failures b"
  "recovery_successes (reconfigure ft er mr rt rs hs b) = recovery_successes b"
  "in_flight (reconfigure ft er mr rt rs hs b) = in_flight b"
  "transitions (reconfigure ft er mr rt rs hs b) = transitions b"
  by (cases hs; simp add: reconfigure_def Let_def)+

lemma reconfigure_outcomes:
  assumes "breaker_inv b"
  shows "outcomes (reconfigure ft er mr rt rs hs b) =
           take_last (outcomes_maxlen (reconfigure ft er mr rt rs hs b)) (outcomes b)"
  using breaker_invD(2) [OF assms]
  by (cases hs) (simp_all add: reconfigure_def Let_def counters_ok_def resize_outcomes)

lemma reconfigure_inv: "breaker_inv b \<Longrightarrow> breaker_inv (reconfigure ft er mr rt rs hs b)"
  by (intro breaker_invI reconfigure_params)
     (auto simp: reconfigure_runtime reconfigure_outcomes counters_ok_def circuit_ok_def
       dest: breaker_invD)

section \<open>Runs\<close>

text \<open>
  The calls a breaker receives from its manager: \<open>Peek\<close> stands for \<open>state\<close>, \<open>snapshot\<close>
  and \<open>durable_state\<close>, which only refresh.
\<close>

datatype breaker_event =
    Acquire seconds
  | Success seconds
  | Failure seconds
  | Cancelled
  | Peek seconds
  | Reconfigure "int option" "rat option" "int option" "seconds option" "int option" "int option"

fun breaker_step :: "breaker_event \<Rightarrow> breaker \<Rightarrow> breaker" where
  "breaker_step (Acquire now) b = snd (acquire now b)"
| "breaker_step (Success now) b = record_success now b"
| "breaker_step (Failure now) b = record_failure now b"
| "breaker_step Cancelled b = record_cancelled b"
| "breaker_step (Peek now) b = refresh_state now b"
| "breaker_step (Reconfigure ft er mr rt rs hs) b = reconfigure ft er mr rt rs hs b"

lemma breaker_step_inv: "breaker_inv b \<Longrightarrow> breaker_inv (breaker_step e b)"
  by (cases e) (simp_all add: acquire_inv record_success_inv record_failure_inv
      record_cancelled_inv refresh_inv reconfigure_inv)

lemma success_closes_circuit [simp]: "circuit (success_closes now c b) = Closed"
  by (simp add: success_closes_def Let_def)

interpretation cb: invariant_machine breaker_step breaker_inv
  by unfold_locales (simp add: breaker_step_inv)

text \<open>Whatever calls a freshly built breaker receives, in any order and with any clock
  readings and configuration edits, its state stays well formed: thresholds inside their
  ranges, the sample window exactly as long as the larger of \<open>history_size\<close> and
  \<open>min_requests\<close>, counters non-negative and bounded, the probe permit taken only while
  half-open, and the transition log a chain of legal edges that ends in the current state.\<close>

theorem breaker_always_well_formed:
  "breaker_inv (fold breaker_step es (new_breaker ft er mr rt rs hs))"
  by (rule cb.run_inv [OF new_breaker_inv])

section \<open>The guarded automaton\<close>














section \<open>Tripping, cooling down, probing, recovering\<close>

lemma record_failure_stays_open:
  "circuit b = Open \<Longrightarrow> circuit (record_failure now b) = Open"
  by (simp add: record_failure_def Let_def)

lemma record_failure_thresholds [simp]:
  "failure_threshold (record_failure now b) = failure_threshold b"
  "error_rate_threshold (record_failure now b) = error_rate_threshold b"
  "min_requests (record_failure now b) = min_requests b"
  "recovery_timeout (record_failure now b) = recovery_timeout b"
  "outcomes_maxlen (record_failure now b) = outcomes_maxlen b"
  by (simp_all add: record_failure_def Let_def)

lemma record_failure_counts [simp]:
  "consecutive_failures (record_failure now b) = consecutive_failures b + 1"
  "outcomes (record_failure now b) = deque_append (outcomes_maxlen b) (outcomes b) False"
  by (simp_all add: record_failure_def Let_def)

lemma take_last_replicate [deque_simps]: "take_last m (replicate n x) = replicate (min m n) x"
  by (simp add: take_last_def)

lemma deque_append_replicate [deque_simps]:
  "deque_append m (replicate n x) x = replicate (min m (Suc n)) x"
  using take_last_replicate [of m "Suc n" x]
  by (simp add: deque_append_def replicate_append_same [symmetric] del: replicate_append_same)

lemma success_count_replicate [simp]:
  "success_count (replicate n False) = 0" "success_count (replicate n True) = n"
  by (induction n) (simp_all add: success_count_def)

lemma record_failure_circuit:
  "circuit (record_failure now b) =
     (if circuit b = Open \<or> circuit b = HalfOpen
         \<or> failure_threshold b \<le> consecutive_failures b + 1
         \<or> min_requests b \<le> int (length (outcomes (record_failure now b)))
           \<and> error_rate_threshold b \<le> 1 - (of_nat (success_count (outcomes (record_failure now b)))
               / of_nat (length (outcomes (record_failure now b))))
      then Open else Closed)"
  by (cases "circuit b") (simp_all add: record_failure_def should_open_def Let_def)

lemma failure_run:
  fixes b :: breaker
  assumes "breaker_inv b" "circuit b = Closed" "consecutive_failures b = 0" "outcomes b = []"
  shows "consecutive_failures (fold record_failure ts b) = int (length ts) \<and>
    outcomes (fold record_failure ts b) = replicate (min (outcomes_maxlen b) (length ts)) False \<and>
    outcomes_maxlen (fold record_failure ts b) = outcomes_maxlen b \<and>
    failure_threshold (fold record_failure ts b) = failure_threshold b \<and>
    min_requests (fold record_failure ts b) = min_requests b \<and>
    error_rate_threshold (fold record_failure ts b) = error_rate_threshold b \<and>
    circuit (fold record_failure ts b) =
      (if min (failure_threshold b) (min_requests b) \<le> int (length ts) then Open else Closed)"
proof (induction ts rule: rev_induct)
  case Nil
  with assms show ?case by (auto simp: inv_defs min_def)
next
  case (snoc t ts)
  have bounds: "1 \<le> min_requests b" "min_requests b \<le> int (outcomes_maxlen b)"
    "error_rate_threshold b \<le> 1"
    using assms(1) by (simp_all add: inv_defs)
  have window: "outcomes (record_failure t (fold record_failure ts b)) =
      replicate (min (outcomes_maxlen b) (Suc (length ts))) False"
    using snoc by (simp add: deque_append_replicate min.assoc)
  have "circuit (record_failure t (fold record_failure ts b)) =
      (if min (failure_threshold b) (min_requests b) \<le> int (length ts) + 1 then Open else Closed)"
    unfolding record_failure_circuit window
    using snoc bounds by auto
  with snoc window show ?case by simp
qed

text \<open>A breaker that sees nothing but failures opens at exactly the failure that reaches
  the smaller of \<open>failure_threshold\<close> and \<open>min_requests\<close> (at which point the error rate is 1,
  at or above any threshold), stays closed before it and open after it.\<close>

theorem failures_trip_exactly:
  "circuit (fold record_failure ts (new_breaker ft er mr rt rs hs)) =
     (if min (max 1 ft) (max 1 mr) \<le> int (length ts) then Open else Closed)"
  using failure_run [OF new_breaker_inv, of ft er mr rt rs hs ts] by (simp add: new_breaker_def)

lemma acquire_open_blocked:
  "circuit b = Open \<Longrightarrow> opened_at b = Some t \<Longrightarrow> now - t < recovery_timeout b \<Longrightarrow>
   acquire now b = (False, b)"
  by (simp add: acquire_def)

lemma acquire_open_due:
  "circuit b = Open \<Longrightarrow> opened_at b = Some t \<Longrightarrow> recovery_timeout b \<le> now - t \<Longrightarrow>
   fst (acquire now b) \<and> circuit (snd (acquire now b)) = HalfOpen \<and>
   probe_in_flight (snd (acquire now b))"
  using refresh_due [of b t now] by (simp add: acquire_def Let_def)

text \<open>The failure that opens a breaker starts its cool-down: a request is refused until
  \<open>recovery_timeout\<close> seconds after that failure, and the first request from then on is let
  through as the half-open probe. In particular a failed probe pays the whole timeout
  again.\<close>

theorem cool_down_exact:
  assumes "circuit b \<noteq> Open" "circuit (record_failure now b) = Open"
  shows "fst (acquire t (record_failure now b)) \<longleftrightarrow> recovery_timeout b \<le> t - now"
proof -
  have "opened_at (record_failure now b) = Some now"
    using assms by (auto simp: record_failure_def Let_def split: if_splits)
  then show ?thesis
    using assms(2) acquire_open_blocked [of "record_failure now b" now t]
      acquire_open_due [of "record_failure now b" now t]
    by (cases "recovery_timeout b \<le> t - now") auto
qed

theorem cool_down_exact_witness:
  "\<not> fst (acquire 29 (record_failure 0 (new_breaker 1 (1/2) 10 30 2 20))) \<and>
   fst (acquire 30 (record_failure 0 (new_breaker 1 (1/2) 10 30 2 20)))"
proof -
  have c: "circuit (new_breaker 1 (1/2) 10 30 2 20) \<noteq> Open"
    by (simp add: new_breaker_def)
  have o: "circuit (record_failure 0 (new_breaker 1 (1/2) 10 30 2 20)) = Open"
    by (simp add: record_failure_circuit new_breaker_def)
  show ?thesis
    using cool_down_exact [OF c o, of 29] cool_down_exact [OF c o, of 30]
    by (simp add: new_breaker_def)
qed

text \<open>The answers a list of requests gets when no result is recorded between them.\<close>

fun acquire_all :: "seconds list \<Rightarrow> breaker \<Rightarrow> bool list" where
  "acquire_all [] b = []"
| "acquire_all (t # ts) b = fst (acquire t b) # acquire_all ts (snd (acquire t b))"

lemma acquire_all_taken:
  "circuit b = HalfOpen \<Longrightarrow> probe_in_flight b \<Longrightarrow>
   acquire_all ts b = replicate (length ts) False"
  by (induction ts) (simp_all add: acquire_def)

text \<open>One probe at a time: of any number of requests that reach a half-open breaker before
  a result is recorded, at whatever times, only the first is let through.\<close>

theorem half_open_admits_one_probe:
  assumes "circuit b = HalfOpen" "\<not> probe_in_flight b"
  shows "acquire_all (t # ts) b = True # replicate (length ts) False"
  using assms acquire_all_taken [of "snd (acquire t b)" ts] by (simp add: acquire_def)

theorem half_open_admits_one_probe_witness:
  "acquire_all [31, 32, 500]
     (refresh_state 30 (record_failure 0 (new_breaker 1 (1/2) 10 30 2 20))) = [True, False, False]"
proof -
  have "circuit (record_failure 0 (new_breaker 1 (1/2) 10 30 2 20)) = Open"
    by (simp add: record_failure_circuit new_breaker_def)
  moreover have "opened_at (record_failure 0 (new_breaker 1 (1/2) 10 30 2 20)) = Some 0"
    by (simp add: record_failure_def should_open_def new_breaker_def Let_def release_in_flight_def)
  ultimately have h: "circuit (refresh_state 30 (record_failure 0 (new_breaker 1 (1/2) 10 30 2 20))) = HalfOpen"
    "\<not> probe_in_flight (refresh_state 30 (record_failure 0 (new_breaker 1 (1/2) 10 30 2 20)))"
    by (simp_all add: refresh_due new_breaker_def)
  show ?thesis using half_open_admits_one_probe [OF h, of 31 "[32, 500]"] by simp
qed

text \<open>One probe: a request let through, then its success.\<close>

definition probe_cycle :: "seconds \<times> seconds \<Rightarrow> breaker \<Rightarrow> breaker" where
  "probe_cycle c b = record_success (snd c) (snd (acquire (fst c) b))"

lemma probe_cycle_step:
  assumes "circuit b = HalfOpen" "\<not> probe_in_flight b"
    and "recovery_successes b + 1 < recovery_success_threshold b"
  shows "circuit (probe_cycle c b) = HalfOpen \<and> \<not> probe_in_flight (probe_cycle c b) \<and>
    recovery_successes (probe_cycle c b) = recovery_successes b + 1 \<and>
    recovery_success_threshold (probe_cycle c b) = recovery_success_threshold b \<and>
    outcomes_maxlen (probe_cycle c b) = outcomes_maxlen b"
  using assms by (simp add: probe_cycle_def acquire_def record_success_def Let_def)

lemma probe_cycle_last:
  assumes "circuit b = HalfOpen" "\<not> probe_in_flight b" "0 < outcomes_maxlen b"
    and "recovery_success_threshold b \<le> recovery_successes b + 1"
  shows "circuit (probe_cycle c b) = Closed \<and> consecutive_failures (probe_cycle c b) = 0 \<and>
    outcomes (probe_cycle c b) = [True]"
  using assms by (simp add: probe_cycle_def acquire_def record_success_def success_closes_def
      Let_def deque_append_room)

lemma probe_cycles_pending:
  assumes "circuit b = HalfOpen" "\<not> probe_in_flight b" "0 \<le> recovery_successes b"
    and "recovery_successes b + int (length cs) < recovery_success_threshold b"
  shows "circuit (fold probe_cycle cs b) = HalfOpen \<and> \<not> probe_in_flight (fold probe_cycle cs b) \<and>
    recovery_successes (fold probe_cycle cs b) = recovery_successes b + int (length cs) \<and>
    recovery_success_threshold (fold probe_cycle cs b) = recovery_success_threshold b \<and>
    outcomes_maxlen (fold probe_cycle cs b) = outcomes_maxlen b"
  using assms
proof (induction cs arbitrary: b)
  case (Cons c cs)
  then show ?case using probe_cycle_step [of b c] by simp
qed simp

text \<open>A half-open breaker closes after exactly \<open>recovery_success_threshold\<close> successful
  probes in a row, not one earlier; when it closes, the failure count is 0 and the sample
  window holds only the success that closed it.\<close>

theorem recovery_takes_threshold_probes:
  assumes "breaker_inv b" "circuit b = HalfOpen" "\<not> probe_in_flight b" "recovery_successes b = 0"
  shows "(int (length cs) < recovery_success_threshold b \<longrightarrow>
      circuit (fold probe_cycle cs b) = HalfOpen) \<and>
    (int (length cs) = recovery_success_threshold b \<longrightarrow>
      circuit (fold probe_cycle cs b) = Closed \<and>
      consecutive_failures (fold probe_cycle cs b) = 0 \<and> outcomes (fold probe_cycle cs b) = [True])"
proof (rule conjI)
  show "int (length cs) < recovery_success_threshold b \<longrightarrow>
      circuit (fold probe_cycle cs b) = HalfOpen"
    using probe_cycles_pending [of b cs] assms by simp
  show "int (length cs) = recovery_success_threshold b \<longrightarrow>
      circuit (fold probe_cycle cs b) = Closed \<and>
      consecutive_failures (fold probe_cycle cs b) = 0 \<and> outcomes (fold probe_cycle cs b) = [True]"
  proof
    assume len: "int (length cs) = recovery_success_threshold b"
    moreover have "1 \<le> recovery_success_threshold b" "0 < outcomes_maxlen b"
      using assms(1) by (auto simp: inv_defs)
    ultimately obtain ds d where cs: "cs = ds @ [d]"
      by (cases cs rule: rev_cases) auto
    have "circuit (probe_cycle d (fold probe_cycle ds b)) = Closed \<and>
        consecutive_failures (probe_cycle d (fold probe_cycle ds b)) = 0 \<and>
        outcomes (probe_cycle d (fold probe_cycle ds b)) = [True]"
      using probe_cycles_pending [of b ds] assms len cs \<open>0 < outcomes_maxlen b\<close>
      by (intro probe_cycle_last) auto
    with cs show "circuit (fold probe_cycle cs b) = Closed \<and>
      consecutive_failures (fold probe_cycle cs b) = 0 \<and> outcomes (fold probe_cycle cs b) = [True]"
      by simp
  qed
qed

text \<open>A half-open breaker the witnesses share: the default thresholds, tripped once.\<close>

definition half_open_example :: breaker where
  "half_open_example = (new_breaker 3 (1/2) 10 30 2 20)
     \<lparr>circuit := HalfOpen, opened_at := Some 0, consecutive_failures := 3\<rparr>"

lemma half_open_example_inv: "breaker_inv half_open_example"
  by (simp add: half_open_example_def new_breaker_def inv_defs log_ok_def)

lemma half_open_example_fields [simp]:
  "circuit half_open_example = HalfOpen" "\<not> probe_in_flight half_open_example"
  "recovery_successes half_open_example = 0" "recovery_success_threshold half_open_example = 2"
  by (simp_all add: half_open_example_def new_breaker_def)

theorem recovery_takes_threshold_probes_witness:
  "circuit (fold probe_cycle [(31, 32)] half_open_example) = HalfOpen \<and>
   circuit (fold probe_cycle [(31, 32), (33, 34)] half_open_example) = Closed"
  using recovery_takes_threshold_probes [OF half_open_example_inv, of "[(31, 32)]"]
    recovery_takes_threshold_probes [OF half_open_example_inv, of "[(31, 32), (33, 34)]"]
  by simp

text \<open>Editing the thresholds of a running breaker replaces no runtime state: the circuit,
  its opening time, the probe permit, the failure and recovery counts, the requests in
  flight and the transition log are untouched, the most recent samples are kept, and the new
  window still holds \<open>min_requests\<close> samples, so the error-rate branch stays reachable.\<close>

theorem reconfigure_keeps_runtime:
  fixes ft er mr rt rs hs b
  assumes "breaker_inv b"
  defines "b' \<equiv> reconfigure ft er mr rt rs hs b"
  shows "circuit b' = circuit b \<and> opened_at b' = opened_at b \<and>
    probe_in_flight b' = probe_in_flight b \<and>
    consecutive_failures b' = consecutive_failures b \<and>
    recovery_successes b' = recovery_successes b \<and> in_flight b' = in_flight b \<and>
    transitions b' = transitions b \<and>
    outcomes b' = take_last (outcomes_maxlen b') (outcomes b) \<and>
    min_requests b' \<le> int (outcomes_maxlen b')"
proof -
  have "int (outcomes_maxlen b') = max (history_size b') (min_requests b')"
    unfolding b'_def using reconfigure_params [OF assms(1)] by (simp only: params_ok_def)
  then show ?thesis
    unfolding b'_def
    by (simp add: reconfigure_runtime reconfigure_outcomes [OF assms(1)] del: reconfigure_fields)
qed

theorem reconfigure_keeps_runtime_witness:
  "circuit (reconfigure (Some 1) None (Some 50) None None None half_open_example) = HalfOpen \<and>
   outcomes_maxlen (reconfigure (Some 1) None (Some 50) None None None half_open_example) = 50"
  using reconfigure_keeps_runtime [OF half_open_example_inv, of "Some 1" None "Some 50" None None None]
  by (simp add: half_open_example_def new_breaker_def reconfigure_def reconfigure_thresholds_def Let_def)

section \<open>The summary\<close>

lemma py_round_int [simp]: "py_round (of_int n) = n"
  by (simp add: py_round_def Let_def)

lemma error_rate_samples:
  "of_nat (length (outcomes b)) * (1 - current_error_rate b) = of_nat (success_count (outcomes b))"
  by (cases "outcomes b = []") (simp_all add: current_error_rate_def success_count_def)

lemma current_error_rate_refresh [simp]:
  "current_error_rate (refresh_state now b) = current_error_rate b"
  by (simp add: current_error_rate_def)

definition counted :: "circuit_state \<Rightarrow> seconds \<Rightarrow> breaker list \<Rightarrow> nat" where
  "counted c now bs = length (filter (\<lambda>b. circuit (refresh_state now b) = c) bs)"

lemma rounded_successes:
  "py_round (of_nat (length (outcomes b)) * (1 - current_error_rate b)) =
     int (success_count (outcomes b))"
  unfolding error_rate_samples
  using py_round_int [of "int (success_count (outcomes b))"] by simp

lemma summary_step_simp:
  "summary_step now b acc =
     acc\<lparr>sa_active := sa_active acc + in_flight b,
         sa_requests := sa_requests acc + length (outcomes b),
         sa_successes := sa_successes acc + int (success_count (outcomes b)),
         sa_tripped := sa_tripped acc + counted Open now [b],
         sa_probing := sa_probing acc + counted HalfOpen now [b],
         sa_healthy := sa_healthy acc + counted Closed now [b],
         sa_window := max (sa_window acc) (min_requests b)\<rparr>"
  by (simp add: summary_step_def breaker_snapshot_def Let_def rounded_successes counted_def)

lemma counted_Cons: "counted c now (b # bs) = counted c now [b] + counted c now bs"
  by (simp add: counted_def)

lemma summary_fold:
  "sa_active (fold (summary_step now) bs acc) = sa_active acc + sum_list (map in_flight bs)"
  "sa_requests (fold (summary_step now) bs acc) =
     sa_requests acc + sum_list (map (length \<circ> outcomes) bs)"
  "sa_successes (fold (summary_step now) bs acc) =
     sa_successes acc + int (sum_list (map (success_count \<circ> outcomes) bs))"
  "sa_tripped (fold (summary_step now) bs acc) = sa_tripped acc + counted Open now bs"
  "sa_probing (fold (summary_step now) bs acc) = sa_probing acc + counted HalfOpen now bs"
  "sa_healthy (fold (summary_step now) bs acc) = sa_healthy acc + counted Closed now bs"
  by (induction bs arbitrary: acc)
     (simp_all add: summary_step_simp counted_Cons [of _ _ _ "_ # _"], simp_all add: counted_def)

lemma counted_partition:
  "counted Closed now bs + counted HalfOpen now bs + counted Open now bs = length bs"
proof (induction bs)
  case (Cons b bs)
  then show ?case by (cases "circuit (refresh_state now b)") (simp_all add: counted_def)
qed (simp add: counted_def)

text \<open>The queue summary is exact: the three provider counts add up to the number of
  providers, the request total is the number of samples in all windows, and the success
  rate, although it is rebuilt from rounded error rates, is the number of recorded successes
  over that total; it is absent exactly when there is no sample.\<close>

theorem summary_exact:
  "let s = from_breakers now bs up; outs = map (outcomes \<circ> snd) bs;
       total = sum_list (map length outs); good = sum_list (map success_count outs)
   in healthy_providers s + probing_providers s + tripped_providers s = total_providers s \<and>
      total_providers s = length bs \<and> total_requests s = total \<and>
      active_connections s = sum_list (map (in_flight \<circ> snd) bs) \<and>
      success_rate s = (if total = 0 then None else Some (of_nat good / of_nat total))"
  using counted_partition [of now "map snd bs"]
  by (simp add: from_breakers_def Let_def summary_fold comp_def)

end
