(* ===== verification/Backend_Config.thy ===== *)
theory Backend_Config
  imports Circuit_Breaker
begin

text \<open>
  The resilience settings of one provider (\<open>LLMBackendConfig\<close> in
  \<open>kirara_ai/config/global_config.py\<close>), their cross-field validator, the effective
  timeouts, and the retry delay of the executor in \<open>llm_manager.py\<close>. The fields that only
  name an adapter or a catalogue entry are kept as identifiers; \<open>model_fields_set\<close> is the
  pair of flags the code asks about.
\<close>

section \<open>The settings\<close>

record backend_config =
  be_name :: string
  be_enable :: bool
  be_models :: "string list"
  be_priority :: int
  be_participate_in_failover :: bool
  be_max_retries :: int
  be_retry_backoff_seconds :: seconds
  be_retry_backoff_max_seconds :: seconds
  be_request_timeout_seconds :: seconds
  be_non_stream_timeout_seconds :: seconds
  be_stream_first_byte_timeout_seconds :: seconds
  be_stream_idle_timeout_seconds :: seconds
  be_stream_total_timeout_seconds :: seconds
  be_circuit_failure_threshold :: int
  be_circuit_error_rate_threshold :: rat
  be_circuit_min_requests :: int
  be_circuit_recovery_timeout_seconds :: seconds
  be_circuit_recovery_success_threshold :: int
  be_non_stream_timeout_set :: bool
  be_stream_total_timeout_set :: bool

definition default_backend :: "string \<Rightarrow> backend_config" where
  "default_backend n =
     \<lparr>be_name = n, be_enable = True, be_models = [], be_priority = 100,
      be_participate_in_failover = True, be_max_retries = 0,
      be_retry_backoff_seconds = 1/2, be_retry_backoff_max_seconds = 5,
      be_request_timeout_seconds = 600, be_non_stream_timeout_seconds = 600,
      be_stream_first_byte_timeout_seconds = 60, be_stream_idle_timeout_seconds = 120,
      be_stream_total_timeout_seconds = 600,
      be_circuit_failure_threshold = 3, be_circuit_error_rate_threshold = 1/2,
      be_circuit_min_requests = 10, be_circuit_recovery_timeout_seconds = 30,
      be_circuit_recovery_success_threshold = 2,
      be_non_stream_timeout_set = False, be_stream_total_timeout_set = False\<rparr>"

text \<open>The field constraints pydantic checks (\<open>ge\<close>, \<open>le\<close>, \<open>gt\<close>) before the validator.\<close>

definition fields_in_range :: "backend_config \<Rightarrow> bool" where
  "fields_in_range c \<longleftrightarrow>
     0 \<le> be_priority c \<and> 0 \<le> be_max_retries c \<and> be_max_retries c \<le> 10 \<and>
     0 \<le> be_retry_backoff_seconds c \<and> 0 \<le> be_retry_backoff_max_seconds c \<and>
     0 < be_request_timeout_seconds c \<and> 0 < be_non_stream_timeout_seconds c \<and>
     0 < be_stream_first_byte_timeout_seconds c \<and> 0 < be_stream_idle_timeout_seconds c \<and>
     0 < be_stream_total_timeout_seconds c \<and> 1 \<le> be_circuit_failure_threshold c \<and>
     0 \<le> be_circuit_error_rate_threshold c \<and> be_circuit_error_rate_threshold c \<le> 1 \<and>
     1 \<le> be_circuit_min_requests c \<and> 0 \<le> be_circuit_recovery_timeout_seconds c \<and>
     1 \<le> be_circuit_recovery_success_threshold c \<and>
     be_circuit_recovery_success_threshold c \<le> 100"

section \<open>The validator\<close>

datatype budget_error =
    BackoffMaxBelowInitial
  | StreamActivityExceedsTotal
  | BackoffBudgetExceedsTotal

text \<open>The loop of the validator: \<open>n\<close> more rounds, the current delay, the budget so far.\<close>

fun backoff_budget :: "nat \<Rightarrow> seconds \<Rightarrow> seconds \<Rightarrow> seconds \<Rightarrow> seconds" where
  "backoff_budget 0 delay cap acc = acc"
| "backoff_budget (Suc n) delay cap acc =
     backoff_budget n (delay * 2) cap (acc + min delay cap)"

definition validate_timeout_budget :: "backend_config \<Rightarrow> budget_error + backend_config" where
  "validate_timeout_budget c =
     (if be_retry_backoff_max_seconds c < be_retry_backoff_seconds c
      then Inl BackoffMaxBelowInitial
      else if be_stream_total_timeout_set c \<and>
              be_stream_total_timeout_seconds c
                < be_stream_first_byte_timeout_seconds c + be_stream_idle_timeout_seconds c
      then Inl StreamActivityExceedsTotal
      else if be_max_retries c \<noteq> 0 \<and> be_non_stream_timeout_set c \<and>
              be_non_stream_timeout_seconds c
                < backoff_budget (nat (be_max_retries c)) (be_retry_backoff_seconds c)
                    (be_retry_backoff_max_seconds c) 0
      then Inl BackoffBudgetExceedsTotal
      else Inr c)"

definition effective_stream_total_timeout :: "backend_config \<Rightarrow> seconds" where
  "effective_stream_total_timeout c =
     (if be_stream_total_timeout_set c then be_stream_total_timeout_seconds c
      else be_request_timeout_seconds c)"

definition effective_non_stream_timeout :: "backend_config \<Rightarrow> seconds" where
  "effective_non_stream_timeout c =
     (if be_non_stream_timeout_set c then be_non_stream_timeout_seconds c
      else be_request_timeout_seconds c)"

section \<open>What the executor reads\<close>

text \<open>\<open>LLMManager._non_stream_timeout\<close> and \<open>_stream_timeout\<close>: the same choice, with the
  field default when there is no configuration.\<close>

definition non_stream_timeout :: "backend_config option \<Rightarrow> seconds" where
  "non_stream_timeout c =
     (case c of
        None \<Rightarrow> be_non_stream_timeout_seconds (default_backend [])
      | Some b \<Rightarrow> (if be_non_stream_timeout_set b then be_non_stream_timeout_seconds b
                  else be_request_timeout_seconds b))"

definition stream_timeout :: "backend_config option \<Rightarrow> seconds" where
  "stream_timeout c =
     (case c of
        None \<Rightarrow> be_stream_total_timeout_seconds (default_backend [])
      | Some b \<Rightarrow> (if be_stream_total_timeout_set b then be_stream_total_timeout_seconds b
                  else be_request_timeout_seconds b))"

text \<open>The breaker the manager builds for a provider: its own thresholds or the defaults.\<close>

definition breaker_for :: "backend_config option \<Rightarrow> breaker" where
  "breaker_for c =
     (let b = (case c of Some b \<Rightarrow> b | None \<Rightarrow> default_backend [])
      in new_breaker (be_circuit_failure_threshold b) (be_circuit_error_rate_threshold b)
           (be_circuit_min_requests b) (be_circuit_recovery_timeout_seconds b)
           (be_circuit_recovery_success_threshold b) 20)"

text \<open>The retry budget of one provider: an explicit argument wins over the configuration.\<close>

definition provider_retries :: "int option \<Rightarrow> backend_config option \<Rightarrow> nat" where
  "provider_retries max_retries c =
     nat (max 0 (case max_retries of Some n \<Rightarrow> n
                 | None \<Rightarrow> (case c of Some b \<Rightarrow> be_max_retries b | None \<Rightarrow> 0)))"

definition provider_base_delay :: "seconds option \<Rightarrow> backend_config option \<Rightarrow> seconds" where
  "provider_base_delay retry_delay c =
     max 0 (case retry_delay of Some d \<Rightarrow> d
            | None \<Rightarrow> (case c of Some b \<Rightarrow> be_retry_backoff_seconds b | None \<Rightarrow> 1/2))"

definition provider_max_delay :: "backend_config option \<Rightarrow> seconds" where
  "provider_max_delay c =
     be_retry_backoff_max_seconds (case c of Some b \<Rightarrow> b | None \<Rightarrow> default_backend [])"

definition retry_delay_for :: "seconds \<Rightarrow> seconds \<Rightarrow> nat \<Rightarrow> seconds" where
  "retry_delay_for max_delay base_delay retry_index =
     min max_delay (base_delay * 2 ^ retry_index)"

section \<open>Properties\<close>

lemma backoff_budget_acc: "backoff_budget n d cap acc = acc + backoff_budget n d cap 0"
proof (induction n arbitrary: d acc)
  case (Suc n)
  show ?case
    using Suc.IH [of "d * 2" "acc + min d cap"] Suc.IH [of "d * 2" "0 + min d cap"] by simp
qed simp

lemma backoff_budget_sum:
  "backoff_budget n d cap 0 = (\<Sum>i<n. retry_delay_for cap d i)"
proof (induction n arbitrary: d)
  case (Suc n)
  have "backoff_budget (Suc n) d cap 0 = min d cap + backoff_budget n (d * 2) cap 0"
    using backoff_budget_acc [of n "d * 2" cap "min d cap"] by simp
  also have "\<dots> = retry_delay_for cap d 0 + (\<Sum>i<n. retry_delay_for cap d (Suc i))"
    by (simp add: Suc.IH retry_delay_for_def mult.assoc min.commute)
  also have "\<dots> = (\<Sum>i<Suc n. retry_delay_for cap d i)"
    by (rule sum.lessThan_Suc_shift [symmetric])
  finally show ?case .
qed simp

lemma validate_accepts:
  "validate_timeout_budget c = Inr c' \<Longrightarrow>
     c' = c \<and> be_retry_backoff_seconds c \<le> be_retry_backoff_max_seconds c"
  by (auto simp: validate_timeout_budget_def split: if_splits)

text \<open>C30. A configuration is accepted exactly when the budgets it sets fit. For fields in their ranges, the
  validator accepts a configuration if and only if its largest wait is not below the first one; the first
  byte and idle allowances fit into the deadline the executor gives a stream, if the configuration sets
  that total; and the waits the executor makes between attempts, one \<open>min(max_delay, base * 2 ** i)\<close> per
  retry, add up to at most the deadline it gives a request, if the configuration sets that one. Totals that
  are inherited from the older field are not checked.\<close>

theorem accepted_iff_budgets_fit:
  assumes "fields_in_range c"
  shows "validate_timeout_budget c = Inr c' \<longleftrightarrow>
    c' = c \<and> be_retry_backoff_seconds c \<le> be_retry_backoff_max_seconds c \<and>
    (be_stream_total_timeout_set c \<longrightarrow>
       be_stream_first_byte_timeout_seconds c + be_stream_idle_timeout_seconds c \<le> stream_timeout (Some c)) \<and>
    (be_non_stream_timeout_set c \<longrightarrow>
       (\<Sum>i<provider_retries None (Some c).
          retry_delay_for (provider_max_delay (Some c)) (provider_base_delay None (Some c)) i)
       \<le> non_stream_timeout (Some c))"
proof -
  have base: "provider_base_delay None (Some c) = be_retry_backoff_seconds c"
    and pos: "0 < be_non_stream_timeout_seconds c" "0 \<le> be_max_retries c"
    using assms by (simp_all add: provider_base_delay_def fields_in_range_def)
  have "backoff_budget (nat (be_max_retries c)) (be_retry_backoff_seconds c) (be_retry_backoff_max_seconds c) 0 =
      (\<Sum>i<provider_retries None (Some c).
        retry_delay_for (provider_max_delay (Some c)) (provider_base_delay None (Some c)) i)"
    using pos(2) by (simp add: backoff_budget_sum base provider_retries_def provider_max_delay_def)
  moreover have "be_max_retries c = 0 \<Longrightarrow> (\<Sum>i<provider_retries None (Some c).
        retry_delay_for (provider_max_delay (Some c)) (provider_base_delay None (Some c)) i) = 0"
    by (simp add: provider_retries_def)
  ultimately show ?thesis
    using pos(1) by (auto simp: validate_timeout_budget_def stream_timeout_def non_stream_timeout_def not_less)
qed

definition retrying_backend :: backend_config where
  "retrying_backend = (default_backend ''p1'')
     \<lparr>be_max_retries := 3, be_non_stream_timeout_set := True,
      be_non_stream_timeout_seconds := 10\<rparr>"

theorem accepted_iff_budgets_fit_witness:
  "validate_timeout_budget retrying_backend = Inr retrying_backend \<and>
   validate_timeout_budget (retrying_backend\<lparr>be_non_stream_timeout_seconds := 3\<rparr>) \<noteq>
     Inr (retrying_backend\<lparr>be_non_stream_timeout_seconds := 3\<rparr>)"
proof -
  have r: "fields_in_range retrying_backend" "fields_in_range (retrying_backend\<lparr>be_non_stream_timeout_seconds := 3\<rparr>)"
    by (simp_all add: retrying_backend_def default_backend_def fields_in_range_def)
  note eval = retrying_backend_def default_backend_def stream_timeout_def non_stream_timeout_def provider_retries_def
    provider_max_delay_def provider_base_delay_def retry_delay_for_def numeral_3_eq_3
  show ?thesis
    unfolding accepted_iff_budgets_fit [OF r(1)] accepted_iff_budgets_fit [OF r(2)] by (simp add: eval)
qed

text \<open>A deadline that is inherited is shorter than the waits here, and is accepted.\<close>

lemma inherited_timeout_is_not_checked:
  "let c = (default_backend ''p1'')\<lparr>be_max_retries := 10, be_request_timeout_seconds := 5\<rparr>
   in fields_in_range c \<and> validate_timeout_budget c = Inr c \<and>
      non_stream_timeout (Some c) <
        backoff_budget (provider_retries None (Some c)) (provider_base_delay None (Some c)) (provider_max_delay (Some c)) 0"
  by code_simp

lemma effective_timeouts_agree:
  "non_stream_timeout (Some c) = effective_non_stream_timeout c"
  "stream_timeout (Some c) = effective_stream_total_timeout c"
  by (simp_all add: non_stream_timeout_def effective_non_stream_timeout_def
      stream_timeout_def effective_stream_total_timeout_def)

lemma breaker_for_inv: "breaker_inv (breaker_for c)"
  by (simp add: breaker_for_def Let_def new_breaker_inv)

end
