(* ===== verification/Error_Class.thy ===== *)
theory Error_Class
  imports Kirara_Prelude
begin

text \<open>
  Error classification before a replay (\<open>kirara_ai/llm/resilience.py\<close>:
  \<open>ErrorCategory\<close>, \<open>_status_code\<close>, \<open>_is_timeout_error\<close>, \<open>classify_llm_error\<close>) and the
  record of one attempt (\<open>ProviderAttempt\<close>).

  An exception is what the classifier asks of it: the class tests, the names along its method
  resolution order, the three attributes that may carry a status code, and its text.
\<close>

datatype error_category =
    Network
  | Timeout
  | RateLimit
  | Upstream
  | Authentication
  | InvalidRequest
  | PolicyRejection
  | CategoryCancelled
  | Unknown

definition retryable_error_categories :: "error_category set" where
  "retryable_error_categories = {Network, Timeout, RateLimit, Upstream}"

definition retryable :: "error_category \<Rightarrow> bool" where
  "retryable c \<longleftrightarrow> c \<in> retryable_error_categories"

text \<open>An attribute is missing (\<open>None\<close>), accepted by \<open>int\<close>, or rejected by it.\<close>

datatype attribute_value = Missing | Integral int | NotIntegral

record py_error =
  err_is_cancelled :: bool
  err_status_code :: attribute_value
  err_status :: attribute_value
  err_response_status_code :: attribute_value
  err_is_builtin_timeout :: bool
  err_is_os_error :: bool
  err_mro_names :: "string list"
  err_message :: string

fun first_integral :: "attribute_value list \<Rightarrow> int option" where
  "first_integral [] = None"
| "first_integral (Integral n # vs) = Some n"
| "first_integral (_ # vs) = first_integral vs"

definition status_code_of :: "py_error \<Rightarrow> int option" where
  "status_code_of e =
     first_integral [err_status_code e, err_status e, err_response_status_code e]"

definition is_timeout_error :: "py_error \<Rightarrow> bool" where
  "is_timeout_error e =
     list_ex (\<lambda>name. contains ''timeout'' (str_lower name) \<and> str_lower name \<noteq> ''timeouterror'')
       (err_mro_names e)"

definition mentions :: "string list \<Rightarrow> string \<Rightarrow> bool" where
  "mentions tokens message = list_ex (\<lambda>t. contains t message) tokens"

definition classify_message :: "string \<Rightarrow> error_category" where
  "classify_message message =
     (if mentions [''content policy'', ''safety refusal'', ''safety filter'', ''policy rejection'']
           message then PolicyRejection
      else if mentions [''unauthorized'', ''forbidden'', ''invalid api key'',
           ''authentication failed''] message then Authentication
      else if mentions [''invalid request'', ''validation error'', ''invalid parameter'',
           ''bad request''] message then InvalidRequest
      else if mentions [''timeout'', ''timed out'', ''deadline exceeded''] message then Timeout
      else if mentions [''connection refused'', ''connection reset'',
           ''name or service not known''] message then Network
      else Unknown)"

definition classify_by_class :: "py_error \<Rightarrow> error_category" where
  "classify_by_class e =
     (if err_is_builtin_timeout e then Timeout
      else if is_timeout_error e then Timeout
      else if err_is_os_error e then Network
      else classify_message (str_lower (err_message e)))"

definition classify_llm_error :: "py_error \<Rightarrow> error_category" where
  "classify_llm_error e =
     (if err_is_cancelled e then CategoryCancelled
      else (case status_code_of e of
          None \<Rightarrow> classify_by_class e
        | Some code \<Rightarrow>
            (if code = 401 \<or> code = 403 then Authentication
             else if code = 408 then Timeout
             else if code = 429 then RateLimit
             else if 500 \<le> code \<and> code \<le> 599 then Upstream
             else if 400 \<le> code \<and> code \<le> 499 then InvalidRequest
             else classify_by_class e)))"

text \<open>\<open>error_category\<close> of an attempt: the value of a category, or the word for a provider
  that was skipped because its circuit was open.\<close>

datatype attempt_error = CircuitOpen | Classified error_category

record provider_attempt =
  at_model :: string
  at_provider :: string
  at_attempt :: nat
  at_retry_index :: nat
  at_success :: bool
  at_error_category :: "attempt_error option"
  at_started_at :: seconds
  at_first_byte_at :: "seconds option"
  at_completed_at :: seconds
  at_partial_output :: bool

definition ttft_seconds :: "provider_attempt \<Rightarrow> seconds option" where
  "ttft_seconds a = map_option (\<lambda>t. max 0 (t - at_started_at a)) (at_first_byte_at a)"

section \<open>Properties\<close>

text \<open>An HTTP status decides whether a request may be replayed on another provider,
  whatever class the exception has: among the statuses 400 to 599 exactly 408, 429 and the
  5xx ones are retryable. A 404 raised as an \<open>OSError\<close> subclass is not.\<close>

theorem status_decides_retry:
  assumes "\<not> err_is_cancelled e" "status_code_of e = Some code" "400 \<le> code" "code \<le> 599"
  shows "retryable (classify_llm_error e) \<longleftrightarrow> code = 408 \<or> code = 429 \<or> 500 \<le> code"
  using assms
  by (auto simp: classify_llm_error_def retryable_def retryable_error_categories_def)

definition not_found_os_error :: py_error where
  "not_found_os_error =
     \<lparr>err_is_cancelled = False, err_status_code = Missing, err_status = NotIntegral,
      err_response_status_code = Integral 404, err_is_builtin_timeout = False,
      err_is_os_error = True, err_mro_names = [''HTTPError'', ''OSError''],
      err_message = ''404 page not found''\<rparr>"

theorem status_decides_retry_witness:
  "\<not> retryable (classify_llm_error not_found_os_error)"
  using status_decides_retry [of not_found_os_error 404]
  by (simp add: not_found_os_error_def status_code_of_def)

lemma cancelled_not_retryable:
  "err_is_cancelled e \<Longrightarrow> \<not> retryable (classify_llm_error e)"
  by (simp add: classify_llm_error_def retryable_def retryable_error_categories_def)

text \<open>An error without a usable status falls back to its class: both families of timeouts
  before the general network case, so a \<open>requests\<close> read timeout is not filed as network.\<close>

lemma timeouts_before_network:
  assumes "\<not> err_is_cancelled e" "status_code_of e = None"
    and "err_is_builtin_timeout e \<or> is_timeout_error e"
  shows "classify_llm_error e = Timeout"
  using assms by (auto simp: classify_llm_error_def classify_by_class_def)

end
