(* ===== verification/Circuit_Store.thy ===== *)
theory Circuit_Store
  imports Backend_Config Error_Class
begin

text \<open>
  The durable breaker state: \<open>CircuitBreakerStore\<close> of \<open>kirara_ai/llm/circuit_store.py\<close> and
  the parts of \<open>LLMManager\<close> (\<open>llm_manager.py\<close>) that create, refresh, restore and reset the
  breakers of the configured providers.

  The state file is absent, unreadable (an I/O or decoding error) or a JSON document; the
  atomic replacement of \<open>_atomic_write\<close> is the update of that value. Wall-clock readings
  (\<open>time.time\<close>) and monotonic readings are arguments. Dictionaries are association lists in
  insertion order.
\<close>

section \<open>The store\<close>

datatype store_file = NoFile | Unreadable | Document json

definition store_max_age_seconds :: seconds where
  "store_max_age_seconds = 24 * 60 * 60"

definition store_format_version :: int where
  "store_format_version = 1"

text \<open>
  The readings a breaker takes of its own monotonic clock in \<open>durable_state\<close>, and in
  \<open>restore_durable_state\<close>, per provider.
\<close>

type_synonym mono_readings = "string \<Rightarrow> seconds \<times> seconds"

definition durable_entries ::
  "mono_readings \<Rightarrow> (string \<times> breaker) list \<Rightarrow> (string \<times> json) list" where
  "durable_entries clk breakers =
     List.map_filter (\<lambda>(name, b).
        map_option (\<lambda>d. (name, JObj (durable_json d)))
          (fst (durable_state (fst (clk name)) (snd (clk name)) b))) breakers"

definition store_payload :: "seconds \<Rightarrow> (string \<times> json) list \<Rightarrow> json" where
  "store_payload now entries =
     JObj [(''format_version'', JInt store_format_version),
           (''saved_at'', JFloat now),
           (''breakers'', JObj entries)]"

definition store_save ::
  "seconds \<Rightarrow> mono_readings \<Rightarrow> (string \<times> breaker) list \<Rightarrow> store_file
    \<Rightarrow> store_file \<times> (string \<times> breaker) list" where
  "store_save now clk breakers file =
     (let entries = durable_entries clk breakers;
          breakers' = map (\<lambda>(name, b).
            (name, snd (durable_state (fst (clk name)) (snd (clk name)) b))) breakers
      in if entries = [] \<and> file = NoFile then (file, breakers')
         else (Document (store_payload now entries), breakers'))"

text \<open>The per-provider documents of a mapping, everything else dropped.\<close>

definition object_entries :: "(string \<times> json) list \<Rightarrow> (string \<times> (string \<times> json) list) list" where
  "object_entries kvs =
     List.map_filter (\<lambda>(name, v). map_option (\<lambda>st. (name, st)) (json_object v)) kvs"

definition store_load :: "seconds \<Rightarrow> store_file \<Rightarrow> (string \<times> (string \<times> json) list) list" where
  "store_load now file =
     (case file of
        Document (JObj raw) \<Rightarrow>
          (if Option.bind (map_of raw ''format_version'') json_number
                \<noteq> Some (of_int store_format_version) then []
           else (case Option.bind (map_of raw ''saved_at'') json_number of
               None \<Rightarrow> []
             | Some saved_at \<Rightarrow>
                 (if store_max_age_seconds < now - saved_at then []
                  else (case map_of raw ''breakers'' of
                      Some (JObj kvs) \<Rightarrow> object_entries kvs
                    | _ \<Rightarrow> []))))
      | _ \<Rightarrow> [])"

definition store_forget :: "string \<Rightarrow> store_file \<Rightarrow> bool \<times> store_file" where
  "store_forget name file =
     (case file of
        Document (JObj raw) \<Rightarrow>
          (case map_of raw ''breakers'' of
             Some (JObj kvs) \<Rightarrow>
               (if map_of kvs name = None then (False, file)
                else (True, Document (JObj (AList.update ''breakers''
                        (JObj (AList.delete name kvs)) raw))))
           | _ \<Rightarrow> (False, file))
      | _ \<Rightarrow> (False, file))"

text \<open>\<open>_elapsed\<close>: the records \<open>load\<close> returns hold only mappings, so \<open>__saved_at__\<close> is never
  a number among them and the file is read again.\<close>

definition store_elapsed :: "seconds \<Rightarrow> store_file \<Rightarrow> seconds" where
  "store_elapsed now file =
     (case file of
        Document (JObj raw) \<Rightarrow>
          (case Option.bind (map_of raw ''saved_at'') json_number of
             Some saved_at \<Rightarrow> max 0 (now - saved_at)
           | None \<Rightarrow> 0)
      | _ \<Rightarrow> 0)"

definition restore_one ::
  "seconds \<Rightarrow> mono_readings \<Rightarrow> (string \<times> (string \<times> json) list) list \<Rightarrow> store_file
    \<Rightarrow> string \<times> breaker \<Rightarrow> bool \<times> string \<times> breaker" where
  "restore_one now clk records file nb =
     (case map_of records (fst nb) of
        None \<Rightarrow> (False, nb)
      | Some st \<Rightarrow>
          (let (ok, b') = restore_durable_state (fst (clk (fst nb))) (snd (clk (fst nb))) st
                            (store_elapsed now file) (snd nb)
           in (ok, fst nb, b')))"

definition store_restore ::
  "seconds \<Rightarrow> mono_readings \<Rightarrow> store_file \<Rightarrow> (string \<times> breaker) list
    \<Rightarrow> nat \<times> (string \<times> breaker) list" where
  "store_restore now clk file breakers =
     (let results = map (restore_one now clk (store_load now file) file) breakers
      in (length (filter fst results), map snd results))"

section \<open>The manager's breakers\<close>

record resilience_state =
  rs_backends :: "backend_config list"
  rs_breakers :: "(string \<times> breaker) list"
  rs_attempts :: "(string \<times> provider_attempt list) list"
  rs_file :: store_file

text \<open>\<open>dict.setdefault(key, value)\<close>.\<close>

definition alist_setdefault :: "'k \<Rightarrow> 'v \<Rightarrow> ('k \<times> 'v) list \<Rightarrow> ('k \<times> 'v) list" where
  "alist_setdefault k v m = (case map_of m k of None \<Rightarrow> AList.update k v m | Some _ \<Rightarrow> m)"

definition find_backend :: "backend_config list \<Rightarrow> string \<Rightarrow> backend_config option" where
  "find_backend cs name = find_row be_name name cs"

text \<open>
  One round of the loop of \<open>_initialize_resilience_state\<close>: a provider without a breaker gets
  a new one and is noted in \<open>created\<close>; an existing breaker is reconfigured in place.
\<close>

definition init_backend ::
  "backend_config \<Rightarrow> (string \<times> breaker) list \<times> string list \<Rightarrow> (string \<times> breaker) list \<times> string list" where
  "init_backend c acc =
     (let (breakers, created) = acc
      in case map_of breakers (be_name c) of
           None \<Rightarrow> (AList.update (be_name c) (breaker_for (Some c)) breakers, created @ [be_name c])
         | Some b \<Rightarrow>
             (AList.update (be_name c)
                (reconfigure (Some (be_circuit_failure_threshold c))
                   (Some (be_circuit_error_rate_threshold c)) (Some (be_circuit_min_requests c))
                   (Some (be_circuit_recovery_timeout_seconds c))
                   (Some (be_circuit_recovery_success_threshold c)) None b) breakers, created))"

definition initialize_resilience ::
  "seconds \<Rightarrow> mono_readings \<Rightarrow> resilience_state \<Rightarrow> resilience_state" where
  "initialize_resilience now clk s =
     (let configured = map be_name (rs_backends s);
          kept = filter (\<lambda>nb. fst nb \<in> set configured) (rs_breakers s);
          (breakers, created) = fold init_backend (rs_backends s) (kept, []);
          fresh = filter (\<lambda>nb. fst nb \<in> set created) breakers;
          restored = (if fresh = [] then [] else snd (store_restore now clk (rs_file s) fresh))
      in s\<lparr>rs_breakers := map (\<lambda>nb. case map_of restored (fst nb) of
              Some b \<Rightarrow> (fst nb, b) | None \<Rightarrow> nb) breakers,
           rs_attempts := fold (\<lambda>name. alist_setdefault name []) configured (rs_attempts s)\<rparr>)"

text \<open>\<open>reset_provider_circuit\<close>: the stored record goes first, then the breaker, and the
  state is rebuilt.\<close>

definition reset_provider_circuit ::
  "seconds \<Rightarrow> mono_readings \<Rightarrow> string \<Rightarrow> resilience_state \<Rightarrow> resilience_state" where
  "reset_provider_circuit now clk name s =
     (let s1 = s\<lparr>rs_file := snd (store_forget name (rs_file s))\<rparr>;
          s2 = s1\<lparr>rs_breakers := AList.delete name (rs_breakers s1),
                  rs_attempts := AList.delete name (rs_attempts s1)\<rparr>
      in initialize_resilience now clk s2)"

section \<open>The store round trip\<close>

lemma map_filter_Nil [simp]: "List.map_filter f [] = []"
  by (simp add: List.map_filter_def)

lemma map_filter_Cons [simp]:
  "List.map_filter f (x # xs) =
     (case f x of None \<Rightarrow> List.map_filter f xs | Some y \<Rightarrow> y # List.map_filter f xs)"
  by (cases "f x") (simp_all add: List.map_filter_def)

definition durable_records ::
  "mono_readings \<Rightarrow> (string \<times> breaker) list \<Rightarrow> (string \<times> (string \<times> json) list) list" where
  "durable_records clk breakers =
     List.map_filter (\<lambda>(name, b).
        map_option (\<lambda>d. (name, durable_json d))
          (fst (durable_state (fst (clk name)) (snd (clk name)) b))) breakers"

lemma object_entries_durable:
  "object_entries (durable_entries clk bs) = durable_records clk bs"
  by (induction bs)
     (auto simp: object_entries_def durable_entries_def durable_records_def split: option.split)

lemma durable_records_Nil_iff:
  "durable_entries clk bs = [] \<longleftrightarrow> durable_records clk bs = []"
  by (induction bs) (auto simp: durable_entries_def durable_records_def split: option.split)

lemma store_roundtrip_load:
  "store_load later (fst (store_save now clk bs NoFile)) =
     (if later - now \<le> store_max_age_seconds then durable_records clk bs else [])"
  using durable_records_Nil_iff [of clk bs]
  by (simp add: store_save_def store_load_def store_payload_def Let_def store_format_version_def
      object_entries_durable)

text \<open>Saving and loading the breaker state is a round trip: within the 24 hours the store
  accepts, a load returns exactly the durable state of the breakers that were not closed, by
  provider name and in order; after 24 hours it returns nothing.\<close>

theorem store_roundtrip:
  "store_load later (fst (store_save now clk bs NoFile)) =
     (if later - now \<le> store_max_age_seconds then durable_records clk bs else [])"
  by (rule store_roundtrip_load)

section \<open>Forgetting one provider\<close>

lemma object_entries_Cons [simp]:
  "object_entries ((n, v) # kvs) =
     (case json_object v of Some st \<Rightarrow> [(n, st)] | None \<Rightarrow> []) @ object_entries kvs"
  "object_entries [] = []"
  by (simp_all add: object_entries_def split: option.split)

lemma object_entries_delete:
  "object_entries (AList.delete name kvs) = filter (\<lambda>e. fst e \<noteq> name) (object_entries kvs)"
  by (induction kvs) (auto simp: split: option.split)

lemma object_entries_absent:
  "map_of kvs name = None \<Longrightarrow> filter (\<lambda>e. fst e \<noteq> name) (object_entries kvs) = object_entries kvs"
  by (induction kvs) (auto split: option.split if_splits)

lemma map_of_update_other [simp]: "k \<noteq> k' \<Longrightarrow> map_of (AList.update k v m) k' = map_of m k'"
  by (simp add: update_conv')

lemma map_of_update_same [simp]: "map_of (AList.update k v m) k = Some v"
  by (simp add: update_conv')

lemma map_of_delete_same [simp]: "map_of (AList.delete k m) k = None"
  by (simp add: delete_conv')

lemma map_of_delete_other [simp]: "k \<noteq> k' \<Longrightarrow> map_of (AList.delete k m) k' = map_of m k'"
  by (simp add: delete_conv')

text \<open>Whether \<open>load\<close> accepts a document, apart from its \<open>breakers\<close>.\<close>

definition header_ok :: "seconds \<Rightarrow> (string \<times> json) list \<Rightarrow> bool" where
  "header_ok now raw \<longleftrightarrow>
     Option.bind (map_of raw ''format_version'') json_number = Some (of_int store_format_version) \<and>
     (case Option.bind (map_of raw ''saved_at'') json_number of
        None \<Rightarrow> False | Some t \<Rightarrow> now - t \<le> store_max_age_seconds)"

lemma store_load_object:
  "map_of raw ''breakers'' = Some (JObj kvs) \<Longrightarrow>
     store_load now (Document (JObj raw)) = (if header_ok now raw then object_entries kvs else [])"
  by (cases "Option.bind (map_of raw ''saved_at'') json_number")
     (simp_all add: store_load_def header_ok_def)

lemma header_ok_update [simp]: "header_ok now (AList.update ''breakers'' v raw) = header_ok now raw"
  by (simp add: header_ok_def)

lemma store_load_forget:
  "store_load now (snd (store_forget name file)) =
     filter (\<lambda>e. fst e \<noteq> name) (store_load now file)"
proof (cases "\<exists>raw kvs. file = Document (JObj raw) \<and> map_of raw ''breakers'' = Some (JObj kvs)")
  case True
  then obtain raw kvs where f: "file = Document (JObj raw)" and b: "map_of raw ''breakers'' = Some (JObj kvs)"
    by blast
  show ?thesis
  proof (cases "map_of kvs name")
    case None
    have "store_forget name file = (False, file)" by (simp add: f b store_forget_def None)
    then show ?thesis
      using object_entries_absent [OF None] by (simp add: f store_load_object [OF b])
  next
    case (Some v)
    have "store_load now (snd (store_forget name file)) =
        (if header_ok now raw then object_entries (AList.delete name kvs) else [])"
      by (simp add: f b store_forget_def Some store_load_object)
    then show ?thesis by (simp add: f store_load_object [OF b] object_entries_delete)
  qed
next
  case False
  then have "snd (store_forget name file) = file" "store_load now file = []"
    by (auto simp: store_forget_def store_load_def split: store_file.split json.split option.split)
  then show ?thesis by simp
qed

lemma store_elapsed_forget: "store_elapsed now (snd (store_forget name file)) = store_elapsed now file"
  by (simp add: store_forget_def store_elapsed_def split: store_file.split json.split option.split)

text \<open>Forgetting one provider withdraws its isolation and nobody else's: whatever the file
  holds, a later load returns the same records without that provider, and the age that is
  added to the other open breakers does not change.\<close>

theorem forget_is_exact:
  "store_load now (snd (store_forget name file)) =
     filter (\<lambda>e. fst e \<noteq> name) (store_load now file) \<and>
   store_elapsed now (snd (store_forget name file)) = store_elapsed now file"
  by (simp add: store_load_forget store_elapsed_forget)

section \<open>Restart\<close>

lemma map_of_durable_records:
  assumes "distinct (map fst bs)" "map_of bs name = Some b"
  shows "map_of (durable_records clk bs) name =
     map_option durable_json (fst (durable_state (fst (clk name)) (snd (clk name)) b))"
proof -
  have absent: "name \<notin> fst ` set bs \<Longrightarrow> map_of (durable_records clk bs) name = None" for bs
    by (induction bs) (auto simp: durable_records_def split: option.split)
  from assms show ?thesis
  proof (induction bs)
    case (Cons nb bs)
    obtain n b' where nb: "nb = (n, b')" by (cases nb)
    have "durable_records clk (nb # bs) =
      (case fst (durable_state (fst (clk n)) (snd (clk n)) b') of None \<Rightarrow> []
       | Some d \<Rightarrow> [(n, durable_json d)]) @ durable_records clk bs"
      by (simp add: nb durable_records_def split: option.split)
    with Cons absent [of bs] show ?case by (auto simp: nb split: option.split if_splits)
  qed simp
qed

lemma fst_restore_one [simp]: "fst (snd (restore_one now clk recs file nb)) = fst nb"
  by (simp add: restore_one_def split: option.split prod.split)

lemma map_of_store_restore:
  "map_of (snd (store_restore now clk file bs)) n =
     map_option (\<lambda>b. snd (snd (restore_one now clk (store_load now file) file (n, b)))) (map_of bs n)"
proof (induction bs)
  case (Cons nb bs)
  then show ?case
    by (cases nb) (auto simp: store_restore_def Let_def restore_one_def split: option.split prod.split)
qed (simp add: store_restore_def)

lemma store_elapsed_saved:
  "durable_records clk bs \<noteq> [] \<Longrightarrow>
     store_elapsed later (fst (store_save now clk bs NoFile)) = max 0 (later - now)"
  using durable_records_Nil_iff [of clk bs]
  by (simp add: store_save_def store_elapsed_def store_payload_def Let_def)

lemma stored_fields_durable [simp]:
  "stored_state (durable_json d) = circuit_value (d_state d)"
  "0 \<le> d_consecutive_failures d \<Longrightarrow>
     stored_count (durable_json d) ''consecutive_failures'' = d_consecutive_failures d"
  "0 \<le> d_recovery_successes d \<Longrightarrow>
     stored_count (durable_json d) ''recovery_successes'' = d_recovery_successes d"
  "Option.bind (map_of (durable_json d) ''opened_ago_seconds'') json_number = d_opened_ago d"
  by (simp_all add: stored_state_def stored_count_def durable_json_def split: option.split)

lemma acquire_reopened:
  assumes "circuit b = Open" "opened_at b = Some t" "m \<le> m2"
  shows "fst (acquire m2 (refresh_state m b)) \<longleftrightarrow> recovery_timeout b \<le> m2 - t"
proof (cases "recovery_timeout b \<le> m - t")
  case True
  with assms show ?thesis by (simp add: refresh_due acquire_def)
next
  case False
  then show ?thesis
    using assms acquire_open_blocked [OF assms(1,2), of m2] acquire_open_due [OF assms(1,2), of m2]
    by (cases "recovery_timeout b \<le> m2 - t") simp_all
qed

text \<open>A restart does not end an isolation early or extend it: when an open breaker was saved
  and a new process restores it, the time it had been open plus the wall-clock time since the
  save count towards its recovery timeout, and the new breaker admits a request exactly
  when that sum plus the time since the restore reaches it. Monotonic clocks of the two
  processes need not agree.\<close>

theorem restart_resumes_cool_down:
  fixes b fresh :: breaker and saved later m m' d :: seconds
  assumes "distinct (map fst bs)" "map_of bs name = Some b"
    and "circuit b = Open" "opened_at b = Some t" "t \<le> m" "m - t < recovery_timeout b"
    and "saved \<le> later" "later - saved \<le> store_max_age_seconds"
    and "map_of news name = Some fresh" "0 \<le> d"
  shows "\<exists>r. map_of (snd (store_restore later (\<lambda>_. (m', m'))
           (fst (store_save saved (\<lambda>_. (m, m)) bs NoFile)) news)) name = Some r \<and>
         (fst (acquire (m' + d) r) \<longleftrightarrow> recovery_timeout fresh \<le> (m - t) + (later - saved) + d)"
proof -
  define sfile where "sfile = fst (store_save saved (\<lambda>_. (m, m)) bs NoFile)"
  obtain dd where dd: "fst (durable_state m m b) = Some dd" "d_state dd = Open"
    "d_opened_ago dd = Some (m - t)"
    using assms(3-6) by (simp add: durable_state_def Let_def)
  have "map_of (durable_records (\<lambda>_. (m, m)) bs) name = Some (durable_json dd)"
    using map_of_durable_records [OF assms(1,2), of "\<lambda>_. (m, m)"] dd by simp
  moreover from this have "durable_records (\<lambda>_. (m, m)) bs \<noteq> []" by auto
  ultimately have rec: "map_of (store_load later sfile) name = Some (durable_json dd)"
    and el: "store_elapsed later sfile = later - saved"
    using assms(7,8) store_elapsed_saved [of "\<lambda>_. (m, m)" bs later saved]
    by (simp_all add: sfile_def store_roundtrip_load)
  define opened where "opened = m' - ((m - t) + (later - saved))"
  define b1 where "b1 = fresh\<lparr>consecutive_failures := stored_count (durable_json dd) ''consecutive_failures'',
      recovery_successes := stored_count (durable_json dd) ''recovery_successes'', outcomes := [],
      probe_in_flight := False, circuit := Open, opened_at := Some opened\<rparr>"
  have "snd (restore_durable_state m' m' (durable_json dd) (later - saved) fresh) = refresh_state m' b1"
    using dd assms(5,7) by (simp add: restore_durable_state_def Let_def b1_def opened_def)
  then have "map_of (snd (store_restore later (\<lambda>_. (m', m')) sfile news)) name = Some (refresh_state m' b1)"
    using rec el assms(9) by (simp add: map_of_store_restore restore_one_def split: prod.split)
      (metis snd_conv)
  moreover have "fst (acquire (m' + d) (refresh_state m' b1)) \<longleftrightarrow> recovery_timeout b1 \<le> m' + d - opened"
    using assms(10) by (intro acquire_reopened) (simp_all add: b1_def)
  ultimately show ?thesis
    by (intro exI [of _ "refresh_state m' b1"]) (simp add: sfile_def b1_def opened_def algebra_simps)
qed

theorem restart_resumes_cool_down_witness:
  "\<exists>r. map_of (snd (store_restore 1015 (\<lambda>_. (3, 3))
       (fst (store_save 1000 (\<lambda>_. (5, 5)) [(''p'', record_failure 0 (new_breaker 1 (1/2) 10 30 2 20))] NoFile))
       [(''p'', new_breaker 1 (1/2) 10 30 2 20)])) ''p'' = Some r \<and>
     fst (acquire (3 + 10) r) \<and> \<not> fst (acquire (3 + 9) r)"
proof -
  define b where "b = record_failure 0 (new_breaker 1 (1/2) 10 30 2 20)"
  have b: "circuit b = Open" "opened_at b = Some 0" "recovery_timeout b = 30"
    by (simp_all add: b_def record_failure_def should_open_def new_breaker_def Let_def
        release_in_flight_def)
  have "recovery_timeout (new_breaker 1 (1/2) 10 30 2 20) = 30" by (simp add: new_breaker_def)
  then show ?thesis
    using restart_resumes_cool_down [of "[(''p'', b)]" "''p''" b 0 5 1000 1015
        "[(''p'', new_breaker 1 (1/2) 10 30 2 20)]" "new_breaker 1 (1/2) 10 30 2 20" 10 3]
      restart_resumes_cool_down [of "[(''p'', b)]" "''p''" b 0 5 1000 1015
        "[(''p'', new_breaker 1 (1/2) 10 30 2 20)]" "new_breaker 1 (1/2) 10 30 2 20" 9 3]
    by (simp add: b store_max_age_seconds_def b_def [symmetric]) auto
qed

section \<open>Refreshing and resetting\<close>

definition refreshed :: "backend_config \<Rightarrow> breaker \<Rightarrow> breaker" where
  "refreshed c = reconfigure (Some (be_circuit_failure_threshold c))
     (Some (be_circuit_error_rate_threshold c)) (Some (be_circuit_min_requests c))
     (Some (be_circuit_recovery_timeout_seconds c))
     (Some (be_circuit_recovery_success_threshold c)) None"

lemma init_backend_simp:
  "init_backend c (bs, cr) =
     (case map_of bs (be_name c) of
        None \<Rightarrow> (AList.update (be_name c) (breaker_for (Some c)) bs, cr @ [be_name c])
      | Some b \<Rightarrow> (AList.update (be_name c) (refreshed c b) bs, cr))"
  by (simp add: init_backend_def refreshed_def split: option.split)

lemma init_fold_other:
  "n \<notin> be_name ` set cs \<Longrightarrow> map_of (fst (fold init_backend cs (bs, cr))) n = map_of bs n"
  by (induction cs arbitrary: bs cr) (auto simp: init_backend_simp split: option.split)

lemma init_fold_breakers:
  "distinct (map be_name cs) \<Longrightarrow> c \<in> set cs \<Longrightarrow>
   map_of (fst (fold init_backend cs (bs, cr))) (be_name c) =
     Some (case map_of bs (be_name c) of None \<Rightarrow> breaker_for (Some c) | Some b \<Rightarrow> refreshed c b)"
proof (induction cs arbitrary: bs cr)
  case (Cons c0 cs)
  show ?case
  proof (cases "c = c0")
    case True
    with Cons.prems show ?thesis
      by (auto simp: init_backend_simp init_fold_other split: option.split)
  next
    case False
    with Cons.prems have "be_name c0 \<noteq> be_name c" by auto
    with Cons.prems False Cons.IH show ?thesis
      by (auto simp: init_backend_simp split: option.split)
  qed
qed simp

lemma init_fold_created:
  "distinct (map be_name cs) \<Longrightarrow>
   set (snd (fold init_backend cs (bs, cr))) =
     set cr \<union> {n \<in> be_name ` set cs. map_of bs n = None}"
proof (induction cs arbitrary: bs cr)
  case (Cons c cs)
  have fresh: "be_name x \<noteq> be_name c" if "x \<in> set cs" for x
    using Cons.prems that by (metis distinct.simps(2) image_eqI list.simps(9) set_map)
  from Cons show ?case
    by (auto simp: init_backend_simp fresh fresh [symmetric] split: option.split)
qed simp

lemma map_of_filter_fst:
  "map_of (filter (\<lambda>nb. P (fst nb)) m) n = (if P n then map_of m n else None)"
  by (induction m) auto

lemma map_of_map_restored:
  "map_of (map (\<lambda>nb. case r (fst nb) of Some b \<Rightarrow> (fst nb, b) | None \<Rightarrow> nb) m) n =
     (case map_of m n of None \<Rightarrow> None | Some b \<Rightarrow> (case r n of Some b' \<Rightarrow> Some b' | None \<Rightarrow> Some b))"
  by (induction m) (auto split: option.split)

text \<open>What the rebuild leaves for a configured provider: its old breaker with the configured
  thresholds, or a new one into which a stored record, if there is one, is restored.\<close>

definition restored_breaker ::
  "seconds \<Rightarrow> mono_readings \<Rightarrow> store_file \<Rightarrow> string \<Rightarrow> breaker \<Rightarrow> breaker" where
  "restored_breaker now clk file n b = snd (snd (restore_one now clk (store_load now file) file (n, b)))"

lemma initialize_breakers:
  assumes "distinct (map be_name (rs_backends s))" "c \<in> set (rs_backends s)"
  shows "map_of (rs_breakers (initialize_resilience now clk s)) (be_name c) =
     Some (case map_of (rs_breakers s) (be_name c) of
             Some b \<Rightarrow> refreshed c b
           | None \<Rightarrow> restored_breaker now clk (rs_file s) (be_name c) (breaker_for (Some c)))"
proof -
  define kept where "kept = filter (\<lambda>nb. fst nb \<in> set (map be_name (rs_backends s))) (rs_breakers s)"
  obtain bs cr where f: "fold init_backend (rs_backends s) (kept, []) = (bs, cr)"
    by (cases "fold init_backend (rs_backends s) (kept, [])")
  have kept: "map_of kept (be_name c) = map_of (rs_breakers s) (be_name c)"
    unfolding kept_def
    by (subst map_of_filter_fst [of "\<lambda>n. n \<in> set (map be_name (rs_backends s))"])
      (use assms(2) in simp)
  have bs: "map_of bs (be_name c) = Some (case map_of (rs_breakers s) (be_name c) of
      None \<Rightarrow> breaker_for (Some c) | Some b \<Rightarrow> refreshed c b)"
    using init_fold_breakers [OF assms, of kept "[]"] by (simp add: f kept)
  have cr: "be_name c \<in> set cr \<longleftrightarrow> map_of (rs_breakers s) (be_name c) = None"
    using init_fold_created [OF assms(1), of kept "[]"] assms(2) kept by (simp add: f)
  have fresh: "map_of (filter (\<lambda>nb. fst nb \<in> set cr) bs) (be_name c) =
      (if map_of (rs_breakers s) (be_name c) = None then Some (breaker_for (Some c)) else None)"
    by (subst map_of_filter_fst [of "\<lambda>n. n \<in> set cr"]) (simp add: bs cr)
  then have ne: "map_of (rs_breakers s) (be_name c) = None \<Longrightarrow> filter (\<lambda>nb. fst nb \<in> set cr) bs \<noteq> []"
    by (metis map_of.simps(1) option.distinct(1))
  show ?thesis
    unfolding initialize_resilience_def Let_def kept_def [symmetric] f prod.case
    using bs fresh ne
    by (simp add: map_of_map_restored map_of_store_restore restored_breaker_def split: option.split)
qed

text \<open>A manual reset works at once and on one provider only: the provider has a new closed
  breaker with its configured thresholds, although its isolation was on disk, and every other
  provider keeps its breaker, with the configured thresholds applied to it.\<close>

theorem reset_is_immediate:
  fixes s :: resilience_state and now :: seconds and clk :: mono_readings
  assumes "distinct (map be_name (rs_backends s))" "c \<in> set (rs_backends s)"
  defines "s' \<equiv> reset_provider_circuit now clk (be_name c) s"
  shows "map_of (rs_breakers s') (be_name c) = Some (breaker_for (Some c)) \<and>
    (\<forall>c' b. c' \<in> set (rs_backends s) \<longrightarrow> be_name c' \<noteq> be_name c \<longrightarrow>
       map_of (rs_breakers s) (be_name c') = Some b \<longrightarrow>
       map_of (rs_breakers s') (be_name c') = Some (refreshed c' b))"
proof -
  define s2 where "s2 = s\<lparr>rs_file := snd (store_forget (be_name c) (rs_file s)),
    rs_breakers := AList.delete (be_name c) (rs_breakers s),
    rs_attempts := AList.delete (be_name c) (rs_attempts s)\<rparr>"
  have s': "s' = initialize_resilience now clk s2"
    by (simp add: s'_def s2_def reset_provider_circuit_def Let_def)
  have gone: "map_of (filter (\<lambda>e. fst e \<noteq> be_name c) m) (be_name c) = None" for m :: "(string \<times> 'x) list"
    by (subst map_of_filter_fst [of "\<lambda>n. n \<noteq> be_name c"]) simp
  have "restored_breaker now clk (rs_file s2) (be_name c) (breaker_for (Some c)) = breaker_for (Some c)"
    by (simp add: restored_breaker_def restore_one_def s2_def store_load_forget gone)
  then have "map_of (rs_breakers s') (be_name c) = Some (breaker_for (Some c))"
    using initialize_breakers [of s2 c now clk] assms(1,2) by (simp add: s' s2_def)
  moreover have "map_of (rs_breakers s') (be_name c') = Some (refreshed c' b)"
    if "c' \<in> set (rs_backends s)" "be_name c' \<noteq> be_name c"
      "map_of (rs_breakers s) (be_name c') = Some b" for c' b
    using initialize_breakers [of s2 c' now clk] assms(1) that by (simp add: s' s2_def)
  ultimately show ?thesis by blast
qed

definition isolated_state :: resilience_state where
  "isolated_state =
     \<lparr>rs_backends = [default_backend ''p'', default_backend ''q''],
      rs_breakers = [(''p'', half_open_example), (''q'', half_open_example)], rs_attempts = [],
      rs_file = Document (store_payload 1000
        [(''p'', JObj [(''state'', JStr ''open'')]), (''q'', JObj [(''state'', JStr ''open'')])])\<rparr>"

theorem reset_is_immediate_witness:
  "map_of (rs_breakers (reset_provider_circuit 1001 (\<lambda>_. (0, 0)) ''p'' isolated_state)) ''p'' =
     Some (breaker_for (Some (default_backend ''p'')))"
  using reset_is_immediate [of isolated_state "default_backend ''p''" 1001 "\<lambda>_. (0, 0)"]
  by (simp add: isolated_state_def default_backend_def)

end
