(* ===== verification/Failover.thy ===== *)
theory Failover
  imports Circuit_Store "HOL-Library.Sublist"
begin

text \<open>
  The provider queue of \<open>LLMManager\<close> (\<open>kirara_ai/llm/llm_manager.py\<close>): the candidates of a
  model, the synchronous executor \<open>_execute_chat\<close> and the streaming executor
  \<open>_execute_stream_iterator\<close>.

  What the outside world answers during one execution is an argument: per provider the
  readings around \<open>acquire\<close>, and per retry the clock readings, the cancellation flag and
  the events of the worker thread, in the order the code asks for them. The theorems hold
  for all of them. \<open>'r\<close> is the type of a reply (a chunk, for a stream).
\<close>

section \<open>Candidates\<close>

text \<open>An adapter has a \<open>backend_name\<close> attribute or not.\<close>

record adapter =
  ad_backend_name :: "string option"
  ad_stream_tool_calls :: bool

definition candidate_ok :: "backend_config list \<Rightarrow> string list \<Rightarrow> adapter \<Rightarrow> bool" where
  "candidate_ok backends allowed a =
     ((allowed = [] \<or> (\<exists>n \<in> set allowed. ad_backend_name a = Some n)) \<and>
      (case ad_backend_name a of
         None \<Rightarrow> False
       | Some n \<Rightarrow>
           (n \<noteq> [] \<and>
            (case find_backend backends n of
               None \<Rightarrow> False
             | Some c \<Rightarrow> be_enable c \<and> be_participate_in_failover c))))"

definition candidate_priority :: "backend_config list \<Rightarrow> adapter \<Rightarrow> int" where
  "candidate_priority backends a =
     (case Option.bind (ad_backend_name a) (find_backend backends) of
        Some c \<Rightarrow> be_priority c | None \<Rightarrow> 0)"

text \<open>\<open>list.sort\<close> on \<open>(priority, index)\<close> pairs with distinct indices in order: a stable sort
  by priority.\<close>

definition get_provider_candidates ::
  "backend_config list \<Rightarrow> (string \<times> adapter list) list \<Rightarrow> string \<Rightarrow> string list \<Rightarrow> adapter list" where
  "get_provider_candidates backends active model_id allowlist =
     (let allowed = filter (\<lambda>s. s \<noteq> []) (map str_strip allowlist);
          adapters = (case map_of active model_id of Some as \<Rightarrow> as | None \<Rightarrow> [])
      in sort_key (candidate_priority backends) (filter (candidate_ok backends allowed) adapters))"

definition get_llm ::
  "backend_config list \<Rightarrow> (string \<times> adapter list) list \<Rightarrow> string \<Rightarrow> adapter option" where
  "get_llm backends active model_id =
     (case map_of active model_id of
        None \<Rightarrow> None
      | Some [] \<Rightarrow> None
      | Some (a # as) \<Rightarrow>
          (case get_provider_candidates backends active model_id [] of
             [] \<Rightarrow> Some a
           | p # ps \<Rightarrow> Some p))"

definition stream_supports_tool_calls ::
  "backend_config list \<Rightarrow> (string \<times> adapter list) list \<Rightarrow> string \<Rightarrow> string list \<Rightarrow> bool" where
  "stream_supports_tool_calls backends active model_id allowlist =
     (let cs = get_provider_candidates backends active model_id allowlist
      in cs \<noteq> [] \<and> list_all ad_stream_tool_calls cs)"

section \<open>One bounded adapter call\<close>

text \<open>
  What the worker thread puts into its queue: a reply, an \<open>Exception\<close>, the cancellation
  error, or any other \<open>BaseException\<close>, which no handler of the executors catches.
\<close>

datatype 'r worker_result = Reply 'r | Failure py_error | CancelError | BaseError

datatype 'r call_outcome = Returned 'r | Raised py_error | CallCancelled | CallAborted

fun worker_outcome :: "'r worker_result \<Rightarrow> 'r call_outcome" where
  "worker_outcome (Reply r) = Returned r"
| "worker_outcome (Failure e) = Raised e"
| "worker_outcome CancelError = CallCancelled"
| "worker_outcome BaseError = CallAborted"

definition deadline_error :: py_error where
  "deadline_error =
     \<lparr>err_is_cancelled = False, err_status_code = Missing, err_status = Missing,
      err_response_status_code = Missing, err_is_builtin_timeout = True, err_is_os_error = True,
      err_mro_names = [''TimeoutError'', ''OSError'', ''Exception'', ''BaseException'', ''object''],
      err_message = ''LLM request deadline exceeded''\<rparr>"

text \<open>
  One round of the wait loop: the cancellation flag, the clock, what the queue gave within
  the 50 ms wait, and the flag again after it.
\<close>

record 'r poll =
  pl_cancelled :: bool
  pl_now :: seconds
  pl_got :: "'r worker_result option"
  pl_cancelled_after :: bool

text \<open>
  The loop, with whether the adapter was told to cancel. The list holds the rounds up to the
  deadline: a round costs at most 50 ms, so when the list ends the deadline has passed.
\<close>

fun poll_worker :: "seconds \<Rightarrow> 'r poll list \<Rightarrow> 'r call_outcome \<times> bool" where
  "poll_worker deadline [] = (Raised deadline_error, True)"
| "poll_worker deadline (p # ps) =
     (if pl_cancelled p then (CallCancelled, True)
      else if deadline - pl_now p \<le> 0 then (Raised deadline_error, True)
      else (case pl_got p of
              None \<Rightarrow> poll_worker deadline ps
            | Some v \<Rightarrow>
                (if pl_cancelled_after p then (CallCancelled, True)
                 else (worker_outcome v, False))))"

record 'r call_env =
  ce_cancelled :: bool
  ce_start :: seconds
  ce_polls :: "'r poll list"

definition call_adapter_with_deadline :: "seconds \<Rightarrow> 'r call_env \<Rightarrow> 'r call_outcome \<times> bool" where
  "call_adapter_with_deadline timeout e =
     (if timeout \<le> 0 then (Raised deadline_error, False)
      else if ce_cancelled e then (CallCancelled, True)
      else poll_worker (ce_start e + timeout) (ce_polls e))"

section \<open>The state of an execution\<close>

record 'r exec_state =
  ex_breakers :: "(string \<times> breaker) list"
  ex_recent :: "(string \<times> provider_attempt list) list"
  ex_file :: store_file
  ex_attempts :: "provider_attempt list"
  ex_last_error :: "py_error option"
  ex_output :: "(string \<times> 'r) list"

datatype 'r exec_result =
    Delivered 'r
  | StreamDone
  | RequestCancelled
  | StreamInterrupted py_error
  | FailoverFailed "py_error option"
  | Aborted

datatype 'r verdict = Retry | NextProvider | StopFailover | Finish "'r exec_result"

record 'r exec_call =
  xc_model :: string
  xc_backends :: "backend_config list"
  xc_max_retries :: "int option"
  xc_retry_delay :: "seconds option"
  xc_deadline :: seconds
  xc_policy :: "backend_config option \<Rightarrow> 'r \<Rightarrow> 'r"

definition with_breaker :: "string \<Rightarrow> (breaker \<Rightarrow> breaker) \<Rightarrow> 'r exec_state \<Rightarrow> 'r exec_state" where
  "with_breaker name f s =
     (case map_of (ex_breakers s) name of
        None \<Rightarrow> s
      | Some b \<Rightarrow> s\<lparr>ex_breakers := AList.update name (f b) (ex_breakers s)\<rparr>)"

definition record_attempt ::
  "provider_attempt \<Rightarrow> (string \<times> provider_attempt list) list \<Rightarrow> (string \<times> provider_attempt list) list" where
  "record_attempt a recent =
     (let old = (case map_of recent (at_provider a) of Some xs \<Rightarrow> xs | None \<Rightarrow> [])
      in AList.update (at_provider a) (take_last 20 (old @ [a])) recent)"

definition add_attempt :: "provider_attempt \<Rightarrow> 'r exec_state \<Rightarrow> 'r exec_state" where
  "add_attempt a s =
     s\<lparr>ex_attempts := ex_attempts s @ [a], ex_recent := record_attempt a (ex_recent s)\<rparr>"

definition new_attempt ::
  "string \<Rightarrow> string \<Rightarrow> nat \<Rightarrow> attempt_error option \<Rightarrow> seconds \<Rightarrow> seconds option \<Rightarrow> seconds \<Rightarrow> 'r exec_state
    \<Rightarrow> provider_attempt" where
  "new_attempt model provider i err started first_byte completed s =
     \<lparr>at_model = model, at_provider = provider, at_attempt = length (ex_attempts s) + 1,
      at_retry_index = i, at_success = (err = None), at_error_category = err,
      at_started_at = started, at_first_byte_at = first_byte, at_completed_at = completed,
      at_partial_output = (err \<noteq> None \<and> first_byte \<noteq> None)\<rparr>"

definition persist_circuits :: "seconds \<Rightarrow> mono_readings \<Rightarrow> 'r exec_state \<Rightarrow> 'r exec_state" where
  "persist_circuits now clk s =
     (let (f, bs) = store_save now clk (ex_breakers s) (ex_file s)
      in s\<lparr>ex_file := f, ex_breakers := bs\<rparr>)"

section \<open>One attempt\<close>

text \<open>What the code reads while one attempt fails: the clock after the error, the clocks of
  the save, the clock before the wait, and whether the wait was cancelled.\<close>

record fail_env =
  fe_completed :: seconds
  fe_saved :: seconds
  fe_clocks :: mono_readings
  fe_after :: seconds
  fe_wait_cancelled :: bool

text \<open>The \<open>except Exception\<close> branch both executors share; a chat has no first byte.\<close>

definition attempt_failed ::
  "'r exec_call \<Rightarrow> backend_config option \<Rightarrow> string \<Rightarrow> nat \<Rightarrow> seconds \<Rightarrow> seconds option \<Rightarrow> py_error \<Rightarrow> fail_env
    \<Rightarrow> 'r exec_state \<Rightarrow> 'r exec_state \<times> 'r verdict" where
  "attempt_failed call backend name i started first_byte err e s =
     (let s1 = persist_circuits (fe_saved e) (fe_clocks e)
                 (with_breaker name (record_failure (fe_completed e)) (s\<lparr>ex_last_error := Some err\<rparr>));
          category = classify_llm_error err;
          s2 = add_attempt (new_attempt (xc_model call) name i (Some (Classified category)) started
                 first_byte (fe_completed e) s1) s1
      in (s2,
          if first_byte \<noteq> None then Finish (StreamInterrupted err)
          else if \<not> retryable category then StopFailover
          else if provider_retries (xc_max_retries call) backend \<le> i then NextProvider
          else if xc_deadline call - fe_after e \<le> 0 then StopFailover
          else if fe_wait_cancelled e then Finish RequestCancelled
          else Retry))"

text \<open>The wait before a retry (\<open>min(delay, remaining)\<close>).\<close>

definition backoff_wait :: "'r exec_call \<Rightarrow> backend_config option \<Rightarrow> nat \<Rightarrow> fail_env \<Rightarrow> seconds" where
  "backoff_wait call backend i e =
     min (retry_delay_for (provider_max_delay backend)
            (provider_base_delay (xc_retry_delay call) backend) i)
         (xc_deadline call - fe_after e)"

definition attempt_cancelled ::
  "'r exec_call \<Rightarrow> string \<Rightarrow> nat \<Rightarrow> seconds \<Rightarrow> seconds option \<Rightarrow> seconds
    \<Rightarrow> 'r exec_state \<Rightarrow> 'r exec_state \<times> 'r verdict" where
  "attempt_cancelled call name i started first_byte completed s =
     (let s1 = with_breaker name record_cancelled s
      in (add_attempt (new_attempt (xc_model call) name i (Some (Classified CategoryCancelled)) started
            first_byte completed s1) s1, Finish RequestCancelled))"

record 'r chat_env =
  ch_started :: seconds
  ch_cancelled :: bool
  ch_call :: "'r call_env"
  ch_completed :: seconds
  ch_fail :: fail_env

definition chat_attempt ::
  "'r exec_call \<Rightarrow> backend_config option \<Rightarrow> string \<Rightarrow> nat \<Rightarrow> 'r chat_env
    \<Rightarrow> 'r exec_state \<Rightarrow> 'r exec_state \<times> 'r verdict" where
  "chat_attempt call backend name i e s =
     (if xc_deadline call \<le> ch_started e then (s, StopFailover)
      else if ch_cancelled e then (with_breaker name record_cancelled s, Finish RequestCancelled)
      else (case fst (call_adapter_with_deadline (max 0 (xc_deadline call - ch_started e)) (ch_call e)) of
          Returned r \<Rightarrow>
            (if xc_deadline call < ch_completed e
             then attempt_failed call backend name i (ch_started e) None deadline_error (ch_fail e) s
             else (let s1 = with_breaker name (record_success (ch_completed e)) s
                   in (add_attempt (new_attempt (xc_model call) name i None (ch_started e) None
                         (ch_completed e) s1) s1,
                       Finish (Delivered (xc_policy call backend r)))))
        | CallCancelled \<Rightarrow>
            attempt_cancelled call name i (ch_started e) None (fe_completed (ch_fail e)) s
        | Raised err \<Rightarrow> attempt_failed call backend name i (ch_started e) None err (ch_fail e) s
        | CallAborted \<Rightarrow> (s, Finish Aborted)))"

section \<open>The queue\<close>

text \<open>
  The loops over the retries of a provider and over the providers; \<open>att\<close> is the attempt of
  the executor.
\<close>

type_synonym ('e, 'r) attempt_fun =
  "'r exec_call \<Rightarrow> backend_config option \<Rightarrow> string \<Rightarrow> nat \<Rightarrow> 'e \<Rightarrow> 'r exec_state \<Rightarrow> 'r exec_state \<times> 'r verdict"

fun retry_loop ::
  "('e, 'r) attempt_fun \<Rightarrow> 'r exec_call \<Rightarrow> backend_config option \<Rightarrow> string \<Rightarrow> (nat \<Rightarrow> 'e) \<Rightarrow> nat \<Rightarrow> nat
    \<Rightarrow> 'r exec_state \<Rightarrow> 'r exec_state \<times> 'r verdict" where
  "retry_loop att call backend name env i 0 s = (s, NextProvider)"
| "retry_loop att call backend name env i (Suc n) s =
     (case att call backend name i (env i) s of
        (s', Retry) \<Rightarrow> retry_loop att call backend name env (Suc i) n s'
      | (s', v) \<Rightarrow> (s', v))"

record 'e provider_env =
  pe_cancelled :: bool
  pe_acquire_at :: seconds
  pe_skip_started :: seconds
  pe_skip_completed :: seconds
  pe_attempt :: "nat \<Rightarrow> 'e"

fun nat_digits :: "nat \<Rightarrow> string" where
  "nat_digits n =
     (if n < 10 then [char_of (48 + n)] else nat_digits (n div 10) @ [char_of (48 + n mod 10)])"

declare nat_digits.simps [simp del]

definition provider_name :: "nat \<Rightarrow> adapter \<Rightarrow> string" where
  "provider_name idx a =
     (case ad_backend_name a of Some n \<Rightarrow> n | None \<Rightarrow> ''provider-'' @ nat_digits (idx + 1))"

definition ensure_breaker :: "string \<Rightarrow> backend_config option \<Rightarrow> 'r exec_state \<Rightarrow> 'r exec_state" where
  "ensure_breaker name backend s =
     s\<lparr>ex_breakers := alist_setdefault name (breaker_for backend) (ex_breakers s)\<rparr>"

definition acquire_provider :: "string \<Rightarrow> seconds \<Rightarrow> 'r exec_state \<Rightarrow> bool \<times> 'r exec_state" where
  "acquire_provider name now s =
     (case map_of (ex_breakers s) name of
        None \<Rightarrow> (False, s)
      | Some b \<Rightarrow> (fst (acquire now b), with_breaker name (\<lambda>b. snd (acquire now b)) s))"

fun provider_loop ::
  "('e, 'r) attempt_fun \<Rightarrow> 'r exec_call \<Rightarrow> (nat \<Rightarrow> 'e provider_env) \<Rightarrow> nat \<Rightarrow> adapter list
    \<Rightarrow> 'r exec_state \<Rightarrow> 'r exec_state \<times> 'r exec_result" where
  "provider_loop att call env idx [] s = (s, FailoverFailed (ex_last_error s))"
| "provider_loop att call env idx (a # as) s =
     (if pe_cancelled (env idx) then (s, RequestCancelled)
      else
        (let name = provider_name idx a;
             backend = find_backend (xc_backends call) name;
             (admitted, s1) = acquire_provider name (pe_acquire_at (env idx))
                                (ensure_breaker name backend s)
         in if \<not> admitted
            then provider_loop att call env (Suc idx) as
                   (add_attempt (new_attempt (xc_model call) name 0 (Some CircuitOpen)
                      (pe_skip_started (env idx)) None (pe_skip_completed (env idx)) s1) s1)
            else (case retry_loop att call backend name (pe_attempt (env idx)) 0
                         (provider_retries (xc_max_retries call) backend + 1) s1 of
                    (s2, Finish r) \<Rightarrow> (s2, r)
                  | (s2, StopFailover) \<Rightarrow> (s2, FailoverFailed (ex_last_error s2))
                  | (s2, _) \<Rightarrow> provider_loop att call env (Suc idx) as s2)))"

text \<open>
  \<open>_execute_chat\<close> for a candidate list: the entry checks and the deadline, then the queue.
\<close>

record chat_call =
  cc_model :: string
  cc_max_retries :: "int option"
  cc_retry_delay :: "seconds option"
  cc_deadline_seconds :: "seconds option"

definition exec_deadline ::
  "(backend_config option \<Rightarrow> seconds) \<Rightarrow> backend_config list \<Rightarrow> adapter list \<Rightarrow> seconds option \<Rightarrow> seconds
    \<Rightarrow> seconds" where
  "exec_deadline timeout backends candidates deadline_seconds started =
     (let configured = (case deadline_seconds of
            Some d \<Rightarrow> d
          | None \<Rightarrow> timeout (find_backend backends
              (case candidates of [] \<Rightarrow> [] | a # _ \<Rightarrow>
                 (case ad_backend_name a of Some n \<Rightarrow> n | None \<Rightarrow> []))))
      in started + max 0 configured)"

definition execute_chat ::
  "(backend_config option \<Rightarrow> 'r \<Rightarrow> 'r) \<Rightarrow> backend_config list \<Rightarrow> chat_call \<Rightarrow> adapter list \<Rightarrow> bool \<Rightarrow> seconds
    \<Rightarrow> (nat \<Rightarrow> 'r chat_env provider_env) \<Rightarrow> 'r exec_state \<Rightarrow> 'r exec_state \<times> 'r exec_result" where
  "execute_chat policy backends c candidates cancelled started env s0 =
     (let s = s0\<lparr>ex_attempts := [], ex_last_error := None, ex_output := []\<rparr>
      in if cancelled then (s, RequestCancelled)
         else if candidates = [] then (s, FailoverFailed None)
         else provider_loop chat_attempt
                \<lparr>xc_model = cc_model c, xc_backends = backends, xc_max_retries = cc_max_retries c,
                 xc_retry_delay = cc_retry_delay c,
                 xc_deadline = exec_deadline non_stream_timeout backends candidates
                                 (cc_deadline_seconds c) started,
                 xc_policy = policy\<rparr> env 0 candidates s)"

section \<open>What one attempt may do\<close>

text \<open>An attempt after which the queue may go on: skipped, or failed for a retryable reason
  before any output.\<close>

definition replayable :: "provider_attempt \<Rightarrow> bool" where
  "replayable a \<longleftrightarrow> \<not> at_success a \<and> at_first_byte_at a = None \<and>
     (at_error_category a = Some CircuitOpen \<or>
      (\<exists>c. at_error_category a = Some (Classified c) \<and> retryable c))"

fun delivers :: "'r exec_result \<Rightarrow> bool" where
  "delivers (Delivered r) = True"
| "delivers StreamDone = True"
| "delivers _ = False"

fun goes_on :: "'r verdict \<Rightarrow> bool" where
  "goes_on Retry = True"
| "goes_on NextProvider = True"
| "goes_on _ = False"

fun verdict_delivers :: "'r verdict \<Rightarrow> bool" where
  "verdict_delivers (Finish r) = delivers r"
| "verdict_delivers _ = False"

text \<open>The attempts \<open>new\<close> that one call of the attempt function appends after \<open>n\<close> earlier ones.\<close>

definition attempt_ok ::
  "string \<Rightarrow> nat \<Rightarrow> nat \<Rightarrow> bool \<Rightarrow> bool \<Rightarrow> (provider_attempt \<Rightarrow> bool) \<Rightarrow> provider_attempt list \<Rightarrow> bool" where
  "attempt_ok name i n on done good new \<longleftrightarrow>
     length new \<le> 1 \<and>
     (\<forall>a\<in>set new. at_provider a = name \<and> at_retry_index a = i \<and> at_attempt a = n + 1 \<and>
        good a \<and> (at_success a \<longleftrightarrow> done) \<and> (on \<longrightarrow> replayable a)) \<and>
     (done \<longrightarrow> new \<noteq> [])"

definition breakers_ok :: "'r exec_state \<Rightarrow> bool" where
  "breakers_ok s \<longleftrightarrow> (\<forall>(n, b) \<in> set (ex_breakers s). breaker_inv b)"

text \<open>The attempts a part of the queue appends: numbered in sequence, all but the last ones
  the queue could go on from, none successful but the last.\<close>

definition log_shape :: "nat \<Rightarrow> bool \<Rightarrow> bool \<Rightarrow> provider_attempt list \<Rightarrow> bool" where
  "log_shape n on done new \<longleftrightarrow>
     map at_attempt new = [n + 1..<n + 1 + length new] \<and>
     list_all replayable (butlast new) \<and>
     (on \<longrightarrow> list_all replayable new) \<and>
     ((\<exists>a\<in>set new. at_success a) \<longleftrightarrow> done) \<and>
     (done \<longrightarrow> new \<noteq> [] \<and> at_success (last new))"

lemma log_shape_Nil: "log_shape n on False []"
  by (simp add: log_shape_def)

lemma log_shape_append:
  assumes "log_shape n True False xs" "log_shape (n + length xs) on done ys"
  shows "log_shape n on done (xs @ ys)"
proof -
  have xs: "map at_attempt xs = [n + 1..<n + 1 + length xs]" "list_all replayable xs"
    "\<forall>a\<in>set xs. \<not> at_success a"
    using assms(1) by (simp_all add: log_shape_def)
  have ys: "map at_attempt ys = [n + length xs + 1..<n + length xs + 1 + length ys]"
    "list_all replayable (butlast ys)" "on \<longrightarrow> list_all replayable ys"
    "(\<exists>a\<in>set ys. at_success a) \<longleftrightarrow> done" "done \<longrightarrow> ys \<noteq> [] \<and> at_success (last ys)"
    using assms(2) by (simp_all add: log_shape_def)
  have "map at_attempt (xs @ ys) = [n + 1..<n + 1 + length (xs @ ys)]"
    using xs(1) ys(1) upt_add_eq_append [of "n + 1" "n + 1 + length xs" "length ys"]
    by (simp add: add.commute add.left_commute add.assoc)
  moreover have "list_all replayable (butlast (xs @ ys))"
    using xs(2) ys(2) by (auto simp: butlast_append list_all_iff dest: in_set_butlastD)
  ultimately show ?thesis
    using xs ys by (auto simp: log_shape_def)
qed

lemma log_shape_one:
  assumes "attempt_ok name i n on done good new"
  shows "log_shape n on done new"
proof (cases new)
  case Nil
  with assms show ?thesis by (simp add: attempt_ok_def log_shape_def)
next
  case (Cons a as)
  with assms have "as = []" by (simp add: attempt_ok_def)
  with Cons assms show ?thesis by (auto simp: attempt_ok_def log_shape_def)
qed

lemma with_breaker_fields [simp]:
  "ex_attempts (with_breaker name f s) = ex_attempts s"
  "ex_recent (with_breaker name f s) = ex_recent s"
  "ex_file (with_breaker name f s) = ex_file s"
  "ex_last_error (with_breaker name f s) = ex_last_error s"
  "ex_output (with_breaker name f s) = ex_output s"
  by (simp_all add: with_breaker_def split: option.split)

lemma with_breaker_lookup [simp]:
  "map_of (ex_breakers (with_breaker name f s)) n =
     (if n = name then map_option f (map_of (ex_breakers s) n) else map_of (ex_breakers s) n)"
  by (auto simp: with_breaker_def split: option.split)

lemma set_update_values: "(n, v) \<in> set (AList.update k w m) \<Longrightarrow> (n, v) \<in> set m \<or> (n = k \<and> v = w)"
  by (induction m) (auto split: if_splits)

lemma with_breaker_ok:
  assumes "\<And>b. breaker_inv b \<Longrightarrow> breaker_inv (f b)" "breakers_ok s"
  shows "breakers_ok (with_breaker name f s)"
proof (cases "map_of (ex_breakers s) name")
  case None
  with assms(2) show ?thesis by (simp add: with_breaker_def)
next
  case (Some b)
  have "breaker_inv (f b)"
    using assms map_of_SomeD [OF Some] by (auto simp: breakers_ok_def)
  with assms(2) Some show ?thesis
    by (auto simp: breakers_ok_def with_breaker_def dest: set_update_values)
qed

lemma ensure_breaker_fields [simp]:
  "ex_attempts (ensure_breaker name c s) = ex_attempts s"
  "ex_recent (ensure_breaker name c s) = ex_recent s"
  "ex_output (ensure_breaker name c s) = ex_output s"
  "ex_last_error (ensure_breaker name c s) = ex_last_error s"
  by (simp_all add: ensure_breaker_def)

lemma ensure_breaker_lookup [simp]:
  "map_of (ex_breakers (ensure_breaker name c s)) n =
     (if n = name \<and> map_of (ex_breakers s) n = None then Some (breaker_for c)
      else map_of (ex_breakers s) n)"
  by (auto simp: ensure_breaker_def alist_setdefault_def split: option.split)

lemma ensure_breaker_ok: "breakers_ok s \<Longrightarrow> breakers_ok (ensure_breaker name c s)"
  by (auto simp: breakers_ok_def ensure_breaker_def alist_setdefault_def breaker_for_inv
      dest: set_update_values split: option.split)

lemma acquire_provider_fields [simp]:
  "ex_attempts (snd (acquire_provider name now s)) = ex_attempts s"
  "ex_recent (snd (acquire_provider name now s)) = ex_recent s"
  "ex_output (snd (acquire_provider name now s)) = ex_output s"
  "ex_last_error (snd (acquire_provider name now s)) = ex_last_error s"
  by (simp_all add: acquire_provider_def split: option.split)

lemma acquire_provider_ok: "breakers_ok s \<Longrightarrow> breakers_ok (snd (acquire_provider name now s))"
  by (simp add: acquire_provider_def with_breaker_ok acquire_inv split: option.split)

lemma add_attempt_fields [simp]:
  "ex_attempts (add_attempt a s) = ex_attempts s @ [a]"
  "ex_breakers (add_attempt a s) = ex_breakers s"
  "ex_last_error (add_attempt a s) = ex_last_error s"
  "ex_output (add_attempt a s) = ex_output s"
  "breakers_ok (add_attempt a s) = breakers_ok s"
  by (simp_all add: add_attempt_def breakers_ok_def)

lemma new_attempt_fields [simp]:
  "at_provider (new_attempt m p i err t0 fb t1 s) = p"
  "at_model (new_attempt m p i err t0 fb t1 s) = m"
  "at_retry_index (new_attempt m p i err t0 fb t1 s) = i"
  "at_attempt (new_attempt m p i err t0 fb t1 s) = length (ex_attempts s) + 1"
  "at_success (new_attempt m p i err t0 fb t1 s) = (err = None)"
  "at_error_category (new_attempt m p i err t0 fb t1 s) = err"
  "at_started_at (new_attempt m p i err t0 fb t1 s) = t0"
  "at_completed_at (new_attempt m p i err t0 fb t1 s) = t1"
  "at_first_byte_at (new_attempt m p i err t0 fb t1 s) = fb"
  by (simp_all add: new_attempt_def)

text \<open>The names of a block of attempts of one provider before those of later providers.\<close>

lemma remdups_adj_one: "subseq (remdups_adj ys) zs \<Longrightarrow> subseq (remdups_adj (c # ys)) (c # zs)"
  by (cases "remdups_adj ys") (auto simp: remdups_adj_Cons list_emb_Cons dest: subseq_Cons')

lemma remdups_adj_block:
  "\<forall>x\<in>set xs. x = c \<Longrightarrow> subseq (remdups_adj ys) zs \<Longrightarrow> subseq (remdups_adj (xs @ ys)) (c # zs)"
proof (induction xs)
  case Nil
  then show ?case by (simp add: list_emb_Cons)
next
  case (Cons x xs)
  then have x: "x = c" and ih: "subseq (remdups_adj (xs @ ys)) (c # zs)" by auto
  show ?case
  proof (cases xs)
    case Nil
    then show ?thesis using remdups_adj_one [OF Cons.prems(2), of c] by (simp add: x)
  next
    case (Cons y more)
    then have "y = c" using Cons.prems by auto
    with ih Cons x show ?thesis by simp
  qed
qed

text \<open>The names the candidates are tried under.\<close>

definition candidate_names :: "nat \<Rightarrow> adapter list \<Rightarrow> string list" where
  "candidate_names idx as = map (\<lambda>(i, a). provider_name i a) (enumerate idx as)"

text \<open>The largest number of attempts: the retries of every candidate and its first try.\<close>

definition attempt_bound :: "'r exec_call \<Rightarrow> nat \<Rightarrow> adapter list \<Rightarrow> nat" where
  "attempt_bound call idx as =
     sum_list (map (\<lambda>n. provider_retries (xc_max_retries call) (find_backend (xc_backends call) n) + 1)
       (candidate_names idx as))"

lemma candidate_names_simps [simp]:
  "candidate_names idx [] = []"
  "candidate_names idx (a # as) = provider_name idx a # candidate_names (Suc idx) as"
  by (simp_all add: candidate_names_def)

lemma attempt_bound_simps [simp]:
  "attempt_bound call idx [] = 0"
  "attempt_bound call idx (a # as) =
     provider_retries (xc_max_retries call)
       (find_backend (xc_backends call) (provider_name idx a)) + 1 + attempt_bound call (Suc idx) as"
  by (simp_all add: attempt_bound_def)

text \<open>What a run of the queue leaves in the attempt log.\<close>

definition run_log ::
  "(seconds \<Rightarrow> provider_attempt \<Rightarrow> bool) \<Rightarrow> 'r exec_call \<Rightarrow> nat \<Rightarrow> adapter list \<Rightarrow> nat \<Rightarrow> bool
    \<Rightarrow> provider_attempt list \<Rightarrow> bool" where
  "run_log good call idx as n done new \<longleftrightarrow>
     length new \<le> attempt_bound call idx as \<and>
     subseq (remdups_adj (map at_provider new)) (candidate_names idx as) \<and>
     list_all (\<lambda>a. at_error_category a = Some CircuitOpen \<or> good (xc_deadline call) a) new \<and>
     log_shape n False done new"

lemma log_shape_weaken: "log_shape n on done new \<Longrightarrow> log_shape n False done new"
  by (simp add: log_shape_def)

locale executor_attempt =
  fixes att :: "('e, 'r) attempt_fun"
    and good :: "seconds \<Rightarrow> provider_attempt \<Rightarrow> bool"
  assumes att_log: "att call backend name i e s = (s', v) \<Longrightarrow>
      \<exists>new. ex_attempts s' = ex_attempts s @ new \<and>
        attempt_ok name i (length (ex_attempts s)) (goes_on v) (verdict_delivers v)
          (good (xc_deadline call)) new"
    and att_output: "att call backend name i e s = (s', v) \<Longrightarrow>
      \<exists>cs. ex_output s' = ex_output s @ map (Pair name) cs \<and> (goes_on v \<longrightarrow> cs = [])"
    and att_breakers: "att call backend name i e s = (s', v) \<Longrightarrow> breakers_ok s \<Longrightarrow> breakers_ok s'"
begin

lemma retry_loop_log:
  assumes "retry_loop att call backend name env i n s = (s', v)"
  shows "\<exists>new. ex_attempts s' = ex_attempts s @ new \<and> length new \<le> n \<and>
      (\<forall>a\<in>set new. at_provider a = name \<and> good (xc_deadline call) a) \<and>
      log_shape (length (ex_attempts s)) (goes_on v) (verdict_delivers v) new"
  using assms
proof (induction n arbitrary: i s)
  case 0
  then show ?case by (auto simp: log_shape_Nil)
next
  case (Suc n)
  obtain s1 v1 where at: "att call backend name i (env i) s = (s1, v1)"
    by (cases "att call backend name i (env i) s")
  obtain new1 where new1: "ex_attempts s1 = ex_attempts s @ new1"
    "attempt_ok name i (length (ex_attempts s)) (goes_on v1) (verdict_delivers v1) (good (xc_deadline call)) new1"
    using att_log [OF at] by blast
  have one: "length new1 \<le> 1"
    "\<forall>a\<in>set new1. at_provider a = name \<and> good (xc_deadline call) a"
    using new1(2) by (auto simp: attempt_ok_def)
  show ?case
  proof (cases "v1 = Retry")
    case False
    with Suc.prems have "s' = s1" "v = v1" by (auto simp: at split: verdict.splits)
    with new1 one log_shape_one [OF new1(2)] show ?thesis by auto
  next
    case True
    with Suc.prems have "retry_loop att call backend name env (Suc i) n s1 = (s', v)" by (simp add: at)
    from Suc.IH [OF this] obtain new2 where new2: "ex_attempts s' = ex_attempts s1 @ new2"
      "length new2 \<le> n" "\<forall>a\<in>set new2. at_provider a = name \<and> good (xc_deadline call) a"
      "log_shape (length (ex_attempts s1)) (goes_on v) (verdict_delivers v) new2" by blast
    have "log_shape (length (ex_attempts s)) True False new1"
      using log_shape_one [OF new1(2)] True by simp
    then have "log_shape (length (ex_attempts s)) (goes_on v) (verdict_delivers v) (new1 @ new2)"
      using new2(4) by (intro log_shape_append) (simp_all add: new1(1))
    with new1(1) new2 one show ?thesis by (intro exI [of _ "new1 @ new2"]) auto
  qed
qed

lemma retry_loop_breakers:
  "retry_loop att call backend name env i n s = (s', v) \<Longrightarrow> breakers_ok s \<Longrightarrow> breakers_ok s'"
proof (induction n arbitrary: i s)
  case (Suc n)
  obtain s1 v1 where at: "att call backend name i (env i) s = (s1, v1)"
    by (cases "att call backend name i (env i) s")
  have "breakers_ok s1" using att_breakers [OF at Suc.prems(2)] .
  with Suc.prems Suc.IH [of "Suc i" s1] show ?case
    by (cases v1) (auto simp: at)
qed simp

lemma provider_loop_breakers:
  "provider_loop att call env idx as s = (s', r) \<Longrightarrow> breakers_ok s \<Longrightarrow> breakers_ok s'"
proof (induction as arbitrary: idx s)
  case (Cons a as)
  define name where "name = provider_name idx a"
  define backend where "backend = find_backend (xc_backends call) name"
  obtain ok s1 where acq: "acquire_provider name (pe_acquire_at (env idx)) (ensure_breaker name backend s) = (ok, s1)"
    by fastforce
  have s1: "breakers_ok s1"
    using acquire_provider_ok [OF ensure_breaker_ok [OF Cons.prems(2)], of name _ name backend] acq
    by (metis snd_conv)
  obtain s2 v where rl: "retry_loop att call backend name (pe_attempt (env idx)) 0
      (provider_retries (xc_max_retries call) backend + 1) s1 = (s2, v)"
    by fastforce
  have s2: "breakers_ok s2" using retry_loop_breakers [OF rl s1] .
  show ?case
  proof (cases "pe_cancelled (env idx)")
    case True
    with Cons.prems show ?thesis by simp
  next
    case False
    with Cons.prems(1) s1 s2 rl Cons.IH show ?thesis
      by (cases ok; cases v)
        (auto simp: Let_def name_def [symmetric] backend_def [symmetric] acq)
  qed
qed simp

lemma provider_loop_log:
  "provider_loop att call env idx as s = (s', r) \<Longrightarrow>
   \<exists>new. ex_attempts s' = ex_attempts s @ new \<and>
     run_log good call idx as (length (ex_attempts s)) (delivers r) new"
proof (induction as arbitrary: idx s)
  case Nil
  then show ?case by (auto simp: run_log_def list_all_iff log_shape_Nil)
next
  case (Cons a as)
  define name where "name = provider_name idx a"
  define backend where "backend = find_backend (xc_backends call) name"
  define n where "n = length (ex_attempts s)"
  obtain ok s1 where acq: "acquire_provider name (pe_acquire_at (env idx)) (ensure_breaker name backend s) = (ok, s1)"
    by fastforce
  have s1: "ex_attempts s1 = ex_attempts s"
    using acquire_provider_fields(1) [of name "pe_acquire_at (env idx)" "ensure_breaker name backend s"]
    by (simp add: acq)
  show ?case
  proof (cases "pe_cancelled (env idx)")
    case True
    with Cons.prems show ?thesis by (auto simp: run_log_def list_all_iff log_shape_Nil)
  next
    case nc: False
    show ?thesis
    proof (cases ok)
      case False
      define skip where "skip = new_attempt (xc_model call) name 0 (Some CircuitOpen)
          (pe_skip_started (env idx)) None (pe_skip_completed (env idx)) s1"
      have "provider_loop att call env (Suc idx) as (add_attempt skip s1) = (s', r)"
        using Cons.prems nc False
        by (simp add: Let_def name_def [symmetric] backend_def [symmetric] acq skip_def)
      from Cons.IH [OF this] obtain new where new: "ex_attempts s' = ex_attempts s @ [skip] @ new"
        "run_log good call (Suc idx) as (n + length [skip]) (delivers r) new"
        by (auto simp: s1 n_def)
      have "log_shape n True False [skip]"
        by (simp add: log_shape_def skip_def replayable_def s1 n_def)
      then have "log_shape n False (delivers r) ([skip] @ new)"
        using new(2) unfolding run_log_def by (intro log_shape_append) auto
      moreover have "subseq (remdups_adj (map at_provider ([skip] @ new))) (candidate_names idx (a # as))"
        using new(2) remdups_adj_block [of "[name]" name "map at_provider new"]
        by (simp add: run_log_def list_all_iff skip_def name_def)
      moreover have "at_error_category skip = Some CircuitOpen" by (simp add: skip_def)
      ultimately have "run_log good call idx (a # as) n (delivers r) ([skip] @ new)"
        using new(2) by (auto simp: run_log_def list_all_iff)
      with new(1) show ?thesis by (auto simp: n_def)
    next
      case True
      obtain s2 v where rl: "retry_loop att call backend name (pe_attempt (env idx)) 0
          (provider_retries (xc_max_retries call) backend + 1) s1 = (s2, v)"
        by fastforce
      from retry_loop_log [OF rl] obtain new1 where new1: "ex_attempts s2 = ex_attempts s @ new1"
        "length new1 \<le> provider_retries (xc_max_retries call) backend + 1"
        "\<forall>a\<in>set new1. at_provider a = name \<and> good (xc_deadline call) a"
        "log_shape n (goes_on v) (verdict_delivers v) new1"
        by (auto simp: s1 n_def)
      have step: "(s', r) = (case v of Finish r \<Rightarrow> (s2, r)
            | StopFailover \<Rightarrow> (s2, FailoverFailed (ex_last_error s2))
            | _ \<Rightarrow> provider_loop att call env (Suc idx) as s2)"
        using Cons.prems nc True rl
        by (simp add: Let_def name_def [symmetric] backend_def [symmetric] acq split: verdict.splits)
      show ?thesis
      proof (cases "goes_on v")
        case go: True
        then have "provider_loop att call env (Suc idx) as s2 = (s', r)"
          using step by (cases v) auto
        from Cons.IH [OF this] obtain new2 where new2: "ex_attempts s' = ex_attempts s @ new1 @ new2"
          "run_log good call (Suc idx) as (n + length new1) (delivers r) new2"
          by (auto simp: new1(1) n_def)
        have nd: "verdict_delivers v = False" using go by (cases v) auto
        have "log_shape n False (delivers r) (new1 @ new2)"
          using new1(4) new2(2) go nd unfolding run_log_def by (intro log_shape_append) auto
        moreover have "subseq (remdups_adj (map at_provider (new1 @ new2))) (candidate_names idx (a # as))"
          using new1(3) new2(2) remdups_adj_block [of "map at_provider new1" name "map at_provider new2"]
          by (simp add: run_log_def list_all_iff name_def)
        ultimately have "run_log good call idx (a # as) n (delivers r) (new1 @ new2)"
          using new1(2,3) new2(2) by (auto simp: run_log_def list_all_iff backend_def name_def)
        with new2(1) show ?thesis by (auto simp: n_def)
      next
        case stop: False
        then have s': "s' = s2" "delivers r = verdict_delivers v"
          using step by (cases v; simp)+
        have "subseq (remdups_adj (map at_provider new1)) (candidate_names idx (a # as))"
          using new1(3) remdups_adj_block [of "map at_provider new1" name "[]"] by (simp add: name_def)
        moreover have "log_shape n False (delivers r) new1"
          using log_shape_weaken [OF new1(4)] by (simp add: s')
        ultimately have "run_log good call idx (a # as) n (delivers r) new1"
          using new1(2,3) by (auto simp: run_log_def list_all_iff backend_def name_def)
        with new1(1) show ?thesis by (auto simp: s' n_def)
      qed
    qed
  qed
qed

lemma retry_loop_output:
  "retry_loop att call backend name env i n s = (s', v) \<Longrightarrow>
   \<exists>cs. ex_output s' = ex_output s @ map (Pair name) cs \<and> (goes_on v \<longrightarrow> cs = [])"
proof (induction n arbitrary: i s)
  case (Suc n)
  obtain s1 v1 where at: "att call backend name i (env i) s = (s1, v1)"
    by (cases "att call backend name i (env i) s")
  from att_output [OF at] obtain cs where cs: "ex_output s1 = ex_output s @ map (Pair name) cs"
    "goes_on v1 \<longrightarrow> cs = []" by blast
  with Suc.prems Suc.IH [of "Suc i" s1] show ?case
    by (cases v1) (auto simp: at)
qed simp

lemma provider_loop_output:
  "provider_loop att call env idx as s = (s', r) \<Longrightarrow>
   \<exists>p cs. ex_output s' = ex_output s @ map (Pair p) cs"
proof (induction as arbitrary: idx s)
  case (Cons a as)
  define name where "name = provider_name idx a"
  define backend where "backend = find_backend (xc_backends call) name"
  obtain ok s1 where acq: "acquire_provider name (pe_acquire_at (env idx)) (ensure_breaker name backend s) = (ok, s1)"
    by fastforce
  have s1: "ex_output s1 = ex_output s"
    using acquire_provider_fields(3) [of name "pe_acquire_at (env idx)" "ensure_breaker name backend s"]
    by (simp add: acq)
  obtain s2 v where rl: "retry_loop att call backend name (pe_attempt (env idx)) 0
      (provider_retries (xc_max_retries call) backend + 1) s1 = (s2, v)"
    by fastforce
  from retry_loop_output [OF rl] obtain cs where
    cs: "ex_output s2 = ex_output s @ map (Pair name) cs" "goes_on v \<longrightarrow> cs = []"
    by (auto simp: s1)
  show ?case
  proof (cases "pe_cancelled (env idx)")
    case True
    with Cons.prems show ?thesis by (auto intro: exI [of _ "[]"])
  next
    case False
    with Cons.prems cs rl s1 Cons.IH [of "Suc idx" s2]
      Cons.IH [of "Suc idx" "add_attempt (new_attempt (xc_model call) name 0 (Some CircuitOpen)
                      (pe_skip_started (env idx)) None (pe_skip_completed (env idx)) s1) s1"]
    show ?thesis
      by (cases ok; cases v)
        (auto simp: Let_def name_def [symmetric] backend_def [symmetric] acq)
  qed
qed (auto intro: exI [of _ "[]"])

end

section \<open>The attempt of a chat\<close>

lemma classify_deadline: "classify_llm_error deadline_error = Timeout"
  by (simp add: classify_llm_error_def deadline_error_def status_code_of_def classify_by_class_def)

lemma persist_fields [simp]:
  "ex_attempts (persist_circuits now clk s) = ex_attempts s"
  "ex_recent (persist_circuits now clk s) = ex_recent s"
  "ex_output (persist_circuits now clk s) = ex_output s"
  "ex_last_error (persist_circuits now clk s) = ex_last_error s"
  by (simp_all add: persist_circuits_def split: prod.split)

lemma store_save_breakers:
  "snd (store_save now clk bs f) =
     map (\<lambda>(n, b). (n, refresh_state (fst (clk n)) b)) bs"
  by (auto simp: store_save_def Let_def durable_state_def)

lemma persist_ok: "breakers_ok s \<Longrightarrow> breakers_ok (persist_circuits now clk s)"
  using store_save_breakers [of now clk "ex_breakers s" "ex_file s"]
  by (auto simp: breakers_ok_def persist_circuits_def split: prod.split intro!: refresh_inv)

lemma last_error_breakers [simp]: "breakers_ok (s\<lparr>ex_last_error := e\<rparr>) = breakers_ok s"
  by (simp add: breakers_ok_def)

definition chat_good :: "seconds \<Rightarrow> provider_attempt \<Rightarrow> bool" where
  "chat_good deadline a \<longleftrightarrow>
     at_started_at a < deadline \<and> (at_success a \<longrightarrow> at_completed_at a \<le> deadline)"

text \<open>The shared failure branch appends one failed attempt and goes on only when it is
  replayable.\<close>

lemma attempt_failed_log:
  assumes "attempt_failed call backend name i started fb err e s = (s', v)"
  shows "\<exists>a. ex_attempts s' = ex_attempts s @ [a] \<and> at_provider a = name \<and> at_retry_index a = i \<and>
      at_attempt a = length (ex_attempts s) + 1 \<and> \<not> at_success a \<and> at_started_at a = started \<and>
      (goes_on v \<longrightarrow> replayable a) \<and> \<not> verdict_delivers v"
  using assms
  by (auto simp: attempt_failed_def Let_def replayable_def split: if_splits)

lemma attempt_failed_other:
  assumes "attempt_failed call backend name i started fb err e s = (s', v)"
  shows "ex_output s' = ex_output s \<and> (breakers_ok s \<longrightarrow> breakers_ok s') \<and>
      (fb \<noteq> None \<longrightarrow> \<not> goes_on v)"
  using assms
  by (auto simp: attempt_failed_def Let_def persist_ok with_breaker_ok record_failure_inv)

lemma attempt_cancelled_log:
  assumes "attempt_cancelled call name i started fb t s = (s', v)"
  shows "\<exists>a. ex_attempts s' = ex_attempts s @ [a] \<and> at_provider a = name \<and> at_retry_index a = i \<and>
      at_attempt a = length (ex_attempts s) + 1 \<and> \<not> at_success a \<and> at_started_at a = started \<and>
      v = Finish RequestCancelled"
  using assms by (auto simp: attempt_cancelled_def Let_def)

lemma attempt_cancelled_other:
  assumes "attempt_cancelled call name i started fb t s = (s', v)"
  shows "ex_output s' = ex_output s \<and> (breakers_ok s \<longrightarrow> breakers_ok s')"
  using assms
  by (auto simp: attempt_cancelled_def Let_def with_breaker_ok record_cancelled_inv)

text \<open>The branches of a chat attempt.\<close>

lemma chat_attempt_cases:
  assumes "chat_attempt call backend name i e s = (s', v)"
  obtains (late) "s' = s" "v = StopFailover"
  | (flagged) "s' = with_breaker name record_cancelled s" "v = Finish RequestCancelled"
  | (failed) err where "ch_started e < xc_deadline call"
      "attempt_failed call backend name i (ch_started e) None err (ch_fail e) s = (s', v)"
  | (cancelled) "ch_started e < xc_deadline call"
      "attempt_cancelled call name i (ch_started e) None (fe_completed (ch_fail e)) s = (s', v)"
  | (aborted) "s' = s" "v = Finish Aborted"
  | (ok) r where "ch_started e < xc_deadline call" "ch_completed e \<le> xc_deadline call"
      "s' = add_attempt (new_attempt (xc_model call) name i None (ch_started e) None (ch_completed e)
              (with_breaker name (record_success (ch_completed e)) s))
              (with_breaker name (record_success (ch_completed e)) s)"
      "v = Finish (Delivered (xc_policy call backend r))"
proof (cases "xc_deadline call \<le> ch_started e \<or> ch_cancelled e")
  case True
  show thesis
  proof (cases "xc_deadline call \<le> ch_started e")
    case late_start: True
    with assms show thesis by (intro late) (simp_all add: chat_attempt_def)
  next
    case in_time: False
    with True assms show thesis by (intro flagged) (simp_all add: chat_attempt_def)
  qed
next
  case False
  then have st: "ch_started e < xc_deadline call" by simp
  show thesis
  proof (cases "fst (call_adapter_with_deadline (max 0 (xc_deadline call - ch_started e)) (ch_call e))")
    case (Returned r)
    show thesis
    proof (cases "xc_deadline call < ch_completed e")
      case True
      with assms False Returned show thesis by (intro failed [OF st]) (simp add: chat_attempt_def)
    next
      case in_time: False
      then have ct: "ch_completed e \<le> xc_deadline call" by simp
      from assms False Returned in_time show thesis
        by (intro ok [OF st ct, of r]) (simp_all add: chat_attempt_def Let_def)
    qed
  next
    case (Raised err)
    with assms False show thesis by (intro failed [OF st]) (simp add: chat_attempt_def)
  next
    case CallCancelled
    with assms False show thesis by (intro cancelled [OF st]) (simp add: chat_attempt_def)
  next
    case CallAborted
    with assms False show thesis by (intro aborted) (simp_all add: chat_attempt_def)
  qed
qed

interpretation chat_queue: executor_attempt chat_attempt chat_good
proof
  fix call :: "'a exec_call" and backend name i e s s' v
  assume at: "chat_attempt call backend name i e s = (s', v)"
  show "\<exists>new. ex_attempts s' = ex_attempts s @ new \<and>
      attempt_ok name i (length (ex_attempts s)) (goes_on v) (verdict_delivers v)
        (chat_good (xc_deadline call)) new"
    using at
  proof (cases rule: chat_attempt_cases)
    case (failed err)
    from attempt_failed_log [OF failed(2)] failed(1) show ?thesis
      by (auto simp: attempt_ok_def chat_good_def)
  next
    case cancelled
    from attempt_cancelled_log [OF cancelled(2)] cancelled(1) show ?thesis
      by (auto simp: attempt_ok_def chat_good_def)
  qed (auto simp: attempt_ok_def chat_good_def)
  show "\<exists>cs. ex_output s' = ex_output s @ map (Pair name) cs \<and> (goes_on v \<longrightarrow> cs = [])"
    using at
    by (cases rule: chat_attempt_cases) (auto dest: attempt_failed_other attempt_cancelled_other)
  show "breakers_ok s \<Longrightarrow> breakers_ok s'"
    using at
    by (cases rule: chat_attempt_cases)
      (auto dest: attempt_failed_other attempt_cancelled_other
        intro: with_breaker_ok record_cancelled_inv record_success_inv)
qed

section \<open>Properties of the queue\<close>

definition chat_start :: "'r exec_state \<Rightarrow> 'r exec_state" where
  "chat_start s = s\<lparr>ex_attempts := [], ex_last_error := None, ex_output := []\<rparr>"

definition chat_exec_call ::
  "(backend_config option \<Rightarrow> 'r \<Rightarrow> 'r) \<Rightarrow> backend_config list \<Rightarrow> chat_call \<Rightarrow> adapter list \<Rightarrow> seconds
    \<Rightarrow> 'r exec_call" where
  "chat_exec_call policy backends c candidates started =
     \<lparr>xc_model = cc_model c, xc_backends = backends, xc_max_retries = cc_max_retries c,
      xc_retry_delay = cc_retry_delay c,
      xc_deadline = exec_deadline non_stream_timeout backends candidates
                      (cc_deadline_seconds c) started,
      xc_policy = policy\<rparr>"

lemma execute_chat_loop:
  "execute_chat policy backends c candidates cancelled started env s0 =
     (if cancelled then (chat_start s0, RequestCancelled)
      else if candidates = [] then (chat_start s0, FailoverFailed None)
      else provider_loop chat_attempt (chat_exec_call policy backends c candidates started) env 0
             candidates (chat_start s0))"
  by (simp add: execute_chat_def chat_start_def chat_exec_call_def)

lemma execute_chat_log:
  assumes "execute_chat policy backends c candidates cancelled started env s0 = (s', r)"
  shows "run_log chat_good (chat_exec_call policy backends c candidates started) 0 candidates 0
           (delivers r) (ex_attempts s')"
proof (cases "cancelled \<or> candidates = []")
  case True
  with assms show ?thesis
    by (auto simp: execute_chat_loop chat_start_def run_log_def log_shape_Nil split: if_splits)
next
  case False
  with assms have "provider_loop chat_attempt (chat_exec_call policy backends c candidates started)
      env 0 candidates (chat_start s0) = (s', r)"
    by (simp add: execute_chat_loop)
  from chat_queue.provider_loop_log [OF this] show ?thesis by (simp add: chat_start_def)
qed

text \<open>A chat is bounded and deterministic in its order, whatever the providers, the clock
  and the cancellation do: at most one attempt per configured try of each candidate, numbered
  1, 2, ..., the providers tried in queue order without going back, and every attempt that
  was not skipped started before the deadline, a successful one also completed by it.\<close>

theorem chat_bounded_in_order:
  "let call = chat_exec_call policy backends c candidates started;
       attempts = ex_attempts (fst (execute_chat policy backends c candidates cancelled started env s0))
   in length attempts \<le> attempt_bound call 0 candidates \<and>
      map at_attempt attempts = [1..<length attempts + 1] \<and>
      subseq (remdups_adj (map at_provider attempts)) (candidate_names 0 candidates) \<and>
      list_all (\<lambda>a. at_error_category a = Some CircuitOpen \<or> chat_good (xc_deadline call) a) attempts"
proof -
  obtain s' r where e: "execute_chat policy backends c candidates cancelled started env s0 = (s', r)"
    by fastforce
  from execute_chat_log [OF e] show ?thesis
    by (simp add: e run_log_def log_shape_def Let_def del: upt_Suc)
qed

text \<open>C20. The queue moves on only from an attempt that is safe to replay: every attempt but the
  last was skipped because of an open circuit or failed with a network, timeout, rate-limit or
  upstream error. An attempt is successful exactly when the chat delivers a reply, and it is
  the last one, so no provider is called after a reply.\<close>

theorem chat_fails_over_only_when_replayable:
  "let (s', r) = execute_chat policy backends c candidates cancelled started env s0;
       attempts = ex_attempts s'
   in list_all replayable (butlast attempts) \<and>
      ((\<exists>a\<in>set attempts. at_success a) \<longleftrightarrow> delivers r) \<and>
      (if delivers r then attempts \<noteq> [] \<and> at_success (last attempts) else True)"
proof -
  obtain s' r where e: "execute_chat policy backends c candidates cancelled started env s0 = (s', r)"
    by fastforce
  from execute_chat_log [OF e] show ?thesis by (simp add: e run_log_def log_shape_def)
qed

lemma chat_start_ok [simp]: "breakers_ok (chat_start s) = breakers_ok s"
  by (simp add: breakers_ok_def chat_start_def)

text \<open>No chat can corrupt a breaker: if every breaker is well formed before it, every
  breaker, including those created on the way, is well formed after it.\<close>

theorem chat_keeps_breakers_well_formed:
  assumes "breakers_ok s0"
  shows "breakers_ok (fst (execute_chat policy backends c candidates cancelled started env s0))"
proof (cases "cancelled \<or> candidates = []")
  case True
  with assms show ?thesis by (auto simp: execute_chat_loop)
next
  case False
  with assms show ?thesis
    using chat_queue.provider_loop_breakers [OF surjective_pairing, of "chat_start s0"]
    by (simp add: execute_chat_loop)
qed

text \<open>A small scenario for the witnesses: two providers, the first of which answers late.\<close>

definition idle_fail :: fail_env where
  "idle_fail = \<lparr>fe_completed = 10, fe_saved = 0, fe_clocks = (\<lambda>_. (10, 10)), fe_after = 10,
     fe_wait_cancelled = False\<rparr>"

definition chat_answer :: "seconds \<Rightarrow> seconds \<Rightarrow> string worker_result \<Rightarrow> string chat_env" where
  "chat_answer started completed v =
     \<lparr>ch_started = started, ch_cancelled = False,
      ch_call = \<lparr>ce_cancelled = False, ce_start = started,
                 ce_polls = [\<lparr>pl_cancelled = False, pl_now = started, pl_got = Some v,
                              pl_cancelled_after = False\<rparr>]\<rparr>,
      ch_completed = completed, ch_fail = idle_fail\<rparr>"

definition provider_at :: "seconds \<Rightarrow> string chat_env \<Rightarrow> string chat_env provider_env" where
  "provider_at t e = \<lparr>pe_cancelled = False, pe_acquire_at = t, pe_skip_started = t,
     pe_skip_completed = t, pe_attempt = (\<lambda>_. e)\<rparr>"

definition half_open_state :: "string exec_state" where
  "half_open_state = \<lparr>ex_breakers = [(''q'', half_open_example)], ex_recent = [], ex_file = NoFile,
     ex_attempts = [], ex_last_error = None, ex_output = []\<rparr>"

definition two_adapters :: "adapter list" where
  "two_adapters = [\<lparr>ad_backend_name = Some ''p'', ad_stream_tool_calls = True\<rparr>,
                   \<lparr>ad_backend_name = Some ''q'', ad_stream_tool_calls = True\<rparr>]"

definition two_backends :: "backend_config list" where
  "two_backends = [default_backend ''p'', default_backend ''q'']"

definition ten_second_call :: chat_call where
  "ten_second_call = \<lparr>cc_model = ''m'', cc_max_retries = None, cc_retry_delay = None,
     cc_deadline_seconds = Some 10\<rparr>"

lemma half_open_state_ok: "breakers_ok half_open_state"
  by (simp add: breakers_ok_def half_open_state_def half_open_example_inv)

theorem chat_keeps_breakers_well_formed_witness:
  "breakers_ok (fst (execute_chat (\<lambda>_ r. r) two_backends ten_second_call two_adapters False 0
     (\<lambda>_. provider_at 1 (chat_answer 1 2 (Reply ''hi''))) half_open_state))"
  by (rule chat_keeps_breakers_well_formed [OF half_open_state_ok])

text \<open>A provider whose circuit is open and cooling down at the reading of its \<open>acquire\<close>.\<close>

definition refusing :: "'r exec_state \<Rightarrow> string \<Rightarrow> seconds \<Rightarrow> bool" where
  "refusing s name now =
     (case map_of (ex_breakers s) name of
        None \<Rightarrow> False
      | Some b \<Rightarrow> circuit b = Open \<and>
          (case opened_at b of None \<Rightarrow> False | Some t \<Rightarrow> now - t < recovery_timeout b))"

fun all_refusing :: "(nat \<Rightarrow> 'e provider_env) \<Rightarrow> 'r exec_state \<Rightarrow> nat \<Rightarrow> adapter list \<Rightarrow> bool" where
  "all_refusing env s idx [] = True"
| "all_refusing env s idx (a # as) =
     (\<not> pe_cancelled (env idx) \<and> refusing s (provider_name idx a) (pe_acquire_at (env idx)) \<and>
      all_refusing env s (Suc idx) as)"

lemma acquire_refusing:
  assumes "refusing s name now"
  shows "acquire_provider name now (ensure_breaker name c s) = (False, s)"
proof -
  obtain b t where b: "map_of (ex_breakers s) name = Some b" "circuit b = Open" "opened_at b = Some t"
    "now - t < recovery_timeout b"
    using assms by (auto simp: refusing_def split: option.splits)
  have e: "ensure_breaker name c s = s"
    using b(1) by (simp add: ensure_breaker_def alist_setdefault_def)
  have a: "acquire now b = (False, b)" using b by (simp add: acquire_def)
  have "AList.update name b (ex_breakers s) = ex_breakers s"
    using b(1) by (induction "ex_breakers s" arbitrary: s) (auto intro: update_triv)
  then show ?thesis by (simp add: e acquire_provider_def with_breaker_def b(1) a)
qed

lemma refusing_add [simp]:
  "refusing (add_attempt a s) n now = refusing s n now"
  "all_refusing env (add_attempt a s) idx as = all_refusing env s idx as"
  by (simp add: refusing_def) (induction as arbitrary: idx; simp add: refusing_def)

lemma all_refusing_loop:
  "all_refusing env s idx as \<Longrightarrow> provider_loop att call env idx as s = (s', r) \<Longrightarrow>
   r = FailoverFailed (ex_last_error s) \<and> ex_breakers s' = ex_breakers s \<and>
   map at_error_category (drop (length (ex_attempts s)) (ex_attempts s')) =
     replicate (length as) (Some CircuitOpen) \<and>
   take (length (ex_attempts s)) (ex_attempts s') = ex_attempts s"
proof (induction as arbitrary: idx s)
  case (Cons a as)
  define skip where "skip = new_attempt (xc_model call) (provider_name idx a) 0 (Some CircuitOpen)
          (pe_skip_started (env idx)) None (pe_skip_completed (env idx)) s"
  have "provider_loop att call env (Suc idx) as (add_attempt skip s) = (s', r)"
    using Cons.prems by (simp add: Let_def acquire_refusing skip_def)
  from Cons.IH [OF _ this] Cons.prems(1)
  have ih: "r = FailoverFailed (ex_last_error s)" "ex_breakers s' = ex_breakers s"
    "map at_error_category (drop (Suc (length (ex_attempts s))) (ex_attempts s')) =
       replicate (length as) (Some CircuitOpen)"
    "take (Suc (length (ex_attempts s))) (ex_attempts s') = ex_attempts s @ [skip]"
    by simp_all
  then have "ex_attempts s' = (ex_attempts s @ [skip]) @ drop (Suc (length (ex_attempts s))) (ex_attempts s')"
    by (metis append_take_drop_id)
  then obtain more where more: "ex_attempts s' = ex_attempts s @ skip # more"
    "drop (Suc (length (ex_attempts s))) (ex_attempts s') = more"
    by simp
  then show ?case using ih by (simp add: skip_def)
qed simp

text \<open>When the circuit of every candidate is open and cooling down, a chat fails at once:
  each candidate is skipped, no provider is called and no breaker changes.\<close>

theorem all_open_fails_fast:
  assumes "candidates \<noteq> []" "all_refusing env s0 0 candidates"
  shows "let (s', r) = execute_chat policy backends c candidates False started env s0
         in r = FailoverFailed None \<and> ex_breakers s' = ex_breakers s0 \<and>
            map at_error_category (ex_attempts s') = replicate (length candidates) (Some CircuitOpen)"
proof -
  obtain s' r where e: "execute_chat policy backends c candidates False started env s0 = (s', r)"
    by fastforce
  have ref: "refusing (chat_start s0) n t = refusing s0 n t" for n t
    by (simp add: refusing_def chat_start_def)
  have "all_refusing env (chat_start s0) idx as = all_refusing env s0 idx as" for idx as
    by (induction as arbitrary: idx) (simp_all add: ref)
  with e assms all_refusing_loop [of env "chat_start s0" 0 candidates chat_attempt
      "chat_exec_call policy backends c candidates started" s' r]
  show ?thesis by (simp add: execute_chat_loop, simp add: chat_start_def)
qed

definition open_state :: "string exec_state" where
  "open_state = half_open_state
     \<lparr>ex_breakers := [(''p'', half_open_example\<lparr>circuit := Open\<rparr>), (''q'', half_open_example\<lparr>circuit := Open\<rparr>)]\<rparr>"

theorem all_open_fails_fast_witness:
  "map at_error_category (ex_attempts (fst (execute_chat (\<lambda>_ r. r) two_backends ten_second_call
     two_adapters False 0 (\<lambda>_. provider_at 1 (chat_answer 1 2 (Reply ''hi''))) open_state))) =
   [Some CircuitOpen, Some CircuitOpen]"
proof -
  have "all_refusing (\<lambda>_. provider_at 1 (chat_answer 1 2 (Reply ''hi''))) open_state 0 two_adapters"
    by (simp add: two_adapters_def provider_at_def refusing_def open_state_def half_open_state_def
        provider_name_def half_open_example_def new_breaker_def)
  from all_open_fails_fast [OF _ this, of "\<lambda>_ r. r" two_backends ten_second_call 0] show ?thesis
    by (simp add: two_adapters_def split: prod.splits)
qed

section \<open>A probe that is never given back\<close>

text \<open>
  The retry loop leaves without recording a result when the deadline has passed between
  \<open>acquire\<close> and the first attempt. The permit of a half-open breaker is then never given back.
\<close>

lemma late_start_loop:
  assumes "\<not> pe_cancelled (env idx)"
    and "map_of (ex_breakers s) (provider_name idx a) = Some b"
    and "circuit b = HalfOpen" "\<not> probe_in_flight b"
    and "xc_deadline call \<le> ch_started (pe_attempt (env idx) 0)"
  shows "map_of (ex_breakers (fst (provider_loop chat_attempt call env idx (a # as) s)))
      (provider_name idx a) = Some (b\<lparr>probe_in_flight := True, in_flight := in_flight b + 1\<rparr>)"
  using assms
  by (simp add: Let_def acquire_provider_def acquire_def chat_attempt_def)

text \<open>A defect: a provider that is reached after the deadline keeps the probe permit of its
  half-open breaker. No result is recorded for it, the count of requests in flight stays one
  too high, and every later request, at any time, is refused: the provider stays isolated
  until it is reset or the process restarts.\<close>

theorem late_probe_is_never_released:
  assumes "\<not> pe_cancelled (env idx)"
    and "map_of (ex_breakers s) (provider_name idx a) = Some b"
    and "circuit b = HalfOpen" "\<not> probe_in_flight b"
    and "xc_deadline call \<le> ch_started (pe_attempt (env idx) 0)"
  shows "\<exists>b'. map_of (ex_breakers (fst (provider_loop chat_attempt call env idx (a # as) s)))
      (provider_name idx a) = Some b' \<and> in_flight b' = in_flight b + 1 \<and>
      acquire_all ts b' = replicate (length ts) False"
  using late_start_loop [of env idx s a b call as, OF assms] assms(3)
  by (auto intro!: acquire_all_taken)

theorem late_probe_is_never_released_witness:
  "\<exists>b'. map_of (ex_breakers (fst (provider_loop chat_attempt
      (chat_exec_call (\<lambda>_ r. r) two_backends ten_second_call two_adapters 0)
      (\<lambda>_. provider_at 10 (chat_answer 10 11 (Reply ''hi''))) 1 [two_adapters ! 1] half_open_state)))
      ''q'' = Some b' \<and> acquire_all [20, 1000000] b' = [False, False]"
proof -
  have n: "provider_name 1 (two_adapters ! 1) = ''q''"
    unfolding two_adapters_def by (simp, simp add: provider_name_def)
  have q: "map_of (ex_breakers half_open_state) (provider_name 1 (two_adapters ! 1)) = Some half_open_example"
    unfolding n by (simp add: half_open_state_def)
  have d: "xc_deadline (chat_exec_call (\<lambda>_ r. r) two_backends ten_second_call two_adapters 0)
      \<le> ch_started (pe_attempt (provider_at 10 (chat_answer 10 11 (Reply ''hi''))) 0)"
    by (simp add: chat_exec_call_def exec_deadline_def ten_second_call_def provider_at_def chat_answer_def)
  show ?thesis
    using late_probe_is_never_released [of "\<lambda>_. provider_at 10 (chat_answer 10 11 (Reply ''hi''))" 1
        half_open_state "two_adapters ! 1" half_open_example _ "[]" "[20, 1000000]", OF _ q _ _ d]
    unfolding n by (auto simp: provider_at_def)
qed

section \<open>Candidates and calls\<close>

text \<open>The candidate queue is the enabled, participating, allowed adapters of the model and
  nothing else, in increasing priority, and adapters of equal priority keep their
  registration order.\<close>

theorem candidates_exact:
  "let allowed = filter (\<lambda>s. s \<noteq> []) (map str_strip allowlist);
       eligible = filter (candidate_ok backends allowed)
         (case map_of active model_id of Some as \<Rightarrow> as | None \<Rightarrow> []);
       queue = get_provider_candidates backends active model_id allowlist
   in sorted (map (candidate_priority backends) queue) \<and>
      set queue = set eligible \<and> length queue = length eligible \<and>
      (\<forall>p. filter (\<lambda>a. candidate_priority backends a = p) queue =
           filter (\<lambda>a. candidate_priority backends a = p) eligible)"
  by (simp add: get_provider_candidates_def Let_def sort_key_stable)

lemma get_llm_first:
  "get_provider_candidates backends active model_id [] = p # ps \<Longrightarrow>
     get_llm backends active model_id = Some p"
proof -
  assume q: "get_provider_candidates backends active model_id [] = p # ps"
  then obtain a as where "map_of active model_id = Some (a # as)"
    by (auto simp: get_provider_candidates_def Let_def split: option.splits list.splits)
       (metis filter.simps(1) list.exhaust list.simps(3) sort_key_simps(1))+
  with q show ?thesis by (simp add: get_llm_def)
qed

text \<open>A bounded call tells the adapter to cancel exactly when it gives the request up: the
  outcome is then the deadline error or the cancellation. Otherwise the outcome is what the
  worker put into the queue, taken in a round that began before the deadline with the
  cancellation flag clear before and after.\<close>

theorem call_cancels_iff_given_up:
  "case poll_worker deadline polls of
     (out, True) \<Rightarrow> out = CallCancelled \<or> out = Raised deadline_error
   | (out, False) \<Rightarrow> (\<exists>p v. p \<in> set polls \<and> pl_got p = Some v \<and> out = worker_outcome v \<and>
        pl_now p < deadline \<and> \<not> pl_cancelled p \<and> \<not> pl_cancelled_after p)"
proof (induction polls)
  case (Cons p ps)
  show ?case
  proof (cases "\<not> pl_cancelled p \<and> pl_now p < deadline \<and> pl_got p = None")
    case True
    then have "poll_worker deadline (p # ps) = poll_worker deadline ps" by simp
    with Cons.IH show ?thesis by (fastforce split: prod.splits bool.splits)
  next
    case False
    then show ?thesis by (auto split: option.split)
  qed
qed simp

end
