(* ===== verification/Failover_Stream.thy ===== *)
theory Failover_Stream
  imports Failover
begin

text \<open>
  The streaming executor of \<open>LLMManager\<close>: the bridge \<open>_stream_adapter_events\<close> over a
  blocking stream, the attempt of \<open>_execute_stream_iterator\<close> and the queue around it, which
  is the one of \<open>Failover\<close>. Nothing of one provider may be joined with another's output.
\<close>

section \<open>The event bridge\<close>

datatype 'r stream_event = Chunk 'r | StreamEnd | StreamError "'r worker_result"

text \<open>
  One round of the bridge: the cancellation flag, the clock, the event the queue gave with the
  time it was published, the flag again, and whether the consumer closes the generator when
  the chunk is yielded to it.
\<close>

record 'r stream_round =
  sr_cancelled :: bool
  sr_now :: seconds
  sr_got :: "('r stream_event \<times> seconds) option"
  sr_cancelled_after :: bool
  sr_closed :: bool

datatype stream_outcome =
    StreamFinished
  | StreamRaised py_error
  | StreamCancelled
  | StreamClosed

fun stream_error_outcome :: "'r worker_result \<Rightarrow> stream_outcome" where
  "stream_error_outcome (Failure e) = StreamRaised e"
| "stream_error_outcome CancelError = StreamCancelled"
| "stream_error_outcome _ = StreamClosed"

text \<open>
  The loop: the deadline, the idle allowance, the activity deadline, the rounds; it gives the
  yielded chunks with their times and how it ended. When the list of rounds ends, the nearer
  of the two deadlines has passed.
\<close>

fun stream_rounds ::
  "seconds \<Rightarrow> seconds \<Rightarrow> seconds \<Rightarrow> 'r stream_round list \<Rightarrow> ('r \<times> seconds) list \<times> stream_outcome" where
  "stream_rounds deadline idle activity [] = ([], StreamRaised deadline_error)"
| "stream_rounds deadline idle activity (p # ps) =
     (if sr_cancelled p then ([], StreamCancelled)
      else if min deadline activity - sr_now p \<le> 0 then ([], StreamRaised deadline_error)
      else (case sr_got p of
              None \<Rightarrow> stream_rounds deadline idle activity ps
            | Some (ev, received_at) \<Rightarrow>
                (if sr_cancelled_after p then ([], StreamCancelled)
                 else if deadline < received_at then ([], StreamRaised deadline_error)
                 else (case ev of
                         StreamError v \<Rightarrow> ([], stream_error_outcome v)
                       | StreamEnd \<Rightarrow> ([], StreamFinished)
                       | Chunk c \<Rightarrow>
                           (if sr_closed p then ([(c, received_at)], StreamClosed)
                            else (case stream_rounds deadline idle (min deadline (received_at + idle)) ps of
                                    (cs, out) \<Rightarrow> ((c, received_at) # cs, out)))))))"

definition stream_adapter_events ::
  "seconds \<Rightarrow> seconds \<Rightarrow> seconds \<Rightarrow> seconds \<Rightarrow> 'r stream_round list
    \<Rightarrow> ('r \<times> seconds) list \<times> stream_outcome" where
  "stream_adapter_events deadline first_byte_timeout idle start rounds =
     stream_rounds deadline idle (min deadline (start + first_byte_timeout)) rounds"

section \<open>The attempt of a stream\<close>

definition first_byte_timeout :: "backend_config option \<Rightarrow> seconds" where
  "first_byte_timeout c =
     be_stream_first_byte_timeout_seconds (case c of Some b \<Rightarrow> b | None \<Rightarrow> default_backend [])"

definition idle_timeout :: "backend_config option \<Rightarrow> seconds" where
  "idle_timeout c =
     be_stream_idle_timeout_seconds (case c of Some b \<Rightarrow> b | None \<Rightarrow> default_backend [])"

record 'r stream_env =
  se_started :: seconds
  se_bridge_start :: seconds
  se_rounds :: "'r stream_round list"
  se_completed :: seconds
  se_fail :: fail_env

definition first_byte_at :: "('r \<times> seconds) list \<Rightarrow> seconds option" where
  "first_byte_at chunks = (case chunks of [] \<Rightarrow> None | (c, t) # _ \<Rightarrow> Some t)"

definition emit :: "string \<Rightarrow> ('r \<times> seconds) list \<Rightarrow> 'r exec_state \<Rightarrow> 'r exec_state" where
  "emit name chunks s = s\<lparr>ex_output := ex_output s @ map (\<lambda>(c, t). (name, c)) chunks\<rparr>"

definition stream_attempt ::
  "'r exec_call \<Rightarrow> backend_config option \<Rightarrow> string \<Rightarrow> nat \<Rightarrow> 'r stream_env
    \<Rightarrow> 'r exec_state \<Rightarrow> 'r exec_state \<times> 'r verdict" where
  "stream_attempt call backend name i e s =
     (if xc_deadline call \<le> se_started e then (s, StopFailover)
      else
        (let (chunks, out) = stream_adapter_events (xc_deadline call) (first_byte_timeout backend)
               (idle_timeout backend) (se_bridge_start e) (se_rounds e);
             s1 = emit name chunks s;
             fb = first_byte_at chunks
         in case out of
              StreamFinished \<Rightarrow>
                (let s2 = with_breaker name (record_success (se_completed e)) s1
                 in (add_attempt (new_attempt (xc_model call) name i None (se_started e) fb
                       (se_completed e) s2) s2, Finish StreamDone))
            | StreamCancelled \<Rightarrow>
                attempt_cancelled call name i (se_started e) fb (fe_completed (se_fail e)) s1
            | StreamRaised err \<Rightarrow>
                attempt_failed call backend name i (se_started e) fb err (se_fail e) s1
            | StreamClosed \<Rightarrow> (s1, Finish Aborted)))"

text \<open>\<open>execute_stream\<close>: the entry checks and the deadline, then the queue.\<close>

definition stream_exec_call ::
  "backend_config list \<Rightarrow> chat_call \<Rightarrow> adapter list \<Rightarrow> seconds \<Rightarrow> 'r exec_call" where
  "stream_exec_call backends c candidates started =
     \<lparr>xc_model = cc_model c, xc_backends = backends, xc_max_retries = cc_max_retries c,
      xc_retry_delay = cc_retry_delay c,
      xc_deadline = exec_deadline stream_timeout backends candidates (cc_deadline_seconds c) started,
      xc_policy = (\<lambda>_ r. r)\<rparr>"

definition execute_stream ::
  "backend_config list \<Rightarrow> chat_call \<Rightarrow> adapter list \<Rightarrow> bool \<Rightarrow> seconds
    \<Rightarrow> (nat \<Rightarrow> 'r stream_env provider_env) \<Rightarrow> 'r exec_state \<Rightarrow> 'r exec_state \<times> 'r exec_result" where
  "execute_stream backends c candidates cancelled started env s0 =
     (let s = s0\<lparr>ex_attempts := [], ex_last_error := None, ex_output := []\<rparr>
      in if cancelled then (s, RequestCancelled)
         else if candidates = [] then (s, FailoverFailed None)
         else provider_loop stream_attempt (stream_exec_call backends c candidates started) env 0
                candidates s)"

section \<open>The contract of the attempt\<close>

definition stream_good :: "seconds \<Rightarrow> provider_attempt \<Rightarrow> bool" where
  "stream_good deadline a \<longleftrightarrow> at_started_at a < deadline"

lemma emit_fields [simp]:
  "ex_attempts (emit name cs s) = ex_attempts s"
  "breakers_ok (emit name cs s) = breakers_ok s"
  "ex_output (emit name cs s) = ex_output s @ map (Pair name) (map fst cs)"
  "ex_breakers (emit name cs s) = ex_breakers s"
  by (auto simp: emit_def breakers_ok_def)

lemma stream_attempt_cases:
  assumes "stream_attempt call backend name i e s = (s', v)"
  obtains (late) "s' = s" "v = StopFailover"
  | (failed) chunks err where "se_started e < xc_deadline call"
      "attempt_failed call backend name i (se_started e) (first_byte_at chunks) err (se_fail e)
         (emit name chunks s) = (s', v)"
  | (cancelled) chunks where "se_started e < xc_deadline call"
      "attempt_cancelled call name i (se_started e) (first_byte_at chunks)
         (fe_completed (se_fail e)) (emit name chunks s) = (s', v)"
  | (closed) chunks where "s' = emit name chunks s" "v = Finish Aborted"
  | (finished) chunks s2 where "se_started e < xc_deadline call"
      "s2 = with_breaker name (record_success (se_completed e)) (emit name chunks s)"
      "s' = add_attempt (new_attempt (xc_model call) name i None (se_started e)
              (first_byte_at chunks) (se_completed e) s2) s2"
      "v = Finish StreamDone"
proof (cases "xc_deadline call \<le> se_started e")
  case True
  with assms show thesis by (intro late) (simp_all add: stream_attempt_def)
next
  case False
  then have st: "se_started e < xc_deadline call" by simp
  obtain chunks out where ev: "stream_adapter_events (xc_deadline call) (first_byte_timeout backend)
      (idle_timeout backend) (se_bridge_start e) (se_rounds e) = (chunks, out)"
    by fastforce
  show thesis
  proof (cases out)
    case StreamFinished
    with assms False ev show thesis
      by (intro finished [OF st refl, of chunks]) (simp_all add: stream_attempt_def Let_def)
  next
    case (StreamRaised err)
    with assms False ev show thesis
      by (intro failed [OF st, of chunks]) (simp add: stream_attempt_def Let_def)
  next
    case StreamCancelled
    with assms False ev show thesis
      by (intro cancelled [OF st, of chunks]) (simp add: stream_attempt_def Let_def)
  next
    case StreamClosed
    with assms False ev show thesis
      by (intro closed [of chunks]) (simp_all add: stream_attempt_def Let_def)
  qed
qed

lemma first_byte_None [simp]: "first_byte_at chunks = None \<longleftrightarrow> chunks = []"
  by (auto simp: first_byte_at_def split: list.split)

interpretation stream_queue: executor_attempt stream_attempt stream_good
proof
  fix call :: "'a exec_call" and backend name i e s s' v
  assume at: "stream_attempt call backend name i e s = (s', v)"
  show "\<exists>new. ex_attempts s' = ex_attempts s @ new \<and>
      attempt_ok name i (length (ex_attempts s)) (goes_on v) (verdict_delivers v)
        (stream_good (xc_deadline call)) new"
    using at
  proof (cases rule: stream_attempt_cases)
    case (failed chunks err)
    from attempt_failed_log [OF failed(2)] failed(1) show ?thesis
      by (auto simp: attempt_ok_def stream_good_def)
  next
    case (cancelled chunks)
    from attempt_cancelled_log [OF cancelled(2)] cancelled(1) show ?thesis
      by (auto simp: attempt_ok_def stream_good_def)
  qed (auto simp: attempt_ok_def stream_good_def)
  show "\<exists>cs. ex_output s' = ex_output s @ map (Pair name) cs \<and> (goes_on v \<longrightarrow> cs = [])"
    using at
  proof (cases rule: stream_attempt_cases)
    case (failed chunks err)
    from attempt_failed_other [OF failed(2)] show ?thesis
      by (intro exI [of _ "map fst chunks"]) auto
  next
    case (cancelled chunks)
    from attempt_cancelled_other [OF cancelled(2)] attempt_cancelled_log [OF cancelled(2)]
    show ?thesis by (intro exI [of _ "map fst chunks"]) auto
  next
    case (closed chunks)
    then show ?thesis by (intro exI [of _ "map fst chunks"]) simp
  next
    case (finished chunks s2)
    then show ?thesis by (intro exI [of _ "map fst chunks"]) simp
  qed simp
  show "breakers_ok s \<Longrightarrow> breakers_ok s'"
    using at
    by (cases rule: stream_attempt_cases)
      (auto dest: attempt_failed_other attempt_cancelled_other
        intro: with_breaker_ok record_success_inv)
qed

section \<open>Properties\<close>

lemma execute_stream_loop:
  "execute_stream backends c candidates cancelled started env s0 =
     (if cancelled then (chat_start s0, RequestCancelled)
      else if candidates = [] then (chat_start s0, FailoverFailed None)
      else provider_loop stream_attempt (stream_exec_call backends c candidates started) env 0
             candidates (chat_start s0))"
  by (simp add: execute_stream_def chat_start_def)

lemma execute_stream_log:
  assumes "execute_stream backends c candidates cancelled started env s0 = (s', r)"
  shows "run_log stream_good (stream_exec_call backends c candidates started :: 'r exec_call) 0
           candidates 0 (delivers (r :: 'r exec_result)) (ex_attempts s')"
proof (cases "cancelled \<or> candidates = []")
  case True
  with assms show ?thesis
    by (auto simp: execute_stream_loop chat_start_def run_log_def log_shape_Nil split: if_splits)
next
  case False
  with assms have "provider_loop stream_attempt (stream_exec_call backends c candidates started)
      env 0 candidates (chat_start s0) = (s', r)"
    by (simp add: execute_stream_loop)
  from stream_queue.provider_loop_log [OF this] show ?thesis by (simp add: chat_start_def)
qed

text \<open>The output of different providers is never joined: whatever the providers send and
  wherever they fail, all chunks a consumer receives from one stream come from one provider.\<close>

theorem stream_has_one_source:
  "\<exists>p cs. ex_output (fst (execute_stream backends c candidates cancelled started env s0)) =
     map (Pair p) cs"
proof (cases "cancelled \<or> candidates = []")
  case True
  then show ?thesis by (auto simp: execute_stream_loop chat_start_def intro: exI [of _ "[]"])
next
  case False
  obtain s' r where e: "provider_loop stream_attempt (stream_exec_call backends c candidates started)
      env 0 candidates (chat_start s0) = (s', r)"
    by fastforce
  from stream_queue.provider_loop_output [OF e] False show ?thesis
    by (simp add: execute_stream_loop e, simp add: chat_start_def)
qed

text \<open>C24. A stream that has produced output is not replayed: every attempt but the last failed
  for a retryable reason before its first byte or was skipped; the attempts are bounded by the
  configured tries; and one is successful exactly when the stream ran to its end.\<close>

theorem stream_not_replayed_after_output:
  "let (s', r) = execute_stream backends c candidates cancelled started env s0;
       attempts = ex_attempts s'
   in list_all replayable (butlast attempts) \<and>
      length attempts \<le> attempt_bound (stream_exec_call backends c candidates started :: 'r exec_call) 0 candidates \<and>
      ((\<exists>a\<in>set attempts. at_success a) \<longleftrightarrow> delivers (r :: 'r exec_result))"
proof -
  obtain s' r where e: "execute_stream backends c candidates cancelled started env s0 =
      (s', r :: 'r exec_result)"
    by fastforce
  from execute_stream_log [OF e] show ?thesis by (simp add: e run_log_def log_shape_def)
qed

text \<open>The chunks come from the rounds in order, each published by the deadline and seen in a
  round that began before the deadline and before the activity deadline then in force.\<close>

fun spaced :: "seconds \<Rightarrow> seconds \<Rightarrow> seconds \<Rightarrow> ('r \<times> seconds) list \<Rightarrow> 'r stream_round list \<Rightarrow> bool" where
  "spaced deadline idle activity [] rounds = True"
| "spaced deadline idle activity ((c, t) # cs) rounds =
     (t \<le> deadline \<and>
      (\<exists>pre p post. rounds = pre @ p # post \<and> sr_got p = Some (Chunk c, t) \<and>
         sr_now p < min deadline activity \<and>
         spaced deadline idle (min deadline (t + idle)) cs post))"

lemma spaced_Cons_round: "spaced deadline idle activity cs ps \<Longrightarrow> spaced deadline idle activity cs (p # ps)"
  by (cases cs) (auto, metis append_Cons)

lemma spaced_first:
  assumes "sr_got p = Some (Chunk c, t)" "t \<le> deadline" "sr_now p < min deadline activity"
    and "spaced deadline idle (min deadline (t + idle)) cs ps"
  shows "spaced deadline idle activity ((c, t) # cs) (p # ps)"
proof -
  have "p # ps = [] @ p # ps" by simp
  with assms show ?thesis unfolding spaced.simps(2) by blast
qed

lemma stream_rounds_spaced:
  "spaced deadline idle activity (fst (stream_rounds deadline idle activity rounds)) rounds"
proof (induction rounds arbitrary: activity)
  case (Cons p ps)
  show ?case
  proof (cases "sr_cancelled p \<or> min deadline activity \<le> sr_now p")
    case True
    then show ?thesis by auto
  next
    case False
    then have now: "sr_now p < min deadline activity" by auto
    show ?thesis
    proof (cases "sr_got p")
      case None
      with False Cons.IH [of activity] show ?thesis
        by (simp add: spaced_Cons_round del: spaced.simps)
    next
      case (Some et)
      then obtain ev t where got: "sr_got p = Some (ev, t)" by (cases et) auto
      show ?thesis
      proof (cases "\<exists>c. ev = Chunk c \<and> \<not> sr_cancelled_after p \<and> t \<le> deadline")
        case True
        then obtain c where ev: "ev = Chunk c" and ok: "\<not> sr_cancelled_after p" "t \<le> deadline" by blast
        have first: "spaced deadline idle activity ((c, t) # cs) (p # ps)"
          if "spaced deadline idle (min deadline (t + idle)) cs ps" for cs
          using that by (intro spaced_first) (use got ev ok now in auto)
        obtain cs out where rest: "stream_rounds deadline idle (min deadline (t + idle)) ps = (cs, out)"
          by fastforce
        have "fst (stream_rounds deadline idle activity (p # ps)) = (if sr_closed p then [(c, t)] else (c, t) # cs)"
          using False now got ev ok rest by auto
        with first [of "[]"] first [of cs] Cons.IH [of "min deadline (t + idle)"] rest
        show ?thesis by (simp del: spaced.simps(2))
      next
        case no: False
        then have "fst (stream_rounds deadline idle activity (p # ps)) = []"
          using False got by (auto split: stream_event.split)
        then show ?thesis by simp
      qed
    qed
  qed
qed simp

text \<open>The stream timeouts hold chunk by chunk: a chunk is delivered only if it was published
  by the total deadline and taken before the activity deadline, which is the first-byte
  timeout after the start for the first chunk and the idle timeout after the previous chunk
  for the others.\<close>

theorem stream_chunks_in_time:
  "spaced deadline idle (min deadline (start + first_byte))
     (fst (stream_adapter_events deadline first_byte idle start rounds)) rounds"
  by (simp add: stream_adapter_events_def stream_rounds_spaced)

section \<open>Combining the chunks\<close>

text \<open>The provider whose settings and prices apply (\<open>_final_provider\<close>): the last successful
  attempt's, else the last attempt's.\<close>

definition final_provider :: "provider_attempt list \<Rightarrow> string \<Rightarrow> string" where
  "final_provider attempts fallback =
     (case filter at_success (rev attempts) of
        a # _ \<Rightarrow> at_provider a
      | [] \<Rightarrow> (if attempts = [] then fallback else at_provider (last attempts)))"

text \<open>The provider a chat is accounted to is the one that answered: after a delivered reply
  it is the provider of the last attempt.\<close>

theorem accounted_to_the_deliverer:
  assumes "delivers (snd (execute_stream backends c candidates cancelled started env s0))"
  defines "attempts \<equiv> ex_attempts (fst (execute_stream backends c candidates cancelled started env s0))"
  shows "attempts \<noteq> [] \<and> final_provider attempts fallback = at_provider (last attempts)"
proof -
  obtain s' r where e: "execute_stream backends c candidates cancelled started env s0 = (s', r)"
    by fastforce
  from execute_stream_log [OF e] assms(1) have l: "attempts \<noteq> []" "at_success (last attempts)"
    by (simp_all add: e run_log_def log_shape_def attempts_def)
  then obtain as a where "attempts = as @ [a]" by (cases attempts rule: rev_cases) auto
  with l show ?thesis by (simp add: final_provider_def)
qed

definition stream_answer :: "seconds \<Rightarrow> string stream_env" where
  "stream_answer t =
     \<lparr>se_started = t, se_bridge_start = t,
      se_rounds = [\<lparr>sr_cancelled = False, sr_now = t, sr_got = Some (Chunk ''hi'', t),
                    sr_cancelled_after = False, sr_closed = False\<rparr>,
                   \<lparr>sr_cancelled = False, sr_now = t, sr_got = Some (StreamEnd, t),
                    sr_cancelled_after = False, sr_closed = False\<rparr>],
      se_completed = t, se_fail = idle_fail\<rparr>"

definition stream_provider_at :: "seconds \<Rightarrow> string stream_env provider_env" where
  "stream_provider_at t = \<lparr>pe_cancelled = False, pe_acquire_at = t, pe_skip_started = t,
     pe_skip_completed = t, pe_attempt = (\<lambda>_. stream_answer t)\<rparr>"

theorem accounted_to_the_deliverer_witness:
  "final_provider (ex_attempts (fst (execute_stream two_backends ten_second_call two_adapters False 0
     (\<lambda>_. stream_provider_at 1) half_open_state))) ''?'' = ''p''"
proof -
  have d: "snd (execute_stream two_backends ten_second_call two_adapters False 0
     (\<lambda>_. stream_provider_at 1) half_open_state) = StreamDone \<and>
     map at_provider (ex_attempts (fst (execute_stream two_backends ten_second_call two_adapters False 0
     (\<lambda>_. stream_provider_at 1) half_open_state))) = [''p'']"
    by (simp add: execute_stream_def two_adapters_def stream_provider_at_def Let_def
        stream_exec_call_def exec_deadline_def ten_second_call_def provider_name_def
        acquire_provider_def half_open_state_def two_backends_def find_backend_def table_simps
        default_backend_def breaker_for_def new_breaker_def acquire_def stream_answer_def
        provider_retries_def stream_attempt_def stream_adapter_events_def first_byte_timeout_def
        idle_timeout_def first_byte_at_def ensure_breaker_def alist_setdefault_def)
  then have "delivers (snd (execute_stream two_backends ten_second_call two_adapters False 0
     (\<lambda>_. stream_provider_at 1) half_open_state))" by simp
  from accounted_to_the_deliverer [OF this, of "''?''"] d show ?thesis
    by (metis last_map last_ConsL)
qed

end
