(* ===== verification/Outbox_Core.thy ===== *)
theory Outbox_Core
  imports Kirara_Prelude "HOL-Library.Product_Lexorder"
begin

text \<open>
  The part the durable outboxes of the OneBot, Telegram and QQ bot adapters have in common:
  a table of deliveries, the loop that sends one of them (\<open>_deliver_one\<close>), the loop that sends
  everything queued for a recipient up to a target (\<open>_deliver_recipient_through\<close>), and the
  contract \<open>page_outbox\<close> from which the delivery guarantees follow.

  A transaction of the code is one update of the table. The per-recipient lock makes the
  deliveries of a recipient sequential, and rows of different recipients do not affect each
  other, so a history is a sequence of calls. What the network and the scheduler do is a list
  of events consumed one per attempt; an exhausted list is \<open>None\<close>. The log records each
  attempt with the status the row had while the sender was running.
\<close>

section \<open>Rows\<close>

datatype status =
    Queued
  | Uploading
  | Uploaded
  | Sending
  | Accepted
  | RetryWait
  | Ambiguous
  | DeadLetter

definition terminal :: "status \<Rightarrow> bool" where
  "terminal st \<longleftrightarrow> st \<in> {Accepted, Ambiguous, DeadLetter}"

definition pending :: "status \<Rightarrow> bool" where
  "pending st \<longleftrightarrow> st \<in> {Queued, RetryWait, Uploaded}"

lemma terminal_simps [simp]:
  "terminal Accepted" "terminal Ambiguous" "terminal DeadLetter" "\<not> terminal Queued"
  "\<not> terminal Uploading" "\<not> terminal Uploaded" "\<not> terminal Sending" "\<not> terminal RetryWait"
  by (simp_all add: terminal_def)

lemma pending_simps [simp]:
  "pending Queued" "pending RetryWait" "pending Uploaded" "\<not> pending Sending" "\<not> pending Uploading"
  "\<not> pending Accepted" "\<not> pending Ambiguous" "\<not> pending DeadLetter"
  by (simp_all add: pending_def)

lemma terminal_not: "terminal st \<Longrightarrow> \<not> pending st \<and> st \<noteq> Uploading \<and> st \<noteq> Sending"
  by (cases st) auto

record delivery =
  dl_id :: string
  dl_recipient :: string
  dl_sequence :: nat
  dl_action :: string
  dl_params :: string
  dl_status :: status
  dl_attempts :: nat
  dl_upstream_accepted :: bool
  dl_client_received :: "bool option"
  dl_response :: "string option"
  dl_last_error :: "string option"
  dl_created_at :: seconds
  dl_updated_at :: seconds
  dl_accepted_at :: "seconds option"
  dl_ambiguous_at :: "seconds option"

text \<open>\<open>error[:2000]\<close> and \<open>(error or default)[:2000]\<close>.\<close>

definition error_text :: "string \<Rightarrow> string \<Rightarrow> string" where
  "error_text fallback error = take 2000 (if error = [] then fallback else error)"

text \<open>\<open>scalar_one\<close> on a lookup by id: exactly one row, or an error.\<close>

definition the_row :: "string \<Rightarrow> 'm delivery_scheme list \<Rightarrow> 'm delivery_scheme option" where
  "the_row did rows = (case filter (\<lambda>r. dl_id r = did) rows of [r] \<Rightarrow> Some r | _ \<Rightarrow> None)"

text \<open>The next value of \<open>recipient_sequence\<close>: \<open>int(max or 0) + 1\<close>.\<close>

definition next_sequence :: "string \<Rightarrow> 'm delivery_scheme list \<Rightarrow> nat" where
  "next_sequence recipient rows =
     foldr max (map dl_sequence (filter (\<lambda>r. dl_recipient r = recipient) rows)) 0 + 1"

text \<open>The first row by sequence among those that satisfy a condition (\<open>order_by ... limit 1\<close>).\<close>

definition first_where :: "('m delivery_scheme \<Rightarrow> bool) \<Rightarrow> 'm delivery_scheme list \<Rightarrow> 'm delivery_scheme option" where
  "first_where P rows =
     (case sort_key dl_sequence (filter P rows) of [] \<Rightarrow> None | r # _ \<Rightarrow> Some r)"

definition blocker_of :: "'m delivery_scheme \<Rightarrow> 'm delivery_scheme list \<Rightarrow> 'm delivery_scheme option" where
  "blocker_of target rows =
     first_where (\<lambda>r. dl_recipient r = dl_recipient target \<and> dl_sequence r < dl_sequence target \<and>
        dl_status r \<noteq> Accepted) rows"

definition next_pending :: "'m delivery_scheme \<Rightarrow> 'm delivery_scheme list \<Rightarrow> 'm delivery_scheme option" where
  "next_pending target rows =
     first_where (\<lambda>r. dl_recipient r = dl_recipient target \<and> dl_sequence r \<le> dl_sequence target \<and>
        pending (dl_status r)) rows"

text \<open>\<open>pending_delivery_ids\<close> and the count of one status, over the rows of a service.\<close>

definition pending_ids :: "('m delivery_scheme \<Rightarrow> bool) \<Rightarrow> 'm delivery_scheme list \<Rightarrow> string list" where
  "pending_ids own rows =
     map dl_id (sort_key (\<lambda>r. (dl_recipient r, dl_sequence r))
       (filter (\<lambda>r. own r \<and> pending (dl_status r)) rows))"

definition status_count :: "('m delivery_scheme \<Rightarrow> bool) \<Rightarrow> status \<Rightarrow> 'm delivery_scheme list \<Rightarrow> nat" where
  "status_count own st rows = length (filter (\<lambda>r. own r \<and> dl_status r = st) rows)"

section \<open>The delivery loops\<close>

datatype deliver_error = NoSuchDelivery | DeliveryCancelled | ProcessDied

text \<open>How an attempt ends: settled (the row is returned), tried again, interrupted (the
  cancellation goes on to the caller), or the process dies before the result is recorded.\<close>

datatype flow = Settled | TryAgain | Interrupted | Died

record ('a, 'd, 'o) outbox_ops =
  op_make :: "'a \<Rightarrow> 'd option"
  op_wait_cancelled :: "'o \<Rightarrow> 'd \<Rightarrow> bool"
  op_begin :: "'o \<Rightarrow> 'd \<Rightarrow> 'd"
  op_settle :: "nat \<Rightarrow> 'o \<Rightarrow> 'd \<Rightarrow> 'd \<times> flow"
  op_recover :: "seconds \<Rightarrow> 'd \<Rightarrow> 'd"

record ('d, 'o) outbox =
  ob_rows :: "'d list"
  ob_log :: "(string \<times> status \<times> 'o) list"

text \<open>One attempt on a row that is not terminal: the row is marked and committed, the sender
  runs, the row is looked up again and the outcome recorded.\<close>

definition row_after ::
  "('a, 'm delivery_scheme, 'o) outbox_ops \<Rightarrow> nat \<times> 'o \<Rightarrow> 'm delivery_scheme \<Rightarrow> 'm delivery_scheme" where
  "row_after ops mw r = fst (op_settle ops (fst mw) (snd mw) (op_begin ops (snd mw) r))"

definition flow_after ::
  "('a, 'm delivery_scheme, 'o) outbox_ops \<Rightarrow> nat \<times> 'o \<Rightarrow> 'm delivery_scheme \<Rightarrow> flow" where
  "flow_after ops mw r = snd (op_settle ops (fst mw) (snd mw) (op_begin ops (snd mw) r))"

definition attempt_row ::
  "('a, 'm delivery_scheme, 'o) outbox_ops \<Rightarrow> nat \<Rightarrow> 'm delivery_scheme \<Rightarrow> 'o
    \<Rightarrow> ('m delivery_scheme, 'o) outbox \<Rightarrow> ('m delivery_scheme, 'o) outbox" where
  "attempt_row ops mx r w s =
     s\<lparr>ob_rows := update_row dl_id (dl_id r) (row_after ops (mx, w)) (ob_rows s),
       ob_log := ob_log s @ [(dl_id r, dl_status (op_begin ops w r), w)]\<rparr>"

fun deliver_one ::
  "('a, 'm delivery_scheme, 'o) outbox_ops \<Rightarrow> nat \<Rightarrow> string \<Rightarrow> 'o list \<Rightarrow> ('m delivery_scheme, 'o) outbox
    \<Rightarrow> ((deliver_error + 'm delivery_scheme) \<times> ('m delivery_scheme, 'o) outbox \<times> 'o list) option" where
  "deliver_one ops mx did [] s =
     (case the_row did (ob_rows s) of
        None \<Rightarrow> Some (Inl NoSuchDelivery, s, [])
      | Some r \<Rightarrow> (if terminal (dl_status r) then Some (Inr r, s, []) else None))"
| "deliver_one ops mx did (w # ws) s =
     (case the_row did (ob_rows s) of
        None \<Rightarrow> Some (Inl NoSuchDelivery, s, w # ws)
      | Some r \<Rightarrow>
          (if terminal (dl_status r) then Some (Inr r, s, w # ws)
           else if op_wait_cancelled ops w r then Some (Inl DeliveryCancelled, s, ws)
           else
             (let s' = attempt_row ops mx r w s
              in case flow_after ops (mx, w) r of
                   Settled \<Rightarrow> Some (Inr (row_after ops (mx, w) r), s', ws)
                 | TryAgain \<Rightarrow> deliver_one ops mx did ws s'
                 | Interrupted \<Rightarrow> Some (Inl DeliveryCancelled, s', ws)
                 | Died \<Rightarrow> Some (Inl ProcessDied, s', ws))))"

text \<open>The events left are a suffix: fewer ones, when the row was not terminal.\<close>

lemma deliver_one_rest:
  "deliver_one ops mx did ws s = Some (res, s', ws') \<Longrightarrow> length ws' \<le> length ws"
  by (induction ops mx did ws s rule: deliver_one.induct)
     (auto simp: Let_def le_SucI split: option.splits if_splits flow.splits)

lemma deliver_one_consumes:
  assumes "deliver_one ops mx did ws s = Some (res, s', ws')" "the_row did (ob_rows s) = Some r"
    and "\<not> terminal (dl_status r)"
  shows "length ws' < length ws"
proof (cases ws)
  case Nil
  with assms show ?thesis by simp
next
  case (Cons w rest)
  with assms show ?thesis
    by (auto simp: Let_def split: if_splits flow.splits dest!: deliver_one_rest)
qed

lemma deliver_one_found:
  "deliver_one ops mx did ws s = Some (Inr r, s', ws') \<Longrightarrow> \<exists>r0. the_row did (ob_rows s) = Some r0"
  by (cases ws) (auto split: option.splits)

lemma first_where_SomeD: "first_where P rows = Some r \<Longrightarrow> r \<in> set rows \<and> P r"
proof -
  assume "first_where P rows = Some r"
  then obtain rs where "sort_key dl_sequence (filter P rows) = r # rs"
    by (auto simp: first_where_def split: list.splits)
  then have "r \<in> set (sort_key dl_sequence (filter P rows))" by simp
  then show ?thesis by simp
qed

text \<open>
  The loop over the recipient's queue; \<open>target\<close> is the row as it was read by \<open>deliver\<close>.
\<close>

function (sequential) deliver_through ::
  "('a, 'm delivery_scheme, 'o) outbox_ops \<Rightarrow> nat \<Rightarrow> 'm delivery_scheme \<Rightarrow> 'o list \<Rightarrow> ('m delivery_scheme, 'o) outbox
    \<Rightarrow> ((deliver_error + 'm delivery_scheme) \<times> ('m delivery_scheme, 'o) outbox \<times> 'o list) option" where
  "deliver_through ops mx target ws s =
     (case the_row (dl_id target) (ob_rows s) of
        None \<Rightarrow> Some (Inl NoSuchDelivery, s, ws)
      | Some now \<Rightarrow>
          (if terminal (dl_status now) then Some (Inr now, s, ws)
           else if (case blocker_of target (ob_rows s) of
                      None \<Rightarrow> False | Some b \<Rightarrow> dl_status b \<in> {Ambiguous, DeadLetter})
           then Some (Inr now, s, ws)
           else (case next_pending target (ob_rows s) of
                   None \<Rightarrow> Some (Inr now, s, ws)
                 | Some nx \<Rightarrow>
                     (case deliver_one ops mx (dl_id nx) ws s of
                        None \<Rightarrow> None
                      | Some (Inl err, s', ws') \<Rightarrow> Some (Inl err, s', ws')
                      | Some (Inr r, s', ws') \<Rightarrow>
                          (if dl_status r = Accepted then deliver_through ops mx target ws' s'
                           else Some (Inr r, s', ws'))))))"
  by pat_completeness auto

lemma the_row_filter: "the_row did rows = Some r \<longleftrightarrow> filter (\<lambda>r. dl_id r = did) rows = [r]"
  by (auto simp: the_row_def split: list.splits)

lemma the_row_unique:
  assumes "the_row did rows = Some r" "x \<in> set rows" "dl_id x = did"
  shows "x = r"
proof -
  have "x \<in> set (filter (\<lambda>r. dl_id r = did) rows)" using assms by simp
  then show ?thesis using assms(1) unfolding the_row_filter by simp
qed

lemma the_row_SomeD: "the_row did rows = Some r \<Longrightarrow> r \<in> set rows \<and> dl_id r = did"
proof -
  assume "the_row did rows = Some r"
  then have "r \<in> set (filter (\<lambda>r. dl_id r = did) rows)" by (simp add: the_row_filter)
  then show ?thesis by simp
qed

termination deliver_through
proof (relation "measure (\<lambda>(ops, mx, target, ws, s). length ws)")
  fix ops :: "('a, 'm delivery_scheme, 'o) outbox_ops" and mx :: nat and target ws
    and s :: "('m delivery_scheme, 'o) outbox" and now nx res p q r s' ws'
  assume nx: "next_pending target (ob_rows s) = Some nx"
    and d: "deliver_one ops mx (dl_id nx) ws s = Some res"
    "(p, q) = res" "p = Inr r" "(s', ws') = q"
  then have d': "deliver_one ops mx (dl_id nx) ws s = Some (Inr r, s', ws')" by auto
  then obtain nx' where nx': "the_row (dl_id nx) (ob_rows s) = Some nx'"
    using deliver_one_found by blast
  have "nx \<in> set (ob_rows s) \<and> pending (dl_status nx)"
    using first_where_SomeD [OF nx [unfolded next_pending_def]] by simp
  then have "nx' = nx" "\<not> terminal (dl_status nx)"
    using the_row_unique [OF nx'] by (auto simp: pending_def)
  then show "((ops, mx, target, ws', s'), (ops, mx, target, ws, s))
      \<in> measure (\<lambda>(ops, mx, target, ws, s). length ws)"
    using deliver_one_consumes [OF d'] nx' by auto
qed simp

declare deliver_through.simps [simp del]

section \<open>Calls and histories\<close>

text \<open>\<open>enqueue\<close> after its argument checks: an existing row is returned as it is.\<close>

definition enqueue_row ::
  "'m delivery_scheme \<Rightarrow> 'm delivery_scheme list \<Rightarrow> 'm delivery_scheme \<times> 'm delivery_scheme list" where
  "enqueue_row new rows =
     (case find_row dl_id (dl_id new) rows of
        Some r \<Rightarrow> (r, rows)
      | None \<Rightarrow>
          (let r = new\<lparr>dl_sequence := next_sequence (dl_recipient new) rows\<rparr> in (r, rows @ [r])))"

definition deliver ::
  "('a, 'm delivery_scheme, 'o) outbox_ops \<Rightarrow> nat \<Rightarrow> string \<Rightarrow> 'o list \<Rightarrow> ('m delivery_scheme, 'o) outbox
    \<Rightarrow> ((deliver_error + 'm delivery_scheme) \<times> ('m delivery_scheme, 'o) outbox \<times> 'o list) option" where
  "deliver ops mx did ws s =
     (case the_row did (ob_rows s) of
        None \<Rightarrow> Some (Inl NoSuchDelivery, s, ws)
      | Some target \<Rightarrow>
          (if terminal (dl_status target) then Some (Inr target, s, ws)
           else deliver_through ops mx target ws s))"

definition recover_rows ::
  "('a, 'm delivery_scheme, 'o) outbox_ops \<Rightarrow> seconds \<Rightarrow> ('m delivery_scheme, 'o) outbox
    \<Rightarrow> ('m delivery_scheme, 'o) outbox" where
  "recover_rows ops now s = s\<lparr>ob_rows := map (op_recover ops now) (ob_rows s)\<rparr>"

text \<open>The calls an adapter makes. A process that dies in an attempt is restarted, and the start
  recovers the table before anything is sent.\<close>

datatype ('a, 'o) outbox_event =
    Enqueue 'a
  | Deliver string "'o list" seconds
  | Restart seconds

fun outbox_step ::
  "('a, 'm delivery_scheme, 'o) outbox_ops \<Rightarrow> nat \<Rightarrow> ('a, 'o) outbox_event \<Rightarrow> ('m delivery_scheme, 'o) outbox
    \<Rightarrow> ('m delivery_scheme, 'o) outbox option" where
  "outbox_step ops mx (Enqueue a) s =
     (case op_make ops a of
        None \<Rightarrow> Some s
      | Some new \<Rightarrow> Some (s\<lparr>ob_rows := snd (enqueue_row new (ob_rows s))\<rparr>))"
| "outbox_step ops mx (Deliver did ws now) s =
     (case deliver ops mx did ws s of
        None \<Rightarrow> None
      | Some (Inl ProcessDied, s', _) \<Rightarrow> Some (recover_rows ops now s')
      | Some (_, s', _) \<Rightarrow> Some s')"
| "outbox_step ops mx (Restart now) s = Some (recover_rows ops now s)"

fun outbox_run ::
  "('a, 'm delivery_scheme, 'o) outbox_ops \<Rightarrow> nat \<Rightarrow> ('a, 'o) outbox_event list \<Rightarrow> ('m delivery_scheme, 'o) outbox
    \<Rightarrow> ('m delivery_scheme, 'o) outbox option" where
  "outbox_run ops mx [] s = Some s"
| "outbox_run ops mx (e # es) s =
     (case outbox_step ops mx e s of None \<Rightarrow> None | Some s' \<Rightarrow> outbox_run ops mx es s')"

definition empty_outbox :: "('d, 'o) outbox" where
  "empty_outbox = \<lparr>ob_rows = [], ob_log = []\<rparr>"

section \<open>The guarantees\<close>

text \<open>The outcomes of the sends (not the uploads) of one delivery, in order.\<close>

definition sends :: "string \<Rightarrow> (string \<times> status \<times> 'o) list \<Rightarrow> 'o list" where
  "sends did lg = map (\<lambda>e. snd (snd e)) (filter (\<lambda>e. fst e = did \<and> fst (snd e) = Sending) lg)"

definition row_ok :: "nat \<Rightarrow> 'm delivery_scheme \<Rightarrow> bool" where
  "row_ok mx r \<longleftrightarrow> dl_attempts r \<le> mx \<and>
     (pending (dl_status r) \<or> dl_status r = Uploading \<longrightarrow> dl_attempts r < mx)"

definition quiet :: "'m delivery_scheme list \<Rightarrow> bool" where
  "quiet rows \<longleftrightarrow> (\<forall>r\<in>set rows. dl_status r \<noteq> Sending \<and> dl_status r \<noteq> Uploading)"

text \<open>Rows are unique by id and by recipient and sequence, the attempts are within the limit,
  and a row is tried only when every earlier row of its recipient has been accepted.\<close>

definition table_inv :: "nat \<Rightarrow> 'm delivery_scheme list \<Rightarrow> bool" where
  "table_inv mx rows \<longleftrightarrow>
     distinct (map dl_id rows) \<and>
     distinct (map (\<lambda>r. (dl_recipient r, dl_sequence r)) rows) \<and>
     (\<forall>r\<in>set rows. row_ok mx r) \<and>
     (\<forall>r\<in>set rows. \<forall>q\<in>set rows. dl_recipient q = dl_recipient r \<longrightarrow> dl_sequence q < dl_sequence r \<longrightarrow>
        0 < dl_attempts r \<longrightarrow> dl_status q = Accepted)"

text \<open>The log has one send per counted attempt, and only a refused send was followed by
  another one or leaves its row waiting.\<close>

definition log_inv ::
  "('o \<Rightarrow> bool) \<Rightarrow> 'm delivery_scheme list \<Rightarrow> (string \<times> status \<times> 'o) list \<Rightarrow> bool" where
  "log_inv refused rows lg \<longleftrightarrow>
     (\<forall>e\<in>set lg. fst e \<in> dl_id ` set rows) \<and>
     (\<forall>r\<in>set rows. length (sends (dl_id r) lg) = dl_attempts r \<and>
        list_all refused (butlast (sends (dl_id r) lg)) \<and>
        (pending (dl_status r) \<or> dl_status r = Uploading \<longrightarrow> list_all refused (sends (dl_id r) lg)))"

definition outbox_inv ::
  "('o \<Rightarrow> bool) \<Rightarrow> ('m delivery_scheme \<Rightarrow> bool) \<Rightarrow> nat \<Rightarrow> ('m delivery_scheme, 'o) outbox \<Rightarrow> bool" where
  "outbox_inv refused own mx s \<longleftrightarrow>
     table_inv mx (ob_rows s) \<and> log_inv refused (ob_rows s) (ob_log s) \<and>
     (\<forall>r\<in>set (ob_rows s). own r)"

text \<open>Every earlier row of the recipient has been accepted.\<close>

definition in_front :: "'m delivery_scheme \<Rightarrow> 'm delivery_scheme list \<Rightarrow> bool" where
  "in_front r rows \<longleftrightarrow>
     (\<forall>q\<in>set rows. dl_recipient q = dl_recipient r \<longrightarrow> dl_sequence q < dl_sequence r \<longrightarrow>
        dl_status q = Accepted)"

text \<open>Rows in a final state are kept as they are.\<close>

definition frozen :: "'m delivery_scheme list \<Rightarrow> 'm delivery_scheme list \<Rightarrow> bool" where
  "frozen rows rows' \<longleftrightarrow> (\<forall>r\<in>set rows. terminal (dl_status r) \<longrightarrow> r \<in> set rows')"

lemma frozen_refl [simp]: "frozen rows rows"
  by (simp add: frozen_def)

lemma frozen_trans: "frozen a b \<Longrightarrow> frozen b c \<Longrightarrow> frozen a c"
  by (simp add: frozen_def)

lemma sends_append:
  "sends did (lg @ [(d, st, w)]) = sends did lg @ (if d = did \<and> st = Sending then [w] else [])"
  by (simp add: sends_def)

lemma the_row_distinct:
  assumes "distinct (map dl_id rows)" "r \<in> set rows"
  shows "the_row (dl_id r) rows = Some r"
proof -
  obtain xs ys where rows: "rows = xs @ r # ys" using split_list [OF assms(2)] by blast
  with assms(1) have "\<forall>x\<in>set xs. dl_id x \<noteq> dl_id r" "\<forall>x\<in>set ys. dl_id x \<noteq> dl_id r"
    by (auto simp: image_iff)
  then have "filter (\<lambda>x. dl_id x = dl_id r) xs = []" "filter (\<lambda>x. dl_id x = dl_id r) ys = []"
    by (simp_all add: filter_empty_conv)
  then show ?thesis by (simp add: the_row_filter rows)
qed

lemma update_row_members:
  assumes "distinct (map dl_id rows)" "r \<in> set rows"
  shows "set (update_row dl_id (dl_id r) f rows) = insert (f r) (set rows - {r})"
proof -
  have "dl_id q = dl_id r \<longleftrightarrow> q = r" if "q \<in> set rows" for q
    using that assms the_row_distinct [OF assms] the_row_unique by blast
  then have "set (update_row dl_id (dl_id r) f rows) = (\<lambda>q. if q = r then f r else q) ` set rows"
    unfolding set_update_row by (intro image_cong) auto
  then show ?thesis using assms(2) by auto
qed

lemma first_where_least:
  assumes "first_where P rows = Some r" "q \<in> set rows" "P q"
  shows "dl_sequence r \<le> dl_sequence q"
proof -
  from assms(1) obtain rs where rs: "sort_key dl_sequence (filter P rows) = r # rs"
    by (auto simp: first_where_def split: list.splits)
  have "sorted (map dl_sequence (r # rs))"
    unfolding rs [symmetric] by (rule sorted_sort_key)
  moreover have "q \<in> set (r # rs)"
    unfolding rs [symmetric] using assms(2,3) by simp
  ultimately show ?thesis by auto
qed

lemma first_where_None: "first_where P rows = None \<longleftrightarrow> (\<forall>q\<in>set rows. \<not> P q)"
proof -
  have "first_where P rows = None \<longleftrightarrow> sort_key dl_sequence (filter P rows) = []"
    by (auto simp: first_where_def split: list.split)
  also have "\<dots> \<longleftrightarrow> filter P rows = []"
    by (metis set_empty set_sort)
  finally show ?thesis by (simp add: filter_empty_conv)
qed

text \<open>The row the queue sends next has only accepted rows before it, when no earlier row is in
  flight and the blocker is not final.\<close>

lemma next_in_front:
  assumes "quiet rows" "next_pending target rows = Some nx"
    and "\<not> (case blocker_of target rows of None \<Rightarrow> False | Some b \<Rightarrow> dl_status b \<in> {Ambiguous, DeadLetter})"
  shows "in_front nx rows"
  unfolding in_front_def
proof (intro ballI impI)
  fix q assume q: "q \<in> set rows" "dl_recipient q = dl_recipient nx" "dl_sequence q < dl_sequence nx"
  have nx: "nx \<in> set rows" "dl_recipient nx = dl_recipient target" "dl_sequence nx \<le> dl_sequence target"
    using first_where_SomeD [OF assms(2) [unfolded next_pending_def]] by auto
  show "dl_status q = Accepted"
  proof (rule ccontr)
    assume na: "dl_status q \<noteq> Accepted"
    have "blocker_of target rows \<noteq> None"
    proof
      assume "blocker_of target rows = None"
      then have "\<not> (dl_recipient q = dl_recipient target \<and> dl_sequence q < dl_sequence target \<and>
          dl_status q \<noteq> Accepted)"
        using q(1) unfolding blocker_of_def first_where_None by blast
      with q nx na show False by simp
    qed
    then obtain b where b: "blocker_of target rows = Some b" by blast
    have bq: "dl_sequence b \<le> dl_sequence q"
      using first_where_least [OF b [unfolded blocker_of_def], of q] q nx na by simp
    have bp: "b \<in> set rows" "dl_recipient b = dl_recipient target" "dl_status b \<noteq> Accepted"
      "dl_sequence b < dl_sequence target"
      using first_where_SomeD [OF b [unfolded blocker_of_def]] by auto
    have "dl_status b \<noteq> Ambiguous" "dl_status b \<noteq> DeadLetter" using assms(3) b by auto
    moreover have "dl_status b \<noteq> Sending" "dl_status b \<noteq> Uploading"
      using assms(1) bp(1) by (simp_all add: quiet_def)
    ultimately have "pending (dl_status b)" using bp(3) by (cases "dl_status b") auto
    then have "dl_sequence nx \<le> dl_sequence b"
      using first_where_least [OF assms(2) [unfolded next_pending_def], of b] bp by simp
    with bq q(3) show False by simp
  qed
qed

lemma next_sequence_fresh:
  "r \<in> set rows \<Longrightarrow> dl_recipient r = recipient \<Longrightarrow> dl_sequence r < next_sequence recipient rows"
  by (induction rows) (auto simp: next_sequence_def)

text \<open>
  The contract of a platform's operations. \<open>refused w\<close> says that the upstream explicitly
  refused the action in event \<open>w\<close>: the only outcome after which a send may be repeated.
  \<open>own\<close> are the rows this service created, for tables that several services share.
\<close>

locale page_outbox =
  fixes ops :: "('a, 'm delivery_scheme, 'o) outbox_ops"
    and refused :: "'o \<Rightarrow> bool"
    and own :: "'m delivery_scheme \<Rightarrow> bool"
  assumes make_fresh: "op_make ops a = Some r \<Longrightarrow> dl_status r = Queued \<and> dl_attempts r = 0 \<and>
      (\<forall>n. own (r\<lparr>dl_sequence := n\<rparr>))"
    and own_after: "own r \<Longrightarrow> own (fst (op_settle ops mx w (op_begin ops w r)))"
      "own r \<Longrightarrow> own (op_recover ops t r)"
    and begin_key: "dl_id (op_begin ops w r) = dl_id r" "dl_recipient (op_begin ops w r) = dl_recipient r"
      "dl_sequence (op_begin ops w r) = dl_sequence r"
    and begin_status: "pending (dl_status r) \<Longrightarrow>
      (dl_status (op_begin ops w r) = Sending \<and> dl_attempts (op_begin ops w r) = Suc (dl_attempts r)) \<or>
      (dl_status (op_begin ops w r) = Uploading \<and> dl_attempts (op_begin ops w r) = dl_attempts r)"
    and settle_key: "dl_id (fst (op_settle ops mx w r)) = dl_id r"
      "dl_recipient (fst (op_settle ops mx w r)) = dl_recipient r"
      "dl_sequence (fst (op_settle ops mx w r)) = dl_sequence r"
      "dl_attempts (fst (op_settle ops mx w r)) = dl_attempts r"
    and settle_sending: "dl_status r = Sending \<Longrightarrow> op_settle ops mx w r = (r', fl) \<Longrightarrow>
      (fl = Settled \<and> terminal (dl_status r')) \<or>
      (fl \<noteq> Settled \<and> fl \<noteq> Died \<and> dl_status r' = RetryWait \<and> refused w \<and> dl_attempts r < mx) \<or>
      (fl = Interrupted \<and> dl_status r' = Ambiguous) \<or>
      (fl = Died \<and> dl_status r' = Sending)"
    and settle_uploading: "pending (dl_status q) \<Longrightarrow> r = op_begin ops w q \<Longrightarrow>
      dl_status r = Uploading \<Longrightarrow> op_settle ops mx w r = (r', fl) \<Longrightarrow>
      (fl \<noteq> Died \<and> pending (dl_status r')) \<or> (fl = Settled \<and> dl_status r' = DeadLetter) \<or>
      (fl = Died \<and> dl_status r' = Uploading)"
    and recover_key: "dl_id (op_recover ops t r) = dl_id r"
      "dl_recipient (op_recover ops t r) = dl_recipient r"
      "dl_sequence (op_recover ops t r) = dl_sequence r" "dl_attempts (op_recover ops t r) = dl_attempts r"
    and recover_status: "own r \<Longrightarrow> dl_status (op_recover ops t r) =
      (if dl_status r = Sending then Ambiguous else if dl_status r = Uploading then Queued else dl_status r)"
    and recover_other: "dl_status r \<noteq> Sending \<Longrightarrow> dl_status r \<noteq> Uploading \<Longrightarrow> op_recover ops t r = r"
begin

lemma after_key [simp]:
  "dl_id (row_after ops mw r) = dl_id r"
  "dl_recipient (row_after ops mw r) = dl_recipient r"
  "dl_sequence (row_after ops mw r) = dl_sequence r"
  by (simp_all add: row_after_def settle_key begin_key)

sublocale rows: keyed_rows dl_id "row_after ops"
  by unfold_locales simp

lemma after_cases:
  assumes "pending (dl_status r)"
  obtains (sent) "dl_status (op_begin ops w r) = Sending"
      "dl_attempts (row_after ops (mx, w) r) = Suc (dl_attempts r)"
      "(flow_after ops (mx, w) r = Settled \<and> terminal (dl_status (row_after ops (mx, w) r))) \<or>
       (flow_after ops (mx, w) r \<noteq> Settled \<and> flow_after ops (mx, w) r \<noteq> Died \<and>
          dl_status (row_after ops (mx, w) r) = RetryWait \<and> refused w \<and> Suc (dl_attempts r) < mx) \<or>
       (flow_after ops (mx, w) r = Interrupted \<and> dl_status (row_after ops (mx, w) r) = Ambiguous) \<or>
       (flow_after ops (mx, w) r = Died \<and> dl_status (row_after ops (mx, w) r) = Sending)"
  | (upload) "dl_status (op_begin ops w r) = Uploading"
      "dl_attempts (row_after ops (mx, w) r) = dl_attempts r"
      "(flow_after ops (mx, w) r \<noteq> Died \<and> pending (dl_status (row_after ops (mx, w) r))) \<or>
       (flow_after ops (mx, w) r = Settled \<and> dl_status (row_after ops (mx, w) r) = DeadLetter) \<or>
       (flow_after ops (mx, w) r = Died \<and> dl_status (row_after ops (mx, w) r) = Uploading)"
proof -
  define b where "b = op_begin ops w r"
  have after: "op_settle ops mx w b = (row_after ops (mx, w) r, flow_after ops (mx, w) r)"
    by (simp add: row_after_def flow_after_def b_def)
  have att: "dl_attempts (row_after ops (mx, w) r) = dl_attempts b"
    by (simp add: row_after_def settle_key b_def)
  show thesis
  proof (cases "dl_status b = Sending")
    case True
    then have "dl_attempts b = Suc (dl_attempts r)"
      using begin_status [OF assms, of w] by (auto simp: b_def)
    with True settle_sending [OF True after] att show thesis
      by (intro sent) (simp_all add: b_def)
  next
    case False
    then have u: "dl_status b = Uploading" "dl_attempts b = dl_attempts r"
      using begin_status [OF assms, of w] by (auto simp: b_def)
    with settle_uploading [OF assms b_def u(1) after] att show thesis
      by (intro upload) (simp_all add: b_def)
  qed
qed

lemma attempt_rows:
  assumes "outbox_inv refused own mx s" "r \<in> set (ob_rows s)"
  shows "set (ob_rows (attempt_row ops mx r w s)) = insert (row_after ops (mx, w) r) (set (ob_rows s) - {r})"
  using assms by (simp add: attempt_row_def update_row_members outbox_inv_def table_inv_def)

lemma attempt_distinct:
  "map dl_id (ob_rows (attempt_row ops mx r w s)) = map dl_id (ob_rows s)"
  "map (\<lambda>r. (dl_recipient r, dl_sequence r)) (ob_rows (attempt_row ops mx r w s)) =
     map (\<lambda>r. (dl_recipient r, dl_sequence r)) (ob_rows s)"
  by (simp_all add: attempt_row_def update_row_def)

lemma other_id:
  assumes "outbox_inv refused own mx s" "r \<in> set (ob_rows s)" "q \<in> set (ob_rows s)" "q \<noteq> r"
  shows "dl_id q \<noteq> dl_id r"
proof
  assume "dl_id q = dl_id r"
  moreover have "the_row (dl_id r) (ob_rows s) = Some r"
    using assms by (intro the_row_distinct) (simp_all add: outbox_inv_def table_inv_def)
  ultimately show False using the_row_unique assms(3,4) by blast
qed

lemma attempt_inv:
  assumes inv: "outbox_inv refused own mx s" and r: "r \<in> set (ob_rows s)" "pending (dl_status r)"
    and front: "in_front r (ob_rows s)"
  shows "outbox_inv refused own mx (attempt_row ops mx r w s)"
proof -
  define s' where "s' = attempt_row ops mx r w s"
  define a where "a = row_after ops (mx, w) r"
  have rows: "set (ob_rows s') = insert a (set (ob_rows s) - {r})"
    using attempt_rows [OF inv r(1)] by (simp add: s'_def a_def)
  have key: "dl_id a = dl_id r" "dl_recipient a = dl_recipient r" "dl_sequence a = dl_sequence r"
    by (simp_all add: a_def)
  have t: "table_inv mx (ob_rows s)" and l: "log_inv refused (ob_rows s) (ob_log s)"
    and o: "\<forall>q\<in>set (ob_rows s). own q"
    using inv by (simp_all add: outbox_inv_def)
  have ok: "row_ok mx r" using t r(1) by (simp add: table_inv_def)
  have log': "ob_log s' = ob_log s @ [(dl_id r, dl_status (op_begin ops w r), w)]"
    by (simp add: s'_def attempt_row_def)
  have lr: "length (sends (dl_id r) (ob_log s)) = dl_attempts r"
    "list_all refused (sends (dl_id r) (ob_log s))"
    using l r by (auto simp: log_inv_def)
  have a_ok: "row_ok mx a"
    using r(2)
  proof (cases rule: after_cases [where mx = mx and w = w])
    case sent
    have "dl_attempts r < mx" using ok r(2) by (simp add: row_ok_def)
    with sent(2,3) show ?thesis
      unfolding row_ok_def a_def by (elim disjE conjE) (simp_all add: terminal_not)
  next
    case upload
    then show ?thesis using ok r(2) by (auto simp: row_ok_def a_def)
  qed
  have a_log: "length (sends (dl_id a) (ob_log s')) = dl_attempts a \<and>
      list_all refused (butlast (sends (dl_id a) (ob_log s'))) \<and>
      (pending (dl_status a) \<or> dl_status a = Uploading \<longrightarrow> list_all refused (sends (dl_id a) (ob_log s')))"
    using r(2)
  proof (cases rule: after_cases [where mx = mx and w = w])
    case sent
    then show ?thesis
      using lr by (auto simp: log' key sends_append a_def [symmetric] terminal_def)
  next
    case upload
    then show ?thesis
      using lr by (auto simp: log' key sends_append a_def [symmetric] list_all_iff dest: in_set_butlastD)
  qed
  have "table_inv mx (ob_rows s')"
    unfolding table_inv_def
  proof (intro conjI ballI impI)
    show "distinct (map dl_id (ob_rows s'))"
      "distinct (map (\<lambda>r. (dl_recipient r, dl_sequence r)) (ob_rows s'))"
      using t by (simp_all add: s'_def attempt_distinct table_inv_def)
    show "row_ok mx q" if "q \<in> set (ob_rows s')" for q
      using that t a_ok by (auto simp: rows table_inv_def)
    fix x q assume x: "x \<in> set (ob_rows s')" "q \<in> set (ob_rows s')" "dl_recipient q = dl_recipient x"
      "dl_sequence q < dl_sequence x" "0 < dl_attempts x"
    show "dl_status q = Accepted"
    proof (cases "q = a")
      case False
      then have q: "q \<in> set (ob_rows s)" using x(2) by (simp add: rows)
      then show ?thesis
        using x t front key by (cases "x = a") (auto simp: rows in_front_def table_inv_def)
    next
      case True
      then have "x \<in> set (ob_rows s)" using x by (auto simp: rows)
      moreover have "dl_recipient r = dl_recipient x" "dl_sequence r < dl_sequence x"
        using x key True by simp_all
      ultimately have "dl_status r = Accepted"
        using t r(1) x(5) unfolding table_inv_def by blast
      with r(2) show ?thesis by simp
    qed
  qed
  moreover have "log_inv refused (ob_rows s') (ob_log s')"
    unfolding log_inv_def
  proof (intro conjI)
    show "\<forall>e\<in>set (ob_log s'). fst e \<in> dl_id ` set (ob_rows s')"
    proof -
      have "dl_id ` set (ob_rows s') = dl_id ` set (ob_rows s)"
        unfolding set_map [symmetric] by (simp add: s'_def attempt_distinct)
      then show ?thesis using l r(1) by (simp add: log' log_inv_def)
    qed
    show "\<forall>q\<in>set (ob_rows s'). length (sends (dl_id q) (ob_log s')) = dl_attempts q \<and>
        list_all refused (butlast (sends (dl_id q) (ob_log s'))) \<and>
        (pending (dl_status q) \<or> dl_status q = Uploading \<longrightarrow> list_all refused (sends (dl_id q) (ob_log s')))"
    proof
      fix q assume q: "q \<in> set (ob_rows s')"
      show "length (sends (dl_id q) (ob_log s')) = dl_attempts q \<and>
        list_all refused (butlast (sends (dl_id q) (ob_log s'))) \<and>
        (pending (dl_status q) \<or> dl_status q = Uploading \<longrightarrow> list_all refused (sends (dl_id q) (ob_log s')))"
      proof (cases "q = a")
        case True
        with a_log show ?thesis by simp
      next
        case False
        then have q': "q \<in> set (ob_rows s)" "q \<noteq> r" using q by (auto simp: rows)
        then have "sends (dl_id q) (ob_log s') = sends (dl_id q) (ob_log s)"
          using other_id [OF inv r(1), of q] by (simp add: log' sends_append)
        with l q'(1) show ?thesis by (simp add: log_inv_def)
      qed
    qed
  qed
  moreover have "\<forall>q\<in>set (ob_rows s'). own q"
    using o r(1) own_after(1) [of r mx w] by (auto simp: rows a_def row_after_def)
  ultimately show ?thesis by (simp add: outbox_inv_def s'_def)
qed

lemma attempt_front:
  assumes "outbox_inv refused own mx s" "r \<in> set (ob_rows s)" "in_front r (ob_rows s)"
  shows "in_front (row_after ops (mx, w) r) (ob_rows (attempt_row ops mx r w s))"
  using assms attempt_rows [OF assms(1,2)] by (auto simp: in_front_def)

lemma attempt_frozen:
  assumes "outbox_inv refused own mx s" "r \<in> set (ob_rows s)" "\<not> terminal (dl_status r)"
  shows "frozen (ob_rows s) (ob_rows (attempt_row ops mx r w s))"
  using assms attempt_rows [OF assms(1,2)] by (auto simp: frozen_def)

lemma attempt_quiet:
  assumes "outbox_inv refused own mx s" "r \<in> set (ob_rows s)" "quiet (ob_rows s)"
    and "pending (dl_status r)" "flow_after ops (mx, w) r \<noteq> Died"
  shows "quiet (ob_rows (attempt_row ops mx r w s))"
proof -
  have "dl_status (row_after ops (mx, w) r) \<noteq> Sending \<and> dl_status (row_after ops (mx, w) r) \<noteq> Uploading"
    using assms(4) by (cases rule: after_cases [where mx = mx and w = w]) (use assms(5) in auto)
  then show ?thesis using assms(3) attempt_rows [OF assms(1,2)] by (auto simp: quiet_def)
qed

lemma again_pending:
  assumes "pending (dl_status r)" "flow_after ops (mx, w) r = TryAgain"
  shows "pending (dl_status (row_after ops (mx, w) r))"
  using assms(1) by (cases rule: after_cases [where mx = mx and w = w]) (use assms(2) in auto)

text \<open>What a call keeps: the invariant, the rows in a final state, and, unless the process
  died, a table without a row in flight.\<close>

definition call_ok ::
  "nat \<Rightarrow> ('m delivery_scheme, 'o) outbox \<Rightarrow> deliver_error + 'm delivery_scheme \<Rightarrow>
     ('m delivery_scheme, 'o) outbox \<Rightarrow> bool" where
  "call_ok mx s res s' \<longleftrightarrow>
     outbox_inv refused own mx s' \<and> frozen (ob_rows s) (ob_rows s') \<and>
     (res \<noteq> Inl ProcessDied \<longrightarrow> quiet (ob_rows s'))"

lemma call_ok_refl: "outbox_inv refused own mx s \<Longrightarrow> quiet (ob_rows s) \<Longrightarrow> call_ok mx s res s"
  by (simp add: call_ok_def)

lemma call_ok_trans:
  "frozen (ob_rows s) (ob_rows s1) \<Longrightarrow> call_ok mx s1 res s2 \<Longrightarrow> call_ok mx s res s2"
  by (auto simp: call_ok_def intro: frozen_trans)

lemma deliver_one_ok:
  assumes "outbox_inv refused own mx s" "quiet (ob_rows s)" "r \<in> set (ob_rows s)"
    and "pending (dl_status r)" "in_front r (ob_rows s)"
    and "deliver_one ops mx (dl_id r) ws s = Some (res, s', ws')"
  shows "call_ok mx s res s'"
  using assms
proof (induction ws arbitrary: s r)
  case Nil
  have "the_row (dl_id r) (ob_rows s) = Some r"
    using Nil.prems by (intro the_row_distinct) (simp_all add: outbox_inv_def table_inv_def)
  with Nil.prems show ?case by (auto simp: pending_def split: if_splits intro: call_ok_refl)
next
  case (Cons w ws)
  note inv = Cons.prems(1) and quiet = Cons.prems(2) and r = Cons.prems(3,4) and front = Cons.prems(5)
  have row: "the_row (dl_id r) (ob_rows s) = Some r"
    using inv r by (intro the_row_distinct) (simp_all add: outbox_inv_def table_inv_def)
  have nt: "\<not> terminal (dl_status r)" using r(2) by (auto simp: pending_def)
  define s1 where "s1 = attempt_row ops mx r w s"
  note inv1 = attempt_inv [OF inv r front, of w, folded s1_def]
    and fro1 = attempt_frozen [OF inv r(1) nt, of w, folded s1_def]
    and rows1 = attempt_rows [OF inv r(1), of w, folded s1_def]
  note quiet1 = attempt_quiet [OF inv r(1) quiet r(2), of w, folded s1_def]
  show ?case
  proof (cases "op_wait_cancelled ops w r")
    case True
    with Cons.prems(6) row nt inv quiet show ?thesis by (auto intro: call_ok_refl)
  next
    case False
    show ?thesis
    proof (cases "flow_after ops (mx, w) r")
      case TryAgain
      define a where "a = row_after ops (mx, w) r"
      have "deliver_one ops mx (dl_id a) ws s1 = Some (res, s', ws')"
        using Cons.prems(6) row nt False TryAgain by (simp add: s1_def Let_def a_def)
      moreover have "a \<in> set (ob_rows s1)" "pending (dl_status a)" "in_front a (ob_rows s1)"
        using rows1 again_pending [OF r(2) TryAgain] attempt_front [OF inv r(1) front, of w]
        by (simp_all add: a_def s1_def)
      ultimately have "call_ok mx s1 res s'"
        using Cons.IH [of s1 a] inv1 quiet1 TryAgain by simp
      with fro1 show ?thesis by (rule call_ok_trans)
    next
      case Settled
      then have "s' = s1" using Cons.prems(6) row nt False by (simp add: s1_def Let_def)
      with Settled inv1 fro1 quiet1 show ?thesis by (simp add: call_ok_def)
    next
      case Interrupted
      then have "s' = s1" using Cons.prems(6) row nt False by (simp add: s1_def Let_def)
      with Interrupted inv1 fro1 quiet1 show ?thesis by (simp add: call_ok_def)
    next
      case Died
      then have "s' = s1" "res = Inl ProcessDied"
        using Cons.prems(6) row nt False by (simp_all add: s1_def Let_def)
      with inv1 fro1 show ?thesis by (simp add: call_ok_def)
    qed
  qed
qed

lemma deliver_through_ok:
  assumes "outbox_inv refused own mx s" "quiet (ob_rows s)"
    and "deliver_through ops mx target ws s = Some (res, s', ws')"
  shows "call_ok mx s res s'"
  using assms
proof (induction "length ws" arbitrary: s ws rule: less_induct)
  case less
  note inv = less.prems(1) and quiet = less.prems(2) and run = less.prems(3)
  define stuck where "stuck = (case blocker_of target (ob_rows s) of
      None \<Rightarrow> False | Some b \<Rightarrow> dl_status b \<in> {Ambiguous, DeadLetter})"
  note eq = deliver_through.simps [of ops mx target ws s, folded stuck_def]
  show ?case
  proof (cases "\<exists>row nx. the_row (dl_id target) (ob_rows s) = Some row \<and> \<not> terminal (dl_status row) \<and>
      \<not> stuck \<and> next_pending target (ob_rows s) = Some nx")
    case False
    then have "s' = s" using run by (subst (asm) eq) (auto split: option.splits if_splits)
    with inv quiet show ?thesis by (simp add: call_ok_refl)
  next
    case True
    then obtain row nx where row: "the_row (dl_id target) (ob_rows s) = Some row"
      "\<not> terminal (dl_status row)" "\<not> stuck" and nx: "next_pending target (ob_rows s) = Some nx"
      by blast
    have nxp: "nx \<in> set (ob_rows s)" "pending (dl_status nx)"
      using first_where_SomeD [OF nx [unfolded next_pending_def]] by auto
    have front: "in_front nx (ob_rows s)"
      using next_in_front [OF quiet nx] row(3) by (simp add: stuck_def)
    obtain one s1 ws1 where one: "deliver_one ops mx (dl_id nx) ws s = Some (one, s1, ws1)"
      using run by (subst (asm) eq) (auto simp: row nx split: option.splits)
    note ok1 = deliver_one_ok [OF inv quiet nxp front one]
    show ?thesis
    proof (cases "\<exists>r. one = Inr r \<and> dl_status r = Accepted")
      case False
      then have "s' = s1" "res = one"
        using run by (subst (asm) eq; auto simp: row nx one split: sum.splits if_splits)+
      with ok1 show ?thesis by simp
    next
      case True
      then obtain r where r: "one = Inr r" "dl_status r = Accepted" by blast
      have more: "deliver_through ops mx target ws1 s1 = Some (res, s', ws')"
        using run by (subst (asm) eq) (simp add: row nx one r)
      have "the_row (dl_id nx) (ob_rows s) = Some nx"
        using inv nxp by (intro the_row_distinct) (simp_all add: outbox_inv_def table_inv_def)
      then have "length ws1 < length ws"
        using deliver_one_consumes [OF one] nxp(2) by (auto simp: pending_def)
      moreover have "outbox_inv refused own mx s1" "quiet (ob_rows s1)" "frozen (ob_rows s) (ob_rows s1)"
        using ok1 r by (simp_all add: call_ok_def)
      ultimately show ?thesis
        using less.hyps [of ws1 s1] more call_ok_trans by blast
    qed
  qed
qed

lemma deliver_ok:
  assumes "outbox_inv refused own mx s" "quiet (ob_rows s)" "deliver ops mx did ws s = Some (res, s', ws')"
  shows "call_ok mx s res s'"
  using assms deliver_through_ok
  by (auto simp: deliver_def call_ok_refl split: option.splits if_splits)

lemma recover_ok:
  assumes "outbox_inv refused own mx s"
  shows "outbox_inv refused own mx (recover_rows ops t s) \<and> quiet (ob_rows (recover_rows ops t s)) \<and>
    frozen (ob_rows s) (ob_rows (recover_rows ops t s))"
proof -
  define f where "f = op_recover ops t"
  have key [simp]: "dl_id (f r) = dl_id r" "dl_recipient (f r) = dl_recipient r"
    "dl_sequence (f r) = dl_sequence r" "dl_attempts (f r) = dl_attempts r" for r
    by (simp_all add: f_def recover_key)
  have own: "\<forall>r\<in>set (ob_rows s). own r" using assms by (simp add: outbox_inv_def)
  have st: "dl_status (f r) = (if dl_status r = Sending then Ambiguous
      else if dl_status r = Uploading then Queued else dl_status r)" if "r \<in> set (ob_rows s)" for r
    using own that by (simp add: f_def recover_status)
  have rows: "ob_rows (recover_rows ops t s) = map f (ob_rows s)"
    "ob_log (recover_rows ops t s) = ob_log s"
    by (simp_all add: recover_rows_def f_def)
  have "table_inv mx (map f (ob_rows s))"
    using assms by (auto simp: outbox_inv_def table_inv_def comp_def row_ok_def st)
  moreover have "log_inv refused (map f (ob_rows s)) (ob_log s)"
    using assms by (auto simp: outbox_inv_def log_inv_def st image_image)
  moreover have "\<forall>r\<in>set (map f (ob_rows s)). own r"
    using own own_after(2) by (auto simp: f_def)
  moreover have "quiet (map f (ob_rows s))" by (auto simp: quiet_def st)
  moreover have "frozen (ob_rows s) (map f (ob_rows s))"
    unfolding frozen_def
  proof (intro ballI impI)
    fix r assume r: "r \<in> set (ob_rows s)" "terminal (dl_status r)"
    then have "dl_status r \<noteq> Sending" "dl_status r \<noteq> Uploading" by auto
    then have "f r = r" unfolding f_def by (rule recover_other)
    then show "r \<in> set (map f (ob_rows s))" using r(1) by (metis image_eqI set_map)
  qed
  ultimately show ?thesis by (simp add: outbox_inv_def rows)
qed

lemma enqueue_ok:
  assumes "outbox_inv refused own mx s" "0 < mx" "op_make ops a = Some new"
  shows "outbox_inv refused own mx (s\<lparr>ob_rows := snd (enqueue_row new (ob_rows s))\<rparr>)"
proof (cases "find_row dl_id (dl_id new) (ob_rows s)")
  case (Some r)
  with assms(1) show ?thesis by (simp add: enqueue_row_def)
next
  case None
  define r where "r = new\<lparr>dl_sequence := next_sequence (dl_recipient new) (ob_rows s)\<rparr>"
  have fresh: "dl_id r \<notin> dl_id ` set (ob_rows s)" using None by (simp add: r_def find_row_None)
  have seq: "dl_sequence q < dl_sequence r"
    if "q \<in> set (ob_rows s)" "dl_recipient q = dl_recipient r" for q
    using next_sequence_fresh that by (simp add: r_def)
  have r: "dl_status r = Queued" "dl_attempts r = 0" "own r"
    using make_fresh [OF assms(3)] by (simp_all add: r_def)
  have no: "sends (dl_id r) (ob_log s) = []"
    using assms(1) fresh by (auto simp: sends_def filter_empty_conv outbox_inv_def log_inv_def)
  have "table_inv mx (ob_rows s @ [r])"
    unfolding table_inv_def
  proof (intro conjI ballI impI)
    show "distinct (map dl_id (ob_rows s @ [r]))"
      using assms(1) fresh by (simp add: outbox_inv_def table_inv_def)
    have "(dl_recipient r, dl_sequence r) \<notin> (\<lambda>q. (dl_recipient q, dl_sequence q)) ` set (ob_rows s)"
      using seq by force
    then show "distinct (map (\<lambda>r. (dl_recipient r, dl_sequence r)) (ob_rows s @ [r]))"
      using assms(1) by (simp add: outbox_inv_def table_inv_def)
    show "row_ok mx q" if "q \<in> set (ob_rows s @ [r])" for q
      using that assms(1,2) r by (auto simp: outbox_inv_def table_inv_def row_ok_def)
    fix x q assume x: "x \<in> set (ob_rows s @ [r])" "q \<in> set (ob_rows s @ [r])"
      "dl_recipient q = dl_recipient x" "dl_sequence q < dl_sequence x" "0 < dl_attempts x"
    then have "x \<in> set (ob_rows s)" using r by auto
    moreover from this x have "q \<in> set (ob_rows s)" using seq [of x] by auto
    ultimately show "dl_status q = Accepted"
      using x assms(1) by (simp add: outbox_inv_def table_inv_def)
  qed
  moreover have "log_inv refused (ob_rows s @ [r]) (ob_log s)"
    using assms(1) r no by (auto simp: outbox_inv_def log_inv_def)
  ultimately show ?thesis
    using None assms(1) r by (simp add: enqueue_row_def Let_def r_def [symmetric] outbox_inv_def)
qed

lemma enqueue_rows:
  "set (ob_rows s) \<subseteq> set (snd (enqueue_row new (ob_rows s)))"
  by (auto simp: enqueue_row_def Let_def split: option.split)

lemma step_ok:
  assumes "outbox_inv refused own mx s" "quiet (ob_rows s)" "0 < mx" "outbox_step ops mx e s = Some s'"
  shows "outbox_inv refused own mx s' \<and> quiet (ob_rows s') \<and> frozen (ob_rows s) (ob_rows s')"
proof (cases e)
  case (Enqueue a)
  show ?thesis
  proof (cases "op_make ops a")
    case None
    with assms Enqueue show ?thesis by simp
  next
    case (Some new)
    have "quiet (snd (enqueue_row new (ob_rows s)))"
      using assms(2) make_fresh [OF Some]
      by (auto simp: enqueue_row_def Let_def quiet_def split: option.split)
    with assms Enqueue Some enqueue_ok [OF assms(1,3) Some] enqueue_rows [of s new]
    show ?thesis by (auto simp: frozen_def)
  qed
next
  case (Deliver did ws now)
  then obtain res s1 ws1 where d: "deliver ops mx did ws s = Some (res, s1, ws1)"
    using assms(4) by (auto split: option.splits)
  note ok = deliver_ok [OF assms(1,2) d]
  show ?thesis
  proof (cases "res = Inl ProcessDied")
    case True
    then have "s' = recover_rows ops now s1" using assms(4) Deliver d by simp
    with ok recover_ok [of mx s1 now] show ?thesis by (auto simp: call_ok_def intro: frozen_trans)
  next
    case False
    then have "s' = s1"
      using assms(4) Deliver d by (auto split: sum.splits deliver_error.splits)
    with ok False show ?thesis by (simp add: call_ok_def)
  qed
next
  case (Restart now)
  with assms recover_ok [OF assms(1), of now] show ?thesis by auto
qed

lemma empty_ok: "outbox_inv refused own mx empty_outbox \<and> quiet (ob_rows empty_outbox)"
  by (simp add: empty_outbox_def outbox_inv_def table_inv_def log_inv_def quiet_def)

lemma run_ok:
  assumes "outbox_inv refused own mx s" "quiet (ob_rows s)" "0 < mx" "outbox_run ops mx es s = Some s'"
  shows "outbox_inv refused own mx s' \<and> quiet (ob_rows s') \<and> frozen (ob_rows s) (ob_rows s')"
  using assms
proof (induction es arbitrary: s)
  case (Cons e es)
  then obtain s1 where s1: "outbox_step ops mx e s = Some s1" "outbox_run ops mx es s1 = Some s'"
    by (auto split: option.splits)
  have ok: "outbox_inv refused own mx s1 \<and> quiet (ob_rows s1) \<and> frozen (ob_rows s) (ob_rows s1)"
    using step_ok [OF Cons.prems(1-3) s1(1)] .
  then have "outbox_inv refused own mx s' \<and> quiet (ob_rows s') \<and> frozen (ob_rows s1) (ob_rows s')"
    using Cons.IH [of s1] Cons.prems(3) s1(2) by blast
  with ok show ?case by (blast intro: frozen_trans)
qed simp

text \<open>The guarantees of any history that starts with an empty table.\<close>

lemma history_ok:
  assumes "0 < mx" "outbox_run ops mx es empty_outbox = Some s"
  shows "table_inv mx (ob_rows s) \<and> log_inv refused (ob_rows s) (ob_log s) \<and> quiet (ob_rows s)"
proof -
  have e: "outbox_inv refused own mx empty_outbox" "quiet (ob_rows empty_outbox)"
    using empty_ok by blast+
  show ?thesis using run_ok [OF e assms] by (simp add: outbox_inv_def)
qed

end

section \<open>Calls return\<close>

text \<open>The sends the rows may still make.\<close>

definition budget :: "nat \<Rightarrow> 'm delivery_scheme list \<Rightarrow> nat" where
  "budget mx rows = sum_list (map (\<lambda>r. mx - dl_attempts r) rows)"

text \<open>A platform without an upload phase: every attempt is a send.\<close>

locale bounded_outbox = page_outbox ops refused own
  for ops :: "('a, 'm delivery_scheme, 'o) outbox_ops" and refused :: "'o \<Rightarrow> bool"
    and own :: "'m delivery_scheme \<Rightarrow> bool" +
  assumes begin_sends: "pending (dl_status r) \<Longrightarrow> dl_status (op_begin ops w r) = Sending"
begin

lemma attempt_budget:
  assumes "outbox_inv refused own mx s" "r \<in> set (ob_rows s)" "pending (dl_status r)"
  shows "Suc (budget mx (ob_rows (attempt_row ops mx r w s))) = budget mx (ob_rows s)"
proof -
  define a where "a = row_after ops (mx, w) r"
  define rows' where "rows' = ob_rows (attempt_row ops mx r w s)"
  have ids: "distinct (map dl_id (ob_rows s))"
    using assms(1) by (simp add: outbox_inv_def table_inv_def)
  then have "distinct (map dl_id rows')" by (simp add: rows'_def attempt_distinct)
  then have d: "distinct (ob_rows s)" "distinct rows'" using ids by (simp_all add: distinct_map)
  have set': "set rows' = insert a (set (ob_rows s) - {r})"
    using attempt_rows [OF assms(1,2)] by (simp add: rows'_def a_def)
  have a: "dl_attempts a = Suc (dl_attempts r)"
    using assms(3) by (cases rule: after_cases [where mx = mx and w = w])
      (use begin_sends [OF assms(3)] in \<open>simp_all add: a_def\<close>)
  have "dl_attempts r < mx"
    using assms by (simp add: outbox_inv_def table_inv_def row_ok_def)
  then have g: "Suc (mx - dl_attempts a) = mx - dl_attempts r" by (simp add: a)
  have "a \<notin> set (ob_rows s) - {r}"
    using other_id [OF assms(1,2), of a] by (auto simp: a_def)
  then have "(\<Sum>x\<in>set rows'. mx - dl_attempts x) =
      (mx - dl_attempts a) + (\<Sum>x\<in>set (ob_rows s) - {r}. mx - dl_attempts x)"
    by (simp add: set')
  moreover have "(\<Sum>x\<in>set (ob_rows s). mx - dl_attempts x) =
      (mx - dl_attempts r) + (\<Sum>x\<in>set (ob_rows s) - {r}. mx - dl_attempts x)"
    using assms(2) by (simp add: sum.remove)
  ultimately show ?thesis
    using g d by (simp add: budget_def sum_list_distinct_conv_sum_set rows'_def [symmetric])
qed

lemma pending_budget:
  assumes "outbox_inv refused own mx s" "r \<in> set (ob_rows s)" "pending (dl_status r)"
  shows "0 < budget mx (ob_rows s)"
  using attempt_budget [OF assms, of undefined] by simp

lemma deliver_one_returns:
  assumes "outbox_inv refused own mx s" "quiet (ob_rows s)" "r \<in> set (ob_rows s)"
    and "pending (dl_status r)" "in_front r (ob_rows s)" "budget mx (ob_rows s) \<le> length ws"
  shows "\<exists>res s' ws'. deliver_one ops mx (dl_id r) ws s = Some (res, s', ws') \<and>
      (\<forall>x. res = Inr x \<longrightarrow> budget mx (ob_rows s') \<le> length ws')"
  using assms
proof (induction ws arbitrary: s r)
  case Nil
  with pending_budget [OF Nil.prems(1,3,4)] show ?case by simp
next
  case (Cons w ws)
  note inv = Cons.prems(1) and quiet = Cons.prems(2) and r = Cons.prems(3,4) and front = Cons.prems(5)
  have row: "the_row (dl_id r) (ob_rows s) = Some r"
    using inv r by (intro the_row_distinct) (simp_all add: outbox_inv_def table_inv_def)
  have nt: "\<not> terminal (dl_status r)" using r(2) terminal_not by blast
  define s1 where "s1 = attempt_row ops mx r w s"
  have b1: "budget mx (ob_rows s1) \<le> length ws"
    using attempt_budget [OF inv r, of w] Cons.prems(6) by (simp add: s1_def)
  show ?case
  proof (cases "op_wait_cancelled ops w r")
    case True
    with row nt show ?thesis by simp
  next
    case False
    show ?thesis
    proof (cases "flow_after ops (mx, w) r")
      case TryAgain
      define a where "a = row_after ops (mx, w) r"
      have "\<exists>res s' ws'. deliver_one ops mx (dl_id a) ws s1 = Some (res, s', ws') \<and>
          (\<forall>x. res = Inr x \<longrightarrow> budget mx (ob_rows s') \<le> length ws')"
      proof (rule Cons.IH)
        show "outbox_inv refused own mx s1" unfolding s1_def by (rule attempt_inv [OF inv r front])
        show "quiet (ob_rows s1)" unfolding s1_def
          by (rule attempt_quiet [OF inv r(1) quiet r(2)]) (simp add: TryAgain)
        show "a \<in> set (ob_rows s1)" using attempt_rows [OF inv r(1), of w] by (simp add: s1_def a_def)
        show "pending (dl_status a)" unfolding a_def by (rule again_pending [OF r(2) TryAgain])
        show "in_front a (ob_rows s1)" unfolding a_def s1_def by (rule attempt_front [OF inv r(1) front])
      qed (rule b1)
      with row nt False TryAgain show ?thesis by (simp add: s1_def Let_def a_def)
    qed (use row nt False b1 in \<open>auto simp: s1_def Let_def\<close>)
  qed
qed

lemma deliver_through_returns:
  assumes "outbox_inv refused own mx s" "quiet (ob_rows s)" "budget mx (ob_rows s) \<le> length ws"
  shows "deliver_through ops mx target ws s \<noteq> None"
  using assms
proof (induction "length ws" arbitrary: s ws rule: less_induct)
  case less
  note inv = less.prems(1) and quiet = less.prems(2)
  define stuck where "stuck = (case blocker_of target (ob_rows s) of
      None \<Rightarrow> False | Some b \<Rightarrow> dl_status b \<in> {Ambiguous, DeadLetter})"
  note eq = deliver_through.simps [of ops mx target ws s, folded stuck_def]
  show ?case
  proof (cases "stuck \<or> next_pending target (ob_rows s) = None")
    case True
    then show ?thesis by (subst eq) (auto split: option.split)
  next
    case False
    then obtain nx where ns: "\<not> stuck" and nx: "next_pending target (ob_rows s) = Some nx" by blast
    have nxp: "nx \<in> set (ob_rows s)" "pending (dl_status nx)"
      using first_where_SomeD [OF nx [unfolded next_pending_def]] by auto
    have front: "in_front nx (ob_rows s)"
      using next_in_front [OF quiet nx] ns by (simp add: stuck_def)
    obtain res s1 ws1 where one: "deliver_one ops mx (dl_id nx) ws s = Some (res, s1, ws1)"
      and b: "\<forall>x. res = Inr x \<longrightarrow> budget mx (ob_rows s1) \<le> length ws1"
      using deliver_one_returns [OF inv quiet nxp front less.prems(3)] by blast
    note ok1 = deliver_one_ok [OF inv quiet nxp front one]
    have "the_row (dl_id nx) (ob_rows s) = Some nx"
      using inv nxp by (intro the_row_distinct) (simp_all add: outbox_inv_def table_inv_def)
    then have "length ws1 < length ws"
      using deliver_one_consumes [OF one] nxp(2) terminal_not by blast
    then have "deliver_through ops mx target ws1 s1 \<noteq> None" if "res = Inr x" for x
      using less.hyps [of ws1 s1] ok1 b that by (simp add: call_ok_def)
    then show ?thesis
      by (subst eq) (auto simp: nx ns one split: option.split sum.split)
  qed
qed

lemma deliver_returns:
  assumes "outbox_inv refused own mx s" "quiet (ob_rows s)" "budget mx (ob_rows s) \<le> length ws"
  shows "deliver ops mx did ws s \<noteq> None"
  using deliver_through_returns [OF assms] by (simp add: deliver_def split: option.split)

text \<open>In any history, a call returns once the world has answered as many attempts as the rows
  have left.\<close>

lemma history_deliver_returns:
  assumes "0 < mx" "outbox_run ops mx es empty_outbox = Some s"
    and "budget mx (ob_rows s) \<le> length ws"
  shows "deliver ops mx did ws s \<noteq> None"
proof -
  have e: "outbox_inv refused own mx empty_outbox" "quiet (ob_rows empty_outbox)"
    using empty_ok by blast+
  from run_ok [OF e assms(1,2)] show ?thesis using assms(3) by (intro deliver_returns) auto
qed

end

end
