(* ===== verification/Outbox_Pacing.thy ===== *)
theory Outbox_Pacing
  imports Kirara_Prelude
begin

text \<open>
  The two waiting schedules of the senders: the retry backoff every outbox shares
  (\<open>kirara_ai/im/outbox_backoff.py\<close>) and the pacing between the pages of one delivery
  (\<open>plugins/im_onebot_adapter/pacing.py\<close>). The draws of \<open>random\<close> are arguments: \<open>u\<close> from
  the unit interval, \<open>v\<close> from the jitter interval.
\<close>

section \<open>Retry backoff\<close>

definition max_retry_delay_seconds :: seconds where
  "max_retry_delay_seconds = 300"

definition retry_jitter_ratio :: rat where
  "retry_jitter_ratio = 1/5"

definition retry_backoff_seconds :: "seconds \<Rightarrow> int \<Rightarrow> seconds \<Rightarrow> bool \<Rightarrow> rat \<Rightarrow> seconds" where
  "retry_backoff_seconds base attempt_count max_delay jitter u =
     (if base \<le> 0 then 0
      else
        (let ceiling = max 0 max_delay
         in if ceiling = 0 then 0
            else
              (let exponent = nat (max 0 (attempt_count - 1));
                   delay = (if 64 < exponent then ceiling else min ceiling (base * 2 ^ exponent));
                   jittered = (if jitter \<and> 0 < delay then delay - delay * retry_jitter_ratio * u
                               else delay)
               in max 0 (min ceiling jittered))))"

lemma backoff_unjittered:
  assumes "0 < base" "0 < cap"
  shows "retry_backoff_seconds base n cap False u =
     (if 64 < nat (max 0 (n - 1)) then cap else min cap (base * 2 ^ nat (max 0 (n - 1))))"
  using assms by (simp add: retry_backoff_seconds_def Let_def)

lemma backoff_jittered:
  assumes "0 < base" "0 < cap" "0 \<le> u" "u \<le> 1"
  shows "retry_backoff_seconds base n cap True u =
     retry_backoff_seconds base n cap False u * (1 - u / 5)"
proof -
  define d where "d = (if 64 < nat (max 0 (n - 1)) then cap else min cap (base * 2 ^ nat (max 0 (n - 1))))"
  have d: "0 < d" "d \<le> cap" using assms by (simp_all add: d_def)
  have "d - d * (1/5) * u = d * (1 - u / 5)" by (simp add: algebra_simps)
  moreover have "0 \<le> d * (1 - u / 5)" using d assms by simp
  moreover have "d * (1 - u / 5) \<le> d" using d assms by (simp add: mult_le_cancel_left1)
  moreover have "min cap (d * (1 - u / 5)) = d * (1 - u / 5)"
    by (rule min_absorb2) (use d \<open>d * (1 - u / 5) \<le> d\<close> in linarith)
  ultimately show ?thesis
    using assms d
    by (simp add: backoff_unjittered d_def [symmetric])
      (simp add: retry_backoff_seconds_def Let_def retry_jitter_ratio_def d_def [symmetric])
qed

text \<open>The shared retry backoff is bounded and only ever early: with any draw the wait lies
  between four fifths of the deterministic schedule and that schedule, the schedule never
  exceeds the ceiling, never decreases from one failure to the next, and starts at the
  configured delay (or the ceiling, if that is smaller).\<close>

theorem backoff_bounded_and_early:
  assumes "0 < base" "0 < cap" "0 \<le> u" "u \<le> 1" "1 \<le> m" "m \<le> n"
  shows "retry_backoff_seconds base n cap True u \<le> retry_backoff_seconds base n cap False u \<and>
    4/5 * retry_backoff_seconds base n cap False u \<le> retry_backoff_seconds base n cap True u \<and>
    retry_backoff_seconds base n cap False u \<le> cap \<and>
    retry_backoff_seconds base m cap False u \<le> retry_backoff_seconds base n cap False u \<and>
    retry_backoff_seconds base 1 cap False u = min cap base"
proof -
  define d where "d = retry_backoff_seconds base n cap False u"
  have d: "0 < d" "d \<le> cap" using assms by (simp_all add: d_def backoff_unjittered)
  define x y where "x = base * 2 ^ nat (m - 1)" and "y = base * 2 ^ nat (n - 1)"
  have xy: "x \<le> y"
    using assms unfolding x_def y_def by (intro mult_left_mono power_increasing) simp_all
  have nat_le: "nat (m - 1) \<le> nat (n - 1)" using assms(6) by simp
  have "retry_backoff_seconds base m cap False u = (if 64 < nat (m - 1) then cap else min cap x)"
    "d = (if 64 < nat (n - 1) then cap else min cap y)"
    using assms by (simp_all add: d_def backoff_unjittered x_def y_def max_def)
  with xy nat_le have "retry_backoff_seconds base m cap False u \<le> d" by auto
  moreover have "d * (1 - u / 5) \<le> d * 1" "d * (4/5) \<le> d * (1 - u / 5)"
    using d assms by (intro mult_left_mono; simp)+
  then have "d * (1 - u / 5) \<le> d" "4/5 * d \<le> d * (1 - u / 5)" by (simp_all add: mult.commute)
  ultimately show ?thesis
    using assms d backoff_jittered [OF assms(1-4), of n]
    by (simp add: d_def [symmetric], simp add: backoff_unjittered)
qed

theorem backoff_bounded_and_early_witness:
  "retry_backoff_seconds 1 4 300 True (1/2) \<le> 8 \<and> 32/5 \<le> retry_backoff_seconds 1 4 300 True (1/2)"
  using backoff_bounded_and_early [of 1 300 "1/2" 1 4] by (simp add: backoff_unjittered)

section \<open>Pacing between pages\<close>

record send_pacing =
  sp_enabled :: bool
  sp_per_character :: seconds
  sp_minimum :: seconds
  sp_jitter :: seconds
  sp_maximum :: seconds
  sp_maximum_total :: seconds

definition default_pacing :: send_pacing where
  "default_pacing = \<lparr>sp_enabled = True, sp_per_character = 1/10, sp_minimum = 1, sp_jitter = 1,
     sp_maximum = 8, sp_maximum_total = 6\<rparr>"

datatype pacing_error = NegativePacing | MaximumBelowMinimum

definition check_pacing :: "send_pacing \<Rightarrow> pacing_error + send_pacing" where
  "check_pacing p =
     (if sp_per_character p < 0 \<or> sp_minimum p < 0 \<or> sp_jitter p < 0 \<or> sp_maximum p < 0 \<or>
         sp_maximum_total p < 0 then Inl NegativePacing
      else if sp_maximum p < sp_minimum p then Inl MaximumBelowMinimum
      else Inr p)"

definition gap_count :: "int option \<Rightarrow> int" where
  "gap_count page_count = (case page_count of None \<Rightarrow> 1 | Some n \<Rightarrow> max 1 (n - 1))"

definition resolve_pacing_delay :: "send_pacing \<Rightarrow> int \<Rightarrow> int option \<Rightarrow> rat \<Rightarrow> seconds" where
  "resolve_pacing_delay p text_length page_count v =
     (if \<not> sp_enabled p then 0
      else
        (let length_term = min (of_int (max 0 text_length) * sp_per_character p)
               (sp_maximum_total p / of_int (gap_count page_count));
             deterministic = min (sp_minimum p + length_term) (sp_maximum p)
         in if sp_jitter p = 0 then deterministic
            else min (max (deterministic + v) (sp_minimum p)) (sp_maximum p)))"

definition wait_before_page :: "send_pacing \<Rightarrow> int \<Rightarrow> int \<Rightarrow> int option \<Rightarrow> rat \<Rightarrow> seconds" where
  "wait_before_page p page_index text_length page_count v =
     (if page_index \<le> 0 then 0
      else (let delay = resolve_pacing_delay p text_length page_count v
            in if delay \<le> 0 then 0 else delay))"

definition total_wait_bound :: "send_pacing \<Rightarrow> int \<Rightarrow> seconds" where
  "total_wait_bound p page_count =
     (if \<not> sp_enabled p then 0
      else (let gaps = max 0 (page_count - 1)
            in if gaps = 0 then 0
               else of_int gaps * min (sp_minimum p + sp_jitter p) (sp_maximum p) + sp_maximum_total p))"

text \<open>The waits of a delivery of \<open>n\<close> pages with the given lengths and draws.\<close>

definition delivery_wait :: "send_pacing \<Rightarrow> nat \<Rightarrow> (nat \<Rightarrow> int) \<Rightarrow> (nat \<Rightarrow> rat) \<Rightarrow> seconds" where
  "delivery_wait p n len v =
     (\<Sum>i<n. wait_before_page p (int i) (len i) (Some (int n)) (v i))"

lemma check_pacing_ok:
  "check_pacing p = Inr p' \<Longrightarrow>
     p' = p \<and> 0 \<le> sp_per_character p \<and> 0 \<le> sp_minimum p \<and> 0 \<le> sp_jitter p \<and>
     0 \<le> sp_maximum_total p \<and> sp_minimum p \<le> sp_maximum p"
  by (auto simp: check_pacing_def split: if_splits)

lemma pacing_delay_bounds:
  assumes "check_pacing p = Inr p'" "sp_enabled p" "\<bar>v\<bar> \<le> sp_jitter p"
  shows "sp_minimum p \<le> resolve_pacing_delay p len pc v"
    and "resolve_pacing_delay p len pc v \<le>
      min (sp_minimum p + sp_jitter p) (sp_maximum p) + sp_maximum_total p / of_int (gap_count pc)"
proof -
  note ok = check_pacing_ok [OF assms(1)]
  have g: "0 < (of_int (gap_count pc) :: rat)"
    by (simp add: gap_count_def less_max_iff_disj split: option.split)
  define t where "t = min (of_int (max 0 len) * sp_per_character p) (sp_maximum_total p / of_int (gap_count pc))"
  have t: "0 \<le> t" "t \<le> sp_maximum_total p / of_int (gap_count pc)"
    using ok g by (simp_all add: t_def)
  have v: "- sp_jitter p \<le> v" "v \<le> sp_jitter p" using assms(3) by auto
  show "sp_minimum p \<le> resolve_pacing_delay p len pc v"
    using ok t assms(2) by (simp add: resolve_pacing_delay_def Let_def t_def [symmetric])
  show "resolve_pacing_delay p len pc v \<le>
      min (sp_minimum p + sp_jitter p) (sp_maximum p) + sp_maximum_total p / of_int (gap_count pc)"
    using ok t v assms(2)
    by (simp add: resolve_pacing_delay_def Let_def t_def [symmetric] min_def max_def)
qed

text \<open>A paced delivery keeps both of its promises: with accepted settings and any page lengths
  and draws, every page but the first waits at least the minimum, and the waits of all pages
  together stay within \<open>total_wait_bound\<close>.\<close>

theorem pacing_keeps_its_bounds:
  assumes "check_pacing p = Inr p'" "sp_enabled p" "\<forall>i<n. \<bar>v i\<bar> \<le> sp_jitter p"
  shows "(\<forall>i. 0 < i \<longrightarrow> i < n \<longrightarrow>
      sp_minimum p \<le> wait_before_page p (int i) (len i) (Some (int n)) (v i)) \<and>
    delivery_wait p n len v \<le> total_wait_bound p (int n)"
proof (intro conjI allI impI)
  note ok = check_pacing_ok [OF assms(1)]
  fix i assume i: "0 < i" "i < n"
  then show "sp_minimum p \<le> wait_before_page p (int i) (len i) (Some (int n)) (v i)"
    using pacing_delay_bounds(1) [OF assms(1,2), of "v i" "len i" "Some (int n)"] assms(3) ok
    by (simp add: wait_before_page_def Let_def)
next
  note ok = check_pacing_ok [OF assms(1)]
  define b where "b = min (sp_minimum p + sp_jitter p) (sp_maximum p) +
    sp_maximum_total p / of_int (gap_count (Some (int n)))"
  have b0: "0 \<le> b" using ok by (auto simp: b_def gap_count_def intro!: add_nonneg_nonneg)
  show "delivery_wait p n len v \<le> total_wait_bound p (int n)"
  proof (cases "n \<le> 1")
    case True
    then show ?thesis
      using ok assms(2)
      by (cases n) (simp_all add: delivery_wait_def wait_before_page_def total_wait_bound_def Let_def)
  next
    case False
    then obtain k where n: "n = Suc k" and k: "0 < k" by (cases n) auto
    have "wait_before_page p (int (Suc i)) (len (Suc i)) (Some (int n)) (v (Suc i)) \<le> b" if "i < k" for i
      using pacing_delay_bounds(2) [OF assms(1,2), of "v (Suc i)" "len (Suc i)" "Some (int n)"]
        assms(3) that b0 n
      by (simp add: wait_before_page_def Let_def b_def)
    then have "(\<Sum>i<k. wait_before_page p (int (Suc i)) (len (Suc i)) (Some (int n)) (v (Suc i)))
        \<le> (\<Sum>i<k. b)"
      by (intro sum_mono) auto
    then have "delivery_wait p n len v \<le> of_nat k * b"
      unfolding delivery_wait_def n sum.lessThan_Suc_shift
      by (simp add: wait_before_page_def)
    also have "of_nat k * b = total_wait_bound p (int n)"
      using k assms(2)
      by (simp add: n b_def total_wait_bound_def Let_def gap_count_def max_def distrib_left)
    finally show ?thesis .
  qed
qed

theorem pacing_keeps_its_bounds_witness:
  "delivery_wait default_pacing 3 (\<lambda>_. 3800) (\<lambda>_. 1/2) \<le> 10"
  using pacing_keeps_its_bounds [of default_pacing default_pacing 3 "\<lambda>_. 1/2" "\<lambda>_. 3800"]
  by (simp add: default_pacing_def check_pacing_def total_wait_bound_def Let_def)

end
