(* ===== verification/Outbox_OneBot.thy ===== *)
theory Outbox_OneBot
  imports Outbox_Core Outbox_Pacing Error_Class
begin

text \<open>
  The OneBot outbox (\<open>kirara_ai/plugins/im_onebot_adapter/outbox.py\<close>): its row, the checks of
  \<open>enqueue\<close>, the classification of a failed action and the updates \<open>_mark_*\<close>, as an instance
  of the outbox contract. Parameters and responses are their JSON texts.
\<close>

section \<open>Rows and requests\<close>

record onebot_delivery = delivery +
  od_logical :: string
  od_page_index :: int
  od_page_count :: int
  od_next_attempt_at :: "seconds option"

record onebot_request =
  oq_delivery_id :: string
  oq_recipient :: string
  oq_action :: string
  oq_params :: string
  oq_logical :: "string option"
  oq_page_index :: int
  oq_page_count :: int
  oq_now :: seconds

text \<open>The checks of \<open>enqueue\<close> and the row it inserts; \<open>None\<close> is the \<open>ValueError\<close>.\<close>

definition onebot_make :: "onebot_request \<Rightarrow> onebot_delivery option" where
  "onebot_make q =
     (if oq_delivery_id q = [] \<or> 64 < length (oq_delivery_id q) then None
      else if oq_recipient q = [] \<or> 256 < length (oq_recipient q) then None
      else if oq_page_count q < 1 \<or> oq_page_index q < 0 \<or> oq_page_count q \<le> oq_page_index q then None
      else Some
        \<lparr>dl_id = oq_delivery_id q, dl_recipient = oq_recipient q, dl_sequence = 0,
         dl_action = oq_action q, dl_params = oq_params q, dl_status = Queued, dl_attempts = 0,
         dl_upstream_accepted = False, dl_client_received = None, dl_response = None,
         dl_last_error = None, dl_created_at = oq_now q, dl_updated_at = oq_now q,
         dl_accepted_at = None, dl_ambiguous_at = None,
         od_logical = (case oq_logical q of None \<Rightarrow> oq_delivery_id q
                       | Some l \<Rightarrow> if l = [] then oq_delivery_id q else l),
         od_page_index = oq_page_index q, od_page_count = oq_page_count q,
         od_next_attempt_at = None\<rparr>)"

definition onebot_enqueue ::
  "onebot_request \<Rightarrow> onebot_delivery list \<Rightarrow> (onebot_delivery \<times> onebot_delivery list) option" where
  "onebot_enqueue q rows =
     (case onebot_make q of None \<Rightarrow> None | Some new \<Rightarrow> Some (enqueue_row new rows))"

section \<open>Outcomes\<close>

definition retryable_action_retcodes :: "int set" where
  "retryable_action_retcodes = {429, 503}"

definition ambiguous_action_retcodes :: "int set" where
  "ambiguous_action_retcodes = {1200}"

text \<open>\<open>_action_retcode\<close>: a missing or unreadable return code is \<open>None\<close>.\<close>

fun action_retcode :: "attribute_value \<Rightarrow> int option" where
  "action_retcode (Integral n) = Some n"
| "action_retcode _ = None"

definition is_retryable_action_failure :: "attribute_value \<Rightarrow> bool" where
  "is_retryable_action_failure v =
     (case action_retcode v of None \<Rightarrow> False | Some c \<Rightarrow> c \<in> retryable_action_retcodes)"

definition is_ambiguous_action_failure :: "attribute_value \<Rightarrow> bool" where
  "is_ambiguous_action_failure v =
     (case action_retcode v of None \<Rightarrow> False | Some c \<Rightarrow> c \<in> ambiguous_action_retcodes)"

text \<open>
  What the sender does: it answers, is cancelled, fails in transport (time out, network or
  operating system error), is refused with an error that asks to retry, fails with an
  \<open>ActionFailed\<close> carrying a return code, or raises anything else; or the process is killed.
\<close>

datatype onebot_outcome =
    Responded string
  | SendCancelled
  | TransportError string
  | RetryableRejection string
  | ActionFailure attribute_value string
  | OtherFailure string
  | Killed

record onebot_event =
  oe_check_at :: seconds
  oe_wait_cancelled :: bool
  oe_begin_at :: seconds
  oe_outcome :: onebot_outcome
  oe_mark_at :: seconds
  oe_jitter :: rat

section \<open>Updates\<close>

definition onebot_wait_cancelled :: "onebot_event \<Rightarrow> onebot_delivery \<Rightarrow> bool" where
  "onebot_wait_cancelled e r =
     (dl_status r = RetryWait \<and>
      (case od_next_attempt_at r of None \<Rightarrow> False | Some t \<Rightarrow> 0 < t - oe_check_at e) \<and>
      oe_wait_cancelled e)"

definition onebot_begin :: "onebot_event \<Rightarrow> onebot_delivery \<Rightarrow> onebot_delivery" where
  "onebot_begin e r =
     r\<lparr>dl_status := Sending, dl_attempts := dl_attempts r + 1, od_next_attempt_at := None,
       dl_updated_at := oe_begin_at e\<rparr>"

definition onebot_accepted :: "seconds \<Rightarrow> string \<Rightarrow> onebot_delivery \<Rightarrow> onebot_delivery" where
  "onebot_accepted now response r =
     r\<lparr>dl_status := Accepted, dl_upstream_accepted := True, dl_client_received := None,
       dl_response := Some response, dl_last_error := None, dl_accepted_at := Some now,
       dl_updated_at := now\<rparr>"

definition onebot_retry_wait :: "seconds \<Rightarrow> seconds \<Rightarrow> rat \<Rightarrow> string \<Rightarrow> onebot_delivery \<Rightarrow> onebot_delivery" where
  "onebot_retry_wait retry_delay now u error r =
     (let delay = retry_backoff_seconds retry_delay (int (dl_attempts r)) max_retry_delay_seconds True u
      in r\<lparr>dl_status := RetryWait, dl_last_error := Some (take 2000 error),
           od_next_attempt_at := Some (now + delay), dl_updated_at := now\<rparr>)"

definition onebot_ambiguous :: "seconds \<Rightarrow> string \<Rightarrow> onebot_delivery \<Rightarrow> onebot_delivery" where
  "onebot_ambiguous now error r =
     r\<lparr>dl_status := Ambiguous, dl_upstream_accepted := False, dl_client_received := None,
       dl_last_error := Some (error_text ''upstream result is unknown'' error),
       dl_ambiguous_at := Some now, dl_updated_at := now\<rparr>"

definition onebot_dead_letter :: "seconds \<Rightarrow> string \<Rightarrow> onebot_delivery \<Rightarrow> onebot_delivery" where
  "onebot_dead_letter now error r =
     r\<lparr>dl_status := DeadLetter, dl_upstream_accepted := False, dl_client_received := None,
       dl_last_error := Some (error_text ''delivery failed'' error), dl_updated_at := now\<rparr>"

text \<open>The refusals that are retried: \<open>attempt_count\<close> against the limit.\<close>

definition onebot_refuse ::
  "seconds \<Rightarrow> nat \<Rightarrow> onebot_event \<Rightarrow> string \<Rightarrow> onebot_delivery \<Rightarrow> onebot_delivery \<times> flow" where
  "onebot_refuse retry_delay mx e error r =
     (if mx \<le> dl_attempts r then (onebot_dead_letter (oe_mark_at e) error r, Settled)
      else (onebot_retry_wait retry_delay (oe_mark_at e) (oe_jitter e) error r, TryAgain))"

definition onebot_settle ::
  "seconds \<Rightarrow> nat \<Rightarrow> onebot_event \<Rightarrow> onebot_delivery \<Rightarrow> onebot_delivery \<times> flow" where
  "onebot_settle retry_delay mx e r =
     (let now = oe_mark_at e
      in case oe_outcome e of
           SendCancelled \<Rightarrow> (onebot_ambiguous now ''delivery cancelled during action'' r, Interrupted)
         | TransportError err \<Rightarrow> (onebot_ambiguous now err r, Settled)
         | RetryableRejection err \<Rightarrow> onebot_refuse retry_delay mx e err r
         | ActionFailure v err \<Rightarrow>
             (if is_retryable_action_failure v then onebot_refuse retry_delay mx e err r
              else if is_ambiguous_action_failure v then (onebot_ambiguous now err r, Settled)
              else (onebot_dead_letter now err r, Settled))
         | OtherFailure err \<Rightarrow> (onebot_dead_letter now err r, Settled)
         | Responded response \<Rightarrow> (onebot_accepted now response r, Settled)
         | Killed \<Rightarrow> (r, Died))"

definition onebot_recover :: "seconds \<Rightarrow> onebot_delivery \<Rightarrow> onebot_delivery" where
  "onebot_recover now r =
     (if dl_status r = Sending
      then r\<lparr>dl_status := Ambiguous, dl_upstream_accepted := False, dl_client_received := None,
             dl_last_error := Some ''process stopped while upstream result was unknown'',
             dl_ambiguous_at := Some now, dl_updated_at := now\<rparr>
      else r)"

definition onebot_ops :: "seconds \<Rightarrow> (onebot_request, onebot_delivery, onebot_event) outbox_ops" where
  "onebot_ops retry_delay =
     \<lparr>op_make = onebot_make, op_wait_cancelled = onebot_wait_cancelled, op_begin = onebot_begin,
      op_settle = onebot_settle retry_delay, op_recover = onebot_recover\<rparr>"

definition onebot_pending_ids :: "onebot_delivery list \<Rightarrow> string list" where
  "onebot_pending_ids rows = pending_ids (\<lambda>_. True) rows"

definition onebot_status_counts :: "onebot_delivery list \<Rightarrow> (status \<times> nat) list" where
  "onebot_status_counts rows =
     map (\<lambda>st. (st, status_count (\<lambda>_. True) st rows))
       [Queued, Sending, Accepted, RetryWait, Ambiguous, DeadLetter]"

definition onebot_deliver ::
  "seconds \<Rightarrow> nat \<Rightarrow> string \<Rightarrow> onebot_event list \<Rightarrow> (onebot_delivery, onebot_event) outbox
    \<Rightarrow> ((deliver_error + onebot_delivery) \<times> (onebot_delivery, onebot_event) outbox \<times> onebot_event list) option" where
  "onebot_deliver retry_delay mx did ws s = deliver (onebot_ops retry_delay) mx did ws s"

definition onebot_recover_on_startup ::
  "seconds \<Rightarrow> onebot_delivery list \<Rightarrow> nat \<times> onebot_delivery list" where
  "onebot_recover_on_startup now rows =
     (length (filter (\<lambda>r. dl_status r = Sending) rows), map (onebot_recover now) rows)"

text \<open>The outcomes that say the action was refused before it ran.\<close>

definition onebot_refused :: "onebot_event \<Rightarrow> bool" where
  "onebot_refused e =
     (case oe_outcome e of
        RetryableRejection err \<Rightarrow> True
      | ActionFailure v err \<Rightarrow> is_retryable_action_failure v
      | _ \<Rightarrow> False)"

section \<open>The contract\<close>

lemmas onebot_updates = onebot_begin_def onebot_accepted_def onebot_retry_wait_def
  onebot_ambiguous_def onebot_dead_letter_def onebot_recover_def onebot_refuse_def

lemma onebot_ops_simps [simp]:
  "op_make (onebot_ops d) = onebot_make"
  "op_wait_cancelled (onebot_ops d) = onebot_wait_cancelled"
  "op_begin (onebot_ops d) = onebot_begin"
  "op_settle (onebot_ops d) = onebot_settle d"
  "op_recover (onebot_ops d) = onebot_recover"
  by (simp_all add: onebot_ops_def)

lemma onebot_settle_key:
  "dl_id (fst (onebot_settle d mx w r)) = dl_id r"
  "dl_recipient (fst (onebot_settle d mx w r)) = dl_recipient r"
  "dl_sequence (fst (onebot_settle d mx w r)) = dl_sequence r"
  "dl_attempts (fst (onebot_settle d mx w r)) = dl_attempts r"
  by (simp_all add: onebot_settle_def onebot_updates Let_def split: onebot_outcome.split)

interpretation onebot: bounded_outbox "onebot_ops d" onebot_refused "\<lambda>r. dl_status r \<noteq> Uploading"
proof
  fix a :: onebot_request and r
  assume "op_make (onebot_ops d) a = Some r"
  then show "dl_status r = Queued \<and> dl_attempts r = 0 \<and> (\<forall>n. dl_status (r\<lparr>dl_sequence := n\<rparr>) \<noteq> Uploading)"
    by (auto simp: onebot_make_def split: if_splits)
next
  fix r r' :: onebot_delivery and mx w fl
  assume "dl_status r = Sending" "op_settle (onebot_ops d) mx w r = (r', fl)"
  then show "(fl = Settled \<and> terminal (dl_status r')) \<or>
      (fl \<noteq> Settled \<and> fl \<noteq> Died \<and> dl_status r' = RetryWait \<and> onebot_refused w \<and> dl_attempts r < mx) \<or>
      (fl = Interrupted \<and> dl_status r' = Ambiguous) \<or> (fl = Died \<and> dl_status r' = Sending)"
    by (auto simp: onebot_settle_def onebot_updates onebot_refused_def Let_def
        split: onebot_outcome.splits if_splits)
next
  fix r :: onebot_delivery and mx w
  show "dl_status (fst (op_settle (onebot_ops d) mx w (op_begin (onebot_ops d) w r))) \<noteq> Uploading"
    by (simp add: onebot_settle_def onebot_updates Let_def split: onebot_outcome.split)
qed (auto simp: onebot_settle_key onebot_updates)

section \<open>Properties\<close>

text \<open>C22. A OneBot page is sent again only after the upstream refused it. In every history of
  enqueues, deliveries, crashes and restarts, the table counts exactly the sends that were
  made, at most \<open>max_attempts\<close> per page, and of the sends of a page all but the last were
  explicit refusals: a page whose result is unknown, or that was accepted, is never sent
  again.\<close>

theorem onebot_resends_only_after_refusal:
  assumes "0 < mx" "outbox_run (onebot_ops d) mx es empty_outbox = Some s" "r \<in> set (ob_rows s)"
  shows "length (sends (dl_id r) (ob_log s)) = dl_attempts r \<and> dl_attempts r \<le> mx \<and>
    list_all onebot_refused (butlast (sends (dl_id r) (ob_log s)))"
  using onebot.history_ok [OF assms(1,2)] assms(3)
  by (simp add: table_inv_def row_ok_def log_inv_def)

text \<open>C31. Pages reach a OneBot recipient in order: in every history, a page that was sent has
  only accepted pages before it in its recipient's sequence, sequence numbers of a recipient
  are distinct, and no row is left in flight.\<close>

theorem onebot_sends_in_order:
  assumes "0 < mx" "outbox_run (onebot_ops d) mx es empty_outbox = Some s"
    and "r \<in> set (ob_rows s)" "q \<in> set (ob_rows s)" "dl_recipient q = dl_recipient r"
  shows "(dl_sequence q = dl_sequence r \<longrightarrow> q = r) \<and> dl_status r \<noteq> Sending \<and>
    (dl_sequence q < dl_sequence r \<longrightarrow> 0 < dl_attempts r \<longrightarrow> dl_status q = Accepted)"
proof -
  have h: "table_inv mx (ob_rows s)" "quiet (ob_rows s)"
    using onebot.history_ok [OF assms(1,2)] by simp_all
  have "inj_on (\<lambda>r. (dl_recipient r, dl_sequence r)) (set (ob_rows s))"
    using h(1) by (simp add: table_inv_def distinct_map)
  then have "dl_sequence q = dl_sequence r \<longrightarrow> q = r"
    using assms(3-5) by (auto dest: inj_onD)
  then show ?thesis
    using h assms(3-5) by (simp add: table_inv_def quiet_def)
qed

text \<open>C32. A delivery call returns: in every history, once the world has answered as many attempts
  as the rows of the table have left, \<open>deliver\<close> has come to a result.\<close>

theorem onebot_deliver_returns:
  assumes "0 < mx" "outbox_run (onebot_ops d) mx es empty_outbox = Some s"
    and "budget mx (ob_rows s) \<le> length ws"
  shows "deliver (onebot_ops d) mx did ws s \<noteq> None"
  by (rule onebot.history_deliver_returns [OF assms])

text \<open>A history for the witnesses: two pages to one group; the first is rate limited once, the
  second times out.\<close>

definition page_request :: "string \<Rightarrow> int \<Rightarrow> onebot_request" where
  "page_request did i =
     \<lparr>oq_delivery_id = did, oq_recipient = ''g'', oq_action = ''send_group_msg'', oq_params = ''{}'',
      oq_logical = Some ''m'', oq_page_index = i, oq_page_count = 2, oq_now = 0\<rparr>"

definition onebot_says :: "onebot_outcome \<Rightarrow> onebot_event" where
  "onebot_says w = \<lparr>oe_check_at = 100, oe_wait_cancelled = False, oe_begin_at = 100, oe_outcome = w,
     oe_mark_at = 100, oe_jitter = 0\<rparr>"

definition two_pages :: "(onebot_request, onebot_event) outbox_event list" where
  "two_pages = [Enqueue (page_request ''a'' 0), Enqueue (page_request ''b'' 1),
     Deliver ''b'' [onebot_says (ActionFailure (Integral 429) ''slow down''),
                    onebot_says (Responded ''{}''), onebot_says (TransportError ''timeout'')] 0]"

lemma two_pages_run:
  "map_option (\<lambda>s. map (\<lambda>r. (dl_id r, dl_status r, dl_attempts r)) (ob_rows s))
     (outbox_run (onebot_ops 1) 3 two_pages empty_outbox) =
   Some [(''a'', Accepted, 2), (''b'', Ambiguous, 1)]"
  by code_simp

lemma two_pages_state:
  obtains s a b where "outbox_run (onebot_ops 1) 3 two_pages empty_outbox = Some s"
    "ob_rows s = [a, b]" "dl_id a = ''a''" "dl_attempts a = 2" "dl_status a = Accepted"
    "dl_id b = ''b''" "dl_status b = Ambiguous" "dl_attempts b = 1"
  using two_pages_run by (auto simp: map_eq_Cons_conv)

theorem onebot_resends_only_after_refusal_witness:
  "\<exists>s. outbox_run (onebot_ops 1) 3 two_pages empty_outbox = Some s \<and>
     length (sends ''a'' (ob_log s)) = 2 \<and> list_all onebot_refused (butlast (sends ''a'' (ob_log s)))"
proof -
  obtain s a b where s: "outbox_run (onebot_ops 1) 3 two_pages empty_outbox = Some s"
    and rows: "ob_rows s = [a, b]" "dl_id a = ''a''" "dl_attempts a = 2"
    by (rule two_pages_state)
  from onebot_resends_only_after_refusal [OF _ s, of a] rows s show ?thesis by auto
qed

theorem onebot_sends_in_order_witness:
  "\<exists>s a b. outbox_run (onebot_ops 1) 3 two_pages empty_outbox = Some s \<and> ob_rows s = [a, b] \<and>
     dl_status a = Accepted \<and> dl_status b \<noteq> Sending"
proof -
  obtain s a b where s: "outbox_run (onebot_ops 1) 3 two_pages empty_outbox = Some s"
    and rows: "ob_rows s = [a, b]" "dl_status a = Accepted"
    by (rule two_pages_state)
  from onebot_sends_in_order [OF _ s, of b b] rows s show ?thesis by auto
qed

theorem onebot_deliver_returns_witness:
  "\<exists>s. outbox_run (onebot_ops 1) 3 two_pages empty_outbox = Some s \<and>
     deliver (onebot_ops 1) 3 ''b'' [onebot_says Killed, onebot_says Killed, onebot_says Killed] s \<noteq> None"
proof -
  obtain s a b where s: "outbox_run (onebot_ops 1) 3 two_pages empty_outbox = Some s"
    and rows: "ob_rows s = [a, b]" "dl_attempts a = 2" "dl_attempts b = 1"
    by (rule two_pages_state)
  from onebot_deliver_returns [OF _ s, of "[onebot_says Killed, onebot_says Killed, onebot_says Killed]" "''b''"]
    rows s show ?thesis by (auto simp: budget_def)
qed

end
