(* ===== verification/Outbox_Telegram.thy ===== *)
theory Outbox_Telegram
  imports Outbox_OneBot
begin

text \<open>
  The Telegram outbox (\<open>kirara_ai/plugins/im_telegram_adapter/outbox.py\<close>): its row, the checks
  of \<open>enqueue\<close> and the updates \<open>_mark_*\<close>, as an instance of the outbox contract. A service
  recovers and resumes only the rows of its adapter instance.
\<close>

section \<open>Rows and requests\<close>

record telegram_delivery = delivery +
  td_logical :: string
  td_instance :: string
  td_page_index :: int
  td_page_count :: int

record telegram_request =
  tq_delivery_id :: string
  tq_recipient :: string
  tq_action :: string
  tq_params :: string
  tq_logical :: "string option"
  tq_page_index :: int
  tq_page_count :: int
  tq_now :: seconds

definition telegram_make :: "string \<Rightarrow> telegram_request \<Rightarrow> telegram_delivery option" where
  "telegram_make instance_name q =
     (if tq_delivery_id q = [] \<or> 64 < length (tq_delivery_id q) then None
      else if tq_page_index q < 0 \<or> tq_page_count q < 1 \<or> tq_page_count q \<le> tq_page_index q then None
      else Some
        \<lparr>dl_id = tq_delivery_id q, dl_recipient = tq_recipient q, dl_sequence = 0,
         dl_action = tq_action q, dl_params = tq_params q, dl_status = Queued, dl_attempts = 0,
         dl_upstream_accepted = False, dl_client_received = None, dl_response = None,
         dl_last_error = None, dl_created_at = tq_now q, dl_updated_at = tq_now q,
         dl_accepted_at = None, dl_ambiguous_at = None,
         td_logical = (case tq_logical q of None \<Rightarrow> tq_delivery_id q
                       | Some l \<Rightarrow> if l = [] then tq_delivery_id q else l),
         td_instance = instance_name,
         td_page_index = tq_page_index q, td_page_count = tq_page_count q\<rparr>)"

section \<open>Updates\<close>

text \<open>What the sender does; no result at all is a time-out. The wait after a refusal can be
  cancelled.\<close>

datatype telegram_outcome =
    TgResponded string
  | TgCancelled
  | TgUnknownResult string
  | TgRetryAfter string
  | TgFailure string
  | TgKilled

record telegram_event =
  te_begin_at :: seconds
  te_outcome :: telegram_outcome
  te_mark_at :: seconds
  te_jitter :: rat
  te_wait_cancelled :: bool

definition telegram_begin :: "telegram_event \<Rightarrow> telegram_delivery \<Rightarrow> telegram_delivery" where
  "telegram_begin e r =
     r\<lparr>dl_status := Sending, dl_attempts := dl_attempts r + 1, dl_updated_at := te_begin_at e\<rparr>"

definition telegram_retry_wait :: "seconds \<Rightarrow> string \<Rightarrow> telegram_delivery \<Rightarrow> telegram_delivery" where
  "telegram_retry_wait now error r =
     r\<lparr>dl_status := RetryWait, dl_last_error := Some (error_text ''Telegram delivery rejected'' error),
       dl_updated_at := now\<rparr>"

definition telegram_accepted :: "seconds \<Rightarrow> string \<Rightarrow> telegram_delivery \<Rightarrow> telegram_delivery" where
  "telegram_accepted now response r =
     r\<lparr>dl_status := Accepted, dl_upstream_accepted := True, dl_response := Some response,
       dl_last_error := None, dl_accepted_at := Some now, dl_updated_at := now\<rparr>"

definition telegram_ambiguous :: "seconds \<Rightarrow> string \<Rightarrow> telegram_delivery \<Rightarrow> telegram_delivery" where
  "telegram_ambiguous now error r =
     r\<lparr>dl_status := Ambiguous,
       dl_last_error := Some (error_text ''Telegram upstream result is unknown'' error),
       dl_ambiguous_at := Some now, dl_updated_at := now\<rparr>"

definition telegram_dead_letter :: "seconds \<Rightarrow> string \<Rightarrow> telegram_delivery \<Rightarrow> telegram_delivery" where
  "telegram_dead_letter now error r =
     r\<lparr>dl_status := DeadLetter, dl_last_error := Some (error_text ''Telegram delivery failed'' error),
       dl_updated_at := now\<rparr>"

text \<open>The delay of a refusal is computed from the configured delay, which the constructor keeps
  non-negative; a positive wait can be interrupted by a cancellation.\<close>

definition telegram_settle ::
  "seconds \<Rightarrow> nat \<Rightarrow> telegram_event \<Rightarrow> telegram_delivery \<Rightarrow> telegram_delivery \<times> flow" where
  "telegram_settle retry_delay mx e r =
     (let now = te_mark_at e
      in case te_outcome e of
           TgCancelled \<Rightarrow> (telegram_ambiguous now ''delivery cancelled during Telegram send'' r, Interrupted)
         | TgUnknownResult err \<Rightarrow> (telegram_ambiguous now err r, Settled)
         | TgRetryAfter err \<Rightarrow>
             (if mx \<le> dl_attempts r then (telegram_dead_letter now err r, Settled)
              else
                (let delay = retry_backoff_seconds (max 0 retry_delay) (int (dl_attempts r))
                       max_retry_delay_seconds True (te_jitter e)
                 in (telegram_retry_wait now err r,
                     if 0 < delay \<and> te_wait_cancelled e then Interrupted else TryAgain)))
         | TgFailure err \<Rightarrow> (telegram_dead_letter now err r, Settled)
         | TgResponded response \<Rightarrow> (telegram_accepted now response r, Settled)
         | TgKilled \<Rightarrow> (r, Died))"

definition telegram_recover :: "string \<Rightarrow> seconds \<Rightarrow> telegram_delivery \<Rightarrow> telegram_delivery" where
  "telegram_recover instance_name now r =
     (if td_instance r = instance_name \<and> dl_status r = Sending
      then r\<lparr>dl_status := Ambiguous, dl_upstream_accepted := False, dl_client_received := None,
             dl_last_error := Some ''process stopped while Telegram upstream message result was unknown'',
             dl_ambiguous_at := Some now, dl_updated_at := now\<rparr>
      else r)"

definition telegram_ops ::
  "string \<Rightarrow> seconds \<Rightarrow> (telegram_request, telegram_delivery, telegram_event) outbox_ops" where
  "telegram_ops instance_name retry_delay =
     \<lparr>op_make = telegram_make instance_name, op_wait_cancelled = (\<lambda>_ _. False),
      op_begin = telegram_begin, op_settle = telegram_settle retry_delay,
      op_recover = telegram_recover instance_name\<rparr>"

definition telegram_pending_ids :: "string \<Rightarrow> telegram_delivery list \<Rightarrow> string list" where
  "telegram_pending_ids instance_name rows = pending_ids (\<lambda>r. td_instance r = instance_name) rows"

definition telegram_deliver ::
  "string \<Rightarrow> seconds \<Rightarrow> nat \<Rightarrow> string \<Rightarrow> telegram_event list \<Rightarrow> (telegram_delivery, telegram_event) outbox
    \<Rightarrow> ((deliver_error + telegram_delivery) \<times> (telegram_delivery, telegram_event) outbox \<times> telegram_event list) option" where
  "telegram_deliver instance_name retry_delay mx did ws s = deliver (telegram_ops instance_name retry_delay) mx did ws s"

definition telegram_recover_on_startup ::
  "string \<Rightarrow> seconds \<Rightarrow> telegram_delivery list \<Rightarrow> nat \<times> telegram_delivery list" where
  "telegram_recover_on_startup instance_name now rows =
     (length (filter (\<lambda>r. td_instance r = instance_name \<and> dl_status r = Sending) rows), map (telegram_recover instance_name now) rows)"

definition telegram_enqueue ::
  "string \<Rightarrow> telegram_request \<Rightarrow> telegram_delivery list
    \<Rightarrow> (telegram_delivery \<times> telegram_delivery list) option" where
  "telegram_enqueue instance_name q rows =
     (case telegram_make instance_name q of None \<Rightarrow> None | Some new \<Rightarrow> Some (enqueue_row new rows))"

definition telegram_status_counts :: "string \<Rightarrow> telegram_delivery list \<Rightarrow> (status \<times> nat) list" where
  "telegram_status_counts instance_name rows =
     map (\<lambda>st. (st, status_count (\<lambda>r. td_instance r = instance_name) st rows))
       [Queued, RetryWait, Sending, Accepted, Ambiguous, DeadLetter]"

definition telegram_refused :: "telegram_event \<Rightarrow> bool" where
  "telegram_refused e = (case te_outcome e of TgRetryAfter err \<Rightarrow> True | _ \<Rightarrow> False)"

section \<open>The contract\<close>

lemmas telegram_updates = telegram_begin_def telegram_accepted_def telegram_retry_wait_def
  telegram_ambiguous_def telegram_dead_letter_def telegram_recover_def

lemma telegram_ops_simps [simp]:
  "op_make (telegram_ops n d) = telegram_make n"
  "op_wait_cancelled (telegram_ops n d) w r = False"
  "op_begin (telegram_ops n d) = telegram_begin"
  "op_settle (telegram_ops n d) = telegram_settle d"
  "op_recover (telegram_ops n d) = telegram_recover n"
  by (simp_all add: telegram_ops_def)

definition telegram_own :: "string \<Rightarrow> telegram_delivery \<Rightarrow> bool" where
  "telegram_own n r \<longleftrightarrow> td_instance r = n \<and> dl_status r \<noteq> Uploading"

lemma telegram_settle_key:
  "dl_id (fst (telegram_settle d mx w r)) = dl_id r"
  "dl_recipient (fst (telegram_settle d mx w r)) = dl_recipient r"
  "dl_sequence (fst (telegram_settle d mx w r)) = dl_sequence r"
  "dl_attempts (fst (telegram_settle d mx w r)) = dl_attempts r"
  by (simp_all add: telegram_settle_def telegram_updates Let_def split: telegram_outcome.split)

interpretation telegram: bounded_outbox "telegram_ops n d" telegram_refused "telegram_own n"
proof
  fix a :: telegram_request and r
  assume "op_make (telegram_ops n d) a = Some r"
  then show "dl_status r = Queued \<and> dl_attempts r = 0 \<and> (\<forall>m. telegram_own n (r\<lparr>dl_sequence := m\<rparr>))"
    by (auto simp: telegram_make_def telegram_own_def split: if_splits)
next
  fix r :: telegram_delivery and mx w
  assume "telegram_own n r"
  then show "telegram_own n (fst (op_settle (telegram_ops n d) mx w (op_begin (telegram_ops n d) w r)))"
    by (simp add: telegram_settle_def telegram_updates telegram_own_def Let_def split: telegram_outcome.split)
next
  fix r r' :: telegram_delivery and mx w fl
  assume "dl_status r = Sending" "op_settle (telegram_ops n d) mx w r = (r', fl)"
  then show "(fl = Settled \<and> terminal (dl_status r')) \<or>
      (fl \<noteq> Settled \<and> fl \<noteq> Died \<and> dl_status r' = RetryWait \<and> telegram_refused w \<and> dl_attempts r < mx) \<or>
      (fl = Interrupted \<and> dl_status r' = Ambiguous) \<or> (fl = Died \<and> dl_status r' = Sending)"
    by (auto simp: telegram_settle_def telegram_updates telegram_refused_def Let_def
        split: telegram_outcome.splits if_splits)
qed (auto simp: telegram_settle_key telegram_updates telegram_own_def)

section \<open>Properties\<close>

text \<open>The Telegram outbox gives the same guarantee: in every history a page is sent at most
  \<open>max_attempts\<close> times, every send but the last was refused with a request to retry later,
  and a page that was sent has only accepted pages before it.\<close>

theorem telegram_resends_only_after_refusal:
  assumes "0 < mx" "outbox_run (telegram_ops n d) mx es empty_outbox = Some s" "r \<in> set (ob_rows s)"
  shows "length (sends (dl_id r) (ob_log s)) = dl_attempts r \<and> dl_attempts r \<le> mx \<and>
    list_all telegram_refused (butlast (sends (dl_id r) (ob_log s))) \<and>
    (0 < dl_attempts r \<longrightarrow> in_front r (ob_rows s))"
  using telegram.history_ok [OF assms(1,2)] assms(3)
  by (simp add: table_inv_def row_ok_def log_inv_def in_front_def)

definition telegram_page :: "string \<Rightarrow> int \<Rightarrow> telegram_request" where
  "telegram_page did i =
     \<lparr>tq_delivery_id = did, tq_recipient = ''c'', tq_action = ''text'', tq_params = ''{}'',
      tq_logical = None, tq_page_index = i, tq_page_count = 2, tq_now = 0\<rparr>"

definition telegram_says :: "telegram_outcome \<Rightarrow> telegram_event" where
  "telegram_says w = \<lparr>te_begin_at = 1, te_outcome = w, te_mark_at = 2, te_jitter = 0,
     te_wait_cancelled = False\<rparr>"

definition telegram_pages :: "(telegram_request, telegram_event) outbox_event list" where
  "telegram_pages = [Enqueue (telegram_page ''a'' 0),
     Deliver ''a'' [telegram_says (TgRetryAfter ''later''), telegram_says TgKilled] 9]"

lemma telegram_pages_run:
  "map_option (\<lambda>s. map (\<lambda>r. (dl_id r, dl_status r, dl_attempts r)) (ob_rows s))
     (outbox_run (telegram_ops ''bot'' 1) 3 telegram_pages empty_outbox) = Some [(''a'', Ambiguous, 2)]"
  by code_simp

theorem telegram_resends_only_after_refusal_witness:
  "\<exists>s. outbox_run (telegram_ops ''bot'' 1) 3 telegram_pages empty_outbox = Some s \<and>
     length (sends ''a'' (ob_log s)) = 2 \<and> list_all telegram_refused (butlast (sends ''a'' (ob_log s)))"
proof -
  obtain s a where s: "outbox_run (telegram_ops ''bot'' 1) 3 telegram_pages empty_outbox = Some s"
    and rows: "ob_rows s = [a]" "dl_id a = ''a''" "dl_attempts a = 2"
    using telegram_pages_run by (auto simp: map_eq_Cons_conv)
  from telegram_resends_only_after_refusal [OF _ s, of a] rows s show ?thesis by auto
qed

end
