(* ===== verification/Outbox_QQBot.thy ===== *)
theory Outbox_QQBot
  imports Outbox_OneBot
begin

text \<open>
  The QQ bot outbox (\<open>kirara_ai/plugins/im_qqbot_adapter/outbox.py\<close>): a row may carry media,
  which is uploaded in a phase of its own before the message is sent. An interrupted upload is
  safe to repeat; an interrupted send is not.
\<close>

section \<open>Rows and requests\<close>

record qqbot_delivery = delivery +
  qd_logical :: string
  qd_media_file_type :: "int option"
  qd_media_data :: "string option"
  qd_media_response :: "string option"
  qd_upload_attempts :: nat
  qd_next_attempt_at :: "seconds option"
  qd_uploaded_at :: "seconds option"

record qqbot_request =
  qq_delivery_id :: string
  qq_recipient :: string
  qq_action :: string
  qq_params :: string
  qq_logical :: "string option"
  qq_media_file_type :: "int option"
  qq_media_data :: "string option"
  qq_now :: seconds

definition qqbot_make :: "qqbot_request \<Rightarrow> qqbot_delivery option" where
  "qqbot_make q =
     (if qq_delivery_id q = [] \<or> 64 < length (qq_delivery_id q) then None
      else if qq_recipient q = [] \<or> 256 < length (qq_recipient q) then None
      else if (qq_media_file_type q = None) \<noteq> (qq_media_data q = None) then None
      else Some
        \<lparr>dl_id = qq_delivery_id q, dl_recipient = qq_recipient q, dl_sequence = 0,
         dl_action = qq_action q, dl_params = qq_params q, dl_status = Queued, dl_attempts = 0,
         dl_upstream_accepted = False, dl_client_received = None, dl_response = None,
         dl_last_error = None, dl_created_at = qq_now q, dl_updated_at = qq_now q,
         dl_accepted_at = None, dl_ambiguous_at = None,
         qd_logical = (case qq_logical q of None \<Rightarrow> qq_delivery_id q
                       | Some l \<Rightarrow> if l = [] then qq_delivery_id q else l),
         qd_media_file_type = qq_media_file_type q, qd_media_data = qq_media_data q,
         qd_media_response = None, qd_upload_attempts = 0,
         qd_next_attempt_at = None, qd_uploaded_at = None\<rparr>)"

section \<open>Updates\<close>

datatype qqbot_outcome =
    QqResponded string
  | QqNoResult
  | QqCancelled
  | QqUnknownResult string
  | QqRejected string
  | QqFailure string
  | QqKilled

record qqbot_event =
  qe_check_at :: seconds
  qe_wait_cancelled :: bool
  qe_begin_at :: seconds
  qe_outcome :: qqbot_outcome
  qe_mark_at :: seconds
  qe_jitter :: rat

definition qqbot_wait_cancelled :: "qqbot_event \<Rightarrow> qqbot_delivery \<Rightarrow> bool" where
  "qqbot_wait_cancelled e r =
     (dl_status r = RetryWait \<and>
      (case qd_next_attempt_at r of None \<Rightarrow> False | Some t \<Rightarrow> 0 < t - qe_check_at e) \<and>
      qe_wait_cancelled e)"

definition qqbot_begin :: "qqbot_event \<Rightarrow> qqbot_delivery \<Rightarrow> qqbot_delivery" where
  "qqbot_begin e r =
     (let r1 = (if qd_media_file_type r \<noteq> None \<and> qd_media_response r = None
                then r\<lparr>dl_status := Uploading, qd_upload_attempts := qd_upload_attempts r + 1\<rparr>
                else r\<lparr>dl_status := Sending, dl_attempts := dl_attempts r + 1\<rparr>)
      in r1\<lparr>qd_next_attempt_at := None, dl_updated_at := qe_begin_at e\<rparr>)"

definition qqbot_uploaded :: "seconds \<Rightarrow> string \<Rightarrow> qqbot_delivery \<Rightarrow> qqbot_delivery" where
  "qqbot_uploaded now response r =
     r\<lparr>dl_status := Uploaded, qd_media_response := Some response, dl_last_error := None,
       qd_uploaded_at := Some now, dl_updated_at := now\<rparr>"

definition qqbot_upload_retry :: "seconds \<Rightarrow> string \<Rightarrow> qqbot_delivery \<Rightarrow> qqbot_delivery" where
  "qqbot_upload_retry now error r =
     r\<lparr>dl_status := Queued, dl_last_error := Some (error_text ''media upload failed'' error),
       dl_updated_at := now\<rparr>"

definition qqbot_retry_wait :: "seconds \<Rightarrow> nat \<Rightarrow> seconds \<Rightarrow> rat \<Rightarrow> string \<Rightarrow> qqbot_delivery \<Rightarrow> qqbot_delivery" where
  "qqbot_retry_wait retry_delay count now u error r =
     (let delay = retry_backoff_seconds retry_delay (int count) max_retry_delay_seconds True u
      in r\<lparr>dl_status := RetryWait, dl_last_error := Some (take 2000 error),
           qd_next_attempt_at := Some (now + delay), dl_updated_at := now\<rparr>)"

definition qqbot_accepted :: "seconds \<Rightarrow> string \<Rightarrow> qqbot_delivery \<Rightarrow> qqbot_delivery" where
  "qqbot_accepted now response r =
     r\<lparr>dl_status := Accepted, dl_upstream_accepted := True, dl_client_received := None,
       dl_response := Some response, dl_last_error := None, dl_accepted_at := Some now,
       dl_updated_at := now\<rparr>"

definition qqbot_ambiguous :: "seconds \<Rightarrow> string \<Rightarrow> qqbot_delivery \<Rightarrow> qqbot_delivery" where
  "qqbot_ambiguous now error r =
     r\<lparr>dl_status := Ambiguous, dl_upstream_accepted := False, dl_client_received := None,
       dl_last_error := Some (error_text ''QQ upstream result is unknown'' error),
       dl_ambiguous_at := Some now, dl_updated_at := now\<rparr>"

definition qqbot_dead_letter :: "seconds \<Rightarrow> string \<Rightarrow> qqbot_delivery \<Rightarrow> qqbot_delivery" where
  "qqbot_dead_letter now error r =
     r\<lparr>dl_status := DeadLetter, dl_upstream_accepted := False, dl_client_received := None,
       dl_last_error := Some (error_text ''QQ delivery failed'' error), dl_updated_at := now\<rparr>"

text \<open>The refusals that are retried, with the counter of the phase.\<close>

definition qqbot_refuse ::
  "seconds \<Rightarrow> nat \<Rightarrow> nat \<Rightarrow> qqbot_event \<Rightarrow> string \<Rightarrow> qqbot_delivery \<Rightarrow> qqbot_delivery \<times> flow" where
  "qqbot_refuse retry_delay mx count e error r =
     (if mx \<le> count then (qqbot_dead_letter (qe_mark_at e) error r, Settled)
      else (qqbot_retry_wait retry_delay count (qe_mark_at e) (qe_jitter e) error r, TryAgain))"

definition qqbot_settle_upload ::
  "bool \<Rightarrow> seconds \<Rightarrow> nat \<Rightarrow> qqbot_event \<Rightarrow> qqbot_delivery \<Rightarrow> qqbot_delivery \<times> flow" where
  "qqbot_settle_upload uploader retry_delay mx e r =
     (let now = qe_mark_at e
      in if \<not> uploader \<or> qd_media_file_type r = None \<or> qd_media_data r = None
         then (qqbot_dead_letter now ''media uploader is not configured'' r, Settled)
         else (case qe_outcome e of
             QqResponded response \<Rightarrow> (qqbot_uploaded now response r, TryAgain)
           | QqNoResult \<Rightarrow> (qqbot_upload_retry now ''QQ media upload returned no result'' r, Settled)
           | QqCancelled \<Rightarrow> (qqbot_upload_retry now ''media upload cancelled'' r, Interrupted)
           | QqUnknownResult err \<Rightarrow> (qqbot_upload_retry now err r, Settled)
           | QqRejected err \<Rightarrow> qqbot_refuse retry_delay mx (qd_upload_attempts r) e err r
           | QqFailure err \<Rightarrow> (qqbot_dead_letter now err r, Settled)
           | QqKilled \<Rightarrow> (r, Died)))"

definition qqbot_settle_send ::
  "seconds \<Rightarrow> nat \<Rightarrow> qqbot_event \<Rightarrow> qqbot_delivery \<Rightarrow> qqbot_delivery \<times> flow" where
  "qqbot_settle_send retry_delay mx e r =
     (let now = qe_mark_at e
      in case qe_outcome e of
           QqResponded response \<Rightarrow> (qqbot_accepted now response r, Settled)
         | QqNoResult \<Rightarrow> (qqbot_ambiguous now ''QQ message API returned no result'' r, Settled)
         | QqCancelled \<Rightarrow> (qqbot_ambiguous now ''delivery cancelled during QQ message send'' r, Interrupted)
         | QqUnknownResult err \<Rightarrow> (qqbot_ambiguous now err r, Settled)
         | QqRejected err \<Rightarrow> qqbot_refuse retry_delay mx (dl_attempts r) e err r
         | QqFailure err \<Rightarrow> (qqbot_dead_letter now err r, Settled)
         | QqKilled \<Rightarrow> (r, Died))"

definition qqbot_settle ::
  "bool \<Rightarrow> seconds \<Rightarrow> nat \<Rightarrow> qqbot_event \<Rightarrow> qqbot_delivery \<Rightarrow> qqbot_delivery \<times> flow" where
  "qqbot_settle uploader retry_delay mx e r =
     (if dl_status r = Uploading then qqbot_settle_upload uploader retry_delay mx e r
      else qqbot_settle_send retry_delay mx e r)"

definition qqbot_recover :: "seconds \<Rightarrow> qqbot_delivery \<Rightarrow> qqbot_delivery" where
  "qqbot_recover now r =
     (if dl_status r = Sending
      then r\<lparr>dl_status := Ambiguous, dl_upstream_accepted := False, dl_client_received := None,
             dl_last_error := Some ''process stopped while QQ upstream message result was unknown'',
             dl_ambiguous_at := Some now, dl_updated_at := now\<rparr>
      else if dl_status r = Uploading
      then r\<lparr>dl_status := Queued,
             dl_last_error := Some ''process stopped during media upload; upload can be resumed'',
             dl_updated_at := now\<rparr>
      else r)"

definition qqbot_ops :: "bool \<Rightarrow> seconds \<Rightarrow> (qqbot_request, qqbot_delivery, qqbot_event) outbox_ops" where
  "qqbot_ops uploader retry_delay =
     \<lparr>op_make = qqbot_make, op_wait_cancelled = qqbot_wait_cancelled, op_begin = qqbot_begin,
      op_settle = qqbot_settle uploader retry_delay, op_recover = qqbot_recover\<rparr>"

definition qqbot_deliver ::
  "bool \<Rightarrow> seconds \<Rightarrow> nat \<Rightarrow> string \<Rightarrow> qqbot_event list \<Rightarrow> (qqbot_delivery, qqbot_event) outbox
    \<Rightarrow> ((deliver_error + qqbot_delivery) \<times> (qqbot_delivery, qqbot_event) outbox \<times> qqbot_event list) option" where
  "qqbot_deliver uploader retry_delay mx did ws s = deliver (qqbot_ops uploader retry_delay) mx did ws s"

definition qqbot_recover_on_startup ::
  "seconds \<Rightarrow> qqbot_delivery list \<Rightarrow> nat \<times> qqbot_delivery list" where
  "qqbot_recover_on_startup now rows =
     (length (filter (\<lambda>r. dl_status r = Sending) rows), map (qqbot_recover now) rows)"

definition qqbot_enqueue ::
  "qqbot_request \<Rightarrow> qqbot_delivery list \<Rightarrow> (qqbot_delivery \<times> qqbot_delivery list) option" where
  "qqbot_enqueue q rows =
     (case qqbot_make q of None \<Rightarrow> None | Some new \<Rightarrow> Some (enqueue_row new rows))"

definition qqbot_pending_ids :: "qqbot_delivery list \<Rightarrow> string list" where
  "qqbot_pending_ids rows = pending_ids (\<lambda>_. True) rows"

definition qqbot_status_counts :: "qqbot_delivery list \<Rightarrow> (status \<times> nat) list" where
  "qqbot_status_counts rows =
     map (\<lambda>st. (st, status_count (\<lambda>_. True) st rows))
       [Queued, Uploading, Uploaded, Sending, Accepted, RetryWait, Ambiguous, DeadLetter]"

definition qqbot_refused :: "qqbot_event \<Rightarrow> bool" where
  "qqbot_refused e = (case qe_outcome e of QqRejected err \<Rightarrow> True | _ \<Rightarrow> False)"

section \<open>The contract\<close>

lemmas qqbot_updates = qqbot_begin_def qqbot_accepted_def qqbot_retry_wait_def qqbot_ambiguous_def
  qqbot_dead_letter_def qqbot_recover_def qqbot_refuse_def qqbot_uploaded_def qqbot_upload_retry_def

lemmas qqbot_settles = qqbot_settle_def qqbot_settle_upload_def qqbot_settle_send_def

lemma qqbot_ops_simps [simp]:
  "op_make (qqbot_ops u d) = qqbot_make"
  "op_wait_cancelled (qqbot_ops u d) = qqbot_wait_cancelled"
  "op_begin (qqbot_ops u d) = qqbot_begin"
  "op_settle (qqbot_ops u d) = qqbot_settle u d"
  "op_recover (qqbot_ops u d) = qqbot_recover"
  by (simp_all add: qqbot_ops_def)

lemma qqbot_settle_key:
  "dl_id (fst (qqbot_settle u d mx w r)) = dl_id r"
  "dl_recipient (fst (qqbot_settle u d mx w r)) = dl_recipient r"
  "dl_sequence (fst (qqbot_settle u d mx w r)) = dl_sequence r"
  "dl_attempts (fst (qqbot_settle u d mx w r)) = dl_attempts r"
  by (simp_all add: qqbot_settles qqbot_updates Let_def split: qqbot_outcome.split)

interpretation qqbot: page_outbox "qqbot_ops u d" qqbot_refused "\<lambda>_. True"
proof
  fix a :: qqbot_request and r
  assume "op_make (qqbot_ops u d) a = Some r"
  then show "dl_status r = Queued \<and> dl_attempts r = 0 \<and> (\<forall>n. True)"
    by (auto simp: qqbot_make_def split: if_splits)
next
  fix r r' :: qqbot_delivery and mx w fl
  assume "dl_status r = Sending" "op_settle (qqbot_ops u d) mx w r = (r', fl)"
  then show "(fl = Settled \<and> terminal (dl_status r')) \<or>
      (fl \<noteq> Settled \<and> fl \<noteq> Died \<and> dl_status r' = RetryWait \<and> qqbot_refused w \<and> dl_attempts r < mx) \<or>
      (fl = Interrupted \<and> dl_status r' = Ambiguous) \<or> (fl = Died \<and> dl_status r' = Sending)"
    by (auto simp: qqbot_settles qqbot_updates qqbot_refused_def Let_def
        split: qqbot_outcome.splits if_splits)
next
  fix q r r' :: qqbot_delivery and mx w fl
  assume "dl_status r = Uploading" "op_settle (qqbot_ops u d) mx w r = (r', fl)"
  then show "(fl \<noteq> Died \<and> pending (dl_status r')) \<or> (fl = Settled \<and> dl_status r' = DeadLetter) \<or>
      (fl = Died \<and> dl_status r' = Uploading)"
    by (auto simp: qqbot_settles qqbot_updates Let_def split: qqbot_outcome.splits if_splits)
qed (auto simp: qqbot_settle_key qqbot_updates Let_def)

section \<open>Properties\<close>

text \<open>The QQ outbox repeats uploads freely and messages only after a refusal: in every
  history, whatever happens in the uploads, a message is sent at most \<open>max_attempts\<close> times,
  every send but the last was rejected before acceptance, and a message that was sent has only
  accepted ones before it.\<close>

theorem qqbot_resends_only_after_refusal:
  assumes "0 < mx" "outbox_run (qqbot_ops u d) mx es empty_outbox = Some s" "r \<in> set (ob_rows s)"
  shows "length (sends (dl_id r) (ob_log s)) = dl_attempts r \<and> dl_attempts r \<le> mx \<and>
    list_all qqbot_refused (butlast (sends (dl_id r) (ob_log s))) \<and>
    (0 < dl_attempts r \<longrightarrow> in_front r (ob_rows s))"
  using qqbot.history_ok [OF assms(1,2)] assms(3)
  by (simp add: table_inv_def row_ok_def log_inv_def in_front_def)

definition qqbot_media :: qqbot_request where
  "qqbot_media =
     \<lparr>qq_delivery_id = ''a'', qq_recipient = ''u'', qq_action = ''msg'', qq_params = ''{}'',
      qq_logical = None, qq_media_file_type = Some 1, qq_media_data = Some ''png'', qq_now = 0\<rparr>"

definition qqbot_says :: "qqbot_outcome \<Rightarrow> qqbot_event" where
  "qqbot_says w = \<lparr>qe_check_at = 9, qe_wait_cancelled = False, qe_begin_at = 9, qe_outcome = w,
     qe_mark_at = 9, qe_jitter = 0\<rparr>"

definition qqbot_history :: "(qqbot_request, qqbot_event) outbox_event list" where
  "qqbot_history = [Enqueue qqbot_media, Deliver ''a'' [qqbot_says QqKilled] 20,
     Deliver ''a'' [qqbot_says (QqResponded ''m''), qqbot_says (QqRejected ''limit''), qqbot_says (QqResponded ''ok'')] 30]"

lemma qqbot_history_run:
  "map_option (\<lambda>s. map (\<lambda>r. (dl_id r, dl_status r, dl_attempts r)) (ob_rows s))
     (outbox_run (qqbot_ops True 1) 3 qqbot_history empty_outbox) = Some [(''a'', Accepted, 2)]"
  by code_simp

theorem qqbot_resends_only_after_refusal_witness:
  "\<exists>s. outbox_run (qqbot_ops True 1) 3 qqbot_history empty_outbox = Some s \<and>
     length (sends ''a'' (ob_log s)) = 2 \<and> list_all qqbot_refused (butlast (sends ''a'' (ob_log s)))"
proof -
  obtain s a where s: "outbox_run (qqbot_ops True 1) 3 qqbot_history empty_outbox = Some s"
    and rows: "ob_rows s = [a]" "dl_id a = ''a''" "dl_attempts a = 2"
    using qqbot_history_run by (auto simp: map_eq_Cons_conv)
  from qqbot_resends_only_after_refusal [OF _ s, of a] rows s show ?thesis by auto
qed

end
