(* ===== verification/Outbox_WeCom.thy ===== *)
theory Outbox_WeCom
  imports Outbox_Core
begin

text \<open>
  The WeCom outbox: \<open>WecomOutboxService\<close> of \<open>plugins/im_wecom_adapter/outbox.py\<close>, its outbound
  half. It has no retries and no order between the deliveries of a recipient: a delivery is sent once,
  and an unknown outcome is quarantined. Parameters and responses are their JSON texts. A delivery
  runs under the lock of its recipient, so it is one step here.
\<close>

section \<open>Rows\<close>

record wecom_delivery =
  wd_id :: string
  wd_recipient :: string
  wd_action :: string
  wd_params :: string
  wd_status :: status
  wd_attempts :: nat
  wd_upstream_accepted :: bool
  wd_client_received :: "bool option"
  wd_response :: "string option"
  wd_error :: "string option"
  wd_created_at :: seconds
  wd_updated_at :: seconds
  wd_accepted_at :: "seconds option"
  wd_ambiguous_at :: "seconds option"

definition wecom_enqueue ::
    "string \<Rightarrow> string \<Rightarrow> string \<Rightarrow> string \<Rightarrow> seconds \<Rightarrow> wecom_delivery list \<Rightarrow>
     (wecom_delivery \<times> wecom_delivery list) option" where
  "wecom_enqueue did recipient action params now rows =
     (if did = [] \<or> 64 < length did \<or> recipient = [] \<or> 256 < length recipient then None
      else case find_row wd_id did rows of
             Some r \<Rightarrow> Some (r, rows)
           | None \<Rightarrow>
               (let r = \<lparr>wd_id = did, wd_recipient = recipient, wd_action = action, wd_params = params,
                         wd_status = Queued, wd_attempts = 0, wd_upstream_accepted = False,
                         wd_client_received = None, wd_response = None, wd_error = None,
                         wd_created_at = now, wd_updated_at = now, wd_accepted_at = None,
                         wd_ambiguous_at = None\<rparr>
                in Some (r, rows @ [r])))"

section \<open>Updates\<close>

text \<open>What the sender does: an answer, none, a cancellation, a time-out or a connection or operating
  system error, another exception, or the process stops.\<close>

datatype wecom_outcome =
    WcResponse string
  | WcNoResult
  | WcCancelled
  | WcConnection string
  | WcException string
  | WcKilled

definition wecom_begin :: "seconds \<Rightarrow> wecom_delivery \<Rightarrow> wecom_delivery" where
  "wecom_begin now r = r\<lparr>wd_status := Sending, wd_attempts := wd_attempts r + 1, wd_updated_at := now\<rparr>"

definition wecom_accepted :: "seconds \<Rightarrow> string \<Rightarrow> wecom_delivery \<Rightarrow> wecom_delivery" where
  "wecom_accepted now response r =
     r\<lparr>wd_status := Accepted, wd_upstream_accepted := True, wd_client_received := None,
       wd_response := Some response, wd_error := None, wd_accepted_at := Some now, wd_updated_at := now\<rparr>"

definition wecom_ambiguous :: "seconds \<Rightarrow> string \<Rightarrow> wecom_delivery \<Rightarrow> wecom_delivery" where
  "wecom_ambiguous now err r =
     r\<lparr>wd_status := Ambiguous, wd_upstream_accepted := False, wd_client_received := None,
       wd_error := Some (error_text ''WeCom upstream result is unknown'' err), wd_ambiguous_at := Some now,
       wd_updated_at := now\<rparr>"

definition wecom_dead_letter :: "seconds \<Rightarrow> string \<Rightarrow> wecom_delivery \<Rightarrow> wecom_delivery" where
  "wecom_dead_letter now err r =
     r\<lparr>wd_status := DeadLetter, wd_error := Some (error_text ''WeCom delivery failed'' err), wd_updated_at := now\<rparr>"

definition wecom_settle :: "seconds \<Rightarrow> wecom_outcome \<Rightarrow> wecom_delivery \<Rightarrow> wecom_delivery" where
  "wecom_settle now w r =
     (case w of
        WcResponse x \<Rightarrow> wecom_accepted now x r
      | WcNoResult \<Rightarrow> wecom_dead_letter now ''WeCom API returned no result'' r
      | WcCancelled \<Rightarrow> wecom_ambiguous now ''delivery cancelled during WeCom send'' r
      | WcConnection e \<Rightarrow> wecom_ambiguous now e r
      | WcException e \<Rightarrow> wecom_dead_letter now e r
      | WcKilled \<Rightarrow> r)"

section \<open>Calls\<close>

datatype wecom_result = WcMissing | WcReturned wecom_delivery | WcRaisedCancelled | WcDied

definition wecom_deliver ::
    "string \<Rightarrow> seconds \<Rightarrow> wecom_outcome \<Rightarrow> seconds \<Rightarrow> wecom_delivery list \<Rightarrow>
     wecom_result \<times> wecom_delivery list \<times> bool" where
  "wecom_deliver did begin_at w mark_at rows =
     (case find_row wd_id did rows of
        None \<Rightarrow> (WcMissing, rows, False)
      | Some r \<Rightarrow>
          if terminal (wd_status r) then (WcReturned r, rows, False)
          else (let r' = wecom_settle mark_at w (wecom_begin begin_at r)
                in (case w of WcCancelled \<Rightarrow> WcRaisedCancelled | WcKilled \<Rightarrow> WcDied | _ \<Rightarrow> WcReturned r',
                    update_row wd_id did (\<lambda>_. r') rows, True)))"

definition wecom_recover :: "seconds \<Rightarrow> wecom_delivery list \<Rightarrow> nat \<times> wecom_delivery list" where
  "wecom_recover now rows =
     (length (filter (\<lambda>r. wd_status r = Sending) rows),
      map (\<lambda>r. if wd_status r = Sending
               then wecom_ambiguous now ''process stopped while WeCom upstream message result was unknown'' r
               else r) rows)"

definition wecom_pending_ids :: "wecom_delivery list \<Rightarrow> string list" where
  "wecom_pending_ids rows = map wd_id (sort_key wd_created_at (filter (\<lambda>r. wd_status r = Queued) rows))"

definition wecom_status_counts :: "wecom_delivery list \<Rightarrow> (status \<times> nat) list" where
  "wecom_status_counts rows =
     map (\<lambda>s. (s, length (filter (\<lambda>r. wd_status r = s) rows))) [Queued, Sending, Accepted, Ambiguous, DeadLetter]"

section \<open>Histories\<close>

text \<open>A process that dies in a delivery is restarted, and the start recovers the table. The log lists
  the deliveries whose sender ran.\<close>

datatype wecom_event =
    WeEnqueue string string string string seconds
  | WeDeliver string seconds wecom_outcome seconds
  | WeRestart seconds

fun wecom_step :: "wecom_event \<Rightarrow> wecom_delivery list \<times> string list \<Rightarrow> wecom_delivery list \<times> string list" where
  "wecom_step (WeEnqueue did recipient action params now) (rows, sent) =
     (case wecom_enqueue did recipient action params now rows of None \<Rightarrow> (rows, sent) | Some (_, rows') \<Rightarrow> (rows', sent))"
| "wecom_step (WeDeliver did begin_at w mark_at) (rows, sent) =
     (case wecom_deliver did begin_at w mark_at rows of
        (res, rows', went) \<Rightarrow>
          (if res = WcDied then snd (wecom_recover mark_at rows') else rows', if went then sent @ [did] else sent))"
| "wecom_step (WeRestart now) (rows, sent) = (snd (wecom_recover now rows), sent)"

text \<open>Between calls a row waits unsent, or it is settled and was sent once.\<close>

definition wecom_row_ok :: "string list \<Rightarrow> wecom_delivery \<Rightarrow> bool" where
  "wecom_row_ok sent r =
     (count_list sent (wd_id r) = wd_attempts r \<and>
      (wd_status r = Queued \<and> wd_attempts r = 0 \<or> terminal (wd_status r) \<and> wd_attempts r = 1))"

definition wecom_inv :: "wecom_delivery list \<times> string list \<Rightarrow> bool" where
  "wecom_inv s =
     (case s of (rows, sent) \<Rightarrow>
        distinct (map wd_id rows) \<and> set sent \<subseteq> wd_id ` set rows \<and> list_all (wecom_row_ok sent) rows)"

lemma idle_rows: "wecom_inv (rows, sent) \<Longrightarrow> r \<in> set rows \<Longrightarrow> wd_status r \<noteq> Sending"
  by (auto simp: wecom_inv_def wecom_row_ok_def list_all_iff)

lemma wecom_recover_idle: "wecom_inv (rows, sent) \<Longrightarrow> snd (wecom_recover now rows) = rows"
  using idle_rows by (auto simp: wecom_recover_def intro!: map_idI)

lemma wecom_update_simps [simp]:
  "wd_id (wecom_begin t r) = wd_id r" "wd_attempts (wecom_begin t r) = wd_attempts r + 1"
  "wd_status (wecom_begin t r) = Sending"
  "wd_id (wecom_settle t w r) = wd_id r" "wd_attempts (wecom_settle t w r) = wd_attempts r"
  by (simp_all add: wecom_begin_def wecom_settle_def wecom_accepted_def wecom_ambiguous_def wecom_dead_letter_def
      split: wecom_outcome.split)

lemma settled_status:
  "wd_status (wecom_settle t w (wecom_begin t' r)) = Sending \<longleftrightarrow> w = WcKilled"
  "w \<noteq> WcKilled \<Longrightarrow> terminal (wd_status (wecom_settle t w (wecom_begin t' r)))"
  by (cases w; simp add: wecom_settle_def wecom_accepted_def wecom_ambiguous_def wecom_dead_letter_def)+

lemma enqueue_inv:
  assumes "wecom_inv (rows, sent)" "wecom_enqueue did recipient action params now rows = Some (r, rows')"
  shows "wecom_inv (rows', sent)"
proof (cases "find_row wd_id did rows")
  case None
  then have fresh: "did \<notin> wd_id ` set rows" by (simp add: find_row_None)
  moreover from fresh assms(1) have "count_list sent did = 0"
    by (auto simp: wecom_inv_def count_list_0_iff)
  ultimately show ?thesis
    using assms None by (auto simp: wecom_enqueue_def wecom_inv_def wecom_row_ok_def Let_def split: if_splits)
next
  case (Some r)
  with assms show ?thesis by (auto simp: wecom_enqueue_def split: if_splits)
qed

lemma deliver_inv:
  assumes "wecom_inv (rows, sent)" "wecom_deliver did t w t' rows = (res, rows', went)"
  shows "wecom_inv (if res = WcDied then snd (wecom_recover t' rows') else rows', if went then sent @ [did] else sent)"
proof (cases "find_row wd_id did rows")
  case None
  with assms show ?thesis by (auto simp: wecom_deliver_def)
next
  case (Some r)
  from find_row_SomeD [OF Some] have r: "r \<in> set rows" "wd_id r = did" by auto
  show ?thesis
  proof (cases "terminal (wd_status r)")
    case True
    with assms Some show ?thesis by (auto simp: wecom_deliver_def)
  next
    case False
    from assms(1) r False have queued: "wd_attempts r = 0" "count_list sent did = 0"
      by (auto simp: wecom_inv_def wecom_row_ok_def list_all_iff)
    let ?r = "wecom_settle t' w (wecom_begin t r)"
    from assms(2) Some False have res: "rows' = update_row wd_id did (\<lambda>_. ?r) rows" "went" "res = WcDied \<longleftrightarrow> w = WcKilled"
      by (auto simp: wecom_deliver_def Let_def split: wecom_outcome.splits)
    define final where "final = (if wd_status ?r = Sending
      then wecom_ambiguous t' ''process stopped while WeCom upstream message result was unknown'' ?r else ?r)"
    have final: "wd_id final = did" "wd_attempts final = 1" "terminal (wd_status final)"
      using settled_status [where t = t' and w = w and t' = t and r = r] queued r
      by (cases "w = WcKilled"; simp add: final_def wecom_ambiguous_def)+
    have idle: "wd_status q \<noteq> Sending" if "q \<in> set rows" for q
      using assms(1) that by (auto simp: wecom_inv_def wecom_row_ok_def list_all_iff)
    have rows: "(if res = WcDied then snd (wecom_recover t' rows') else rows') = update_row wd_id did (\<lambda>_. final) rows"
    proof (cases "w = WcKilled")
      case True
      with res idle settled_status(1) [where t = t' and w = w and t' = t and r = r] show ?thesis
        by (auto simp: wecom_recover_def update_row_def final_def)
    next
      case False
      with res settled_status(1) [where t = t' and w = w and t' = t and r = r] show ?thesis by (simp add: final_def)
    qed
    have keys: "map wd_id (update_row wd_id did (\<lambda>_. final) rows) = map wd_id rows"
      using final(1) by (simp add: update_row_def)
    have "wecom_row_ok (sent @ [did]) q'" if "q' \<in> set (update_row wd_id did (\<lambda>_. final) rows)" for q'
      using that assms(1) final queued
      by (auto simp: set_update_row wecom_inv_def wecom_row_ok_def list_all_iff)
    moreover have "set (sent @ [did]) \<subseteq> wd_id ` set (update_row wd_id did (\<lambda>_. final) rows)"
    proof -
      have "wd_id ` set (update_row wd_id did (\<lambda>_. final) rows) = wd_id ` set rows"
        using keys by (metis list.set_map)
      with assms(1) r show ?thesis by (auto simp: wecom_inv_def)
    qed
    ultimately show ?thesis
      using assms(1) res(2) unfolding rows by (simp add: wecom_inv_def keys list_all_iff)
  qed
qed

interpretation wecom_outbox: invariant_machine wecom_step wecom_inv
proof
  fix s e
  assume inv: "wecom_inv s"
  obtain rows sent where s: "s = (rows, sent)" by (cases s)
  from inv show "wecom_inv (wecom_step e s)"
    unfolding s by (cases e) (auto simp: enqueue_inv deliver_inv wecom_recover_idle split: option.splits prod.split)
qed

text \<open>C38. A WeCom message is sent at most once. In any sequence of enqueues, deliveries and restarts, with
  any outcomes - errors, time-outs, cancellations, a process that stops during the send - the
  sender runs at most once for a delivery, and afterwards every delivery is waiting unsent or
  settled.\<close>

theorem wecom_sends_at_most_once:
  "case fold wecom_step es ([], []) of
     (rows, sent) \<Rightarrow> count_list sent did \<le> 1 \<and> list_all (\<lambda>r. wd_status r = Queued \<or> terminal (wd_status r)) rows"
proof -
  obtain rows sent where run: "fold wecom_step es ([], []) = (rows, sent)" by fastforce
  have "wecom_inv (rows, sent)"
    unfolding run [symmetric] by (rule wecom_outbox.run_inv) (simp add: wecom_inv_def)
  then have "count_list sent did \<le> 1" "list_all (\<lambda>r. wd_status r = Queued \<or> terminal (wd_status r)) rows"
    by (cases "did \<in> set sent"; force simp: wecom_inv_def wecom_row_ok_def list_all_iff count_list_0_iff)+
  with run show ?thesis by simp
qed

end
