(* ===== verification/Inbound_Receipts.thy ===== *)
theory Inbound_Receipts
  imports Kirara_Prelude
begin

text \<open>
  Durable deduplication of inbound events (\<open>kirara_ai/im/inbound_receipts.py\<close>,
  \<open>InboundReceiptService\<close>): a table of receipts shared by all channels and adapter instances,
  and the operations of one service on it. Each operation is one transaction under the
  service's lock. A key the service rejects (\<open>ValueError\<close>) is \<open>None\<close>.
\<close>

section \<open>Receipts\<close>

datatype receipt_status = Processing | Retryable | Completed

text \<open>The unique constraint of the table: channel, adapter instance and event key.\<close>

type_synonym receipt_key = "string \<times> string \<times> string"

record receipt =
  rc_key :: receipt_key
  rc_chat_key :: string
  rc_payload :: "string option"
  rc_status :: receipt_status
  rc_created_at :: seconds
  rc_updated_at :: seconds
  rc_completed_at :: "seconds option"

record receipt_service =
  rs_channel :: string
  rs_instance :: string

definition new_receipt_service :: "string \<Rightarrow> string \<Rightarrow> receipt_service option" where
  "new_receipt_service channel instance_name =
     (if str_strip channel = [] \<or> str_strip instance_name = [] then None
      else Some \<lparr>rs_channel = take 32 (str_strip channel), rs_instance = take 128 (str_strip instance_name)\<rparr>)"

definition normalize_event_key :: "string \<Rightarrow> string option" where
  "normalize_event_key k =
     (let value = str_strip k in if value = [] \<or> 128 < length value then None else Some value)"

definition service_key :: "receipt_service \<Rightarrow> string \<Rightarrow> receipt_key" where
  "service_key svc k = (rs_channel svc, rs_instance svc, k)"

definition of_service :: "receipt_service \<Rightarrow> receipt \<Rightarrow> bool" where
  "of_service svc r \<longleftrightarrow> fst (rc_key r) = rs_channel svc \<and> fst (snd (rc_key r)) = rs_instance svc"

section \<open>Operations\<close>

text \<open>The row updates.\<close>

datatype receipt_update =
    Reclaim string "string option" seconds
  | Finish seconds
  | Release seconds

fun receipt_upd :: "receipt_update \<Rightarrow> receipt \<Rightarrow> receipt" where
  "receipt_upd (Reclaim chat payload now) r =
     r\<lparr>rc_chat_key := take 256 chat,
       rc_payload := (case payload of None \<Rightarrow> rc_payload r | Some p \<Rightarrow> Some p),
       rc_status := Processing, rc_updated_at := now, rc_completed_at := None\<rparr>"
| "receipt_upd (Finish now) r =
     r\<lparr>rc_status := Completed, rc_payload := None, rc_completed_at := Some now, rc_updated_at := now\<rparr>"
| "receipt_upd (Release now) r =
     r\<lparr>rc_status := Retryable, rc_updated_at := now, rc_completed_at := None\<rparr>"

definition claim_receipt ::
  "receipt_service \<Rightarrow> string \<Rightarrow> string \<Rightarrow> string option \<Rightarrow> seconds \<Rightarrow> receipt list \<Rightarrow> (bool \<times> receipt list) option" where
  "claim_receipt svc event_key chat payload now rows =
     (case normalize_event_key event_key of
        None \<Rightarrow> None
      | Some k \<Rightarrow>
          (case find_row rc_key (service_key svc k) rows of
             Some r \<Rightarrow>
               (if rc_status r \<noteq> Retryable then Some (False, rows)
                else Some (True, update_row rc_key (service_key svc k)
                       (receipt_upd (Reclaim chat payload now)) rows))
           | None \<Rightarrow>
               Some (True, rows @ [\<lparr>rc_key = service_key svc k, rc_chat_key = take 256 chat,
                 rc_payload = payload, rc_status = Processing, rc_created_at = now,
                 rc_updated_at = now, rc_completed_at = None\<rparr>])))"

definition complete_receipt :: "receipt_service \<Rightarrow> string \<Rightarrow> seconds \<Rightarrow> receipt list \<Rightarrow> receipt list option" where
  "complete_receipt svc event_key now rows =
     (case normalize_event_key event_key of
        None \<Rightarrow> None
      | Some k \<Rightarrow> Some (update_row rc_key (service_key svc k) (receipt_upd (Finish now)) rows))"

definition retry_receipt :: "receipt_service \<Rightarrow> string \<Rightarrow> seconds \<Rightarrow> receipt list \<Rightarrow> receipt list option" where
  "retry_receipt svc event_key now rows =
     (case normalize_event_key event_key of
        None \<Rightarrow> None
      | Some k \<Rightarrow>
          (case find_row rc_key (service_key svc k) rows of
             None \<Rightarrow> Some rows
           | Some r \<Rightarrow>
               (if rc_status r = Completed then Some rows
                else Some (update_row rc_key (service_key svc k) (receipt_upd (Release now)) rows))))"

definition recover_receipts :: "receipt_service \<Rightarrow> seconds \<Rightarrow> receipt list \<Rightarrow> nat \<times> receipt list" where
  "recover_receipts svc now rows =
     (length (filter (\<lambda>r. of_service svc r \<and> rc_status r = Processing) rows),
      map (\<lambda>r. if of_service svc r \<and> rc_status r = Processing then receipt_upd (Release now) r else r) rows)"

definition receipt_counts :: "receipt_service \<Rightarrow> receipt list \<Rightarrow> receipt_status \<Rightarrow> nat" where
  "receipt_counts svc rows st = length (filter (\<lambda>r. of_service svc r \<and> rc_status r = st) rows)"

section \<open>Histories\<close>

datatype receipt_event =
    Claim string string "string option" seconds
  | Complete string seconds
  | RetryEvent string seconds
  | Recover seconds

text \<open>One call, with the normalised key it claimed, if it did.\<close>

fun receipt_step :: "receipt_service \<Rightarrow> receipt_event \<Rightarrow> receipt list \<Rightarrow> receipt list \<times> string option" where
  "receipt_step svc (Claim k chat payload now) rows =
     (case claim_receipt svc k chat payload now rows of
        Some (True, rows') \<Rightarrow> (rows', normalize_event_key k)
      | _ \<Rightarrow> (rows, None))"
| "receipt_step svc (Complete k now) rows =
     (case complete_receipt svc k now rows of Some rows' \<Rightarrow> (rows', None) | None \<Rightarrow> (rows, None))"
| "receipt_step svc (RetryEvent k now) rows =
     (case retry_receipt svc k now rows of Some rows' \<Rightarrow> (rows', None) | None \<Rightarrow> (rows, None))"
| "receipt_step svc (Recover now) rows = (snd (recover_receipts svc now rows), None)"

fun claims :: "receipt_service \<Rightarrow> receipt_event list \<Rightarrow> receipt list \<Rightarrow> string list" where
  "claims svc [] rows = []"
| "claims svc (e # es) rows =
     (case receipt_step svc e rows of
        (rows', Some k) \<Rightarrow> k # claims svc es rows'
      | (rows', None) \<Rightarrow> claims svc es rows')"

lemma claims_step:
  "claims svc (e # es) rows =
     (case snd (receipt_step svc e rows) of None \<Rightarrow> [] | Some x \<Rightarrow> [x]) @
     claims svc es (fst (receipt_step svc e rows))"
  by (cases "receipt_step svc e rows") (auto split: option.split)

text \<open>The calls that open the event \<open>k\<close> again.\<close>

fun releases :: "string \<Rightarrow> receipt_event \<Rightarrow> bool" where
  "releases k (RetryEvent k' now) = (normalize_event_key k' = Some k)"
| "releases k (Recover now) = True"
| "releases k _ = False"

section \<open>The life of one event\<close>

lemma receipt_upd_key [simp]: "rc_key (receipt_upd u r) = rc_key r"
  by (cases u) simp_all

interpretation receipts: keyed_rows rc_key receipt_upd
  by unfold_locales simp

definition status_of :: "receipt_service \<Rightarrow> string \<Rightarrow> receipt list \<Rightarrow> receipt_status option" where
  "status_of svc k rows = map_option rc_status (find_row rc_key (service_key svc k) rows)"

text \<open>The life cycle the code promises: claimed, released and claimed again any number of times,
  finished once and for all.\<close>

inductive receipt_edge :: "receipt_status option \<Rightarrow> receipt_status option \<Rightarrow> bool" where
  first_claim: "receipt_edge None (Some Processing)"
| claim_again: "receipt_edge (Some Retryable) (Some Processing)"
| release: "receipt_edge (Some Processing) (Some Retryable)"
| finish: "c \<noteq> Completed \<Longrightarrow> receipt_edge (Some c) (Some Completed)"

inductive_cases edge_from_completed: "receipt_edge (Some Completed) c"

lemma service_key_inj [simp]: "service_key svc k = service_key svc k' \<longleftrightarrow> k = k'"
  by (simp add: service_key_def)

lemma of_service_key: "rc_key r = service_key svc k \<Longrightarrow> of_service svc r"
  by (simp add: of_service_def service_key_def)

lemma find_recover:
  "find_row rc_key (service_key svc k) (snd (recover_receipts svc now rows)) =
     map_option (\<lambda>r. if rc_status r = Processing then receipt_upd (Release now) r else r)
       (find_row rc_key (service_key svc k) rows)"
  by (induction rows) (auto simp: recover_receipts_def table_simps of_service_key)

text \<open>The status of an event after one call.\<close>

fun next_status :: "receipt_event \<Rightarrow> string \<Rightarrow> receipt_status option \<Rightarrow> receipt_status option" where
  "next_status (Claim k' chat payload now) k st =
     (if normalize_event_key k' = Some k \<and> (st = None \<or> st = Some Retryable) then Some Processing else st)"
| "next_status (Complete k' now) k st =
     (if normalize_event_key k' = Some k then map_option (\<lambda>_. Completed) st else st)"
| "next_status (RetryEvent k' now) k st =
     (if normalize_event_key k' = Some k
      then map_option (\<lambda>c. if c = Completed then Completed else Retryable) st else st)"
| "next_status (Recover now) k st =
     map_option (\<lambda>c. if c = Processing then Retryable else c) st"

lemma status_step:
  "status_of svc k (fst (receipt_step svc e rows)) = next_status e k (status_of svc k rows)"
proof (cases e)
  case (Claim k' chat payload now)
  then show ?thesis
    by (auto simp: claim_receipt_def status_of_def find_row_append table_simps receipts.find_update
        split: option.splits)
next
  case (Complete k' now)
  then show ?thesis
    by (auto simp: complete_receipt_def status_of_def receipts.find_update option.map_comp comp_def
        split: option.splits)
next
  case (RetryEvent k' now)
  then show ?thesis
    by (auto simp: retry_receipt_def status_of_def receipts.find_update split: option.splits)
next
  case (Recover now)
  then show ?thesis
    by (auto simp: status_of_def find_recover option.map_comp comp_def
        intro!: option.map_cong0)
qed

lemma claim_step:
  "snd (receipt_step svc e rows) = Some k \<longleftrightarrow>
     (\<exists>k' chat payload now. e = Claim k' chat payload now \<and> normalize_event_key k' = Some k \<and>
        status_of svc k rows \<in> {None, Some Retryable})"
  by (cases e) (auto simp: claim_receipt_def complete_receipt_def retry_receipt_def status_of_def split: option.splits)

text \<open>Every call moves the event along at most one edge of its life cycle.\<close>

lemma step_edge:
  "receipt_edge\<^sup>*\<^sup>* (status_of svc k rows) (status_of svc k (fst (receipt_step svc e rows)))"
proof -
  have "receipt_edge\<^sup>*\<^sup>* st (next_status e k st)" for st
  proof (cases st)
    case None
    then show ?thesis by (cases e) (auto intro: receipt_edge.intros)
  next
    case (Some c)
    then show ?thesis by (cases e; cases c) (auto intro: receipt_edge.intros)
  qed
  then show ?thesis by (simp add: status_step)
qed

interpretation receipt_life: refining_machine
  "\<lambda>e rows. fst (receipt_step svc e rows)" "\<lambda>_. True" "status_of svc k" receipt_edge
  by unfold_locales (simp_all add: step_edge)

section \<open>Properties\<close>

lemma completed_stays:
  "status_of svc k rows = Some Completed \<Longrightarrow> k \<notin> set (claims svc es rows)"
proof (induction es arbitrary: rows)
  case (Cons e es)
  have "snd (receipt_step svc e rows) \<noteq> Some k" using Cons.prems by (simp add: claim_step)
  moreover have "status_of svc k (fst (receipt_step svc e rows)) = Some Completed"
    unfolding status_step Cons.prems by (cases e) auto
  ultimately show ?case
    using Cons.IH [of "fst (receipt_step svc e rows)"]
    by (cases "receipt_step svc e rows") (auto split: option.split)
qed simp

lemma claimed_once:
  "list_all (\<lambda>e. \<not> releases k e) es \<Longrightarrow>
   count_list (claims svc es rows) k \<le>
     (if status_of svc k rows \<in> {None, Some Retryable} then 1 else 0)"
proof (induction es arbitrary: rows)
  case (Cons e es)
  define rows' where "rows' = fst (receipt_step svc e rows)"
  have st: "status_of svc k rows' = next_status e k (status_of svc k rows)"
    by (simp add: rows'_def status_step)
  have ih: "count_list (claims svc es rows') k \<le>
      (if status_of svc k rows' \<in> {None, Some Retryable} then 1 else 0)"
    using Cons by simp
  have run: "claims svc (e # es) rows =
      (case snd (receipt_step svc e rows) of None \<Rightarrow> [] | Some x \<Rightarrow> [x]) @ claims svc es rows'"
    by (simp only: rows'_def claims_step)
  show ?case
  proof (cases "snd (receipt_step svc e rows) = Some k")
    case True
    then have "status_of svc k rows \<in> {None, Some Retryable}" "status_of svc k rows' = Some Processing"
      by (auto simp: claim_step st)
    with True run ih show ?thesis by simp
  next
    case False
    then have "count_list (claims svc (e # es) rows) k = count_list (claims svc es rows') k"
      using run by (auto split: option.split)
    moreover have "status_of svc k rows' \<in> {None, Some Retryable} \<longrightarrow>
        status_of svc k rows \<in> {None, Some Retryable}"
      using Cons.prems by (cases e) (auto simp: st split: if_splits)
    ultimately show ?thesis using ih by (auto simp del: claims.simps split: if_splits)
  qed
qed simp

text \<open>C25. An inbound event is processed by one owner at a time: between two successful claims of
  the same event lies a call that released it, a retry of this event or a restart. In any
  calls without one, at most one claim succeeds, whatever the rest of the table holds.\<close>

theorem claimed_at_most_once:
  assumes "list_all (\<lambda>e. \<not> releases k e) es"
  shows "count_list (claims svc es rows) k \<le> 1"
  using claimed_once [OF assms, of svc rows] by (auto split: if_splits)

definition example_service :: receipt_service where
  "example_service = \<lparr>rs_channel = ''onebot'', rs_instance = ''main''\<rparr>"

theorem claimed_at_most_once_witness:
  "count_list (claims example_service
     [Claim ''e1'' ''c'' None 1, Claim '' e1 '' ''c'' None 2, Complete ''e1'' 3, Claim ''e1'' ''c'' None 4] [])
     ''e1'' \<le> 1"
  using claimed_at_most_once [of "''e1''"
    "[Claim ''e1'' ''c'' None 1, Claim '' e1 '' ''c'' None 2, Complete ''e1'' 3, Claim ''e1'' ''c'' None 4]"]
  by simp

text \<open>A finished event is never handed out again and an interrupted one is not lost: after a
  completion of a claimed event no later claim of it succeeds, whatever follows; after a
  restart the next claim of an event that was being processed succeeds.\<close>

theorem finished_once_interrupted_reopened:
  assumes "normalize_event_key event_key = Some k" "status_of svc k rows = Some Processing"
  shows "k \<notin> set (claims svc es (fst (receipt_step svc (Complete event_key now) rows))) \<and>
    claims svc [Recover now, Claim event_key chat payload later] rows = [k]"
proof
  have "status_of svc k (fst (receipt_step svc (Complete event_key now) rows)) = Some Completed"
    unfolding status_step using assms by simp
  then show "k \<notin> set (claims svc es (fst (receipt_step svc (Complete event_key now) rows)))"
    by (rule completed_stays)
  define rows' where "rows' = snd (recover_receipts svc now rows)"
  have "status_of svc k rows' = Some Retryable"
    using status_step [of svc k "Recover now" rows] assms(2) by (simp add: rows'_def)
  then have "snd (receipt_step svc (Claim event_key chat payload later) rows') = Some k"
    using assms(1) by (simp add: claim_step del: receipt_step.simps)
  then show "claims svc [Recover now, Claim event_key chat payload later] rows = [k]"
    by (cases "receipt_step svc (Claim event_key chat payload later) rows'")
      (simp add: rows'_def [symmetric] del: receipt_step.simps(1))
qed

theorem finished_once_interrupted_reopened_witness:
  "claims example_service [Claim ''e1'' ''c'' None 1, Recover 2, Claim ''e1'' ''c'' None 3] [] = [''e1'', ''e1'']"
proof -
  define rows where "rows = fst (receipt_step example_service (Claim ''e1'' ''c'' None 1) [])"
  have k: "normalize_event_key ''e1'' = Some ''e1''" by code_simp
  have "status_of example_service ''e1'' rows = Some Processing"
    unfolding rows_def by code_simp
  from finished_once_interrupted_reopened [OF k this, of "[]" 2 "''c''" None 3]
  have "claims example_service [Recover 2, Claim ''e1'' ''c'' None 3] rows = [''e1'']" by blast
  moreover have "snd (receipt_step example_service (Claim ''e1'' ''c'' None 1) []) = Some ''e1''"
    by code_simp
  ultimately show ?thesis
    unfolding claims_step [where rows = "[]"] rows_def by (simp del: claims.simps receipt_step.simps)
qed

end
