(* ===== verification/Channel_Receipts.thy ===== *)
theory Channel_Receipts
  imports Inbound_Receipts
begin

text \<open>
  The inbound tables of the Telegram and WeCom adapters (\<open>outbox.py\<close> of each adapter), which keep
  their own receipts, and the contract the three tables of receipts share: the locale
  \<open>receipt_contract\<close>, interpreted on each of them.
\<close>

section \<open>The contract\<close>

text \<open>What a call asks of one event: a claim, its completion, its release, or the release of every event
  that was being processed.\<close>

datatype 'k receipt_op = OpClaim 'k | OpComplete 'k | OpRetry 'k | OpRecover

fun op_status :: "'k receipt_op option \<Rightarrow> 'k \<Rightarrow> receipt_status option \<Rightarrow> receipt_status option" where
  "op_status (Some (OpClaim k')) k st =
     (if k' = k \<and> (st = None \<or> st = Some Retryable) then Some Processing else st)"
| "op_status (Some (OpComplete k')) k st = (if k' = k then map_option (\<lambda>_. Completed) st else st)"
| "op_status (Some (OpRetry k')) k st =
     (if k' = k then map_option (\<lambda>c. if c = Completed then Completed else Retryable) st else st)"
| "op_status (Some OpRecover) k st = map_option (\<lambda>c. if c = Processing then Retryable else c) st"
| "op_status None k st = st"

definition op_releases :: "'k \<Rightarrow> 'k receipt_op option \<Rightarrow> bool" where
  "op_releases k x = (x = Some (OpRetry k) \<or> x = Some OpRecover)"

lemma op_status_completed [simp]: "op_status x k (Some Completed) = Some Completed"
  by (cases "(x, k, Some Completed)" rule: op_status.cases) auto

lemma op_status_open:
  "\<not> op_releases k x \<Longrightarrow> op_status x k st \<in> {None, Some Retryable} \<Longrightarrow> st \<in> {None, Some Retryable}"
  by (cases "(x, k, st)" rule: op_status.cases) (auto simp: op_releases_def split: if_splits)

locale receipt_contract =
  fixes status :: "'s \<Rightarrow> 'k \<Rightarrow> receipt_status option"
    and apply_call :: "'e \<Rightarrow> 's \<Rightarrow> 's \<times> 'k option"
    and request :: "'e \<Rightarrow> 'k receipt_op option"
  assumes status_apply: "status (fst (apply_call e s)) k = op_status (request e) k (status s k)"
    and claim_apply: "snd (apply_call e s) = Some k \<longleftrightarrow>
      request e = Some (OpClaim k) \<and> status s k \<in> {None, Some Retryable}"
begin

fun handed_out :: "'e list \<Rightarrow> 's \<Rightarrow> 'k list" where
  "handed_out [] s = []"
| "handed_out (e # es) s =
     (case snd (apply_call e s) of None \<Rightarrow> [] | Some k \<Rightarrow> [k]) @ handed_out es (fst (apply_call e s))"

lemma completed_for_good: "status s k = Some Completed \<Longrightarrow> k \<notin> set (handed_out es s)"
proof (induction es arbitrary: s)
  case (Cons e es)
  have "status (fst (apply_call e s)) k = Some Completed"
    using Cons.prems by (simp add: status_apply)
  moreover have "snd (apply_call e s) \<noteq> Some k" using Cons.prems by (simp add: claim_apply)
  ultimately show ?case using Cons.IH by (auto split: option.split)
qed simp

lemma handed_out_once:
  "list_all (\<lambda>e. \<not> op_releases k (request e)) es \<Longrightarrow>
     count_list (handed_out es s) k \<le> (if status s k \<in> {None, Some Retryable} then 1 else 0)"
proof (induction es arbitrary: s)
  case (Cons e es)
  let ?s = "fst (apply_call e s)"
  have ih: "count_list (handed_out es ?s) k \<le> (if status ?s k \<in> {None, Some Retryable} then 1 else 0)"
    using Cons by simp
  show ?case
  proof (cases "snd (apply_call e s) = Some k")
    case True
    then have "request e = Some (OpClaim k)" "status s k \<in> {None, Some Retryable}" by (auto simp: claim_apply)
    moreover from this have "status ?s k = Some Processing" by (auto simp: status_apply)
    ultimately show ?thesis using True ih by simp
  next
    case False
    have "status s k \<in> {None, Some Retryable}" if "status ?s k \<in> {None, Some Retryable}"
      using that Cons.prems op_status_open [of k "request e" "status s k"] by (simp add: status_apply)
    with False ih show ?thesis by (auto split: option.split if_splits)
  qed
qed simp

end

text \<open>The shared service of \<open>im/inbound_receipts.py\<close> meets the contract.\<close>

fun receipt_request :: "receipt_event \<Rightarrow> string receipt_op option" where
  "receipt_request (Claim k chat payload now) = map_option OpClaim (normalize_event_key k)"
| "receipt_request (Complete k now) = map_option OpComplete (normalize_event_key k)"
| "receipt_request (RetryEvent k now) = map_option OpRetry (normalize_event_key k)"
| "receipt_request (Recover now) = Some OpRecover"

interpretation shared_receipts: receipt_contract "\<lambda>rows k. status_of svc k rows" "receipt_step svc" receipt_request for svc
proof
  fix e :: receipt_event and rows k
  show "status_of svc k (fst (receipt_step svc e rows)) = op_status (receipt_request e) k (status_of svc k rows)"
    unfolding status_step by (cases e) (auto simp: map_option_case split: option.splits)
  show "snd (receipt_step svc e rows) = Some k \<longleftrightarrow>
      receipt_request e = Some (OpClaim k) \<and> status_of svc k rows \<in> {None, Some Retryable}"
    unfolding claim_step by (cases e) auto
qed

section \<open>Telegram\<close>

record telegram_receipt =
  tr_key :: "string \<times> string"
  tr_chat :: string
  tr_payload :: "string option"
  tr_status :: receipt_status
  tr_created :: seconds
  tr_updated :: seconds
  tr_completed :: "seconds option"

definition claim_inbound ::
    "string \<Rightarrow> string \<Rightarrow> string \<Rightarrow> string option \<Rightarrow> seconds \<Rightarrow> telegram_receipt list \<Rightarrow>
     (bool \<times> telegram_receipt list) option" where
  "claim_inbound inst update chat payload now rows =
     (if update = [] \<or> 64 < length update then None
      else case find_row tr_key (inst, update) rows of
             None \<Rightarrow>
               Some (True, rows @ [\<lparr>tr_key = (inst, update), tr_chat = take 256 chat, tr_payload = payload,
                 tr_status = Processing, tr_created = now, tr_updated = now, tr_completed = None\<rparr>])
           | Some r \<Rightarrow>
               if tr_status r \<noteq> Retryable then Some (False, rows)
               else Some (True, update_row tr_key (inst, update)
                 (\<lambda>r. r\<lparr>tr_chat := take 256 chat,
                       tr_payload := (case payload of None \<Rightarrow> tr_payload r | Some p \<Rightarrow> Some p),
                       tr_status := Processing, tr_updated := now, tr_completed := None\<rparr>) rows))"

definition complete_inbound :: "string \<Rightarrow> string \<Rightarrow> seconds \<Rightarrow> telegram_receipt list \<Rightarrow> telegram_receipt list option" where
  "complete_inbound inst update now rows =
     (if find_row tr_key (inst, update) rows = None then None
      else Some (update_row tr_key (inst, update)
        (\<lambda>r. r\<lparr>tr_status := Completed, tr_payload := None, tr_completed := Some now, tr_updated := now\<rparr>) rows))"

definition retry_inbound :: "string \<Rightarrow> string \<Rightarrow> seconds \<Rightarrow> telegram_receipt list \<Rightarrow> telegram_receipt list option" where
  "retry_inbound inst update now rows =
     (case find_row tr_key (inst, update) rows of
        None \<Rightarrow> None
      | Some r \<Rightarrow>
          if tr_status r = Completed then Some rows
          else Some (update_row tr_key (inst, update)
            (\<lambda>r. r\<lparr>tr_status := Retryable, tr_completed := None, tr_updated := now\<rparr>) rows))"

definition recover_inbound :: "string \<Rightarrow> seconds \<Rightarrow> telegram_receipt list \<Rightarrow> nat \<times> telegram_receipt list" where
  "recover_inbound inst now rows =
     (let mine = (\<lambda>r. fst (tr_key r) = inst \<and> tr_status r = Processing) in
      (length (filter mine rows),
       map (\<lambda>r. if mine r then r\<lparr>tr_status := Retryable, tr_updated := now, tr_completed := None\<rparr> else r) rows))"

text \<open>\<open>is_object\<close> says whether a payload decodes to a JSON object.\<close>

definition pending_inbound :: "(string \<Rightarrow> bool) \<Rightarrow> string \<Rightarrow> telegram_receipt list \<Rightarrow> (string \<times> string) list" where
  "pending_inbound is_object inst rows =
     List.map_filter (\<lambda>r. case tr_payload r of
          Some p \<Rightarrow> if is_object p then Some (snd (tr_key r), p) else None | None \<Rightarrow> None)
       (sort_key tr_created
         (filter (\<lambda>r. fst (tr_key r) = inst \<and> tr_status r = Retryable \<and> tr_payload r \<noteq> None) rows))"

datatype telegram_call =
    TgClaim string string "string option" seconds
  | TgComplete string seconds
  | TgRetry string seconds
  | TgRecover seconds

fun telegram_call_step ::
    "string \<Rightarrow> telegram_call \<Rightarrow> telegram_receipt list \<Rightarrow> telegram_receipt list \<times> string option" where
  "telegram_call_step inst (TgClaim u chat payload now) rows =
     (case claim_inbound inst u chat payload now rows of Some (True, rows') \<Rightarrow> (rows', Some u) | _ \<Rightarrow> (rows, None))"
| "telegram_call_step inst (TgComplete u now) rows =
     (case complete_inbound inst u now rows of Some rows' \<Rightarrow> (rows', None) | None \<Rightarrow> (rows, None))"
| "telegram_call_step inst (TgRetry u now) rows =
     (case retry_inbound inst u now rows of Some rows' \<Rightarrow> (rows', None) | None \<Rightarrow> (rows, None))"
| "telegram_call_step inst (TgRecover now) rows = (snd (recover_inbound inst now rows), None)"

fun telegram_op :: "telegram_call \<Rightarrow> string receipt_op option" where
  "telegram_op (TgClaim u chat payload now) = (if u = [] \<or> 64 < length u then None else Some (OpClaim u))"
| "telegram_op (TgComplete u now) = Some (OpComplete u)"
| "telegram_op (TgRetry u now) = Some (OpRetry u)"
| "telegram_op (TgRecover now) = Some OpRecover"

definition telegram_status :: "string \<Rightarrow> telegram_receipt list \<Rightarrow> string \<Rightarrow> receipt_status option" where
  "telegram_status inst rows u = map_option tr_status (find_row tr_key (inst, u) rows)"

lemma find_updated_row:
  "(\<And>r. key (f r) = key r) \<Longrightarrow>
     find_row key k' (update_row key k f rows) =
       (if k' = k then map_option f (find_row key k rows) else find_row key k' rows)"
  by (induction rows) (auto simp: table_simps)

lemma find_mapped_row:
  "(\<And>r. key (f r) = key r) \<Longrightarrow> find_row key k (map f rows) = map_option f (find_row key k rows)"
  by (induction rows) (auto simp: table_simps)

interpretation telegram_receipts: receipt_contract "telegram_status inst" "telegram_call_step inst" telegram_op for inst
proof
  fix e :: telegram_call and rows k
  show "telegram_status inst (fst (telegram_call_step inst e rows)) k = op_status (telegram_op e) k (telegram_status inst rows k)"
    by (cases e; cases "find_row tr_key (inst, k) rows") (auto simp: telegram_status_def claim_inbound_def
        complete_inbound_def retry_inbound_def recover_inbound_def Let_def find_row_append table_simps
        find_updated_row find_mapped_row option.map_comp comp_def split: option.splits dest: find_row_SomeD)
  show "snd (telegram_call_step inst e rows) = Some k \<longleftrightarrow>
      telegram_op e = Some (OpClaim k) \<and> telegram_status inst rows k \<in> {None, Some Retryable}"
    by (cases e) (auto simp: telegram_status_def claim_inbound_def complete_inbound_def retry_inbound_def
        split: option.splits)
qed

section \<open>WeCom\<close>

record wecom_receipt =
  wr_id :: string
  wr_source :: string
  wr_status :: receipt_status
  wr_reply :: "string option"
  wr_created :: seconds
  wr_updated :: seconds
  wr_completed :: "seconds option"

definition wecom_claim_inbound ::
    "string \<Rightarrow> string \<Rightarrow> seconds \<Rightarrow> wecom_receipt list \<Rightarrow> (bool \<times> wecom_receipt list) option" where
  "wecom_claim_inbound mid source now rows =
     (if mid = [] \<or> 128 < length mid then None
      else case find_row wr_id mid rows of
             Some r \<Rightarrow>
               if wr_status r \<noteq> Retryable then Some (False, rows)
               else Some (True, update_row wr_id mid
                 (\<lambda>r. r\<lparr>wr_source := take 256 source, wr_status := Processing, wr_reply := None,
                       wr_updated := now, wr_completed := None\<rparr>) rows)
           | None \<Rightarrow>
               Some (True, rows @ [\<lparr>wr_id = mid, wr_source = take 256 source, wr_status = Processing,
                 wr_reply = None, wr_created = now, wr_updated = now, wr_completed = None\<rparr>]))"

definition wecom_recover_inbound :: "seconds \<Rightarrow> wecom_receipt list \<Rightarrow> nat \<times> wecom_receipt list" where
  "wecom_recover_inbound now rows =
     (length (filter (\<lambda>r. wr_status r = Processing) rows),
      map (\<lambda>r. if wr_status r = Processing
               then r\<lparr>wr_status := Retryable, wr_reply := None, wr_updated := now, wr_completed := None\<rparr> else r) rows)"

definition wecom_complete_inbound ::
    "string \<Rightarrow> string option \<Rightarrow> seconds \<Rightarrow> wecom_receipt list \<Rightarrow> wecom_receipt list option" where
  "wecom_complete_inbound mid reply now rows =
     (if find_row wr_id mid rows = None then None
      else Some (update_row wr_id mid
        (\<lambda>r. r\<lparr>wr_status := Completed, wr_reply := reply, wr_completed := Some now, wr_updated := now\<rparr>) rows))"

definition wecom_retry_inbound :: "string \<Rightarrow> seconds \<Rightarrow> wecom_receipt list \<Rightarrow> wecom_receipt list option" where
  "wecom_retry_inbound mid now rows =
     (case find_row wr_id mid rows of
        None \<Rightarrow> None
      | Some r \<Rightarrow>
          if wr_status r = Completed then Some rows
          else Some (update_row wr_id mid
            (\<lambda>r. r\<lparr>wr_status := Retryable, wr_reply := None, wr_completed := None, wr_updated := now\<rparr>) rows))"

datatype wecom_call =
    WcClaim string string seconds
  | WcComplete string "string option" seconds
  | WcRetry string seconds
  | WcRecover seconds

fun wecom_call_step :: "wecom_call \<Rightarrow> wecom_receipt list \<Rightarrow> wecom_receipt list \<times> string option" where
  "wecom_call_step (WcClaim mid source now) rows =
     (case wecom_claim_inbound mid source now rows of Some (True, rows') \<Rightarrow> (rows', Some mid) | _ \<Rightarrow> (rows, None))"
| "wecom_call_step (WcComplete mid reply now) rows =
     (case wecom_complete_inbound mid reply now rows of Some rows' \<Rightarrow> (rows', None) | None \<Rightarrow> (rows, None))"
| "wecom_call_step (WcRetry mid now) rows =
     (case wecom_retry_inbound mid now rows of Some rows' \<Rightarrow> (rows', None) | None \<Rightarrow> (rows, None))"
| "wecom_call_step (WcRecover now) rows = (snd (wecom_recover_inbound now rows), None)"

fun wecom_op :: "wecom_call \<Rightarrow> string receipt_op option" where
  "wecom_op (WcClaim mid source now) = (if mid = [] \<or> 128 < length mid then None else Some (OpClaim mid))"
| "wecom_op (WcComplete mid reply now) = Some (OpComplete mid)"
| "wecom_op (WcRetry mid now) = Some (OpRetry mid)"
| "wecom_op (WcRecover now) = Some OpRecover"

definition wecom_status :: "wecom_receipt list \<Rightarrow> string \<Rightarrow> receipt_status option" where
  "wecom_status rows mid = map_option wr_status (find_row wr_id mid rows)"

interpretation wecom_receipts: receipt_contract wecom_status wecom_call_step wecom_op
proof
  fix e :: wecom_call and rows k
  show "wecom_status (fst (wecom_call_step e rows)) k = op_status (wecom_op e) k (wecom_status rows k)"
    by (cases e; cases "find_row wr_id k rows") (auto simp: wecom_status_def wecom_claim_inbound_def
        wecom_complete_inbound_def wecom_retry_inbound_def wecom_recover_inbound_def Let_def find_row_append
        table_simps find_updated_row find_mapped_row option.map_comp comp_def split: option.splits dest: find_row_SomeD)
  show "snd (wecom_call_step e rows) = Some k \<longleftrightarrow>
      wecom_op e = Some (OpClaim k) \<and> wecom_status rows k \<in> {None, Some Retryable}"
    by (cases e) (auto simp: wecom_status_def wecom_claim_inbound_def wecom_complete_inbound_def
        wecom_retry_inbound_def split: option.splits)
qed

text \<open>C39. Platform messages are taken once. On both adapters that keep their own receipts, a Telegram
  update and a WeCom callback that has been completed is never handed out again, whatever claims,
  retries, completions and restarts follow.\<close>

theorem platform_messages_are_taken_once:
  assumes "complete_inbound inst u now rows = Some rows'"
    and "wecom_complete_inbound mid reply now wrows = Some wrows'"
  shows "u \<notin> set (telegram_receipts.handed_out inst es rows') \<and>
    mid \<notin> set (wecom_receipts.handed_out wes wrows')"
proof
  from assms(1) have "telegram_status inst rows' u = Some Completed"
    by (auto simp: complete_inbound_def telegram_status_def find_updated_row split: if_splits)
  then show "u \<notin> set (telegram_receipts.handed_out inst es rows')"
    by (rule telegram_receipts.completed_for_good)
  from assms(2) have "wecom_status wrows' mid = Some Completed"
    by (auto simp: wecom_complete_inbound_def wecom_status_def find_updated_row split: if_splits)
  then show "mid \<notin> set (wecom_receipts.handed_out wes wrows')"
    by (rule wecom_receipts.completed_for_good)
qed


definition claimed_update :: telegram_receipt where
  "claimed_update = \<lparr>tr_key = (''bot'', ''41''), tr_chat = ''chat'', tr_payload = Some ''{}'', tr_status = Processing,
     tr_created = 10, tr_updated = 10, tr_completed = None\<rparr>"

definition claimed_callback :: wecom_receipt where
  "claimed_callback = \<lparr>wr_id = ''m1'', wr_source = ''user'', wr_status = Processing, wr_reply = None,
     wr_created = 10, wr_updated = 10, wr_completed = None\<rparr>"

theorem platform_messages_are_taken_once_witness:
  "''41'' \<notin> set (telegram_receipts.handed_out ''bot''
       [TgRetry ''41'' 12, TgRecover 13, TgClaim ''41'' ''chat'' None 14]
       [claimed_update\<lparr>tr_status := Completed, tr_payload := None, tr_completed := Some 11, tr_updated := 11\<rparr>])"
proof -
  have "complete_inbound ''bot'' ''41'' 11 [claimed_update] =
      Some [claimed_update\<lparr>tr_status := Completed, tr_payload := None, tr_completed := Some 11, tr_updated := 11\<rparr>]"
    by code_simp
  moreover have "wecom_complete_inbound ''m1'' (Some ''ok'') 11 [claimed_callback] =
      Some [claimed_callback\<lparr>wr_status := Completed, wr_reply := Some ''ok'', wr_completed := Some 11, wr_updated := 11\<rparr>]"
    by code_simp
  ultimately show ?thesis by (rule platform_messages_are_taken_once [THEN conjunct1])
qed

end
