(* ===== verification/File_Transaction.thy ===== *)
theory File_Transaction
  imports Kirara_Prelude
begin

text \<open>
  The recoverable multi-file write of \<open>kirara_ai/workflow/persistence.py\<close>:
  \<open>FileTransaction.commit\<close> and \<open>FileTransaction.recover_directory\<close> over a disk of target
  files, staged files, backups and journals.

  A program is a function of the disk, of the journal dictionary in memory and of the faults
  still to come. Every primitive operation takes one fault: it succeeds, raises, leaves a torn
  file behind, or the process stops there. An empty list of faults means that nothing fails any
  more. A rename, an unlink and the replacement of the journal are atomic; a copy and a staged
  write are not. \<open>fsync\<close> of a directory is an operation of its own, because it can raise after
  the rename has taken effect.
\<close>

section \<open>The disk\<close>

type_synonym path = "string list"

datatype location = Target path | Staged string nat | Backup string nat

datatype entry_state = Pending | Publishing | Published

record entry =
  en_target :: path
  en_index :: nat
  en_delete :: bool
  en_had_target :: bool
  en_state :: entry_state

datatype journal_state = Prepared | RollingBack | Committed

record journal =
  jr_state :: journal_state
  jr_entries :: "entry list"

record disk =
  dk_files :: "location \<Rightarrow> string option"
  dk_journals :: "(string \<times> journal) list"

text \<open>A mutation writes the content its writer produces, or deletes.\<close>

record mutation =
  mu_target :: path
  mu_content :: "string option"

section \<open>Operations that can fail\<close>

datatype fault = Proceed | Fails | Torn string | Stops | StopsTorn string | SyncFails

datatype 'a outcome = Done 'a | Raised | Stopped

type_synonym world = "disk \<times> journal \<times> fault list"

type_synonym 'a io = "world \<Rightarrow> 'a outcome \<times> world"

definition io_return :: "'a \<Rightarrow> 'a io" where
  "io_return a w = (Done a, w)"

definition io_raise :: "'a io" where
  "io_raise w = (Raised, w)"

definition io_bind :: "'a io \<Rightarrow> ('a \<Rightarrow> 'b io) \<Rightarrow> 'b io" where
  "io_bind p f w =
     (case p w of
        (Done a, w') \<Rightarrow> f a w'
      | (Raised, w') \<Rightarrow> (Raised, w')
      | (Stopped, w') \<Rightarrow> (Stopped, w'))"

fun io_steps :: "unit io list \<Rightarrow> unit io" where
  "io_steps [] = io_return ()"
| "io_steps (p # ps) = io_bind p (\<lambda>_. io_steps ps)"

text \<open>\<open>except: handler; raise\<close>, and \<open>try: p; return True; except OSError: return False\<close>.\<close>

definition io_on_error :: "'a io \<Rightarrow> unit io \<Rightarrow> 'a io" where
  "io_on_error p h w =
     (case p w of
        (Raised, w') \<Rightarrow> (case h w' of (Stopped, w'') \<Rightarrow> (Stopped, w'') | (_, w'') \<Rightarrow> (Raised, w''))
      | r \<Rightarrow> r)"

definition io_try :: "unit io \<Rightarrow> bool io" where
  "io_try p w =
     (case p w of
        (Done _, w') \<Rightarrow> (Done True, w')
      | (Raised, w') \<Rightarrow> (Done False, w')
      | (Stopped, w') \<Rightarrow> (Stopped, w'))"

definition io_look :: "(disk \<Rightarrow> journal \<Rightarrow> 'a io) \<Rightarrow> 'a io" where
  "io_look f w = f (fst w) (fst (snd w)) w"

definition io_remember :: "(journal \<Rightarrow> journal) \<Rightarrow> unit io" where
  "io_remember f w = (case w of (d, j, fs) \<Rightarrow> (Done (), (d, f j, fs)))"

fun next_fault :: "fault list \<Rightarrow> fault" where
  "next_fault [] = Proceed"
| "next_fault (f # fs) = f"

definition io_atomic :: "(disk \<Rightarrow> disk) \<Rightarrow> unit io" where
  "io_atomic f w =
     (case w of (d, j, fs) \<Rightarrow>
        (case next_fault fs of
           Fails \<Rightarrow> (Raised, (d, j, tl fs))
         | Torn _ \<Rightarrow> (Raised, (d, j, tl fs))
         | Stops \<Rightarrow> (Stopped, (d, j, tl fs))
         | StopsTorn _ \<Rightarrow> (Stopped, (d, j, tl fs))
         | _ \<Rightarrow> (Done (), (f d, j, tl fs))))"

definition set_file :: "location \<Rightarrow> string option \<Rightarrow> disk \<Rightarrow> disk" where
  "set_file l c d = d\<lparr>dk_files := (dk_files d)(l := c)\<rparr>"

text \<open>A write that is not atomic, with the \<open>fsync\<close> of the file.\<close>

definition io_write :: "location \<Rightarrow> string option \<Rightarrow> unit io" where
  "io_write l c w =
     (case w of (d, j, fs) \<Rightarrow>
        (case next_fault fs of
           Fails \<Rightarrow> (Raised, (d, j, tl fs))
         | Torn t \<Rightarrow> (Raised, (set_file l (Some t) d, j, tl fs))
         | Stops \<Rightarrow> (Stopped, (d, j, tl fs))
         | StopsTorn t \<Rightarrow> (Stopped, (set_file l (Some t) d, j, tl fs))
         | _ \<Rightarrow> (Done (), (set_file l c d, j, tl fs))))"

text \<open>\<open>_fsync_directory\<close>.\<close>

definition io_sync :: "unit io" where
  "io_sync w =
     (case w of (d, j, fs) \<Rightarrow>
        (case next_fault fs of
           SyncFails \<Rightarrow> (Raised, (d, j, tl fs))
         | Stops \<Rightarrow> (Stopped, (d, j, tl fs))
         | StopsTorn _ \<Rightarrow> (Stopped, (d, j, tl fs))
         | _ \<Rightarrow> (Done (), (d, j, tl fs))))"

section \<open>FileTransaction\<close>

definition put_journal :: "string \<Rightarrow> journal \<Rightarrow> disk \<Rightarrow> disk" where
  "put_journal tid j d = d\<lparr>dk_journals := AList.update tid j (dk_journals d)\<rparr>"

definition drop_journal :: "string \<Rightarrow> disk \<Rightarrow> disk" where
  "drop_journal tid d = d\<lparr>dk_journals := AList.delete tid (dk_journals d)\<rparr>"

text \<open>\<open>_write_journal\<close> writes the dictionary in memory: replace, then \<open>fsync\<close> of the directory.\<close>

definition write_journal :: "string \<Rightarrow> unit io" where
  "write_journal tid =
     io_look (\<lambda>_ j. io_steps [io_atomic (put_journal tid j), io_sync])"

definition unlink_journal :: "string \<Rightarrow> unit io" where
  "unlink_journal tid = io_steps [io_atomic (drop_journal tid), io_sync]"

definition set_state :: "journal_state \<Rightarrow> unit io" where
  "set_state s = io_remember (\<lambda>j. j\<lparr>jr_state := s\<rparr>)"

definition set_entry_state :: "nat \<Rightarrow> entry_state \<Rightarrow> unit io" where
  "set_entry_state k s =
     io_remember (\<lambda>j. j\<lparr>jr_entries := (jr_entries j)[k := (jr_entries j ! k)\<lparr>en_state := s\<rparr>]\<rparr>)"

text \<open>\<open>_cleanup_entries\<close>.\<close>

definition cleanup_entry :: "string \<Rightarrow> entry \<Rightarrow> unit io" where
  "cleanup_entry tid e =
     io_steps
       [if en_delete e then io_return () else io_atomic (set_file (Staged tid (en_index e)) None),
        io_atomic (set_file (Backup tid (en_index e)) None)]"

definition cleanup_entries :: "string \<Rightarrow> entry list \<Rightarrow> unit io" where
  "cleanup_entries tid es = io_steps (map (cleanup_entry tid) es)"

text \<open>\<open>_prepare_entries\<close>: a failing mutation cleans up everything prepared so far, its own files
  included.\<close>

definition inside :: "path \<Rightarrow> path \<Rightarrow> bool" where
  "inside dir p = starts_with dir p"

definition make_entry :: "disk \<Rightarrow> nat \<Rightarrow> mutation \<Rightarrow> entry" where
  "make_entry d i m =
     \<lparr>en_target = mu_target m, en_index = i, en_delete = (mu_content m = None),
      en_had_target = (dk_files d (Target (mu_target m)) \<noteq> None), en_state = Pending\<rparr>"

text \<open>\<open>mkdir(parents=True, exist_ok=True)\<close> and the look at the target: directories are not part of the disk, so
  all there is to see is that making one raises, that a target is a directory, or that the process stops.\<close>

definition make_directory :: "unit io" where
  "make_directory = io_atomic id"

definition prepare_entry :: "string \<Rightarrow> entry \<Rightarrow> mutation \<Rightarrow> unit io" where
  "prepare_entry tid e m =
     io_steps
       [if en_had_target e
        then io_look (\<lambda>d _. io_write (Backup tid (en_index e)) (dk_files d (Target (en_target e))))
        else io_return (),
        if en_delete e then io_return () else io_write (Staged tid (en_index e)) (mu_content m),
        io_sync]"

fun prepare_entries :: "path \<Rightarrow> string \<Rightarrow> entry list \<Rightarrow> mutation list \<Rightarrow> entry list io" where
  "prepare_entries dir tid es [] = io_return es"
| "prepare_entries dir tid es (m # ms) =
     io_look (\<lambda>d _.
       if \<not> inside dir (mu_target m) \<or> mu_target m \<in> en_target ` set es
       then io_on_error io_raise (cleanup_entries tid es)
       else
         io_bind (io_on_error make_directory (cleanup_entries tid es)) (\<lambda>_.
           (let e = make_entry d (length es) m; es' = es @ [e]
            in io_bind (io_on_error (prepare_entry tid e m) (cleanup_entries tid es'))
                 (\<lambda>_. prepare_entries dir tid es' ms))))"

text \<open>\<open>_publish_entry\<close>: a staged file that is already gone is accepted only once the journal says
  that its entry was being published.\<close>

definition publish_file :: "string \<Rightarrow> entry \<Rightarrow> disk \<Rightarrow> unit io" where
  "publish_file tid e d =
     (if en_delete e
      then (if dk_files d (Target (en_target e)) = None then io_return ()
            else io_atomic (set_file (Target (en_target e)) None))
      else if dk_files d (Staged tid (en_index e)) \<noteq> None
      then io_atomic (\<lambda>d. set_file (Staged tid (en_index e)) None
             (set_file (Target (en_target e)) (dk_files d (Staged tid (en_index e))) d))
      else if en_state e = Pending then io_raise
      else if dk_files d (Target (en_target e)) = None then io_raise
      else io_return ())"

definition publish_entry :: "string \<Rightarrow> entry \<Rightarrow> unit io" where
  "publish_entry tid e = io_steps [io_look (\<lambda>d _. publish_file tid e d), io_sync]"

definition publish_step :: "string \<Rightarrow> nat \<Rightarrow> unit io" where
  "publish_step tid k =
     io_steps
       [set_entry_state k Publishing, write_journal tid,
        io_look (\<lambda>_ j. publish_entry tid (jr_entries j ! k)),
        set_entry_state k Published, write_journal tid]"

definition publish_all :: "string \<Rightarrow> unit io" where
  "publish_all tid = io_look (\<lambda>_ j. io_steps (map (publish_step tid) [0..<length (jr_entries j)]))"

text \<open>\<open>_rollback_entries\<close>, last entry first.\<close>

definition rollback_file :: "string \<Rightarrow> entry \<Rightarrow> disk \<Rightarrow> unit io" where
  "rollback_file tid e d =
     (if en_had_target e
      then (if dk_files d (Backup tid (en_index e)) \<noteq> None
            then io_atomic (\<lambda>d. set_file (Backup tid (en_index e)) None
                   (set_file (Target (en_target e)) (dk_files d (Backup tid (en_index e))) d))
            else if dk_files d (Target (en_target e)) = None then io_raise
            else io_return ())
      else if dk_files d (Target (en_target e)) = None then io_return ()
      else io_atomic (set_file (Target (en_target e)) None))"

definition rollback_entry :: "string \<Rightarrow> entry \<Rightarrow> unit io" where
  "rollback_entry tid e = io_steps [io_look (\<lambda>d _. rollback_file tid e d), io_sync]"

definition rollback_entries :: "string \<Rightarrow> entry list \<Rightarrow> bool io" where
  "rollback_entries tid es = io_try (io_steps (map (rollback_entry tid) (rev es)))"

text \<open>The exception handler of \<open>commit\<close>.\<close>

definition abort_transaction :: "string \<Rightarrow> unit io" where
  "abort_transaction tid =
     io_steps
       [set_state RollingBack, write_journal tid,
        io_look (\<lambda>_ j. io_bind (rollback_entries tid (jr_entries j)) (\<lambda>ok.
          if ok then io_steps [cleanup_entries tid (jr_entries j), unlink_journal tid]
          else io_return ()))]"

text \<open>\<open>commit\<close>, up to the durable journal and as a whole. The callback \<open>after_publish\<close> changes no
  file of the transaction; it may raise.\<close>

definition open_transaction :: "path \<Rightarrow> string \<Rightarrow> mutation list \<Rightarrow> unit io" where
  "open_transaction dir tid ms =
     io_bind make_directory (\<lambda>_.
     io_bind (prepare_entries dir tid [] ms) (\<lambda>es.
       io_steps
         [io_remember (\<lambda>_. \<lparr>jr_state = Prepared, jr_entries = es\<rparr>),
          io_on_error (write_journal tid) (io_steps [cleanup_entries tid es, unlink_journal tid])]))"

definition publish_transaction :: "string \<Rightarrow> bool \<Rightarrow> unit io" where
  "publish_transaction tid callback =
     io_on_error
       (io_steps
          [publish_all tid, if callback then io_atomic id else io_return (),
           set_state Committed, write_journal tid])
       (abort_transaction tid)"

definition close_transaction :: "string \<Rightarrow> unit io" where
  "close_transaction tid =
     io_look (\<lambda>_ j. io_bind
       (io_try (io_steps [cleanup_entries tid (jr_entries j), unlink_journal tid]))
       (\<lambda>_. io_return ()))"

definition commit :: "path \<Rightarrow> string \<Rightarrow> mutation list \<Rightarrow> bool \<Rightarrow> unit io" where
  "commit dir tid ms callback =
     (if ms = [] then io_raise
      else io_steps
        [open_transaction dir tid ms, publish_transaction tid callback, close_transaction tid])"

text \<open>\<open>recover_directory\<close>: every journal of the directory, in the order of the names.\<close>

definition resume_journal :: "string \<Rightarrow> journal \<Rightarrow> unit io" where
  "resume_journal tid j =
     (case jr_state j of
        RollingBack \<Rightarrow>
          io_bind (rollback_entries tid (jr_entries j)) (\<lambda>ok. if ok then io_return () else io_raise)
      | Committed \<Rightarrow> io_return ()
      | Prepared \<Rightarrow> io_steps [publish_all tid, set_state Committed, write_journal tid])"

definition recover_journal :: "path \<Rightarrow> string \<Rightarrow> unit io" where
  "recover_journal dir tid =
     io_look (\<lambda>d _.
       case map_of (dk_journals d) tid of
         None \<Rightarrow> io_raise
       | Some j \<Rightarrow>
           (if jr_entries j = [] \<or> \<not> list_all (\<lambda>e. inside dir (en_target e)) (jr_entries j) then io_raise
            else io_steps
              [io_remember (\<lambda>_. j),
               resume_journal tid j, cleanup_entries tid (jr_entries j), unlink_journal tid]))"

definition recover_directory :: "path \<Rightarrow> unit io" where
  "recover_directory dir =
     io_look (\<lambda>d _. io_steps (map (recover_journal dir) (sort (map fst (dk_journals d)))))"

section \<open>A logic of fault-prone programs\<close>

text \<open>
  \<open>holds md S P p Q E\<close>: from a state with \<open>P\<close>, and with faults of the mode \<open>md\<close>, the program
  returns with \<open>Q\<close>, or raises with \<open>E\<close>, or stops with \<open>S\<close> of the disk (all that survives).
  Without faults it returns.
\<close>

datatype mode = AnyFault | NoSyncFault | NoFault

fun allowed :: "mode \<Rightarrow> fault \<Rightarrow> bool" where
  "allowed AnyFault f = True"
| "allowed NoSyncFault f = (f \<noteq> SyncFails)"
| "allowed NoFault f = (f = Proceed)"

definition holds ::
  "mode \<Rightarrow> (disk \<Rightarrow> bool) \<Rightarrow> (disk \<Rightarrow> journal \<Rightarrow> bool) \<Rightarrow> 'a io \<Rightarrow> ('a \<Rightarrow> disk \<Rightarrow> journal \<Rightarrow> bool)
    \<Rightarrow> (disk \<Rightarrow> journal \<Rightarrow> bool) \<Rightarrow> bool" where
  "holds md S P p Q E =
     (\<forall>d j fs. P d j \<and> list_all (allowed md) fs \<longrightarrow>
        (case p (d, j, fs) of (r, (d', j', fs')) \<Rightarrow>
           list_all (allowed md) fs' \<and>
           (case r of
              Done a \<Rightarrow> Q a d' j'
            | Raised \<Rightarrow> md \<noteq> NoFault \<and> E d' j'
            | Stopped \<Rightarrow> md \<noteq> NoFault \<and> S d')))"

lemma holdsI:
  assumes "\<And>d j fs r d' j' fs'. P d j \<Longrightarrow> list_all (allowed md) fs \<Longrightarrow> p (d, j, fs) = (r, (d', j', fs')) \<Longrightarrow>
      list_all (allowed md) fs' \<and>
      (case r of Done a \<Rightarrow> Q a d' j' | Raised \<Rightarrow> md \<noteq> NoFault \<and> E d' j' | Stopped \<Rightarrow> md \<noteq> NoFault \<and> S d')"
  shows "holds md S P p Q E"
  using assms unfolding holds_def by (auto split: prod.split)

lemma holdsD:
  assumes "holds md S P p Q E" "P d j" "list_all (allowed md) fs" "p (d, j, fs) = (r, (d', j', fs'))"
  shows "list_all (allowed md) fs' \<and>
    (case r of Done a \<Rightarrow> Q a d' j' | Raised \<Rightarrow> md \<noteq> NoFault \<and> E d' j' | Stopped \<Rightarrow> md \<noteq> NoFault \<and> S d')"
  using assms unfolding holds_def by (metis (no_types, lifting) case_prod_conv)

lemma allowed_tl: "list_all (allowed md) fs \<Longrightarrow> list_all (allowed md) (tl fs)"
  by (cases fs) simp_all

lemma allowed_next: "list_all (allowed md) fs \<Longrightarrow> allowed md (next_fault fs)"
  by (cases fs; cases md) simp_all

lemma h_weaken:
  assumes "holds md S P' p Q' E'" "\<And>d j. P d j \<Longrightarrow> P' d j" "\<And>a d j. Q' a d j \<Longrightarrow> Q a d j"
    and "\<And>d j. E' d j \<Longrightarrow> E d j"
  shows "holds md S P p Q E"
proof (rule holdsI)
  fix d j fs r d' j' fs'
  assume "P d j" "list_all (allowed md) fs" "p (d, j, fs) = (r, (d', j', fs'))"
  from holdsD [OF assms(1) assms(2) [OF this(1)] this(2,3)] show "list_all (allowed md) fs' \<and>
      (case r of Done a \<Rightarrow> Q a d' j' | Raised \<Rightarrow> md \<noteq> NoFault \<and> E d' j' | Stopped \<Rightarrow> md \<noteq> NoFault \<and> S d')"
    using assms(3,4) by (cases r) auto
qed

lemma h_stop:
  assumes "holds md S' P p Q E" "\<And>d. S' d \<Longrightarrow> S d"
  shows "holds md S P p Q E"
proof (rule holdsI)
  fix d j fs r d' j' fs'
  assume "P d j" "list_all (allowed md) fs" "p (d, j, fs) = (r, (d', j', fs'))"
  from holdsD [OF assms(1) this] show "list_all (allowed md) fs' \<and>
      (case r of Done a \<Rightarrow> Q a d' j' | Raised \<Rightarrow> md \<noteq> NoFault \<and> E d' j' | Stopped \<Rightarrow> md \<noteq> NoFault \<and> S d')"
    using assms(2) by (cases r) auto
qed

lemma h_quiet:
  assumes "holds md S P p Q E"
  shows "holds md S P p Q (\<lambda>d j. E d j \<and> md \<noteq> NoFault)"
proof (rule holdsI)
  fix d j fs r d' j' fs'
  assume "P d j" "list_all (allowed md) fs" "p (d, j, fs) = (r, (d', j', fs'))"
  from holdsD [OF assms this] show "list_all (allowed md) fs' \<and>
      (case r of Done a \<Rightarrow> Q a d' j' | Raised \<Rightarrow> md \<noteq> NoFault \<and> (E d' j' \<and> md \<noteq> NoFault)
       | Stopped \<Rightarrow> md \<noteq> NoFault \<and> S d')"
    by (cases r) auto
qed

lemma h_assume:
  assumes "C \<Longrightarrow> holds md S P p Q E"
  shows "holds md S (\<lambda>d j. C \<and> P d j) p Q E"
  using assms by (cases C) (simp_all add: holds_def)

lemma h_return: "(\<And>d j. P d j \<Longrightarrow> Q a d j) \<Longrightarrow> holds md S P (io_return a) Q E"
  by (rule holdsI) (auto simp: io_return_def)

lemma h_raise: "(\<And>d j. P d j \<Longrightarrow> md \<noteq> NoFault \<and> E d j) \<Longrightarrow> holds md S P io_raise Q E"
  by (rule holdsI) (auto simp: io_raise_def)

lemma h_bind:
  assumes "holds md S P p R E" "\<And>a. holds md S (R a) (f a) Q E"
  shows "holds md S P (io_bind p f) Q E"
proof (rule holdsI)
  fix d j fs r d' j' fs'
  assume pre: "P d j" "list_all (allowed md) fs" and run: "io_bind p f (d, j, fs) = (r, (d', j', fs'))"
  obtain r1 d1 j1 fs1 where p: "p (d, j, fs) = (r1, (d1, j1, fs1))" by (cases "p (d, j, fs)") auto
  note first = holdsD [OF assms(1) pre p]
  show "list_all (allowed md) fs' \<and>
      (case r of Done a \<Rightarrow> Q a d' j' | Raised \<Rightarrow> md \<noteq> NoFault \<and> E d' j' | Stopped \<Rightarrow> md \<noteq> NoFault \<and> S d')"
  proof (cases r1)
    case (Done a)
    with run p have "f a (d1, j1, fs1) = (r, (d', j', fs'))" by (simp add: io_bind_def)
    with first Done show ?thesis by (intro holdsD [OF assms(2)]) auto
  qed (use run p first in \<open>auto simp: io_bind_def\<close>)
qed

lemma h_nil: "(\<And>d j. P d j \<Longrightarrow> Q () d j) \<Longrightarrow> holds md S P (io_steps []) Q E"
  by (simp add: h_return)

lemma h_cons:
  "holds md S P p (\<lambda>_. R) E \<Longrightarrow> holds md S R (io_steps ps) Q E \<Longrightarrow> holds md S P (io_steps (p # ps)) Q E"
  by (simp add: h_bind)

lemma h_last: "holds md S P p Q E \<Longrightarrow> holds md S P (io_steps [p]) Q E"
  by (auto intro!: h_bind h_return)

lemma h_on_error:
  assumes "holds md S P p Q E'" "holds md S E' h (\<lambda>_. E) E"
  shows "holds md S P (io_on_error p h) Q E"
proof (rule holdsI)
  fix d j fs r d' j' fs'
  assume pre: "P d j" "list_all (allowed md) fs" and run: "io_on_error p h (d, j, fs) = (r, (d', j', fs'))"
  obtain r1 d1 j1 fs1 where p: "p (d, j, fs) = (r1, (d1, j1, fs1))" by (cases "p (d, j, fs)") auto
  note first = holdsD [OF assms(1) pre p]
  show "list_all (allowed md) fs' \<and>
      (case r of Done a \<Rightarrow> Q a d' j' | Raised \<Rightarrow> md \<noteq> NoFault \<and> E d' j' | Stopped \<Rightarrow> md \<noteq> NoFault \<and> S d')"
  proof (cases r1)
    case Raised
    obtain r2 d2 j2 fs2 where h: "h (d1, j1, fs1) = (r2, (d2, j2, fs2))" by (cases "h (d1, j1, fs1)") auto
    from first Raised have e: "E' d1 j1" "list_all (allowed md) fs1" "md \<noteq> NoFault" by simp_all
    from holdsD [OF assms(2) e(1,2) h] e(3) run p h Raised show ?thesis
      by (cases r2) (auto simp: io_on_error_def)
  qed (use run p first in \<open>auto simp: io_on_error_def\<close>)
qed

lemma h_try:
  assumes "holds md S P p (\<lambda>_. Q True) (Q False)"
  shows "holds md S P (io_try p) Q E"
proof (rule holdsI)
  fix d j fs r d' j' fs'
  assume pre: "P d j" "list_all (allowed md) fs" and run: "io_try p (d, j, fs) = (r, (d', j', fs'))"
  obtain r1 d1 j1 fs1 where p: "p (d, j, fs) = (r1, (d1, j1, fs1))" by (cases "p (d, j, fs)") auto
  from holdsD [OF assms pre p] run p show "list_all (allowed md) fs' \<and>
      (case r of Done a \<Rightarrow> Q a d' j' | Raised \<Rightarrow> md \<noteq> NoFault \<and> E d' j' | Stopped \<Rightarrow> md \<noteq> NoFault \<and> S d')"
    by (cases r1) (auto simp: io_try_def)
qed

lemma h_look:
  assumes "\<And>d0 j0. P d0 j0 \<Longrightarrow> holds md S (\<lambda>d j. P d j \<and> d = d0 \<and> j = j0) (f d0 j0) Q E"
  shows "holds md S P (io_look f) Q E"
proof (rule holdsI)
  fix d j fs r d' j' fs'
  assume pre: "P d j" "list_all (allowed md) fs" and run: "io_look f (d, j, fs) = (r, (d', j', fs'))"
  from run have "f d j (d, j, fs) = (r, (d', j', fs'))" by (simp add: io_look_def)
  from holdsD [OF assms [OF pre(1)] _ pre(2) this] pre(1) show "list_all (allowed md) fs' \<and>
      (case r of Done a \<Rightarrow> Q a d' j' | Raised \<Rightarrow> md \<noteq> NoFault \<and> E d' j' | Stopped \<Rightarrow> md \<noteq> NoFault \<and> S d')"
    by simp
qed

lemma h_remember: "(\<And>d j. P d j \<Longrightarrow> Q () d (f j)) \<Longrightarrow> holds md S P (io_remember f) Q E"
  by (rule holdsI) (auto simp: io_remember_def)

lemma h_atomic:
  assumes "\<And>d j. P d j \<Longrightarrow> Q () (f d) j" "\<And>d j. P d j \<Longrightarrow> E d j \<and> S d"
  shows "holds md S P (io_atomic f) Q E"
  using assms by (intro holdsI)
    (cases md, auto simp: io_atomic_def allowed_tl split: fault.splits dest: allowed_next)

lemma h_write:
  assumes "\<And>d j. P d j \<Longrightarrow> Q () (set_file l c d) j" "\<And>d j. P d j \<Longrightarrow> E d j \<and> S d"
    and "\<And>d j t. P d j \<Longrightarrow> E (set_file l (Some t) d) j \<and> S (set_file l (Some t) d)"
  shows "holds md S P (io_write l c) Q E"
  using assms by (intro holdsI)
    (cases md, auto simp: io_write_def allowed_tl split: fault.splits dest: allowed_next)

lemma h_sync:
  assumes "\<And>d j. P d j \<Longrightarrow> Q () d j" "\<And>d j. P d j \<Longrightarrow> S d"
    and "\<And>d j. md = AnyFault \<Longrightarrow> P d j \<Longrightarrow> E d j"
  shows "holds md S P io_sync Q E"
  using assms by (intro holdsI)
    (cases md, auto simp: io_sync_def allowed_tl split: fault.splits dest: allowed_next)

text \<open>The loops: an index upwards, a list from its end, and a list with a fixed invariant.\<close>

lemma h_upto:
  assumes "\<And>k. m \<le> k \<Longrightarrow> k < n \<Longrightarrow> holds md S (I k) (f k) (\<lambda>_. I (Suc k)) E" "m \<le> n"
  shows "holds md S (I m) (io_steps (map f [m..<n])) (\<lambda>_. I n) E"
  using assms
proof (induction "n - m" arbitrary: m)
  case 0
  then show ?case by (auto intro: h_return)
next
  case (Suc x)
  then have "[m..<n] = m # [Suc m..<n]" by (simp add: upt_rec)
  moreover have "holds md S (I (Suc m)) (io_steps (map f [Suc m..<n])) (\<lambda>_. I n) E"
    using Suc.prems Suc.hyps by (intro Suc.hyps) auto
  moreover have "holds md S (I m) (f m) (\<lambda>_. I (Suc m)) E"
    using Suc.prems(1) [of m] Suc.hyps(2) by simp
  ultimately show ?case by (simp add: h_bind)
qed

lemma h_downto:
  assumes "\<And>k. k < length es \<Longrightarrow> holds md S (I (Suc k)) (g (es ! k)) (\<lambda>_. I k) E"
  shows "holds md S (I (length es)) (io_steps (map g (rev es))) (\<lambda>_. I 0) E"
  using assms
proof (induction es rule: rev_induct)
  case Nil
  show ?case by (auto intro: h_return)
next
  case (snoc e es)
  have "holds md S (I (Suc (length es))) (g e) (\<lambda>_. I (length es)) E"
    using snoc.prems [of "length es"] by simp
  moreover have "holds md S (I (length es)) (io_steps (map g (rev es))) (\<lambda>_. I 0) E"
    using snoc.prems by (intro snoc.IH) (metis length_append_singleton less_SucI nth_append)
  ultimately show ?case by (simp add: h_bind)
qed

lemma h_each:
  assumes "\<And>e. e \<in> set es \<Longrightarrow> holds md S I (g e) (\<lambda>_. I) E"
  shows "holds md S I (io_steps (map g es)) (\<lambda>_. I) E"
  using assms by (induction es) (auto intro: h_return h_bind)

end
