(* ===== verification/File_Recovery.thy ===== *)
theory File_Recovery
  imports File_Transaction
begin

text \<open>
  Atomicity of \<open>FileTransaction\<close>: the invariant of the disk at every point where the process can
  stop, its preservation by commit, roll back and recovery, and what a restart finds.
\<close>

section \<open>A transaction and its disk\<close>

record plan =
  pl_dir :: path
  pl_tid :: string
  pl_old :: "path \<Rightarrow> string option"
  pl_muts :: "mutation list"

definition published_content :: "(path \<Rightarrow> string option) \<Rightarrow> mutation list \<Rightarrow> path \<Rightarrow> string option" where
  "published_content old ms p =
     (case map_of (map (\<lambda>m. (mu_target m, mu_content m)) ms) p of Some c \<Rightarrow> c | None \<Rightarrow> old p)"

definition goal :: "plan \<Rightarrow> path \<Rightarrow> string option" where
  "goal pl = published_content (pl_old pl) (pl_muts pl)"

definition targets :: "disk \<Rightarrow> path \<Rightarrow> string option" where
  "targets d p = dk_files d (Target p)"

abbreviation size_of :: "plan \<Rightarrow> nat" where
  "size_of pl \<equiv> length (pl_muts pl)"

abbreviation tgt :: "plan \<Rightarrow> nat \<Rightarrow> path" where
  "tgt pl i \<equiv> mu_target (pl_muts pl ! i)"

abbreviation cont :: "plan \<Rightarrow> nat \<Rightarrow> string option" where
  "cont pl i \<equiv> mu_content (pl_muts pl ! i)"

definition wf_plan :: "plan \<Rightarrow> bool" where
  "wf_plan pl = (pl_muts pl \<noteq> [] \<and> distinct (map mu_target (pl_muts pl)) \<and>
                 list_all (\<lambda>m. inside (pl_dir pl) (mu_target m)) (pl_muts pl))"

definition entry_for :: "plan \<Rightarrow> nat \<Rightarrow> entry \<Rightarrow> bool" where
  "entry_for pl i e =
     (en_target e = tgt pl i \<and> en_index e = i \<and> en_delete e = (cont pl i = None) \<and>
      en_had_target e = (pl_old pl (tgt pl i) \<noteq> None))"

definition entries_for :: "plan \<Rightarrow> entry list \<Rightarrow> bool" where
  "entries_for pl es = (length es = size_of pl \<and> (\<forall>i<size_of pl. entry_for pl i (es ! i)))"

definition mixed :: "plan \<Rightarrow> disk \<Rightarrow> bool" where
  "mixed pl d = (\<forall>p. targets d p = pl_old pl p \<or> targets d p = goal pl p)"

definition published :: "plan \<Rightarrow> nat \<Rightarrow> disk \<Rightarrow> bool" where
  "published pl k d = (\<forall>i<k. targets d (tgt pl i) = cont pl i)"

definition restored :: "plan \<Rightarrow> nat \<Rightarrow> disk \<Rightarrow> bool" where
  "restored pl k d = (\<forall>i. k \<le> i \<and> i < size_of pl \<longrightarrow> targets d (tgt pl i) = pl_old pl (tgt pl i))"

definition staged_at :: "plan \<Rightarrow> disk \<Rightarrow> nat \<Rightarrow> string option" where
  "staged_at pl d i = dk_files d (Staged (pl_tid pl) i)"

definition backup_at :: "plan \<Rightarrow> disk \<Rightarrow> nat \<Rightarrow> string option" where
  "backup_at pl d i = dk_files d (Backup (pl_tid pl) i)"

definition staged_ok :: "plan \<Rightarrow> disk \<Rightarrow> entry list \<Rightarrow> bool" where
  "staged_ok pl d es =
     (\<forall>i<size_of pl. cont pl i \<noteq> None \<longrightarrow>
        staged_at pl d i = cont pl i \<or>
        (staged_at pl d i = None \<and> en_state (es ! i) \<noteq> Pending \<and> targets d (tgt pl i) = cont pl i))"

definition backups_ok :: "plan \<Rightarrow> disk \<Rightarrow> bool" where
  "backups_ok pl d =
     (\<forall>i<size_of pl. pl_old pl (tgt pl i) \<noteq> None \<longrightarrow> backup_at pl d i = pl_old pl (tgt pl i))"

definition backups_used :: "plan \<Rightarrow> disk \<Rightarrow> bool" where
  "backups_used pl d =
     (\<forall>i<size_of pl. pl_old pl (tgt pl i) \<noteq> None \<longrightarrow>
        backup_at pl d i = pl_old pl (tgt pl i) \<or>
        (backup_at pl d i = None \<and> targets d (tgt pl i) = pl_old pl (tgt pl i)))"

definition durable_journal :: "plan \<Rightarrow> journal_state \<Rightarrow> entry list \<Rightarrow> disk \<Rightarrow> bool" where
  "durable_journal pl s es d =
     (dk_journals d = [(pl_tid pl, \<lparr>jr_state = s, jr_entries = es\<rparr>)] \<and> entries_for pl es)"

text \<open>The five things a restart can find.\<close>

definition idle :: "(path \<Rightarrow> string option) \<Rightarrow> disk \<Rightarrow> bool" where
  "idle c d = (dk_journals d = [] \<and> targets d = c)"

definition prepared :: "plan \<Rightarrow> disk \<Rightarrow> bool" where
  "prepared pl d =
     ((\<exists>es. durable_journal pl Prepared es d \<and> staged_ok pl d es) \<and> backups_ok pl d \<and> mixed pl d)"

definition committed :: "plan \<Rightarrow> disk \<Rightarrow> bool" where
  "committed pl d = ((\<exists>es. durable_journal pl Committed es d) \<and> targets d = goal pl)"

definition rolling :: "plan \<Rightarrow> disk \<Rightarrow> bool" where
  "rolling pl d = ((\<exists>es. durable_journal pl RollingBack es d) \<and> backups_used pl d \<and> mixed pl d)"

definition recoverable :: "plan \<Rightarrow> disk \<Rightarrow> bool" where
  "recoverable pl d =
     (idle (pl_old pl) d \<or> idle (goal pl) d \<or>
      (wf_plan pl \<and> (prepared pl d \<or> committed pl d \<or> rolling pl d)))"

definition decided :: "plan \<Rightarrow> disk \<Rightarrow> bool" where
  "decided pl d = (idle (goal pl) d \<or> (wf_plan pl \<and> committed pl d))"

section \<open>Reading and writing the disk\<close>

lemma targets_set_file:
  "targets (set_file l c d) p = (if l = Target p then c else targets d p)"
  by (simp add: targets_def set_file_def)

lemma staged_set_file:
  "staged_at pl (set_file l c d) i = (if l = Staged (pl_tid pl) i then c else staged_at pl d i)"
  by (simp add: staged_at_def set_file_def)

lemma backup_set_file:
  "backup_at pl (set_file l c d) i = (if l = Backup (pl_tid pl) i then c else backup_at pl d i)"
  by (simp add: backup_at_def set_file_def)

lemma journals_set_file [simp]: "dk_journals (set_file l c d) = dk_journals d"
  by (simp add: set_file_def)

lemma files_put_journal [simp]:
  "targets (put_journal t j d) = targets d" "staged_at pl (put_journal t j d) = staged_at pl d"
  "backup_at pl (put_journal t j d) = backup_at pl d"
  "targets (drop_journal t d) = targets d" "staged_at pl (drop_journal t d) = staged_at pl d"
  "backup_at pl (drop_journal t d) = backup_at pl d"
  by (simp_all add: fun_eq_iff targets_def staged_at_def backup_at_def put_journal_def drop_journal_def)

lemmas disk_simps = targets_set_file staged_set_file backup_set_file

lemma durable_set_file [simp]: "durable_journal pl s es (set_file l c d) = durable_journal pl s es d"
  by (simp add: durable_journal_def)

lemma durable_put_journal:
  assumes "dk_journals d = [] \<or> (\<exists>s es. durable_journal pl s es d)" "entries_for pl (jr_entries j)"
  shows "durable_journal pl (jr_state j) (jr_entries j) (put_journal (pl_tid pl) j d)"
  using assms by (auto simp: durable_journal_def put_journal_def)

lemma durable_drop_journal: "durable_journal pl s es d \<Longrightarrow> dk_journals (drop_journal (pl_tid pl) d) = []"
  by (simp add: durable_journal_def drop_journal_def)

lemma target_inj: "wf_plan pl \<Longrightarrow> i < size_of pl \<Longrightarrow> k < size_of pl \<Longrightarrow> tgt pl i = tgt pl k \<longleftrightarrow> i = k"
  using nth_eq_iff_index_eq [of "map mu_target (pl_muts pl)" i k] by (simp add: wf_plan_def)

lemma goal_target:
  assumes "wf_plan pl" "i < size_of pl"
  shows "goal pl (tgt pl i) = cont pl i"
proof -
  let ?al = "map (\<lambda>m. (mu_target m, mu_content m)) (pl_muts pl)"
  have "distinct (map fst ?al)" using assms(1) by (simp add: wf_plan_def comp_def)
  moreover have "(tgt pl i, cont pl i) \<in> set ?al" using assms(2) by force
  ultimately have "map_of ?al (tgt pl i) = Some (cont pl i)" by (rule map_of_is_SomeI)
  then show ?thesis by (simp add: goal_def published_content_def)
qed

lemma goal_other: "p \<notin> mu_target ` set (pl_muts pl) \<Longrightarrow> goal pl p = pl_old pl p"
proof -
  assume "p \<notin> mu_target ` set (pl_muts pl)"
  then have "map_of (map (\<lambda>m. (mu_target m, mu_content m)) (pl_muts pl)) p = None"
    by (simp add: map_of_eq_None_iff image_image)
  then show ?thesis by (simp add: goal_def published_content_def)
qed

lemma target_index: "p \<in> mu_target ` set (pl_muts pl) \<Longrightarrow> \<exists>i<size_of pl. p = tgt pl i"
  by (auto simp: in_set_conv_nth)

lemma all_published:
  assumes "wf_plan pl" "mixed pl d" "published pl (size_of pl) d"
  shows "targets d = goal pl"
proof
  fix p
  show "targets d p = goal pl p"
  proof (cases "p \<in> mu_target ` set (pl_muts pl)")
    case True
    then obtain i where "i < size_of pl" "p = tgt pl i" using target_index by blast
    with assms show ?thesis by (simp add: published_def goal_target)
  next
    case False
    with assms(2) goal_other [OF False] show ?thesis by (auto simp: mixed_def)
  qed
qed

lemma all_restored:
  assumes "mixed pl d" "restored pl 0 d"
  shows "targets d = pl_old pl"
proof
  fix p
  show "targets d p = pl_old pl p"
  proof (cases "p \<in> mu_target ` set (pl_muts pl)")
    case True
    then obtain i where "i < size_of pl" "p = tgt pl i" using target_index by blast
    with assms show ?thesis by (simp add: restored_def)
  next
    case False
    with assms(1) goal_other [OF False] show ?thesis by (auto simp: mixed_def)
  qed
qed

section \<open>Publishing\<close>

text \<open>The state of the loop: the journal on disk and the one in memory both allow to go on.\<close>

definition publishing :: "plan \<Rightarrow> nat \<Rightarrow> disk \<Rightarrow> journal \<Rightarrow> bool" where
  "publishing pl k d j =
     (prepared pl d \<and> published pl k d \<and> jr_state j = Prepared \<and>
      entries_for pl (jr_entries j) \<and> staged_ok pl d (jr_entries j))"

definition publishing_entry :: "plan \<Rightarrow> nat \<Rightarrow> disk \<Rightarrow> journal \<Rightarrow> bool" where
  "publishing_entry pl k d j =
     (durable_journal pl Prepared (jr_entries j) d \<and> staged_ok pl d (jr_entries j) \<and>
      backups_ok pl d \<and> mixed pl d \<and> published pl k d \<and> jr_state j = Prepared \<and>
      en_state (jr_entries j ! k) \<noteq> Pending)"

definition abortable :: "plan \<Rightarrow> disk \<Rightarrow> journal \<Rightarrow> bool" where
  "abortable pl d j =
     ((prepared pl d \<or> (committed pl d \<and> backups_ok pl d)) \<and> entries_for pl (jr_entries j))"

lemma publishing_abortable: "publishing pl k d j \<Longrightarrow> abortable pl d j"
  by (simp add: publishing_def abortable_def)

lemma publishing_entry_publishing: "publishing_entry pl k d j \<Longrightarrow> publishing pl k d j"
  by (auto simp: publishing_entry_def publishing_def prepared_def durable_journal_def)

text \<open>\<open>set_entry_state\<close> to a state other than pending.\<close>

lemma nth_entry_update:
  "(es[k := (es ! k)\<lparr>en_state := s\<rparr>]) ! i =
     (if i = k \<and> k < length es then (es ! i)\<lparr>en_state := s\<rparr> else es ! i)"
  by (cases "k < length es") (auto simp: nth_list_update list_update_beyond)

lemma entries_for_update:
  "entries_for pl es \<Longrightarrow> entries_for pl (es[k := (es ! k)\<lparr>en_state := s\<rparr>])"
  by (simp add: entries_for_def entry_for_def nth_entry_update)

lemma staged_ok_update:
  "staged_ok pl d es \<Longrightarrow> s \<noteq> Pending \<Longrightarrow> staged_ok pl d (es[k := (es ! k)\<lparr>en_state := s\<rparr>])"
  by (auto simp: staged_ok_def nth_entry_update)

lemma set_entry_state_holds:
  assumes "s \<noteq> Pending" "k < size_of pl"
  shows "holds md S (publishing pl m) (set_entry_state k s)
           (\<lambda>_ d j. publishing pl m d j \<and> en_state (jr_entries j ! k) \<noteq> Pending) E"
  unfolding set_entry_state_def
  by (rule h_remember)
    (use assms in \<open>simp add: publishing_def entries_for_update staged_ok_update nth_entry_update,
       simp add: entries_for_def\<close>)

text \<open>Writing the journal of the transaction: when both the old and the new journal are fine, so is
  every point in between.\<close>

lemma write_journal_holds:
  assumes "\<And>d j. P d j \<Longrightarrow> Q (put_journal tid j d) j" "\<And>d j. P d j \<Longrightarrow> E d j \<and> S d"
    and "\<And>d j. Q d j \<Longrightarrow> S d" "\<And>d j. md = AnyFault \<Longrightarrow> Q d j \<Longrightarrow> E d j"
  shows "holds md S P (write_journal tid) (\<lambda>_. Q) E"
  unfolding write_journal_def
proof (rule h_look)
  fix d0 j0
  show "holds md S (\<lambda>d j. P d j \<and> d = d0 \<and> j = j0)
          (io_steps [io_atomic (put_journal tid j0), io_sync]) (\<lambda>_. Q) E"
    by (rule h_cons [OF h_atomic [where Q = "\<lambda>_. Q"] h_last [OF h_sync]]) (use assms in auto)
qed

lemma prepared_put:
  assumes "publishing pl m d j"
  shows "durable_journal pl Prepared (jr_entries j) (put_journal (pl_tid pl) j d)"
    "staged_ok pl (put_journal (pl_tid pl) j d) (jr_entries j)"
    "backups_ok pl (put_journal (pl_tid pl) j d)" "mixed pl (put_journal (pl_tid pl) j d)"
    "published pl m (put_journal (pl_tid pl) j d)"
  using assms durable_put_journal [of d pl j]
  by (auto simp: publishing_def prepared_def staged_ok_def backups_ok_def mixed_def published_def)

lemma publishing_stop: "publishing pl m d j \<Longrightarrow> prepared pl d"
  by (simp add: publishing_def)

lemma write_publishing:
  "holds md (prepared pl) (\<lambda>d j. publishing pl m d j \<and> en_state (jr_entries j ! k) \<noteq> Pending)
     (write_journal (pl_tid pl))
     (\<lambda>_ d j. publishing pl m d j \<and> (m = k \<longrightarrow> publishing_entry pl k d j)) (abortable pl)"
proof (rule write_journal_holds)
  fix d j
  assume "publishing pl m d j \<and> en_state (jr_entries j ! k) \<noteq> Pending"
  then have a: "publishing pl m d j" "en_state (jr_entries j ! k) \<noteq> Pending" by auto
  then show "publishing pl m (put_journal (pl_tid pl) j d) j \<and>
      (m = k \<longrightarrow> publishing_entry pl k (put_journal (pl_tid pl) j d) j)"
    using prepared_put [OF a(1)] by (auto simp: publishing_entry_def publishing_def prepared_def)
qed (auto dest: publishing_abortable publishing_stop)

text \<open>The disk after one entry has been published.\<close>

lemma publish_disk:
  assumes "wf_plan pl" "k < size_of pl" "publishing_entry pl k d j"
    and "targets d' = (targets d)(tgt pl k := cont pl k)"
    and "\<And>i. i \<noteq> k \<Longrightarrow> staged_at pl d' i = staged_at pl d i"
    and "cont pl k \<noteq> None \<Longrightarrow> staged_at pl d' k = None"
    and "backup_at pl d' = backup_at pl d" "dk_journals d' = dk_journals d"
  shows "publishing_entry pl k d' j \<and> publishing pl (Suc k) d' j"
proof -
  have same: "i < size_of pl \<Longrightarrow> tgt pl i = tgt pl k \<longleftrightarrow> i = k" for i
    using target_inj [OF assms(1)] assms(2) by simp
  have durable: "durable_journal pl Prepared (jr_entries j) d'"
    using assms(3,8) by (simp add: publishing_entry_def durable_journal_def)
  have staged: "staged_ok pl d' (jr_entries j)"
    unfolding staged_ok_def
  proof (intro allI impI)
    fix i
    assume i: "i < size_of pl" "cont pl i \<noteq> None"
    show "staged_at pl d' i = cont pl i \<or> (staged_at pl d' i = None \<and>
        en_state (jr_entries j ! i) \<noteq> Pending \<and> targets d' (tgt pl i) = cont pl i)"
    proof (cases "i = k")
      case True
      with i assms(3,4,6) show ?thesis by (simp add: publishing_entry_def)
    next
      case False
      with i assms(3,4,5) same [OF i(1)] show ?thesis
        by (simp add: publishing_entry_def staged_ok_def)
    qed
  qed
  have backups: "backups_ok pl d'" using assms(3,7) by (simp add: publishing_entry_def backups_ok_def)
  have mixed: "mixed pl d'"
    using assms(3,4) goal_target [OF assms(1,2)] by (simp add: publishing_entry_def mixed_def)
  have published: "published pl (Suc k) d'"
    using assms(2,3,4) same by (auto simp: publishing_entry_def published_def less_Suc_eq)
  then have "published pl k d'" by (simp add: published_def)
  with durable staged backups mixed published assms(3) show ?thesis
    by (auto simp: publishing_entry_def publishing_def prepared_def durable_journal_def)
qed

lemma entry_fields:
  assumes "durable_journal pl s es d" "k < size_of pl"
  shows "en_target (es ! k) = tgt pl k" "en_index (es ! k) = k"
    "en_delete (es ! k) = (cont pl k = None)" "en_had_target (es ! k) = (pl_old pl (tgt pl k) \<noteq> None)"
  using assms by (simp_all add: durable_journal_def entries_for_def entry_for_def)

lemma publish_file_holds:
  assumes wf: "wf_plan pl" and k: "k < size_of pl" and pe: "publishing_entry pl k d0 j0"
  shows "holds md (prepared pl) (\<lambda>d j. publishing_entry pl k d j \<and> d = d0 \<and> j = j0)
           (publish_file (pl_tid pl) (jr_entries j0 ! k) d0) (\<lambda>_. publishing pl (Suc k)) (abortable pl)"
proof -
  have dj: "durable_journal pl Prepared (jr_entries j0) d0" using pe by (simp add: publishing_entry_def)
  note e = entry_fields [OF dj k] and disk = publish_disk [OF wf k pe, THEN conjunct2]
  have ok: "publishing_entry pl k d j \<Longrightarrow> abortable pl d j \<and> prepared pl d" for d j
    by (meson publishing_abortable publishing_entry_publishing publishing_stop)
  show ?thesis
  proof (cases "cont pl k")
    case None
    note delete = None
    show ?thesis
    proof (cases "targets d0 (tgt pl k)")
      case None
      then have "publishing pl (Suc k) d0 j0" using delete by (intro disk) auto
      with None delete e show ?thesis by (auto intro: h_return simp: targets_def publish_file_def)
    next
      case (Some c)
      have "publishing pl (Suc k) (set_file (Target (tgt pl k)) None d0) j0"
        using delete by (intro disk) (auto simp: disk_simps fun_eq_iff)
      with delete Some e ok show ?thesis by (auto intro!: h_atomic simp: targets_def publish_file_def)
    qed
  next
    case (Some c)
    note puts = Some
    show ?thesis
    proof (cases "staged_at pl d0 k")
      case None
      then have gone: "targets d0 (tgt pl k) = cont pl k" "en_state (jr_entries j0 ! k) \<noteq> Pending"
        using pe k puts by (auto simp: publishing_entry_def staged_ok_def)
      then have "publishing pl (Suc k) d0 j0" using puts None by (intro disk) (auto simp: fun_eq_iff)
      with gone puts None e show ?thesis
        by (auto intro: h_return simp: targets_def staged_at_def publish_file_def)
    next
      case (Some c')
      with pe k puts have "c' = c" by (auto simp: publishing_entry_def staged_ok_def)
      moreover have "publishing pl (Suc k) (set_file (Staged (pl_tid pl) k) None
          (set_file (Target (tgt pl k)) (Some c) d0)) j0"
        using puts by (intro disk) (auto simp: disk_simps fun_eq_iff)
      ultimately show ?thesis
        using Some puts e ok by (auto intro!: h_atomic simp: staged_at_def publish_file_def)
    qed
  qed
qed

lemma publish_entry_holds:
  assumes wf: "wf_plan pl" and k: "k < size_of pl"
  shows "holds md (prepared pl) (publishing_entry pl k)
           (io_look (\<lambda>_ j. publish_entry (pl_tid pl) (jr_entries j ! k))) (\<lambda>_. publishing pl (Suc k)) (abortable pl)"
proof (rule h_look)
  fix d0 j0
  assume "publishing_entry pl k d0 j0"
  have last: "holds md (prepared pl) (publishing pl (Suc k)) (io_steps [io_sync]) (\<lambda>_. publishing pl (Suc k)) (abortable pl)"
    by (rule h_last [OF h_sync]) (auto dest: publishing_abortable publishing_stop)
  have "holds md (prepared pl) (\<lambda>d j. publishing_entry pl k d j \<and> j = j0)
      (io_look (\<lambda>d _. publish_file (pl_tid pl) (jr_entries j0 ! k) d)) (\<lambda>_. publishing pl (Suc k)) (abortable pl)"
  proof (rule h_look)
    fix d1 j1
    assume "publishing_entry pl k d1 j1 \<and> j1 = j0"
    then show "holds md (prepared pl) (\<lambda>d j. (publishing_entry pl k d j \<and> j = j0) \<and> d = d1 \<and> j = j1)
        (publish_file (pl_tid pl) (jr_entries j0 ! k) d1) (\<lambda>_. publishing pl (Suc k)) (abortable pl)"
      by (intro h_weaken [OF publish_file_holds [OF wf k]]) auto
  qed
  then have "holds md (prepared pl) (\<lambda>d j. publishing_entry pl k d j \<and> j = j0)
      (publish_entry (pl_tid pl) (jr_entries j0 ! k)) (\<lambda>_. publishing pl (Suc k)) (abortable pl)"
    unfolding publish_entry_def by (rule h_cons [OF _ last])
  then show "holds md (prepared pl) (\<lambda>d j. publishing_entry pl k d j \<and> d = d0 \<and> j = j0)
      (publish_entry (pl_tid pl) (jr_entries j0 ! k)) (\<lambda>_. publishing pl (Suc k)) (abortable pl)"
    by (rule h_weaken) auto
qed

lemma publish_step_holds:
  assumes wf: "wf_plan pl" and k: "k < size_of pl"
  shows "holds md (prepared pl) (publishing pl k) (publish_step (pl_tid pl) k)
           (\<lambda>_. publishing pl (Suc k)) (abortable pl)"
  unfolding publish_step_def
proof (rule h_cons [OF set_entry_state_holds])
  let ?tid = "pl_tid pl" and ?S = "prepared pl" and ?E = "abortable pl"
  have last: "holds md ?S (publishing pl (Suc k)) (io_steps [set_entry_state k Published, write_journal ?tid])
      (\<lambda>_. publishing pl (Suc k)) ?E"
    by (rule h_cons [OF set_entry_state_holds [OF _ k] h_last [OF h_weaken [OF write_publishing]]]) auto
  have mid: "holds md ?S (publishing_entry pl k) (io_steps
      [io_look (\<lambda>_ j. publish_entry ?tid (jr_entries j ! k)), set_entry_state k Published, write_journal ?tid])
      (\<lambda>_. publishing pl (Suc k)) ?E"
    by (rule h_cons [OF publish_entry_holds [OF wf k] last])
  show "holds md ?S (\<lambda>d j. publishing pl k d j \<and> en_state (jr_entries j ! k) \<noteq> Pending) (io_steps
      [write_journal ?tid, io_look (\<lambda>_ j. publish_entry ?tid (jr_entries j ! k)),
       set_entry_state k Published, write_journal ?tid]) (\<lambda>_. publishing pl (Suc k)) ?E"
    by (rule h_cons [OF h_weaken [OF write_publishing [of md pl k k]] mid]) auto
qed (use k in auto)

lemma publish_all_holds:
  assumes wf: "wf_plan pl"
  shows "holds md (prepared pl) (publishing pl 0) (publish_all (pl_tid pl))
           (\<lambda>_. publishing pl (size_of pl)) (abortable pl)"
  unfolding publish_all_def
proof (rule h_look)
  fix d0 j0
  assume "publishing pl 0 d0 j0"
  then have n: "length (jr_entries j0) = size_of pl" by (simp add: publishing_def entries_for_def)
  have "holds md (prepared pl) (publishing pl 0) (io_steps (map (publish_step (pl_tid pl)) [0..<size_of pl]))
      (\<lambda>_. publishing pl (size_of pl)) (abortable pl)"
    using h_upto [where I = "publishing pl" and m = 0 and n = "size_of pl"] publish_step_holds [OF wf] by blast
  then show "holds md (prepared pl) (\<lambda>d j. publishing pl 0 d j \<and> d = d0 \<and> j = j0)
      (io_steps (map (publish_step (pl_tid pl)) [0..<length (jr_entries j0)]))
      (\<lambda>_. publishing pl (size_of pl)) (abortable pl)"
    unfolding n by (rule h_weaken) auto
qed

text \<open>The last step of publishing: the journal says committed.\<close>

definition closing :: "plan \<Rightarrow> disk \<Rightarrow> journal \<Rightarrow> bool" where
  "closing pl d j = (committed pl d \<and> backups_ok pl d \<and> entries_for pl (jr_entries j))"

lemma committed_put:
  assumes "wf_plan pl" "publishing pl (size_of pl) d j'" "entries_for pl (jr_entries j)" "jr_state j = Committed"
  shows "closing pl (put_journal (pl_tid pl) j d) j"
proof -
  have "targets d = goal pl" using assms(1,2) all_published by (simp add: publishing_def prepared_def)
  moreover have "durable_journal pl Committed (jr_entries j) (put_journal (pl_tid pl) j d)"
    using durable_put_journal [of d pl j] assms by (auto simp: publishing_def prepared_def)
  moreover have "backups_ok pl (put_journal (pl_tid pl) j d)"
    using assms(2) by (simp add: publishing_def prepared_def backups_ok_def)
  ultimately show ?thesis using assms(3) by (auto simp: closing_def committed_def)
qed

lemma write_committed_holds:
  assumes wf: "wf_plan pl"
  shows "holds md (\<lambda>d. prepared pl d \<or> committed pl d) (publishing pl (size_of pl))
           (io_steps [set_state Committed, write_journal (pl_tid pl)]) (\<lambda>_. closing pl) (abortable pl)"
proof (rule h_cons [where R = "\<lambda>d j. (\<exists>j'. publishing pl (size_of pl) d j') \<and>
    entries_for pl (jr_entries j) \<and> jr_state j = Committed"])
  show "holds md (\<lambda>d. prepared pl d \<or> committed pl d) (publishing pl (size_of pl)) (set_state Committed)
      (\<lambda>_ d j. (\<exists>j'. publishing pl (size_of pl) d j') \<and> entries_for pl (jr_entries j) \<and> jr_state j = Committed)
      (abortable pl)"
    unfolding set_state_def by (rule h_remember) (auto simp: publishing_def)
  show "holds md (\<lambda>d. prepared pl d \<or> committed pl d) (\<lambda>d j. (\<exists>j'. publishing pl (size_of pl) d j') \<and>
      entries_for pl (jr_entries j) \<and> jr_state j = Committed) (io_steps [write_journal (pl_tid pl)])
      (\<lambda>_. closing pl) (abortable pl)"
    by (rule h_last [OF write_journal_holds])
      (use committed_put [OF wf] in \<open>auto simp: publishing_stop abortable_def closing_def\<close>)
qed

section \<open>Rolling back, cleaning up, and the end of a transaction\<close>

lemma rollback_disk:
  assumes "wf_plan pl" "k < size_of pl" "rolling pl d" "restored pl (Suc k) d"
    and "targets d' = (targets d)(tgt pl k := pl_old pl (tgt pl k))"
    and "\<And>i. i \<noteq> k \<Longrightarrow> backup_at pl d' i = backup_at pl d i"
    and "backup_at pl d' k = None \<or> backup_at pl d' k = backup_at pl d k"
    and "dk_journals d' = dk_journals d"
  shows "rolling pl d' \<and> restored pl k d'"
proof -
  have same: "i < size_of pl \<Longrightarrow> tgt pl i = tgt pl k \<longleftrightarrow> i = k" for i
    using target_inj [OF assms(1)] assms(2) by simp
  have "backups_used pl d'"
    unfolding backups_used_def
  proof (intro allI impI)
    fix i
    assume i: "i < size_of pl" "pl_old pl (tgt pl i) \<noteq> None"
    show "backup_at pl d' i = pl_old pl (tgt pl i) \<or>
        (backup_at pl d' i = None \<and> targets d' (tgt pl i) = pl_old pl (tgt pl i))"
    proof (cases "i = k")
      case True
      with i assms(3,5,7) show ?thesis by (auto simp: rolling_def backups_used_def)
    next
      case False
      with i assms(3,5,6) same [OF i(1)] show ?thesis by (simp add: rolling_def backups_used_def)
    qed
  qed
  moreover have "mixed pl d'" using assms(3,5) by (simp add: rolling_def mixed_def)
  moreover have "restored pl k d'"
    using assms(4,5) same unfolding restored_def by (metis Suc_leI fun_upd_apply le_neq_implies_less)
  ultimately show ?thesis using assms(3,8) by (simp add: rolling_def durable_journal_def)
qed

lemma rollback_file_holds:
  assumes wf: "wf_plan pl" and k: "k < size_of pl" and es: "entries_for pl es"
    and roll: "rolling pl d0" "restored pl (Suc k) d0"
  shows "holds md (rolling pl) (\<lambda>d j. d = d0) (rollback_file (pl_tid pl) (es ! k) d0)
           (\<lambda>_ d j. rolling pl d \<and> restored pl k d) (\<lambda>d j. rolling pl d)"
proof -
  have e: "en_target (es ! k) = tgt pl k" "en_index (es ! k) = k"
    "en_had_target (es ! k) = (pl_old pl (tgt pl k) \<noteq> None)"
    using es k by (simp_all add: entries_for_def entry_for_def)
  note disk = rollback_disk [OF wf k roll]
  show ?thesis
  proof (cases "pl_old pl (tgt pl k)")
    case None
    show ?thesis
    proof (cases "targets d0 (tgt pl k)")
      case gone: None
      then have "rolling pl d0 \<and> restored pl k d0" using None by (intro disk) (auto simp: fun_eq_iff)
      with gone None e show ?thesis by (auto intro: h_return simp: targets_def rollback_file_def)
    next
      case (Some c)
      have "rolling pl (set_file (Target (tgt pl k)) None d0) \<and> restored pl k (set_file (Target (tgt pl k)) None d0)"
        using None by (intro disk) (auto simp: disk_simps fun_eq_iff)
      with None Some e roll show ?thesis by (auto intro!: h_atomic simp: targets_def rollback_file_def)
    qed
  next
    case (Some c)
    note had = Some
    show ?thesis
    proof (cases "backup_at pl d0 k")
      case None
      then have same: "targets d0 (tgt pl k) = pl_old pl (tgt pl k)"
        using roll k had by (auto simp: rolling_def backups_used_def)
      then have "rolling pl d0 \<and> restored pl k d0" by (intro disk) (auto simp: fun_eq_iff)
      with same had None e show ?thesis
        by (auto intro: h_return simp: targets_def backup_at_def rollback_file_def)
    next
      case (Some c')
      with roll k had have "c' = c" by (auto simp: rolling_def backups_used_def)
      moreover have "rolling pl (set_file (Backup (pl_tid pl) k) None (set_file (Target (tgt pl k)) (Some c) d0)) \<and>
          restored pl k (set_file (Backup (pl_tid pl) k) None (set_file (Target (tgt pl k)) (Some c) d0))"
        using had by (intro disk) (auto simp: disk_simps fun_eq_iff)
      ultimately show ?thesis
        using Some had e roll by (auto intro!: h_atomic simp: backup_at_def rollback_file_def)
    qed
  qed
qed

text \<open>The journal in memory does not matter to a roll back, so any \<open>R\<close> of it is kept.\<close>

lemma rollback_entries_holds:
  assumes wf: "wf_plan pl" and es: "entries_for pl es"
  shows "holds md (rolling pl) (\<lambda>d j. rolling pl d) (rollback_entries (pl_tid pl) es)
           (\<lambda>ok d j. rolling pl d \<and> (ok \<longrightarrow> targets d = pl_old pl) \<and> (md = NoFault \<longrightarrow> ok))
           (\<lambda>d j. rolling pl d)"
  unfolding rollback_entries_def
proof (rule h_try)
  let ?I = "\<lambda>k d (j :: journal). rolling pl d \<and> restored pl k d"
  have n: "length es = size_of pl" using es by (simp add: entries_for_def)
  have step: "holds md (rolling pl) (?I (Suc k)) (rollback_entry (pl_tid pl) (es ! k)) (\<lambda>_. ?I k)
      (\<lambda>d j. rolling pl d)" if k: "k < size_of pl" for k
    unfolding rollback_entry_def
  proof (rule h_cons [OF h_look h_last [OF h_sync]])
    fix d0 :: disk and j0 :: journal
    assume "rolling pl d0 \<and> restored pl (Suc k) d0"
    then show "holds md (rolling pl) (\<lambda>d j. ?I (Suc k) d j \<and> d = d0 \<and> j = j0)
        (rollback_file (pl_tid pl) (es ! k) d0) (\<lambda>_. ?I k) (\<lambda>d j. rolling pl d)"
      by (intro h_weaken [OF rollback_file_holds [OF wf k es]]) auto
  qed auto
  have "holds md (rolling pl) (?I (length es)) (io_steps (map (rollback_entry (pl_tid pl)) (rev es)))
      (\<lambda>_. ?I 0) (\<lambda>d j. rolling pl d \<and> md \<noteq> NoFault)"
  proof (rule h_downto)
    fix k
    assume "k < length es"
    then have "holds md (rolling pl) (?I (Suc k)) (rollback_entry (pl_tid pl) (es ! k)) (\<lambda>_. ?I k)
        (\<lambda>d j. rolling pl d)" using step n by simp
    then show "holds md (rolling pl) (?I (Suc k)) (rollback_entry (pl_tid pl) (es ! k)) (\<lambda>_. ?I k)
        (\<lambda>d j. rolling pl d \<and> md \<noteq> NoFault)" by (rule h_quiet)
  qed
  then show "holds md (rolling pl) (\<lambda>d j. rolling pl d)
      (io_steps (map (rollback_entry (pl_tid pl)) (rev es)))
      (\<lambda>_ d j. rolling pl d \<and> (True \<longrightarrow> targets d = pl_old pl) \<and> (md = NoFault \<longrightarrow> True))
      (\<lambda>d j. rolling pl d \<and> (False \<longrightarrow> targets d = pl_old pl) \<and> (md = NoFault \<longrightarrow> False))"
    by (rule h_weaken) (auto simp: n restored_def rolling_def intro: all_restored)
qed

text \<open>Cleaning up removes staged files and backups only.\<close>

lemma cleanup_holds:
  assumes "\<And>d l. P d \<Longrightarrow> (\<forall>p. l \<noteq> Target p) \<Longrightarrow> P (set_file l None d)" "\<And>d. P d \<Longrightarrow> S d"
  shows "holds md S (\<lambda>d j. P d \<and> R j) (cleanup_entries tid es) (\<lambda>_ d j. P d \<and> R j) (\<lambda>d j. P d)"
proof -
  let ?I = "\<lambda>d j. P d \<and> R j"
  have unlink: "holds md S ?I (io_atomic (set_file l None)) (\<lambda>_. ?I) (\<lambda>d j. P d)" if "\<forall>p. l \<noteq> Target p" for l
    using assms that by (intro h_atomic) auto
  have "holds md S ?I (cleanup_entry tid e) (\<lambda>_. ?I) (\<lambda>d j. P d)" for e
    unfolding cleanup_entry_def
  proof (rule h_cons)
    show "holds md S ?I (if en_delete e then io_return () else io_atomic (set_file (Staged tid (en_index e)) None))
        (\<lambda>_. ?I) (\<lambda>d j. P d)" using unlink by (auto intro: h_return)
    show "holds md S ?I (io_steps [io_atomic (set_file (Backup tid (en_index e)) None)]) (\<lambda>_. ?I) (\<lambda>d j. P d)"
      using unlink by (intro h_last) auto
  qed
  then show ?thesis unfolding cleanup_entries_def by (intro h_each)
qed

lemma unlink_journal_holds:
  assumes "\<And>d. P d \<Longrightarrow> dk_journals (drop_journal tid d) = [] \<and> targets d = c \<and> S d"
    and "\<And>d. idle c d \<Longrightarrow> S d"
  shows "holds md S (\<lambda>d j. P d) (unlink_journal tid) (\<lambda>_ d j. idle c d) (\<lambda>d j. S d)"
  unfolding unlink_journal_def
  by (rule h_cons [OF h_atomic [where Q = "\<lambda>_ d j. idle c d"] h_last [OF h_sync]])
    (use assms in \<open>auto simp: idle_def\<close>)

definition rolled :: "plan \<Rightarrow> disk \<Rightarrow> bool" where
  "rolled pl d = (rolling pl d \<and> targets d = pl_old pl)"

lemma rolled_set_file: "rolled pl d \<Longrightarrow> \<forall>p. l \<noteq> Target p \<Longrightarrow> rolled pl (set_file l None d)"
  by (auto simp: rolled_def rolling_def backups_used_def mixed_def disk_simps)

lemma committed_set_file: "committed pl d \<Longrightarrow> \<forall>p. l \<noteq> Target p \<Longrightarrow> committed pl (set_file l None d)"
  by (simp add: committed_def fun_eq_iff disk_simps)

lemma idle_set_file: "idle c d \<Longrightarrow> \<forall>p. l \<noteq> Target p \<Longrightarrow> idle c (set_file l None d)"
  by (simp add: idle_def fun_eq_iff disk_simps)

lemma end_rolled:
  "holds md (\<lambda>d. rolling pl d \<or> idle (pl_old pl) d) (\<lambda>d j. rolled pl d)
     (io_steps [cleanup_entries (pl_tid pl) es, unlink_journal (pl_tid pl)])
     (\<lambda>_ d j. idle (pl_old pl) d) (\<lambda>d j. rolling pl d \<or> idle (pl_old pl) d)"
proof (rule h_cons [OF h_weaken [OF cleanup_holds [where P = "rolled pl" and R = "\<lambda>_. True"]]
      h_last [OF unlink_journal_holds [where P = "rolled pl"]]])
  show "\<And>d. rolled pl d \<Longrightarrow> dk_journals (drop_journal (pl_tid pl) d) = [] \<and> targets d = pl_old pl \<and>
      (rolling pl d \<or> idle (pl_old pl) d)"
    by (auto simp: rolled_def rolling_def dest: durable_drop_journal)
qed (auto simp: rolled_set_file, auto simp: rolled_def)

lemma end_committed:
  "holds md (\<lambda>d. committed pl d \<or> idle (goal pl) d) (\<lambda>d j. committed pl d)
     (io_steps [cleanup_entries (pl_tid pl) es, unlink_journal (pl_tid pl)])
     (\<lambda>_ d j. idle (goal pl) d) (\<lambda>d j. committed pl d \<or> idle (goal pl) d)"
proof (rule h_cons [OF h_weaken [OF cleanup_holds [where P = "committed pl" and R = "\<lambda>_. True"]]
      h_last [OF unlink_journal_holds [where P = "committed pl"]]])
  show "\<And>d. committed pl d \<Longrightarrow> dk_journals (drop_journal (pl_tid pl) d) = [] \<and> targets d = goal pl \<and>
      (committed pl d \<or> idle (goal pl) d)"
    by (auto simp: committed_def dest: durable_drop_journal)
qed (auto simp: committed_set_file)

section \<open>Commit\<close>

lemma rolling_put:
  assumes "abortable pl d j'" "entries_for pl (jr_entries j)" "jr_state j = RollingBack"
  shows "rolling pl (put_journal (pl_tid pl) j d)"
proof -
  have "durable_journal pl RollingBack (jr_entries j) (put_journal (pl_tid pl) j d)"
    using durable_put_journal [of d pl j] assms by (auto simp: abortable_def prepared_def committed_def)
  moreover have "backups_ok pl d" "mixed pl d"
    using assms(1) by (auto simp: abortable_def prepared_def committed_def mixed_def)
  ultimately show ?thesis by (auto simp: rolling_def backups_used_def backups_ok_def mixed_def)
qed

lemma abort_holds:
  assumes wf: "wf_plan pl"
  shows "holds md (recoverable pl) (abortable pl) (abort_transaction (pl_tid pl))
           (\<lambda>_ d j. recoverable pl d) (\<lambda>d j. recoverable pl d)"
  unfolding abort_transaction_def
proof (rule h_cons)
  let ?R = "\<lambda>d (j :: journal). (\<exists>j'. abortable pl d j') \<and> entries_for pl (jr_entries j) \<and> jr_state j = RollingBack"
  let ?Q = "\<lambda>d (j :: journal). rolling pl d \<and> entries_for pl (jr_entries j)"
  have ab: "abortable pl d j \<Longrightarrow> recoverable pl d" and ro: "rolling pl d \<Longrightarrow> recoverable pl d" for d j
    using wf by (auto simp: abortable_def recoverable_def)
  show "holds md (recoverable pl) (abortable pl) (set_state RollingBack) (\<lambda>_. ?R) (\<lambda>d j. recoverable pl d)"
    unfolding set_state_def by (rule h_remember) (auto simp: abortable_def)
  have undo: "holds md (recoverable pl) ?Q
      (io_look (\<lambda>_ j. io_bind (rollback_entries (pl_tid pl) (jr_entries j)) (\<lambda>ok.
         if ok then io_steps [cleanup_entries (pl_tid pl) (jr_entries j), unlink_journal (pl_tid pl)]
         else io_return ()))) (\<lambda>_ d j. recoverable pl d) (\<lambda>d j. recoverable pl d)"
  proof (rule h_look)
    fix d0 j0
    assume "?Q d0 j0"
    then have es: "entries_for pl (jr_entries j0)" by simp
    show "holds md (recoverable pl) (\<lambda>d j. ?Q d j \<and> d = d0 \<and> j = j0)
        (io_bind (rollback_entries (pl_tid pl) (jr_entries j0)) (\<lambda>ok.
           if ok then io_steps [cleanup_entries (pl_tid pl) (jr_entries j0), unlink_journal (pl_tid pl)]
           else io_return ())) (\<lambda>_ d j. recoverable pl d) (\<lambda>d j. recoverable pl d)"
    proof (rule h_bind)
      show "holds md (recoverable pl) (\<lambda>d j. ?Q d j \<and> d = d0 \<and> j = j0)
          (rollback_entries (pl_tid pl) (jr_entries j0))
          (\<lambda>ok d j. rolling pl d \<and> (ok \<longrightarrow> targets d = pl_old pl)) (\<lambda>d j. recoverable pl d)"
        by (rule h_weaken [OF h_stop [OF rollback_entries_holds [OF wf es] ro]]) (auto intro: ro)
      fix ok
      show "holds md (recoverable pl) (\<lambda>d j. rolling pl d \<and> (ok \<longrightarrow> targets d = pl_old pl))
          (if ok then io_steps [cleanup_entries (pl_tid pl) (jr_entries j0), unlink_journal (pl_tid pl)]
           else io_return ()) (\<lambda>_ d j. recoverable pl d) (\<lambda>d j. recoverable pl d)"
      proof (cases ok)
        case True
        have "holds md (recoverable pl) (\<lambda>d j. rolled pl d)
            (io_steps [cleanup_entries (pl_tid pl) (jr_entries j0), unlink_journal (pl_tid pl)])
            (\<lambda>_ d j. idle (pl_old pl) d) (\<lambda>d j. rolling pl d \<or> idle (pl_old pl) d)"
          by (rule h_stop [OF end_rolled]) (auto simp: recoverable_def wf)
        then have "holds md (recoverable pl) (\<lambda>d j. rolling pl d \<and> (ok \<longrightarrow> targets d = pl_old pl))
            (io_steps [cleanup_entries (pl_tid pl) (jr_entries j0), unlink_journal (pl_tid pl)])
            (\<lambda>_ d j. recoverable pl d) (\<lambda>d j. recoverable pl d)"
          by (rule h_weaken) (auto simp: True rolled_def recoverable_def wf)
        then show ?thesis unfolding if_P [OF True] .
      qed (auto intro: h_return ro)
    qed
  qed
  show "holds md (recoverable pl) ?R (io_steps
      [write_journal (pl_tid pl), io_look (\<lambda>_ j. io_bind (rollback_entries (pl_tid pl) (jr_entries j)) (\<lambda>ok.
         if ok then io_steps [cleanup_entries (pl_tid pl) (jr_entries j), unlink_journal (pl_tid pl)]
         else io_return ()))]) (\<lambda>_ d j. recoverable pl d) (\<lambda>d j. recoverable pl d)"
    by (rule h_cons [OF write_journal_holds h_last [OF undo]])
      (auto intro: ab ro rolling_put)
qed

lemma callback_holds:
  assumes "\<And>d j. P d j \<Longrightarrow> E d j \<and> S d"
  shows "holds md S P (if callback then io_atomic id else io_return ()) (\<lambda>_. P) E"
  using assms by (auto intro: h_atomic h_return)

lemma publish_transaction_holds:
  assumes wf: "wf_plan pl"
  shows "holds md (recoverable pl) (publishing pl 0) (publish_transaction (pl_tid pl) callback)
           (\<lambda>_. closing pl) (\<lambda>d j. recoverable pl d)"
  unfolding publish_transaction_def
proof (rule h_on_error [OF _ abort_holds [OF wf]])
  have pr: "prepared pl d \<Longrightarrow> recoverable pl d" and co: "committed pl d \<Longrightarrow> recoverable pl d" for d
    using wf by (auto simp: recoverable_def)
  let ?P = "publishing pl (size_of pl)"
  have last: "holds md (recoverable pl) ?P (io_steps [set_state Committed, write_journal (pl_tid pl)])
      (\<lambda>_. closing pl) (abortable pl)"
    by (rule h_stop [OF write_committed_holds [OF wf]]) (auto intro: pr co)
  have mid: "holds md (recoverable pl) ?P
      (if callback then io_atomic id else io_return ()) (\<lambda>_. ?P) (abortable pl)"
    by (rule callback_holds) (auto dest: publishing_abortable publishing_stop pr)
  show "holds md (recoverable pl) (publishing pl 0) (io_steps
      [publish_all (pl_tid pl), if callback then io_atomic id else io_return (),
       set_state Committed, write_journal (pl_tid pl)]) (\<lambda>_. closing pl) (abortable pl)"
    by (rule h_cons [OF h_stop [OF publish_all_holds [OF wf] pr] h_cons [OF mid last]])
qed

lemma close_transaction_holds:
  assumes wf: "wf_plan pl"
  shows "holds md (recoverable pl) (closing pl) (close_transaction (pl_tid pl))
           (\<lambda>_ d j. decided pl d) (\<lambda>d j. recoverable pl d)"
  unfolding close_transaction_def
proof (rule h_look)
  fix d0 :: disk and j0 :: journal
  let ?p = "io_steps [cleanup_entries (pl_tid pl) (jr_entries j0), unlink_journal (pl_tid pl)]"
  have "holds md (recoverable pl) (\<lambda>d j. closing pl d j \<and> d = d0 \<and> j = j0) (io_try ?p)
      (\<lambda>ok d j. decided pl d) (\<lambda>d j. recoverable pl d)"
    by (rule h_try, rule h_weaken [OF h_stop [OF end_committed]])
      (auto simp: wf recoverable_def decided_def closing_def)
  then show "holds md (recoverable pl) (\<lambda>d j. closing pl d j \<and> d = d0 \<and> j = j0)
      (io_bind (io_try ?p) (\<lambda>_. io_return ())) (\<lambda>_ d j. decided pl d) (\<lambda>d j. recoverable pl d)"
    by (rule h_bind) (auto intro: h_return)
qed

section \<open>Opening a transaction\<close>

text \<open>The mutations prepared so far, as the first \<open>k\<close> of the plan.\<close>

definition opened :: "plan \<Rightarrow> entry list \<Rightarrow> disk \<Rightarrow> bool" where
  "opened pl es d =
     (idle (pl_old pl) d \<and>
      (\<forall>i<length es. entry_for pl i (es ! i) \<and> inside (pl_dir pl) (tgt pl i)) \<and>
      distinct (map en_target es) \<and>
      (\<forall>i<length es. cont pl i \<noteq> None \<longrightarrow> staged_at pl d i = cont pl i) \<and>
      (\<forall>i<length es. pl_old pl (tgt pl i) \<noteq> None \<longrightarrow> backup_at pl d i = pl_old pl (tgt pl i)))"

lemma prepare_cleanup:
  "holds md (recoverable pl) (\<lambda>d j. idle (pl_old pl) d) (cleanup_entries tid es)
     (\<lambda>_ d j. idle (pl_old pl) d) (\<lambda>d j. idle (pl_old pl) d)"
proof (rule h_weaken [OF cleanup_holds [where P = "idle (pl_old pl)" and R = "\<lambda>_. True"]])
  show "\<And>d. idle (pl_old pl) d \<Longrightarrow> recoverable pl d" by (simp add: recoverable_def)
qed (auto intro: idle_set_file)

lemma opened_set_file:
  assumes "opened pl es d" "\<forall>p. l \<noteq> Target p" "\<forall>i<length es. l \<noteq> Staged (pl_tid pl) i \<and> l \<noteq> Backup (pl_tid pl) i"
  shows "opened pl es (set_file l c d)"
  using assms by (auto simp: opened_def idle_def disk_simps fun_eq_iff)

text \<open>The backup of the next mutation, and its staged file.\<close>

definition backed_up :: "plan \<Rightarrow> nat \<Rightarrow> disk \<Rightarrow> bool" where
  "backed_up pl k d = (pl_old pl (tgt pl k) \<noteq> None \<longrightarrow> backup_at pl d k = pl_old pl (tgt pl k))"

lemma prepare_entry_holds:
  assumes e: "entry_for pl (length es) e" and m: "mu_content m = cont pl (length es)"
  shows "holds md (recoverable pl) (\<lambda>d j. opened pl es d) (prepare_entry (pl_tid pl) e m)
           (\<lambda>_ d j. opened pl es d \<and> backed_up pl (length es) d \<and>
              (cont pl (length es) \<noteq> None \<longrightarrow> staged_at pl d (length es) = cont pl (length es)))
           (\<lambda>d j. idle (pl_old pl) d)"
  unfolding prepare_entry_def
proof (rule h_cons)
  let ?k = "length es"
  let ?B = "\<lambda>d (j :: journal). opened pl es d \<and> backed_up pl ?k d"
  let ?F = "\<lambda>d (j :: journal). ?B d j \<and> (cont pl ?k \<noteq> None \<longrightarrow> staged_at pl d ?k = cont pl ?k)"
  have f: "en_target e = tgt pl ?k" "en_index e = ?k" "en_delete e = (cont pl ?k = None)"
    "en_had_target e = (pl_old pl (tgt pl ?k) \<noteq> None)" using e by (simp_all add: entry_for_def)
  have op: "opened pl es d \<Longrightarrow> idle (pl_old pl) d \<and> recoverable pl d" for d
    by (simp add: opened_def recoverable_def)
  have keep: "opened pl es d \<Longrightarrow> opened pl es (set_file (Staged (pl_tid pl) ?k) c d)"
    "opened pl es d \<Longrightarrow> opened pl es (set_file (Backup (pl_tid pl) ?k) c d)" for c d
    by (auto intro!: opened_set_file)
  show "holds md (recoverable pl) (\<lambda>d j. opened pl es d)
      (if en_had_target e
       then io_look (\<lambda>d _. io_write (Backup (pl_tid pl) (en_index e)) (dk_files d (Target (en_target e))))
       else io_return ()) (\<lambda>_. ?B) (\<lambda>d j. idle (pl_old pl) d)"
  proof (cases "en_had_target e")
    case True
    have "holds md (recoverable pl) (\<lambda>d j. opened pl es d)
        (io_look (\<lambda>d _. io_write (Backup (pl_tid pl) ?k) (dk_files d (Target (tgt pl ?k))))) (\<lambda>_. ?B)
        (\<lambda>d j. idle (pl_old pl) d)"
    proof (rule h_look, rule h_write)
      fix d0 j0 d j
      assume o: "opened pl es d0" and d: "opened pl es d \<and> d = d0 \<and> j = (j0 :: journal)"
      then have "dk_files d0 (Target (tgt pl ?k)) = pl_old pl (tgt pl ?k)"
        by (auto simp: opened_def idle_def targets_def fun_eq_iff)
      with o d keep(2) [of d0] show "?B (set_file (Backup (pl_tid pl) ?k) (dk_files d0 (Target (tgt pl ?k))) d) j"
        by (simp add: backed_up_def disk_simps)
    qed (use op keep in auto)
    with True f show ?thesis by simp
  next
    case False
    then show ?thesis using f by (auto intro!: h_return simp: backed_up_def)
  qed
  have "holds md (recoverable pl) ?B
      (if en_delete e then io_return () else io_write (Staged (pl_tid pl) (en_index e)) (mu_content m))
      (\<lambda>_. ?F) (\<lambda>d j. idle (pl_old pl) d)"
  proof (cases "cont pl ?k")
    case None
    with f show ?thesis by (auto intro: h_return)
  next
    case (Some c)
    have "holds md (recoverable pl) ?B (io_write (Staged (pl_tid pl) ?k) (cont pl ?k)) (\<lambda>_. ?F)
        (\<lambda>d j. idle (pl_old pl) d)"
      by (rule h_write) (use op keep in \<open>auto simp: backed_up_def disk_simps\<close>)
    with f m Some show ?thesis by simp
  qed
  then show "holds md (recoverable pl) ?B
      (io_steps [if en_delete e then io_return () else io_write (Staged (pl_tid pl) (en_index e)) (mu_content m),
         io_sync]) (\<lambda>_ d j. opened pl es d \<and> backed_up pl ?k d \<and>
         (cont pl ?k \<noteq> None \<longrightarrow> staged_at pl d ?k = cont pl ?k)) (\<lambda>d j. idle (pl_old pl) d)"
    by (rule h_cons [where R = ?F, OF _ h_last [OF h_sync]]) (use op in auto)
qed

lemma opened_snoc:
  assumes "opened pl es d" "entry_for pl (length es) e" "inside (pl_dir pl) (tgt pl (length es))"
    and "en_target e \<notin> en_target ` set es" "backed_up pl (length es) d"
    and "cont pl (length es) \<noteq> None \<Longrightarrow> staged_at pl d (length es) = cont pl (length es)"
  shows "opened pl (es @ [e]) d"
  using assms unfolding opened_def backed_up_def
  by (auto simp: nth_append less_Suc_eq)

lemma prepare_entries_holds:
  "length es + length ms = size_of pl \<Longrightarrow> drop (length es) (pl_muts pl) = ms \<Longrightarrow>
   holds md (recoverable pl) (\<lambda>d j. opened pl es d \<and> md \<noteq> NoFault) (prepare_entries (pl_dir pl) (pl_tid pl) es ms)
     (\<lambda>es' d j. opened pl es' d \<and> length es' = size_of pl) (\<lambda>d j. idle (pl_old pl) d)"
proof (induction ms arbitrary: es)
  case Nil
  then show ?case by (auto intro: h_return)
next
  case (Cons m ms)
  let ?k = "length es" and ?tid = "pl_tid pl"
  have k: "?k < size_of pl" using Cons.prems(1) by simp
  have m: "m = pl_muts pl ! ?k" "drop (Suc ?k) (pl_muts pl) = ms"
    using Cons.prems(2) k by (auto simp: Cons_nth_drop_Suc [symmetric])
  have idle: "opened pl es' d \<Longrightarrow> idle (pl_old pl) d \<and> recoverable pl d" for es' d
    by (simp add: opened_def recoverable_def)
  show ?case
    unfolding prepare_entries.simps
  proof (rule h_look)
    fix d0 :: disk and j0 :: journal
    assume o: "opened pl es d0 \<and> md \<noteq> NoFault"
    let ?e = "make_entry d0 ?k m" and ?P = "\<lambda>d j. (opened pl es d \<and> md \<noteq> NoFault) \<and> d = d0 \<and> j = j0"
    let ?Q = "\<lambda>es' d (j :: journal). opened pl es' d \<and> length es' = size_of pl"
    have e: "entry_for pl ?k ?e" "en_target ?e = mu_target m"
      using o m(1) by (auto simp: opened_def idle_def targets_def entry_for_def make_entry_def fun_eq_iff)
    show "holds md (recoverable pl) ?P
        (if \<not> inside (pl_dir pl) (mu_target m) \<or> mu_target m \<in> en_target ` set es
         then io_on_error io_raise (cleanup_entries ?tid es)
         else io_bind (io_on_error make_directory (cleanup_entries ?tid es)) (\<lambda>_.
              let e = make_entry d0 ?k m; es' = es @ [e]
              in io_bind (io_on_error (prepare_entry ?tid e m) (cleanup_entries ?tid es'))
                   (\<lambda>_. prepare_entries (pl_dir pl) ?tid es' ms))) ?Q (\<lambda>d j. idle (pl_old pl) d)"
    proof (cases "\<not> inside (pl_dir pl) (mu_target m) \<or> mu_target m \<in> en_target ` set es")
      case True
      have "holds md (recoverable pl) ?P (io_on_error io_raise (cleanup_entries ?tid es)) ?Q
          (\<lambda>d j. idle (pl_old pl) d)"
        by (rule h_on_error [OF h_raise prepare_cleanup]) (use idle in auto)
      with True show ?thesis by simp
    next
      case False
      let ?R = "\<lambda>d (j :: journal). opened pl (es @ [?e]) d \<and> md \<noteq> NoFault"
      have one: "holds md (recoverable pl) ?P
          (io_on_error (prepare_entry ?tid ?e m) (cleanup_entries ?tid (es @ [?e]))) (\<lambda>_. ?R)
          (\<lambda>d j. idle (pl_old pl) d)"
      proof (rule h_on_error [OF h_weaken [OF prepare_entry_holds [OF e(1)]] prepare_cleanup])
        fix a d j
        assume "opened pl es d \<and> backed_up pl ?k d \<and> (cont pl ?k \<noteq> None \<longrightarrow> staged_at pl d ?k = cont pl ?k)"
        moreover have "en_target ?e \<notin> en_target ` set es" using False e(2) by simp
        ultimately have "opened pl (es @ [?e]) d" using False e(1) m(1) by (intro opened_snoc) auto
        with o show "?R d j" by simp
      qed (use m(1) in auto)
      have "holds md (recoverable pl) ?R (prepare_entries (pl_dir pl) ?tid (es @ [?e]) ms) ?Q
          (\<lambda>d j. idle (pl_old pl) d)"
        using Cons.prems(1) m(2) by (intro Cons.IH) auto
      with one have "holds md (recoverable pl) ?P
          (io_bind (io_on_error (prepare_entry ?tid ?e m) (cleanup_entries ?tid (es @ [?e])))
             (\<lambda>_. prepare_entries (pl_dir pl) ?tid (es @ [?e]) ms)) ?Q (\<lambda>d j. idle (pl_old pl) d)"
        by (rule h_bind)
      moreover have "holds md (recoverable pl) ?P (io_on_error make_directory (cleanup_entries ?tid es)) (\<lambda>_. ?P)
          (\<lambda>d j. idle (pl_old pl) d)"
        unfolding make_directory_def by (rule h_on_error [OF h_atomic prepare_cleanup]) (use idle in auto)
      ultimately show ?thesis unfolding if_not_P [OF False] Let_def by (rule h_bind [rotated])
    qed
  qed
qed

lemma opened_plan:
  assumes "opened pl es d" "length es = size_of pl" "pl_muts pl \<noteq> []"
  shows "wf_plan pl \<and> entries_for pl es \<and> staged_ok pl d es \<and> backups_ok pl d \<and> mixed pl d"
proof -
  have "map mu_target (pl_muts pl) = map en_target es"
    using assms(1,2) by (intro nth_equalityI) (auto simp: opened_def entry_for_def)
  then have "distinct (map mu_target (pl_muts pl))" using assms(1) by (simp add: opened_def)
  moreover have "list_all (\<lambda>m. inside (pl_dir pl) (mu_target m)) (pl_muts pl)"
    using assms(1,2) by (auto simp: opened_def list_all_length)
  ultimately show ?thesis using assms
    by (simp add: wf_plan_def opened_def entries_for_def staged_ok_def backups_ok_def mixed_def idle_def)
qed

lemma open_transaction_holds:
  assumes "pl_muts pl \<noteq> []"
  shows "holds NoSyncFault (recoverable pl) (\<lambda>d j. idle (pl_old pl) d)
           (open_transaction (pl_dir pl) (pl_tid pl) (pl_muts pl))
           (\<lambda>_ d j. wf_plan pl \<and> publishing pl 0 d j) (\<lambda>d j. idle (pl_old pl) d)"
  unfolding open_transaction_def make_directory_def
proof (rule h_bind [OF h_atomic [where Q = "\<lambda>_ d j. idle (pl_old pl) d"]], simp, simp add: recoverable_def, rule h_bind)
  let ?Q = "\<lambda>es d (j :: journal). opened pl es d \<and> length es = size_of pl"
  show "holds NoSyncFault (recoverable pl) (\<lambda>d j. idle (pl_old pl) d)
      (prepare_entries (pl_dir pl) (pl_tid pl) [] (pl_muts pl)) ?Q (\<lambda>d j. idle (pl_old pl) d)"
    by (rule h_weaken [OF prepare_entries_holds]) (auto simp: opened_def)
  fix es
  let ?J = "\<lparr>jr_state = Prepared, jr_entries = es\<rparr>"
  have pub: "wf_plan pl \<and> publishing pl 0 (put_journal (pl_tid pl) ?J d) ?J" if o: "?Q es d ?J" for d
  proof -
    note p = opened_plan [OF o [THEN conjunct1] o [THEN conjunct2] assms]
    have "durable_journal pl Prepared es (put_journal (pl_tid pl) ?J d)"
      using durable_put_journal [of d pl ?J] o p by (simp add: opened_def idle_def)
    with p show ?thesis
      by (auto simp: publishing_def prepared_def staged_ok_def backups_ok_def mixed_def published_def)
  qed
  show "holds NoSyncFault (recoverable pl) (?Q es)
      (io_steps [io_remember (\<lambda>_. ?J), io_on_error (write_journal (pl_tid pl))
         (io_steps [cleanup_entries (pl_tid pl) es, unlink_journal (pl_tid pl)])])
      (\<lambda>_ d j. wf_plan pl \<and> publishing pl 0 d j) (\<lambda>d j. idle (pl_old pl) d)"
  proof (rule h_cons [OF h_remember [where Q = "\<lambda>_ d j. ?Q es d j \<and> j = ?J"] h_last [OF h_on_error]])
    show "holds NoSyncFault (recoverable pl) (\<lambda>d j. ?Q es d j \<and> j = ?J) (write_journal (pl_tid pl))
        (\<lambda>_ d j. wf_plan pl \<and> publishing pl 0 d j) (\<lambda>d j. idle (pl_old pl) d)"
      by (rule write_journal_holds)
        (use pub in \<open>auto simp: opened_def recoverable_def publishing_def\<close>)
    show "holds NoSyncFault (recoverable pl) (\<lambda>d j. idle (pl_old pl) d)
        (io_steps [cleanup_entries (pl_tid pl) es, unlink_journal (pl_tid pl)])
        (\<lambda>_ d j. idle (pl_old pl) d) (\<lambda>d j. idle (pl_old pl) d)"
    proof (rule h_cons [OF prepare_cleanup h_last])
      have "idle (pl_old pl) d \<Longrightarrow> dk_journals (drop_journal (pl_tid pl) d) = [] \<and> targets d = pl_old pl \<and>
          recoverable pl d" for d
        by (simp add: idle_def drop_journal_def recoverable_def)
      then show "holds NoSyncFault (recoverable pl) (\<lambda>d j. idle (pl_old pl) d) (unlink_journal (pl_tid pl))
          (\<lambda>_ d j. idle (pl_old pl) d) (\<lambda>d j. idle (pl_old pl) d)"
        unfolding unlink_journal_def
        by (intro h_cons [OF h_atomic [where Q = "\<lambda>_ d j. idle (pl_old pl) d"] h_last [OF h_sync]])
          (auto simp: idle_def recoverable_def)
    qed
  qed auto
qed

lemma commit_holds:
  "holds NoSyncFault (recoverable pl) (\<lambda>d j. idle (pl_old pl) d)
     (commit (pl_dir pl) (pl_tid pl) (pl_muts pl) callback) (\<lambda>_ d j. decided pl d) (\<lambda>d j. recoverable pl d)"
proof (cases "pl_muts pl = []")
  case True
  then show ?thesis by (auto intro!: h_raise simp: commit_def recoverable_def)
next
  case False
  have rest: "holds NoSyncFault (recoverable pl) (\<lambda>d j. wf_plan pl \<and> publishing pl 0 d j)
      (io_steps [publish_transaction (pl_tid pl) callback, close_transaction (pl_tid pl)])
      (\<lambda>_ d j. decided pl d) (\<lambda>d j. recoverable pl d)"
    by (rule h_assume) (rule h_cons [OF publish_transaction_holds h_last [OF close_transaction_holds]])
  have "holds NoSyncFault (recoverable pl) (\<lambda>d j. idle (pl_old pl) d)
      (open_transaction (pl_dir pl) (pl_tid pl) (pl_muts pl))
      (\<lambda>_ d j. wf_plan pl \<and> publishing pl 0 d j) (\<lambda>d j. recoverable pl d)"
    by (rule h_weaken [OF open_transaction_holds [OF False]]) (auto simp: recoverable_def)
  from h_cons [OF this rest] False show ?thesis by (simp add: commit_def)
qed

section \<open>Recovery\<close>

text \<open>What each durable state is recovered to. \<open>S\<close> is the set of disks the recovery can leave
  behind when it is interrupted.\<close>

lemma recover_journal_valid:
  assumes "wf_plan pl" "entries_for pl es"
  shows "es \<noteq> [] \<and> list_all (\<lambda>e. inside (pl_dir pl) (en_target e)) es"
  using assms by (auto simp: wf_plan_def entries_for_def entry_for_def list_all_length)

lemma recover_unfold:
  assumes wf: "wf_plan pl" and dj: "durable_journal pl s es d0"
    and run: "holds md S (\<lambda>d j. d = d0 \<and> j = \<lparr>jr_state = s, jr_entries = es\<rparr>)
      (io_steps [resume_journal (pl_tid pl) \<lparr>jr_state = s, jr_entries = es\<rparr>,
         cleanup_entries (pl_tid pl) es, unlink_journal (pl_tid pl)]) Q E"
  shows "holds md S (\<lambda>d j. d = d0) (recover_journal (pl_dir pl) (pl_tid pl)) Q E"
  unfolding recover_journal_def
proof (rule h_look)
  fix d :: disk and j :: journal
  assume d: "d = d0"
  let ?j = "\<lparr>jr_state = s, jr_entries = es\<rparr>"
  have valid: "\<not> (es = [] \<or> \<not> list_all (\<lambda>e. inside (pl_dir pl) (en_target e)) es)"
    using recover_journal_valid [OF wf, of es] dj by (simp add: durable_journal_def)
  have found: "map_of (dk_journals d) (pl_tid pl) = Some ?j" using dj d by (simp add: durable_journal_def)
  have "holds md S (\<lambda>d' j'. d' = d0 \<and> d' = d \<and> j' = j) (io_steps
      [io_remember (\<lambda>_. ?j), resume_journal (pl_tid pl) ?j, cleanup_entries (pl_tid pl) es,
       unlink_journal (pl_tid pl)]) Q E"
    by (rule h_cons [OF h_remember run]) auto
  then show "holds md S (\<lambda>d' j'. d' = d0 \<and> d' = d \<and> j' = j)
      (case map_of (dk_journals d) (pl_tid pl) of None \<Rightarrow> io_raise
       | Some j \<Rightarrow>
           if jr_entries j = [] \<or> \<not> list_all (\<lambda>e. inside (pl_dir pl) (en_target e)) (jr_entries j) then io_raise
           else io_steps [io_remember (\<lambda>_. j), resume_journal (pl_tid pl) j,
              cleanup_entries (pl_tid pl) (jr_entries j), unlink_journal (pl_tid pl)]) Q E"
    unfolding found option.case journal.simps if_not_P [OF valid] .
qed

lemmas resume_cases = resume_journal_def journal.simps journal_state.case

text \<open>What every program here leaves when it does not return: no more than its interruption.\<close>

definition finishes :: "mode \<Rightarrow> (disk \<Rightarrow> bool) \<Rightarrow> (disk \<Rightarrow> bool) \<Rightarrow> unit io \<Rightarrow> (disk \<Rightarrow> bool) \<Rightarrow> bool" where
  "finishes md S P p Q = holds md S (\<lambda>d j. P d) p (\<lambda>_ d j. Q d) (\<lambda>d j. S d)"

lemma finish_committed:
  assumes wf: "wf_plan pl" and d: "committed pl d0"
  shows "finishes md (decided pl) (\<lambda>d. d = d0) (recover_journal (pl_dir pl) (pl_tid pl)) (idle (goal pl))"
proof -
  obtain es where es: "durable_journal pl Committed es d0" using d by (auto simp: committed_def)
  show ?thesis unfolding finishes_def
    by (rule recover_unfold [OF wf es], simp only: resume_cases,
        rule h_cons [OF h_return [where Q = "\<lambda>_ d j. committed pl d"]], use d in simp)
      (rule h_weaken [OF h_stop [OF end_committed]], auto simp: decided_def wf)
qed

lemma finish_prepared:
  assumes wf: "wf_plan pl" and d: "prepared pl d0"
  shows "finishes md (\<lambda>d. prepared pl d \<or> decided pl d) (\<lambda>d. d = d0)
           (recover_journal (pl_dir pl) (pl_tid pl)) (idle (goal pl))"
proof -
  obtain es where es: "durable_journal pl Prepared es d0" "staged_ok pl d0 es"
    using d by (auto simp: prepared_def)
  let ?j = "\<lparr>jr_state = Prepared, jr_entries = es\<rparr>" and ?S = "\<lambda>d. prepared pl d \<or> decided pl d"
  have start: "publishing pl 0 d0 ?j"
    using d es by (simp add: publishing_def published_def durable_journal_def)
  have co: "committed pl d \<Longrightarrow> decided pl d" for d using wf by (simp add: decided_def)
  have last: "holds md ?S (publishing pl (size_of pl))
      (io_steps [set_state Committed, write_journal (pl_tid pl)]) (\<lambda>_. closing pl) (abortable pl)"
    by (rule h_stop [OF write_committed_holds [OF wf]]) (auto intro: co)
  have "holds md ?S (publishing pl 0)
      (io_steps [publish_all (pl_tid pl), set_state Committed, write_journal (pl_tid pl)])
      (\<lambda>_. closing pl) (abortable pl)"
    by (rule h_cons [OF h_stop [OF publish_all_holds [OF wf]] last]) simp
  then have pub: "holds md ?S (\<lambda>d j. d = d0 \<and> j = ?j)
      (io_steps [publish_all (pl_tid pl), set_state Committed, write_journal (pl_tid pl)])
      (\<lambda>_ d j. committed pl d) (\<lambda>d j. ?S d)"
    by (rule h_weaken) (auto simp: start closing_def abortable_def intro: co)
  have end_it: "holds md ?S (\<lambda>d j. committed pl d)
      (io_steps [cleanup_entries (pl_tid pl) es, unlink_journal (pl_tid pl)])
      (\<lambda>_ d j. idle (goal pl) d) (\<lambda>d j. ?S d)"
    by (rule h_weaken [OF h_stop [OF end_committed]]) (auto simp: decided_def wf)
  show ?thesis unfolding finishes_def
    by (rule recover_unfold [OF wf es(1)], simp only: resume_cases, rule h_cons [OF pub end_it])
qed

lemma finish_rolling:
  assumes wf: "wf_plan pl" and d: "rolling pl d0"
  shows "finishes md (\<lambda>d. rolling pl d \<or> idle (pl_old pl) d) (\<lambda>d. d = d0)
           (recover_journal (pl_dir pl) (pl_tid pl)) (idle (pl_old pl))"
proof -
  obtain es where es: "durable_journal pl RollingBack es d0" using d by (auto simp: rolling_def)
  then have ef: "entries_for pl es" by (simp add: durable_journal_def)
  let ?j = "\<lparr>jr_state = RollingBack, jr_entries = es\<rparr>" and ?S = "\<lambda>d. rolling pl d \<or> idle (pl_old pl) d"
  let ?R = "\<lambda>ok d (j :: journal). rolling pl d \<and> (ok \<longrightarrow> targets d = pl_old pl) \<and> (md = NoFault \<longrightarrow> ok)"
  have "holds md ?S (\<lambda>d j. rolling pl d) (rollback_entries (pl_tid pl) es) ?R (\<lambda>d j. rolling pl d)"
    by (rule h_stop [OF rollback_entries_holds [OF wf ef]]) simp
  then have roll: "holds md ?S (\<lambda>d j. d = d0 \<and> j = ?j) (rollback_entries (pl_tid pl) es) ?R (\<lambda>d j. ?S d)"
    by (rule h_weaken) (auto simp: d)
  have test: "holds md ?S (?R ok) (if ok then io_return () else io_raise) (\<lambda>_ d j. rolled pl d) (\<lambda>d j. ?S d)" for ok
    by (cases ok) (auto intro!: h_return h_raise simp: rolled_def)
  show ?thesis unfolding finishes_def
    by (rule recover_unfold [OF wf es], simp only: resume_cases,
        rule h_cons [OF h_bind [OF roll test] end_rolled])
qed

text \<open>From any recoverable disk: one journal at most, and the directory is recovered.\<close>

definition sound_recovery :: "mode \<Rightarrow> (disk \<Rightarrow> bool) \<Rightarrow> path \<Rightarrow> (disk \<Rightarrow> bool) \<Rightarrow> bool" where
  "sound_recovery md S dir Q = finishes md S S (recover_directory dir) Q"

lemma finishes_cases:
  assumes "\<And>d0. P d0 \<Longrightarrow> finishes md S (\<lambda>d. d = d0) p Q"
  shows "finishes md S P p Q"
  unfolding finishes_def
proof (rule holdsI)
  fix d j fs r d' j' fs'
  assume "P d" "list_all (allowed md) fs" "p (d, j, fs) = (r, (d', j', fs'))"
  from holdsD [OF assms [OF this(1), unfolded finishes_def] refl this(2,3)]
  show "list_all (allowed md) fs' \<and>
      (case r of Done a \<Rightarrow> Q d' | Raised \<Rightarrow> md \<noteq> NoFault \<and> S d' | Stopped \<Rightarrow> md \<noteq> NoFault \<and> S d')" .
qed

lemma finishes_weaken:
  assumes "finishes md S P p Q" "\<And>d. S d \<Longrightarrow> S' d" "\<And>d. Q d \<Longrightarrow> Q' d"
  shows "finishes md S' P p Q'"
  unfolding finishes_def
  by (rule h_weaken [OF h_stop [OF assms(1) [unfolded finishes_def] assms(2)]]) (auto intro: assms(2,3))

lemma recover_idle:
  assumes "S d0" "dk_journals d0 = []" "Q d0"
  shows "finishes md S (\<lambda>d. d = d0) (recover_directory dir) Q"
  unfolding finishes_def recover_directory_def
  by (rule h_look) (use assms in \<open>auto intro: h_return\<close>)

lemma recover_one:
  assumes "durable_journal pl s es d0" "finishes md S (\<lambda>d. d = d0) (recover_journal dir (pl_tid pl)) Q"
  shows "finishes md S (\<lambda>d. d = d0) (recover_directory dir) Q"
  unfolding finishes_def recover_directory_def
proof (rule h_look)
  fix d :: disk and j :: journal
  assume "d = d0"
  then have "sort (map fst (dk_journals d)) = [pl_tid pl]" using assms(1) by (simp add: durable_journal_def)
  moreover have "holds md S (\<lambda>d' j'. d' = d0 \<and> d' = d \<and> j' = j) (io_steps [recover_journal dir (pl_tid pl)])
      (\<lambda>_ d j. Q d) (\<lambda>d j. S d)"
    by (rule h_last, rule h_weaken [OF assms(2) [unfolded finishes_def]]) auto
  ultimately show "holds md S (\<lambda>d' j'. d' = d0 \<and> d' = d \<and> j' = j)
      (io_steps (map (recover_journal dir) (sort (map fst (dk_journals d))))) (\<lambda>_ d j. Q d) (\<lambda>d j. S d)"
    by simp
qed

lemma recover_decided: "sound_recovery md (decided pl) (pl_dir pl) (idle (goal pl))"
  unfolding sound_recovery_def
proof (rule finishes_cases)
  fix d
  assume d: "decided pl d"
  show "finishes md (decided pl) (\<lambda>d'. d' = d) (recover_directory (pl_dir pl)) (idle (goal pl))"
  proof (cases "idle (goal pl) d")
    case True
    then show ?thesis by (intro recover_idle) (auto simp: decided_def idle_def)
  next
    case False
    with d have "wf_plan pl" "committed pl d" by (auto simp: decided_def)
    moreover obtain es where "durable_journal pl Committed es d" using calculation by (auto simp: committed_def)
    ultimately show ?thesis using recover_one finish_committed by blast
  qed
qed

lemma recover_recoverable:
  "sound_recovery md (recoverable pl) (pl_dir pl) (\<lambda>d. idle (pl_old pl) d \<or> idle (goal pl) d)"
  unfolding sound_recovery_def
proof (rule finishes_cases)
  let ?Q = "\<lambda>d. idle (pl_old pl) d \<or> idle (goal pl) d"
  let ?T = "\<lambda>d. finishes md (recoverable pl) (\<lambda>d'. d' = d) (recover_directory (pl_dir pl)) ?Q"
  fix d
  assume "recoverable pl d"
  then consider "?Q d" | "wf_plan pl" "prepared pl d" | "wf_plan pl" "committed pl d" | "wf_plan pl" "rolling pl d"
    by (auto simp: recoverable_def)
  then show "?T d"
  proof cases
    case 1
    then show ?thesis by (intro recover_idle) (auto simp: recoverable_def idle_def)
  next
    case 2
    obtain es where "durable_journal pl Prepared es d" using 2 by (auto simp: prepared_def)
    then show ?thesis
      by (rule recover_one) (rule finishes_weaken [OF finish_prepared [OF 2]], auto simp: recoverable_def decided_def 2)
  next
    case 3
    obtain es where "durable_journal pl Committed es d" using 3 by (auto simp: committed_def)
    then show ?thesis
      by (rule recover_one) (rule finishes_weaken [OF finish_committed [OF 3]], auto simp: recoverable_def decided_def 3)
  next
    case 4
    obtain es where "durable_journal pl RollingBack es d" using 4 by (auto simp: rolling_def)
    then show ?thesis
      by (rule recover_one) (rule finishes_weaken [OF finish_rolling [OF 4]], auto simp: recoverable_def 4)
  qed
qed

section \<open>Atomicity\<close>

text \<open>A restart that is itself interrupted by its faults leaves a disk; memory is lost.\<close>

definition interrupted_restart :: "path \<Rightarrow> fault list \<Rightarrow> disk \<Rightarrow> disk" where
  "interrupted_restart dir fs d =
     fst (snd (recover_directory dir (d, \<lparr>jr_state = Prepared, jr_entries = []\<rparr>, fs)))"

lemma restart_keeps:
  assumes "\<And>md. sound_recovery md S dir Q" "\<And>d. Q d \<Longrightarrow> S d" "S d"
  shows "S (fold (interrupted_restart dir) restarts d)"
  using assms(3)
proof (induction restarts arbitrary: d)
  case (Cons fs restarts)
  let ?j = "\<lparr>jr_state = Prepared, jr_entries = []\<rparr>"
  obtain r d' j' fs' where run: "recover_directory dir (d, ?j, fs) = (r, (d', j', fs'))"
    by (cases "recover_directory dir (d, ?j, fs)") auto
  have "holds AnyFault S (\<lambda>d j. S d) (recover_directory dir) (\<lambda>_ d j. Q d) (\<lambda>d j. S d)"
    using assms(1) by (simp add: sound_recovery_def finishes_def)
  from holdsD [OF this Cons.prems _ run] have "S d'"
    using assms(2) by (cases r) (simp_all add: list_all_iff)
  then show ?case using Cons.IH run by (simp add: interrupted_restart_def)
qed simp

lemma restart_finishes:
  assumes "sound_recovery NoFault S dir Q" "S d"
  shows "case recover_directory dir (d, j, []) of (r, (d', _)) \<Rightarrow> r = Done () \<and> Q d'"
proof -
  obtain r d' j' fs' where run: "recover_directory dir (d, j, []) = (r, (d', j', fs'))"
    by (cases "recover_directory dir (d, j, [])") auto
  have "holds NoFault S (\<lambda>d j. S d) (recover_directory dir) (\<lambda>_ d j. Q d) (\<lambda>d j. S d)"
    using assms(1) by (simp add: sound_recovery_def finishes_def)
  from holdsD [OF this assms(2) _ run] run show ?thesis by (cases r) auto
qed

lemma atomic_after_restarts:
  assumes "dk_journals d = []" "SyncFails \<notin> set fs"
  shows "case commit dir tid ms callback (d, j, fs) of (r, (d1, _)) \<Rightarrow>
           (case recover_directory dir (fold (interrupted_restart dir) restarts d1, j', []) of (r2, (d2, _)) \<Rightarrow>
              r2 = Done () \<and> dk_journals d2 = [] \<and>
              (targets d2 = published_content (targets d) ms \<or>
               r \<noteq> Done () \<and> targets d2 = targets d))"
proof -
  let ?pl = "\<lparr>pl_dir = dir, pl_tid = tid, pl_old = targets d, pl_muts = ms\<rparr>"
  have goal: "goal ?pl = published_content (targets d) ms" by (simp add: goal_def)
  obtain r d1 j1 fs1 where run: "commit dir tid ms callback (d, j, fs) = (r, (d1, j1, fs1))"
    by (cases "commit dir tid ms callback (d, j, fs)") auto
  let ?d2 = "fold (interrupted_restart dir) restarts d1"
  have start: "idle (pl_old ?pl) d" using assms(1) by (simp add: idle_def)
  have faults: "list_all (allowed NoSyncFault) fs" using assms(2) by (auto simp: list_all_iff)
  have "commit (pl_dir ?pl) (pl_tid ?pl) (pl_muts ?pl) callback (d, j, fs) = (r, (d1, j1, fs1))"
    using run by simp
  note post = holdsD [OF commit_holds start faults this]
  have keep_old: "recoverable ?pl d'" if "idle (pl_old ?pl) d' \<or> idle (goal ?pl) d'" for d'
    using that by (auto simp: recoverable_def)
  have keep_new: "decided ?pl d'" if "idle (goal ?pl) d'" for d' using that by (simp add: decided_def)
  let ?rec = "recover_directory dir (?d2, j', [])"
  have result: "case ?rec of (r2, (d2, _)) \<Rightarrow> r2 = Done () \<and> dk_journals d2 = [] \<and>
      (targets d2 = goal ?pl \<or> r \<noteq> Done () \<and> targets d2 = targets d)"
  proof (cases "r = Done ()")
    case True
    with post have "decided ?pl d1" by simp
    then have "decided ?pl ?d2"
      using restart_keeps [where S = "decided ?pl" and d = d1, OF recover_decided keep_new] by simp
    from restart_finishes [OF recover_decided this, of j'] show ?thesis
      by (cases ?rec) (simp add: idle_def split: prod.splits)
  next
    case False
    with post have "recoverable ?pl d1" by (cases r) simp_all
    then have "recoverable ?pl ?d2"
      using restart_keeps [where S = "recoverable ?pl" and d = d1, OF recover_recoverable keep_old] by simp
    from restart_finishes [OF recover_recoverable this, of j'] False show ?thesis
      by (cases ?rec) (auto simp: idle_def split: prod.splits)
  qed
  then show ?thesis unfolding run goal by simp
qed

text \<open>C1. A file transaction is atomic. Take any directory without a pending journal, any list of
  replacements and deletions, and any sequence of failures during \<open>commit\<close> (operations that raise,
  torn writes, the process stopping at any point), except that \<open>fsync\<close> of a directory does not
  raise; then any number of restarts, each of which may itself fail or be stopped anywhere. The next
  undisturbed \<open>recover_directory\<close> returns, leaves no journal, and every file of the disk has its
  content from before the transaction, or every one has the content after it; after it whenever
  \<open>commit\<close> had returned.\<close>

theorem transaction_is_atomic:
  assumes "dk_journals d = []" "SyncFails \<notin> set fs"
  shows "case commit dir tid ms callback (d, j, fs) of (r, (d1, _)) \<Rightarrow>
           (case recover_directory dir (fold (interrupted_restart dir) restarts d1, j', []) of (r2, (d2, _)) \<Rightarrow>
              r2 = Done () \<and> dk_journals d2 = [] \<and>
              (targets d2 = published_content (targets d) ms \<or>
               r \<noteq> Done () \<and> targets d2 = targets d))"
  by (rule atomic_after_restarts [OF assms])

section \<open>Examples\<close>

definition sample_disk :: disk where
  "sample_disk = \<lparr>dk_files = (\<lambda>l. if l = Target [''rules''] then Some ''old'' else None), dk_journals = []\<rparr>"

definition sample_journal :: journal where
  "sample_journal = \<lparr>jr_state = Prepared, jr_entries = []\<rparr>"

definition sample_mutations :: "mutation list" where
  "sample_mutations = [\<lparr>mu_target = [''rules''], mu_content = Some ''new''\<rparr>,
                       \<lparr>mu_target = [''marks''], mu_content = Some ''m''\<rparr>]"

text \<open>The process stops between the two publications, and the first restart is stopped as well.\<close>

definition sample_faults :: "fault list" where
  "sample_faults = replicate 16 Proceed @ [Stops]"

theorem transaction_is_atomic_witness:
  "case commit [] ''t'' sample_mutations False (sample_disk, sample_journal, sample_faults) of (r, (d1, _)) \<Rightarrow>
     r = Stopped \<and> targets d1 [''rules''] = Some ''new'' \<and> targets d1 [''marks''] = None \<and>
     (case recover_directory [] (fold (interrupted_restart []) [[Proceed, Stops]] d1, sample_journal, [])
        of (r2, (d2, _)) \<Rightarrow>
        r2 = Done () \<and> dk_journals d2 = [] \<and>
        (targets d2 = published_content (targets sample_disk) sample_mutations \<or>
         r \<noteq> Done () \<and> targets d2 = targets sample_disk))"
proof -
  have "dk_journals sample_disk = []" "SyncFails \<notin> set sample_faults"
    by (simp_all add: sample_disk_def sample_faults_def)
  note t = transaction_is_atomic [OF this, where dir = "[]" and tid = "''t''" and ms = sample_mutations
      and callback = False and j = sample_journal and restarts = "[[Proceed, Stops]]" and j' = sample_journal]
  have "case commit [] ''t'' sample_mutations False (sample_disk, sample_journal, sample_faults) of (r, (d1, _)) \<Rightarrow>
     r = Stopped \<and> targets d1 [''rules''] = Some ''new'' \<and> targets d1 [''marks''] = None"
    by code_simp
  with t show ?thesis by (auto split: prod.splits)
qed

section \<open>What the protocol does not cover\<close>

text \<open>A transaction that fails and cannot even record its roll back (the disk is full) leaves its
  journal prepared. A later commit to the same file succeeds, and the next restart publishes the old
  staged file over it.\<close>

theorem stale_journal_overwrites_later_commit:
  "let p = [''rules''];
       w = snd (commit [] ''a'' [\<lparr>mu_target = p, mu_content = Some ''first''\<rparr>] False
                  (sample_disk, sample_journal, replicate 7 Proceed @ [Fails, Fails]));
       (r2, w2) = commit [] ''b'' [\<lparr>mu_target = p, mu_content = Some ''second''\<rparr>] False
                  (fst w, sample_journal, []);
       (r3, w3) = recover_directory [] (fst w2, sample_journal, [])
   in r2 = Done () \<and> targets (fst w2) p = Some ''second'' \<and>
      r3 = Done () \<and> targets (fst w3) p = Some ''first''"
  by code_simp

text \<open>When \<open>fsync\<close> raises after the first journal has been renamed into place and the process stops
  before the journal is unlinked, the staged files are already gone: a restart applies the deletions
  that come first and then fails, every time.\<close>

theorem late_journal_failure_is_not_recovered:
  "let ms = [\<lparr>mu_target = [''rules''], mu_content = None\<rparr>, \<lparr>mu_target = [''marks''], mu_content = Some ''m''\<rparr>];
       w = snd (commit [] ''a'' ms False (sample_disk, sample_journal,
              replicate 8 Proceed @ [SyncFails] @ replicate 3 Proceed @ [Stops]));
       (r2, w2) = recover_directory [] (fst w, sample_journal, []);
       (r3, w3) = recover_directory [] (fst w2, sample_journal, [])
   in targets (fst w) [''rules''] = Some ''old'' \<and> r2 = Raised \<and> targets (fst w2) [''rules''] = None \<and>
      targets (fst w2) [''marks''] = None \<and> r3 = Raised"
  by code_simp

end
