(* ===== verification/Dispatch_Registry.thy ===== *)
theory Dispatch_Registry
  imports Dispatch_Rules
begin

text \<open>
  The rule table: \<open>DispatchRuleRegistry\<close> (\<open>workflow/core/dispatch/registry.py\<close>) with its files,
  the preset rules and the check of their workflows (\<open>implementations/rules/default_rules.py\<close>),
  and the write and preview handlers of \<open>web/api/dispatch/routes.py\<close>.

  A Python dictionary is an association list in insertion order. The rule files are the contents of
  the directory after the file transactions have been recovered: a file that cannot be parsed, one
  that is not a list, or a list of entries. A save either replaces both files or fails and changes
  none (theory \<open>File_Recovery\<close>); which of the two is an argument.
\<close>

section \<open>The registry\<close>

record rule_registry =
  rg_rules :: "(string \<times> combined_rule) list"
  rg_presets :: "string set"
  rg_deleted_presets :: "string set"
  rg_has_persisted :: bool

definition new_registry :: rule_registry where
  "new_registry = \<lparr>rg_rules = [], rg_presets = {}, rg_deleted_presets = {}, rg_has_persisted = False\<rparr>"

datatype registry_error =
    RuleWithoutId
  | RuleNotFound
  | WorkflowNotFound
  | RuleExists
  | NoConditions
  | IdMismatch
  | AlreadyInState
  | SaveFailed

definition register_rule :: "combined_rule \<Rightarrow> rule_registry \<Rightarrow> registry_error + rule_registry" where
  "register_rule r g =
     (if cr_rule_id r = [] then Inl RuleWithoutId
      else Inr (g\<lparr>rg_deleted_presets := rg_deleted_presets g - {cr_rule_id r},
                  rg_rules := AList.update (cr_rule_id r) r (rg_rules g)\<rparr>))"

definition register_preset_rule :: "combined_rule \<Rightarrow> rule_registry \<Rightarrow> registry_error + rule_registry" where
  "register_preset_rule r g =
     (if cr_rule_id r = [] then Inl RuleWithoutId
      else
        (let g1 = g\<lparr>rg_presets := insert (cr_rule_id r) (rg_presets g)\<rparr>
         in if cr_rule_id r \<in> rg_deleted_presets g1 then Inr g1
            else if map_of (rg_rules g1) (cr_rule_id r) \<noteq> None then Inr g1
            else Inr (g1\<lparr>rg_rules := AList.update (cr_rule_id r) r (rg_rules g1)\<rparr>)))"

definition get_rule :: "string \<Rightarrow> rule_registry \<Rightarrow> combined_rule option" where
  "get_rule q g = map_of (rg_rules g) q"

definition get_all_rules :: "rule_registry \<Rightarrow> combined_rule list" where
  "get_all_rules g = map snd (rg_rules g)"

definition get_active_rules :: "rule_registry \<Rightarrow> combined_rule list" where
  "get_active_rules g = active_rules (get_all_rules g)"

text \<open>\<open>workflows\<close> are the workflows that exist.\<close>

definition create_rule ::
  "(string \<Rightarrow> bool) \<Rightarrow> combined_rule \<Rightarrow> rule_registry \<Rightarrow> registry_error + rule_registry" where
  "create_rule workflows r g =
     (if \<not> workflows (cr_workflow_id r) then Inl WorkflowNotFound else register_rule r g)"


definition delete_rule :: "string \<Rightarrow> rule_registry \<Rightarrow> registry_error + rule_registry" where
  "delete_rule q g =
     (if map_of (rg_rules g) q = None then Inl RuleNotFound
      else
        (let g1 = (if q \<in> rg_presets g
                   then g\<lparr>rg_deleted_presets := insert q (rg_deleted_presets g)\<rparr> else g)
         in Inr (g1\<lparr>rg_rules := AList.delete q (rg_rules g1)\<rparr>)))"

definition restore_rule :: "combined_rule \<Rightarrow> bool option \<Rightarrow> rule_registry \<Rightarrow> rule_registry" where
  "restore_rule r had_tombstone g =
     (let g1 = g\<lparr>rg_rules := AList.update (cr_rule_id r) r (rg_rules g)\<rparr>
      in case had_tombstone of
           None \<Rightarrow> g1
         | Some True \<Rightarrow> g1\<lparr>rg_deleted_presets := insert (cr_rule_id r) (rg_deleted_presets g1)\<rparr>
         | Some False \<Rightarrow> g1\<lparr>rg_deleted_presets := rg_deleted_presets g1 - {cr_rule_id r}\<rparr>)"

definition discard_rule :: "string \<Rightarrow> rule_registry \<Rightarrow> rule_registry" where
  "discard_rule q g = g\<lparr>rg_rules := AList.delete q (rg_rules g)\<rparr>"




section \<open>The rule files\<close>

text \<open>An old rule has its type and configuration at the top level.\<close>

record legacy_rule =
  lg_rule_id :: string
  lg_name :: string
  lg_workflow_id :: string
  lg_type :: rule_type
  lg_condition :: condition
  lg_priority :: "int option"
  lg_enabled :: "bool option"
  lg_metadata_agent :: "string option"

datatype rule_data = NewRule combined_rule | OldRule legacy_rule | Malformed

datatype yaml_file = Unreadable | NotAList | RuleList "rule_data list"

datatype tombstone_file = TombstonesUnreadable | TombstonesInvalid | Tombstones "string list"

record rule_files =
  rf_yaml :: "(string \<times> yaml_file) list"
  rf_tombstones :: "tombstone_file option"

definition convert_old_rule :: "legacy_rule \<Rightarrow> combined_rule option" where
  "convert_old_rule l =
     (case lg_type l of
        TOther _ \<Rightarrow> None
      | _ \<Rightarrow> Some \<lparr>cr_rule_id = lg_rule_id l, cr_name = lg_name l, cr_workflow_id = lg_workflow_id l,
               cr_agent_id = None,
               cr_priority = (case lg_priority l of Some p \<Rightarrow> p | None \<Rightarrow> 5),
               cr_enabled = (case lg_enabled l of Some b \<Rightarrow> b | None \<Rightarrow> True),
               cr_groups = [\<lparr>grp_operator = OrOp,
                 grp_rules = [\<lparr>sim_type = lg_type l, sim_condition = lg_condition l\<rparr>]\<rparr>],
               cr_metadata_agent = lg_metadata_agent l\<rparr>)"

definition load_tombstones :: "rule_files \<Rightarrow> rule_registry \<Rightarrow> rule_registry" where
  "load_tombstones fs g =
     (case rf_tombstones fs of
        Some (Tombstones qs) \<Rightarrow> g\<lparr>rg_deleted_presets := set qs\<rparr>
      | _ \<Rightarrow> g)"

definition load_rule_data :: "rule_data \<Rightarrow> rule_registry \<Rightarrow> rule_registry" where
  "load_rule_data d g =
     (let rule = (case d of NewRule r \<Rightarrow> Some r | OldRule l \<Rightarrow> convert_old_rule l | Malformed \<Rightarrow> None)
      in case rule of
           None \<Rightarrow> g
         | Some r \<Rightarrow> (case register_rule r g of Inl _ \<Rightarrow> g | Inr g' \<Rightarrow> g'))"

definition load_file :: "string \<times> yaml_file \<Rightarrow> rule_registry \<Rightarrow> rule_registry" where
  "load_file f g =
     (case snd f of
        RuleList ds \<Rightarrow> fold load_rule_data ds (g\<lparr>rg_has_persisted := True\<rparr>)
      | _ \<Rightarrow> g)"

definition load_rules :: "rule_files \<Rightarrow> rule_registry \<Rightarrow> rule_registry" where
  "load_rules fs g =
     fold load_file (rf_yaml fs) (load_tombstones fs (g\<lparr>rg_has_persisted := False\<rparr>))"

definition save_rules :: "rule_registry \<Rightarrow> rule_files \<Rightarrow> rule_files" where
  "save_rules g fs =
     fs\<lparr>rf_yaml := AList.update ''rules.yaml'' (RuleList (map NewRule (get_all_rules g))) (rf_yaml fs),
        rf_tombstones := Some (Tombstones (sorted_list_of_set (rg_deleted_presets g)))\<rparr>"

section \<open>Presets\<close>

text \<open>\<open>register_system_dispatch_rules\<close> over the default rules, and \<open>validate_rule_workflows\<close>.\<close>

definition register_system_dispatch_rules :: "combined_rule list \<Rightarrow> rule_registry \<Rightarrow> rule_registry" where
  "register_system_dispatch_rules defaults g =
     (if rg_has_persisted g then g
      else fold (\<lambda>r g. case register_preset_rule r g of Inl _ \<Rightarrow> g | Inr g' \<Rightarrow> g') defaults g)"

definition degrade_rule :: "(string \<Rightarrow> bool) \<Rightarrow> combined_rule \<Rightarrow> combined_rule" where
  "degrade_rule workflows r =
     (if workflows (cr_workflow_id r) then r
      else if workflows ''chat:normal'' \<and> cr_workflow_id r \<noteq> ''chat:normal''
      then r\<lparr>cr_workflow_id := ''chat:normal''\<rparr>
      else r\<lparr>cr_enabled := False\<rparr>)"

definition validate_rule_workflows ::
  "(string \<Rightarrow> bool) \<Rightarrow> rule_registry \<Rightarrow> string list \<times> rule_registry" where
  "validate_rule_workflows workflows g =
     (map cr_rule_id (filter (\<lambda>r. \<not> workflows (cr_workflow_id r)) (get_all_rules g)),
      g\<lparr>rg_rules := map (\<lambda>(k, r). (k, degrade_rule workflows r)) (rg_rules g)\<rparr>)"

section \<open>The handlers\<close>

record rule_service =
  sv_registry :: rule_registry
  sv_files :: rule_files

definition has_configured_conditions :: "combined_rule \<Rightarrow> bool" where
  "has_configured_conditions r = list_ex (\<lambda>g. grp_rules g \<noteq> []) (cr_groups r)"

text \<open>\<open>try: change; save; except: undo\<close>. The write lock makes a handler one step.\<close>

definition write_rules ::
  "bool \<Rightarrow> (rule_registry \<Rightarrow> registry_error + rule_registry) \<Rightarrow> (rule_registry \<Rightarrow> rule_registry)
    \<Rightarrow> rule_service \<Rightarrow> registry_error option \<times> rule_service" where
  "write_rules saved change undo s =
     (case change (sv_registry s) of
        Inl e \<Rightarrow> (Some e, s\<lparr>sv_registry := undo (sv_registry s)\<rparr>)
      | Inr g \<Rightarrow>
          (if saved then (None, s\<lparr>sv_registry := g, sv_files := save_rules g (sv_files s)\<rparr>)
           else (Some SaveFailed, s\<lparr>sv_registry := undo g\<rparr>)))"

definition post_rule ::
  "(string \<Rightarrow> bool) \<Rightarrow> bool \<Rightarrow> combined_rule \<Rightarrow> rule_service \<Rightarrow> registry_error option \<times> rule_service" where
  "post_rule workflows saved r s =
     (if \<not> has_configured_conditions r then (Some NoConditions, s)
      else if get_rule (cr_rule_id r) (sv_registry s) \<noteq> None then (Some RuleExists, s)
      else if \<not> workflows (cr_workflow_id r) then (Some WorkflowNotFound, s)
      else write_rules saved (create_rule workflows r)
             (if get_rule (cr_rule_id r) (sv_registry s) = None then discard_rule (cr_rule_id r) else id) s)"


definition remove_rule :: "bool \<Rightarrow> string \<Rightarrow> rule_service \<Rightarrow> registry_error option \<times> rule_service" where
  "remove_rule saved q s =
     (case get_rule q (sv_registry s) of
        None \<Rightarrow> (Some RuleNotFound, s)
      | Some deleted \<Rightarrow>
          write_rules saved (delete_rule q)
            (restore_rule deleted (Some (q \<in> rg_deleted_presets (sv_registry s)))) s)"



section \<open>The preview\<close>

definition rules_with_draft :: "combined_rule list \<Rightarrow> combined_rule option \<Rightarrow> combined_rule list" where
  "rules_with_draft rules draft =
     (case draft of
        None \<Rightarrow> rules
      | Some d \<Rightarrow> filter (\<lambda>r. cr_rule_id r \<noteq> cr_rule_id d) rules @ [d])"

datatype decision = DisabledRule | Indeterminate | Selected | Shadowed | NotMatched

text \<open>The loop, with the selected rule so far and whether an earlier verdict was open.\<close>

fun preview_loop ::
  "evaluator \<Rightarrow> combined_rule option \<Rightarrow> bool \<Rightarrow> combined_rule list
    \<Rightarrow> (combined_rule \<times> decision) list \<times> combined_rule option" where
  "preview_loop dry selected unsure [] = ([], selected)"
| "preview_loop dry selected unsure (r # rs) =
     (let matched = explain_match dry r;
          (d, selected', unsure') =
            (if \<not> cr_enabled r then (DisabledRule, selected, unsure)
             else case matched of
                 None \<Rightarrow> (Indeterminate, selected, True)
               | Some True \<Rightarrow>
                   (if selected = None \<and> \<not> unsure then (Selected, Some r, unsure)
                    else (Shadowed, selected, unsure))
               | Some False \<Rightarrow> (NotMatched, selected, unsure));
          (results, final) = preview_loop dry selected' unsure' rs
      in ((r, d) # results, final))"

definition preview_rules ::
  "evaluator \<Rightarrow> combined_rule list \<Rightarrow> combined_rule option
    \<Rightarrow> (combined_rule \<times> decision) list \<times> combined_rule option" where
  "preview_rules dry rules draft =
     preview_loop dry None False (sort_rules_in_dispatch_order (rules_with_draft rules draft))"

section \<open>The preview is right\<close>

lemma preview_loop_Cons:
  "snd (preview_loop dry selected unsure (r # rs)) =
     (if \<not> cr_enabled r then snd (preview_loop dry selected unsure rs)
      else case explain_match dry r of
          None \<Rightarrow> snd (preview_loop dry selected True rs)
        | Some b \<Rightarrow>
            (if b \<and> selected = None \<and> \<not> unsure then snd (preview_loop dry (Some r) unsure rs)
             else snd (preview_loop dry selected unsure rs)))"
  by (simp add: Let_def split_def split: option.split bool.split)

lemma preview_loop_selected: "snd (preview_loop dry (Some r) unsure rs) = Some r"
  by (induction rs arbitrary: unsure)
    (auto simp: preview_loop_Cons simp del: preview_loop.simps(2) split: option.splits)

lemma preview_loop_unsure: "snd (preview_loop dry None True rs) = None"
  by (induction rs) (auto simp: preview_loop_Cons simp del: preview_loop.simps(2) split: option.splits)

lemma preview_loop_finds:
  assumes "\<And>x b. x \<in> set rs \<Longrightarrow> explain_match dry x = Some b \<Longrightarrow> rule_matches ev x = b"
    and "snd (preview_loop dry None False rs) = Some r"
  shows "List.find (rule_matches ev) rs = Some r"
  using assms
proof (induction rs)
  case (Cons x rs)
  have sound: "explain_match dry x = Some b \<Longrightarrow> rule_matches ev x = b" for b
    using Cons.prems(1) by simp
  have off: "\<not> cr_enabled x \<Longrightarrow> \<not> rule_matches ev x" by (simp add: rule_matches_def)
  show ?case
  proof (cases "\<not> cr_enabled x \<or> explain_match dry x = Some False")
    case True
    then have "snd (preview_loop dry None False rs) = Some r"
      using Cons.prems(2) by (auto simp: preview_loop_Cons simp del: preview_loop.simps(2) split: if_splits)
    moreover have "\<not> rule_matches ev x" using True off sound [of False] by auto
    ultimately show ?thesis using Cons.IH Cons.prems(1) by simp
  next
    case False
    show ?thesis
    proof (cases "explain_match dry x")
      case None
      then show ?thesis
        using False Cons.prems(2) preview_loop_unsure [of dry rs]
        by (simp add: preview_loop_Cons del: preview_loop.simps(2))
    next
      case (Some b)
      with False have b: "b" "cr_enabled x" by auto
      then have "snd (preview_loop dry None False (x # rs)) = snd (preview_loop dry (Some x) False rs)"
        using Some by (simp add: preview_loop_Cons del: preview_loop.simps(2))
      then have "r = x" using Cons.prems(2) preview_loop_selected [of dry x False rs] by simp
      with b sound [OF Some] show ?thesis by simp
    qed
  qed
qed simp

text \<open>C35. The preview does not promise a rule the dispatcher would not run: when the management page
  previews a message, possibly with an edited draft in place of a stored rule, and shows a selected
  rule, then a real dispatch of that message over those rules chooses exactly that rule, whatever the
  random conditions draw and whichever instance the message comes from. An earlier rule whose verdict
  is open makes the page select nothing.\<close>

theorem preview_selects_dispatched:
  assumes "\<forall>r\<in>set (rules_with_draft rules draft). well_typed_rule r" "same_regex_engine sr dr"
    and "snd (preview_rules (evaluate dr m) rules draft) = Some r"
  shows "chosen_rule (evaluate sr m) (rules_with_draft rules draft) = Some r"
proof -
  let ?rs = "sort_rules_in_dispatch_order (rules_with_draft rules draft)"
  have dr: "dr = sr\<lparr>sr_roll := sr_roll dr, sr_is_instance := sr_is_instance dr\<rparr>"
    using assms(2) by (simp add: same_regex_engine_def)
  have sound: "rule_matches (evaluate sr m) x = b"
    if "x \<in> set ?rs" "explain_match (evaluate dr m) x = Some b" for x b
    using code_rules.explain_sound [where sr = sr and m = m and r = x and b = b
        and rolls = "sr_roll dr" and inst = "sr_is_instance dr"] that assms(1) dr
    by (simp add: well_typed_rule_def)
  from assms(3) have "snd (preview_loop (evaluate dr m) None False ?rs) = Some r"
    by (simp add: preview_rules_def)
  from preview_loop_finds [where ev = "evaluate sr m", OF sound this] show ?thesis
    by (simp add: find_active preview_rules_def)
qed

theorem preview_selects_dispatched_witness:
  "snd (preview_rules (evaluate sample_surroundings sample_message) [sample_help] (Some (sample_rules ! 1)))
     = Some (sample_rules ! 1) \<and>
   chosen_rule (evaluate (sample_surroundings\<lparr>sr_roll := \<lambda>q j i. 99 / 100\<rparr>) sample_message)
     (rules_with_draft [sample_help] (Some (sample_rules ! 1))) = Some (sample_rules ! 1)"
proof -
  have "\<forall>r\<in>set (rules_with_draft [sample_help] (Some (sample_rules ! 1))). well_typed_rule r" by code_simp
  moreover have "same_regex_engine (sample_surroundings\<lparr>sr_roll := \<lambda>q j i. 99 / 100\<rparr>) sample_surroundings"
    by (simp add: same_regex_engine_def)
  moreover have sel: "snd (preview_rules (evaluate sample_surroundings sample_message) [sample_help]
      (Some (sample_rules ! 1))) = Some (sample_rules ! 1)" by code_simp
  ultimately show ?thesis using preview_selects_dispatched sel by blast
qed

section \<open>Well-formed registries\<close>

definition wf_registry :: "rule_registry \<Rightarrow> bool" where
  "wf_registry g =
     (distinct (map fst (rg_rules g)) \<and> (\<forall>(k, r)\<in>set (rg_rules g). k = cr_rule_id r \<and> k \<noteq> []) \<and>
      finite (rg_deleted_presets g) \<and> (\<forall>k\<in>fst ` set (rg_rules g). k \<notin> rg_deleted_presets g))"

lemma alist_update_fresh: "k \<notin> fst ` set xs \<Longrightarrow> AList.update k v xs = xs @ [(k, v)]"
  by (induction xs) auto













section \<open>The files\<close>

definition single_file :: "rule_files \<Rightarrow> bool" where
  "single_file fs =
     (list_all (\<lambda>f. fst f = ''rules.yaml'') (rf_yaml fs) \<and> length (rf_yaml fs) \<le> 1)"

lemma load_new_rules:
  assumes "distinct (map fst (rg_rules g) @ map cr_rule_id rs)"
    and "\<forall>r\<in>set rs. cr_rule_id r \<noteq> [] \<and> cr_rule_id r \<notin> rg_deleted_presets g"
  shows "fold load_rule_data (map NewRule rs) g =
           g\<lparr>rg_rules := rg_rules g @ map (\<lambda>r. (cr_rule_id r, r)) rs\<rparr>"
  using assms
proof (induction rs arbitrary: g)
  case (Cons r rs)
  let ?g = "g\<lparr>rg_rules := rg_rules g @ [(cr_rule_id r, r)]\<rparr>"
  have "load_rule_data (NewRule r) g = ?g"
    using Cons.prems by (simp add: load_rule_data_def register_rule_def alist_update_fresh)
  then have "fold load_rule_data (map NewRule (r # rs)) g = fold load_rule_data (map NewRule rs) ?g" by simp
  also have "\<dots> = ?g\<lparr>rg_rules := rg_rules ?g @ map (\<lambda>r. (cr_rule_id r, r)) rs\<rparr>"
    using Cons.prems by (intro Cons.IH) auto
  finally show ?case by simp
qed simp

lemma wf_rules_ids:
  assumes "wf_registry g"
  shows "map cr_rule_id (get_all_rules g) = map fst (rg_rules g)"
    "map (\<lambda>r. (cr_rule_id r, r)) (get_all_rules g) = rg_rules g"
  using assms by (auto simp: wf_registry_def get_all_rules_def intro!: map_idI)

lemma save_yaml:
  "single_file fs \<Longrightarrow> rf_yaml (save_rules g fs) = [(''rules.yaml'', RuleList (map NewRule (get_all_rules g)))]"
  by (cases "rf_yaml fs") (auto simp: single_file_def save_rules_def)


lemma load_saved:
  assumes "wf_registry g" "single_file fs"
  shows "load_rules (save_rules g fs) new_registry =
           \<lparr>rg_rules = rg_rules g, rg_presets = {}, rg_deleted_presets = rg_deleted_presets g,
            rg_has_persisted = True\<rparr>"
proof -
  let ?g = "new_registry\<lparr>rg_deleted_presets := rg_deleted_presets g, rg_has_persisted := True\<rparr>"
  have ids: "map cr_rule_id (get_all_rules g) = map fst (rg_rules g)" using wf_rules_ids [OF assms(1)] by simp
  have fin: "finite (rg_deleted_presets g)" using assms(1) by (simp add: wf_registry_def)
  have good: "cr_rule_id r \<noteq> [] \<and> cr_rule_id r \<notin> rg_deleted_presets g" if "r \<in> set (get_all_rules g)" for r
  proof -
    have "cr_rule_id r \<in> set (map fst (rg_rules g))" using that unfolding ids [symmetric] by simp
    then show ?thesis using assms(1) by (fastforce simp: wf_registry_def)
  qed
  have "load_rules (save_rules g fs) new_registry =
      fold load_rule_data (map NewRule (get_all_rules g)) ?g"
  proof -
    have "load_tombstones (save_rules g fs) (new_registry\<lparr>rg_has_persisted := False\<rparr>) =
        new_registry\<lparr>rg_deleted_presets := rg_deleted_presets g\<rparr>"
      using fin by (simp add: load_tombstones_def save_rules_def new_registry_def)
    then show ?thesis by (simp add: load_rules_def save_yaml [OF assms(2)] load_file_def)
  qed
  also have "\<dots> = ?g\<lparr>rg_rules := rg_rules ?g @ map (\<lambda>r. (cr_rule_id r, r)) (get_all_rules g)\<rparr>"
    using assms(1) good ids by (intro load_new_rules) (auto simp: new_registry_def wf_registry_def)
  also have "\<dots> = \<lparr>rg_rules = rg_rules g, rg_presets = {}, rg_deleted_presets = rg_deleted_presets g,
            rg_has_persisted = True\<rparr>"
    using wf_rules_ids(2) [OF assms(1)] by (simp add: new_registry_def)
  finally show ?thesis .
qed


text \<open>Saving and loading is a round trip: a new registry that loads the files a registry has just
  written holds the same rules in the same order and the same deletion marks of presets, knows that
  its rules were persisted, and is therefore left alone when the default rules are registered
  afterwards, so that a preset the user has deleted does not come back. It holds when \<open>rules.yaml\<close> is
  the only rule file of the directory.\<close>

theorem save_load_roundtrip:
  assumes "wf_registry g" "single_file fs"
  shows "load_rules (save_rules g fs) new_registry =
           \<lparr>rg_rules = rg_rules g, rg_presets = {}, rg_deleted_presets = rg_deleted_presets g,
            rg_has_persisted = True\<rparr> \<and>
         register_system_dispatch_rules defaults (load_rules (save_rules g fs) new_registry) =
           load_rules (save_rules g fs) new_registry"
  using load_saved [OF assms] by (simp add: register_system_dispatch_rules_def)

section \<open>Memory and files agree\<close>



















theorem save_load_roundtrip_witness:
  "let g = \<lparr>rg_rules = [(''help'', sample_help)], rg_presets = {''help'', ''gone''}, rg_deleted_presets = {''gone''},
            rg_has_persisted = True\<rparr>;
       g' = load_rules (save_rules g \<lparr>rf_yaml = [], rf_tombstones = None\<rparr>) new_registry
   in rg_rules g' = rg_rules g \<and> rg_deleted_presets g' = {''gone''} \<and>
      register_system_dispatch_rules [sample_rule ''gone'' 1 []] g' = g'"
proof -
  let ?g = "\<lparr>rg_rules = [(''help'', sample_help)], rg_presets = {''help'', ''gone''}, rg_deleted_presets = {''gone''},
            rg_has_persisted = True\<rparr>"
  have "wf_registry ?g" by (simp add: wf_registry_def sample_help_def sample_rule_def)
  moreover have "single_file \<lparr>rf_yaml = [], rf_tombstones = None\<rparr>" by (simp add: single_file_def)
  ultimately show ?thesis
    using save_load_roundtrip [of ?g "\<lparr>rf_yaml = [], rf_tombstones = None\<rparr>" "[sample_rule ''gone'' 1 []]"]
    unfolding Let_def by (auto simp: load_saved)
qed

section \<open>What a write does not undo\<close>

text \<open>Rules are loaded from every file of the directory but written to one: a rule deleted from the
  table returns at the next start when it came from another file.\<close>

theorem rule_of_another_file_returns:
  "let fs = \<lparr>rf_yaml = [(''custom.yaml'', RuleList [NewRule sample_help])], rf_tombstones = None\<rparr>;
       s = \<lparr>sv_registry = load_rules fs new_registry, sv_files = fs\<rparr>;
       (err, s') = remove_rule True ''help'' s
   in err = None \<and> get_rule ''help'' (sv_registry s') = None \<and>
      get_rule ''help'' (load_rules (sv_files s') new_registry) = Some sample_help"
  by code_simp

text \<open>A create that fails to save forgets the deletion mark of a preset with that identifier.\<close>

theorem failed_create_drops_deletion_mark:
  "let g = new_registry\<lparr>rg_presets := {''help''}, rg_deleted_presets := {''help''}\<rparr>;
       (err, s') = post_rule (\<lambda>w. True) False sample_help
                     \<lparr>sv_registry = g, sv_files = \<lparr>rf_yaml = [], rf_tombstones = Some (Tombstones [''help''])\<rparr>\<rparr>
   in err = Some SaveFailed \<and> rg_deleted_presets (sv_registry s') = {}"
  by code_simp

end
