(* ===== verification/Block_Types.thy ===== *)
theory Block_Types
  imports Kirara_Prelude
begin

text \<open>
  The type system of the workflow blocks: \<open>TypeSystem\<close> of
  \<open>workflow/core/block/type_system.py\<close> and the ports of
  \<open>workflow/core/block/input_output.py\<close>. \<open>pytype\<close> is what a Python annotation can be
  for this code: a class with its \<open>__name__\<close>, its identity and the identities of its method
  resolution order, the generic forms the code takes apart, and anything else. Virtual
  subclasses (\<open>ABCMeta.register\<close>) are not modelled.

  The cache of compatibility answers is proved equal to the uncached reference for every
  history in which a name is registered before it is asked about, and an example shows that
  a later registration leaves a stale answer.
\<close>

section \<open>Annotations\<close>

text \<open>
  \<open>pm_provider\<close> names the options provider, a function object. The first metadata of an
  \<open>Annotated\<close> is \<open>Some\<close> when it is a \<open>ParamMeta\<close>.
\<close>

record param_meta =
  pm_label :: "string option"
  pm_description :: "string option"
  pm_provider :: "nat option"

datatype pytype =
    Klass string nat "nat list"
  | UnionT string "pytype list"
  | ListT string "pytype option"
  | AnnotatedT pytype "param_meta option"
  | OtherT "string option" string

text \<open>The identity of \<open>type(None)\<close> is 0.\<close>

fun is_none_type :: "pytype \<Rightarrow> bool" where
  "is_none_type (Klass _ i _) = (i = 0)"
| "is_none_type _ = False"

text \<open>
  \<open>get_type_name\<close>: \<open>__name__\<close> when there is one. The generic aliases of \<open>typing\<close> have one
  (\<open>List\<close>, \<open>Optional\<close>), an \<open>Annotated\<close> forwards it to its first argument.
\<close>

fun type_name :: "pytype \<Rightarrow> string" where
  "type_name (Klass n _ _) = n"
| "type_name (UnionT n _) = n"
| "type_name (ListT n _) = n"
| "type_name (AnnotatedT t _) = type_name t"
| "type_name (OtherT (Some n) _) = n"
| "type_name (OtherT None s) = s"

fun comma_join :: "string list \<Rightarrow> string" where
  "comma_join [] = []"
| "comma_join [s] = s"
| "comma_join (s # ss) = s @ '', '' @ comma_join ss"

text \<open>
  \<open>extract_type_info\<close> without the registration: the displayed name and whether a value is
  required. \<open>Optional[T]\<close> is shown as \<open>T\<close>.
\<close>

definition union_name :: "pytype list \<Rightarrow> string" where
  "union_name ts = ''Union['' @ comma_join (map type_name ts) @ '']''"

fun type_info :: "pytype \<Rightarrow> string \<times> bool" where
  "type_info (UnionT _ args) =
     (if \<exists>t\<in>set args. is_none_type t
      then (let non_none = filter (\<lambda>t. \<not> is_none_type t) args
            in (if length non_none = 1 then type_name (hd non_none) else union_name non_none,
                False))
      else (union_name args, True))"
| "type_info (ListT _ (Some e)) = (''List['' @ type_name e @ '']'', True)"
| "type_info (ListT _ None) = (''list'', True)"
| "type_info t = (type_name t, True)"

text \<open>
  \<open>issubclass(source, target)\<close>; \<open>None\<close> is the \<open>TypeError\<close> Python raises for an argument that
  is not a class. A union as target is tried member by member.
\<close>

fun issubclass :: "pytype \<Rightarrow> pytype \<Rightarrow> bool option"
  and issubclass_any :: "pytype \<Rightarrow> pytype list \<Rightarrow> bool option" where
  "issubclass (Klass _ _ mro) (Klass _ i _) = Some (i \<in> set mro)"
| "issubclass c (UnionT _ args) = issubclass_any c args"
| "issubclass _ _ = None"
| "issubclass_any c [] = Some False"
| "issubclass_any c (t # ts) =
     (case issubclass c t of
        None \<Rightarrow> None
      | Some True \<Rightarrow> Some True
      | Some False \<Rightarrow> issubclass_any c ts)"

section \<open>Ports\<close>

record block_input =
  in_name :: string
  in_label :: string
  in_data_type :: pytype
  in_description :: string
  in_nullable :: bool
  in_default :: "json option"

record block_output =
  out_name :: string
  out_label :: string
  out_data_type :: pytype
  out_description :: string

text \<open>
  \<open>validate\<close>: \<open>c\<close> is the class of the value, \<open>NoneType\<close> for \<open>None\<close>; \<open>isinstance\<close> looks at
  that class the way \<open>issubclass\<close> does.
\<close>

definition input_validate :: "block_input \<Rightarrow> pytype \<Rightarrow> bool option" where
  "input_validate i c =
     (if is_none_type c then Some (in_nullable i) else issubclass c (in_data_type i))"

definition output_validate :: "block_output \<Rightarrow> pytype \<Rightarrow> bool option" where
  "output_validate p c = issubclass c (out_data_type p)"

section \<open>The type system\<close>

record type_system =
  ts_types :: "(string \<times> pytype) list"
  ts_cache :: "(string \<times> (string \<times> bool) list) list"

definition new_type_system :: type_system where
  "new_type_system = \<lparr>ts_types = [], ts_cache = []\<rparr>"

definition register_type :: "string \<Rightarrow> pytype \<Rightarrow> type_system \<Rightarrow> type_system" where
  "register_type n t ts = ts\<lparr>ts_types := AList.update n t (ts_types ts)\<rparr>"

definition get_type :: "string \<Rightarrow> type_system \<Rightarrow> pytype option" where
  "get_type n ts = map_of (ts_types ts) n"

definition extract_type_info :: "pytype \<Rightarrow> type_system \<Rightarrow> (string \<times> bool) \<times> type_system" where
  "extract_type_info t ts = (type_info t, register_type (fst (type_info t)) t ts)"

text \<open>The answer without the cache.\<close>

definition compatible :: "(string \<times> pytype) list \<Rightarrow> string \<Rightarrow> string \<Rightarrow> bool" where
  "compatible types s t =
     (case (map_of types s, map_of types t) of
        (Some source, Some target) \<Rightarrow>
          (if t = ''Any'' \<or> s = ''Any'' then True
           else case issubclass source target of
                  Some r \<Rightarrow> r
                | None \<Rightarrow> s = t)
      | _ \<Rightarrow> s = t)"

definition cached :: "type_system \<Rightarrow> string \<Rightarrow> string \<Rightarrow> bool option" where
  "cached ts s t = Option.bind (map_of (ts_cache ts) s) (\<lambda>row. map_of row t)"

definition remember :: "string \<Rightarrow> string \<Rightarrow> bool \<Rightarrow> type_system \<Rightarrow> type_system" where
  "remember s t r ts =
     (let row = (case map_of (ts_cache ts) s of Some row \<Rightarrow> row | None \<Rightarrow> [])
      in ts\<lparr>ts_cache := AList.update s (AList.update t r row) (ts_cache ts)\<rparr>)"

definition is_compatible :: "string \<Rightarrow> string \<Rightarrow> type_system \<Rightarrow> bool \<times> type_system" where
  "is_compatible s t ts =
     (case cached ts s t of
        Some r \<Rightarrow> (r, ts)
      | None \<Rightarrow> (let r = compatible (ts_types ts) s t in (r, remember s t r ts)))"

text \<open>\<open>get_compatibility_map\<close>: every pair of registered names is asked, then the compatible
  pairs of the whole cache are listed.\<close>

definition ask_all :: "(string \<times> string) list \<Rightarrow> type_system \<Rightarrow> type_system" where
  "ask_all qs ts = fold (\<lambda>(s, t) ts. snd (is_compatible s t ts)) qs ts"

definition compatibility_map ::
    "type_system \<Rightarrow> (string \<times> string list) list \<times> type_system" where
  "compatibility_map ts =
     (let names = map fst (ts_types ts);
          ts' = ask_all (List.product names names) ts
      in (map (\<lambda>(s, row). (s, map fst (filter snd row))) (ts_cache ts'), ts'))"

section \<open>A memoised oracle\<close>

text \<open>
  What the clients of the type system rely on: while the invariant holds, an answer is the
  verdict on the current state, asking changes no verdict and keeps the invariant. A fold of
  questions that stops at the first refusal is then a statement about verdicts only.
\<close>

locale memo_oracle =
  fixes ask :: "'q \<Rightarrow> 's \<Rightarrow> bool \<times> 's"
    and ok :: "'s \<Rightarrow> bool"
    and verdict :: "'s \<Rightarrow> 'q \<Rightarrow> bool"
  assumes ask_answer: "ok s \<Longrightarrow> fst (ask q s) = verdict s q"
    and ask_ok: "ok s \<Longrightarrow> ok (snd (ask q s))"
    and ask_verdict: "ok s \<Longrightarrow> verdict (snd (ask q s)) = verdict s"
begin

lemma asks_ok: "ok s \<Longrightarrow> ok (fold (\<lambda>q. snd \<circ> ask q) qs s)"
  by (induction qs arbitrary: s) (auto simp: ask_ok)

lemma asks_verdict: "ok s \<Longrightarrow> verdict (fold (\<lambda>q. snd \<circ> ask q) qs s) = verdict s"
  by (induction qs arbitrary: s) (auto simp: ask_ok ask_verdict)

lemma ask_cases: "ok s \<Longrightarrow> ask q s = (r, s') \<Longrightarrow> r = verdict s q \<and> ok s' \<and> verdict s' = verdict s"
  using ask_answer [of s q] ask_ok [of s q] ask_verdict [of s q] by simp

end

text \<open>The cache agrees with the registered types.\<close>

definition cache_ok :: "type_system \<Rightarrow> bool" where
  "cache_ok ts = (\<forall>s t r. cached ts s t = Some r \<longrightarrow> r = compatible (ts_types ts) s t)"

lemma types_remember [simp]: "ts_types (remember s t r ts) = ts_types ts"
  by (simp add: remember_def)

lemma cached_remember:
  "cached (remember s t r ts) a b = (if a = s \<and> b = t then Some r else cached ts a b)"
  by (auto simp: cached_def remember_def update_conv split: option.splits)

lemma types_is_compatible [simp]: "ts_types (snd (is_compatible s t ts)) = ts_types ts"
  by (simp add: is_compatible_def Let_def split: option.split)

lemma cached_is_compatible:
  "cached (snd (is_compatible s t ts)) a b =
     (if a = s \<and> b = t then Some (fst (is_compatible s t ts)) else cached ts a b)"
  by (auto simp: is_compatible_def cached_remember Let_def split: option.splits)

lemma fst_is_compatible:
  "fst (is_compatible s t ts) =
     (case cached ts s t of Some r \<Rightarrow> r | None \<Rightarrow> compatible (ts_types ts) s t)"
  by (simp add: is_compatible_def Let_def split: option.split)

lemma cache_ok_answer:
  "cache_ok ts \<Longrightarrow> fst (is_compatible s t ts) = compatible (ts_types ts) s t"
  by (simp add: fst_is_compatible cache_ok_def split: option.split)

lemma cache_ok_ask: "cache_ok ts \<Longrightarrow> cache_ok (snd (is_compatible s t ts))"
  unfolding cache_ok_def cached_is_compatible types_is_compatible
  by (simp add: fst_is_compatible split: option.split)

interpretation memo: memo_oracle "\<lambda>(s, t). is_compatible s t" cache_ok
  "\<lambda>ts (s, t). compatible (ts_types ts) s t"
  by unfold_locales (auto simp: cache_ok_answer cache_ok_ask)

section \<open>Histories of registrations and questions\<close>

datatype ts_event =
    Registered string pytype
  | Asked string string

fun ts_answers :: "ts_event list \<Rightarrow> type_system \<Rightarrow> bool list" where
  "ts_answers [] ts = []"
| "ts_answers (Registered n t # es) ts = ts_answers es (register_type n t ts)"
| "ts_answers (Asked s t # es) ts =
     (let (r, ts') = is_compatible s t ts in r # ts_answers es ts')"

text \<open>The reference: every question is answered from the types registered at that moment.\<close>

fun reference_answers :: "ts_event list \<Rightarrow> (string \<times> pytype) list \<Rightarrow> bool list" where
  "reference_answers [] types = []"
| "reference_answers (Registered n t # es) types =
     reference_answers es (AList.update n t types)"
| "reference_answers (Asked s t # es) types =
     compatible types s t # reference_answers es types"

text \<open>
  \<open>asked\<close> are the names of earlier questions. A registration is harmless when no earlier
  question mentioned the name, or when the name is already bound to that type.
\<close>

fun registered_before_asked :: "string list \<Rightarrow> (string \<times> pytype) list \<Rightarrow> ts_event list \<Rightarrow> bool" where
  "registered_before_asked asked types [] = True"
| "registered_before_asked asked types (Registered n t # es) =
     ((n \<notin> set asked \<or> map_of types n = Some t) \<and>
      registered_before_asked asked (AList.update n t types) es)"
| "registered_before_asked asked types (Asked s t # es) =
     registered_before_asked (s # t # asked) types es"

definition cache_names :: "string list \<Rightarrow> type_system \<Rightarrow> bool" where
  "cache_names asked ts =
     (\<forall>s t r. cached ts s t = Some r \<longrightarrow> s \<in> set asked \<and> t \<in> set asked)"

lemma cached_register [simp]: "cached (register_type n t ts) = cached ts"
  by (simp add: fun_eq_iff cached_def register_type_def)

lemma types_register [simp]: "ts_types (register_type n t ts) = AList.update n t (ts_types ts)"
  by (simp add: register_type_def)

lemma compatible_update_other:
  "n \<noteq> s \<Longrightarrow> n \<noteq> t \<Longrightarrow> compatible (AList.update n ty types) s t = compatible types s t"
  by (simp add: compatible_def update_conv)

lemma compatible_update_same:
  "map_of types n = Some ty \<Longrightarrow> compatible (AList.update n ty types) = compatible types"
  by (auto simp: compatible_def fun_eq_iff update_conv map_upd_triv)

lemma cache_ok_register:
  assumes "cache_ok ts" "cache_names asked ts"
    and "n \<notin> set asked \<or> map_of (ts_types ts) n = Some ty"
  shows "cache_ok (register_type n ty ts)"
  using assms
  by (auto simp: cache_ok_def cache_names_def compatible_update_other compatible_update_same)
     (metis compatible_update_other)+

lemma cache_names_ask:
  "cache_names asked ts \<Longrightarrow> cache_names (s # t # asked) (snd (is_compatible s t ts))"
  by (auto simp: cache_names_def cached_is_compatible split: if_splits)

lemma answers_are_reference:
  "cache_ok ts \<Longrightarrow> cache_names asked ts \<Longrightarrow>
   registered_before_asked asked (ts_types ts) es \<Longrightarrow>
   ts_answers es ts = reference_answers es (ts_types ts)"
proof (induction es arbitrary: asked ts)
  case Nil
  show ?case by simp
next
  case (Cons e es)
  show ?case
  proof (cases e)
    case (Registered n ty)
    with Cons.prems have "cache_ok (register_type n ty ts)"
      by (intro cache_ok_register [where asked = asked]) simp_all
    with Cons.prems show ?thesis
      using Cons.IH [of "register_type n ty ts" asked] by (simp add: Registered cache_names_def)
  next
    case (Asked s t)
    from Cons.prems(3) have "registered_before_asked (s # t # asked)
        (ts_types (snd (is_compatible s t ts))) es"
      by (simp add: Asked)
    from Cons.IH [OF cache_ok_ask [OF Cons.prems(1)] cache_names_ask [OF Cons.prems(2)] this]
    show ?thesis
      by (simp add: Asked split_beta cache_ok_answer [OF Cons.prems(1)])
  qed
qed

lemma new_type_system_ok: "cache_ok new_type_system" "cache_names [] new_type_system"
  by (simp_all add: cache_ok_def cache_names_def cached_def new_type_system_def)

text \<open>C36. The cache is invisible: in every history of registrations and questions in which a
  name is bound before it is first asked about (and afterwards only bound to the same type
  again), the type system answers each question exactly as the uncached comparison of the types
  registered at that moment.\<close>

theorem cached_answers_are_reference:
  assumes "registered_before_asked [] [] es"
  shows "ts_answers es new_type_system = reference_answers es []"
  using answers_are_reference [OF new_type_system_ok, of es] assms
  by (simp add: new_type_system_def)

definition obj_class :: pytype where "obj_class = Klass ''object'' 1 [1]"
definition int_class :: pytype where "int_class = Klass ''int'' 2 [2, 1]"
definition bool_class :: pytype where "bool_class = Klass ''bool'' 3 [3, 2, 1]"

theorem cached_answers_are_reference_witness:
  "ts_answers [Registered ''int'' int_class, Registered ''bool'' bool_class,
      Asked ''bool'' ''int'', Asked ''int'' ''bool'', Registered ''int'' int_class,
      Asked ''bool'' ''int''] new_type_system = [True, False, True]"
  by (subst cached_answers_are_reference) (simp_all add: int_class_def bool_class_def compatible_def)

text \<open>Without that order the cache is visible: an answer about a name that is not registered
  yet is kept after the registration.\<close>

lemma late_registration_is_ignored:
  "ts_answers [Registered ''int'' int_class, Asked ''bool'' ''int'',
      Registered ''bool'' bool_class, Asked ''bool'' ''int''] new_type_system = [False, False]"
  "reference_answers [Registered ''int'' int_class, Asked ''bool'' ''int'',
      Registered ''bool'' bool_class, Asked ''bool'' ''int''] [] = [False, True]"
  by (simp_all add: int_class_def bool_class_def compatible_def is_compatible_def cached_def
      remember_def new_type_system_def register_type_def)

text \<open>Listing a block whose constructor takes an \<open>Optional[int]\<close> binds the name \<open>int\<close> to the
  union, and an output of class \<open>int\<close> no longer fits an input of its base class.\<close>

lemma optional_shadows_its_class:
  "let types = [(''int'', int_class), (''object'', obj_class)];
       optional = UnionT ''Optional'' [int_class, Klass ''NoneType'' 0 [0, 1]];
       ts = \<lparr>ts_types = types, ts_cache = []\<rparr>
   in compatible types ''int'' ''object'' \<and>
      (let ts' = snd (extract_type_info optional ts)
       in \<not> compatible (ts_types ts') ''int'' ''object'')"
  by (simp add: int_class_def obj_class_def compatible_def extract_type_info_def
      register_type_def Let_def)

section \<open>The compatibility map\<close>

lemma ask_all_ok: "cache_ok ts \<Longrightarrow> cache_ok (ask_all qs ts) \<and> ts_types (ask_all qs ts) = ts_types ts"
  by (induction qs arbitrary: ts) (auto simp: ask_all_def cache_ok_ask)

lemma cached_ask_all:
  "cache_ok ts \<Longrightarrow> cached (ask_all qs ts) s t =
     (if (s, t) \<in> set qs then Some (compatible (ts_types ts) s t) else cached ts s t)"
proof (induction qs arbitrary: ts)
  case Nil
  show ?case by (simp add: ask_all_def)
next
  case (Cons q qs)
  obtain a b where q: "q = (a, b)" by (cases q)
  have unfold: "ask_all (q # qs) ts = ask_all qs (snd (is_compatible a b ts))"
    by (simp add: ask_all_def q)
  show ?case
    unfolding unfold Cons.IH [OF cache_ok_ask [OF Cons.prems]] types_is_compatible
      cached_is_compatible cache_ok_answer [OF Cons.prems]
    by (auto simp: q)
qed

definition distinct_cache :: "type_system \<Rightarrow> bool" where
  "distinct_cache ts =
     (distinct (map fst (ts_cache ts)) \<and>
      (\<forall>(s, row) \<in> set (ts_cache ts). distinct (map fst row)))"

lemma set_AList_update: "set (AList.update k v xs) \<subseteq> insert (k, v) (set xs)"
  by (induction xs) auto

lemma distinct_cache_remember: "distinct_cache ts \<Longrightarrow> distinct_cache (remember s t r ts)"
proof -
  assume ts: "distinct_cache ts"
  let ?row = "case map_of (ts_cache ts) s of Some row \<Rightarrow> row | None \<Rightarrow> []"
  have "distinct (map fst ?row)"
    using ts by (auto simp: distinct_cache_def split: option.split dest: map_of_SomeD)
  then have row: "distinct (map fst (AList.update t r ?row))"
    by (rule distinct_update)
  have "set (AList.update s (AList.update t r ?row) (ts_cache ts)) \<subseteq>
      insert (s, AList.update t r ?row) (set (ts_cache ts))"
    by (rule set_AList_update)
  with ts row show ?thesis
    by (auto simp: distinct_cache_def remember_def Let_def intro!: distinct_update)
qed

lemma distinct_cache_ask_all: "distinct_cache ts \<Longrightarrow> distinct_cache (ask_all qs ts)"
  by (induction qs arbitrary: ts)
     (auto simp: ask_all_def is_compatible_def distinct_cache_remember Let_def
       split: option.split)

text \<open>Under distinct keys the listed rows are the positive entries of the cache.\<close>

lemma listed_iff_cached:
  assumes "distinct_cache ts"
  shows "(\<exists>row. (s, row) \<in> set (map (\<lambda>(s, row). (s, map fst (filter snd row))) (ts_cache ts)) \<and>
            t \<in> set row) \<longleftrightarrow> cached ts s t = Some True" (is "?listed \<longleftrightarrow> _")
proof -
  have keys: "distinct (map fst (ts_cache ts))"
    and rows: "\<And>row. (s, row) \<in> set (ts_cache ts) \<Longrightarrow> distinct (map fst row)"
    using assms by (auto simp: distinct_cache_def)
  have "?listed \<longleftrightarrow> (\<exists>row. (s, row) \<in> set (ts_cache ts) \<and> (t, True) \<in> set row)"
    by (force simp: image_iff)
  also have "\<dots> \<longleftrightarrow> (\<exists>row. map_of (ts_cache ts) s = Some row \<and> map_of row t = Some True)"
    by (metis keys rows map_of_eq_Some_iff map_of_SomeD)
  also have "\<dots> \<longleftrightarrow> cached ts s t = Some True"
    by (auto simp: cached_def bind_eq_Some_conv)
  finally show ?thesis .
qed

theorem compatibility_map_exact:
  assumes "cache_ok ts" "distinct_cache ts"
    and "s \<in> fst ` set (ts_types ts)" "t \<in> fst ` set (ts_types ts)"
  shows "(\<exists>row. (s, row) \<in> set (fst (compatibility_map ts)) \<and> t \<in> set row) \<longleftrightarrow>
           compatible (ts_types ts) s t"
proof -
  let ?names = "map fst (ts_types ts)"
  let ?ts = "ask_all (List.product ?names ?names) ts"
  have "(\<exists>row. (s, row) \<in> set (fst (compatibility_map ts)) \<and> t \<in> set row) \<longleftrightarrow>
      cached ?ts s t = Some True"
    unfolding compatibility_map_def Let_def fst_conv
    by (rule listed_iff_cached [OF distinct_cache_ask_all [OF assms(2)]])
  also have "\<dots> \<longleftrightarrow> compatible (ts_types ts) s t"
    using assms(3,4) by (simp add: cached_ask_all [OF assms(1)])
  finally show ?thesis .
qed

end
