(* ===== verification/Block_Registry.thy ===== *)
theory Block_Registry
  imports Block_Types
begin

text \<open>
  The registry of block classes: \<open>workflow/core/block/registry.py\<close> with the description
  records of \<open>schema.py\<close> and \<open>param.py\<close>. A class is a record of what the code reads of it;
  \<open>bc_ref\<close> is its identity, and \<open>==\<close> on classes compares it. The class attribute \<open>id\<close>, which
  \<open>register\<close> overwrites, is a table of the registry state. Warnings and logging are left out.
\<close>

section \<open>Block classes\<close>

text \<open>Which of the control classes of \<open>block/base.py\<close> a class derives from.\<close>

datatype block_kind = NormalKind | ConditionKind | LoopKind | LoopEndKind

record init_param =
  ip_name :: string
  ip_annotation :: pytype
  ip_default :: "json option"

record block_class =
  bc_ref :: nat
  bc_name :: string
  bc_module :: string
  bc_kind :: block_kind
  bc_color :: string
  bc_description :: string
  bc_doc :: "string option"
  bc_inputs :: "(string \<times> block_input) list"
  bc_outputs :: "(string \<times> block_output) list"
  bc_params :: "init_param list"

record input_info =
  ii_name :: string
  ii_label :: string
  ii_description :: string
  ii_type :: string
  ii_required :: bool
  ii_default :: "json option"

record output_info =
  oi_name :: string
  oi_label :: string
  oi_description :: string
  oi_type :: string

record config_info =
  ci_name :: string
  ci_description :: "string option"
  ci_type :: string
  ci_required :: bool
  ci_default :: "json option"
  ci_label :: "string option"
  ci_has_options :: bool
  ci_provider :: "nat option"

type_synonym block_info =
  "(string \<times> input_info) list \<times> (string \<times> output_info) list \<times> (string \<times> config_info) list"

record block_registry =
  br_blocks :: "(string \<times> block_class) list"
  br_localized :: "(string \<times> string) list"
  br_colors :: "(string \<times> string) list"
  br_types :: type_system
  br_info_cache :: "(nat \<times> block_info) list"
  br_class_ids :: "(nat \<times> string) list"

datatype registry_error = AlreadyRegistered string

definition new_block_registry :: block_registry where
  "new_block_registry =
     \<lparr>br_blocks = [], br_localized = [], br_colors = [], br_types = new_type_system,
      br_info_cache = [], br_class_ids = []\<rparr>"

definition default_group_colors :: "(string \<times> string) list" where
  "default_group_colors =
     [(''internal'', ''#5b8dff''), (''system'', ''#8b7cd8''), (''game'', ''#e0954a''),
      (''mcp'', ''#3fa89a'')]"

section \<open>Registration\<close>

definition dict_get :: "'v \<Rightarrow> (string \<times> 'v) list \<Rightarrow> string \<Rightarrow> 'v" where
  "dict_get d kvs k = (case map_of kvs k of Some v \<Rightarrow> v | None \<Rightarrow> d)"

definition register_port_types :: "block_class \<Rightarrow> type_system \<Rightarrow> type_system" where
  "register_port_types c ts =
     fold (\<lambda>t. register_type (type_name t) t)
       (map (in_data_type \<circ> snd) (bc_inputs c) @ map (out_data_type \<circ> snd) (bc_outputs c)) ts"

definition first_nonempty :: "string list \<Rightarrow> string" where
  "first_nonempty ss = (case List.find (\<lambda>s. s \<noteq> []) ss of Some s \<Rightarrow> s | None \<Rightarrow> [])"

definition full_name :: "string \<Rightarrow> string \<Rightarrow> string" where
  "full_name group_id block_id = group_id @ '':'' @ block_id"

definition register_block ::
    "string \<Rightarrow> string \<Rightarrow> block_class \<Rightarrow> string option \<Rightarrow> string option \<Rightarrow> block_registry \<Rightarrow>
     registry_error + block_registry" where
  "register_block block_id group_id c localized color reg =
     (let name = full_name group_id block_id in
      if map_of (br_blocks reg) name \<noteq> None then Inl (AlreadyRegistered name)
      else
        let resolved = first_nonempty
              [case color of Some s \<Rightarrow> s | None \<Rightarrow> [], bc_color c,
               dict_get [] default_group_colors group_id]
        in Inr (reg\<lparr>
             br_info_cache := AList.delete (bc_ref c) (br_info_cache reg),
             br_blocks := AList.update name c (br_blocks reg),
             br_class_ids := AList.update (bc_ref c) block_id (br_class_ids reg),
             br_localized :=
               (case localized of
                  Some l \<Rightarrow> if l = [] then br_localized reg
                            else AList.update name l (br_localized reg)
                | None \<Rightarrow> br_localized reg),
             br_colors :=
               (if resolved = [] then br_colors reg
                else AList.update name resolved (br_colors reg)),
             br_types := register_port_types c (br_types reg)\<rparr>))"

text \<open>\<open>clear\<close>: the identifiers written into the classes stay.\<close>

definition clear_registry :: "block_registry \<Rightarrow> block_registry" where
  "clear_registry reg =
     reg\<lparr>br_blocks := [], br_localized := [], br_colors := [], br_types := new_type_system,
         br_info_cache := []\<rparr>"

definition get_block :: "string \<Rightarrow> block_registry \<Rightarrow> block_class option" where
  "get_block name reg = map_of (br_blocks reg) name"

definition get_localized_name :: "string \<Rightarrow> block_registry \<Rightarrow> string option" where
  "get_localized_name name reg = map_of (br_localized reg) name"

definition get_color :: "string \<Rightarrow> block_class option \<Rightarrow> block_registry \<Rightarrow> string" where
  "get_color name c reg =
     (let color = dict_get [] (br_colors reg) name
      in if color \<noteq> [] then color else case c of Some c \<Rightarrow> bc_color c | None \<Rightarrow> [])"

fun before_blank_line :: "string \<Rightarrow> string" where
  "before_blank_line [] = []"
| "before_blank_line [x] = [x]"
| "before_blank_line (x # y # s) =
     (if of_char x = (10::nat) \<and> of_char y = (10::nat) then []
      else x # before_blank_line (y # s))"

definition get_description :: "block_class \<Rightarrow> string" where
  "get_description c =
     (if bc_description c \<noteq> [] then bc_description c
      else
        let doc = str_strip (case bc_doc c of Some d \<Rightarrow> d | None \<Rightarrow> [])
        in if doc = [] then [] else str_strip (before_blank_line doc))"

definition get_block_type_name :: "block_class \<Rightarrow> block_registry \<Rightarrow> string" where
  "get_block_type_name c reg =
     (case List.find (\<lambda>(_, c'). bc_ref c' = bc_ref c) (br_blocks reg) of
        Some (name, _) \<Rightarrow> name
      | None \<Rightarrow> ''!!'' @ bc_module c @ ''.'' @ bc_name c)"

definition get_all_types :: "block_registry \<Rightarrow> block_class list" where
  "get_all_types reg = map snd (br_blocks reg)"

definition is_type_compatible :: "string \<Rightarrow> string \<Rightarrow> block_registry \<Rightarrow> bool \<times> block_registry" where
  "is_type_compatible s t reg =
     (let (r, ts) = is_compatible s t (br_types reg) in (r, reg\<lparr>br_types := ts\<rparr>))"

definition type_compatibility_map ::
    "block_registry \<Rightarrow> (string \<times> string list) list \<times> block_registry" where
  "type_compatibility_map reg =
     (let (m, ts) = compatibility_map (br_types reg) in (m, reg\<lparr>br_types := ts\<rparr>))"

section \<open>Block descriptions\<close>

text \<open>
  \<open>extract_block_param\<close>. An \<open>Annotated\<close> annotation takes label, description and provider
  from its \<open>ParamMeta\<close> and the rest from the annotated type.
\<close>

fun extract_block_param ::
    "string \<Rightarrow> pytype \<Rightarrow> json option \<Rightarrow> type_system \<Rightarrow> config_info \<times> type_system" where
  "extract_block_param name (AnnotatedT t meta) d ts =
     (let (c, ts') = extract_block_param name t d ts in
      (\<lparr>ci_name = name,
        ci_description = (case meta of Some m \<Rightarrow> pm_description m | None \<Rightarrow> None),
        ci_type = ci_type c, ci_required = ci_required c, ci_default = ci_default c,
        ci_label = (case meta of Some m \<Rightarrow> pm_label m | None \<Rightarrow> Some name),
        ci_has_options = (case meta of Some m \<Rightarrow> pm_provider m \<noteq> None | None \<Rightarrow> False),
        ci_provider = (case meta of Some m \<Rightarrow> pm_provider m | None \<Rightarrow> None)\<rparr>, ts'))"
| "extract_block_param name t d ts =
     (let ((ty, required), ts') = extract_type_info t ts in
      (\<lparr>ci_name = name, ci_description = None, ci_type = ty, ci_required = required,
        ci_default = d, ci_label = Some name, ci_has_options = False, ci_provider = None\<rparr>, ts'))"

definition extract_input :: "string \<times> block_input \<Rightarrow> type_system \<Rightarrow> (string \<times> input_info) \<times> type_system" where
  "extract_input = (\<lambda>(name, i) ts.
     let ((ty, _), ts') = extract_type_info (in_data_type i) ts in
     ((name, \<lparr>ii_name = name, ii_label = in_label i, ii_description = in_description i,
              ii_type = ty, ii_required = (\<not> in_nullable i), ii_default = in_default i\<rparr>),
      register_type ty (in_data_type i) ts'))"

definition extract_output :: "string \<times> block_output \<Rightarrow> type_system \<Rightarrow> (string \<times> output_info) \<times> type_system" where
  "extract_output = (\<lambda>(name, p) ts.
     let ((ty, _), ts') = extract_type_info (out_data_type p) ts in
     ((name, \<lparr>oi_name = name, oi_label = out_label p, oi_description = out_description p,
              oi_type = ty\<rparr>),
      register_type ty (out_data_type p) ts'))"

definition extract_config :: "init_param \<Rightarrow> type_system \<Rightarrow> (string \<times> config_info) \<times> type_system" where
  "extract_config p ts =
     (let (c, ts') = extract_block_param (ip_name p) (ip_annotation p) (ip_default p) ts
      in ((ip_name p, c), ts'))"

text \<open>A loop that collects results while it threads the type system.\<close>

fun thread_map :: "('a \<Rightarrow> 's \<Rightarrow> 'b \<times> 's) \<Rightarrow> 'a list \<Rightarrow> 's \<Rightarrow> 'b list \<times> 's" where
  "thread_map f [] s = ([], s)"
| "thread_map f (x # xs) s =
     (let (y, s') = f x s; (ys, s'') = thread_map f xs s' in (y # ys, s''))"

definition builtin_params :: "string list" where
  "builtin_params = [''self'', ''name'', ''inputs'', ''outputs'']"

definition extract_block_info :: "block_class \<Rightarrow> type_system \<Rightarrow> block_info \<times> type_system" where
  "extract_block_info c ts =
     (let (ins, ts1) = thread_map extract_input (bc_inputs c) ts;
          (outs, ts2) = thread_map extract_output (bc_outputs c) ts1;
          (configs, ts3) = thread_map extract_config
            (filter (\<lambda>p. ip_name p \<notin> set builtin_params) (bc_params c)) ts2
      in ((ins, outs, configs), ts3))"

definition extract_block_info_cached :: "block_class \<Rightarrow> block_registry \<Rightarrow> block_info \<times> block_registry" where
  "extract_block_info_cached c reg =
     (case map_of (br_info_cache reg) (bc_ref c) of
        Some info \<Rightarrow> (info, reg)
      | None \<Rightarrow>
          (let (info, ts) = extract_block_info c (br_types reg)
           in (info, reg\<lparr>br_types := ts,
                         br_info_cache := AList.update (bc_ref c) info (br_info_cache reg)\<rparr>)))"

section \<open>Lookup laws\<close>

text \<open>
  What the builder relies on when it writes a type name and reads it back: the name of a
  registered class finds a class with the same identity.
\<close>

definition distinct_blocks :: "block_registry \<Rightarrow> bool" where
  "distinct_blocks reg = distinct (map fst (br_blocks reg))"

lemma register_distinct:
  "register_block b g c l col reg = Inr reg' \<Longrightarrow> distinct_blocks reg \<Longrightarrow> distinct_blocks reg'"
  by (auto simp: register_block_def distinct_blocks_def Let_def distinct_update split: if_splits)

lemma register_block_cases:
  "register_block b g c l col reg = Inr reg' \<Longrightarrow>
     get_block n reg' = (if n = full_name g b then Some c else get_block n reg)"
  by (auto simp: register_block_def get_block_def Let_def update_conv split: if_splits)

lemma get_of_type_name:
  assumes "distinct_blocks reg" "(name, c) \<in> set (br_blocks reg)"
  shows "\<exists>c'. get_block (get_block_type_name c reg) reg = Some c' \<and> bc_ref c' = bc_ref c"
proof -
  from assms(2) have "List.find (\<lambda>(_, c'). bc_ref c' = bc_ref c) (br_blocks reg) \<noteq> None"
    by (auto simp: find_None_iff)
  then obtain n c' where
    found: "List.find (\<lambda>(_, c'). bc_ref c' = bc_ref c) (br_blocks reg) = Some (n, c')"
    by fastforce
  from found have mem: "(n, c') \<in> set (br_blocks reg)" and ref: "bc_ref c' = bc_ref c"
    by (auto simp: find_Some_iff in_set_conv_nth)
  from assms(1) mem have "map_of (br_blocks reg) n = Some c'"
    by (simp add: distinct_blocks_def)
  with found ref show ?thesis
    by (simp add: get_block_type_name_def get_block_def)
qed

text \<open>Asking the registry whether two types fit is asking its type system.\<close>

interpretation registry: memo_oracle "\<lambda>(s, t). is_type_compatible s t" "\<lambda>reg. cache_ok (br_types reg)"
  "\<lambda>reg (s, t). compatible (ts_types (br_types reg)) s t"
  by unfold_locales
     (auto simp: is_type_compatible_def split_beta cache_ok_answer cache_ok_ask)

text \<open>A description does not depend on what was registered before, so the cached copy is what
  a new extraction would return.\<close>

lemma extract_type_info_fst [simp]: "fst (extract_type_info t ts) = type_info t"
  by (simp add: extract_type_info_def)

lemma extract_block_param_fst:
  "fst (extract_block_param name t d ts) = fst (extract_block_param name t d ts')"
proof (induction t arbitrary: ts ts')
  case (AnnotatedT t meta)
  then have "fst (extract_block_param name t d ts) = fst (extract_block_param name t d ts')" .
  then show ?case by (simp add: split_beta Let_def)
qed (simp_all add: split_beta Let_def)

lemma thread_map_fst:
  assumes "\<And>x s s'. fst (f x s) = fst (f x s')"
  shows "fst (thread_map f xs s) = fst (thread_map f xs s')"
proof (induction xs arbitrary: s s')
  case (Cons x xs)
  then show ?case
    by (simp add: split_beta Let_def) (metis assms)
qed simp

lemma extract_block_info_fst: "fst (extract_block_info c ts) = fst (extract_block_info c ts')"
proof -
  have ins: "fst (thread_map extract_input xs s) = fst (thread_map extract_input xs s')" for xs s s'
    by (rule thread_map_fst) (simp add: extract_input_def split_beta Let_def)
  have outs: "fst (thread_map extract_output xs s) = fst (thread_map extract_output xs s')" for xs s s'
    by (rule thread_map_fst) (simp add: extract_output_def split_beta Let_def)
  have confs: "fst (thread_map extract_config xs s) = fst (thread_map extract_config xs s')" for xs s s'
    by (rule thread_map_fst)
       (simp add: extract_config_def split_beta Let_def, metis extract_block_param_fst)
  show ?thesis
    by (simp add: extract_block_info_def split_beta Let_def) (metis ins outs confs)
qed

definition info_cache_fresh :: "block_class \<Rightarrow> block_registry \<Rightarrow> bool" where
  "info_cache_fresh c reg =
     (case map_of (br_info_cache reg) (bc_ref c) of
        Some info \<Rightarrow> info = fst (extract_block_info c new_type_system)
      | None \<Rightarrow> True)"

lemma cached_info_is_fresh:
  "info_cache_fresh c reg \<Longrightarrow>
     fst (extract_block_info_cached c reg) = fst (extract_block_info c ts)"
  using extract_block_info_fst [of c ts new_type_system]
    extract_block_info_fst [of c "br_types reg" new_type_system]
  by (auto simp: info_cache_fresh_def extract_block_info_cached_def split_beta Let_def
      split: option.splits)

lemma info_cache_fresh_keeps:
  assumes "info_cache_fresh c reg" "c' = c \<or> bc_ref c' \<noteq> bc_ref c"
  shows "info_cache_fresh c (snd (extract_block_info_cached c' reg))"
  using assms extract_block_info_fst [of c "br_types reg" new_type_system]
  by (auto simp: info_cache_fresh_def extract_block_info_cached_def split_beta Let_def update_conv
      split: option.splits)

end
