(* ===== verification/Workflow_Exec.thy ===== *)
theory Workflow_Exec
  imports Block_Registry
begin

text \<open>
  The workflow engine: \<open>WorkflowExecutor\<close> of \<open>workflow/core/execution/executor.py\<close> over the
  blocks, wires and workflows of \<open>block/base.py\<close> and \<open>workflow/base.py\<close>.

  \<open>bl_ref\<close> and \<open>==\<close>: blocks are compared by identity, results are kept by name. The
  execution of a block is the parameter \<open>en_execute\<close>, which may change a world \<open>'w\<close> and
  returns outputs or raises; \<open>Cancelled\<close> is the cancellation an await sees when the deadline
  passes. The state also lists every call with its inputs and its reply. Recursion takes
  fuel, \<open>None\<close> is a run that has not returned yet. Log lines and durations are left out.
\<close>

section \<open>Workflows\<close>

record block =
  bl_ref :: nat
  bl_name :: string
  bl_kind :: block_kind
  bl_inputs :: "(string \<times> block_input) list"
  bl_outputs :: "(string \<times> block_output) list"

record wire =
  wi_source :: block
  wi_output :: string
  wi_target :: block
  wi_input :: string

record workflow =
  wf_name :: string
  wf_id :: "string option"
  wf_blocks :: "block list"
  wf_wires :: "wire list"
  wf_max_time :: int

definition same_block :: "block \<Rightarrow> block \<Rightarrow> bool" where
  "same_block a b = (bl_ref a = bl_ref b)"

section \<open>The execution graph\<close>

datatype build_error =
    NoSuchPort string string
  | TypeMismatch string string

text \<open>The \<open>defaultdict(list)\<close> from a block to its successors, in wire order.\<close>

type_synonym graph = "nat \<Rightarrow> block list"

definition wire_types :: "wire \<Rightarrow> build_error + string \<times> string" where
  "wire_types w =
     (case map_of (bl_outputs (wi_source w)) (wi_output w) of
        None \<Rightarrow> Inl (NoSuchPort (bl_name (wi_source w)) (wi_output w))
      | Some out \<Rightarrow>
          (case map_of (bl_inputs (wi_target w)) (wi_input w) of
             None \<Rightarrow> Inl (NoSuchPort (bl_name (wi_target w)) (wi_input w))
           | Some inp \<Rightarrow> Inr (type_name (out_data_type out), type_name (in_data_type inp))))"

definition add_edge :: "wire \<Rightarrow> graph \<Rightarrow> graph" where
  "add_edge w g =
     (let r = bl_ref (wi_source w) in g(r := g r @ [wi_target w]))"

fun build_graph :: "wire list \<Rightarrow> graph \<Rightarrow> block_registry \<Rightarrow> (build_error + graph) \<times> block_registry" where
  "build_graph [] g reg = (Inr g, reg)"
| "build_graph (w # ws) g reg =
     (case wire_types w of
        Inl e \<Rightarrow> (Inl e, reg)
      | Inr (s, t) \<Rightarrow>
          (let (fits, reg') = is_type_compatible s t reg
           in if \<not> fits then (Inl (TypeMismatch s t), reg')
              else build_graph ws (add_edge w g) reg'))"

definition build_execution_graph ::
    "workflow \<Rightarrow> block_registry \<Rightarrow> (build_error + graph) \<times> block_registry" where
  "build_execution_graph wk reg = build_graph (wf_wires wk) (\<lambda>_. []) reg"

section \<open>Exceptions and state\<close>

text \<open>
  \<open>BlockFailed\<close> is \<open>BlockExecutionFailedException\<close>, with what its text says.
  \<open>HttpErr\<close> carries the status of the response, if there was one.
\<close>

datatype block_exn =
    BlockFailed failure
  | HttpErr "nat option"
  | TimeoutErr
  | KeyErr string
  | IndexErr
  | OtherErr string
  | Cancelled
and failure =
    DependsOn string string string
  | MissingWire string string
  | Http524 string
  | ExecutionFailed string block_exn
  | Stated string

type_synonym 'v outputs = "(string \<times> 'v) list"

record ('v, 'w) exec_env =
  en_execute :: "block \<Rightarrow> 'v outputs \<Rightarrow> 'w \<Rightarrow> (block_exn + 'v outputs) \<times> 'w"
  en_truth :: "'v \<Rightarrow> bool"

type_synonym 'v call = "block \<times> 'v outputs \<times> (block_exn + 'v outputs)"

record ('v, 'w) engine_state =
  ex_results :: "(string \<times> 'v outputs) list"
  ex_variables :: "(string \<times> 'v) list"
  ex_calls :: "'v call list"
  ex_world :: 'w

definition new_state :: "'w \<Rightarrow> ('v, 'w) engine_state" where
  "new_state w = \<lparr>ex_results = [], ex_variables = [], ex_calls = [], ex_world = w\<rparr>"

definition set_variable :: "string \<Rightarrow> 'v \<Rightarrow> ('v, 'w) engine_state \<Rightarrow> ('v, 'w) engine_state" where
  "set_variable n v s = s\<lparr>ex_variables := AList.update n v (ex_variables s)\<rparr>"

definition get_variable :: "string \<Rightarrow> 'v \<Rightarrow> ('v, 'w) engine_state \<Rightarrow> 'v" where
  "get_variable n d s = (case map_of (ex_variables s) n of Some v \<Rightarrow> v | None \<Rightarrow> d)"

section \<open>Readiness and inputs\<close>

definition executed :: "('v, 'w) engine_state \<Rightarrow> block \<Rightarrow> bool" where
  "executed s b = (map_of (ex_results s) (bl_name b) \<noteq> None)"

definition output_of :: "('v, 'w) engine_state \<Rightarrow> block \<Rightarrow> string \<Rightarrow> 'v option" where
  "output_of s b out = Option.bind (map_of (ex_results s) (bl_name b)) (\<lambda>outs. map_of outs out)"

definition wires_to :: "workflow \<Rightarrow> block \<Rightarrow> wire list" where
  "wires_to wk b = filter (\<lambda>w. same_block (wi_target w) b) (wf_wires wk)"

definition predecessors :: "workflow \<Rightarrow> block \<Rightarrow> block list" where
  "predecessors wk b = map wi_source (wires_to wk b)"

definition input_satisfied :: "workflow \<Rightarrow> block \<Rightarrow> string \<Rightarrow> ('v, 'w) engine_state \<Rightarrow> bool" where
  "input_satisfied wk b n s =
     (\<exists>w\<in>set (wires_to wk b). wi_input w = n \<and> output_of s (wi_source w) (wi_output w) \<noteq> None)"

definition can_execute :: "workflow \<Rightarrow> block \<Rightarrow> ('v, 'w) engine_state \<Rightarrow> bool" where
  "can_execute wk b s =
     (\<not> executed s b \<and>
      (\<forall>p\<in>set (predecessors wk b). executed s p) \<and>
      (\<forall>(n, i)\<in>set (bl_inputs b). input_satisfied wk b n s \<or> in_nullable i))"

text \<open>\<open>_gather_inputs\<close>: the last wire into a port counts.\<close>

definition input_wire :: "workflow \<Rightarrow> block \<Rightarrow> string \<Rightarrow> wire option" where
  "input_wire wk b n = List.find (\<lambda>w. wi_input w = n) (rev (wires_to wk b))"

fun gather_ports ::
    "workflow \<Rightarrow> block \<Rightarrow> (string \<times> block_input) list \<Rightarrow> ('v, 'w) engine_state \<Rightarrow>
     failure + 'v outputs" where
  "gather_ports wk b [] s = Inr []"
| "gather_ports wk b ((n, i) # ports) s =
     (case input_wire wk b n of
        Some w \<Rightarrow>
          (case output_of s (wi_source w) (wi_output w) of
             Some v \<Rightarrow>
               (case gather_ports wk b ports s of
                  Inl e \<Rightarrow> Inl e
                | Inr ins \<Rightarrow> Inr ((n, v) # ins))
           | None \<Rightarrow> Inl (DependsOn (bl_name b) (bl_name (wi_source w)) n))
      | None \<Rightarrow>
          (if in_nullable i then gather_ports wk b ports s
           else Inl (MissingWire (bl_name b) n)))"

definition gather_inputs :: "workflow \<Rightarrow> block \<Rightarrow> ('v, 'w) engine_state \<Rightarrow> failure + 'v outputs" where
  "gather_inputs wk b s = gather_ports wk b (bl_inputs b) s"

section \<open>Execution\<close>

definition call_block ::
    "('v, 'w) exec_env \<Rightarrow> block \<Rightarrow> 'v outputs \<Rightarrow> ('v, 'w) engine_state \<Rightarrow>
     (block_exn + 'v outputs) \<times> ('v, 'w) engine_state" where
  "call_block en b ins s =
     (let (reply, w) = en_execute en b ins (ex_world s);
          s' = s\<lparr>ex_calls := ex_calls s @ [(b, ins, reply)], ex_world := w\<rparr>
      in case reply of
           Inl e \<Rightarrow> (Inl e, s')
         | Inr outs \<Rightarrow> (Inr outs, s'\<lparr>ex_results := AList.update (bl_name b) outs (ex_results s)\<rparr>))"

definition is_normal :: "block \<Rightarrow> bool" where
  "is_normal b = (bl_kind b = NormalKind \<or> bl_kind b = LoopEndKind)"

text \<open>A condition and a loop pass their inputs to \<open>run_in_executor\<close> as keywords, which it does not take:
  with any input the call raises \<open>TypeError\<close> before the block runs.\<close>

definition gather_and_call ::
    "('v, 'w) exec_env \<Rightarrow> workflow \<Rightarrow> block \<Rightarrow> ('v, 'w) engine_state \<Rightarrow>
     (block_exn + 'v outputs) \<times> ('v, 'w) engine_state" where
  "gather_and_call en wk b s =
     (case gather_inputs wk b s of
        Inl e \<Rightarrow> (Inl (BlockFailed e), s)
      | Inr ins \<Rightarrow>
          (if \<not> is_normal b \<and> ins \<noteq> [] then (Inl (OtherErr ''TypeError''), s) else call_block en b ins s))"

text \<open>The handlers around a normal block and everything it propagates to.\<close>

fun wrap_exn :: "block \<Rightarrow> block_exn \<Rightarrow> block_exn" where
  "wrap_exn b (BlockFailed f) = BlockFailed f"
| "wrap_exn b (HttpErr status) =
     BlockFailed (if status = Some 524 then Http524 (bl_name b)
                  else ExecutionFailed (bl_name b) (HttpErr status))"
| "wrap_exn b Cancelled = Cancelled"
| "wrap_exn b e = BlockFailed (ExecutionFailed (bl_name b) e)"

text \<open>
  Sequencing: what an exception skips, and what no return within the fuel skips.
  \<open>catching\<close> is the \<open>try\<close> of a normal block.
\<close>

type_synonym ('v, 'w) outcome = "((block_exn + unit) \<times> ('v, 'w) engine_state) option"

definition and_then ::
    "('v, 'w) outcome \<Rightarrow> (('v, 'w) engine_state \<Rightarrow> ('v, 'w) outcome) \<Rightarrow> ('v, 'w) outcome" where
  "and_then r k =
     (case r of
        None \<Rightarrow> None
      | Some (Inl e, s) \<Rightarrow> Some (Inl e, s)
      | Some (Inr _, s) \<Rightarrow> k s)"

definition with_reply ::
    "(block_exn + 'v outputs) \<times> ('v, 'w) engine_state \<Rightarrow>
     ('v outputs \<Rightarrow> ('v, 'w) engine_state \<Rightarrow> ('v, 'w) outcome) \<Rightarrow> ('v, 'w) outcome" where
  "with_reply r k =
     (case r of (Inl e, s) \<Rightarrow> Some (Inl e, s) | (Inr outs, s) \<Rightarrow> k outs s)"

definition catching :: "block \<Rightarrow> ('v, 'w) outcome \<Rightarrow> ('v, 'w) outcome" where
  "catching b r =
     (case r of
        Some (Inl e, s) \<Rightarrow> Some (Inl (wrap_exn b e), s)
      | _ \<Rightarrow> r)"

lemma and_then_cong [fundef_cong]:
  "r = r' \<Longrightarrow> (\<And>u s. r' = Some (Inr u, s) \<Longrightarrow> k s = k' s) \<Longrightarrow> and_then r k = and_then r' k'"
  by (auto simp: and_then_def split: option.splits sum.splits)

lemma with_reply_cong [fundef_cong]:
  "r = r' \<Longrightarrow> (\<And>outs s. r' = (Inr outs, s) \<Longrightarrow> k outs s = k' outs s) \<Longrightarrow>
     with_reply r k = with_reply r' k'"
  by (auto simp: with_reply_def split: prod.splits sum.splits)

text \<open>The value a control block decides by.\<close>

definition flag_of :: "('v, 'w) exec_env \<Rightarrow> string \<Rightarrow> 'v outputs \<Rightarrow> block_exn + bool" where
  "flag_of en k outs =
     (case map_of outs k of None \<Rightarrow> Inl (KeyErr k) | Some v \<Rightarrow> Inr (en_truth en v))"

text \<open>What a condition runs next: its first successor, its second one or nothing.\<close>

definition branch :: "block_exn + bool \<Rightarrow> block list \<Rightarrow> block_exn + block list" where
  "branch flag succs =
     (case flag of
        Inl e \<Rightarrow> Inl e
      | Inr True \<Rightarrow> (case succs of [] \<Rightarrow> Inl IndexErr | b # _ \<Rightarrow> Inr [b])
      | Inr False \<Rightarrow> (if 1 < length succs then Inr [succs ! 1] else Inr []))"

text \<open>What a loop runs before its next iteration, \<open>Inr None\<close> when it ends.\<close>

definition loop_body :: "block_exn + bool \<Rightarrow> block list \<Rightarrow> block_exn + block option" where
  "loop_body flag succs =
     (case flag of
        Inl e \<Rightarrow> Inl e
      | Inr True \<Rightarrow> (case succs of [] \<Rightarrow> Inl IndexErr | b # _ \<Rightarrow> Inr (Some b))
      | Inr False \<Rightarrow> Inr None)"

fun exec_nodes ::
      "nat \<Rightarrow> ('v, 'w) exec_env \<Rightarrow> workflow \<Rightarrow> graph \<Rightarrow> block list \<Rightarrow> ('v, 'w) engine_state \<Rightarrow>
       ('v, 'w) outcome"
  and exec_block ::
      "nat \<Rightarrow> ('v, 'w) exec_env \<Rightarrow> workflow \<Rightarrow> graph \<Rightarrow> block \<Rightarrow> ('v, 'w) engine_state \<Rightarrow>
       ('v, 'w) outcome"
  and exec_loop ::
      "nat \<Rightarrow> ('v, 'w) exec_env \<Rightarrow> workflow \<Rightarrow> graph \<Rightarrow> block \<Rightarrow> ('v, 'w) engine_state \<Rightarrow>
       ('v, 'w) outcome" where
  "exec_nodes n en wk g [] s = Some (Inr (), s)"
| "exec_nodes n en wk g (b # bs) s =
     and_then (exec_block n en wk g b s) (exec_nodes n en wk g bs)"
| "exec_block 0 en wk g b s = None"
| "exec_block (Suc n) en wk g b s =
     (if bl_kind b = ConditionKind then
        with_reply (gather_and_call en wk b s) (\<lambda>outs s'.
          case branch (flag_of en ''condition_result'' outs) (g (bl_ref b)) of
            Inl e \<Rightarrow> Some (Inl e, s')
          | Inr bs \<Rightarrow> exec_nodes n en wk g bs s')
      else if bl_kind b = LoopKind then exec_loop n en wk g b s
      else if \<not> can_execute wk b s then Some (Inr (), s)
      else
        catching b (with_reply (gather_and_call en wk b s) (\<lambda>outs.
          exec_nodes n en wk g (g (bl_ref b)))))"
| "exec_loop 0 en wk g b s = None"
| "exec_loop (Suc n) en wk g b s =
     with_reply (gather_and_call en wk b s) (\<lambda>outs s'.
       case loop_body (flag_of en ''should_continue'' outs) (g (bl_ref b)) of
         Inl e \<Rightarrow> Some (Inl e, s')
       | Inr None \<Rightarrow> Some (Inr (), s')
       | Inr (Some body) \<Rightarrow>
           and_then (exec_nodes n en wk g [body] s') (exec_loop n en wk g b))"

section \<open>A run\<close>

text \<open>What the run posts on the event bus and emits to the extension host.\<close>

datatype 'v run_event =
    BeginPosted
  | EndPosted "(string \<times> 'v outputs) list"
  | HookBefore string
  | HookError string string
  | HookAfter string

datatype run_error = WorkflowTimeout | RunRaised block_exn

definition entry_blocks :: "workflow \<Rightarrow> block list" where
  "entry_blocks wk = filter (\<lambda>b. bl_inputs b = []) (wf_blocks wk)"

definition workflow_label :: "workflow \<Rightarrow> string" where
  "workflow_label wk =
     (case wf_id wk of Some i \<Rightarrow> if i = [] then wf_name wk else i | None \<Rightarrow> wf_name wk)"

text \<open>What \<open>asyncio.wait_for\<close> makes of the outcome: with a deadline, the cancellation is its
  \<open>TimeoutError\<close>; a \<open>TimeoutError\<close> of a block is caught by the same handler.\<close>

definition is_timeout :: "workflow \<Rightarrow> block_exn \<Rightarrow> bool" where
  "is_timeout wk e = (e = TimeoutErr \<or> (e = Cancelled \<and> 0 < wf_max_time wk))"

definition run_workflow ::
    "nat \<Rightarrow> bool \<Rightarrow> ('v, 'w) exec_env \<Rightarrow> workflow \<Rightarrow> graph \<Rightarrow> ('v, 'w) engine_state \<Rightarrow>
     ((run_error + (string \<times> 'v outputs) list) \<times> 'v run_event list \<times> ('v, 'w) engine_state) option" where
  "run_workflow n host en wk g s =
     (let hook = (\<lambda>e. if host then [e] else []); label = workflow_label wk;
          start = BeginPosted # hook (HookBefore label)
      in case exec_nodes n en wk g (entry_blocks wk) s of
           None \<Rightarrow> None
         | Some (Inr _, s') \<Rightarrow>
             Some (Inr (ex_results s'),
                   start @ [EndPosted (ex_results s')] @ hook (HookAfter label), s')
         | Some (Inl e, s') \<Rightarrow>
             (if is_timeout wk e then
                Some (Inl WorkflowTimeout,
                      start @ [EndPosted (ex_results s')] @ hook (HookError label ''timeout''), s')
              else if e = Cancelled then Some (Inl (RunRaised e), start, s')
              else Some (Inl (RunRaised e), start @ hook (HookError label ''error''), s')))"

end
