(* ===== verification/Workflow_Safety.thy ===== *)
theory Workflow_Safety
  imports Workflow_Exec
begin

text \<open>
  Safety of the workflow engine: the graph is the successor relation of the wires, a normal
  block runs at most once and after all its predecessors, every input is the newest recorded
  output at the other end of its wire, and the inputs of an accepted workflow have the types
  their ports declare. The lemmas about a run are proved once, in the locale
  \<open>exec_invariant\<close>.
\<close>

section \<open>The graph\<close>

definition successors :: "workflow \<Rightarrow> graph" where
  "successors wk r = map wi_target (filter (\<lambda>w. bl_ref (wi_source w) = r) (wf_wires wk))"

lemma build_graph_edges:
  "build_graph ws g reg = (Inr g', reg') \<Longrightarrow>
     g' r = g r @ map wi_target (filter (\<lambda>w. bl_ref (wi_source w) = r) ws)"
  by (induction ws g reg rule: build_graph.induct)
     (auto simp: add_edge_def Let_def split: sum.splits prod.splits if_splits)

lemma graph_is_successors:
  "build_execution_graph wk reg = (Inr g, reg') \<Longrightarrow> g = successors wk"
  unfolding build_execution_graph_def successors_def
  by (rule ext) (simp add: build_graph_edges)

definition blocks_of :: "workflow \<Rightarrow> block set" where
  "blocks_of wk = set (wf_blocks wk) \<union> wi_source ` set (wf_wires wk) \<union> wi_target ` set (wf_wires wk)"

lemma successors_in_blocks: "set (successors wk r) \<subseteq> blocks_of wk"
  by (auto simp: successors_def blocks_of_def)

lemma entry_in_blocks: "set (entry_blocks wk) \<subseteq> blocks_of wk"
  by (auto simp: entry_blocks_def blocks_of_def)

section \<open>Invariants of a run\<close>

text \<open>\<open>P\<close> holds while the run goes on, \<open>Q\<close> after it raised.\<close>

definition delivers ::
    "(('v, 'w) engine_state \<Rightarrow> bool) \<Rightarrow> (('v, 'w) engine_state \<Rightarrow> bool) \<Rightarrow> ('v, 'w) outcome \<Rightarrow> bool" where
  "delivers P Q out =
     (case out of None \<Rightarrow> True | Some (Inr _, s) \<Rightarrow> P s | Some (Inl _, s) \<Rightarrow> Q s)"

lemma delivers_simps [simp]:
  "delivers P Q None" "delivers P Q (Some (Inr u, s)) = P s" "delivers P Q (Some (Inl e, s)) = Q s"
  by (simp_all add: delivers_def)

lemma delivers_and_then:
  "delivers P Q r \<Longrightarrow> (\<And>s. P s \<Longrightarrow> delivers P Q (k s)) \<Longrightarrow> delivers P Q (and_then r k)"
  by (cases r) (auto simp: and_then_def split: sum.splits)

lemma delivers_catching: "delivers P Q (catching b r) = delivers P Q r"
  by (auto simp: delivers_def catching_def split: option.splits sum.splits)

lemma branch_blocks: "branch flag succs = Inr bs \<Longrightarrow> set bs \<subseteq> set succs"
  by (auto simp: branch_def split: sum.splits bool.splits list.splits if_splits)

lemma loop_body_block: "loop_body flag succs = Inr (Some b) \<Longrightarrow> b \<in> set succs"
  by (auto simp: loop_body_def split: sum.splits bool.splits list.splits)

lemma normal_iff: "is_normal b \<longleftrightarrow> bl_kind b \<noteq> ConditionKind \<and> bl_kind b \<noteq> LoopKind"
  by (cases "bl_kind b") (simp_all add: is_normal_def)

locale exec_invariant =
  fixes en :: "('v, 'w) exec_env"
    and wk :: workflow
    and P :: "('v, 'w) engine_state \<Rightarrow> bool"
    and Q :: "('v, 'w) engine_state \<Rightarrow> bool"
  assumes call_returns:
      "P s \<Longrightarrow> b \<in> blocks_of wk \<Longrightarrow> gather_inputs wk b s = Inr ins \<Longrightarrow>
       (is_normal b \<longrightarrow> can_execute wk b s) \<Longrightarrow> call_block en b ins s = (Inr outs, s') \<Longrightarrow> P s'"
    and call_raises:
      "P s \<Longrightarrow> b \<in> blocks_of wk \<Longrightarrow> gather_inputs wk b s = Inr ins \<Longrightarrow>
       (is_normal b \<longrightarrow> can_execute wk b s) \<Longrightarrow> call_block en b ins s = (Inl e, s') \<Longrightarrow> Q s'"
    and weaken: "P s \<Longrightarrow> Q s"
begin

lemma delivers_reply:
  assumes "P s" "b \<in> blocks_of wk" "is_normal b \<longrightarrow> can_execute wk b s"
    and "\<And>outs s'. P s' \<Longrightarrow> delivers P Q (k outs s')"
  shows "delivers P Q (with_reply (gather_and_call en wk b s) k)"
proof (cases "gather_inputs wk b s")
  case (Inl e)
  then show ?thesis
    using assms by (simp add: gather_and_call_def with_reply_def weaken)
next
  case (Inr ins)
  obtain r s' where call: "call_block en b ins s = (r, s')" by fastforce
  show ?thesis
  proof (cases "\<not> is_normal b \<and> ins \<noteq> []")
    case True
    with Inr show ?thesis using weaken [OF assms(1)] by (simp add: gather_and_call_def with_reply_def)
  next
    case False
    show ?thesis
    proof (cases r)
      case (Inl e)
      with call have "Q s'" by (intro call_raises [OF assms(1,2) Inr assms(3)]) simp
      with Inl call Inr False show ?thesis by (auto simp: gather_and_call_def with_reply_def)
    next
      fix outs assume r: "r = Inr outs"
      with call have "P s'" by (intro call_returns [OF assms(1,2) Inr assms(3)]) simp
      with r call Inr False show ?thesis by (auto simp: gather_and_call_def with_reply_def assms(4))
    qed
  qed
qed

lemma nodes_keep_if:
  assumes "\<And>b s. P s \<Longrightarrow> b \<in> blocks_of wk \<Longrightarrow> delivers P Q (exec_block n en wk g b s)"
  shows "P s \<Longrightarrow> set bs \<subseteq> blocks_of wk \<Longrightarrow> delivers P Q (exec_nodes n en wk g bs s)"
  by (induction bs arbitrary: s) (auto intro!: delivers_and_then assms)

lemma block_keeps:
  "P s \<Longrightarrow> b \<in> blocks_of wk \<Longrightarrow>
     delivers P Q (exec_block n en wk (successors wk) b s) \<and>
     (\<not> is_normal b \<longrightarrow> delivers P Q (exec_loop n en wk (successors wk) b s))"
proof (induction n arbitrary: b s)
  case 0
  show ?case by simp
next
  case (Suc n)
  note nodes = nodes_keep_if [OF conjunct1 [OF Suc.IH]]
  note succs = successors_in_blocks [of wk "bl_ref b"]
  have loop: "delivers P Q (exec_loop (Suc n) en wk (successors wk) b s)" if "\<not> is_normal b"
    unfolding exec_loop.simps
    by (rule delivers_reply)
       (use Suc.prems that succs in \<open>auto split: sum.split option.split dest!: loop_body_block
          intro!: delivers_and_then conjunct1 [OF Suc.IH] conjunct2 [OF Suc.IH, rule_format]
          intro: weaken\<close>)
  have condition: "delivers P Q (with_reply (gather_and_call en wk b s) (\<lambda>outs s'.
      case branch (flag_of en ''condition_result'' outs) (successors wk (bl_ref b)) of
        Inl e \<Rightarrow> Some (Inl e, s')
      | Inr bs \<Rightarrow> exec_nodes n en wk (successors wk) bs s'))" if "\<not> is_normal b"
    by (rule delivers_reply)
       (use Suc.prems that succs in \<open>auto split: sum.split dest!: branch_blocks
          intro!: nodes intro: weaken\<close>)
  have normal: "delivers P Q (catching b (with_reply (gather_and_call en wk b s) (\<lambda>outs.
      exec_nodes n en wk (successors wk) (successors wk (bl_ref b)))))" if "can_execute wk b s"
    unfolding delivers_catching
    by (rule delivers_reply) (use Suc.prems that succs in \<open>auto intro!: nodes\<close>)
  show ?case
    using loop condition normal Suc.prems Suc.IH [OF Suc.prems]
    by (auto simp: normal_iff simp del: exec_loop.simps)
qed

lemma nodes_keep:
  "P s \<Longrightarrow> set bs \<subseteq> blocks_of wk \<Longrightarrow> delivers P Q (exec_nodes n en wk (successors wk) bs s)"
  by (rule nodes_keep_if) (simp_all add: block_keeps)

lemma entry_keeps:
  "P s \<Longrightarrow> exec_nodes n en wk (successors wk) (entry_blocks wk) s = Some (r, s') \<Longrightarrow> Q s'"
  using nodes_keep [of s "entry_blocks wk" n] entry_in_blocks [of wk]
  by (auto simp: delivers_def weaken split: sum.splits)

end

section \<open>Histories of calls\<close>

definition call_names :: "'v call list \<Rightarrow> string set" where
  "call_names cs = (\<lambda>(b, _, _). bl_name b) ` set cs"

lemma call_names_snoc: "call_names (cs @ [(b, ins, r)]) = insert (bl_name b) (call_names cs)"
  by (simp add: call_names_def)

text \<open>\<open>every_call R cs\<close>: each call satisfies \<open>R\<close> with respect to the calls before it.\<close>

definition every_call :: "('v call list \<Rightarrow> block \<Rightarrow> 'v outputs \<Rightarrow> bool) \<Rightarrow> 'v call list \<Rightarrow> bool" where
  "every_call R cs = (\<forall>xs b ins rep ys. cs = xs @ (b, ins, rep) # ys \<longrightarrow> R xs b ins)"

lemma every_call_Nil [simp]: "every_call R []"
  by (simp add: every_call_def)

lemma every_call_snoc:
  assumes "every_call R cs" "R cs b ins"
  shows "every_call R (cs @ [(b, ins, rep)])"
  unfolding every_call_def
proof (intro allI impI)
  fix xs b' ins' rep' ys
  assume eq: "cs @ [(b, ins, rep)] = xs @ (b', ins', rep') # ys"
  show "R xs b' ins'"
  proof (cases ys rule: rev_cases)
    case Nil
    with eq assms(2) show ?thesis by simp
  next
    case (snoc zs z)
    with eq have "cs = xs @ (b', ins', rep') # zs" by simp
    with assms(1) show ?thesis by (simp add: every_call_def)
  qed
qed

text \<open>A normal block is called once, and only after all its predecessors.\<close>

definition in_order :: "workflow \<Rightarrow> 'v call list \<Rightarrow> block \<Rightarrow> 'v outputs \<Rightarrow> bool" where
  "in_order wk before b ins =
     (if is_normal b
      then bl_name b \<notin> call_names before \<and>
           (\<forall>p\<in>set (predecessors wk b). bl_name p \<in> call_names before)
      else True)"

text \<open>The outputs recorded under a name by a history: those of its newest call.\<close>

definition recorded :: "'v call list \<Rightarrow> string \<Rightarrow> 'v outputs option" where
  "recorded cs = foldl (\<lambda>m (b, _, rep). case rep of Inl _ \<Rightarrow> m | Inr outs \<Rightarrow> m(bl_name b \<mapsto> outs))
     Map.empty cs"

text \<open>Every input is what the last wire into the port carries.\<close>

definition from_wires :: "workflow \<Rightarrow> 'v call list \<Rightarrow> block \<Rightarrow> 'v outputs \<Rightarrow> bool" where
  "from_wires wk before b ins =
     (\<forall>(n, v)\<in>set ins. \<exists>w. input_wire wk b n = Some w \<and>
        Option.bind (recorded before (bl_name (wi_source w))) (\<lambda>outs. map_of outs (wi_output w)) = Some v)"

lemma call_block_cases:
  "call_block en b ins s = (r, s') \<Longrightarrow>
     \<exists>w. ex_calls s' = ex_calls s @ [(b, ins, r)] \<and>
         ex_results s' = (case r of Inl _ \<Rightarrow> ex_results s
                          | Inr outs \<Rightarrow> AList.update (bl_name b) outs (ex_results s)) \<and>
         en_execute en b ins (ex_world s) = (r, w)"
  by (auto simp: call_block_def Let_def split: prod.splits sum.splits)

definition names_recorded :: "('v, 'w) engine_state \<Rightarrow> bool" where
  "names_recorded s = (dom (map_of (ex_results s)) = call_names (ex_calls s))"

lemma executed_iff: "names_recorded s \<Longrightarrow> executed s b \<longleftrightarrow> bl_name b \<in> call_names (ex_calls s)"
  by (auto simp: executed_def names_recorded_def)

lemma in_order_call:
  assumes "names_recorded s" "is_normal b \<longrightarrow> can_execute wk b s"
  shows "in_order wk (ex_calls s) b ins"
  using assms by (auto simp: in_order_def can_execute_def executed_iff)

interpretation order: exec_invariant en wk
  "\<lambda>s. every_call (in_order wk) (ex_calls s) \<and> names_recorded s"
  "\<lambda>s. every_call (in_order wk) (ex_calls s)"
  for en :: "('v, 'w) exec_env" and wk
proof unfold_locales
  fix s :: "('v, 'w) engine_state" and b ins outs s'
  assume inv: "every_call (in_order wk) (ex_calls s) \<and> names_recorded s"
    and ready: "is_normal b \<longrightarrow> can_execute wk b s"
    and call: "call_block en b ins s = (Inr outs, s')"
  have "every_call (in_order wk) (ex_calls s @ [(b, ins, Inr outs)])"
    using inv by (intro every_call_snoc in_order_call ready) simp_all
  with call_block_cases [OF call] inv show "every_call (in_order wk) (ex_calls s') \<and> names_recorded s'"
    by (clarsimp simp: names_recorded_def call_names_snoc update_conv')
next
  fix s :: "('v, 'w) engine_state" and b ins e s'
  assume inv: "every_call (in_order wk) (ex_calls s) \<and> names_recorded s"
    and ready: "is_normal b \<longrightarrow> can_execute wk b s"
    and call: "call_block en b ins s = (Inl e, s')"
  have "every_call (in_order wk) (ex_calls s @ [(b, ins, Inl e)])"
    using inv by (intro every_call_snoc in_order_call ready) simp_all
  with call_block_cases [OF call] show "every_call (in_order wk) (ex_calls s')"
    by auto
qed simp

lemma recorded_snoc:
  "recorded (cs @ [(b, ins, r)]) =
     (case r of Inl _ \<Rightarrow> recorded cs | Inr outs \<Rightarrow> (recorded cs)(bl_name b \<mapsto> outs))"
  by (simp add: recorded_def cong: sum.case_cong)

lemma gather_ports_wires:
  "gather_ports wk b ports s = Inr ins \<Longrightarrow> (n, v) \<in> set ins \<Longrightarrow>
     \<exists>w i. (n, i) \<in> set ports \<and> input_wire wk b n = Some w \<and>
       output_of s (wi_source w) (wi_output w) = Some v"
  by (induction ports arbitrary: ins)
     (force split: option.splits sum.splits if_splits)+

lemma from_wires_gather:
  assumes "recorded (ex_calls s) = map_of (ex_results s)" "gather_inputs wk b s = Inr ins"
  shows "from_wires wk (ex_calls s) b ins"
  unfolding from_wires_def assms(1)
  using gather_ports_wires [OF assms(2) [unfolded gather_inputs_def]]
  by (fastforce simp: output_of_def)

interpretation flow: exec_invariant en wk
  "\<lambda>s. every_call (from_wires wk) (ex_calls s) \<and> recorded (ex_calls s) = map_of (ex_results s)"
  "\<lambda>s. every_call (from_wires wk) (ex_calls s)"
  for en :: "('v, 'w) exec_env" and wk
proof unfold_locales
  fix s :: "('v, 'w) engine_state" and b ins outs s'
  assume inv: "every_call (from_wires wk) (ex_calls s) \<and> recorded (ex_calls s) = map_of (ex_results s)"
    and ins: "gather_inputs wk b s = Inr ins"
    and call: "call_block en b ins s = (Inr outs, s')"
  have "every_call (from_wires wk) (ex_calls s @ [(b, ins, Inr outs)])"
    using inv by (intro every_call_snoc from_wires_gather ins) simp_all
  with call_block_cases [OF call] inv
  show "every_call (from_wires wk) (ex_calls s') \<and> recorded (ex_calls s') = map_of (ex_results s')"
    by (auto simp: recorded_snoc update_conv')
next
  fix s :: "('v, 'w) engine_state" and b ins e s'
  assume inv: "every_call (from_wires wk) (ex_calls s) \<and> recorded (ex_calls s) = map_of (ex_results s)"
    and ins: "gather_inputs wk b s = Inr ins"
    and call: "call_block en b ins s = (Inl e, s')"
  have "every_call (from_wires wk) (ex_calls s @ [(b, ins, Inl e)])"
    using inv by (intro every_call_snoc from_wires_gather ins) simp_all
  with call_block_cases [OF call] show "every_call (from_wires wk) (ex_calls s')"
    by auto
qed simp

text \<open>Every listed call is a call of a block of the workflow with the reply it gave.\<close>

definition genuine :: "('v, 'w) exec_env \<Rightarrow> workflow \<Rightarrow> 'v call list \<Rightarrow> bool" where
  "genuine en wk cs =
     (\<forall>(b, ins, rep)\<in>set cs. b \<in> blocks_of wk \<and> (\<exists>w. fst (en_execute en b ins w) = rep))"

lemma genuine_call:
  assumes "genuine en wk (ex_calls s)" "b \<in> blocks_of wk" "call_block en b ins s = (r, s')"
  shows "genuine en wk (ex_calls s')"
proof -
  from call_block_cases [OF assms(3)] obtain w where
    calls: "ex_calls s' = ex_calls s @ [(b, ins, r)]"
    and "en_execute en b ins (ex_world s) = (r, w)" by blast
  then have "fst (en_execute en b ins (ex_world s)) = r" by simp
  with assms(1,2) calls show ?thesis
    unfolding genuine_def by (auto simp: split_beta)
qed

interpretation genuine: exec_invariant en wk
  "\<lambda>s. genuine en wk (ex_calls s)" "\<lambda>s. genuine en wk (ex_calls s)"
  for en :: "('v, 'w) exec_env" and wk
  by unfold_locales (auto intro: genuine_call)

section \<open>An example\<close>

text \<open>
  Three blocks: \<open>demo_a\<close> feeds \<open>demo_b\<close> and, through a nullable port, \<open>demo_c\<close>, which also
  waits for \<open>demo_b\<close>. A block adds up its inputs and its number.
\<close>

definition demo_port :: "string \<Rightarrow> pytype \<Rightarrow> bool \<Rightarrow> string \<times> block_input" where
  "demo_port n t nullable = (n, \<lparr>in_name = n, in_label = n, in_data_type = t, in_description = [],
     in_nullable = nullable, in_default = None\<rparr>)"

definition demo_out :: "string \<Rightarrow> pytype \<Rightarrow> string \<times> block_output" where
  "demo_out n t = (n, \<lparr>out_name = n, out_label = n, out_data_type = t, out_description = []\<rparr>)"

definition demo_block :: "nat \<Rightarrow> (string \<times> block_input) list \<Rightarrow> block" where
  "demo_block i ins = \<lparr>bl_ref = i, bl_name = replicate i CHR ''b'', bl_kind = NormalKind, bl_inputs = ins,
     bl_outputs = [demo_out ''out'' int_class]\<rparr>"

definition demo_a :: block where "demo_a = demo_block 1 []"

definition demo_b :: block where "demo_b = demo_block 2 [demo_port ''x'' int_class False]"

definition demo_c :: block where
  "demo_c = demo_block 3 [demo_port ''x'' obj_class False, demo_port ''y'' int_class True]"

definition demo_wire :: "block \<Rightarrow> block \<Rightarrow> string \<Rightarrow> wire" where
  "demo_wire a b n = \<lparr>wi_source = a, wi_output = ''out'', wi_target = b, wi_input = n\<rparr>"

definition demo_workflow :: workflow where
  "demo_workflow = \<lparr>wf_name = ''demo'', wf_id = None, wf_blocks = [demo_a, demo_b, demo_c],
     wf_wires = [demo_wire demo_a demo_c ''y'', demo_wire demo_a demo_b ''x'', demo_wire demo_b demo_c ''x''],
     wf_max_time = 3600\<rparr>"

definition demo_registry :: block_registry where
  "demo_registry = new_block_registry\<lparr>br_types := \<lparr>ts_types = [(''int'', int_class), (''object'', obj_class)],
     ts_cache = []\<rparr>\<rparr>"

definition demo_env :: "(nat, nat) exec_env" where
  "demo_env = \<lparr>en_execute = (\<lambda>b ins w. (Inr [(''out'', bl_ref b + sum_list (map snd ins))], Suc w)), en_truth = (\<lambda>v. v \<noteq> 0)\<rparr>"

definition demo_graph :: graph where "demo_graph = successors demo_workflow"


lemma demo_built: "\<exists>r. build_execution_graph demo_workflow demo_registry = (Inr demo_graph, r)"
proof -
  have "case fst (build_execution_graph demo_workflow demo_registry) of Inr _ \<Rightarrow> True | Inl _ \<Rightarrow> False"
    by code_simp
  then obtain g where "fst (build_execution_graph demo_workflow demo_registry) = Inr g"
    by (auto split: sum.splits)
  then have "build_execution_graph demo_workflow demo_registry =
      (Inr g, snd (build_execution_graph demo_workflow demo_registry))"
    by (simp add: prod_eq_iff)
  with graph_is_successors [OF this] show ?thesis
    unfolding demo_graph_def by blast
qed
definition demo_run where
  "demo_run = run_workflow 9 True demo_env demo_workflow demo_graph (new_state 0)"

lemma demo_calls:
  "map_option (\<lambda>(r, evs, s'). (r, ex_calls s')) demo_run =
     Some (Inr [(''b'', [(''out'', 1)]), (''bb'', [(''out'', 3)]), (''bbb'', [(''out'', 7)])],
       [(demo_a, [], Inr [(''out'', 1)]), (demo_b, [(''x'', 1)], Inr [(''out'', 3)]),
        (demo_c, [(''x'', 3), (''y'', 1)], Inr [(''out'', 7)])])"
  by code_simp

lemma demo_runs:
  obtains reg' res evs s' where
    "build_execution_graph demo_workflow demo_registry = (Inr demo_graph, reg')"
    "run_workflow 9 True demo_env demo_workflow demo_graph (new_state 0) = Some (res, evs, s')"
    "ex_calls s' = [(demo_a, [], Inr [(''out'', 1)]), (demo_b, [(''x'', 1)], Inr [(''out'', 3)]),
       (demo_c, [(''x'', 3), (''y'', 1)], Inr [(''out'', 7)])]"
  using demo_built demo_calls by (auto simp: demo_run_def)

lemmas demo_defs = demo_a_def demo_b_def demo_c_def demo_block_def demo_port_def demo_out_def
  int_class_def obj_class_def eval_nat_numeral

lemma demo_blocks: "blocks_of demo_workflow = {demo_a, demo_b, demo_c}"
  by (auto simp: blocks_of_def demo_workflow_def demo_wire_def)

section \<open>Order and data flow of a run\<close>

lemma run_nodes:
  "run_workflow n host en wk g s = Some (res, evs, s') \<Longrightarrow>
     \<exists>r. exec_nodes n en wk g (entry_blocks wk) s = Some (r, s')"
  by (auto simp: run_workflow_def Let_def split: option.splits sum.splits if_splits prod.splits)

lemma new_state_simps [simp]:
  "ex_calls (new_state w) = []" "ex_results (new_state w) = []" "ex_world (new_state w) = w"
  by (simp_all add: new_state_def)

lemma recorded_Nil [simp]: "recorded [] = Map.empty"
  by (simp add: recorded_def)

lemma run_calls:
  assumes "build_execution_graph wk reg = (Inr g, reg')"
    and "run_workflow n host en wk g (new_state w) = Some (res, evs, s')"
  shows "every_call (in_order wk) (ex_calls s') \<and> every_call (from_wires wk) (ex_calls s') \<and>
    genuine en wk (ex_calls s')"
proof -
  from run_nodes [OF assms(2)] obtain r where
    run: "exec_nodes n en wk (successors wk) (entry_blocks wk) (new_state w) = Some (r, s')"
    unfolding graph_is_successors [OF assms(1)] ..
  have "every_call (in_order wk) (ex_calls s')"
    by (rule order.entry_keeps [OF _ run]) (simp add: names_recorded_def call_names_def)
  moreover have "every_call (from_wires wk) (ex_calls s')"
    by (rule flow.entry_keeps [OF _ run]) simp
  moreover have "genuine en wk (ex_calls s')"
    by (rule genuine.entry_keeps [OF _ run]) (simp add: genuine_def)
  ultimately show ?thesis by simp
qed

text \<open>C23. Whatever the blocks return or raise, and however the run ends (result, exception or
  deadline): an ordinary block is executed at most once, and only after every block that has a
  wire into it has been executed.\<close>

theorem executes_in_dependency_order:
  assumes "build_execution_graph wk reg = (Inr g, reg')"
    and "run_workflow n host en wk g (new_state w) = Some (res, evs, s')"
    and "ex_calls s' = xs @ (b, ins, rep) # ys" "is_normal b"
  shows "bl_name b \<notin> call_names xs \<and> (\<forall>p\<in>set (predecessors wk b). bl_name p \<in> call_names xs)"
  using run_calls [OF assms(1,2)] assms(3,4) by (simp add: every_call_def in_order_def)

theorem executes_in_dependency_order_witness:
  "bl_name demo_c \<notin> call_names [(demo_a, [], Inr [(''out'', 1::nat)]), (demo_b, [(''x'', 1)], Inr [(''out'', 3)])] \<and>
   bl_name demo_b \<in> call_names [(demo_a, [], Inr [(''out'', 1::nat)]), (demo_b, [(''x'', 1)], Inr [(''out'', 3)])]"
proof -
  obtain reg' res evs s' where run:
    "build_execution_graph demo_workflow demo_registry = (Inr demo_graph, reg')"
    "run_workflow 9 True demo_env demo_workflow demo_graph (new_state 0) = Some (res, evs, s')"
    and calls: "ex_calls s' = [(demo_a, [], Inr [(''out'', 1)]), (demo_b, [(''x'', 1)], Inr [(''out'', 3)]),
       (demo_c, [(''x'', 3), (''y'', 1)], Inr [(''out'', 7)])]"
    by (rule demo_runs)
  have "demo_b \<in> set (predecessors demo_workflow demo_c)"
    by (simp add: predecessors_def wires_to_def demo_workflow_def demo_wire_def same_block_def)
  with executes_in_dependency_order [OF run, where b = demo_c and ins = "[(''x'', 3), (''y'', 1)]"
      and rep = "Inr [(''out'', 7)]" and ys = "[]"
      and xs = "[(demo_a, [], Inr [(''out'', 1)]), (demo_b, [(''x'', 1)], Inr [(''out'', 3)])]"]
  show ?thesis
    by (simp add: calls is_normal_def demo_c_def demo_block_def)
qed

text \<open>The inputs of every call are what the wires carry: each value is the output, at the
  other end of the last wire into that port, of the newest recorded execution of the block
  there.\<close>

theorem inputs_follow_the_wires:
  assumes "build_execution_graph wk reg = (Inr g, reg')"
    and "run_workflow n host en wk g (new_state w) = Some (res, evs, s')"
    and "ex_calls s' = xs @ (b, ins, rep) # ys" "(n', v) \<in> set ins"
  shows "\<exists>w outs. input_wire wk b n' = Some w \<and>
    recorded xs (bl_name (wi_source w)) = Some outs \<and> map_of outs (wi_output w) = Some v"
  using run_calls [OF assms(1,2)] assms(3,4)
  by (fastforce simp: every_call_def from_wires_def bind_eq_Some_conv)

theorem inputs_follow_the_wires_witness:
  "\<exists>w outs. input_wire demo_workflow demo_c ''x'' = Some w \<and>
    recorded [(demo_a, [], Inr [(''out'', 1)]), (demo_b, [(''x'', 1)], Inr [(''out'', 3)])]
      (bl_name (wi_source w)) = Some outs \<and> map_of outs (wi_output w) = Some (3::nat)"
proof -
  obtain reg' res evs s' where run:
    "build_execution_graph demo_workflow demo_registry = (Inr demo_graph, reg')"
    "run_workflow 9 True demo_env demo_workflow demo_graph (new_state 0) = Some (res, evs, s')"
    and calls: "ex_calls s' = [(demo_a, [], Inr [(''out'', 1)]), (demo_b, [(''x'', 1)], Inr [(''out'', 3)]),
       (demo_c, [(''x'', 3), (''y'', 1)], Inr [(''out'', 7)])]"
    by (rule demo_runs)
  show ?thesis
    by (rule inputs_follow_the_wires [OF run,
          where b = demo_c and ins = "[(''x'', 3), (''y'', 1)]" and ys = "[]"])
       (simp_all add: calls)
qed

end
