(* ===== verification/Workflow_Control.thy ===== *)
theory Workflow_Control
  imports Workflow_Safety
begin

text \<open>
  The control blocks of \<open>workflow/core/block/base.py\<close>, run by the engine of
  \<open>Workflow_Exec\<close>. Values are JSON documents here. The condition functions, the ordinary
  blocks and the text of a processed value are parameters; the counter of a loop and the
  results a loop end collects are the state of those objects, kept by identity.
\<close>

type_synonym kwargs = "(string \<times> json) list"

fun json_truth :: "json \<Rightarrow> bool" where
  "json_truth JNull = False"
| "json_truth (JBool b) = b"
| "json_truth (JInt i) = (i \<noteq> 0)"
| "json_truth (JFloat r) = (r \<noteq> 0)"
| "json_truth (JStr s) = (s \<noteq> [])"
| "json_truth (JArr xs) = (xs \<noteq> [])"
| "json_truth (JObj kvs) = (kvs \<noteq> [])"

text \<open>\<open>{k: v, **kwargs}\<close>: an argument of the same name wins.\<close>

definition dict_merge :: "kwargs \<Rightarrow> kwargs \<Rightarrow> kwargs" where
  "dict_merge d kvs = fold (\<lambda>(k, v). AList.update k v) kvs d"

definition base_execute :: "(kwargs \<Rightarrow> string) \<Rightarrow> block \<Rightarrow> kwargs \<Rightarrow> kwargs" where
  "base_execute repr b ins = map (\<lambda>(k, _). (k, JStr (''Processed '' @ repr ins))) (bl_outputs b)"

definition condition_execute :: "(kwargs \<Rightarrow> json) \<Rightarrow> kwargs \<Rightarrow> kwargs" where
  "condition_execute f ins = [(''condition_result'', f ins)]"

definition loop_execute :: "(kwargs \<Rightarrow> json) \<Rightarrow> string \<Rightarrow> kwargs \<Rightarrow> int \<Rightarrow> kwargs \<times> int" where
  "loop_execute f var ins count =
     (let count' = count + 1
      in ([(''should_continue'', f ins),
           (''iteration'', JObj (dict_merge [(var, JInt count')] ins))], count'))"

definition loop_end_execute :: "kwargs \<Rightarrow> kwargs list \<Rightarrow> kwargs \<times> kwargs list" where
  "loop_end_execute ins results =
     (let results' = results @ [ins] in ([(''loop_results'', JArr (map JObj results'))], results'))"

record 'w control_world =
  cw_counts :: "nat \<Rightarrow> int"
  cw_collected :: "nat \<Rightarrow> kwargs list"
  cw_rest :: 'w

text \<open>One environment from the parts: \<open>cond\<close> may read and change the outside world, as a
  condition function may.\<close>

definition control_env ::
    "(block \<Rightarrow> kwargs \<Rightarrow> 'w \<Rightarrow> json \<times> 'w) \<Rightarrow> (block \<Rightarrow> string) \<Rightarrow>
     (block \<Rightarrow> kwargs \<Rightarrow> 'w \<Rightarrow> (block_exn + kwargs) \<times> 'w) \<Rightarrow> (json, 'w control_world) exec_env" where
  "control_env cond var normal =
     \<lparr>en_execute = (\<lambda>b ins cw.
        case bl_kind b of
          NormalKind \<Rightarrow>
            (let (r, w) = normal b ins (cw_rest cw) in (r, cw\<lparr>cw_rest := w\<rparr>))
        | ConditionKind \<Rightarrow>
            (let (v, w) = cond b ins (cw_rest cw)
             in (Inr (condition_execute (\<lambda>_. v) ins), cw\<lparr>cw_rest := w\<rparr>))
        | LoopKind \<Rightarrow>
            (let (v, w) = cond b ins (cw_rest cw);
                 (outs, n) = loop_execute (\<lambda>_. v) (var b) ins (cw_counts cw (bl_ref b))
             in (Inr outs, cw\<lparr>cw_counts := (cw_counts cw)(bl_ref b := n), cw_rest := w\<rparr>))
        | LoopEndKind \<Rightarrow>
            (let (outs, rs) = loop_end_execute ins (cw_collected cw (bl_ref b))
             in (Inr outs, cw\<lparr>cw_collected := (cw_collected cw)(bl_ref b := rs)\<rparr>))),
      en_truth = json_truth\<rparr>"

section \<open>A loop over an ordinary block\<close>

text \<open>
  A loop whose condition holds twice, its body and a loop end. The body is an ordinary block,
  which runs at most once, so the second iteration does nothing and the loop end collects
  one result.
\<close>

definition demo_loop :: block where
  "demo_loop = \<lparr>bl_ref = 1, bl_name = ''loop'', bl_kind = LoopKind, bl_inputs = [],
     bl_outputs = [demo_out ''iteration'' obj_class]\<rparr>"

definition demo_body :: block where
  "demo_body = (demo_block 2 [demo_port ''x'' obj_class False])\<lparr>bl_name := ''body''\<rparr>"

definition demo_end :: block where
  "demo_end = \<lparr>bl_ref = 3, bl_name = ''end'', bl_kind = LoopEndKind,
     bl_inputs = [demo_port ''y'' obj_class False], bl_outputs = []\<rparr>"

definition demo_loop_workflow :: workflow where
  "demo_loop_workflow = \<lparr>wf_name = ''loop'', wf_id = None, wf_blocks = [demo_loop, demo_body, demo_end],
     wf_wires = [\<lparr>wi_source = demo_loop, wi_output = ''iteration'', wi_target = demo_body, wi_input = ''x''\<rparr>,
       \<lparr>wi_source = demo_body, wi_output = ''out'', wi_target = demo_end, wi_input = ''y''\<rparr>],
     wf_max_time = 0\<rparr>"

definition demo_loop_env :: "(json, nat control_world) exec_env" where
  "demo_loop_env = control_env (\<lambda>b ins n. (JBool (n < 2), Suc n)) (\<lambda>_. ''index'')
     (\<lambda>b ins n. (Inr [(''out'', JInt (int n))], n))"

lemma loop_body_runs_once:
  "map_option (\<lambda>(r, evs, s'). (map (\<lambda>(b, _, _). bl_name b) (ex_calls s'), cw_counts (ex_world s') 1,
      length (cw_collected (ex_world s') 3)))
     (run_workflow 9 False demo_loop_env demo_loop_workflow (successors demo_loop_workflow)
        (new_state \<lparr>cw_counts = \<lambda>_. 0, cw_collected = \<lambda>_. [], cw_rest = 0\<rparr>)) =
   Some ([''loop'', ''body'', ''end'', ''loop'', ''loop''], 3, 1)"
  by code_simp

section \<open>A nullable input that is connected\<close>

text \<open>
  A block with a nullable input connected to an output that was not produced passes the
  readiness check and is then rejected by the collection of its inputs.
\<close>

lemma connected_nullable_input_fails:
  assumes "input_wire wk b n = Some w" "output_of s (wi_source w) (wi_output w) = None"
    and "bl_inputs b = [(n, i)]"
  shows "gather_and_call en wk b s =
    (Inl (BlockFailed (DependsOn (bl_name b) (bl_name (wi_source w)) n)), s)"
  using assms by (simp add: gather_and_call_def gather_inputs_def)

section \<open>A condition with an input\<close>

text \<open>A condition or a loop that gets a value over a wire never decides anything: the engine hands its inputs
  to \<open>run_in_executor\<close> as keywords, and the run ends with a \<open>TypeError\<close> before the block is called.\<close>

lemma control_block_with_input_fails:
  assumes "gather_inputs wk b s = Inr (x # ins)" "bl_kind b = ConditionKind \<or> bl_kind b = LoopKind"
  shows "exec_block (Suc (Suc n)) en wk g b s = Some (Inl (OtherErr ''TypeError''), s)"
  using assms by (auto simp: exec_block.simps gather_and_call_def is_normal_def with_reply_def)

end
