(* ===== verification/Workflow_Validation.thy ===== *)
theory Workflow_Validation
  imports Block_Registry
begin

text \<open>
  The structural check of a workflow draft: \<open>validate_workflow_definition\<close> of
  \<open>workflow/core/workflow/validation.py\<close>, its port and type checks, the search for nodes
  that no entry reaches and the iterative depth-first search for cycles.

  An issue keeps severity, code, node and port; its message is text made of them. The sets of
  the code that are iterated in sorted order are sorted lists here. The unsafe-cycle test on
  \<open>LoopBlock\<close> and \<open>LoopEndBlock\<close> is \<open>bc_kind\<close>.
\<close>

section \<open>Drafts and issues\<close>

record draft_block =
  db_type :: string
  db_name :: string
  db_config :: "json option"
  db_params :: "json option"

record draft_wire =
  dw_source :: string
  dw_output :: string
  dw_target :: string
  dw_input :: string

datatype severity = ErrorSeverity | WarningSeverity

record issue =
  is_severity :: severity
  is_code :: string
  is_node :: "string option"
  is_port :: "string option"

definition mk_issue :: "severity \<Rightarrow> string \<Rightarrow> string option \<Rightarrow> string option \<Rightarrow> issue" where
  "mk_issue sev code node port =
     \<lparr>is_severity = sev, is_code = code, is_node = node, is_port = port\<rparr>"

definition max_cycle_scan_depth :: nat where
  "max_cycle_scan_depth = 10000"

text \<open>\<open>_dynamic_port_names\<close>: the ports a node declares in its own configuration.\<close>

definition draft_config :: "draft_block \<Rightarrow> json" where
  "draft_config b =
     (case db_config b of
        Some c \<Rightarrow> if c \<noteq> JNull then c else case db_params b of Some p \<Rightarrow> p | None \<Rightarrow> JNull
      | None \<Rightarrow> (case db_params b of Some p \<Rightarrow> p | None \<Rightarrow> JNull))"

fun port_name :: "json \<Rightarrow> string option" where
  "port_name (JObj kvs) = Option.bind (map_of kvs ''name'') json_string"
| "port_name _ = None"

definition dynamic_port_names :: "draft_block \<Rightarrow> string \<Rightarrow> string list" where
  "dynamic_port_names b kind =
     (case draft_config b of
        JObj config \<Rightarrow>
          (case map_of config kind of
             Some (JArr declared) \<Rightarrow> sort (remdups (List.map_filter port_name declared))
           | _ \<Rightarrow> [])
      | _ \<Rightarrow> [])"

section \<open>Nodes\<close>

definition set_default :: "string \<Rightarrow> 'v \<Rightarrow> (string \<times> 'v) list \<Rightarrow> (string \<times> 'v) list" where
  "set_default k v kvs = (if map_of kvs k = None then kvs @ [(k, v)] else kvs)"

definition node_issues :: "draft_block list \<Rightarrow> block_registry \<Rightarrow> draft_block \<Rightarrow> issue list" where
  "node_issues blocks reg b =
     (if 1 < count_list (map db_name blocks) (db_name b)
      then [mk_issue ErrorSeverity ''duplicate_node_name'' (Some (db_name b)) None] else []) @
     (if get_block (db_type b) reg = None
      then [mk_issue ErrorSeverity ''unknown_block_type'' (Some (db_name b)) None] else [])"

definition blocks_by_name :: "draft_block list \<Rightarrow> (string \<times> draft_block) list" where
  "blocks_by_name blocks = foldl (\<lambda>m b. set_default (db_name b) b m) [] blocks"

definition block_classes :: "draft_block list \<Rightarrow> block_registry \<Rightarrow> (string \<times> block_class) list" where
  "block_classes blocks reg =
     foldl (\<lambda>m b. case get_block (db_type b) reg of
                    None \<Rightarrow> m
                  | Some c \<Rightarrow> set_default (db_name b) c m) [] blocks"

section \<open>Wires\<close>

type_synonym adjacency = "(string \<times> string list) list"

definition succs :: "adjacency \<Rightarrow> string \<Rightarrow> string list" where
  "succs adj n = (case map_of adj n of Some l \<Rightarrow> l | None \<Rightarrow> [])"

definition add_adjacent :: "string \<Rightarrow> string \<Rightarrow> adjacency \<Rightarrow> adjacency" where
  "add_adjacent s t adj = AList.update s (insort_insert t (succs adj s)) adj"

record wire_scan =
  ws_issues :: "issue list"
  ws_valid_ports :: "(string \<times> string) list"
  ws_incoming :: "string list"
  ws_adjacency :: adjacency
  ws_connected :: "(string \<times> string) list"

definition has_port :: "(string \<times> 'p) list \<Rightarrow> draft_block \<Rightarrow> string \<Rightarrow> string \<Rightarrow> bool" where
  "has_port ports b kind n = (map_of ports n \<noteq> None \<or> n \<in> set (dynamic_port_names b kind))"

definition port_issues ::
    "draft_wire \<Rightarrow> block_class \<Rightarrow> draft_block \<Rightarrow> block_class \<Rightarrow> draft_block \<Rightarrow> issue list" where
  "port_issues w sc sb tc tb =
     (if has_port (bc_outputs sc) sb ''outputs'' (dw_output w) then []
      else [mk_issue ErrorSeverity ''unknown_output_port'' (Some (dw_source w)) (Some (dw_output w))]) @
     (if has_port (bc_inputs tc) tb ''inputs'' (dw_input w) then []
      else [mk_issue ErrorSeverity ''unknown_input_port'' (Some (dw_target w)) (Some (dw_input w))])"

text \<open>The types of both ports when both are declared by the classes; dynamic ports are not
  compared.\<close>

definition static_types :: "draft_wire \<Rightarrow> block_class \<Rightarrow> block_class \<Rightarrow> (string \<times> string) option" where
  "static_types w sc tc =
     (case (map_of (bc_outputs sc) (dw_output w), map_of (bc_inputs tc) (dw_input w)) of
        (Some p, Some i) \<Rightarrow> Some (type_name (out_data_type p), type_name (in_data_type i))
      | _ \<Rightarrow> None)"

definition accept_wire :: "draft_wire \<Rightarrow> wire_scan \<Rightarrow> wire_scan" where
  "accept_wire w ws =
     ws\<lparr>ws_valid_ports := (dw_target w, dw_input w) # ws_valid_ports ws,
        ws_incoming := dw_target w # ws_incoming ws,
        ws_adjacency := add_adjacent (dw_source w) (dw_target w) (ws_adjacency ws)\<rparr>"

definition add_issues :: "issue list \<Rightarrow> wire_scan \<Rightarrow> wire_scan" where
  "add_issues is ws = ws\<lparr>ws_issues := ws_issues ws @ is\<rparr>"

definition connect_wire ::
    "draft_wire \<Rightarrow> block_class \<Rightarrow> block_class \<Rightarrow> wire_scan \<times> block_registry \<Rightarrow> wire_scan \<times> block_registry" where
  "connect_wire w sc tc = (\<lambda>(ws, reg).
     let key = (dw_target w, dw_input w);
         ws1 = (if key \<in> set (ws_connected ws)
                then add_issues [mk_issue ErrorSeverity ''multiple_wires_for_input''
                       (Some (dw_target w)) (Some (dw_input w))] ws
                else ws)\<lparr>ws_connected := key # ws_connected ws\<rparr>
     in case static_types w sc tc of
          None \<Rightarrow> (accept_wire w ws1, reg)
        | Some (s, t) \<Rightarrow>
            (let (fits, reg') = is_type_compatible s t reg
             in if fits then (accept_wire w ws1, reg')
                else (add_issues [mk_issue ErrorSeverity ''incompatible_wire_type''
                        (Some (dw_target w)) (Some (dw_input w))] ws1, reg')))"

definition unknown_node_issues ::
    "(string \<times> draft_block) list \<Rightarrow> draft_wire \<Rightarrow> issue list" where
  "unknown_node_issues nodes w =
     (if map_of nodes (dw_source w) = None
      then [mk_issue ErrorSeverity ''unknown_source_node'' (Some (dw_source w)) (Some (dw_output w))]
      else []) @
     (if map_of nodes (dw_target w) = None
      then [mk_issue ErrorSeverity ''unknown_target_node'' (Some (dw_target w)) (Some (dw_input w))]
      else [])"

definition scan_wire ::
    "(string \<times> draft_block) list \<Rightarrow> (string \<times> block_class) list \<Rightarrow> draft_wire \<Rightarrow>
     wire_scan \<times> block_registry \<Rightarrow> wire_scan \<times> block_registry" where
  "scan_wire nodes classes w = (\<lambda>(ws, reg).
     let ws1 = add_issues (unknown_node_issues nodes w) ws
     in case (map_of nodes (dw_source w), map_of nodes (dw_target w),
              map_of classes (dw_source w), map_of classes (dw_target w)) of
          (Some sb, Some tb, Some sc, Some tc) \<Rightarrow>
            (let bad = port_issues w sc sb tc tb; ws2 = add_issues bad ws1
             in if bad \<noteq> [] then (ws2, reg) else connect_wire w sc tc (ws2, reg))
        | _ \<Rightarrow> (ws1, reg))"

definition scan_wires ::
    "draft_block list \<Rightarrow> draft_wire list \<Rightarrow> block_registry \<Rightarrow> wire_scan \<times> block_registry" where
  "scan_wires blocks wires reg =
     fold (scan_wire (blocks_by_name blocks) (block_classes blocks reg)) wires
       (\<lparr>ws_issues = [], ws_valid_ports = [], ws_incoming = [], ws_adjacency = [],
         ws_connected = []\<rparr>, reg)"

section \<open>Required inputs and entries\<close>

definition missing_inputs ::
    "(string \<times> draft_block) list \<Rightarrow> (string \<times> string) list \<Rightarrow> string \<times> block_class \<Rightarrow> issue list" where
  "missing_inputs nodes valid = (\<lambda>(n, c).
     let missing = (\<lambda>p. mk_issue ErrorSeverity ''missing_required_input'' (Some n) (Some p))
     in map missing
          (map fst (filter (\<lambda>(p, i). \<not> in_nullable i \<and> (n, p) \<notin> set valid) (bc_inputs c))) @
        (case map_of nodes n of
           None \<Rightarrow> []
         | Some b \<Rightarrow> map missing
             (filter (\<lambda>p. (n, p) \<notin> set valid) (dynamic_port_names b ''inputs''))))"

definition entry_names ::
    "(string \<times> draft_block) list \<Rightarrow> (string \<times> block_class) list \<Rightarrow> string list \<Rightarrow> string list" where
  "entry_names nodes classes incoming =
     map fst (filter (\<lambda>(n, c).
       bc_inputs c = [] \<and>
       (case map_of nodes n of None \<Rightarrow> True | Some b \<Rightarrow> dynamic_port_names b ''inputs'' = []) \<and>
       n \<notin> set incoming) classes)"

section \<open>Reachability\<close>

definition targets :: "adjacency \<Rightarrow> string set" where
  "targets adj = (\<Union>l \<in> snd ` set adj. set l)"

lemma finite_targets [simp]: "finite (targets adj)"
  by (simp add: targets_def)

lemma succs_targets: "set (succs adj n) \<subseteq> targets adj"
proof (cases "map_of adj n")
  case (Some l)
  from map_of_SomeD [OF this] have "l \<in> snd ` set adj" by force
  with Some show ?thesis by (auto simp: succs_def targets_def)
qed (simp add: succs_def)

text \<open>The worklist is popped at its end, which is the head of \<open>pending\<close> here.\<close>

function reach :: "adjacency \<Rightarrow> string list \<Rightarrow> string list \<Rightarrow> string list" where
  "reach adj [] reachable = reachable"
| "reach adj (n # pending) reachable =
     (let new = filter (\<lambda>t. t \<notin> set reachable) (remdups (succs adj n))
      in reach adj (rev new @ pending) (reachable @ new))"
  by pat_completeness auto
termination
proof (relation "measures [\<lambda>(adj, _, reachable). card (targets adj - set reachable),
    \<lambda>(_, pending, _). length pending]")
  show "((adj, rev new @ pending, reachable @ new), adj, n # pending, reachable)
      \<in> measures [\<lambda>(adj, _, reachable). card (targets adj - set reachable), \<lambda>(_, pending, _). length pending]"
    if new: "new = filter (\<lambda>t. t \<notin> set reachable) (remdups (succs adj n))"
    for adj n pending reachable new
  proof (cases "new = []")
    case False
    then obtain x where "x \<in> set new" by (cases new) auto
    with new succs_targets [of adj n] have "x \<in> targets adj - set reachable" "x \<in> set new" by auto
    then have "card (targets adj - set (reachable @ new)) < card (targets adj - set reachable)"
      by (intro psubset_card_mono) auto
    then show ?thesis by simp
  qed simp
qed simp

section \<open>Cycles\<close>

record cycle_scan =
  cs_visited :: "string list"
  cs_path :: "string list"
  cs_stack :: "(string \<times> string list) list"
  cs_reported :: "string list list"
  cs_issues :: "issue list"

definition from_first :: "'a \<Rightarrow> 'a list \<Rightarrow> 'a list" where
  "from_first x xs = dropWhile (\<lambda>y. y \<noteq> x) xs"

definition controlled :: "(string \<times> block_class) list \<Rightarrow> string list \<Rightarrow> bool" where
  "controlled classes cycle =
     list_ex (\<lambda>n. case map_of classes n of
                    Some c \<Rightarrow> bc_kind c = LoopKind \<or> bc_kind c = LoopEndKind
                  | None \<Rightarrow> False) cycle"

definition report_cycle ::
    "(string \<times> block_class) list \<Rightarrow> string list \<Rightarrow> string \<Rightarrow> cycle_scan \<Rightarrow> cycle_scan" where
  "report_cycle classes cycle target cs =
     (let key = sort cycle in
      if key \<in> set (cs_reported cs) then cs
      else cs\<lparr>cs_reported := key # cs_reported cs,
              cs_issues := cs_issues cs @
                [if controlled classes cycle
                 then mk_issue WarningSeverity ''controlled_cycle'' (Some target) None
                 else mk_issue ErrorSeverity ''unsafe_cycle'' (Some target) None]\<rparr>)"

text \<open>\<open>active_names\<close> holds the names of \<open>active_path\<close>.\<close>

definition push_node :: "adjacency \<Rightarrow> string \<Rightarrow> cycle_scan \<Rightarrow> cycle_scan" where
  "push_node adj n cs =
     cs\<lparr>cs_visited := n # cs_visited cs, cs_path := cs_path cs @ [n],
        cs_stack := (n, succs adj n) # cs_stack cs\<rparr>"

definition scan_successor ::
    "(string \<times> block_class) list \<Rightarrow> adjacency \<Rightarrow> string \<Rightarrow> cycle_scan \<Rightarrow> cycle_scan" where
  "scan_successor classes adj succ cs =
     (if succ \<in> set (cs_path cs) then report_cycle classes (from_first succ (cs_path cs)) succ cs
      else if succ \<in> set (cs_visited cs) then cs
      else if max_cycle_scan_depth \<le> length (cs_stack cs)
      then cs\<lparr>cs_issues := cs_issues cs @
             [mk_issue WarningSeverity ''cycle_scan_depth_exceeded'' (Some succ) None]\<rparr>
      else push_node adj succ cs)"

definition cycle_step ::
    "(string \<times> block_class) list \<Rightarrow> adjacency \<Rightarrow> cycle_scan \<Rightarrow> cycle_scan" where
  "cycle_step classes adj cs =
     (case cs_stack cs of
        [] \<Rightarrow> cs
      | (n, []) # rest \<Rightarrow> cs\<lparr>cs_stack := rest, cs_path := butlast (cs_path cs)\<rparr>
      | (n, succ # others) # rest \<Rightarrow>
          scan_successor classes adj succ (cs\<lparr>cs_stack := (n, others) # rest\<rparr>))"

text \<open>One \<open>visit\<close> runs until its stack is empty. A step shortens the stacked iterators or
  visits a new node.\<close>

definition stacked :: "cycle_scan \<Rightarrow> string set" where
  "stacked cs = (\<Union>l \<in> snd ` set (cs_stack cs). set l)"

definition stack_size :: "cycle_scan \<Rightarrow> nat" where
  "stack_size cs = sum_list (map (\<lambda>(_, l). Suc (length l)) (cs_stack cs))"

definition unvisited :: "adjacency \<Rightarrow> cycle_scan \<Rightarrow> nat" where
  "unvisited adj cs = card ((targets adj \<union> stacked cs) - set (cs_visited cs))"

lemma finite_stacked [simp]: "finite (stacked cs)"
  by (simp add: stacked_def)

lemma report_cycle_frame [simp]:
  "cs_stack (report_cycle classes c t cs) = cs_stack cs"
  "cs_visited (report_cycle classes c t cs) = cs_visited cs"
  "cs_path (report_cycle classes c t cs) = cs_path cs"
  by (simp_all add: report_cycle_def Let_def)

lemma cycle_step_measure:
  assumes "cs_stack cs \<noteq> []"
  shows "(cycle_step classes adj cs, cs) \<in> measures [unvisited adj, stack_size]"
proof -
  obtain n l rest where stack: "cs_stack cs = (n, l) # rest"
    using assms by (cases "cs_stack cs") auto
  show ?thesis
  proof (cases l)
    case Nil
    let ?cs = "cs\<lparr>cs_stack := rest, cs_path := butlast (cs_path cs)\<rparr>"
    have "unvisited adj ?cs \<le> unvisited adj cs"
      unfolding unvisited_def by (intro card_mono) (auto simp: stacked_def stack Nil)
    moreover have "stack_size ?cs < stack_size cs"
      by (simp add: stack_size_def stack Nil)
    ultimately show ?thesis by (auto simp: cycle_step_def stack Nil)
  next
    case (Cons succ others)
    let ?cs = "cs\<lparr>cs_stack := (n, others) # rest\<rparr>"
    have less: "unvisited adj cs' \<le> unvisited adj cs \<and> stack_size cs' < stack_size cs"
      if "cs_stack cs' = (n, others) # rest" "cs_visited cs' = cs_visited cs" for cs'
      unfolding unvisited_def
      by (intro conjI card_mono) (auto simp: stacked_def stack_size_def stack Cons that)
    show ?thesis
    proof (cases "succ \<in> set (cs_path cs) \<or> succ \<in> set (cs_visited cs) \<or>
        max_cycle_scan_depth \<le> length (cs_stack ?cs)")
      case True
      let ?next = "scan_successor classes adj succ ?cs"
      have "cs_stack ?next = (n, others) # rest" "cs_visited ?next = cs_visited cs"
        using True by (auto simp: scan_successor_def)
      from less [OF this] show ?thesis by (auto simp: cycle_step_def stack Cons)
    next
      case False
      then have new: "scan_successor classes adj succ ?cs = push_node adj succ ?cs"
        by (simp add: scan_successor_def)
      have "unvisited adj (push_node adj succ ?cs) < unvisited adj cs"
        unfolding unvisited_def
      proof (rule psubset_card_mono)
        have "succ \<in> stacked cs" by (simp add: stacked_def stack Cons)
        moreover have "stacked (push_node adj succ ?cs) \<subseteq> targets adj \<union> stacked cs"
          using succs_targets [of adj succ] by (auto simp: stacked_def push_node_def stack Cons)
        ultimately show "targets adj \<union> stacked (push_node adj succ ?cs) -
            set (cs_visited (push_node adj succ ?cs)) \<subset>
            targets adj \<union> stacked cs - set (cs_visited cs)"
          using False by (auto simp: push_node_def)
      qed simp
      then show ?thesis by (simp add: cycle_step_def stack Cons new)
    qed
  qed
qed

function visit_loop ::
    "(string \<times> block_class) list \<Rightarrow> adjacency \<Rightarrow> cycle_scan \<Rightarrow> cycle_scan" where
  "visit_loop classes adj cs =
     (if cs_stack cs = [] then cs else visit_loop classes adj (cycle_step classes adj cs))"
  by pat_completeness auto
termination
  by (relation "inv_image (measures [\<lambda>(adj, cs). unvisited adj cs, \<lambda>(adj, cs). stack_size cs])
        (\<lambda>(_, adj, cs). (adj, cs))")
     (use cycle_step_measure in auto)

declare visit_loop.simps [simp del]

definition visit ::
    "(string \<times> block_class) list \<Rightarrow> adjacency \<Rightarrow> string \<Rightarrow> cycle_scan \<Rightarrow> cycle_scan" where
  "visit classes adj n cs =
     (if n \<in> set (cs_visited cs) then cs
      else visit_loop classes adj (push_node adj n cs))"

definition scan_cycles ::
    "(string \<times> block_class) list \<Rightarrow> adjacency \<Rightarrow> issue list" where
  "scan_cycles classes adj =
     cs_issues (fold (visit classes adj) (map fst classes)
       \<lparr>cs_visited = [], cs_path = [], cs_stack = [], cs_reported = [], cs_issues = []\<rparr>)"

section \<open>The whole check\<close>

definition reach_issues ::
    "(string \<times> block_class) list \<Rightarrow> string list \<Rightarrow> adjacency \<Rightarrow> issue list" where
  "reach_issues classes entries adj =
     (let reachable = reach adj (rev entries) entries in
      (if classes \<noteq> [] \<and> entries = []
       then [mk_issue ErrorSeverity ''no_entry_node'' None None] else []) @
      map (\<lambda>n. mk_issue WarningSeverity ''unreachable_node'' (Some n) None)
        (filter (\<lambda>n. entries \<noteq> [] \<and> n \<notin> set reachable) (map fst classes)))"

definition validate_workflow ::
    "draft_block list \<Rightarrow> draft_wire list \<Rightarrow> block_registry \<Rightarrow> issue list \<times> block_registry" where
  "validate_workflow blocks wires reg =
     (let nodes = blocks_by_name blocks; classes = block_classes blocks reg;
          (ws, reg') = scan_wires blocks wires reg;
          entries = entry_names nodes classes (ws_incoming ws)
      in (concat (map (node_issues blocks reg) blocks) @ ws_issues ws @
          concat (map (missing_inputs nodes (ws_valid_ports ws)) classes) @
          reach_issues classes entries (ws_adjacency ws) @
          scan_cycles classes (ws_adjacency ws), reg'))"

end
