(* ===== verification/Workflow_Cycles.thy ===== *)
theory Workflow_Cycles
  imports Workflow_Validation
begin

text \<open>
  The searches of the structural check: the worklist computes the nodes an entry reaches, and
  a depth-first scan that reports nothing has seen an acyclic graph.
\<close>

section \<open>The worklist\<close>

definition adj_edges :: "adjacency \<Rightarrow> (string \<times> string) set" where
  "adj_edges adj = {(x, y). y \<in> set (succs adj x)}"

lemma reach_sound:
  "set pending \<subseteq> (adj_edges adj)\<^sup>* `` R \<Longrightarrow> set reachable \<subseteq> (adj_edges adj)\<^sup>* `` R \<Longrightarrow>
     set (reach adj pending reachable) \<subseteq> (adj_edges adj)\<^sup>* `` R"
proof (induction adj pending reachable rule: reach.induct)
  case (2 adj n pending reachable)
  have "set (succs adj n) \<subseteq> (adj_edges adj)\<^sup>* `` R"
    using "2.prems"(1) by (auto simp: adj_edges_def intro: rtrancl_into_rtrancl)
  with 2 show ?case by (auto simp: Let_def)
qed simp

definition closed_under :: "adjacency \<Rightarrow> string set \<Rightarrow> bool" where
  "closed_under adj F = (\<forall>x\<in>F. set (succs adj x) \<subseteq> F)"

lemma reach_closed:
  "set pending \<subseteq> set reachable \<Longrightarrow>
     (\<forall>x\<in>set reachable - set pending. set (succs adj x) \<subseteq> set reachable) \<Longrightarrow>
     closed_under adj (set (reach adj pending reachable)) \<and>
     set reachable \<subseteq> set (reach adj pending reachable)"
proof (induction adj pending reachable rule: reach.induct)
  case (2 adj n pending reachable)
  define new where "new = filter (\<lambda>t. t \<notin> set reachable) (remdups (succs adj n))"
  have "set (rev new @ pending) \<subseteq> set (reachable @ new)"
    using "2.prems"(1) by auto
  moreover have "\<forall>x\<in>set (reachable @ new) - set (rev new @ pending).
      set (succs adj x) \<subseteq> set (reachable @ new)"
    using "2.prems" by (auto simp: new_def)
  ultimately show ?case
    using "2.IH" [OF new_def] by (auto simp: new_def Let_def)
qed (simp add: closed_under_def)

lemma closed_under_rtrancl:
  "(x, y) \<in> (adj_edges adj)\<^sup>* \<Longrightarrow> closed_under adj F \<Longrightarrow> x \<in> F \<Longrightarrow> y \<in> F"
  by (induction rule: rtrancl_induct) (auto simp: closed_under_def adj_edges_def)

lemma reach_exact: "set (reach adj (rev entries) entries) = (adj_edges adj)\<^sup>* `` set entries"
proof
  show "set (reach adj (rev entries) entries) \<subseteq> (adj_edges adj)\<^sup>* `` set entries"
    by (rule reach_sound) auto
  have "closed_under adj (set (reach adj (rev entries) entries))"
    and "set entries \<subseteq> set (reach adj (rev entries) entries)"
    using reach_closed [of "rev entries" entries adj] by auto
  then show "(adj_edges adj)\<^sup>* `` set entries \<subseteq> set (reach adj (rev entries) entries)"
    using closed_under_rtrancl by blast
qed

section \<open>The depth-first scan\<close>

definition finished :: "cycle_scan \<Rightarrow> string set" where
  "finished cs = set (cs_visited cs) - set (cs_path cs)"

text \<open>
  Of each frame, the successors taken so far are finished, but for the one of the frame above
  it.
\<close>

fun frames :: "adjacency \<Rightarrow> string set \<Rightarrow> string set \<Rightarrow> (string \<times> string list) list \<Rightarrow> bool" where
  "frames adj F upper [] = True"
| "frames adj F upper ((n, l) # rest) =
     (set (succs adj n) \<subseteq> F \<union> upper \<union> set l \<and> frames adj F {n} rest)"

definition within_edges :: "adjacency \<Rightarrow> string set \<Rightarrow> (string \<times> string) set" where
  "within_edges adj F = {(x, y). x \<in> F \<and> y \<in> set (succs adj x)}"

definition scan_inv :: "adjacency \<Rightarrow> cycle_scan \<Rightarrow> bool" where
  "scan_inv adj cs =
     (map fst (cs_stack cs) = rev (cs_path cs) \<and> distinct (cs_path cs) \<and>
      set (cs_path cs) \<subseteq> set (cs_visited cs) \<and>
      frames adj (finished cs) {} (cs_stack cs) \<and>
      closed_under adj (finished cs) \<and> acyclic (within_edges adj (finished cs)))"

definition silent :: "cycle_scan \<Rightarrow> bool" where
  "silent cs = (cs_issues cs = [] \<and> cs_reported cs = [])"

lemma acyclic_insert_closed:
  assumes "closed_under adj F" "acyclic (within_edges adj F)" "set (succs adj n) \<subseteq> F" "n \<notin> F"
  shows "acyclic (within_edges adj (insert n F))"
proof -
  let ?E = "within_edges adj F" and ?N = "(\<lambda>y. (n, y)) ` set (succs adj n)"
  have split: "within_edges adj (insert n F) = ?E \<union> ?N"
    by (auto simp: within_edges_def)
  have stays: "y \<in> F" if "(x, y) \<in> (?E \<union> ?N)\<^sup>+" "x \<in> insert n F" for x y
    using that assms(1,3)
    by (induction rule: trancl_induct) (auto simp: within_edges_def closed_under_def)
  have old: "(x, y) \<in> ?E\<^sup>+" if "(x, y) \<in> (?E \<union> ?N)\<^sup>+" "x \<in> F" for x y
    using that
  proof (induction rule: trancl_induct)
    case (base y)
    with assms(4) show ?case by auto
  next
    case (step y z)
    from stays [OF step.hyps(1)] step.prems have "y \<in> F" by simp
    with step assms(4) show ?case by (auto intro: trancl_into_trancl)
  qed
  show ?thesis
    unfolding acyclic_def split
  proof (intro allI notI)
    fix x assume cycle: "(x, x) \<in> (?E \<union> ?N)\<^sup>+"
    then obtain y where "(x, y) \<in> ?E \<union> ?N" by (meson tranclD)
    then have x: "x \<in> insert n F" by (auto simp: within_edges_def)
    from stays [OF cycle x] have "x \<in> F" .
    from old [OF cycle this] assms(2) show False by (simp add: acyclic_def)
  qed
qed

lemma frames_mono: "frames adj F upper st \<Longrightarrow> F \<subseteq> G \<Longrightarrow> upper \<subseteq> G \<union> upper' \<Longrightarrow> frames adj G upper' st"
  by (induction adj F upper st arbitrary: upper' rule: frames.induct) auto

lemma scan_push:
  assumes inv: "scan_inv adj cs" and new: "n \<notin> set (cs_visited cs)"
    and room: "frames adj (finished cs) {n} (cs_stack cs)"
  shows "scan_inv adj (push_node adj n cs)"
proof -
  have "finished (push_node adj n cs) = finished cs"
    using new inv by (auto simp: finished_def push_node_def scan_inv_def)
  with inv new room show ?thesis
    by (auto simp: scan_inv_def push_node_def)
qed

lemma scan_pop:
  assumes inv: "scan_inv adj cs" and stack: "cs_stack cs = (n, []) # rest"
  shows "scan_inv adj (cs\<lparr>cs_stack := rest, cs_path := butlast (cs_path cs)\<rparr>)"
proof -
  let ?cs = "cs\<lparr>cs_stack := rest, cs_path := butlast (cs_path cs)\<rparr>"
  from inv stack have "rev (cs_path cs) = n # map fst rest"
    by (simp add: scan_inv_def)
  then obtain p where path: "cs_path cs = p @ [n]" "map fst rest = rev p"
    by (metis rev.simps(2) rev_rev_ident)
  with inv have visited: "n \<in> set (cs_visited cs)" "n \<notin> set p" "distinct p"
      "set p \<subseteq> set (cs_visited cs)"
    by (simp_all add: scan_inv_def)
  have fin: "finished ?cs = insert n (finished cs)"
    using path visited by (auto simp: finished_def)
  have "n \<notin> finished cs" using path by (simp add: finished_def)
  moreover from inv stack have succs: "set (succs adj n) \<subseteq> finished cs"
    and frames: "frames adj (finished cs) {n} rest"
    by (simp_all add: scan_inv_def)
  ultimately have "acyclic (within_edges adj (finished ?cs))"
    using inv unfolding fin by (intro acyclic_insert_closed) (simp_all add: scan_inv_def)
  moreover have "closed_under adj (finished ?cs)"
    using inv succs unfolding fin by (auto simp: scan_inv_def closed_under_def)
  moreover have "frames adj (finished ?cs) {} rest"
    unfolding fin by (rule frames_mono [OF frames]) auto
  ultimately show ?thesis
    using path visited by (simp add: scan_inv_def)
qed

lemma report_not_silent: "silent cs \<Longrightarrow> \<not> silent (report_cycle classes c t cs)"
  by (simp add: silent_def report_cycle_def)

lemma cycle_step_silent:
  assumes inv: "scan_inv adj cs" and silent: "silent cs" "silent (cycle_step classes adj cs)"
  shows "scan_inv adj (cycle_step classes adj cs)"
proof (cases "cs_stack cs")
  case Nil
  with inv show ?thesis by (simp add: cycle_step_def)
next
  case (Cons frame rest)
  obtain n l where frame: "frame = (n, l)" by (cases frame)
  show ?thesis
  proof (cases l)
    case Nil
    with Cons frame scan_pop [OF inv] show ?thesis by (simp add: cycle_step_def)
  next
    fix succ others assume l: "l = succ # others"
    let ?cs = "cs\<lparr>cs_stack := (n, others) # rest\<rparr>"
    have step: "cycle_step classes adj cs = scan_successor classes adj succ ?cs"
      by (simp add: cycle_step_def Cons frame l)
    have fin: "finished ?cs = finished cs" by (simp add: finished_def)
    have succs: "set (succs adj n) \<subseteq> finished cs \<union> set (succ # others)"
      and rest: "frames adj (finished cs) {n} rest"
      using inv by (simp_all add: scan_inv_def Cons frame l)
    have not_path: "succ \<notin> set (cs_path cs)"
    proof
      assume "succ \<in> set (cs_path cs)"
      then have "cycle_step classes adj cs =
          report_cycle classes (from_first succ (cs_path cs)) succ ?cs"
        by (simp add: step scan_successor_def)
      moreover have "silent ?cs" using silent(1) by (simp add: silent_def)
      ultimately show False using report_not_silent silent(2) by metis
    qed
    show ?thesis
    proof (cases "succ \<in> set (cs_visited cs)")
      case True
      with not_path have "succ \<in> finished cs" by (simp add: finished_def)
      with succs rest inv show ?thesis
        by (auto simp: step scan_successor_def not_path True scan_inv_def fin Cons frame)
    next
      case False
      have room: "\<not> max_cycle_scan_depth \<le> length (cs_stack ?cs)"
        using silent(2) by (auto simp: step scan_successor_def not_path False silent_def)
      have "scan_inv adj (push_node adj succ ?cs)"
      proof -
        have "finished (push_node adj succ ?cs) = finished cs"
          using False inv by (auto simp: finished_def push_node_def scan_inv_def)
        with inv False not_path succs rest show ?thesis
          by (auto simp: scan_inv_def push_node_def Cons frame)
      qed
      with room show ?thesis
        by (simp add: step scan_successor_def not_path False)
    qed
  qed
qed

text \<open>Issues are only ever appended, and a reported cycle is an issue.\<close>

definition reports :: "cycle_scan \<Rightarrow> bool" where
  "reports cs = (cs_issues cs = [] \<longrightarrow> cs_reported cs = [])"

lemma cycle_step_issues:
  "\<exists>more. cs_issues (cycle_step classes adj cs) = cs_issues cs @ more"
  by (auto simp: cycle_step_def scan_successor_def report_cycle_def push_node_def Let_def
      split: list.splits prod.splits)

lemma cycle_step_reports: "reports cs \<Longrightarrow> reports (cycle_step classes adj cs)"
  by (auto simp: reports_def cycle_step_def scan_successor_def report_cycle_def push_node_def Let_def
      split: list.splits prod.splits)

lemma visit_loop_issues:
  "\<exists>more. cs_issues (visit_loop classes adj cs) = cs_issues cs @ more"
proof (induction classes adj cs rule: visit_loop.induct)
  case (1 classes adj cs)
  show ?case
  proof (cases "cs_stack cs = []")
    case False
    with 1 cycle_step_issues [of classes adj cs] show ?thesis
      by (subst visit_loop.simps) auto
  qed (simp add: visit_loop.simps)
qed

lemma visit_loop_silent:
  "scan_inv adj cs \<Longrightarrow> reports cs \<Longrightarrow> cs_issues (visit_loop classes adj cs) = [] \<Longrightarrow>
     scan_inv adj (visit_loop classes adj cs) \<and> reports (visit_loop classes adj cs) \<and>
     cs_stack (visit_loop classes adj cs) = []"
proof (induction classes adj cs rule: visit_loop.induct)
  case (1 classes adj cs)
  show ?case
  proof (cases "cs_stack cs = []")
    case True
    with 1 show ?thesis by (simp add: visit_loop.simps)
  next
    case False
    then have loop: "visit_loop classes adj cs = visit_loop classes adj (cycle_step classes adj cs)"
      by (subst visit_loop.simps) simp
    with 1(4) visit_loop_issues [of classes adj "cycle_step classes adj cs"]
    have "cs_issues (cycle_step classes adj cs) = []" by auto
    moreover from this cycle_step_issues [of classes adj cs] have "cs_issues cs = []" by auto
    ultimately have "silent cs" "silent (cycle_step classes adj cs)"
      using 1(3) cycle_step_reports [OF 1(3), of classes adj] by (simp_all add: silent_def reports_def)
    from 1(1) [OF False cycle_step_silent [OF 1(2) this] cycle_step_reports [OF 1(3)]] 1(4) loop
    show ?thesis by simp
  qed
qed

lemma visited_grows:
  "set (cs_visited cs) \<subseteq> set (cs_visited (visit_loop classes adj cs))"
proof (induction classes adj cs rule: visit_loop.induct)
  case (1 classes adj cs)
  have "set (cs_visited cs) \<subseteq> set (cs_visited (cycle_step classes adj cs))"
    by (auto simp: cycle_step_def scan_successor_def push_node_def split: list.splits)
  with 1 show ?case
    by (cases "cs_stack cs = []") (simp_all add: visit_loop.simps [of classes adj cs])
qed

definition settled_scan :: "adjacency \<Rightarrow> cycle_scan \<Rightarrow> bool" where
  "settled_scan adj cs = (scan_inv adj cs \<and> reports cs \<and> cs_stack cs = [])"

lemma settled_path: "settled_scan adj cs \<Longrightarrow> cs_path cs = [] \<and> finished cs = set (cs_visited cs)"
  by (auto simp: settled_scan_def scan_inv_def finished_def)

lemma visit_issues: "\<exists>more. cs_issues (visit classes adj n cs) = cs_issues cs @ more"
  using visit_loop_issues [of classes adj "push_node adj n cs"]
  by (simp add: visit_def) (simp add: push_node_def)

lemma visit_settled:
  assumes "settled_scan adj cs" "cs_issues (visit classes adj n cs) = []"
  shows "settled_scan adj (visit classes adj n cs) \<and>
    insert n (set (cs_visited cs)) \<subseteq> set (cs_visited (visit classes adj n cs))"
proof (cases "n \<in> set (cs_visited cs)")
  case True
  with assms show ?thesis by (auto simp: visit_def)
next
  case False
  have "scan_inv adj (push_node adj n cs)"
    by (rule scan_push) (use assms(1) False in \<open>simp_all add: settled_scan_def\<close>)
  moreover have "reports (push_node adj n cs)"
    using assms(1) by (simp add: settled_scan_def reports_def push_node_def)
  ultimately show ?thesis
    using False assms(2) visit_loop_silent [of adj "push_node adj n cs" classes]
      visited_grows [of "push_node adj n cs" classes adj]
    by (simp add: visit_def settled_scan_def) (simp add: push_node_def)
qed

lemma visits_issues: "\<exists>more. cs_issues (fold (visit classes adj) ns cs) = cs_issues cs @ more"
proof (induction ns arbitrary: cs)
  case (Cons n ns)
  from visit_issues [of classes adj n cs] Cons [of "visit classes adj n cs"] show ?case by auto
qed simp

lemma visits_settled:
  "settled_scan adj cs \<Longrightarrow> cs_issues (fold (visit classes adj) ns cs) = [] \<Longrightarrow>
     settled_scan adj (fold (visit classes adj) ns cs) \<and>
     set ns \<union> set (cs_visited cs) \<subseteq> set (cs_visited (fold (visit classes adj) ns cs))"
proof (induction ns arbitrary: cs)
  case (Cons n ns)
  from Cons.prems(2) visits_issues [of classes adj ns "visit classes adj n cs"]
  have "cs_issues (visit classes adj n cs) = []" by auto
  from visit_settled [OF Cons.prems(1) this] Cons.IH [of "visit classes adj n cs"] Cons.prems(2)
  show ?case by auto
qed simp

text \<open>A scan without issues has visited a set that no edge leaves and no cycle lies in.\<close>

lemma silent_scan_is_acyclic:
  assumes "scan_cycles classes adj = []"
  shows "\<exists>F. fst ` set classes \<subseteq> F \<and> closed_under adj F \<and> acyclic (within_edges adj F)"
proof -
  let ?start = "\<lparr>cs_visited = [], cs_path = [], cs_stack = [], cs_reported = [], cs_issues = []\<rparr>"
  have "settled_scan adj ?start"
    by (simp add: settled_scan_def scan_inv_def finished_def reports_def closed_under_def
        within_edges_def acyclic_def)
  from visits_settled [OF this, of classes "map fst classes"] assms
  obtain cs where "settled_scan adj cs" "fst ` set classes \<subseteq> set (cs_visited cs)"
    by (auto simp: scan_cycles_def)
  with settled_path [of adj cs] show ?thesis
    unfolding settled_scan_def scan_inv_def by metis
qed

end
