(* ===== verification/Workflow_Builder.thy ===== *)
theory Workflow_Builder
  imports Workflow_Exec
begin

text \<open>
  The workflow builder: \<open>WorkflowBuilder\<close> of \<open>workflow/core/workflow/builder.py\<close>, its
  fluent operations, \<open>build\<close>, and the document it writes to and reads from a file.

  Nodes refer to each other by their position in \<open>nodes\<close>. Values of constructor arguments are
  the parameter \<open>'p\<close>; \<open>make_ports\<close> is the constructor of a block class, which is plugin code,
  called when the arguments fit the signature. A document stands for the YAML text of it.
\<close>

section \<open>State\<close>

record 'p block_spec =
  sp_class :: block_class
  sp_name :: string
  sp_kwargs :: "(string \<times> 'p) list"
  sp_wire_from :: "string list"

record 'p node =
  nd_spec :: "'p block_spec"
  nd_name :: string
  nd_parallel :: bool
  nd_conditional :: bool
  nd_loop :: bool
  nd_condition :: "'p option"
  nd_parent :: "nat option"
  nd_next :: "nat list"
  nd_group :: "nat list"
  nd_merge :: "nat option"
  nd_position :: "(string \<times> int) list option"

text \<open>Source node, source output, target node, target input.\<close>

type_synonym wire_spec = "string \<times> string \<times> string \<times> string"

record 'p builder =
  wb_id :: "string option"
  wb_name :: string
  wb_description :: string
  wb_metadata :: "'p option"
  wb_head :: "nat option"
  wb_current :: "nat option"
  wb_nodes :: "'p node list"
  wb_by_name :: "(string \<times> nat) list"
  wb_wires :: "wire_spec list"
  wb_config :: int

datatype builder_error =
    StillDrawing
  | InvalidSpec
  | ElseWithoutIf
  | EndIfWithoutIf
  | EndLoopWithoutLoop
  | NoCurrent
  | NoSuchNode string
  | UnknownBlock string
  | CallConflict string
  | CreateFailed string

definition new_builder :: "string \<Rightarrow> 'p builder" where
  "new_builder name =
     \<lparr>wb_id = None, wb_name = name, wb_description = [], wb_metadata = None, wb_head = None,
      wb_current = None, wb_nodes = [], wb_by_name = [], wb_wires = [], wb_config = 3600\<rparr>"

definition new_node :: "'p block_spec \<Rightarrow> 'p node" where
  "new_node spec =
     \<lparr>nd_spec = spec, nd_name = sp_name spec, nd_parallel = False, nd_conditional = False,
      nd_loop = False, nd_condition = None, nd_parent = None, nd_next = [], nd_group = [],
      nd_merge = None, nd_position = None\<rparr>"

definition change_node :: "nat \<Rightarrow> ('p node \<Rightarrow> 'p node) \<Rightarrow> 'p builder \<Rightarrow> 'p builder" where
  "change_node i f b = b\<lparr>wb_nodes := (wb_nodes b)[i := f (wb_nodes b ! i)]\<rparr>"

section \<open>Names and automatic wiring\<close>

text \<open>The random suffixes are drawn until the name is free.\<close>

definition generate_unique_name :: "string list \<Rightarrow> string \<Rightarrow> 'p builder \<Rightarrow> builder_error + string" where
  "generate_unique_name draws base b =
     (case List.find (\<lambda>n. map_of (wb_by_name b) n = None) (map (\<lambda>d. base @ ''_'' @ d) draws) of
        None \<Rightarrow> Inl StillDrawing
      | Some n \<Rightarrow> Inr n)"

definition available_inputs :: "'p node \<Rightarrow> 'p builder \<Rightarrow> string list" where
  "available_inputs n b =
     (let connected = map (\<lambda>(_, _, _, i). i) (filter (\<lambda>(_, _, t, _). t = nd_name n) (wb_wires b))
      in filter (\<lambda>i. i \<notin> set connected) (map fst (bc_inputs (sp_class (nd_spec n)))))"

fun match_ports ::
    "(string \<times> block_output) list \<Rightarrow> (string \<times> block_input) list \<Rightarrow> (string \<times> string) list" where
  "match_ports [] ins = []"
| "match_ports ((out, p) # outs) ins =
     (case List.find (\<lambda>(_, i). out_data_type p = in_data_type i) ins of
        None \<Rightarrow> match_ports outs ins
      | Some (n, _) \<Rightarrow> (out, n) # match_ports outs (filter (\<lambda>(m, _). m \<noteq> n) ins))"

definition find_matching_ports :: "'p node \<Rightarrow> 'p node \<Rightarrow> string list \<Rightarrow> (string \<times> string) list" where
  "find_matching_ports source target available =
     match_ports (bc_outputs (sp_class (nd_spec source)))
       (filter (\<lambda>(n, _). n \<in> set available) (bc_inputs (sp_class (nd_spec target))))"

definition store_wire_spec ::
    "string \<Rightarrow> string \<Rightarrow> 'p node \<Rightarrow> 'p node \<Rightarrow> 'p builder \<Rightarrow> 'p builder" where
  "store_wire_spec source_name target_name source target b =
     (let available = available_inputs target b in
      if available = [] then b
      else b\<lparr>wb_wires := wb_wires b @
             map (\<lambda>(out, i). (source_name, out, target_name, i))
               (find_matching_ports source target available)\<rparr>)"

definition add_node :: "'p node \<Rightarrow> 'p builder \<Rightarrow> nat \<times> 'p builder" where
  "add_node n b =
     (length (wb_nodes b),
      b\<lparr>wb_nodes := wb_nodes b @ [n],
        wb_by_name := AList.update (nd_name n) (length (wb_nodes b)) (wb_by_name b)\<rparr>)"

definition wire_new_node :: "'p block_spec \<Rightarrow> 'p node \<Rightarrow> 'p builder \<Rightarrow> 'p builder" where
  "wire_new_node spec n b =
     (if sp_wire_from spec \<noteq> [] then
        fold (\<lambda>source b. case map_of (wb_by_name b) source of
                None \<Rightarrow> b
              | Some i \<Rightarrow> store_wire_spec (nd_name (wb_nodes b ! i)) (nd_name n) (wb_nodes b ! i) n b)
          (sp_wire_from spec) b
      else
        case wb_current b of
          None \<Rightarrow> b
        | Some i \<Rightarrow> store_wire_spec (nd_name (wb_nodes b ! i)) (nd_name n) (wb_nodes b ! i) n b)"

definition create_node ::
    "string list \<Rightarrow> 'p block_spec \<Rightarrow> bool \<Rightarrow> 'p builder \<Rightarrow> builder_error + nat \<times> 'p builder" where
  "create_node draws spec parallel b =
     (case (if sp_name spec \<noteq> [] then Inr (sp_name spec)
            else generate_unique_name draws (bc_name (sp_class spec)) b) of
        Inl e \<Rightarrow> Inl e
      | Inr name \<Rightarrow>
          (let n = (new_node (spec\<lparr>sp_name := name\<rparr>))\<lparr>nd_parallel := parallel\<rparr>;
               (i, b') = add_node n b
           in Inr (i, wire_new_node spec n b')))"

section \<open>The fluent operations\<close>

definition use_block ::
    "string list \<Rightarrow> block_class \<Rightarrow> string option \<Rightarrow> (string \<times> 'p) list \<Rightarrow> 'p builder \<Rightarrow>
     builder_error + 'p builder" where
  "use_block draws c name kwargs b =
     (case create_node draws \<lparr>sp_class = c, sp_name = (case name of Some n \<Rightarrow> n | None \<Rightarrow> []),
              sp_kwargs = kwargs, sp_wire_from = []\<rparr> False b of
        Inl e \<Rightarrow> Inl e
      | Inr (i, b') \<Rightarrow> Inr (b'\<lparr>wb_head := Some i, wb_current := Some i\<rparr>))"

definition link_to_current :: "nat \<Rightarrow> 'p builder \<Rightarrow> 'p builder" where
  "link_to_current i b =
     (case wb_current b of
        None \<Rightarrow> b
      | Some j \<Rightarrow>
          change_node i (\<lambda>n. n\<lparr>nd_parent := Some j\<rparr>)
            (change_node j (\<lambda>n. n\<lparr>nd_next := nd_next n @ [i]\<rparr>) b))"

definition chain_block ::
    "string list \<Rightarrow> block_class \<Rightarrow> string option \<Rightarrow> string list \<Rightarrow> (string \<times> 'p) list \<Rightarrow> 'p builder \<Rightarrow>
     builder_error + 'p builder" where
  "chain_block draws c name wire_from kwargs b =
     (case create_node draws \<lparr>sp_class = c, sp_name = (case name of Some n \<Rightarrow> n | None \<Rightarrow> []),
              sp_kwargs = kwargs, sp_wire_from = wire_from\<rparr> False b of
        Inl e \<Rightarrow> Inl e
      | Inr (i, b') \<Rightarrow> Inr ((link_to_current i b')\<lparr>wb_current := Some i\<rparr>))"

text \<open>The formats \<open>_parse_block_spec\<close> tells apart.\<close>

datatype 'p raw_spec =
    JustClass block_class
  | ClassName block_class string
  | ClassKwargs block_class "(string \<times> 'p) list"
  | ClassNameKwargs block_class string "(string \<times> 'p) list"
  | ClassKwargsFrom block_class "(string \<times> 'p) list" "string list"
  | FullSpec block_class string "(string \<times> 'p) list" "string list"
  | OtherSpec

fun parse_block_spec :: "'p raw_spec \<Rightarrow> builder_error + 'p block_spec" where
  "parse_block_spec (JustClass c) = Inr \<lparr>sp_class = c, sp_name = [], sp_kwargs = [], sp_wire_from = []\<rparr>"
| "parse_block_spec (ClassName c n) = Inr \<lparr>sp_class = c, sp_name = n, sp_kwargs = [], sp_wire_from = []\<rparr>"
| "parse_block_spec (ClassKwargs c k) = Inr \<lparr>sp_class = c, sp_name = [], sp_kwargs = k, sp_wire_from = []\<rparr>"
| "parse_block_spec (ClassNameKwargs c n k) = Inr \<lparr>sp_class = c, sp_name = n, sp_kwargs = k, sp_wire_from = []\<rparr>"
| "parse_block_spec (ClassKwargsFrom c k w) = Inr \<lparr>sp_class = c, sp_name = [], sp_kwargs = k, sp_wire_from = w\<rparr>"
| "parse_block_spec (FullSpec c n k w) = Inr \<lparr>sp_class = c, sp_name = n, sp_kwargs = k, sp_wire_from = w\<rparr>"
| "parse_block_spec OtherSpec = Inl InvalidSpec"

text \<open>The nodes of a parallel group are wired from the node before the group; an exception
  leaves the nodes that were already created.\<close>

fun parallel_nodes ::
    "string list \<Rightarrow> 'p raw_spec list \<Rightarrow> 'p builder \<Rightarrow> (builder_error + nat list) \<times> 'p builder" where
  "parallel_nodes draws [] b = (Inr [], b)"
| "parallel_nodes draws (r # rs) b =
     (case parse_block_spec r of
        Inl e \<Rightarrow> (Inl e, b)
      | Inr spec \<Rightarrow>
          (case create_node draws spec True b of
             Inl e \<Rightarrow> (Inl e, b)
           | Inr (i, b1) \<Rightarrow>
               (let b2 = change_node i (\<lambda>n. n\<lparr>nd_parent := wb_current b\<rparr>) b1;
                    (ids, b3) = parallel_nodes draws rs b2
                in (case ids of Inl e \<Rightarrow> Inl e | Inr ids \<Rightarrow> Inr (i # ids), b3))))"

definition parallel_blocks ::
    "string list \<Rightarrow> 'p raw_spec list \<Rightarrow> 'p builder \<Rightarrow> builder_error + 'p builder" where
  "parallel_blocks draws specs b =
     (case parallel_nodes draws specs b of
        (Inl e, _) \<Rightarrow> Inl e
      | (Inr ids, b1) \<Rightarrow>
          (let b2 = (case wb_current b1 of
                       None \<Rightarrow> b1
                     | Some j \<Rightarrow> change_node j (\<lambda>n. n\<lparr>nd_next := nd_next n @ ids\<rparr>) b1)
           in case ids of
                [] \<Rightarrow> Inl InvalidSpec
              | i # _ \<Rightarrow> Inr (change_node i (\<lambda>n. n\<lparr>nd_group := ids\<rparr>) (b2\<lparr>wb_current := Some i\<rparr>))))"

definition condition_block :: "'p \<Rightarrow> 'p builder \<Rightarrow> builder_error + 'p builder" where
  "condition_block f b =
     (case wb_current b of
        None \<Rightarrow> Inl NoCurrent
      | Some i \<Rightarrow> Inr (change_node i (\<lambda>n. n\<lparr>nd_condition := Some f\<rparr>) b))"

text \<open>The common part of \<open>if_then\<close>, \<open>loop\<close> and \<open>end_loop\<close>: the node joins the table, is wired
  under the name \<open>output\<close>, and becomes the current one.\<close>

definition control_node ::
    "bool \<Rightarrow> 'p node \<Rightarrow> 'p builder \<Rightarrow> nat \<times> 'p builder" where
  "control_node linked n b =
     (let (i, b1) = add_node n b in
      case wb_current b of
        None \<Rightarrow> (i, b1)
      | Some j \<Rightarrow>
          (let b2 = store_wire_spec (nd_name (wb_nodes b1 ! j)) ''output'' (wb_nodes b1 ! j) n b1;
               b3 = (if linked then change_node j (\<lambda>m. m\<lparr>nd_next := nd_next m @ [i]\<rparr>) b2 else b2)
           in (i, change_node i (\<lambda>m. m\<lparr>nd_parent := Some j\<rparr>) b3)))"

definition named :: "string list \<Rightarrow> string option \<Rightarrow> string \<Rightarrow> 'p builder \<Rightarrow> builder_error + string" where
  "named draws name base b =
     (case name of
        Some n \<Rightarrow> if n \<noteq> [] then Inr n else generate_unique_name draws base b
      | None \<Rightarrow> generate_unique_name draws base b)"

text \<open>\<open>cond_class\<close>, \<open>loop_class\<close> and \<open>end_class\<close> are the control classes of \<open>block/base.py\<close>;
  \<open>no_outputs\<close> is the empty dictionary.\<close>

definition if_then ::
    "string list \<Rightarrow> block_class \<Rightarrow> 'p \<Rightarrow> 'p \<Rightarrow> string option \<Rightarrow> 'p builder \<Rightarrow> builder_error + 'p builder" where
  "if_then draws cond_class no_outputs f name b =
     (case named draws name ''condition'' b of
        Inl e \<Rightarrow> Inl e
      | Inr n \<Rightarrow>
          (let spec = \<lparr>sp_class = cond_class, sp_name = n,
                       sp_kwargs = [(''condition'', f), (''outputs'', no_outputs)], sp_wire_from = []\<rparr>;
               (i, b') = control_node True ((new_node spec)\<lparr>nd_conditional := True\<rparr>) b
           in Inr (b'\<lparr>wb_current := Some i\<rparr>)))"

definition current_node :: "'p builder \<Rightarrow> 'p node option" where
  "current_node b = map_option (\<lambda>i. wb_nodes b ! i) (wb_current b)"

definition else_then :: "'p builder \<Rightarrow> builder_error + 'p builder" where
  "else_then b =
     (case current_node b of
        None \<Rightarrow> Inl ElseWithoutIf
      | Some n \<Rightarrow> if \<not> nd_conditional n then Inl ElseWithoutIf
                  else Inr (b\<lparr>wb_current := nd_parent n\<rparr>))"

definition end_if :: "'p builder \<Rightarrow> builder_error + 'p builder" where
  "end_if b =
     (case current_node b of
        None \<Rightarrow> Inl EndIfWithoutIf
      | Some n \<Rightarrow> if \<not> nd_conditional n then Inl EndIfWithoutIf
                  else Inr (case nd_merge n of
                              None \<Rightarrow> b
                            | Some m \<Rightarrow> b\<lparr>wb_current := Some m\<rparr>))"

definition loop_block ::
    "string list \<Rightarrow> block_class \<Rightarrow> 'p \<Rightarrow> ('p \<times> 'p) \<Rightarrow> string option \<Rightarrow> 'p builder \<Rightarrow>
     builder_error + 'p builder" where
  "loop_block draws loop_class no_outputs = (\<lambda>(f, var) name b.
     case named draws name ''loop'' b of
        Inl e \<Rightarrow> Inl e
      | Inr n \<Rightarrow>
          (let spec = \<lparr>sp_class = loop_class, sp_name = n,
                       sp_kwargs = [(''condition'', f), (''outputs'', no_outputs), (''iteration_var'', var)],
                       sp_wire_from = []\<rparr>;
               (i, b') = control_node True ((new_node spec)\<lparr>nd_loop := True\<rparr>) b
           in Inr (b'\<lparr>wb_current := Some i\<rparr>)))"

text \<open>A parent is older than its node, so the chain of parents ends within the table.\<close>

fun ancestors :: "nat \<Rightarrow> 'p builder \<Rightarrow> nat \<Rightarrow> nat list" where
  "ancestors 0 b i = []"
| "ancestors (Suc n) b i =
     (case nd_parent (wb_nodes b ! i) of
        None \<Rightarrow> []
      | Some j \<Rightarrow> j # ancestors n b j)"

definition loop_ancestor :: "'p builder \<Rightarrow> nat \<Rightarrow> nat option" where
  "loop_ancestor b i =
     List.find (\<lambda>j. nd_loop (wb_nodes b ! j)) (ancestors (length (wb_nodes b)) b i)"

definition end_loop ::
    "string list \<Rightarrow> block_class \<Rightarrow> 'p \<Rightarrow> 'p builder \<Rightarrow> builder_error + 'p builder" where
  "end_loop draws end_class no_outputs b =
     (case wb_current b of
        None \<Rightarrow> Inl EndLoopWithoutLoop
      | Some j \<Rightarrow>
          (case loop_ancestor b j of
             None \<Rightarrow> Inl EndLoopWithoutLoop
           | Some l \<Rightarrow>
               (case generate_unique_name draws ''loop_end'' b of
                  Inl e \<Rightarrow> Inl e
                | Inr n \<Rightarrow>
                    (let spec = \<lparr>sp_class = end_class, sp_name = n,
                                 sp_kwargs = [(''outputs'', no_outputs)], sp_wire_from = []\<rparr>;
                         nd = new_node spec;
                         (i, b') = control_node False nd b;
                         b'' = store_wire_spec n ''output'' (wb_nodes b' ! l) nd b'
                     in Inr (b''\<lparr>wb_current := Some i\<rparr>)))))"

definition set_config :: "int \<Rightarrow> 'p builder \<Rightarrow> 'p builder" where
  "set_config c b = b\<lparr>wb_config := c\<rparr>"

definition force_connect :: "wire_spec \<Rightarrow> 'p builder \<Rightarrow> 'p builder" where
  "force_connect w b = b\<lparr>wb_wires := wb_wires b @ [w]\<rparr>"

definition update_position ::
    "string \<Rightarrow> (string \<times> int) list \<Rightarrow> 'p builder \<Rightarrow> builder_error + 'p builder" where
  "update_position name pos b =
     (case map_of (wb_by_name b) name of
        None \<Rightarrow> Inl (NoSuchNode name)
      | Some i \<Rightarrow> Inr (change_node i (\<lambda>n. n\<lparr>nd_position := Some pos\<rparr>) b))"

fun find_parallel_nodes :: "nat \<Rightarrow> 'p builder \<Rightarrow> nat \<Rightarrow> nat list" where
  "find_parallel_nodes 0 b i = []"
| "find_parallel_nodes (Suc n) b i =
     (if nd_parallel (wb_nodes b ! i) then nd_group (wb_nodes b ! i) else []) @
     (case nd_next (wb_nodes b ! i) of [] \<Rightarrow> [] | j # _ \<Rightarrow> find_parallel_nodes n b j)"

section \<open>Building\<close>

text \<open>
  Python rejects a call whose keywords are not parameters or that leaves a parameter without a
  default open; otherwise the constructor runs.
\<close>

definition signature_accepts :: "block_class \<Rightarrow> (string \<times> 'p) list \<Rightarrow> bool" where
  "signature_accepts c kwargs =
     (list_all (\<lambda>(k, _). k \<in> ip_name ` set (bc_params c)) kwargs \<and>
      list_all (\<lambda>p. ip_name p = ''self'' \<or> ip_default p \<noteq> None \<or> ip_name p \<in> fst ` set kwargs)
        (bc_params c))"

type_synonym ports = "(string \<times> block_input) list \<times> (string \<times> block_output) list"

text \<open>\<open>make_ports\<close> gives the ports of the new instance, \<open>None\<close> when the constructor raises.\<close>

definition instantiate ::
    "(block_class \<Rightarrow> (string \<times> 'p) list \<Rightarrow> ports option) \<Rightarrow> nat \<Rightarrow> 'p node \<Rightarrow> builder_error + block" where
  "instantiate make_ports i n =
     (let c = sp_class (nd_spec n); failed = Inl (CreateFailed (bc_name c)) in
      if \<not> signature_accepts c (sp_kwargs (nd_spec n)) then failed
      else case make_ports c (sp_kwargs (nd_spec n)) of
             None \<Rightarrow> failed
           | Some (ins, outs) \<Rightarrow>
               Inr \<lparr>bl_ref = i, bl_name = nd_name n, bl_kind = bc_kind c, bl_inputs = ins,
                    bl_outputs = outs\<rparr>)"

text \<open>A condition or a loop gets the outputs of the node before it as a keyword. (The code also
  leaves that keyword in the node, where the next build overwrites it.)\<close>

definition pass_outputs ::
    "((string \<times> block_output) list \<Rightarrow> 'p) \<Rightarrow> 'p node list \<Rightarrow> 'p node \<Rightarrow> 'p node" where
  "pass_outputs outputs_value nodes n =
     (if nd_conditional n \<or> nd_loop n then
        case nd_parent n of
          None \<Rightarrow> n
        | Some j \<Rightarrow>
            n\<lparr>nd_spec := (nd_spec n)\<lparr>sp_kwargs := AList.update ''outputs''
                (outputs_value (bc_outputs (sp_class (nd_spec (nodes ! j))))) (sp_kwargs (nd_spec n))\<rparr>\<rparr>
      else n)"

fun build_blocks ::
    "(block_class \<Rightarrow> (string \<times> 'p) list \<Rightarrow> ports option) \<Rightarrow>
     ((string \<times> block_output) list \<Rightarrow> 'p) \<Rightarrow> 'p node list \<Rightarrow> nat \<Rightarrow> 'p node list \<Rightarrow>
     builder_error + block list" where
  "build_blocks make_ports outputs_value nodes i [] = Inr []"
| "build_blocks make_ports outputs_value nodes i (n # ns) =
     (case instantiate make_ports i (pass_outputs outputs_value nodes n) of
        Inl e \<Rightarrow> Inl e
      | Inr b \<Rightarrow>
          (case build_blocks make_ports outputs_value nodes (Suc i) ns of
             Inl e \<Rightarrow> Inl e
           | Inr bs \<Rightarrow> Inr (b # bs)))"

text \<open>\<open>name_to_block\<close>: the last block of a name.\<close>

definition block_named :: "block list \<Rightarrow> string \<Rightarrow> block option" where
  "block_named bs n = List.find (\<lambda>b. bl_name b = n) (rev bs)"

definition build_wires :: "block list \<Rightarrow> wire_spec list \<Rightarrow> wire list" where
  "build_wires bs ws =
     List.map_filter (\<lambda>(s, out, t, inp).
       case (block_named bs s, block_named bs t) of
         (Some a, Some b) \<Rightarrow>
           Some \<lparr>wi_source = a, wi_output = out, wi_target = b, wi_input = inp\<rparr>
       | _ \<Rightarrow> None) ws"

definition build_workflow ::
    "(block_class \<Rightarrow> (string \<times> 'p) list \<Rightarrow> ports option) \<Rightarrow>
     ((string \<times> block_output) list \<Rightarrow> 'p) \<Rightarrow> 'p builder \<Rightarrow> builder_error + workflow" where
  "build_workflow make_ports outputs_value b =
     (case build_blocks make_ports outputs_value (wb_nodes b) 0 (wb_nodes b) of
        Inl e \<Rightarrow> Inl e
      | Inr bs \<Rightarrow>
          Inr \<lparr>wf_name = wb_name b, wf_id = wb_id b, wf_blocks = bs,
               wf_wires = build_wires bs (wb_wires b), wf_max_time = wb_config b\<rparr>)"

section \<open>The document\<close>

record 'p block_doc =
  bd_type :: string
  bd_name :: string
  bd_params :: "(string \<times> 'p) list"
  bd_position :: "(string \<times> int) list option"
  bd_parallel :: bool
  bd_connected :: "(string \<times> string \<times> string) list"

record 'p workflow_doc =
  wd_name :: string
  wd_description :: string
  wd_metadata :: "'p option"
  wd_blocks :: "'p block_doc list"
  wd_config :: int

text \<open>The connections of a node: target, output, input, in the order of the wires.\<close>

definition connections :: "'p builder \<Rightarrow> 'p node \<Rightarrow> (string \<times> string \<times> string) list" where
  "connections b n =
     List.map_filter (\<lambda>(s, out, t, inp).
       if s = nd_name n \<and> map_of (wb_by_name b) t \<noteq> None then Some (t, out, inp) else None) (wb_wires b)"

definition serialize_node :: "block_registry \<Rightarrow> 'p builder \<Rightarrow> 'p node \<Rightarrow> 'p block_doc" where
  "serialize_node reg b n =
     \<lparr>bd_type = get_block_type_name (sp_class (nd_spec n)) reg, bd_name = nd_name n,
      bd_params = sp_kwargs (nd_spec n), bd_position = nd_position n, bd_parallel = nd_parallel n,
      bd_connected = connections b n\<rparr>"

definition save_document :: "block_registry \<Rightarrow> 'p builder \<Rightarrow> 'p workflow_doc" where
  "save_document reg b =
     \<lparr>wd_name = wb_name b, wd_description = wb_description b, wd_metadata = wb_metadata b,
      wd_blocks = map (\<lambda>(_, i). serialize_node reg b (wb_nodes b ! i)) (wb_by_name b),
      wd_config = wb_config b\<rparr>"

text \<open>\<open>get_block_class\<close>; \<open>import_class\<close> is the import of a dotted path.\<close>

definition get_block_class ::
    "(string \<Rightarrow> block_class option) \<Rightarrow> string \<Rightarrow> block_registry \<Rightarrow> builder_error + block_class" where
  "get_block_class import_class ty reg =
     (case (if starts_with ''!!'' ty then import_class (drop 2 ty) else get_block ty reg) of
        None \<Rightarrow> Inl (UnknownBlock ty)
      | Some c \<Rightarrow> Inr c)"

text \<open>
  \<open>use(block_class, name=\<dots>, **params)\<close> and \<open>chain(\<dots>)\<close>: a parameter named like a positional one
  is a conflict, and \<open>chain\<close> takes \<open>wire_from\<close> for itself.
\<close>

definition reserved_params :: "string list" where
  "reserved_params = [''self'', ''block_class'', ''name'']"

definition load_plain ::
    "('p \<Rightarrow> string list) \<Rightarrow> string list \<Rightarrow> block_class \<Rightarrow> string \<Rightarrow> (string \<times> 'p) list \<Rightarrow> 'p builder \<Rightarrow>
     builder_error + 'p builder" where
  "load_plain as_names draws c name params b =
     (case List.find (\<lambda>(k, _). k \<in> set reserved_params) params of
        Some (k, _) \<Rightarrow> Inl (CallConflict k)
      | None \<Rightarrow>
          (if wb_head b = None then use_block draws c (Some name) params b
           else chain_block draws c (Some name)
                  (case map_of params ''wire_from'' of Some v \<Rightarrow> as_names v | None \<Rightarrow> [])
                  (AList.delete ''wire_from'' params) b))"

definition load_block ::
    "(string \<Rightarrow> block_class option) \<Rightarrow> ('p \<Rightarrow> string list) \<Rightarrow> string list \<Rightarrow> block_registry \<Rightarrow>
     'p block_doc \<Rightarrow> 'p builder \<Rightarrow> builder_error + 'p builder" where
  "load_block import_class as_names draws reg d b =
     (case get_block_class import_class (bd_type d) reg of
        Inl e \<Rightarrow> Inl e
      | Inr c \<Rightarrow>
          (case (if bd_parallel d
                 then parallel_blocks draws [ClassNameKwargs c (bd_name d) (bd_params d)] b
                 else load_plain as_names draws c (bd_name d) (bd_params d) b) of
             Inl e \<Rightarrow> Inl e
           | Inr b' \<Rightarrow>
               (case bd_position d of
                  Some (p # ps) \<Rightarrow> update_position (bd_name d) (p # ps) b'
                | _ \<Rightarrow> Inr b')))"

fun load_blocks ::
    "(string \<Rightarrow> block_class option) \<Rightarrow> ('p \<Rightarrow> string list) \<Rightarrow> string list \<Rightarrow> block_registry \<Rightarrow>
     'p block_doc list \<Rightarrow> 'p builder \<Rightarrow> builder_error + 'p builder" where
  "load_blocks import_class as_names draws reg [] b = Inr b"
| "load_blocks import_class as_names draws reg (d # ds) b =
     (case load_block import_class as_names draws reg d b of
        Inl e \<Rightarrow> Inl e
      | Inr b' \<Rightarrow> load_blocks import_class as_names draws reg ds b')"

definition document_wires :: "'p block_doc list \<Rightarrow> wire_spec list" where
  "document_wires ds =
     concat (map (\<lambda>d. map (\<lambda>(t, out, inp). (bd_name d, out, t, inp)) (bd_connected d)) ds)"

definition load_document ::
    "(string \<Rightarrow> block_class option) \<Rightarrow> ('p \<Rightarrow> string list) \<Rightarrow> string list \<Rightarrow> block_registry \<Rightarrow>
     'p workflow_doc \<Rightarrow> builder_error + 'p builder" where
  "load_document import_class as_names draws reg doc =
     (let b0 = (new_builder (wd_name doc))\<lparr>wb_config := wd_config doc,
                 wb_description := wd_description doc, wb_metadata := wd_metadata doc\<rparr>
      in case load_blocks import_class as_names draws reg (wd_blocks doc) b0 of
           Inl e \<Rightarrow> Inl e
         | Inr b \<Rightarrow>
             (case List.find (\<lambda>n. map_of (wb_by_name b) n = None)
                     (concat (map (\<lambda>(s, _, t, _). [s, t]) (document_wires (wd_blocks doc)))) of
                Some n \<Rightarrow> Inl (NoSuchNode n)
              | None \<Rightarrow> Inr (fold force_connect (document_wires (wd_blocks doc)) (b\<lparr>wb_wires := []\<rparr>))))"

end
