(* ===== verification/Workflow_Roundtrip.thy ===== *)
theory Workflow_Roundtrip
  imports Workflow_Builder Workflow_Safety "HOL-Library.Multiset"
begin

text \<open>
  Saving a workflow and loading it again. Loading rebuilds the nodes one by one through the
  fluent operations, discards the wires those made and puts the stored ones back, grouped by
  their source node. What a run depends on is unchanged: the blocks, the successors of every
  block in their order, and the wires up to their order.
\<close>

section \<open>What the operations keep\<close>

text \<open>What \<open>build\<close> and \<open>save_to_yaml\<close> read of a node.\<close>

definition core ::
    "'p node \<Rightarrow> block_class \<times> (string \<times> 'p) list \<times> string \<times> bool \<times> (string \<times> int) list option \<times> bool" where
  "core n = (sp_class (nd_spec n), sp_kwargs (nd_spec n), nd_name n, nd_parallel n, nd_position n,
             nd_conditional n \<or> nd_loop n)"

definition cores where "cores b = map core (wb_nodes b)"

text \<open>The name table lists the nodes in order.\<close>

definition table_ok :: "'p builder \<Rightarrow> bool" where
  "table_ok b =
     (distinct (map nd_name (wb_nodes b)) \<and>
      wb_by_name b = zip (map nd_name (wb_nodes b)) [0..<length (wb_nodes b)])"

lemma cores_change [simp]:
  "(\<And>n. core (f n) = core n) \<Longrightarrow> cores (change_node i f b) = cores b"
  by (cases "i < length (wb_nodes b)")
     (simp_all add: cores_def change_node_def map_update list_update_same_conv list_update_beyond)

lemma by_name_change [simp]: "wb_by_name (change_node i f b) = wb_by_name b"
  by (simp add: change_node_def)

lemma names_of_cores: "map nd_name (wb_nodes b) = map (\<lambda>(_, _, n, _). n) (cores b)"
  by (simp add: cores_def core_def comp_def)

lemma length_cores: "length (wb_nodes b) = length (cores b)"
  by (simp add: cores_def)

lemma table_ok_cong: "cores b = cores b' \<Longrightarrow> wb_by_name b = wb_by_name b' \<Longrightarrow> table_ok b = table_ok b'"
  by (simp add: table_ok_def names_of_cores length_cores)

definition same_table :: "'p builder \<Rightarrow> 'p builder \<Rightarrow> bool" where
  "same_table b b' =
     (cores b = cores b' \<and> wb_by_name b = wb_by_name b' \<and> wb_name b = wb_name b' \<and>
      wb_description b = wb_description b' \<and> wb_metadata b = wb_metadata b' \<and>
      wb_config b = wb_config b' \<and> wb_id b = wb_id b')"

lemma same_table_refl [simp]: "same_table b b"
  by (simp add: same_table_def)

lemma same_table_trans: "same_table a b \<Longrightarrow> same_table b c \<Longrightarrow> same_table a c"
  by (simp add: same_table_def)

lemma same_table_change [simp]:
  "(\<And>n. core (f n) = core n) \<Longrightarrow> same_table (change_node i f b) b"
  by (simp add: same_table_def) (simp add: change_node_def)

lemma same_table_store [simp]: "same_table (store_wire_spec s t sn tn b) b"
  by (simp add: store_wire_spec_def same_table_def cores_def Let_def)

lemma same_table_wire: "same_table (wire_new_node spec n b) b"
proof -
  have "same_table (fold (\<lambda>source b. case map_of (wb_by_name b) source of
            None \<Rightarrow> b
          | Some i \<Rightarrow> store_wire_spec (nd_name (wb_nodes b ! i)) (nd_name n) (wb_nodes b ! i) n b) ss b) b" for ss b
    by (induction ss arbitrary: b)
       (auto split: option.split intro: same_table_trans [OF _ same_table_store])
  then show ?thesis
    by (simp add: wire_new_node_def split: option.split)
qed

lemma same_table_cursor [simp]:
  "same_table (b\<lparr>wb_head := h\<rparr>) b" "same_table (b\<lparr>wb_current := c\<rparr>) b"
  "same_table (b\<lparr>wb_head := h, wb_current := c\<rparr>) b"
  by (simp_all add: same_table_def cores_def)

lemma same_table_link: "same_table (link_to_current i b) b"
proof (cases "wb_current b")
  case (Some j)
  have "same_table (change_node j (\<lambda>n. n\<lparr>nd_next := nd_next n @ [i]\<rparr>) b) b"
    by (rule same_table_change) (simp add: core_def)
  moreover have "same_table (link_to_current i b) (change_node j (\<lambda>n. n\<lparr>nd_next := nd_next n @ [i]\<rparr>) b)"
    unfolding link_to_current_def Some option.case
    by (rule same_table_change) (simp add: core_def)
  ultimately show ?thesis by (rule same_table_trans [rotated])
qed (simp add: link_to_current_def)

text \<open>What one loaded node adds.\<close>

definition extends :: "'p builder \<Rightarrow> 'p builder \<Rightarrow> _ \<Rightarrow> bool" where
  "extends b b' c =
     (cores b' = cores b @ [c] \<and>
      wb_by_name b' = AList.update (fst (snd (snd c))) (length (cores b)) (wb_by_name b) \<and>
      wb_name b' = wb_name b \<and> wb_description b' = wb_description b \<and>
      wb_metadata b' = wb_metadata b \<and> wb_config b' = wb_config b \<and> wb_id b' = wb_id b)"

lemma extends_same: "extends b b' c \<Longrightarrow> same_table b'' b' \<Longrightarrow> extends b b'' c"
  by (simp add: extends_def same_table_def)

lemma create_node_extends:
  assumes "sp_name spec \<noteq> []"
  shows "\<exists>b'. create_node draws spec parallel b = Inr (length (wb_nodes b), b') \<and>
    extends b b' (sp_class spec, sp_kwargs spec, sp_name spec, parallel, None, False)"
proof -
  let ?n = "(new_node (spec\<lparr>sp_name := sp_name spec\<rparr>))\<lparr>nd_parallel := parallel\<rparr>"
  let ?b = "snd (add_node ?n b)"
  have "extends b ?b (sp_class spec, sp_kwargs spec, sp_name spec, parallel, None, False)"
    by (simp add: extends_def add_node_def cores_def core_def new_node_def)
  from extends_same [OF this same_table_wire] assms show ?thesis
    by (simp add: create_node_def Let_def split_beta) (simp add: add_node_def)
qed

lemma use_block_extends:
  assumes "name \<noteq> []"
  shows "\<exists>b'. use_block draws c (Some name) kwargs b = Inr b' \<and>
    extends b b' (c, kwargs, name, False, None, False)"
proof -
  from create_node_extends [of "\<lparr>sp_class = c, sp_name = name, sp_kwargs = kwargs, sp_wire_from = []\<rparr>"
      draws False b] assms
  obtain i b1 where "create_node draws \<lparr>sp_class = c, sp_name = name, sp_kwargs = kwargs,
      sp_wire_from = []\<rparr> False b = Inr (i, b1)"
    and ext: "extends b b1 (c, kwargs, name, False, None, False)" by auto
  with extends_same [OF ext same_table_cursor(3)] show ?thesis by (simp add: use_block_def)
qed

lemma chain_block_extends:
  assumes "name \<noteq> []"
  shows "\<exists>b'. chain_block draws c (Some name) from_names kwargs b = Inr b' \<and>
    extends b b' (c, kwargs, name, False, None, False)"
proof -
  from create_node_extends [of "\<lparr>sp_class = c, sp_name = name, sp_kwargs = kwargs,
      sp_wire_from = from_names\<rparr>" draws False b] assms
  obtain i b1 where "create_node draws \<lparr>sp_class = c, sp_name = name, sp_kwargs = kwargs,
      sp_wire_from = from_names\<rparr> False b = Inr (i, b1)"
    and ext: "extends b b1 (c, kwargs, name, False, None, False)" by auto
  with extends_same [OF ext same_table_trans [OF same_table_cursor(2) same_table_link]]
  show ?thesis by (simp add: chain_block_def)
qed

lemma parallel_block_extends:
  assumes "name \<noteq> []"
  shows "\<exists>b'. parallel_blocks draws [ClassNameKwargs c name kwargs] b = Inr b' \<and>
    extends b b' (c, kwargs, name, True, None, False)"
proof -
  let ?spec = "\<lparr>sp_class = c, sp_name = name, sp_kwargs = kwargs, sp_wire_from = []\<rparr>"
  from create_node_extends [of ?spec draws True b] assms obtain b1 where
    b1: "create_node draws ?spec True b = Inr (length (wb_nodes b), b1)"
    "extends b b1 (c, kwargs, name, True, None, False)" by auto
  let ?i = "length (wb_nodes b)"
  let ?b2 = "change_node ?i (\<lambda>n. n\<lparr>nd_parent := wb_current b\<rparr>) b1"
  let ?b3 = "case wb_current ?b2 of None \<Rightarrow> ?b2
    | Some j \<Rightarrow> change_node j (\<lambda>n. n\<lparr>nd_next := nd_next n @ [?i]\<rparr>) ?b2"
  let ?b4 = "change_node ?i (\<lambda>n. n\<lparr>nd_group := [?i]\<rparr>) (?b3\<lparr>wb_current := Some ?i\<rparr>)"
  have "same_table ?b2 b1" by (rule same_table_change) (simp add: core_def)
  moreover have "same_table ?b3 ?b2"
    by (auto split: option.split intro!: same_table_change simp: core_def)
  moreover have "same_table ?b4 (?b3\<lparr>wb_current := Some ?i\<rparr>)"
    by (rule same_table_change) (simp add: core_def)
  ultimately have "same_table ?b4 b1"
    using same_table_trans [OF same_table_trans [OF _ same_table_cursor(2)] same_table_trans]
    by blast
  with b1(2) have "extends b ?b4 (c, kwargs, name, True, None, False)"
    by (rule extends_same)
  with b1(1) show ?thesis by (simp add: parallel_blocks_def Let_def)
qed

definition put_position :: "(string \<times> int) list \<Rightarrow> _ \<Rightarrow> _" where
  "put_position pos = (\<lambda>(c, k, n, par, _, ctl). (c, k, n, par, Some pos, ctl))"

lemma core_position: "core (n\<lparr>nd_position := Some pos\<rparr>) = put_position pos (core n)"
  by (simp add: core_def put_position_def)

text \<open>A document entry the loader accepts, and the node it makes.\<close>

definition entry_ok ::
    "(string \<Rightarrow> block_class option) \<Rightarrow> block_registry \<Rightarrow> 'p block_doc \<Rightarrow> block_class \<Rightarrow> bool" where
  "entry_ok import_class reg d c =
     (get_block_class import_class (bd_type d) reg = Inr c \<and> bd_name d \<noteq> [] \<and>
      fst ` set (bd_params d) \<inter> {''self'', ''block_class'', ''name'', ''wire_from''} = {} \<and>
      bd_position d \<noteq> Some [])"

lemma delete_absent: "k \<notin> fst ` set kvs \<Longrightarrow> AList.delete k kvs = kvs"
  by (induction kvs) (auto simp: AList.delete_eq)

lemma load_block_extends:
  assumes d: "entry_ok import_class reg d c" and new: "map_of (wb_by_name b) (bd_name d) = None"
  shows "\<exists>b'. load_block import_class as_names draws reg d b = Inr b' \<and>
    extends b b' (c, bd_params d, bd_name d, bd_parallel d, bd_position d, False)"
proof -
  have name: "bd_name d \<noteq> []" using d by (simp add: entry_ok_def)
  have free: "List.find (\<lambda>(k, _). k \<in> set reserved_params) (bd_params d) = None"
    using d by (force simp: entry_ok_def find_None_iff reserved_params_def)
  have no_from: "map_of (bd_params d) ''wire_from'' = None"
    "AList.delete ''wire_from'' (bd_params d) = bd_params d"
    using d by (auto simp: entry_ok_def map_of_eq_None_iff intro!: delete_absent)
  obtain b1 where
    b1: "(if bd_parallel d then parallel_blocks draws [ClassNameKwargs c (bd_name d) (bd_params d)] b
          else load_plain as_names draws c (bd_name d) (bd_params d) b) = Inr b1"
    and ext: "extends b b1 (c, bd_params d, bd_name d, bd_parallel d, None, False)"
  proof (cases "bd_parallel d")
    case True
    with parallel_block_extends [OF name, of draws c "bd_params d" b] that show ?thesis by auto
  next
    case False
    have plain: "load_plain as_names draws c (bd_name d) (bd_params d) b =
        (if wb_head b = None then use_block draws c (Some (bd_name d)) (bd_params d) b
         else chain_block draws c (Some (bd_name d)) [] (bd_params d) b)"
      by (simp add: load_plain_def free no_from)
    from use_block_extends [OF name, of draws c "bd_params d" b]
      chain_block_extends [OF name, of draws c "[]" "bd_params d" b]
    obtain b1 where "load_plain as_names draws c (bd_name d) (bd_params d) b = Inr b1"
      "extends b b1 (c, bd_params d, bd_name d, False, None, False)"
      unfolding plain by (cases "wb_head b = None") auto
    with that False show ?thesis by simp
  qed
  show ?thesis
  proof (cases "bd_position d")
    case None
    with d b1 ext show ?thesis by (auto simp: load_block_def entry_ok_def)
  next
    case (Some pos)
    with d obtain p ps where pos: "pos = p # ps" by (cases pos) (auto simp: entry_ok_def)
    let ?i = "length (cores b)"
    let ?b2 = "change_node ?i (\<lambda>n. n\<lparr>nd_position := Some pos\<rparr>) b1"
    have at: "map_of (wb_by_name b1) (bd_name d) = Some ?i"
      using ext by (simp add: extends_def update_conv')
    have len: "?i < length (wb_nodes b1)"
      using ext by (simp add: extends_def length_cores)
    have "core (wb_nodes b1 ! ?i) = cores b1 ! ?i"
      using len by (simp add: cores_def)
    also have "\<dots> = (c, bd_params d, bd_name d, bd_parallel d, None, False)"
      using ext by (simp add: extends_def)
    finally have "cores ?b2 = cores b @ [(c, bd_params d, bd_name d, bd_parallel d, Some pos, False)]"
      using ext len
      by (simp add: extends_def cores_def change_node_def map_update core_position put_position_def
          list_update_append)
    with ext have "extends b ?b2 (c, bd_params d, bd_name d, bd_parallel d, Some pos, False)"
      by (simp add: extends_def) (simp add: change_node_def)
    with d b1 at Some pos show ?thesis
      by (auto simp: load_block_def entry_ok_def update_position_def)
  qed
qed

definition doc_core where
  "doc_core d c = (c, bd_params d, bd_name d, bd_parallel d, bd_position d, False)"

lemma update_fresh: "map_of al k = None \<Longrightarrow> AList.update k v al = al @ [(k, v)]"
  by (induction al) (auto split: if_splits)

lemma load_blocks_extends:
  assumes "list_all2 (entry_ok import_class reg) ds cs" "distinct (map bd_name ds)"
    and "\<forall>d\<in>set ds. map_of (wb_by_name b) (bd_name d) = None"
  shows "\<exists>b'. load_blocks import_class as_names draws reg ds b = Inr b' \<and>
    cores b' = cores b @ map2 doc_core ds cs \<and>
    wb_by_name b' = wb_by_name b @ zip (map bd_name ds) [length (cores b)..<length (cores b) + length ds] \<and>
    wb_name b' = wb_name b \<and> wb_description b' = wb_description b \<and>
    wb_metadata b' = wb_metadata b \<and> wb_config b' = wb_config b"
  using assms
proof (induction ds cs arbitrary: b rule: list_all2_induct)
  case (Cons d ds c cs)
  have new: "map_of (wb_by_name b) (bd_name d) = None" using Cons.prems(2) by simp
  from load_block_extends [OF Cons.hyps(1) new, of as_names draws] obtain b1 where
    b1: "load_block import_class as_names draws reg d b = Inr b1"
    and ext: "extends b b1 (doc_core d c)" by (auto simp: doc_core_def)
  have by_name: "wb_by_name b1 = wb_by_name b @ [(bd_name d, length (cores b))]"
    using ext by (simp add: extends_def doc_core_def update_fresh [OF new])
  have "\<forall>d'\<in>set ds. map_of (wb_by_name b1) (bd_name d') = None"
  proof
    fix d' assume d': "d' \<in> set ds"
    with Cons.prems(1) have "bd_name d' \<noteq> bd_name d" by (auto simp: image_iff)
    with d' Cons.prems(2) show "map_of (wb_by_name b1) (bd_name d') = None"
      by (simp add: by_name map_add_def)
  qed
  with Cons.IH [of b1] Cons.prems(1) obtain b2 where
    "load_blocks import_class as_names draws reg ds b1 = Inr b2"
    "cores b2 = cores b1 @ map2 doc_core ds cs"
    "wb_by_name b2 = wb_by_name b1 @ zip (map bd_name ds) [length (cores b1)..<length (cores b1) + length ds]"
    "wb_name b2 = wb_name b1" "wb_description b2 = wb_description b1"
    "wb_metadata b2 = wb_metadata b1" "wb_config b2 = wb_config b1" by auto
  moreover have "cores b1 = cores b @ [doc_core d c]" "wb_name b1 = wb_name b"
      "wb_description b1 = wb_description b" "wb_metadata b1 = wb_metadata b"
      "wb_config b1 = wb_config b"
    using ext by (simp_all add: extends_def)
  moreover have "[length (cores b)..<length (cores b) + length (d # ds)] =
      length (cores b) # [Suc (length (cores b))..<Suc (length (cores b)) + length ds]"
    by (simp add: upt_conv_Cons del: upt_Suc)
  ultimately show ?case
    using b1 by_name by (simp del: upt_Suc)
qed simp

section \<open>Wires\<close>

text \<open>The stored wires, grouped by source.\<close>

lemma fold_force_connect: "fold force_connect ws b = b\<lparr>wb_wires := wb_wires b @ ws\<rparr>"
  by (induction ws arbitrary: b) (simp_all add: force_connect_def)

definition known_wires :: "'p builder \<Rightarrow> wire_spec list" where
  "known_wires b = filter (\<lambda>w.
     fst w \<in> nd_name ` set (wb_nodes b) \<and> fst (snd (snd w)) \<in> nd_name ` set (wb_nodes b)) (wb_wires b)"

definition wires_from :: "'p builder \<Rightarrow> string \<Rightarrow> wire_spec list" where
  "wires_from b n = filter (\<lambda>w. fst w = n) (known_wires b)"

lemma table_names:
  assumes "table_ok b"
  shows "map_of (wb_by_name b) t \<noteq> None \<longleftrightarrow> t \<in> nd_name ` set (wb_nodes b)"
proof -
  have "map fst (wb_by_name b) = map nd_name (wb_nodes b)"
    using assms by (simp add: table_ok_def)
  then have "fst ` set (wb_by_name b) = nd_name ` set (wb_nodes b)"
    by (metis list.set_map)
  then show ?thesis by (simp add: map_of_eq_None_iff)
qed

lemma connections_wires:
  assumes "table_ok b" "n \<in> set (wb_nodes b)"
  shows "map (\<lambda>(t, out, inp). (nd_name n, out, t, inp)) (connections b n) = wires_from b (nd_name n)"
proof -
  let ?N = "nd_name ` set (wb_nodes b)"
  have pick: "map g (List.map_filter (\<lambda>x. if P x then Some (h x) else None) ws) = map (g \<circ> h) (filter P ws)"
    for g h P and ws :: "wire_spec list"
    by (induction ws) (simp_all add: List.map_filter_simps)
  have sel: "(\<lambda>(s, out, t, inp). if s = nd_name n \<and> t \<in> ?N then Some (t, out, inp) else None) =
      (\<lambda>w. if fst w = nd_name n \<and> fst (snd (snd w)) \<in> ?N
           then Some (fst (snd (snd w)), fst (snd w), snd (snd (snd w))) else None)"
    by auto
  have "map (\<lambda>(t, out, inp). (nd_name n, out, t, inp)) (connections b n) =
      map ((\<lambda>(t, out, inp). (nd_name n, out, t, inp)) \<circ>
          (\<lambda>w. (fst (snd (snd w)), fst (snd w), snd (snd (snd w)))))
        (filter (\<lambda>w. fst w = nd_name n \<and> fst (snd (snd w)) \<in> ?N) (wb_wires b))"
    unfolding connections_def table_names [OF assms(1)] sel by (rule pick)
  also have "\<dots> = filter (\<lambda>w. fst w = nd_name n \<and> fst (snd (snd w)) \<in> ?N) (wb_wires b)"
    by (rule map_idI) auto
  also have "\<dots> = wires_from b (nd_name n)"
    using assms(2) by (auto simp: wires_from_def known_wires_def intro!: filter_cong)
  finally show ?thesis .
qed

text \<open>What \<open>build\<close> reads.\<close>

lemma build_blocks_cores:
  assumes "map core ns = map core ns'" "\<forall>n\<in>set ns. \<not> (nd_conditional n \<or> nd_loop n)"
  shows "build_blocks make_ports ov nodes i ns = build_blocks make_ports ov nodes' i ns'"
  using assms
proof (induction ns arbitrary: ns' i)
  case (Cons n ns)
  then obtain m ms where ns': "ns' = m # ms" "core n = core m" "map core ns = map core ms"
    by (cases ns') auto
  have "instantiate make_ports i (pass_outputs ov nodes n) =
      instantiate make_ports i (pass_outputs ov nodes' m)"
    using ns'(2) Cons.prems(2)
    by (auto simp: core_def pass_outputs_def instantiate_def Let_def split: option.split)
  with Cons.IH [OF ns'(3)] Cons.prems(2) ns' show ?case
    by (simp split: sum.split)
qed simp

lemma build_blocks_names:
  "build_blocks make_ports ov nodes i ns = Inr bs \<Longrightarrow>
     map bl_name bs = map nd_name ns \<and> map bl_ref bs = [i..<i + length ns]"
proof (induction ns arbitrary: i bs)
  case (Cons n ns)
  then obtain b bs' where b: "instantiate make_ports i (pass_outputs ov nodes n) = Inr b"
    and "build_blocks make_ports ov nodes (Suc i) ns = Inr bs'" "bs = b # bs'"
    by (auto split: sum.splits)
  moreover have "bl_name b = nd_name n \<and> bl_ref b = i"
    using b by (auto simp: instantiate_def pass_outputs_def Let_def
        split: if_splits option.splits prod.splits)
  ultimately show ?case using Cons.IH [of "Suc i" bs'] by (simp add: upt_conv_Cons del: upt_Suc)
qed simp

lemma block_named_row: "block_named bs n = find_row bl_name n (rev bs)"
  by (simp add: block_named_def find_row_def)

lemma block_named_iff:
  assumes "distinct (map bl_name bs)"
  shows "block_named bs n = Some b \<longleftrightarrow> b \<in> set bs \<and> bl_name b = n"
proof
  assume "block_named bs n = Some b"
  with find_row_SomeD [of bl_name n "rev bs" b] show "b \<in> set bs \<and> bl_name b = n"
    by (simp add: block_named_row)
next
  assume "b \<in> set bs \<and> bl_name b = n"
  with find_row_distinct [of bl_name "rev bs" b] assms show "block_named bs n = Some b"
    by (simp add: block_named_row distinct_rev flip: rev_map)
qed

lemma block_named_None: "block_named bs n = None \<longleftrightarrow> n \<notin> bl_name ` set bs"
  by (simp add: block_named_row find_row_None)

section \<open>Grouping\<close>

lemma mset_grouped:
  "distinct ns \<Longrightarrow> mset (concat (map (\<lambda>n. filter (\<lambda>x. f x = n) xs) ns)) =
     mset (filter (\<lambda>x. f x \<in> set ns) xs)"
proof (induction ns)
  case (Cons n ns)
  have "filter_mset (\<lambda>x. f x = n \<or> f x \<in> set ns) (mset xs) =
      filter_mset (\<lambda>x. f x = n) (mset xs) + filter_mset (\<lambda>x. f x \<in> set ns) (mset xs)"
    using Cons.prems by (induction xs) auto
  with Cons show ?case by simp
qed simp

lemma filter_grouped:
  "distinct ns \<Longrightarrow> filter (\<lambda>x. f x = m) (concat (map (\<lambda>n. filter (\<lambda>x. f x = n) xs) ns)) =
     (if m \<in> set ns then filter (\<lambda>x. f x = m) xs else [])"
proof (induction ns)
  case (Cons n ns)
  have "filter (\<lambda>x. f x = m) (filter (\<lambda>x. f x = n) xs) =
      (if m = n then filter (\<lambda>x. f x = m) xs else [])"
    by (auto simp: filter_empty_conv intro: filter_cong)
  with Cons show ?case by auto
qed simp

lemma mset_map_filter:
  "mset xs = mset ys \<Longrightarrow> mset (List.map_filter f xs) = mset (List.map_filter f ys)"
  by (simp add: List.map_filter_def)

section \<open>Saving and loading\<close>

text \<open>
  A builder as the workflow editor makes them: distinct, non-empty node names, ordinary nodes
  whose classes are registered, no argument named like a parameter of \<open>use\<close> or \<open>chain\<close>.
\<close>

definition savable :: "(string \<Rightarrow> block_class option) \<Rightarrow> block_registry \<Rightarrow> 'p builder \<Rightarrow> bool" where
  "savable import_class reg b =
     (table_ok b \<and>
      list_all (\<lambda>n. \<not> nd_conditional n \<and> \<not> nd_loop n \<and>
        entry_ok import_class reg (serialize_node reg b n) (sp_class (nd_spec n))) (wb_nodes b))"

lemma saved_blocks:
  assumes "table_ok b"
  shows "wd_blocks (save_document reg b) = map (serialize_node reg b) (wb_nodes b)"
proof -
  have "map (\<lambda>(_, i). serialize_node reg b (wb_nodes b ! i)) (wb_by_name b) =
      map (\<lambda>i. serialize_node reg b (wb_nodes b ! i)) (map snd (wb_by_name b))"
    by (simp add: comp_def split_beta)
  also have "map snd (wb_by_name b) = [0..<length (wb_nodes b)]"
    using assms by (simp add: table_ok_def)
  also have "map (\<lambda>i. serialize_node reg b (wb_nodes b ! i)) [0..<length (wb_nodes b)] =
      map (serialize_node reg b) (wb_nodes b)"
    by (rule nth_equalityI) simp_all
  finally show ?thesis by (simp add: save_document_def)
qed

definition grouped_wires :: "'p builder \<Rightarrow> wire_spec list" where
  "grouped_wires b = concat (map (\<lambda>n. wires_from b (nd_name n)) (wb_nodes b))"

lemma saved_wires:
  assumes "table_ok b"
  shows "document_wires (wd_blocks (save_document reg b)) = grouped_wires b"
proof -
  have "map (\<lambda>(t, out, inp). (nd_name n, out, t, inp)) (connections b n) = wires_from b (nd_name n)"
    if "n \<in> set (wb_nodes b)" for n
    by (rule connections_wires [OF assms that])
  then show ?thesis
    unfolding document_wires_def saved_blocks [OF assms] grouped_wires_def
    by (simp add: comp_def serialize_node_def cong: map_cong)
qed

lemma grouped_wires_known:
  "(s, out, t, inp) \<in> set (grouped_wires b) \<Longrightarrow>
     s \<in> nd_name ` set (wb_nodes b) \<and> t \<in> nd_name ` set (wb_nodes b)"
  by (auto simp: grouped_wires_def wires_from_def known_wires_def)

lemma load_saved_document:
  assumes "savable import_class reg b"
  shows "\<exists>b'. load_document import_class as_names draws reg (save_document reg b) = Inr b' \<and>
    cores b' = cores b \<and> table_ok b' \<and> wb_wires b' = grouped_wires b \<and>
    wb_name b' = wb_name b \<and> wb_description b' = wb_description b \<and>
    wb_metadata b' = wb_metadata b \<and> wb_config b' = wb_config b"
proof -
  have table: "table_ok b" using assms by (simp add: savable_def)
  let ?ds = "map (serialize_node reg b) (wb_nodes b)"
  let ?cs = "map (\<lambda>n. sp_class (nd_spec n)) (wb_nodes b)"
  let ?b0 = "(new_builder (wb_name b) :: 'a builder)\<lparr>wb_config := wb_config b,
    wb_description := wb_description b, wb_metadata := wb_metadata b\<rparr>"
  have names: "map bd_name ?ds = map nd_name (wb_nodes b)"
    by (simp add: comp_def serialize_node_def)
  have entries: "list_all2 (entry_ok import_class reg) ?ds ?cs"
    using assms by (auto simp: savable_def list_all_iff list_all2_conv_all_nth)
  have "distinct (map bd_name ?ds)"
    unfolding names using table by (simp add: table_ok_def)
  moreover have "\<forall>d\<in>set ?ds. map_of (wb_by_name ?b0) (bd_name d) = None"
    by (simp add: new_builder_def)
  ultimately obtain b1 where
    b1: "load_blocks import_class as_names draws reg ?ds ?b0 = Inr b1"
    and core1: "cores b1 = cores ?b0 @ map2 doc_core ?ds ?cs"
    and by_name: "wb_by_name b1 = wb_by_name ?b0 @
      zip (map bd_name ?ds) [length (cores ?b0)..<length (cores ?b0) + length ?ds]"
    and rest: "wb_name b1 = wb_name ?b0" "wb_description b1 = wb_description ?b0"
      "wb_metadata b1 = wb_metadata ?b0" "wb_config b1 = wb_config ?b0"
    using load_blocks_extends [OF entries, of ?b0 as_names draws] by blast
  have empty: "cores ?b0 = []" "wb_by_name ?b0 = []"
    by (simp_all add: cores_def new_builder_def)
  have cores: "cores b1 = cores b"
    using assms unfolding core1 empty
    by (auto simp: cores_def zip_map_map zip_same_conv_map doc_core_def core_def serialize_node_def
        savable_def list_all_iff)
  have by_name': "wb_by_name b1 = wb_by_name b"
    unfolding by_name empty names using table by (simp add: table_ok_def)
  have known: "List.find (\<lambda>n. map_of (wb_by_name b1) n = None)
      (concat (map (\<lambda>(s, _, t, _). [s, t]) (grouped_wires b))) = None"
    using grouped_wires_known [of _ _ _ _ b] table_names [OF table]
    by (fastforce simp: find_None_iff by_name')
  let ?b2 = "fold force_connect (grouped_wires b) (b1\<lparr>wb_wires := []\<rparr>)"
  have "load_document import_class as_names draws reg (save_document reg b) = Inr ?b2"
    using b1 known saved_wires [OF table, of reg, unfolded saved_blocks [OF table]]
    unfolding load_document_def saved_blocks [OF table]
    by (simp add: save_document_def Let_def)
  moreover have "cores ?b2 = cores b" "wb_by_name ?b2 = wb_by_name b"
    by (simp_all add: fold_force_connect cores_def by_name' flip: cores) (simp add: cores [unfolded cores_def])
  moreover from this table have "table_ok ?b2" using table_ok_cong by blast
  ultimately show ?thesis
    using rest by (intro exI [of _ ?b2]) (simp add: fold_force_connect new_builder_def)
qed

text \<open>The wires of the built workflow only depend on the known ones.\<close>

definition wire_of :: "block list \<Rightarrow> wire_spec \<Rightarrow> wire option" where
  "wire_of bs = (\<lambda>(s, out, t, inp).
     case (block_named bs s, block_named bs t) of
       (Some a, Some b) \<Rightarrow> Some \<lparr>wi_source = a, wi_output = out, wi_target = b, wi_input = inp\<rparr>
     | _ \<Rightarrow> None)"

lemma build_wires_eq: "build_wires bs = List.map_filter (wire_of bs)"
  by (simp add: fun_eq_iff build_wires_def wire_of_def)

lemma wire_of_known:
  "wire_of bs (s, out, t, inp) = Some w \<Longrightarrow> s \<in> bl_name ` set bs \<and> t \<in> bl_name ` set bs"
  using block_named_None [of bs s] block_named_None [of bs t]
  by (auto simp: wire_of_def split: option.splits)

lemma map_filter_restrict:
  "(\<And>x. x \<in> set xs \<Longrightarrow> \<not> P x \<Longrightarrow> f x = None) \<Longrightarrow> List.map_filter f (filter P xs) = List.map_filter f xs"
  by (induction xs) (auto simp: List.map_filter_simps split: option.split)

lemma map_filter_filter:
  "(\<And>x y. f x = Some y \<Longrightarrow> Q y = P x) \<Longrightarrow>
     filter Q (List.map_filter f xs) = List.map_filter f (filter P xs)"
  by (induction xs) (auto simp: List.map_filter_simps split: option.split)

lemma build_wires_known:
  assumes "bl_name ` set bs = nd_name ` set (wb_nodes b)"
  shows "build_wires bs (wb_wires b) = build_wires bs (known_wires b)"
proof -
  have "wire_of bs x = None"
    if "\<not> (fst x \<in> nd_name ` set (wb_nodes b) \<and> fst (snd (snd x)) \<in> nd_name ` set (wb_nodes b))" for x
  proof (cases "wire_of bs x")
    case (Some w)
    obtain s out t inp where "x = (s, out, t, inp)" by (metis surj_pair)
    with Some that wire_of_known [of bs s out t inp w] show ?thesis by (simp add: assms)
  qed
  then show ?thesis
    unfolding build_wires_eq known_wires_def by (intro map_filter_restrict [symmetric])
qed

lemma grouped_mset:
  assumes "distinct (map nd_name (wb_nodes b))"
  shows "mset (grouped_wires b) = mset (known_wires b)"
proof -
  have "grouped_wires b =
      concat (map (\<lambda>n. filter (\<lambda>w. fst w = n) (known_wires b)) (map nd_name (wb_nodes b)))"
    by (simp add: grouped_wires_def wires_from_def split_beta comp_def)
  also have "mset \<dots> = mset (filter (\<lambda>w. fst w \<in> set (map nd_name (wb_nodes b))) (known_wires b))"
    by (rule mset_grouped [OF assms])
  also have "filter (\<lambda>w. fst w \<in> set (map nd_name (wb_nodes b))) (known_wires b) = known_wires b"
    by (rule filter_True) (auto simp: known_wires_def)
  finally show ?thesis .
qed

lemma grouped_from:
  assumes "distinct (map nd_name (wb_nodes b))"
  shows "filter (\<lambda>w. fst w = n) (grouped_wires b) = filter (\<lambda>w. fst w = n) (known_wires b)"
proof -
  have "grouped_wires b =
      concat (map (\<lambda>n. filter (\<lambda>w. fst w = n) (known_wires b)) (map nd_name (wb_nodes b)))"
    by (simp add: grouped_wires_def wires_from_def split_beta comp_def)
  then have "filter (\<lambda>w. fst w = n) (grouped_wires b) =
      (if n \<in> set (map nd_name (wb_nodes b)) then filter (\<lambda>w. fst w = n) (known_wires b) else [])"
    by (simp only: filter_grouped [OF assms])
  also have "\<dots> = filter (\<lambda>w. fst w = n) (known_wires b)"
    by (auto simp: known_wires_def intro!: filter_False [symmetric])
  finally show ?thesis .
qed

text \<open>The successors of a block only depend on the wires of its name.\<close>

lemma successors_by_name:
  assumes bs: "distinct (map bl_name bs)" "distinct (map bl_ref bs)"
    and same: "\<And>n. filter (\<lambda>w. fst w = n) ws = filter (\<lambda>w. fst w = n) ws'"
  shows "map wi_target (filter (\<lambda>w. bl_ref (wi_source w) = r) (build_wires bs ws)) =
         map wi_target (filter (\<lambda>w. bl_ref (wi_source w) = r) (build_wires bs ws'))"
proof (cases "\<exists>b\<in>set bs. bl_ref b = r")
  case True
  then obtain b where b: "b \<in> set bs" "bl_ref b = r" by blast
  have sources: "bl_ref (wi_source w) = r \<longleftrightarrow> fst x = bl_name b" if "wire_of bs x = Some w" for x w
  proof -
    obtain s out t inp where x: "x = (s, out, t, inp)" by (metis surj_pair)
    with that have "block_named bs s = Some (wi_source w)"
      by (auto simp: wire_of_def split: option.splits)
    then have w: "wi_source w \<in> set bs" "bl_name (wi_source w) = s"
      by (simp_all add: block_named_iff [OF bs(1)])
    show ?thesis
    proof
      assume "bl_ref (wi_source w) = r"
      with b w(1) bs(2) have "wi_source w = b" by (auto simp: distinct_map dest: inj_onD)
      with w(2) show "fst x = bl_name b" by (simp add: x)
    next
      assume "fst x = bl_name b"
      with b w bs(1) have "wi_source w = b" by (auto simp: x distinct_map dest: inj_onD)
      with b show "bl_ref (wi_source w) = r" by simp
    qed
  qed
  have "filter (\<lambda>w. bl_ref (wi_source w) = r) (build_wires bs xs) =
      List.map_filter (wire_of bs) (filter (\<lambda>x. fst x = bl_name b) xs)" for xs
    unfolding build_wires_eq by (rule map_filter_filter) (rule sources)
  then show ?thesis by (simp add: same)
next
  case False
  have "filter (\<lambda>w. bl_ref (wi_source w) = r) (build_wires bs xs) = []" for xs
  proof -
    have "bl_ref (wi_source w) \<noteq> r" if "w \<in> set (build_wires bs xs)" for w
    proof -
      from that obtain s out t inp where "wire_of bs (s, out, t, inp) = Some w"
        by (auto simp: build_wires_eq List.map_filter_def)
      then have "block_named bs s = Some (wi_source w)"
        by (auto simp: wire_of_def split: option.splits)
      with False show ?thesis by (auto simp: block_named_iff [OF bs(1)])
    qed
    then show ?thesis by (auto simp: filter_empty_conv)
  qed
  then show ?thesis by simp
qed

text \<open>C27. Saving a workflow and loading it again gives the same workflow: the loader accepts the
  document, and building gives the same blocks in the same order (or fails the same way), every
  block has the same successors in the same order, and the wires are the same up to their
  order.\<close>

theorem save_load_keeps_the_workflow:
  assumes "savable import_class reg b"
  shows "\<exists>b'. load_document import_class as_names draws reg (save_document reg b) = Inr b' \<and>
    (case build_workflow make_ports ov b of
       Inl e \<Rightarrow> build_workflow make_ports ov b' = Inl e
     | Inr w \<Rightarrow> (\<exists>w'. build_workflow make_ports ov b' = Inr w' \<and>
         wf_name w' = wf_name w \<and> wf_max_time w' = wf_max_time w \<and> wf_blocks w' = wf_blocks w \<and>
         successors w' = successors w \<and> mset (wf_wires w') = mset (wf_wires w)))"
proof -
  from load_saved_document [OF assms, of as_names draws] obtain b' where
    load: "load_document import_class as_names draws reg (save_document reg b) = Inr b'"
    and b': "cores b' = cores b" "wb_wires b' = grouped_wires b" "wb_name b' = wb_name b"
      "wb_config b' = wb_config b" by blast
  have plain: "\<forall>n\<in>set (wb_nodes b). \<not> (nd_conditional n \<or> nd_loop n)"
    and dist: "distinct (map nd_name (wb_nodes b))"
    using assms by (auto simp: savable_def table_ok_def list_all_iff)
  have blocks: "build_blocks make_ports ov (wb_nodes b') 0 (wb_nodes b') =
      build_blocks make_ports ov (wb_nodes b) 0 (wb_nodes b)"
    by (rule build_blocks_cores [symmetric, OF _ plain]) (use b'(1) in \<open>simp add: cores_def\<close>)
  show ?thesis
  proof (cases "build_blocks make_ports ov (wb_nodes b) 0 (wb_nodes b)")
    case (Inl e)
    with load blocks show ?thesis by (simp add: build_workflow_def)
  next
    case (Inr bs)
    note names = build_blocks_names [OF Inr]
    then have bs: "distinct (map bl_name bs)" "distinct (map bl_ref bs)"
      using dist by simp_all
    have known: "build_wires bs (wb_wires b) = build_wires bs (known_wires b)"
      using names by (intro build_wires_known) (metis list.set_map)
    have "map wi_target (filter (\<lambda>w. bl_ref (wi_source w) = r) (build_wires bs (grouped_wires b))) =
        map wi_target (filter (\<lambda>w. bl_ref (wi_source w) = r) (build_wires bs (wb_wires b)))" for r
      unfolding known by (rule successors_by_name [OF bs grouped_from [OF dist]])
    moreover have "mset (build_wires bs (grouped_wires b)) = mset (build_wires bs (wb_wires b))"
      unfolding known unfolding build_wires_eq by (rule mset_map_filter [OF grouped_mset [OF dist]])
    ultimately show ?thesis
      using load b' Inr blocks by (simp add: build_workflow_def successors_def fun_eq_iff)
  qed
qed

definition rt_class :: block_class where
  "rt_class = \<lparr>bc_ref = 7, bc_name = ''Echo'', bc_module = ''m'', bc_kind = NormalKind, bc_color = [],
     bc_description = [], bc_doc = None, bc_inputs = [demo_port ''x'' int_class True],
     bc_outputs = [demo_out ''out'' int_class],
     bc_params = [\<lparr>ip_name = ''self'', ip_annotation = obj_class, ip_default = None\<rparr>]\<rparr>"

definition rt_registry :: block_registry where
  "rt_registry = new_block_registry\<lparr>br_blocks := [(''demo:echo'', rt_class)]\<rparr>"

definition rt_node :: "string \<Rightarrow> nat node" where
  "rt_node n = new_node \<lparr>sp_class = rt_class, sp_name = n, sp_kwargs = [], sp_wire_from = []\<rparr>"

definition rt_builder :: "nat builder" where
  "rt_builder = (new_builder ''demo'')\<lparr>wb_nodes := [rt_node ''a'', rt_node ''b'', rt_node ''c''],
     wb_by_name := [(''a'', 0), (''b'', 1), (''c'', 2)],
     wb_wires := [(''b'', ''out'', ''c'', ''x''), (''a'', ''out'', ''b'', ''x''), (''b'', ''out'', ''gone'', ''x'')]\<rparr>"

lemma rt_savable: "savable (\<lambda>_. None) rt_registry rt_builder"
  by (simp add: savable_def table_ok_def rt_builder_def rt_node_def new_node_def new_builder_def
      entry_ok_def serialize_node_def get_block_type_name_def get_block_class_def get_block_def
      rt_registry_def rt_class_def upt_conv_Cons)

theorem save_load_keeps_the_workflow_witness:
  "\<exists>b'. load_document (\<lambda>_. None) (\<lambda>_. []) [] rt_registry (save_document rt_registry rt_builder) = Inr b' \<and>
    (case build_workflow (\<lambda>c _. Some (bc_inputs c, bc_outputs c)) (\<lambda>_. 0) rt_builder of
       Inl e \<Rightarrow> build_workflow (\<lambda>c _. Some (bc_inputs c, bc_outputs c)) (\<lambda>_. 0) b' = Inl e
     | Inr w \<Rightarrow> (\<exists>w'. build_workflow (\<lambda>c _. Some (bc_inputs c, bc_outputs c)) (\<lambda>_. 0) b' = Inr w' \<and>
         wf_name w' = wf_name w \<and> wf_max_time w' = wf_max_time w \<and> wf_blocks w' = wf_blocks w \<and>
         successors w' = successors w \<and> mset (wf_wires w') = mset (wf_wires w)))"
  by (rule save_load_keeps_the_workflow [OF rt_savable])

section \<open>The control blocks of the fluent interface\<close>

text \<open>\<open>ConditionBlock\<close> and \<open>LoopBlock\<close>: their outputs and their constructors. The texts shown
  to a user are left out.\<close>

definition required_param :: "string \<Rightarrow> init_param" where
  "required_param n = \<lparr>ip_name = n, ip_annotation = obj_class, ip_default = None\<rparr>"

definition plain_output :: "string \<Rightarrow> pytype \<Rightarrow> string \<times> block_output" where
  "plain_output n t = (n, \<lparr>out_name = n, out_label = [], out_data_type = t, out_description = []\<rparr>)"

definition dict_class :: pytype where "dict_class = Klass ''dict'' 5 [5, 1]"

definition control_class ::
    "nat \<Rightarrow> string \<Rightarrow> block_kind \<Rightarrow> (string \<times> block_output) list \<Rightarrow> init_param list \<Rightarrow> block_class" where
  "control_class ref name kind outs params =
     \<lparr>bc_ref = ref, bc_name = name, bc_module = ''kirara_ai.workflow.core.block.base'', bc_kind = kind,
      bc_color = [], bc_description = [], bc_doc = None, bc_inputs = [], bc_outputs = outs,
      bc_params = required_param ''self'' # params\<rparr>"

definition condition_class :: block_class where
  "condition_class = control_class 11 ''ConditionBlock'' ConditionKind
     [plain_output ''condition_result'' bool_class]
     [required_param ''condition_func'', required_param ''inputs'']"

definition loop_class :: block_class where
  "loop_class = control_class 12 ''LoopBlock'' LoopKind
     [plain_output ''should_continue'' bool_class, plain_output ''iteration'' dict_class]
     [required_param ''condition_func'', required_param ''inputs'',
      \<lparr>ip_name = ''iteration_var'', ip_annotation = obj_class, ip_default = Some (JStr ''index'')\<rparr>]"

lemma build_fails_if_node_fails:
  "n \<in> set ns \<Longrightarrow> \<forall>i. \<exists>e. instantiate make_ports i (pass_outputs ov nodes n) = Inl e \<Longrightarrow>
     \<exists>e. build_blocks make_ports ov nodes i ns = Inl e"
proof (induction ns arbitrary: i)
  case (Cons m ms)
  show ?case
  proof (cases "n = m")
    case True
    with Cons.prems(2) obtain e where "instantiate make_ports i (pass_outputs ov nodes m) = Inl e"
      by blast
    then show ?thesis by simp
  next
    case False
    with Cons.IH [of "Suc i"] Cons.prems obtain e where
      "build_blocks make_ports ov nodes (Suc i) ms = Inl e" by auto
    then show ?thesis
      by (cases "instantiate make_ports i (pass_outputs ov nodes m)") simp_all
  qed
qed simp

lemma unknown_keyword_fails:
  assumes "k \<in> fst ` set (sp_kwargs (nd_spec n))" "k \<notin> ip_name ` set (bc_params (sp_class (nd_spec n)))"
  shows "\<exists>e. instantiate make_ports i (pass_outputs ov nodes n) = Inl e"
proof -
  let ?m = "pass_outputs ov nodes n"
  have "k \<in> fst ` set (sp_kwargs (nd_spec ?m))" "sp_class (nd_spec ?m) = sp_class (nd_spec n)"
    using assms(1) by (auto simp: pass_outputs_def dom_update split: option.split)
  with assms(2) have "\<not> signature_accepts (sp_class (nd_spec ?m)) (sp_kwargs (nd_spec ?m))"
    by (fastforce simp: signature_accepts_def list_all_iff)
  then show ?thesis by (simp add: instantiate_def Let_def)
qed

lemma cores_control_node: "cores (snd (control_node linked n b)) = cores b @ [core n]"
proof -
  let ?b1 = "snd (add_node n b)"
  have b1: "cores ?b1 = cores b @ [core n]" by (simp add: add_node_def cores_def)
  have store: "cores (store_wire_spec s t sn tn c) = cores c" for s t sn tn and c :: "'a builder"
    using same_table_store [of s t sn tn c] by (simp add: same_table_def)
  show ?thesis
  proof (cases "wb_current b")
    case None
    with b1 show ?thesis by (simp add: control_node_def split_beta)
  next
    case (Some j)
    have keep: "core (m\<lparr>nd_next := xs\<rparr>) = core m" "core (m\<lparr>nd_parent := p\<rparr>) = core m"
      for m :: "'a node" and xs p
      by (simp_all add: core_def)
    from Some b1 show ?thesis
      by (cases linked) (simp_all add: control_node_def split_beta Let_def keep store)
  qed
qed

text \<open>The keyword \<open>condition\<close> the fluent operations store is not a parameter of the control
  blocks: a builder with an \<open>if_then\<close> or a \<open>loop\<close> never builds.\<close>

lemma control_node_never_builds:
  assumes "cores b' = cores b @ [core n]"
    and "k \<in> fst ` set (sp_kwargs (nd_spec n))" "k \<notin> ip_name ` set (bc_params (sp_class (nd_spec n)))"
  shows "\<exists>e. build_workflow make_ports ov b' = Inl e"
proof -
  from assms(1) have "core n \<in> set (cores b')" by simp
  then obtain m where m: "m \<in> set (wb_nodes b')" "core m = core n" by (auto simp: cores_def)
  then have "sp_kwargs (nd_spec m) = sp_kwargs (nd_spec n)" "sp_class (nd_spec m) = sp_class (nd_spec n)"
    by (simp_all add: core_def)
  with assms(2,3) have "\<forall>i. \<exists>e. instantiate make_ports i (pass_outputs ov (wb_nodes b') m) = Inl e"
    by (intro allI unknown_keyword_fails [where k = k]) simp_all
  from build_fails_if_node_fails [OF m(1) this, of 0] show ?thesis
    by (auto simp: build_workflow_def)
qed

lemma if_then_never_builds:
  assumes "if_then draws condition_class no_outputs f name b = Inr b'"
  shows "\<exists>e. build_workflow make_ports ov b' = Inl e"
proof -
  from assms obtain n where n: "named draws name ''condition'' b = Inr n"
    by (auto simp: if_then_def split: sum.splits)
  let ?nd = "(new_node \<lparr>sp_class = condition_class, sp_name = n,
     sp_kwargs = [(''condition'', f), (''outputs'', no_outputs)], sp_wire_from = []\<rparr>)\<lparr>nd_conditional := True\<rparr>"
  from assms n have "cores b' = cores (snd (control_node True ?nd b))"
    by (auto simp: if_then_def split_beta Let_def cores_def)
  then show ?thesis
    unfolding cores_control_node
    by (rule control_node_never_builds [where k = "''condition''"])
       (auto simp: new_node_def condition_class_def control_class_def required_param_def)
qed

lemma loop_never_builds:
  assumes "loop_block draws loop_class no_outputs (f, var) name b = Inr b'"
  shows "\<exists>e. build_workflow make_ports ov b' = Inl e"
proof -
  from assms obtain n where n: "named draws name ''loop'' b = Inr n"
    by (auto simp: loop_block_def split: sum.splits)
  let ?nd = "(new_node \<lparr>sp_class = loop_class, sp_name = n,
     sp_kwargs = [(''condition'', f), (''outputs'', no_outputs), (''iteration_var'', var)],
     sp_wire_from = []\<rparr>)\<lparr>nd_loop := True\<rparr>"
  from assms n have "cores b' = cores (snd (control_node True ?nd b))"
    by (auto simp: loop_block_def split_beta Let_def cores_def)
  then show ?thesis
    unfolding cores_control_node
    by (rule control_node_never_builds [where k = "''condition''"])
       (auto simp: new_node_def loop_class_def control_class_def required_param_def)
qed

text \<open>The documented \<open>if_then(\<dots>).chain(\<dots>).else_then()\<close> is refused: after a chained block the
  current node is not the condition.\<close>

lemma else_after_chain_fails:
  assumes "name \<noteq> []" "chain_block draws c (Some name) from_names kwargs b = Inr b'"
  shows "else_then b' = Inl ElseWithoutIf \<and> end_if b' = Inl EndIfWithoutIf"
proof -
  from chain_block_extends [OF assms(1), of draws c from_names kwargs b] assms(2)
  have ext: "cores b' = cores b @ [(c, kwargs, name, False, None, False)]" by (simp add: extends_def)
  have cur: "wb_current b' = Some (length (wb_nodes b))"
    using assms by (auto simp: chain_block_def create_node_def add_node_def Let_def)
  have "length (wb_nodes b) < length (wb_nodes b')"
    unfolding length_cores ext by simp
  then have "core (wb_nodes b' ! length (wb_nodes b)) = (c, kwargs, name, False, None, False)"
    using ext by (metis cores_def length_map nth_append_length nth_map)
  then have "\<not> nd_conditional (wb_nodes b' ! length (wb_nodes b))" by (simp add: core_def)
  with cur show ?thesis by (simp add: else_then_def end_if_def current_node_def)
qed

end
