(* ===== verification/Workflow_Registry.thy ===== *)
theory Workflow_Registry
  imports Workflow_Roundtrip File_Recovery
begin

text \<open>
  The table of workflows and its files: \<open>WorkflowRegistry\<close> of
  \<open>workflow/core/workflow/registry.py\<close>, over the disk and the transactions of
  \<open>File_Transaction\<close>.

  The YAML text of a document and the JSON text of the deletion marks are the parameters of
  \<open>texts\<close>. An operation is a function of the table in memory and of the world (the disk and the
  faults to come); its outcome says whether it returned, raised or was stopped. Group
  directories exist as soon as a file is written into them.
\<close>

section \<open>State\<close>

record 'p workflow_table =
  wt_workflows :: "(string \<times> 'p builder) list"
  wt_presets :: "string set"
  wt_deleted :: "string set"

definition new_workflow_table :: "'p workflow_table" where
  "new_workflow_table = \<lparr>wt_workflows = [], wt_presets = {}, wt_deleted = {}\<rparr>"

record 'p texts =
  tx_dump :: "'p workflow_doc \<Rightarrow> string"
  tx_parse :: "string \<Rightarrow> 'p workflow_doc option"
  tx_dump_ids :: "string list \<Rightarrow> string"
  tx_parse_ids :: "string \<Rightarrow> string list option"

datatype table_error =
    InvalidSymbols
  | WorkflowExists string
  | WorkflowMissing string
  | NotWritten

type_synonym 'p table_result = "(table_error + unit) outcome \<times> 'p workflow_table \<times> world"

section \<open>Paths\<close>

definition path_symbol :: "char \<Rightarrow> bool" where
  "path_symbol c = (c \<in> set ''abcdefghijklmnopqrstuvwxyzABCDEFGHIJKLMNOPQRSTUVWXYZ0123456789_-'')"

definition valid_symbols :: "string \<Rightarrow> bool" where
  "valid_symbols s = (s \<noteq> [] \<and> list_all path_symbol s)"

definition workflow_path :: "path \<Rightarrow> string \<Rightarrow> string \<Rightarrow> path" where
  "workflow_path base g w = base @ [g, w @ ''.yaml'']"

definition resolve_workflow_path :: "path \<Rightarrow> string \<Rightarrow> string \<Rightarrow> path option" where
  "resolve_workflow_path base g w =
     (if valid_symbols w \<and> valid_symbols g then Some (workflow_path base g w) else None)"

definition tombstones_path :: "path \<Rightarrow> path" where
  "tombstones_path base = base @ [''.preset_tombstones.json'']"

definition file_at :: "path \<Rightarrow> world \<Rightarrow> string option" where
  "file_at p w = dk_files (fst w) (Target p)"

section \<open>Writes\<close>

text \<open>
  \<open>FileTransaction.commit\<close> with a callback that changes the table in memory: it runs once all
  files are in place, before the transaction is recorded as committed. It cannot raise.
\<close>

definition reaches_callback :: "path \<Rightarrow> string \<Rightarrow> mutation list \<Rightarrow> world \<Rightarrow> bool" where
  "reaches_callback dir tid ms w =
     (ms \<noteq> [] \<and>
      (case open_transaction dir tid ms w of
         (Done _, w1) \<Rightarrow> (case publish_all tid w1 of (Done _, _) \<Rightarrow> True | _ \<Rightarrow> False)
       | _ \<Rightarrow> False))"

definition commit_then ::
    "path \<Rightarrow> string \<Rightarrow> mutation list \<Rightarrow> ('p workflow_table \<Rightarrow> 'p workflow_table) \<Rightarrow>
     'p workflow_table \<Rightarrow> world \<Rightarrow> 'p table_result" where
  "commit_then dir tid ms publish t w =
     (let t' = (if reaches_callback dir tid ms w then publish t else t);
          (r, w') = commit dir tid ms False w
      in (case r of Done _ \<Rightarrow> Done (Inr ()) | Raised \<Rightarrow> Done (Inl NotWritten) | Stopped \<Rightarrow> Stopped, t', w'))"

definition tombstone_text :: "'p texts \<Rightarrow> string set \<Rightarrow> string" where
  "tombstone_text tx ids = tx_dump_ids tx (sorted_list_of_set ids)"

definition tombstone_mutation :: "'p texts \<Rightarrow> path \<Rightarrow> string set \<Rightarrow> mutation" where
  "tombstone_mutation tx base ids =
     \<lparr>mu_target = tombstones_path base, mu_content = Some (tombstone_text tx ids)\<rparr>"

definition workflow_name :: "string \<Rightarrow> string \<Rightarrow> string" where
  "workflow_name g w = g @ '':'' @ w"

definition publish_builder ::
    "string \<Rightarrow> string \<Rightarrow> 'p builder \<Rightarrow> string set \<Rightarrow> 'p workflow_table \<Rightarrow> 'p workflow_table" where
  "publish_builder name previous b deleted t =
     t\<lparr>wt_workflows := AList.update name (b\<lparr>wb_id := Some name\<rparr>)
         (if previous \<noteq> name then AList.delete previous (wt_workflows t) else wt_workflows t),
       wt_deleted := deleted\<rparr>"

text \<open>\<open>persist_builder\<close>: \<open>previous\<close> is the identity an update replaces.\<close>

definition persist_builder ::
    "'p texts \<Rightarrow> path \<Rightarrow> string \<Rightarrow> block_registry \<Rightarrow> string \<Rightarrow> string \<Rightarrow> 'p builder \<Rightarrow>
     (string \<times> string) option \<Rightarrow> bool \<Rightarrow> 'p workflow_table \<Rightarrow> world \<Rightarrow> 'p table_result" where
  "persist_builder tx base tid reg g w b previous create_only t wd =
     (let name = workflow_name g w;
          (pg, pw) = (case previous of Some p \<Rightarrow> p | None \<Rightarrow> (g, w));
          old_name = workflow_name pg pw;
          pg' = (if pg = [] then g else pg); pw' = (if pw = [] then w else pw)
      in case (resolve_workflow_path base g w, resolve_workflow_path base pg' pw') of
           (Some new_path, Some old_path) \<Rightarrow>
             (let taken = (map_of (wt_workflows t) name \<noteq> None \<or> file_at new_path wd \<noteq> None) in
              if create_only \<and> taken then (Done (Inl (WorkflowExists name)), t, wd)
              else if old_name \<noteq> name \<and> taken then (Done (Inl (WorkflowExists name)), t, wd)
              else if previous \<noteq> None \<and> map_of (wt_workflows t) old_name = None
              then (Done (Inl (WorkflowMissing old_name)), t, wd)
              else
                let kept = wt_deleted t - {name};
                    deleted = (if old_name \<noteq> name \<and> old_name \<in> wt_presets t
                               then insert old_name kept else kept);
                    ms = [\<lparr>mu_target = new_path, mu_content = Some (tx_dump tx (save_document reg b))\<rparr>,
                          tombstone_mutation tx base deleted] @
                         (if old_path \<noteq> new_path
                          then [\<lparr>mu_target = old_path, mu_content = None\<rparr>] else [])
                in commit_then base tid ms (publish_builder name old_name b deleted) t wd)
         | _ \<Rightarrow> (Done (Inl InvalidSymbols), t, wd))"

definition remove_workflow :: "string \<Rightarrow> string set \<Rightarrow> 'p workflow_table \<Rightarrow> 'p workflow_table" where
  "remove_workflow name deleted t =
     t\<lparr>wt_workflows := AList.delete name (wt_workflows t), wt_deleted := deleted\<rparr>"

definition delete_persisted ::
    "'p texts \<Rightarrow> path \<Rightarrow> string \<Rightarrow> string \<Rightarrow> string \<Rightarrow> 'p workflow_table \<Rightarrow> world \<Rightarrow> 'p table_result" where
  "delete_persisted tx base tid g w t wd =
     (let name = workflow_name g w in
      if map_of (wt_workflows t) name = None then (Done (Inl (WorkflowMissing name)), t, wd)
      else
        case resolve_workflow_path base g w of
          None \<Rightarrow> (Done (Inl InvalidSymbols), t, wd)
        | Some p \<Rightarrow>
            (let deleted = (if name \<in> wt_presets t then insert name (wt_deleted t) else wt_deleted t)
             in commit_then base tid
                  [\<lparr>mu_target = p, mu_content = None\<rparr>, tombstone_mutation tx base deleted]
                  (remove_workflow name deleted) t wd))"

section \<open>The table without transactions\<close>

text \<open>\<open>_write_preset_tombstones\<close> replaces the file atomically or raises.\<close>

definition write_tombstones :: "'p texts \<Rightarrow> path \<Rightarrow> string set \<Rightarrow> unit io" where
  "write_tombstones tx base ids =
     io_atomic (set_file (Target (tombstones_path base)) (Some (tombstone_text tx ids)))"

definition unregister_workflow :: "string \<Rightarrow> 'p workflow_table \<Rightarrow> 'p workflow_table" where
  "unregister_workflow name t = t\<lparr>wt_workflows := AList.delete name (wt_workflows t)\<rparr>"

definition mark_preset_deleted ::
    "'p texts \<Rightarrow> path \<Rightarrow> string \<Rightarrow> 'p workflow_table \<Rightarrow> world \<Rightarrow> 'p table_result" where
  "mark_preset_deleted tx base name t wd =
     (if name \<notin> wt_presets t then (Done (Inr ()), t, wd)
      else
        let t' = t\<lparr>wt_deleted := insert name (wt_deleted t)\<rparr>;
            (r, wd') = write_tombstones tx base (wt_deleted t') wd
        in (case r of Done _ \<Rightarrow> Done (Inr ()) | Raised \<Rightarrow> Done (Inl NotWritten) | Stopped \<Rightarrow> Stopped, t', wd'))"

definition delete_workflow_entry ::
    "'p texts \<Rightarrow> path \<Rightarrow> string \<Rightarrow> 'p workflow_table \<Rightarrow> world \<Rightarrow> 'p table_result" where
  "delete_workflow_entry tx base name t wd =
     (if map_of (wt_workflows t) name = None then (Done (Inl (WorkflowMissing name)), t, wd)
      else
        case mark_preset_deleted tx base name t wd of
          (Done (Inr _), t', wd') \<Rightarrow> (Done (Inr ()), unregister_workflow name t', wd')
        | r \<Rightarrow> r)"

definition restore_preset ::
    "'p texts \<Rightarrow> path \<Rightarrow> string \<Rightarrow> 'p workflow_table \<Rightarrow> world \<Rightarrow> 'p table_result" where
  "restore_preset tx base name t wd =
     (if name \<notin> wt_deleted t then (Done (Inr ()), t, wd)
      else
        let t' = t\<lparr>wt_deleted := wt_deleted t - {name}\<rparr>;
            (r, wd') = write_tombstones tx base (wt_deleted t') wd
        in (case r of Done _ \<Rightarrow> Done (Inr ()) | Raised \<Rightarrow> Done (Inl NotWritten) | Stopped \<Rightarrow> Stopped, t', wd'))"

definition put_workflow :: "string \<Rightarrow> 'p builder \<Rightarrow> 'p workflow_table \<Rightarrow> 'p workflow_table" where
  "put_workflow name b t =
     t\<lparr>wt_workflows := AList.update name (b\<lparr>wb_id := Some name\<rparr>) (wt_workflows t)\<rparr>"

definition register_workflow ::
    "'p texts \<Rightarrow> path \<Rightarrow> string \<Rightarrow> 'p builder \<Rightarrow> 'p workflow_table \<Rightarrow> world \<Rightarrow> 'p table_result" where
  "register_workflow tx base name b t wd =
     (if name \<in> wt_deleted t then
        (let deleted = wt_deleted t - {name}
         in case write_tombstones tx base deleted wd of
              (Done _, wd') \<Rightarrow> (Done (Inr ()), put_workflow name b (t\<lparr>wt_deleted := deleted\<rparr>), wd')
            | (Raised, wd') \<Rightarrow> (Done (Inl NotWritten), t, wd')
            | (Stopped, wd') \<Rightarrow> (Stopped, t, wd'))
      else (Done (Inr ()), put_workflow name b t, wd))"

definition register_preset_workflow :: "string \<Rightarrow> 'p builder \<Rightarrow> 'p workflow_table \<Rightarrow> 'p workflow_table" where
  "register_preset_workflow name b t =
     (let t' = t\<lparr>wt_presets := insert name (wt_presets t)\<rparr>
      in if name \<in> wt_deleted t' \<or> map_of (wt_workflows t') name \<noteq> None then t'
         else t'\<lparr>wt_workflows := AList.update name b (wt_workflows t')\<rparr>)"

definition get_workflow ::
    "(block_class \<Rightarrow> (string \<times> 'p) list \<Rightarrow> ports option) \<Rightarrow>
     ((string \<times> block_output) list \<Rightarrow> 'p) \<Rightarrow> string \<Rightarrow> 'p workflow_table \<Rightarrow>
     (builder_error + workflow) option" where
  "get_workflow make_ports ov name t =
     map_option (build_workflow make_ports ov) (map_of (wt_workflows t) name)"

section \<open>Loading\<close>

definition load_preset_tombstones :: "'p texts \<Rightarrow> path \<Rightarrow> 'p workflow_table \<Rightarrow> world \<Rightarrow> 'p workflow_table" where
  "load_preset_tombstones tx base t wd =
     (case file_at (tombstones_path base) wd of
        None \<Rightarrow> t\<lparr>wt_deleted := {}\<rparr>
      | Some text \<Rightarrow>
          (case tx_parse_ids tx text of
             None \<Rightarrow> t
           | Some ids \<Rightarrow> t\<lparr>wt_deleted := set ids\<rparr>))"

text \<open>\<open>_extract_bundled_presets\<close>: group, identifier and text of every bundled file; a copy that
  fails is logged.\<close>

definition extract_preset ::
    "path \<Rightarrow> string \<times> string \<times> string \<Rightarrow> 'p workflow_table \<times> world \<Rightarrow>
     unit outcome \<times> 'p workflow_table \<times> world" where
  "extract_preset base preset state =
     (case (preset, state) of ((g, w, text), (t, wd)) \<Rightarrow>
       let name = workflow_name g w; t' = t\<lparr>wt_presets := insert name (wt_presets t)\<rparr>;
           p = workflow_path base g w
       in if name \<in> wt_deleted t' \<or> file_at p wd \<noteq> None then (Done (), t', wd)
          else
            case io_try (io_write (Target p) (Some text)) wd of
              (Done _, wd') \<Rightarrow> (Done (), t', wd')
            | (_, wd') \<Rightarrow> (Stopped, t', wd'))"

fun extract_presets ::
    "path \<Rightarrow> (string \<times> string \<times> string) list \<Rightarrow> 'p workflow_table \<times> world \<Rightarrow>
     unit outcome \<times> 'p workflow_table \<times> world" where
  "extract_presets base [] (t, wd) = (Done (), t, wd)"
| "extract_presets base (p # ps) (t, wd) =
     (case extract_preset base p (t, wd) of
        (Done _, t', wd') \<Rightarrow> extract_presets base ps (t', wd')
      | r \<Rightarrow> r)"

text \<open>One file of the directory; a file that cannot be loaded or registered is logged.\<close>

definition load_workflow_file ::
    "'p texts \<Rightarrow> (string \<Rightarrow> block_class option) \<Rightarrow> ('p \<Rightarrow> string list) \<Rightarrow> string list \<Rightarrow>
     block_registry \<Rightarrow> path \<Rightarrow> string \<times> string \<Rightarrow> 'p workflow_table \<Rightarrow> world \<Rightarrow>
     unit outcome \<times> 'p workflow_table \<times> world" where
  "load_workflow_file tx import_class as_names draws reg base file t wd =
     (case file of (g, w) \<Rightarrow>
       case Option.bind (file_at (workflow_path base g w) wd) (tx_parse tx) of
         None \<Rightarrow> (Done (), t, wd)
       | Some doc \<Rightarrow>
           (case load_document import_class as_names draws reg doc of
              Inl e \<Rightarrow> (Done (), t, wd)
            | Inr b \<Rightarrow>
                (case register_workflow tx base (workflow_name g w) b t wd of
                   (Stopped, t', wd') \<Rightarrow> (Stopped, t', wd')
                 | (_, t', wd') \<Rightarrow> (Done (), t', wd'))))"

fun load_workflow_files ::
    "'p texts \<Rightarrow> (string \<Rightarrow> block_class option) \<Rightarrow> ('p \<Rightarrow> string list) \<Rightarrow> string list \<Rightarrow>
     block_registry \<Rightarrow> path \<Rightarrow> (string \<times> string) list \<Rightarrow> 'p workflow_table \<Rightarrow> world \<Rightarrow>
     unit outcome \<times> 'p workflow_table \<times> world" where
  "load_workflow_files tx import_class as_names draws reg base [] t wd = (Done (), t, wd)"
| "load_workflow_files tx import_class as_names draws reg base (f # fs) t wd =
     (case load_workflow_file tx import_class as_names draws reg base f t wd of
        (Done _, t', wd') \<Rightarrow> load_workflow_files tx import_class as_names draws reg base fs t' wd'
      | r \<Rightarrow> r)"

text \<open>\<open>load_workflows\<close>: \<open>bundled\<close> are the presets of the package; \<open>names\<close> is the order in which
  \<open>os.listdir\<close> lists the \<open>.yaml\<close> files of the group directories, over every name there may be.\<close>

definition load_workflows ::
    "'p texts \<Rightarrow> (string \<Rightarrow> block_class option) \<Rightarrow> ('p \<Rightarrow> string list) \<Rightarrow> string list \<Rightarrow>
     block_registry \<Rightarrow> path \<Rightarrow> (string \<times> string \<times> string) list \<Rightarrow>
     (string \<times> string) list \<Rightarrow> 'p workflow_table \<Rightarrow> world \<Rightarrow>
     unit outcome \<times> 'p workflow_table \<times> world" where
  "load_workflows tx import_class as_names draws reg base bundled names t wd =
     (case recover_directory base wd of
        (Done _, wd1) \<Rightarrow>
          (case extract_presets base bundled (load_preset_tombstones tx base t wd1, wd1) of
             (Done _, t2, wd2) \<Rightarrow>
               load_workflow_files tx import_class as_names draws reg base
                 (filter (\<lambda>(g, w). file_at (workflow_path base g w) wd2 \<noteq> None) names) t2 wd2
           | r \<Rightarrow> r)
      | (Raised, wd1) \<Rightarrow> (Raised, t, wd1)
      | (Stopped, wd1) \<Rightarrow> (Stopped, t, wd1))"

section \<open>Names and paths\<close>

lemma name_inj:
  assumes "workflow_name g w = workflow_name g' w'" "CHR '':'' \<notin> set g" "CHR '':'' \<notin> set w"
  shows "g = g' \<and> w = w'"
proof -
  have eq: "g @ CHR '':'' # w = g' @ CHR '':'' # w'" using assms(1) by (simp add: workflow_name_def)
  then have "length (filter (\<lambda>c. c = CHR '':'') (g' @ CHR '':'' # w')) = 1"
    using assms(2,3) by (simp flip: eq add: filter_empty_conv) (metis filter_False)
  then have "CHR '':'' \<notin> set g'" by (auto simp: filter_empty_conv)
  then have "takeWhile (\<lambda>c. c \<noteq> CHR '':'') (g' @ CHR '':'' # w') = g'"
    by (simp add: takeWhile_tail takeWhile_eq_all_conv) metis
  moreover have "takeWhile (\<lambda>c. c \<noteq> CHR '':'') (g @ CHR '':'' # w) = g"
    using assms(2) by (simp add: takeWhile_tail takeWhile_eq_all_conv) metis
  ultimately have "g = g'" using eq by simp
  with eq show ?thesis by simp
qed

lemma colon_symbol: "\<not> path_symbol CHR '':''"
  by (simp add: path_symbol_def)

lemma valid_no_colon: "valid_symbols s \<Longrightarrow> CHR '':'' \<notin> set s"
  using colon_symbol by (auto simp: valid_symbols_def list_all_iff)

lemma path_inj [simp]: "workflow_path base g w = workflow_path base g' w' \<longleftrightarrow> g = g' \<and> w = w'"
  by (simp add: workflow_path_def)

lemma path_not_tombstones [simp]:
  "workflow_path base g w \<noteq> tombstones_path base" "tombstones_path base \<noteq> workflow_path base g w"
  by (simp_all add: workflow_path_def tombstones_path_def)

lemma resolve_valid: "resolve_workflow_path base g w = Some p \<longleftrightarrow>
    valid_symbols g \<and> valid_symbols w \<and> p = workflow_path base g w"
  by (auto simp: resolve_workflow_path_def)

lemma same_name: "valid_symbols g \<Longrightarrow> valid_symbols w \<Longrightarrow>
    workflow_name g w = workflow_name g' w' \<longleftrightarrow> g = g' \<and> w = w'"
  using name_inj valid_no_colon by blast

text \<open>A transaction that returns has published the change in memory.\<close>

lemma commit_then_done: "commit_then base tid ms f t wd = (Done (Inr ()), t', wd') \<Longrightarrow> t' = f t"
proof -
  assume run: "commit_then base tid ms f t wd = (Done (Inr ()), t', wd')"
  obtain w' where commit: "commit base tid ms False wd = (Done (), w')"
    using run by (cases "commit base tid ms False wd") (auto simp: commit_then_def Let_def split: outcome.splits)
  have "reaches_callback base tid ms wd"
  proof (cases "open_transaction base tid ms wd")
    case (fields r d1 j1 fs1)
    with commit show ?thesis
      by (cases "publish_all tid (d1, j1, fs1)")
        (auto simp: commit_def reaches_callback_def io_bind_def publish_transaction_def io_on_error_def
          io_return_def io_raise_def split: outcome.splits prod.splits if_splits)
  qed
  with run commit show "t' = f t" by (auto simp: commit_then_def Let_def)
qed

lemma persist_done:
  assumes "persist_builder tx base tid reg g w b previous create_only t wd = (Done (Inr ()), t', wd')"
    and "old = (case previous of Some (pg, pw) \<Rightarrow> workflow_name pg pw | None \<Rightarrow> workflow_name g w)"
  shows "map_of (wt_workflows t') =
    ((map_of (wt_workflows t))(old := None))(workflow_name g w \<mapsto> b\<lparr>wb_id := Some (workflow_name g w)\<rparr>)"
proof -
  obtain ms deleted where
    "commit_then base tid ms (publish_builder (workflow_name g w) old b deleted) t wd = (Done (Inr ()), t', wd')"
    using assms by (auto simp: persist_builder_def Let_def split: option.splits prod.splits if_splits)
  from commit_then_done [OF this] show ?thesis
    by (auto simp: publish_builder_def update_conv' delete_conv')
qed

end
