(* ===== verification/Workflow_Routes.thy ===== *)
theory Workflow_Routes
  imports Workflow_Registry Workflow_Validation
begin

text \<open>
  The handlers of \<open>web/api/workflow/routes.py\<close>: the builder made from the definition a client
  posts, create, update and delete, and the two read handlers. Authentication and the parsing of
  the request are left out.
\<close>

section \<open>Definitions and their builder\<close>

record block_instance =
  bi_type :: string
  bi_name :: string
  bi_config :: "(string \<times> json) list"
  bi_parallel :: bool
  bi_position :: "(string \<times> int) list option"

record workflow_def =
  df_group :: string
  df_workflow :: string
  df_name :: string
  df_description :: string
  df_blocks :: "block_instance list"
  df_wires :: "draft_wire list"
  df_config :: int
  df_metadata :: "json option"

text \<open>What the structural check reads of an instance.\<close>

definition draft_of :: "block_instance \<Rightarrow> draft_block" where
  "draft_of d =
     \<lparr>db_type = bi_type d, db_name = bi_name d, db_config = Some (JObj (bi_config d)),
      db_params = None\<rparr>"

definition add_instance ::
    "(json \<Rightarrow> string list) \<Rightarrow> string list \<Rightarrow> block_registry \<Rightarrow> block_instance \<Rightarrow> json builder \<Rightarrow>
     builder_error + json builder" where
  "add_instance as_names draws reg d b =
     (case get_block (bi_type d) reg of
        None \<Rightarrow> Inl (UnknownBlock (bi_type d))
      | Some c \<Rightarrow>
          (case load_plain as_names draws c (bi_name d) (bi_config d) b of
             Inl e \<Rightarrow> Inl e
           | Inr b1 \<Rightarrow>
               (case (case bi_position d of
                        None \<Rightarrow> Inr b1
                      | Some pos \<Rightarrow> update_position (bi_name d) pos b1) of
                  Inl e \<Rightarrow> Inl e
                | Inr b2 \<Rightarrow>
                    (case map_of (wb_by_name b2) (bi_name d) of
                       None \<Rightarrow> Inl (NoSuchNode (bi_name d))
                     | Some i \<Rightarrow>
                         Inr (change_node i (\<lambda>n. n\<lparr>nd_parallel := bi_parallel d\<rparr>) b2)))))"

fun add_instances ::
    "(json \<Rightarrow> string list) \<Rightarrow> string list \<Rightarrow> block_registry \<Rightarrow> block_instance list \<Rightarrow>
     json builder \<Rightarrow> builder_error + json builder" where
  "add_instances as_names draws reg [] b = Inr b"
| "add_instances as_names draws reg (d # ds) b =
     (case add_instance as_names draws reg d b of
        Inl e \<Rightarrow> Inl e
      | Inr b' \<Rightarrow> add_instances as_names draws reg ds b')"

definition drawn_wire :: "draft_wire \<Rightarrow> wire_spec" where
  "drawn_wire w = (dw_source w, dw_output w, dw_target w, dw_input w)"

definition draft_builder ::
    "(json \<Rightarrow> string list) \<Rightarrow> string list \<Rightarrow> block_registry \<Rightarrow> workflow_def \<Rightarrow>
     builder_error + json builder" where
  "draft_builder as_names draws reg def =
     (let b0 = (new_builder (df_name def))\<lparr>wb_description := df_description def,
                 wb_metadata := df_metadata def\<rparr>
      in case add_instances as_names draws reg (df_blocks def) b0 of
           Inl e \<Rightarrow> Inl e
         | Inr b \<Rightarrow>
             Inr (set_config (df_config def)
               (fold force_connect (map drawn_wire (df_wires def)) (b\<lparr>wb_wires := []\<rparr>))))"

section \<open>The handlers\<close>

text \<open>An answer is a status and a body; \<open>ServerError\<close> is an exception that leaves the handler.\<close>

datatype 'a answer = Answer nat "'a option" | ServerError

type_synonym handled = "unit answer outcome \<times> json workflow_table \<times> world"

definition answered :: "json table_result \<Rightarrow> handled" where
  "answered r =
     (case r of
        (Done (Inr _), t, w) \<Rightarrow> (Done (Answer 200 (Some ())), t, w)
      | (Done (Inl _), t, w) \<Rightarrow> (Done (Answer 400 None), t, w)
      | (Raised, t, w) \<Rightarrow> (Done (Answer 400 None), t, w)
      | (Stopped, t, w) \<Rightarrow> (Stopped, t, w))"

definition refuse :: "nat \<Rightarrow> json workflow_table \<Rightarrow> world \<Rightarrow> handled" where
  "refuse status t wd = (Done (Answer status None), t, wd)"

definition create_workflow ::
    "json texts \<Rightarrow> path \<Rightarrow> string \<Rightarrow> (json \<Rightarrow> string list) \<Rightarrow> string list \<Rightarrow> block_registry \<Rightarrow>
     string \<Rightarrow> string \<Rightarrow> workflow_def \<Rightarrow> json workflow_table \<Rightarrow> world \<Rightarrow> handled" where
  "create_workflow tx base tid as_names draws reg g w def t wd =
     (if df_group def \<noteq> g \<or> df_workflow def \<noteq> w then refuse 400 t wd
      else if map_of (wt_workflows t) (workflow_name g w) \<noteq> None then refuse 400 t wd
      else
        case resolve_workflow_path base g w of
          None \<Rightarrow> (Done ServerError, t, wd)
        | Some p \<Rightarrow>
            (if file_at p wd \<noteq> None then refuse 409 t wd
             else
               case draft_builder as_names draws reg def of
                 Inl e \<Rightarrow> refuse 400 t wd
               | Inr b \<Rightarrow> answered (persist_builder tx base tid reg g w b None True t wd)))"

definition update_workflow ::
    "json texts \<Rightarrow> path \<Rightarrow> string \<Rightarrow> (json \<Rightarrow> string list) \<Rightarrow> string list \<Rightarrow> block_registry \<Rightarrow>
     string \<Rightarrow> string \<Rightarrow> workflow_def \<Rightarrow> json workflow_table \<Rightarrow> world \<Rightarrow> handled" where
  "update_workflow tx base tid as_names draws reg g w def t wd =
     (let name = workflow_name g w; new = workflow_name (df_group def) (df_workflow def) in
      if map_of (wt_workflows t) name = None then refuse 404 t wd
      else if new \<noteq> name \<and> map_of (wt_workflows t) new \<noteq> None then refuse 409 t wd
      else
        case resolve_workflow_path base (df_group def) (df_workflow def) of
          None \<Rightarrow> (Done ServerError, t, wd)
        | Some p \<Rightarrow>
            (if new \<noteq> name \<and> file_at p wd \<noteq> None then refuse 409 t wd
             else
               case draft_builder as_names draws reg def of
                 Inl e \<Rightarrow> refuse 400 t wd
               | Inr b \<Rightarrow>
                   answered (persist_builder tx base tid reg (df_group def) (df_workflow def) b
                     (Some (g, w)) False t wd)))"

definition delete_workflow ::
    "json texts \<Rightarrow> path \<Rightarrow> string \<Rightarrow> string \<Rightarrow> string \<Rightarrow> json workflow_table \<Rightarrow> world \<Rightarrow> handled" where
  "delete_workflow tx base tid g w t wd =
     (if map_of (wt_workflows t) (workflow_name g w) = None then refuse 404 t wd
      else answered (delete_persisted tx base tid g w t wd))"

text \<open>What \<open>get_workflow\<close> answers: nodes in order and wires, as the canvas edits them.\<close>

definition shown_instance :: "block_registry \<Rightarrow> json node \<Rightarrow> block_instance" where
  "shown_instance reg n =
     \<lparr>bi_type = get_block_type_name (sp_class (nd_spec n)) reg, bi_name = nd_name n,
      bi_config = sp_kwargs (nd_spec n), bi_parallel = nd_parallel n, bi_position = nd_position n\<rparr>"

definition shown_wire :: "wire_spec \<Rightarrow> draft_wire" where
  "shown_wire = (\<lambda>(s, out, t, inp). \<lparr>dw_source = s, dw_output = out, dw_target = t, dw_input = inp\<rparr>)"

definition show_workflow ::
    "block_registry \<Rightarrow> string \<Rightarrow> string \<Rightarrow> json workflow_table \<Rightarrow> workflow_def answer" where
  "show_workflow reg g w t =
     (case map_of (wt_workflows t) (workflow_name g w) of
        None \<Rightarrow> Answer 404 None
      | Some b \<Rightarrow> Answer 200 (Some
          \<lparr>df_group = g, df_workflow = w, df_name = wb_name b, df_description = wb_description b,
           df_blocks = map (shown_instance reg) (wb_nodes b), df_wires = map shown_wire (wb_wires b),
           df_config = wb_config b, df_metadata = wb_metadata b\<rparr>))"

text \<open>Of an entry of the list: group, identifier, name and number of blocks. The catalogue data of
  presets is left out.\<close>

definition split_name :: "string \<Rightarrow> string \<times> string" where
  "split_name n = (takeWhile (\<lambda>c. c \<noteq> CHR '':'') n, drop 1 (dropWhile (\<lambda>c. c \<noteq> CHR '':'') n))"

definition list_workflows ::
    "json workflow_table \<Rightarrow> (string \<times> string \<times> string \<times> nat) list" where
  "list_workflows t =
     sort_key (\<lambda>(g, w, _). workflow_name g w)
       (map (\<lambda>(name, b). case split_name name of (g, w) \<Rightarrow>
          (g, w, wb_name b, length (wb_by_name b))) (wt_workflows t))"

section \<open>The nodes of that builder\<close>

text \<open>An instance the handlers accept, and the class of its node.\<close>

definition instance_ok :: "block_registry \<Rightarrow> block_instance \<Rightarrow> block_class \<Rightarrow> bool" where
  "instance_ok reg d c =
     (get_block (bi_type d) reg = Some c \<and> bi_name d \<noteq> [] \<and>
      fst ` set (bi_config d) \<inter> {''self'', ''block_class'', ''name'', ''wire_from''} = {})"

definition instance_core where
  "instance_core d c = (c, bi_config d, bi_name d, bi_parallel d, bi_position d, False)"

lemma load_plain_extends:
  assumes name: "name \<noteq> []"
    and free: "fst ` set params \<inter> {''self'', ''block_class'', ''name'', ''wire_from''} = {}"
  shows "\<exists>b'. load_plain as_names draws c name params b = Inr b' \<and>
    extends b b' (c, params, name, False, None, False)"
proof -
  have none: "List.find (\<lambda>(k, _). k \<in> set reserved_params) params = None"
    using free by (force simp: find_None_iff reserved_params_def)
  have no_from: "map_of params ''wire_from'' = None" "AList.delete ''wire_from'' params = params"
    using free by (auto simp: map_of_eq_None_iff intro!: delete_absent)
  have "load_plain as_names draws c name params b =
      (if wb_head b = None then use_block draws c (Some name) params b
       else chain_block draws c (Some name) [] params b)"
    by (simp add: load_plain_def none no_from)
  with use_block_extends [OF name, of draws c params b]
    chain_block_extends [OF name, of draws c "[]" params b] show ?thesis
    by (cases "wb_head b = None") auto
qed

text \<open>Changing the newest node.\<close>

lemma extends_change:
  assumes "extends b b' c" "\<And>n. core (f n) = g (core n)" "fst (snd (snd (g c))) = fst (snd (snd c))"
  shows "extends b (change_node (length (cores b)) f b') (g c)"
proof -
  have len: "length (cores b) < length (wb_nodes b')"
    using assms(1) by (simp add: extends_def length_cores)
  have "core (wb_nodes b' ! length (cores b)) = cores b' ! length (cores b)"
    using len by (simp add: cores_def)
  also have "\<dots> = c" using assms(1) by (simp add: extends_def)
  finally have "cores (change_node (length (cores b)) f b') = cores b @ [g c]"
    using assms(1) len
    by (simp add: extends_def cores_def change_node_def map_update assms(2) list_update_append)
  with assms(1,3) show ?thesis
    by (simp add: extends_def) (simp add: change_node_def)
qed

lemma add_instance_extends:
  assumes d: "instance_ok reg d c"
  shows "\<exists>b'. add_instance as_names draws reg d b = Inr b' \<and> extends b b' (instance_core d c)"
proof -
  from d load_plain_extends [of "bi_name d" "bi_config d" as_names draws c b]
  obtain b1 where b1: "load_plain as_names draws c (bi_name d) (bi_config d) b = Inr b1"
    and ext: "extends b b1 (c, bi_config d, bi_name d, False, None, False)"
    by (auto simp: instance_ok_def)
  have at: "map_of (wb_by_name b1) (bi_name d) = Some (length (cores b))"
    using ext by (simp add: extends_def update_conv')
  obtain b2 where
    b2: "(case bi_position d of None \<Rightarrow> Inr b1 | Some pos \<Rightarrow> update_position (bi_name d) pos b1) = Inr b2"
    and at2: "map_of (wb_by_name b2) (bi_name d) = Some (length (cores b))"
    and ext2: "extends b b2 (c, bi_config d, bi_name d, False, bi_position d, False)"
  proof (cases "bi_position d")
    case None
    with that [of b1] at ext show ?thesis by simp
  next
    case (Some pos)
    from extends_change [OF ext, of "\<lambda>n. n\<lparr>nd_position := Some pos\<rparr>" "put_position pos"]
    have "extends b (change_node (length (cores b)) (\<lambda>n. n\<lparr>nd_position := Some pos\<rparr>) b1)
        (c, bi_config d, bi_name d, False, Some pos, False)"
      by (simp add: core_position) (simp add: put_position_def)
    with that Some at show ?thesis by (simp add: update_position_def)
  qed
  let ?g = "\<lambda>(c, k, n, _, pos, ctl). (c, k, n, bi_parallel d, pos, ctl)"
  have "extends b (change_node (length (cores b)) (\<lambda>n. n\<lparr>nd_parallel := bi_parallel d\<rparr>) b2)
      (?g (c, bi_config d, bi_name d, False, bi_position d, False))"
    by (rule extends_change [OF ext2]) (simp_all add: core_def)
  with d b1 b2 at2 show ?thesis
    by (simp add: add_instance_def instance_ok_def instance_core_def)
qed

lemma add_instances_extends:
  assumes "list_all2 (instance_ok reg) ds cs" "distinct (map bi_name ds)"
    and "\<forall>d\<in>set ds. map_of (wb_by_name b) (bi_name d) = None"
  shows "\<exists>b'. add_instances as_names draws reg ds b = Inr b' \<and>
    cores b' = cores b @ map2 instance_core ds cs \<and>
    wb_by_name b' = wb_by_name b @ zip (map bi_name ds) [length (cores b)..<length (cores b) + length ds] \<and>
    wb_name b' = wb_name b \<and> wb_description b' = wb_description b \<and> wb_metadata b' = wb_metadata b"
  using assms
proof (induction ds cs arbitrary: b rule: list_all2_induct)
  case (Cons d ds c cs)
  have new: "map_of (wb_by_name b) (bi_name d) = None" using Cons.prems(2) by simp
  from add_instance_extends [OF Cons.hyps(1), of as_names draws b] obtain b1 where
    b1: "add_instance as_names draws reg d b = Inr b1"
    and ext: "extends b b1 (instance_core d c)" by auto
  have by_name: "wb_by_name b1 = wb_by_name b @ [(bi_name d, length (cores b))]"
    using ext by (simp add: extends_def instance_core_def update_fresh [OF new])
  have "\<forall>d'\<in>set ds. map_of (wb_by_name b1) (bi_name d') = None"
  proof
    fix d' assume d': "d' \<in> set ds"
    with Cons.prems(1) have "bi_name d' \<noteq> bi_name d" by (auto simp: image_iff)
    with d' Cons.prems(2) show "map_of (wb_by_name b1) (bi_name d') = None"
      by (simp add: by_name map_add_def)
  qed
  with Cons.IH [of b1] Cons.prems(1) obtain b2 where
    "add_instances as_names draws reg ds b1 = Inr b2"
    "cores b2 = cores b1 @ map2 instance_core ds cs"
    "wb_by_name b2 = wb_by_name b1 @ zip (map bi_name ds) [length (cores b1)..<length (cores b1) + length ds]"
    "wb_name b2 = wb_name b1" "wb_description b2 = wb_description b1" "wb_metadata b2 = wb_metadata b1" by auto
  moreover have "cores b1 = cores b @ [instance_core d c]" "wb_name b1 = wb_name b"
    "wb_description b1 = wb_description b" "wb_metadata b1 = wb_metadata b"
    using ext by (simp_all add: extends_def)
  ultimately show ?case
    using b1 by_name by (simp add: upt_conv_Cons del: upt_Suc)
qed simp

lemma draft_builder_nodes:
  assumes "list_all2 (instance_ok reg) (df_blocks def) cs" "distinct (map bi_name (df_blocks def))"
  shows "\<exists>b. draft_builder as_names draws reg def = Inr b \<and>
    cores b = map2 instance_core (df_blocks def) cs \<and>
    wb_wires b = map drawn_wire (df_wires def) \<and> wb_config b = df_config def \<and>
    wb_name b = df_name def \<and> wb_description b = df_description def \<and> wb_metadata b = df_metadata def"
proof -
  let ?b0 = "(new_builder (df_name def))\<lparr>wb_description := df_description def,
      wb_metadata := df_metadata def\<rparr>"
  have "cores ?b0 = []" "wb_by_name ?b0 = []" "wb_name ?b0 = df_name def"
    "wb_description ?b0 = df_description def" "wb_metadata ?b0 = df_metadata def"
    by (simp_all add: new_builder_def cores_def)
  with add_instances_extends [OF assms, of ?b0 as_names draws] obtain b where
    b: "add_instances as_names draws reg (df_blocks def) ?b0 = Inr b"
    "cores b = map2 instance_core (df_blocks def) cs" "wb_name b = df_name def"
    "wb_description b = df_description def" "wb_metadata b = df_metadata def" by auto
  from b show ?thesis
    by (simp add: draft_builder_def Let_def fold_force_connect set_config_def) (simp add: cores_def)
qed

section \<open>Reading back\<close>

text \<open>An instance the handlers can write and show again.\<close>

definition shown_back :: "block_registry \<Rightarrow> block_instance \<Rightarrow> bool" where
  "shown_back reg d =
     (case get_block (bi_type d) reg of
        None \<Rightarrow> False
      | Some c \<Rightarrow> instance_ok reg d c \<and> get_block_type_name c reg = bi_type d)"

lemma shown_wire_drawn [simp]: "shown_wire (drawn_wire w) = w"
  by (simp add: shown_wire_def drawn_wire_def)

lemma draft_shown:
  assumes "list_all (shown_back reg) (df_blocks def)" "distinct (map bi_name (df_blocks def))"
    and "draft_builder as_names draws reg def = Inr b"
  shows "map (shown_instance reg) (wb_nodes b) = df_blocks def \<and>
    map shown_wire (wb_wires b) = df_wires def \<and> wb_config b = df_config def \<and>
    wb_name b = df_name def \<and> wb_description b = df_description def \<and> wb_metadata b = df_metadata def"
proof -
  define cs where "cs = map (\<lambda>d. the (get_block (bi_type d) reg)) (df_blocks def)"
  have ok: "list_all2 (instance_ok reg) (df_blocks def) cs"
    using assms(1) by (auto simp: cs_def list_all2_map2 list_all2_same list_all_iff shown_back_def
        split: option.splits)
  from draft_builder_nodes [OF ok assms(2), of as_names draws] assms(3)
  have b: "cores b = map2 instance_core (df_blocks def) cs" "wb_wires b = map drawn_wire (df_wires def)"
    "wb_config b = df_config def" "wb_name b = df_name def" "wb_description b = df_description def"
    "wb_metadata b = df_metadata def" by auto
  have "map (shown_instance reg) (wb_nodes b) = df_blocks def"
  proof (rule nth_equalityI)
    have len: "length (wb_nodes b) = length (df_blocks def)"
      by (simp add: length_cores b(1) cs_def)
    then show "length (map (shown_instance reg) (wb_nodes b)) = length (df_blocks def)" by simp
    fix i assume i: "i < length (map (shown_instance reg) (wb_nodes b))"
    let ?d = "df_blocks def ! i"
    have "core (wb_nodes b ! i) = cores b ! i" using i by (simp add: cores_def)
    then have "core (wb_nodes b ! i) = instance_core ?d (the (get_block (bi_type ?d) reg))"
      using i len by (simp add: b(1) cs_def)
    moreover have "get_block_type_name (the (get_block (bi_type ?d) reg)) reg = bi_type ?d"
      using assms(1) i len by (auto simp: list_all_length shown_back_def split: option.splits)
    ultimately show "map (shown_instance reg) (wb_nodes b) ! i = ?d"
      using i by (simp add: shown_instance_def core_def instance_core_def)
  qed
  with b show ?thesis by (simp add: comp_def)
qed

text \<open>What a client posts is what it reads back. When create or update answers 200 for a
  definition whose nodes have distinct names and registered types, reading the workflow gives
  the definition that was posted, node by node and wire by wire; a workflow that was renamed is
  gone under its old identity, and every other workflow reads as before.\<close>

theorem posted_workflow_reads_back:
  assumes nodes: "list_all (shown_back reg) (df_blocks def)" "distinct (map bi_name (df_blocks def))"
    and posted: "create_workflow tx base tid as_names draws reg g w def t wd = (Done (Answer 200 a), t', wd') \<or>
      update_workflow tx base tid as_names draws reg g w def t wd = (Done (Answer 200 a), t', wd')"
    and valid: "valid_symbols g'" "valid_symbols w'"
  shows "show_workflow reg g' w' t' =
    (if g' = df_group def \<and> w' = df_workflow def then Answer 200 (Some def)
     else if g' = g \<and> w' = w then Answer 404 None
     else show_workflow reg g' w' t)"
proof -
  obtain b previous create_only where b: "draft_builder as_names draws reg def = Inr b"
    and persist: "persist_builder tx base tid reg (df_group def) (df_workflow def) b previous create_only t wd =
      (Done (Inr ()), t', wd')"
    and previous: "(case previous of Some (pg, pw) \<Rightarrow> workflow_name pg pw
      | None \<Rightarrow> workflow_name (df_group def) (df_workflow def)) = workflow_name g w"
    using posted
  proof (rule disjE)
    assume "create_workflow tx base tid as_names draws reg g w def t wd = (Done (Answer 200 a), t', wd')"
    with that [of _ None True] show thesis
      by (auto simp: create_workflow_def refuse_def answered_def
          split: if_splits option.splits sum.splits outcome.splits prod.splits)
  next
    assume "update_workflow tx base tid as_names draws reg g w def t wd = (Done (Answer 200 a), t', wd')"
    with that [of _ "Some (g, w)" False] show thesis
      by (auto simp: update_workflow_def refuse_def answered_def Let_def
          split: if_splits option.splits sum.splits outcome.splits prod.splits)
  qed
  let ?new = "workflow_name (df_group def) (df_workflow def)"
  from persist_done [OF persist previous [symmetric]]
  have table: "map_of (wt_workflows t') =
      ((map_of (wt_workflows t))(workflow_name g w := None))(?new \<mapsto> b\<lparr>wb_id := Some ?new\<rparr>)" .
  from draft_shown [OF nodes b] have "\<lparr>df_group = df_group def, df_workflow = df_workflow def,
      df_name = wb_name b, df_description = wb_description b,
      df_blocks = map (shown_instance reg) (wb_nodes b), df_wires = map shown_wire (wb_wires b),
      df_config = wb_config b, df_metadata = wb_metadata b\<rparr> = def" by simp
  moreover have "workflow_name x y = workflow_name g' w' \<longleftrightarrow> g' = x \<and> w' = y" for x y
    using same_name [OF valid, of x y] by auto
  ultimately show ?thesis
    by (auto simp: show_workflow_def table same_name [OF valid])
qed

text \<open>A draft of three nodes: a source wired to both inputs of a sink and to a node between.\<close>

definition pilot_class :: "nat \<Rightarrow> string list \<Rightarrow> block_class" where
  "pilot_class i ins =
     \<lparr>bc_ref = i, bc_name = ''Pilot'', bc_module = ''m'', bc_kind = NormalKind, bc_color = [],
      bc_description = [], bc_doc = None, bc_inputs = map (\<lambda>n. demo_port n obj_class False) ins,
      bc_outputs = [demo_out ''out'' int_class],
      bc_params = [\<lparr>ip_name = ''self'', ip_annotation = obj_class, ip_default = None\<rparr>]\<rparr>"

definition pilot_registry :: block_registry where
  "pilot_registry = new_block_registry
     \<lparr>br_blocks := [(''p:source'', pilot_class 1 []), (''p:step'', pilot_class 2 [''x'']),
        (''p:sink'', pilot_class 3 [''x'', ''y''])],
      br_types := \<lparr>ts_types = [(''int'', int_class), (''object'', obj_class)], ts_cache = []\<rparr>\<rparr>"

definition pilot_instance :: "string \<Rightarrow> string \<Rightarrow> block_instance" where
  "pilot_instance ty n =
     \<lparr>bi_type = ty, bi_name = n, bi_config = [], bi_parallel = False, bi_position = None\<rparr>"

definition pilot_wire :: "string \<Rightarrow> string \<Rightarrow> string \<Rightarrow> draft_wire" where
  "pilot_wire s t i = \<lparr>dw_source = s, dw_output = ''out'', dw_target = t, dw_input = i\<rparr>"

definition pilot_def :: workflow_def where
  "pilot_def =
     \<lparr>df_group = ''g'', df_workflow = ''w'', df_name = ''pilot'', df_description = [],
      df_blocks = [pilot_instance ''p:sink'' ''c'', pilot_instance ''p:source'' ''a'',
        pilot_instance ''p:step'' ''b''],
      df_wires = [pilot_wire ''a'' ''c'' ''y'', pilot_wire ''a'' ''b'' ''x'', pilot_wire ''b'' ''c'' ''x''],
      df_config = 0, df_metadata = None\<rparr>"

definition pilot_texts :: "json texts" where
  "pilot_texts = \<lparr>tx_dump = (\<lambda>_. ''doc''), tx_parse = (\<lambda>_. None), tx_dump_ids = (\<lambda>_. ''[]''),
     tx_parse_ids = (\<lambda>_. None)\<rparr>"

definition pilot_created :: handled where
  "pilot_created = create_workflow pilot_texts [] ''t'' (\<lambda>_. []) [] pilot_registry ''g'' ''w'' pilot_def
     new_workflow_table (\<lparr>dk_files = (\<lambda>_. None), dk_journals = []\<rparr>, \<lparr>jr_state = Prepared, jr_entries = []\<rparr>, [])"

theorem posted_workflow_reads_back_witness:
  "show_workflow pilot_registry ''g'' ''w'' (fst (snd pilot_created)) = Answer 200 (Some pilot_def)"
proof -
  have "fst pilot_created = Done (Answer 200 (Some ()))" by code_simp
  then obtain t' wd' where created: "pilot_created = (Done (Answer 200 (Some ())), t', wd')"
    by (metis prod.collapse)
  have "list_all (shown_back pilot_registry) (df_blocks pilot_def)" by code_simp
  moreover have "distinct (map bi_name (df_blocks pilot_def))" by code_simp
  moreover have "valid_symbols ''g''" "valid_symbols ''w''"
    by (simp_all add: valid_symbols_def path_symbol_def)
  ultimately have "show_workflow pilot_registry ''g'' ''w'' t' =
      (if ''g'' = df_group pilot_def \<and> ''w'' = df_workflow pilot_def then Answer 200 (Some pilot_def)
       else if ''g'' = ''g'' \<and> ''w'' = ''w'' then Answer 404 None
       else show_workflow pilot_registry ''g'' ''w'' new_workflow_table)"
    using posted_workflow_reads_back [OF _ _ disjI1 [OF created [unfolded pilot_created_def]]] by blast
  then show ?thesis by (simp add: created pilot_def_def)
qed

end
