(* ===== verification/Workflow_Typing.thy ===== *)
theory Workflow_Typing
  imports Workflow_Safety
begin

text \<open>
  Typing of workflows: the check in \<open>_build_execution_graph\<close> accepts exactly the workflows
  whose wires join existing ports of compatible types, and the values that flow in an accepted
  workflow are instances of what the ports declare.
\<close>

section \<open>What the constructor accepts\<close>

definition wire_fits :: "(string \<times> pytype) list \<Rightarrow> wire \<Rightarrow> bool" where
  "wire_fits types w =
     (case wire_types w of Inl _ \<Rightarrow> False | Inr (s, t) \<Rightarrow> compatible types s t)"

lemma build_graph_accepts:
  "cache_ok (br_types reg) \<Longrightarrow>
     (\<exists>g'. fst (build_graph ws g reg) = Inr g') \<longleftrightarrow>
     list_all (wire_fits (ts_types (br_types reg))) ws"
proof (induction ws arbitrary: g reg)
  case Nil
  show ?case by simp
next
  case (Cons w ws)
  show ?case
  proof (cases "wire_types w")
    case (Inl e)
    then show ?thesis by (simp add: wire_fits_def)
  next
    case (Inr st)
    obtain s t where st: "st = (s, t)" by (cases st)
    obtain fits reg' where ask: "is_type_compatible s t reg = (fits, reg')" by fastforce
    from ask have types: "ts_types (br_types reg') = ts_types (br_types reg)"
      by (auto simp: is_type_compatible_def split_beta)
    from ask registry.ask_cases [OF Cons.prems, of "(s, t)" fits reg']
    have "fits = compatible (ts_types (br_types reg)) s t" "cache_ok (br_types reg')"
      by simp_all
    with Cons.IH [of reg'] ask Inr st types show ?thesis
      by (simp add: wire_fits_def)
  qed
qed

text \<open>The constructor of the executor accepts a workflow exactly when both ends of every
  wire name existing ports and the type of the output is compatible with the type of the input;
  the answer does not depend on the compatibility answers cached by earlier constructions.\<close>

theorem constructor_accepts_iff_wires_fit:
  assumes "cache_ok (br_types reg)"
  shows "(case fst (build_execution_graph wk reg) of Inr _ \<Rightarrow> True | Inl _ \<Rightarrow> False) \<longleftrightarrow>
    list_all (wire_fits (ts_types (br_types reg))) (wf_wires wk)"
  using build_graph_accepts [OF assms, of "wf_wires wk" "\<lambda>_. []"]
  by (auto simp: build_execution_graph_def split: sum.splits)

theorem constructor_accepts_iff_wires_fit_witness:
  "(case fst (build_execution_graph demo_workflow demo_registry) of Inr _ \<Rightarrow> True | Inl _ \<Rightarrow> False) \<and>
   list_all (wire_fits (ts_types (br_types demo_registry))) (wf_wires demo_workflow)"
proof -
  have "cache_ok (br_types demo_registry)"
    by (simp add: demo_registry_def cache_ok_def cached_def)
  from constructor_accepts_iff_wires_fit [OF this, of demo_workflow] demo_built show ?thesis
    by auto
qed

section \<open>Values have the declared types\<close>

text \<open>Python's method resolution order of a class contains that of each class in it.\<close>

definition mro_closed :: "pytype set \<Rightarrow> bool" where
  "mro_closed U =
     (\<forall>n i m n' i' m'. Klass n i m \<in> U \<and> Klass n' i' m' \<in> U \<and> i' \<in> set m \<longrightarrow> set m' \<subseteq> set m)"

fun is_class :: "pytype \<Rightarrow> bool" where
  "is_class (Klass _ _ _) = True"
| "is_class _ = False"

lemma issubclass_mono:
  assumes "set m \<subseteq> set m'"
  shows "issubclass (Klass n i m) t = Some r \<Longrightarrow>
           \<exists>r'. issubclass (Klass n' i' m') t = Some r' \<and> (r \<longrightarrow> r')"
    and "issubclass_any (Klass n i m) ts = Some r \<Longrightarrow>
           \<exists>r'. issubclass_any (Klass n' i' m') ts = Some r' \<and> (r \<longrightarrow> r')"
proof (induction "Klass n i m" t and "Klass n i m" ts arbitrary: r and r
    rule: issubclass_issubclass_any.induct)
  case (1 n2 i2 mro2)
  then show ?case using assms by auto
next
  case (5 t ts)
  then show ?case
    by (fastforce split: option.splits bool.splits)
qed auto

lemma subclass_trans:
  assumes "is_class a" "is_class c" "mro_closed {c, a}"
    and "issubclass c a = Some True" "issubclass a t = Some True"
  shows "issubclass c t = Some True"
proof -
  obtain n i m where a: "a = Klass n i m" using assms(1) by (cases a) simp_all
  obtain n' i' m' where c: "c = Klass n' i' m'" using assms(2) by (cases c) simp_all
  have "set m \<subseteq> set m'"
    using assms(3,4) unfolding a c mro_closed_def
    by (metis insertCI issubclass.simps(1) option.inject)
  from issubclass_mono(1) [OF this, of n i t True n' i'] assms(5) show ?thesis
    by (auto simp: a c)
qed

text \<open>The wire that feeds an input, with both of its types registered under their own names and neither of
  them \<open>Any\<close>, which the check lets through in both directions. Other wires may carry \<open>Any\<close>.\<close>

definition typed_wire :: "(string \<times> pytype) list \<Rightarrow> wire \<Rightarrow> bool" where
  "typed_wire types w =
     (case (map_of (bl_outputs (wi_source w)) (wi_output w), map_of (bl_inputs (wi_target w)) (wi_input w)) of
        (Some out, Some inp) \<Rightarrow>
          list_all (\<lambda>t. map_of types (type_name t) = Some t \<and> type_name t \<noteq> ''Any'')
            [out_data_type out, in_data_type inp]
      | _ \<Rightarrow> True)"

definition typed_input :: "(string \<times> pytype) list \<Rightarrow> workflow \<Rightarrow> block \<Rightarrow> string \<Rightarrow> bool" where
  "typed_input types wk b k = (case input_wire wk b k of None \<Rightarrow> True | Some w \<Rightarrow> typed_wire types w)"

lemma only_classes_are_subclasses:
  "\<not> is_class a \<Longrightarrow> issubclass a t \<noteq> Some True"
  "\<not> is_class a \<Longrightarrow> issubclass_any a ts \<noteq> Some True"
  by (induction a t and a ts rule: issubclass_issubclass_any.induct)
     (auto split: option.splits bool.splits)

lemma compatible_values:
  assumes src: "map_of types (type_name src) = Some src" "type_name src \<noteq> ''Any''"
    and tgt: "map_of types (type_name tgt) = Some tgt" "type_name tgt \<noteq> ''Any''"
    and compat: "compatible types (type_name src) (type_name tgt)"
    and c: "is_class c" "mro_closed {c, src}" "issubclass c src \<noteq> Some False"
  shows "issubclass c tgt \<noteq> Some False \<and> (src = tgt \<or> issubclass c tgt = Some True)"
proof -
  have "case issubclass src tgt of Some r \<Rightarrow> r | None \<Rightarrow> type_name src = type_name tgt"
    using compat by (simp add: compatible_def src tgt)
  then have "type_name src = type_name tgt \<or> issubclass src tgt = Some True"
    by (cases "issubclass src tgt") simp_all
  moreover have "src = tgt" if "type_name src = type_name tgt"
    using arg_cong [OF that, of "map_of types"] unfolding src(1) tgt(1) by simp
  ultimately consider "src = tgt" | "issubclass src tgt = Some True" by blast
  then show ?thesis
  proof cases
    case 1
    with c(3) show ?thesis by simp
  next
    case 2
    with only_classes_are_subclasses(1) have src': "is_class src" by blast
    with c(1) have "issubclass c src \<noteq> None" by (cases c; cases src) simp_all
    with c(3) have "issubclass c src = Some True" by (cases "issubclass c src") simp_all
    from subclass_trans [OF src' c(1,2) this 2] show ?thesis by simp
  qed
qed

section \<open>Type soundness\<close>

text \<open>Blocks are told apart by identity and by name, as the builder makes them.\<close>

definition distinct_workflow :: "workflow \<Rightarrow> bool" where
  "distinct_workflow wk = (inj_on bl_ref (blocks_of wk) \<and> inj_on bl_name (blocks_of wk))"

text \<open>
  The blocks keep their own promise: whatever a block returns under a declared output is an
  instance of the declared type (\<open>isinstance\<close> does not deny it). \<open>class_of\<close> is \<open>type(v)\<close>.
\<close>

definition honest_blocks ::
    "('v \<Rightarrow> pytype) \<Rightarrow> ('v, 'w) exec_env \<Rightarrow> workflow \<Rightarrow> bool" where
  "honest_blocks class_of en wk =
     (\<forall>b\<in>blocks_of wk. \<forall>ins w outs k v p.
        fst (en_execute en b ins w) = Inr outs \<and> map_of outs k = Some v \<and>
        map_of (bl_outputs b) k = Some p \<longrightarrow> issubclass (class_of v) (out_data_type p) \<noteq> Some False)"

definition python_classes :: "('v \<Rightarrow> pytype) \<Rightarrow> workflow \<Rightarrow> bool" where
  "python_classes class_of wk =
     ((\<forall>v. is_class (class_of v)) \<and>
      mro_closed (range class_of \<union> (\<Union>b\<in>blocks_of wk. (out_data_type \<circ> snd) ` set (bl_outputs b))))"

lemma genuine_callD:
  "genuine en wk cs \<Longrightarrow> (b, ins, rep) \<in> set cs \<Longrightarrow>
     b \<in> blocks_of wk \<and> (\<exists>w. fst (en_execute en b ins w) = rep)"
  by (auto simp: genuine_def dest!: bspec)

lemma recorded_call:
  "recorded cs nm = Some outs \<Longrightarrow> \<exists>b ins. (b, ins, Inr outs) \<in> set cs \<and> bl_name b = nm"
proof (induction cs rule: rev_induct)
  case (snoc c cs)
  obtain b ins r where c: "c = (b, ins, r)" by (cases c)
  show ?case
    using snoc by (auto simp: c recorded_snoc split: sum.splits if_splits)
qed simp

lemma input_wire_in:
  "input_wire wk b n = Some w \<Longrightarrow>
     w \<in> set (wf_wires wk) \<and> same_block (wi_target w) b \<and> wi_input w = n"
  by (auto simp: input_wire_def wires_to_def find_Some_iff in_set_conv_nth rev_nth)
     (metis (mono_tags, lifting) diff_less in_set_conv_nth length_greater_0_conv length_pos_if_in_set
        mem_Collect_eq nth_mem set_filter zero_less_Suc)+

lemma mro_closed_subset: "mro_closed U \<Longrightarrow> V \<subseteq> U \<Longrightarrow> mro_closed V"
  unfolding mro_closed_def by blast

text \<open>C28. Type soundness. Take a workflow the constructor accepted with compatibility answers that agree
  with the registered types (C36 says when they do), blocks told apart by name and identity, and blocks
  whose replies are not instances of another class than their outputs declare. For an input fed by a
  wire whose two types are registered under their own names and neither is \<open>Any\<close>: a value
  handed to a block is not an instance of another class than the input declares. If the input declares a class,
  the value is an instance of it; if it declares a union or a generic type, \<open>issubclass\<close> says that the value
  is an instance or the value comes from an output declared with the very same type.\<close>

theorem accepted_workflows_are_type_sound:
  assumes built: "build_execution_graph wk reg = (Inr g, reg')"
    and cache: "cache_ok (br_types reg)"
    and ports: "typed_input (ts_types (br_types reg)) wk b k"
    and blocks: "distinct_workflow wk" "honest_blocks class_of en wk" "python_classes class_of wk"
    and run: "run_workflow n host en wk g (new_state w) = Some (res, evs, s')"
    and call: "(b, ins, rep) \<in> set (ex_calls s')"
    and val: "(k, v) \<in> set ins" and port: "map_of (bl_inputs b) k = Some i"
  shows "issubclass (class_of v) (in_data_type i) \<noteq> Some False \<and>
    (is_class (in_data_type i) \<longrightarrow> issubclass (class_of v) (in_data_type i) = Some True) \<and>
    (issubclass (class_of v) (in_data_type i) = Some True \<or>
     (\<exists>wr p. input_wire wk b k = Some wr \<and> map_of (bl_outputs (wi_source wr)) (wi_output wr) = Some p \<and>
        out_data_type p = in_data_type i))"
proof -
  from call obtain xs ys where split: "ex_calls s' = xs @ (b, ins, rep) # ys"
    by (meson split_list)
  from run_calls [OF built run] have genuine: "genuine en wk (ex_calls s')"
    and "from_wires wk xs b ins"
    by (simp_all add: every_call_def split)
  with val obtain wr outs where wire: "input_wire wk b k = Some wr"
    and rec: "recorded xs (bl_name (wi_source wr)) = Some outs"
    and out: "map_of outs (wi_output wr) = Some v"
    by (fastforce simp: from_wires_def bind_eq_Some_conv)
  from input_wire_in [OF wire] have wr: "wr \<in> set (wf_wires wk)" "same_block (wi_target wr) b"
    "wi_input wr = k" by simp_all
  from recorded_call [OF rec] obtain b' ins' where
    b': "(b', ins', Inr outs) \<in> set xs" "bl_name b' = bl_name (wi_source wr)" by blast
  from b'(1) split have "(b', ins', Inr outs) \<in> set (ex_calls s')" by simp
  with genuine_callD [OF genuine this] genuine_callD [OF genuine call]
  obtain w' where mem: "b \<in> blocks_of wk" "b' \<in> blocks_of wk"
    and reply: "fst (en_execute en b' ins' w') = Inr outs"
    by blast
  have ends: "wi_source wr \<in> blocks_of wk" "wi_target wr \<in> blocks_of wk"
    using wr(1) by (auto simp: blocks_of_def)
  with mem b'(2) wr(2) blocks(1) have same: "b' = wi_source wr" "b = wi_target wr"
    by (auto simp: distinct_workflow_def same_block_def dest: inj_onD)
  have "list_all (wire_fits (ts_types (br_types reg))) (wf_wires wk)"
    using constructor_accepts_iff_wires_fit [OF cache, of wk] built by simp
  with wr(1) have "wire_fits (ts_types (br_types reg)) wr" by (simp add: list_all_iff)
  with port wr(3) same obtain p where p: "map_of (bl_outputs b') (wi_output wr) = Some p"
    and fits: "compatible (ts_types (br_types reg)) (type_name (out_data_type p))
      (type_name (in_data_type i))"
    by (auto simp: wire_fits_def wire_types_def split: option.splits)
  have registered: "list_all (\<lambda>t. map_of (ts_types (br_types reg)) (type_name t) = Some t \<and>
      type_name t \<noteq> ''Any'') [out_data_type p, in_data_type i]"
    using ports wr(3) wire p port same by (simp add: typed_input_def typed_wire_def)
  have "(out_data_type \<circ> snd) (wi_output wr, p) \<in>
      (\<Union>b\<in>blocks_of wk. (out_data_type \<circ> snd) ` set (bl_outputs b))"
    using mem(2) map_of_SomeD [OF p] by blast
  then have "mro_closed {class_of v, out_data_type p}" "is_class (class_of v)"
    using blocks(3) by (auto simp: python_classes_def elim!: mro_closed_subset)
  moreover have "issubclass (class_of v) (out_data_type p) \<noteq> Some False"
    using blocks(2) mem(2) reply out p unfolding honest_blocks_def by blast
  moreover from registered have
      "map_of (ts_types (br_types reg)) (type_name (out_data_type p)) = Some (out_data_type p)"
      "type_name (out_data_type p) \<noteq> ''Any''"
      "map_of (ts_types (br_types reg)) (type_name (in_data_type i)) = Some (in_data_type i)"
      "type_name (in_data_type i) \<noteq> ''Any''"
    unfolding list.pred_inject by iprover+
  ultimately have sound: "issubclass (class_of v) (in_data_type i) \<noteq> Some False \<and>
      (out_data_type p = in_data_type i \<or> issubclass (class_of v) (in_data_type i) = Some True)"
    by (intro compatible_values [OF _ _ _ _ fits])
  moreover have "issubclass (class_of v) (in_data_type i) \<noteq> None" if "is_class (in_data_type i)"
    using that \<open>is_class (class_of v)\<close> by (cases "class_of v"; cases "in_data_type i") simp_all
  ultimately show ?thesis using wire p same(1) by (cases "issubclass (class_of v) (in_data_type i)") auto
qed

theorem accepted_workflows_are_type_sound_witness:
  "issubclass int_class obj_class = Some True"
proof -
  obtain reg' res evs s' where run:
    "build_execution_graph demo_workflow demo_registry = (Inr demo_graph, reg')"
    "run_workflow 9 True demo_env demo_workflow demo_graph (new_state 0) = Some (res, evs, s')"
    and calls: "ex_calls s' = [(demo_a, [], Inr [(''out'', 1)]), (demo_b, [(''x'', 1)], Inr [(''out'', 3)]),
       (demo_c, [(''x'', 3), (''y'', 1)], Inr [(''out'', 7)])]"
    by (rule demo_runs)
  have w1: "cache_ok (br_types demo_registry)"
    by (simp add: demo_registry_def cache_ok_def cached_def)
  have w2: "typed_input (ts_types (br_types demo_registry)) demo_workflow demo_c ''x''"
    by code_simp
  have w3: "distinct_workflow demo_workflow"
    by (simp add: distinct_workflow_def demo_blocks demo_defs)
  have w4: "honest_blocks (\<lambda>_. int_class) demo_env demo_workflow"
    by (simp add: honest_blocks_def demo_blocks demo_defs)
  have w5: "python_classes (\<lambda>_::nat. int_class) demo_workflow"
    by (auto simp: python_classes_def mro_closed_def demo_blocks demo_defs)
  have w6: "(demo_c, [(''x'', 3), (''y'', 1)], Inr [(''out'', 7)]) \<in> set (ex_calls s')"
    by (simp add: calls)
  have w7: "map_of (bl_inputs demo_c) ''x'' = Some (snd (demo_port ''x'' obj_class False))"
    by (simp add: demo_c_def demo_block_def demo_port_def)
  have "is_class (in_data_type (snd (demo_port ''x'' obj_class False)))" by code_simp
  then have "issubclass int_class (in_data_type (snd (demo_port ''x'' obj_class False))) = Some True"
    using accepted_workflows_are_type_sound [OF run(1) w1 w2 w3 w4 w5 run(2) w6 _ w7, where v = 3] by simp
  then show ?thesis by (simp add: demo_port_def)
qed

end
