(* ===== verification/Workflow_Liveness.thy ===== *)
theory Workflow_Liveness
  imports Workflow_Typing
begin

text \<open>
  Progress of the workflow engine on workflows of ordinary blocks: a run always returns, a
  successful run leaves no block that could still be executed, and an acyclic workflow whose
  required inputs are connected executes every block exactly once.
\<close>

definition ordinary :: "workflow \<Rightarrow> bool" where
  "ordinary wk = (\<forall>b\<in>blocks_of wk. is_normal b)"

lemma finite_blocks_of [simp]: "finite (blocks_of wk)"
  by (simp add: blocks_of_def)

lemma ordinary_kind: "ordinary wk \<Longrightarrow> b \<in> blocks_of wk \<Longrightarrow> bl_kind b \<noteq> ConditionKind \<and> bl_kind b \<noteq> LoopKind"
  by (simp add: ordinary_def normal_iff)

declare exec_block.simps(2) [simp del]

lemma exec_ordinary:
  assumes "ordinary wk" "b \<in> blocks_of wk"
  shows "exec_block (Suc n) en wk g b s =
    (if can_execute wk b s
     then catching b (with_reply (gather_and_call en wk b s) (\<lambda>outs.
            exec_nodes n en wk g (g (bl_ref b))))
     else Some (Inr (), s))"
  using ordinary_kind [OF assms] by (simp add: exec_block.simps)

text \<open>Preservation for ordinary workflows, where only the executed block matters.\<close>

lemma ordinary_delivers:
  assumes wk: "ordinary wk"
    and step: "\<And>s b. P s \<Longrightarrow> b \<in> blocks_of wk \<Longrightarrow> can_execute wk b s \<Longrightarrow>
      (case gather_and_call en wk b s of (Inl e, s') \<Rightarrow> Q s' | (Inr outs, s') \<Rightarrow> P s')"
  shows "P s \<Longrightarrow> set bs \<subseteq> blocks_of wk \<Longrightarrow> delivers P Q (exec_nodes n en wk (successors wk) bs s)"
proof (induction n arbitrary: bs s)
  case 0
  then show ?case by (cases bs) (simp_all add: and_then_def)
next
  case (Suc n)
  have block: "delivers P Q (exec_block (Suc n) en wk (successors wk) b t)"
    if "P t" "b \<in> blocks_of wk" for b t
    using step [OF that] Suc.IH successors_in_blocks [of wk "bl_ref b"]
    by (auto simp: exec_ordinary [OF wk that(2)] that delivers_catching with_reply_def
        split: prod.splits sum.splits)
  from Suc.prems show ?case
    by (induction bs arbitrary: s) (auto intro!: delivers_and_then block)
qed

section \<open>Runs return\<close>

definition waiting :: "workflow \<Rightarrow> ('v, 'w) engine_state \<Rightarrow> block set" where
  "waiting wk s = {b \<in> blocks_of wk. \<not> executed s b}"

lemma finite_waiting [simp]: "finite (waiting wk s)"
  by (simp add: waiting_def)

lemma executed_after_call:
  "gather_and_call en wk b s = (Inr outs, s') \<Longrightarrow>
     executed s' c \<longleftrightarrow> executed s c \<or> bl_name c = bl_name b"
  by (auto simp: gather_and_call_def executed_def update_conv' split: sum.splits if_splits
      dest!: call_block_cases)

lemma executed_after_failure:
  "gather_and_call en wk b s = (Inl e, s') \<Longrightarrow> executed s' c = executed s c"
  by (auto simp: gather_and_call_def executed_def split: sum.splits if_splits dest!: call_block_cases)

lemma waiting_shrinks:
  assumes "gather_and_call en wk b s = (Inr outs, s')" "b \<in> blocks_of wk" "can_execute wk b s"
  shows "card (waiting wk s') < card (waiting wk s)"
proof (rule psubset_card_mono)
  show "waiting wk s' \<subset> waiting wk s"
    using assms by (auto simp: waiting_def executed_after_call [OF assms(1)] can_execute_def)
qed simp

lemma waiting_at_most:
  assumes "ordinary wk" "set bs \<subseteq> blocks_of wk"
  shows "delivers (\<lambda>s'. card (waiting wk s') \<le> card (waiting wk s)) (\<lambda>s'. True)
    (exec_nodes n en wk (successors wk) bs s)"
  by (rule ordinary_delivers [OF assms(1) _ _ assms(2)])
     (auto split: prod.split sum.split dest!: waiting_shrinks)

lemma ordinary_returns:
  assumes wk: "ordinary wk"
  shows "card (waiting wk s) < n \<Longrightarrow> set bs \<subseteq> blocks_of wk \<Longrightarrow>
    exec_nodes n en wk (successors wk) bs s \<noteq> None"
proof (induction n arbitrary: bs s)
  case 0
  then show ?case by simp
next
  case (Suc n)
  have block: "exec_block (Suc n) en wk (successors wk) b t \<noteq> None"
    if b: "b \<in> blocks_of wk" and t: "card (waiting wk t) < Suc n" for b t
  proof (cases "can_execute wk b t")
    case False
    then show ?thesis by (simp add: exec_ordinary [OF wk b])
  next
    case True
    show ?thesis
    proof (cases "gather_and_call en wk b t")
      case (Pair r t')
      show ?thesis
      proof (cases r)
        case (Inl e)
        with Pair True show ?thesis
          by (simp add: exec_ordinary [OF wk b] with_reply_def catching_def)
      next
        fix outs assume r: "r = Inr outs"
        with waiting_shrinks [of en wk b t outs t'] Pair b True t
        have "card (waiting wk t') < n" by simp
        from Suc.IH [OF this successors_in_blocks] Pair True r show ?thesis
          by (auto simp: exec_ordinary [OF wk b] with_reply_def catching_def
              split: option.splits sum.splits)
      qed
    qed
  qed
  show ?case
    using Suc.prems
  proof (induction bs arbitrary: s)
    case (Cons b bs)
    have less: "delivers (\<lambda>s'. card (waiting wk s') \<le> card (waiting wk s)) (\<lambda>s'. True)
        (exec_block (Suc n) en wk (successors wk) b s)"
      using waiting_at_most [OF wk, of "[b]" s "Suc n" en] Cons.prems
      by (auto simp: delivers_def and_then_def split: option.splits sum.splits)
    from Cons block [of b s] less show ?case
      by (auto simp: and_then_def delivers_def split: option.splits sum.splits)
  qed simp
qed

text \<open>C37. Termination: on a workflow of ordinary blocks, cyclic or not, a run needs no more than
  one level of fuel for each block; it returns, with a result or with an exception.\<close>

theorem ordinary_run_returns:
  fixes en :: "('v, 'w) exec_env" and w :: 'w
  assumes "ordinary wk" "build_execution_graph wk reg = (Inr g, reg')" "card (blocks_of wk) < n"
  shows "run_workflow n host en wk g (new_state w) \<noteq> None"
proof -
  let ?s = "new_state w :: ('v, 'w) engine_state"
  have "card (waiting wk ?s) \<le> card (blocks_of wk)"
    by (rule card_mono) (auto simp: waiting_def)
  with assms(3) have "card (waiting wk ?s) < n" by simp
  from ordinary_returns [OF assms(1) this entry_in_blocks, of en] show ?thesis
    unfolding graph_is_successors [OF assms(2)]
    by (auto simp: run_workflow_def Let_def split: sum.splits)
qed

lemma demo_ordinary: "ordinary demo_workflow" "distinct_workflow demo_workflow"
  by (simp_all add: ordinary_def is_normal_def distinct_workflow_def demo_blocks demo_defs)

lemma demo_card: "card (blocks_of demo_workflow) < 9"
proof -
  have "card (set [demo_a, demo_b, demo_c]) \<le> 3"
    by (rule order_trans [OF card_length]) simp
  then show ?thesis by (simp add: demo_blocks)
qed

theorem ordinary_run_returns_witness:
  "run_workflow 9 True demo_env demo_workflow demo_graph (new_state 0) \<noteq> None"
proof -
  obtain reg' where "build_execution_graph demo_workflow demo_registry = (Inr demo_graph, reg')"
    using demo_built by blast
  then show ?thesis
    by (rule ordinary_run_returns [OF demo_ordinary(1) _ demo_card])
qed

section \<open>Nothing executable is left\<close>

lemma executed_by_name: "bl_name b = bl_name c \<Longrightarrow> executed s b = executed s c"
  by (simp add: executed_def)

lemma output_after_call:
  "gather_and_call en wk b s = (Inr outs, s') \<Longrightarrow> bl_name p \<noteq> bl_name b \<Longrightarrow>
     output_of s' p k = output_of s p k"
  by (auto simp: gather_and_call_def output_of_def update_conv' split: sum.splits if_splits
      dest!: call_block_cases)

lemma predecessor_iff:
  assumes "distinct_workflow wk" "b \<in> blocks_of wk" "c \<in> blocks_of wk"
  shows "b \<in> set (predecessors wk c) \<longleftrightarrow> c \<in> set (successors wk (bl_ref b))"
proof -
  have ref: "bl_ref x = bl_ref y \<longleftrightarrow> x = y" if "x \<in> blocks_of wk" "y \<in> blocks_of wk" for x y
    using assms(1) that by (auto simp: distinct_workflow_def dest: inj_onD)
  have ends: "wi_source w \<in> blocks_of wk" "wi_target w \<in> blocks_of wk" if "w \<in> set (wf_wires wk)" for w
    using that by (auto simp: blocks_of_def)
  show ?thesis
    using assms(2,3)
    by (auto simp: predecessors_def wires_to_def same_block_def successors_def ref ends image_iff)
qed

lemma predecessors_in_blocks: "set (predecessors wk c) \<subseteq> blocks_of wk"
  by (auto simp: predecessors_def wires_to_def blocks_of_def)

text \<open>Executing a block makes nothing executable but its successors.\<close>

lemma ready_before_call:
  assumes wk: "distinct_workflow wk" "b \<in> blocks_of wk" "c \<in> blocks_of wk"
    and call: "gather_and_call en wk b s = (Inr outs, s')"
    and ready: "can_execute wk c s'" and not_next: "c \<notin> set (successors wk (bl_ref b))"
  shows "can_execute wk c s \<and> c \<noteq> b"
proof -
  have others: "bl_name p \<noteq> bl_name b" if "p \<in> set (predecessors wk c)" for p
  proof
    assume "bl_name p = bl_name b"
    moreover from that predecessors_in_blocks have "p \<in> blocks_of wk" by blast
    ultimately have "p = b"
      using wk(1,2) by (auto simp: distinct_workflow_def dest: inj_onD)
    with that not_next show False by (simp add: predecessor_iff [OF wk])
  qed
  have sources: "wi_source w \<in> set (predecessors wk c)" if "w \<in> set (wires_to wk c)" for w
    using that by (simp add: predecessors_def)
  have "\<not> executed s c" "bl_name c \<noteq> bl_name b"
    using ready by (simp_all add: can_execute_def executed_after_call [OF call])
  moreover have "executed s p" if "p \<in> set (predecessors wk c)" for p
    using ready that others [OF that] by (auto simp: can_execute_def executed_after_call [OF call])
  moreover have "input_satisfied wk c n s" if "input_satisfied wk c n s'" for n
    using that others [OF sources] unfolding input_satisfied_def
    by (metis output_after_call [OF call])
  ultimately show ?thesis
    using ready by (fastforce simp: can_execute_def)
qed

lemma ready_before_nodes:
  assumes wk: "ordinary wk" "distinct_workflow wk"
  shows "exec_nodes n en wk (successors wk) bs s = Some (Inr u, s') \<Longrightarrow> set bs \<subseteq> blocks_of wk \<Longrightarrow>
    c \<in> blocks_of wk \<Longrightarrow> can_execute wk c s' \<Longrightarrow> can_execute wk c s \<and> c \<notin> set bs"
proof (induction n arbitrary: bs s u s')
  case 0
  then show ?case by (cases bs) (simp_all add: and_then_def)
next
  case (Suc n)
  have block: "can_execute wk c t \<and> c \<noteq> b"
    if b: "b \<in> blocks_of wk" and run: "exec_block (Suc n) en wk (successors wk) b t = Some (Inr v, t')"
      and ready: "can_execute wk c t'" for b t v t'
  proof (cases "can_execute wk b t")
    case False
    with run ready show ?thesis by (auto simp: exec_ordinary [OF wk(1) b])
  next
    case True
    with run obtain outs t1 where call: "gather_and_call en wk b t = (Inr outs, t1)"
      and rest: "exec_nodes n en wk (successors wk) (successors wk (bl_ref b)) t1 = Some (Inr v, t')"
      by (auto simp: exec_ordinary [OF wk(1) b] with_reply_def catching_def
          split: prod.splits sum.splits option.splits)
    from Suc.IH [OF rest successors_in_blocks Suc.prems(3) ready]
    show ?thesis
      using ready_before_call [OF wk(2) b Suc.prems(3) call] by blast
  qed
  show ?case
    using Suc.prems(1,2,4)
  proof (induction bs arbitrary: s)
    case (Cons b bs)
    from Cons.prems(1) obtain v t where
      run: "exec_block (Suc n) en wk (successors wk) b s = Some (Inr v, t)"
      and rest: "exec_nodes (Suc n) en wk (successors wk) bs t = Some (Inr u, s')"
      by (auto simp: and_then_def split: option.splits sum.splits)
    with Cons block [OF _ run] show ?case by auto
  qed simp
qed

text \<open>Completeness: when a run of ordinary blocks succeeds, no block with a predecessor is
  left that could be executed, so every block whose predecessors ran and whose required inputs
  were produced did run.\<close>

theorem no_ready_block_is_left:
  fixes en :: "('v, 'w) exec_env" and w :: 'w
  assumes "ordinary wk" "distinct_workflow wk" "build_execution_graph wk reg = (Inr g, reg')"
    and "run_workflow n host en wk g (new_state w) = Some (Inr results, evs, s')"
    and "c \<in> blocks_of wk" "predecessors wk c \<noteq> []"
  shows "\<not> can_execute wk c s'"
proof
  assume ready: "can_execute wk c s'"
  from assms(4) obtain u where
    "exec_nodes n en wk (successors wk) (entry_blocks wk) (new_state w) = Some (Inr u, s')"
    unfolding graph_is_successors [OF assms(3)]
    by (auto simp: run_workflow_def Let_def split: option.splits sum.splits if_splits)
  from ready_before_nodes [OF assms(1,2) this entry_in_blocks assms(5) ready]
  have "can_execute wk c (new_state w :: ('v, 'w) engine_state)" by simp
  moreover obtain p where "p \<in> set (predecessors wk c)" using assms(6) by (cases "predecessors wk c") auto
  ultimately show False by (auto simp: can_execute_def executed_def)
qed

theorem no_ready_block_is_left_witness:
  "\<exists>s'. ex_results s' = [(''b'', [(''out'', 1::nat)]), (''bb'', [(''out'', 3)]), (''bbb'', [(''out'', 7)])] \<and>
     \<not> can_execute demo_workflow demo_c (s' :: (nat, nat) engine_state)"
proof -
  from demo_calls obtain evs s' where run:
    "run_workflow 9 True demo_env demo_workflow demo_graph (new_state 0) =
       Some (Inr [(''b'', [(''out'', 1)]), (''bb'', [(''out'', 3)]), (''bbb'', [(''out'', 7)])], evs, s')"
    by (auto simp: demo_run_def)
  moreover from run have
    "ex_results s' = [(''b'', [(''out'', 1)]), (''bb'', [(''out'', 3)]), (''bbb'', [(''out'', 7)])]"
    by (auto simp: run_workflow_def Let_def split: option.splits sum.splits if_splits)
  moreover obtain reg' where "build_execution_graph demo_workflow demo_registry = (Inr demo_graph, reg')"
    using demo_built by blast
  moreover have "demo_c \<in> blocks_of demo_workflow" by (simp add: demo_blocks)
  moreover have "predecessors demo_workflow demo_c \<noteq> []"
    by (simp add: predecessors_def wires_to_def demo_workflow_def demo_wire_def
        same_block_def)
  ultimately have "\<not> can_execute demo_workflow demo_c s'"
    using no_ready_block_is_left [OF demo_ordinary _ run] by blast
  with \<open>ex_results s' = _\<close> show ?thesis by blast
qed

section \<open>Every block of an acyclic workflow runs\<close>

text \<open>
  \<open>productive\<close>: a block never raises and returns all its declared outputs.
  \<open>connected\<close>: every block has no inputs at all or a wire into it, and every required
  input has a wire.
\<close>

definition productive :: "('v, 'w) exec_env \<Rightarrow> workflow \<Rightarrow> bool" where
  "productive en wk =
     (\<forall>b\<in>blocks_of wk. \<forall>ins w.
        (case fst (en_execute en b ins w) of
           Inl _ \<Rightarrow> False
         | Inr outs \<Rightarrow> fst ` set (bl_outputs b) \<subseteq> fst ` set outs))"

definition edges :: "workflow \<Rightarrow> (block \<times> block) set" where
  "edges wk = (\<lambda>w. (wi_source w, wi_target w)) ` set (wf_wires wk)"

definition connected :: "workflow \<Rightarrow> bool" where
  "connected wk =
     (\<forall>b\<in>blocks_of wk.
        (bl_inputs b = [] \<and> b \<in> set (wf_blocks wk) \<or> predecessors wk b \<noteq> []) \<and>
        (\<forall>(n, i)\<in>set (bl_inputs b). in_nullable i \<or> input_wire wk b n \<noteq> None))"

definition outputs_complete :: "workflow \<Rightarrow> ('v, 'w) engine_state \<Rightarrow> bool" where
  "outputs_complete wk s =
     (\<forall>b\<in>blocks_of wk. \<forall>outs. map_of (ex_results s) (bl_name b) = Some outs \<longrightarrow>
        fst ` set (bl_outputs b) \<subseteq> fst ` set outs)"

lemma gather_ports_succeeds:
  assumes "\<forall>(n, i)\<in>set ports.
    (case input_wire wk b n of
       Some w \<Rightarrow> output_of s (wi_source w) (wi_output w) \<noteq> None
     | None \<Rightarrow> in_nullable i)"
  shows "\<exists>ins. gather_ports wk b ports s = Inr ins"
  using assms by (induction ports) (fastforce split: option.splits)+

lemma wire_output_declared:
  assumes "build_execution_graph wk reg = (Inr g, reg')" "w \<in> set (wf_wires wk)"
  shows "wi_output w \<in> fst ` set (bl_outputs (wi_source w))"
proof -
  have "\<exists>st. wire_types w = Inr st" if "build_graph ws g0 reg0 = (Inr g1, reg1)" "w \<in> set ws" for ws g0 reg0 g1 reg1
    using that by (induction ws g0 reg0 rule: build_graph.induct)
      (auto split: sum.splits prod.splits if_splits)
  with assms obtain st where "wire_types w = Inr st"
    unfolding build_execution_graph_def by blast
  then have "map_of (bl_outputs (wi_source w)) (wi_output w) \<noteq> None"
    by (auto simp: wire_types_def split: option.splits)
  then show ?thesis by (simp add: map_of_eq_None_iff)
qed

text \<open>Under these conditions an executed source has produced what its wires carry.\<close>

lemma wires_carry:
  assumes "outputs_complete wk s" "build_execution_graph wk reg = (Inr g, reg')"
    and "w \<in> set (wf_wires wk)" "executed s (wi_source w)"
  shows "output_of s (wi_source w) (wi_output w) \<noteq> None"
proof -
  from assms(4) obtain outs where outs: "map_of (ex_results s) (bl_name (wi_source w)) = Some outs"
    by (auto simp: executed_def)
  have "wi_source w \<in> blocks_of wk" using assms(3) by (auto simp: blocks_of_def)
  with assms(1) outs wire_output_declared [OF assms(2,3)] have "wi_output w \<in> fst ` set outs"
    unfolding outputs_complete_def by blast
  then have "map_of outs (wi_output w) \<noteq> None" by (simp add: map_of_eq_None_iff)
  with outs show ?thesis by (simp add: output_of_def)
qed

lemma input_wire_to: "input_wire wk b n = Some w \<Longrightarrow> w \<in> set (wires_to wk b)"
  using input_wire_in [of wk b n w] by (simp add: wires_to_def)

lemma connectedD:
  "connected wk \<Longrightarrow> b \<in> blocks_of wk \<Longrightarrow> (n, i) \<in> set (bl_inputs b) \<Longrightarrow>
     in_nullable i \<or> (\<exists>w. input_wire wk b n = Some w)"
  by (fastforce simp: connected_def dest: bspec)

lemma productive_step:
  assumes ordinary: "ordinary wk"
    and en: "productive en wk" and wk: "distinct_workflow wk" "connected wk"
    and built: "build_execution_graph wk reg = (Inr g, reg')"
    and s: "outputs_complete wk s" and b: "b \<in> blocks_of wk" "can_execute wk b s"
  shows "case gather_and_call en wk b s of
    (Inl e, s') \<Rightarrow> False | (Inr outs, s') \<Rightarrow> outputs_complete wk s'"
proof -
  have carried: "output_of s (wi_source w) (wi_output w) \<noteq> None" if "input_wire wk b n = Some w" for n w
  proof (rule wires_carry [OF s built])
    from input_wire_to [OF that] show "w \<in> set (wf_wires wk)" by (simp add: wires_to_def)
    from input_wire_to [OF that] b(2) show "executed s (wi_source w)"
      by (simp add: can_execute_def predecessors_def)
  qed
  have "\<forall>(n, i)\<in>set (bl_inputs b).
      (case input_wire wk b n of
         Some w \<Rightarrow> output_of s (wi_source w) (wi_output w) \<noteq> None
       | None \<Rightarrow> in_nullable i)"
    using connectedD [OF wk(2) b(1)] by (fastforce dest: carried split: option.split)
  then obtain ins where ins: "gather_inputs wk b s = Inr ins"
    unfolding gather_inputs_def using gather_ports_succeeds by blast
  have "case fst (en_execute en b ins (ex_world s)) of
      Inl _ \<Rightarrow> False | Inr outs \<Rightarrow> fst ` set (bl_outputs b) \<subseteq> fst ` set outs"
    using en b(1) by (simp add: productive_def)
  then obtain outs where fst_reply: "fst (en_execute en b ins (ex_world s)) = Inr outs"
    and complete: "fst ` set (bl_outputs b) \<subseteq> fst ` set outs"
    by (cases "fst (en_execute en b ins (ex_world s))") simp_all
  then obtain w where reply: "en_execute en b ins (ex_world s) = (Inr outs, w)"
    by (cases "en_execute en b ins (ex_world s)") simp
  have "outputs_complete wk
      (s\<lparr>ex_calls := cs, ex_world := w, ex_results := AList.update (bl_name b) outs (ex_results s)\<rparr>)" for cs
  proof -
    have "c = b" if "c \<in> blocks_of wk" "bl_name c = bl_name b" for c
      using wk(1) b(1) that by (auto simp: distinct_workflow_def dest: inj_onD)
    with s complete show ?thesis
      unfolding outputs_complete_def by (simp add: update_conv' del: image_subset_iff) metis
  qed
  then show ?thesis
    using ordinary b(1) by (simp add: gather_and_call_def ins call_block_def reply ordinary_def)
qed

lemma productive_nodes:
  assumes "ordinary wk" "productive en wk" "distinct_workflow wk" "connected wk"
    "build_execution_graph wk reg = (Inr g, reg')" "outputs_complete wk s" "set bs \<subseteq> blocks_of wk"
  shows "delivers (outputs_complete wk) (\<lambda>_. False) (exec_nodes n en wk (successors wk) bs s)"
  by (rule ordinary_delivers [where P = "outputs_complete wk", OF assms(1) _ assms(6,7)])
     (rule productive_step [OF assms(1-5)])

lemma predecessor_edge:
  assumes "distinct_workflow wk" "c \<in> blocks_of wk" "p \<in> set (predecessors wk c)"
  shows "(p, c) \<in> edges wk"
proof -
  from assms(3) obtain w where w: "w \<in> set (wf_wires wk)" "bl_ref (wi_target w) = bl_ref c"
    "wi_source w = p"
    by (auto simp: predecessors_def wires_to_def same_block_def)
  moreover from w(1) have "wi_target w \<in> blocks_of wk" by (simp add: blocks_of_def)
  with w(2) assms(1,2) have "wi_target w = c" by (auto simp: distinct_workflow_def dest: inj_onD)
  ultimately show ?thesis by (auto simp: edges_def image_iff)
qed

lemma all_executed:
  assumes wk: "distinct_workflow wk" "connected wk" "acyclic (edges wk)" "outputs_complete wk s"
    and built: "build_execution_graph wk reg = (Inr g, reg')"
    and finished: "\<And>c. c \<in> blocks_of wk \<Longrightarrow> \<not> can_execute wk c s"
  shows "c \<in> blocks_of wk \<Longrightarrow> executed s c"
proof (induction c rule: wf_induct_rule [OF finite_acyclic_wf [OF _ wk(3)]])
  case 1
  show ?case by (simp add: edges_def)
next
  case (2 c)
  have preds: "executed s p" if "p \<in> set (predecessors wk c)" for p
    using that predecessors_in_blocks [of wk c] predecessor_edge [OF wk(1) 2(2) that] 2(1) by blast
  have "input_satisfied wk c n s \<or> in_nullable i" if "(n, i) \<in> set (bl_inputs c)" for n i
  proof (cases "input_wire wk c n")
    case None
    with connectedD [OF wk(2) 2(2) that] show ?thesis by simp
  next
    case (Some w)
    from input_wire_to [OF Some] have w: "w \<in> set (wires_to wk c)" "w \<in> set (wf_wires wk)"
      by (simp_all add: wires_to_def)
    then have "executed s (wi_source w)" by (intro preds) (simp add: predecessors_def)
    from wires_carry [OF wk(4) built w(2) this] w(1) input_wire_in [OF Some] show ?thesis
      by (auto simp: input_satisfied_def)
  qed
  with preds finished [OF 2(2)] show ?case
    unfolding can_execute_def by blast
qed

lemma ordered_names_distinct:
  "every_call (in_order wk) cs \<Longrightarrow> (\<forall>(b, ins, r)\<in>set cs. is_normal b) \<Longrightarrow>
     distinct (map (\<lambda>c. bl_name (fst c)) cs)"
proof (induction cs rule: rev_induct)
  case (snoc c cs)
  obtain b ins r where c: "c = (b, ins, r)" by (cases c)
  have "every_call (in_order wk) cs"
    using snoc.prems(1) unfolding every_call_def
    by (metis append_Cons append_assoc)
  moreover have "bl_name b \<notin> call_names cs"
    using snoc.prems by (auto simp: every_call_def in_order_def c)
  ultimately show ?case
    using snoc by (auto simp: c call_names_def split_beta)
qed simp

text \<open>Liveness: an acyclic workflow of ordinary blocks that the constructor accepted, in
  which every required input is connected and every block returns its declared outputs, runs to
  completion: one level of fuel per block is enough, nothing is raised, and every block of the
  workflow is executed exactly once.\<close>

theorem acyclic_workflow_runs_every_block_once:
  fixes en :: "('v, 'w) exec_env" and w :: 'w
  assumes "ordinary wk" "distinct_workflow wk" "connected wk" "acyclic (edges wk)"
    and "productive en wk" and built: "build_execution_graph wk reg = (Inr g, reg')"
    and "card (blocks_of wk) < n"
  shows "\<exists>results evs s'. run_workflow n host en wk g (new_state w) = Some (Inr results, evs, s') \<and>
    distinct (map fst (ex_calls s')) \<and> fst ` set (ex_calls s') = blocks_of wk"
proof -
  let ?s = "new_state w :: ('v, 'w) engine_state"
  have g: "g = successors wk" by (rule graph_is_successors [OF built])
  obtain res evs s' where run: "run_workflow n host en wk g ?s = Some (res, evs, s')"
    using ordinary_run_returns [OF assms(1) built assms(7), of host en w] by auto
  from run_nodes [OF run] obtain r where
    nodes: "exec_nodes n en wk (successors wk) (entry_blocks wk) ?s = Some (r, s')"
    unfolding g ..
  have "outputs_complete wk ?s" by (simp add: outputs_complete_def)
  from productive_nodes [OF assms(1,5,2,3) built this entry_in_blocks, of n] nodes
  have r: "r = Inr ()" and complete: "outputs_complete wk s'"
    by (auto simp: delivers_def split: sum.splits)
  have finished: "\<not> can_execute wk c s'" if c: "c \<in> blocks_of wk" for c
  proof
    assume "can_execute wk c s'"
    from ready_before_nodes [OF assms(1,2) nodes [unfolded r] entry_in_blocks c this]
    have ready: "can_execute wk c ?s" and "c \<notin> set (entry_blocks wk)" by simp_all
    with assms(3) c have "predecessors wk c \<noteq> []"
      by (auto simp: connected_def entry_blocks_def)
    then obtain p where "p \<in> set (predecessors wk c)" by (cases "predecessors wk c") auto
    with ready show False by (auto simp: can_execute_def executed_def)
  qed
  have executed: "executed s' c" if "c \<in> blocks_of wk" for c
    by (rule all_executed [OF assms(2-4) complete built finished that])
  have recorded: "names_recorded s'" and ordered: "every_call (in_order wk) (ex_calls s')"
    using order.nodes_keep [of wk ?s "entry_blocks wk" n en] entry_in_blocks [of wk] nodes r
    by (auto simp: delivers_def names_recorded_def call_names_def)
  have called: "b \<in> blocks_of wk" if "(b, ins, rep) \<in> set (ex_calls s')" for b ins rep
    using run_calls [OF built run] genuine_callD that by blast
  have "distinct (map (\<lambda>c. bl_name (fst c)) (ex_calls s'))"
    using assms(1) called by (intro ordered_names_distinct [OF ordered]) (auto simp: ordinary_def)
  then have "distinct (map fst (ex_calls s'))"
    using distinct_map [of bl_name "map fst (ex_calls s')"] by (simp add: comp_def)
  moreover have "fst ` set (ex_calls s') = blocks_of wk"
  proof (intro equalityI subsetI)
    fix c assume c: "c \<in> blocks_of wk"
    from executed [OF c] recorded have "bl_name c \<in> call_names (ex_calls s')"
      by (simp add: executed_iff)
    then obtain b ins rep where b: "(b, ins, rep) \<in> set (ex_calls s')" "bl_name b = bl_name c"
      by (auto simp: call_names_def)
    with called [OF b(1)] c assms(2) have "b = c"
      by (auto simp: distinct_workflow_def dest: inj_onD)
    with b(1) show "c \<in> fst ` set (ex_calls s')" by force
  qed (use called in auto)
  moreover have "res = Inr (ex_results s')"
    using run nodes r by (auto simp: run_workflow_def g Let_def)
  ultimately show ?thesis using run by blast
qed

theorem acyclic_workflow_runs_every_block_once_witness:
  "\<exists>results evs s'.
     run_workflow 9 False demo_env demo_workflow demo_graph (new_state 0) = Some (Inr results, evs, s') \<and>
     distinct (map fst (ex_calls s')) \<and> fst ` set (ex_calls s') = blocks_of demo_workflow"
proof -
  obtain reg' where built: "build_execution_graph demo_workflow demo_registry = (Inr demo_graph, reg')"
    using demo_built by blast
  have "connected demo_workflow"
    unfolding connected_def demo_blocks
    by (simp add: demo_workflow_def demo_wire_def predecessors_def wires_to_def same_block_def
        input_wire_def demo_defs)
  moreover have "acyclic (edges demo_workflow)"
    by (rule acyclic_subset [OF wf_acyclic [OF wf_measure [of bl_ref]]])
       (simp add: edges_def demo_workflow_def demo_wire_def demo_defs)
  moreover have "productive demo_env demo_workflow"
    by (simp add: productive_def demo_env_def demo_blocks demo_defs)
  ultimately show ?thesis
    by (rule acyclic_workflow_runs_every_block_once [OF demo_ordinary _ _ _ built demo_card])
qed

end
