(* ===== verification/Workflow_Ready.thy ===== *)
theory Workflow_Ready
  imports Workflow_Cycles Workflow_Routes Workflow_Liveness
begin

text \<open>
  From the structural check to the run: what the absence of issues says about a draft, and
  that the workflow built from it is accepted by the engine and runs every block exactly once.
\<close>

section \<open>Nodes without issues\<close>

lemma set_default_fresh: "map_of kvs k = None \<Longrightarrow> set_default k v kvs = kvs @ [(k, v)]"
  by (simp add: set_default_def)

lemma blocks_by_name_clean:
  "distinct (map db_name ds) \<Longrightarrow> blocks_by_name ds = map (\<lambda>d. (db_name d, d)) ds"
  unfolding blocks_by_name_def
proof (induction ds rule: rev_induct)
  case (snoc d ds)
  have "map_of (map (\<lambda>d. (db_name d, d)) ds) (db_name d) = None"
    using snoc.prems by (auto simp: map_of_eq_None_iff)
  with snoc show ?case by (simp add: set_default_fresh)
qed simp

lemma block_classes_clean:
  assumes "distinct (map db_name ds)" "\<forall>d\<in>set ds. get_block (db_type d) reg = Some (cls d)"
  shows "block_classes ds reg = map (\<lambda>d. (db_name d, cls d)) ds"
  using assms unfolding block_classes_def
proof (induction ds rule: rev_induct)
  case (snoc d ds)
  have "map_of (map (\<lambda>d. (db_name d, cls d)) ds) (db_name d) = None"
    using snoc.prems by (auto simp: map_of_eq_None_iff)
  with snoc show ?case by (simp add: set_default_fresh)
qed simp

lemma node_issues_clean:
  assumes "concat (map (node_issues ds reg) ds) = []"
  shows "distinct (map db_name ds)" "\<forall>d\<in>set ds. get_block (db_type d) reg \<noteq> None"
proof -
  have none: "node_issues ds reg d = []" if "d \<in> set ds" for d
    using assms that by simp
  then show "\<forall>d\<in>set ds. get_block (db_type d) reg \<noteq> None"
    by (fastforce simp: node_issues_def split: if_splits)
  have "count_list (map db_name ds) n = (if n \<in> set (map db_name ds) then 1 else 0)" for n
  proof (cases "n \<in> set (map db_name ds)")
    case True
    then obtain d where "d \<in> set ds" "n = db_name d" by auto
    with none [of d] have "count_list (map db_name ds) n \<le> 1"
      by (simp add: node_issues_def split: if_splits)
    moreover have "count_list (map db_name ds) n \<noteq> 0"
      using True by (metis count_list_0_iff)
    ultimately show ?thesis using True by simp
  qed (simp add: count_list_0_iff)
  then show "distinct (map db_name ds)"
    by (simp add: distinct_count_atmost_1 count_mset del: mset_map)
qed

section \<open>Wires without issues\<close>

definition wire_clean ::
    "(string \<times> draft_block) list \<Rightarrow> (string \<times> block_class) list \<Rightarrow> (string \<times> pytype) list \<Rightarrow>
     draft_wire \<Rightarrow> bool" where
  "wire_clean nodes classes types w =
     (case (map_of nodes (dw_source w), map_of nodes (dw_target w),
            map_of classes (dw_source w), map_of classes (dw_target w)) of
        (Some sb, Some tb, Some sc, Some tc) \<Rightarrow>
          port_issues w sc sb tc tb = [] \<and>
          (case static_types w sc tc of None \<Rightarrow> True | Some (s, t) \<Rightarrow> compatible types s t)
      | _ \<Rightarrow> False)"

text \<open>What a wire without issue adds to the scan.\<close>

definition scan_adds :: "draft_wire \<Rightarrow> wire_scan \<Rightarrow> wire_scan \<Rightarrow> bool" where
  "scan_adds w ws ws' =
     (adj_edges (ws_adjacency ws') = insert (dw_source w, dw_target w) (adj_edges (ws_adjacency ws)) \<and>
      ws_valid_ports ws' = (dw_target w, dw_input w) # ws_valid_ports ws \<and>
      ws_incoming ws' = dw_target w # ws_incoming ws)"

lemma add_issues_simps [simp]:
  "ws_issues (add_issues is ws) = ws_issues ws @ is"
  "ws_adjacency (add_issues is ws) = ws_adjacency ws"
  "ws_valid_ports (add_issues is ws) = ws_valid_ports ws"
  "ws_incoming (add_issues is ws) = ws_incoming ws"
  "ws_connected (add_issues is ws) = ws_connected ws"
  "add_issues [] ws = ws"
  by (simp_all add: add_issues_def)

lemma adj_edges_add: "adj_edges (add_adjacent s t adj) = insert (s, t) (adj_edges adj)"
  by (auto simp: adj_edges_def succs_def add_adjacent_def update_conv' set_insort_insert
      split: if_splits)

lemma accept_wire_adds:
  "ws_issues (accept_wire w ws) = ws_issues ws" "scan_adds w ws (accept_wire w ws)"
  by (simp_all add: accept_wire_def scan_adds_def adj_edges_add)

lemma accept_connected: "accept_wire w (ws\<lparr>ws_connected := k\<rparr>) = (accept_wire w ws)\<lparr>ws_connected := k\<rparr>"
  by (simp add: accept_wire_def)

lemma scan_adds_connected [simp]: "scan_adds w ws (ws'\<lparr>ws_connected := k\<rparr>) = scan_adds w ws ws'"
  by (simp add: scan_adds_def)

lemma connect_wire_issues:
  "\<exists>more. ws_issues (fst (connect_wire w sc tc (ws, reg))) = ws_issues ws @ more"
  by (auto simp: connect_wire_def Let_def accept_wire_adds split: option.split prod.split)

lemma scan_wire_issues:
  "\<exists>more. ws_issues (fst (scan_wire nodes classes w (ws, reg))) =
     ws_issues ws @ unknown_node_issues nodes w @ more"
proof (cases "(map_of nodes (dw_source w), map_of nodes (dw_target w),
    map_of classes (dw_source w), map_of classes (dw_target w))")
  case (fields a b c d)
  show ?thesis
  proof (cases "a = None \<or> b = None \<or> c = None \<or> d = None")
    case True
    with fields show ?thesis by (auto simp: scan_wire_def Let_def split: option.split)
  next
    case False
    then obtain sb tb sc tc where "a = Some sb" "b = Some tb" "c = Some sc" "d = Some tc" by auto
    with fields connect_wire_issues
      [of w sc tc "add_issues (unknown_node_issues nodes w) ws" reg] show ?thesis
      by (auto simp: scan_wire_def Let_def)
  qed
qed

lemma connect_wire_clean:
  assumes "cache_ok (br_types reg)" "connect_wire w sc tc (ws, reg) = (ws', reg')" "ws_issues ws' = []"
  shows "scan_adds w ws ws' \<and>
    (case static_types w sc tc of None \<Rightarrow> True | Some (s, t) \<Rightarrow> compatible (ts_types (br_types reg)) s t) \<and>
    cache_ok (br_types reg') \<and> ts_types (br_types reg') = ts_types (br_types reg)"
proof (cases "static_types w sc tc")
  case None
  with assms show ?thesis
    by (auto simp: connect_wire_def accept_wire_adds accept_connected Let_def split: if_splits)
next
  case (Some st)
  obtain s t where st: "st = (s, t)" by (cases st)
  obtain fits reg1 where ask: "is_type_compatible s t reg = (fits, reg1)" by fastforce
  from registry.ask_cases [OF assms(1), of "(s, t)" fits reg1] ask
  have "fits = compatible (ts_types (br_types reg)) s t" "cache_ok (br_types reg1)" by simp_all
  moreover from ask have "ts_types (br_types reg1) = ts_types (br_types reg)"
    by (auto simp: is_type_compatible_def split_beta)
  ultimately show ?thesis
    using assms(2,3) ask Some st
    by (auto simp: connect_wire_def accept_wire_adds accept_connected Let_def split: if_splits)
qed

lemma scan_wire_clean:
  assumes "cache_ok (br_types reg)" "scan_wire nodes classes w (ws, reg) = (ws', reg')" "ws_issues ws' = []"
    and classes: "\<And>n b. map_of nodes n = Some b \<Longrightarrow> \<exists>c. map_of classes n = Some c"
  shows "ws_issues ws = [] \<and> scan_adds w ws ws' \<and>
    wire_clean nodes classes (ts_types (br_types reg)) w \<and>
    cache_ok (br_types reg') \<and> ts_types (br_types reg') = ts_types (br_types reg)"
proof -
  from scan_wire_issues [of nodes classes w ws reg] assms(2,3)
  have ws: "ws_issues ws = []" and known: "unknown_node_issues nodes w = []" by auto
  obtain sb tb where nodes: "map_of nodes (dw_source w) = Some sb" "map_of nodes (dw_target w) = Some tb"
    using known by (auto simp: unknown_node_issues_def split: if_splits)
  obtain sc tc where cls: "map_of classes (dw_source w) = Some sc" "map_of classes (dw_target w) = Some tc"
    using classes nodes by blast
  have ports: "port_issues w sc sb tc tb = []"
    using assms(2,3) by (auto simp: scan_wire_def known nodes cls Let_def split: if_splits)
  with assms(2) have "connect_wire w sc tc (ws, reg) = (ws', reg')"
    by (simp add: scan_wire_def known nodes cls)
  from connect_wire_clean [OF assms(1) this assms(3)] ports ws show ?thesis
    by (simp add: wire_clean_def nodes cls)
qed

lemma scan_fold_clean:
  assumes "cache_ok (br_types reg)" "fold (scan_wire nodes classes) wires (ws, reg) = (ws', reg')"
    and "ws_issues ws' = []"
    and classes: "\<And>n b. map_of nodes n = Some b \<Longrightarrow> \<exists>c. map_of classes n = Some c"
  shows "ws_issues ws = [] \<and>
    adj_edges (ws_adjacency ws') = (\<lambda>w. (dw_source w, dw_target w)) ` set wires \<union> adj_edges (ws_adjacency ws) \<and>
    set (ws_valid_ports ws') = (\<lambda>w. (dw_target w, dw_input w)) ` set wires \<union> set (ws_valid_ports ws) \<and>
    set (ws_incoming ws') = dw_target ` set wires \<union> set (ws_incoming ws) \<and>
    list_all (wire_clean nodes classes (ts_types (br_types reg))) wires \<and>
    cache_ok (br_types reg') \<and> ts_types (br_types reg') = ts_types (br_types reg)"
  using assms(1-3)
proof (induction wires arbitrary: ws reg)
  case (Cons w wires)
  obtain ws1 reg1 where step: "scan_wire nodes classes w (ws, reg) = (ws1, reg1)" by fastforce
  have issues: "ws_issues ws1 = []"
  proof -
    have "\<exists>more. ws_issues (fst (fold (scan_wire nodes classes) vs st)) = ws_issues (fst st) @ more" for vs st
    proof (induction vs arbitrary: st)
      case (Cons v vs)
      obtain a r where st: "st = (a, r)" by (cases st)
      from Cons [of "scan_wire nodes classes v st"] scan_wire_issues [of nodes classes v a r] show ?case
        by (auto simp: st)
    qed simp
    from this [of wires "(ws1, reg1)"] Cons.prems(2,3) step show ?thesis by auto
  qed
  from scan_wire_clean [OF Cons.prems(1) step issues classes]
  have one: "ws_issues ws = []" "scan_adds w ws ws1"
    "wire_clean nodes classes (ts_types (br_types reg)) w"
    "cache_ok (br_types reg1)" "ts_types (br_types reg1) = ts_types (br_types reg)" by auto
  from Cons.prems(2) step have "fold (scan_wire nodes classes) wires (ws1, reg1) = (ws', reg')" by simp
  from Cons.IH [OF one(4) this Cons.prems(3)] one show ?case
    by (auto simp: scan_adds_def)
qed simp

section \<open>Drafts without issues\<close>

text \<open>What the check establishes about a draft: \<open>E\<close> are the pairs of names its wires join.\<close>

definition draft_edges :: "draft_wire list \<Rightarrow> (string \<times> string) set" where
  "draft_edges ws = (\<lambda>w. (dw_source w, dw_target w)) ` set ws"

lemma validated_draft:
  assumes valid: "validate_workflow ds ws reg = ([], reg')" and cache: "cache_ok (br_types reg)"
    and cls: "\<forall>d\<in>set ds. get_block (db_type d) reg = Some (cls d)"
  shows "distinct (map db_name ds)"
    and "\<And>w. w \<in> set ws \<Longrightarrow> wire_clean (map (\<lambda>d. (db_name d, d)) ds)
           (map (\<lambda>d. (db_name d, cls d)) ds) (ts_types (br_types reg)) w"
    and "cache_ok (br_types reg')" "ts_types (br_types reg') = ts_types (br_types reg)"
    and "acyclic (draft_edges ws)"
    and "\<And>d p i. d \<in> set ds \<Longrightarrow> (p, i) \<in> set (bc_inputs (cls d)) \<Longrightarrow> \<not> in_nullable i \<Longrightarrow>
           \<exists>w\<in>set ws. dw_target w = db_name d \<and> dw_input w = p"
    and "\<And>d. d \<in> set ds \<Longrightarrow> bc_inputs (cls d) = [] \<or> (\<exists>w\<in>set ws. dw_target w = db_name d)"
proof -
  let ?nodes = "map (\<lambda>d. (db_name d, d)) ds" and ?classes = "map (\<lambda>d. (db_name d, cls d)) ds"
  obtain sc reg1 where scan: "scan_wires ds ws reg = (sc, reg1)" by fastforce
  let ?entries = "entry_names (blocks_by_name ds) (block_classes ds reg) (ws_incoming sc)"
  have parts: "concat (map (node_issues ds reg) ds) = []" "ws_issues sc = []"
    "concat (map (missing_inputs (blocks_by_name ds) (ws_valid_ports sc)) (block_classes ds reg)) = []"
    "reach_issues (block_classes ds reg) ?entries (ws_adjacency sc) = []"
    "scan_cycles (block_classes ds reg) (ws_adjacency sc) = []" "reg1 = reg'"
    using valid scan by (auto simp: validate_workflow_def Let_def)
  show names: "distinct (map db_name ds)" by (rule node_issues_clean(1) [OF parts(1)])
  have nodes: "blocks_by_name ds = ?nodes" by (rule blocks_by_name_clean [OF names])
  have classes: "block_classes ds reg = ?classes"
    by (rule block_classes_clean [OF names cls])
  have at: "map_of ?nodes (db_name d) = Some d" if "d \<in> set ds" for d
    using that names by (auto intro!: map_of_is_SomeI simp: comp_def)
  have known: "\<exists>c. map_of ?classes n = Some c" if "map_of ?nodes n = Some b" for n b
  proof -
    have "n \<in> fst ` set ?classes" using map_of_SomeD [OF that] by force
    then have "map_of ?classes n \<noteq> None" unfolding map_of_eq_None_iff by simp
    then show ?thesis by simp
  qed
  let ?ws0 = "\<lparr>ws_issues = [], ws_valid_ports = [], ws_incoming = [], ws_adjacency = [], ws_connected = []\<rparr>"
  have "fold (scan_wire ?nodes ?classes) ws (?ws0, reg) = (sc, reg')"
    using scan parts(6) by (simp add: scan_wires_def nodes classes)
  from scan_fold_clean [OF cache this parts(2) known]
  have edges: "adj_edges (ws_adjacency sc) = draft_edges ws"
    and ports: "set (ws_valid_ports sc) = (\<lambda>w. (dw_target w, dw_input w)) ` set ws"
    and incoming: "set (ws_incoming sc) = dw_target ` set ws"
    and clean: "list_all (wire_clean ?nodes ?classes (ts_types (br_types reg))) ws"
    and "cache_ok (br_types reg')" "ts_types (br_types reg') = ts_types (br_types reg)"
    by (auto simp: adj_edges_def succs_def draft_edges_def)
  then show "cache_ok (br_types reg')" "ts_types (br_types reg') = ts_types (br_types reg)" by simp_all
  show wires: "wire_clean ?nodes ?classes (ts_types (br_types reg)) w" if "w \<in> set ws" for w
    using clean that by (simp add: list_all_iff)
  show "\<exists>w\<in>set ws. dw_target w = db_name d \<and> dw_input w = p"
    if d: "d \<in> set ds" and p: "(p, i) \<in> set (bc_inputs (cls d))" "\<not> in_nullable i" for d p i
  proof -
    have "missing_inputs ?nodes (ws_valid_ports sc) (db_name d, cls d) = []"
      using parts(3) d by (simp add: nodes classes)
    with p have "(db_name d, p) \<in> set (ws_valid_ports sc)"
      by (auto simp: missing_inputs_def Let_def filter_empty_conv)
    with ports show ?thesis by auto
  qed
  show "acyclic (draft_edges ws)"
  proof -
    from silent_scan_is_acyclic [OF parts(5)] obtain F where
      F: "fst ` set ?classes \<subseteq> F" "acyclic (within_edges (ws_adjacency sc) F)"
      unfolding classes by auto
    have "dw_source w \<in> F" if "w \<in> set ws" for w
    proof -
      from wires [OF that] have "map_of ?nodes (dw_source w) \<noteq> None"
        by (auto simp: wire_clean_def split: option.splits)
      then have "dw_source w \<in> db_name ` set ds"
        unfolding map_of_eq_None_iff by force
      with F(1) show ?thesis by force
    qed
    then have "draft_edges ws \<subseteq> within_edges (ws_adjacency sc) F"
      using edges by (auto simp: within_edges_def adj_edges_def draft_edges_def)
    with F(2) show ?thesis using acyclic_subset by blast
  qed
  show "bc_inputs (cls d) = [] \<or> (\<exists>w\<in>set ws. dw_target w = db_name d)" if d: "d \<in> set ds" for d
  proof -
    from d parts(4) have "?entries \<noteq> []"
      by (auto simp: reach_issues_def Let_def classes split: if_splits)
    with d parts(4) have "db_name d \<in> set (reach (ws_adjacency sc) (rev ?entries) ?entries)"
      by (auto simp: reach_issues_def Let_def classes filter_empty_conv)
    then obtain e where e: "e \<in> set ?entries" "(e, db_name d) \<in> (draft_edges ws)\<^sup>*"
      by (auto simp: reach_exact edges)
    show ?thesis
    proof (cases "e = db_name d")
      case True
      with e(1) obtain d' where "d' \<in> set ds" "db_name d' = db_name d" "bc_inputs (cls d') = []"
        by (auto simp: entry_names_def classes)
      with d names have "d' = d" by (auto simp: distinct_map dest: inj_onD)
      with \<open>bc_inputs (cls d') = []\<close> show ?thesis by simp
    next
      case False
      with e(2) obtain z where "(z, db_name d) \<in> draft_edges ws"
        by (meson rtrancl_eq_or_trancl tranclD2)
      then show ?thesis by (auto simp: draft_edges_def)
    qed
  qed
qed

section \<open>The workflow built from a draft\<close>

text \<open>\<open>row_block\<close> is the block of the node in row \<open>i\<close>: an instance of a class whose constructor
  keeps the ports of the class.\<close>

definition row_block :: "nat \<Rightarrow> block_class \<Rightarrow> string \<Rightarrow> block" where
  "row_block i c n =
     \<lparr>bl_ref = i, bl_name = n, bl_kind = bc_kind c, bl_inputs = bc_inputs c, bl_outputs = bc_outputs c\<rparr>"

definition class_static ::
    "(block_class \<Rightarrow> (string \<times> json) list \<Rightarrow> ports option) \<Rightarrow> block_class \<Rightarrow> block_instance \<Rightarrow> bool" where
  "class_static make_ports c d =
     ((bc_kind c = NormalKind \<or> bc_kind c = LoopEndKind) \<and> signature_accepts c (bi_config d) \<and>
      make_ports c (bi_config d) = Some (bc_inputs c, bc_outputs c))"

lemma build_rows:
  assumes "list_all2 (class_static make_ports) cs ds" "map core ns = map2 instance_core ds cs"
  shows "build_blocks make_ports ov nodes i ns =
    Inr (map2 (\<lambda>j (c, d). row_block j c (bi_name d)) [i..<i + length ns] (zip cs ds))"
  using assms
proof (induction cs ds arbitrary: ns i rule: list_all2_induct)
  case (Cons c cs d ds)
  then obtain n ms where ns: "ns = n # ms" "core n = instance_core d c" "map core ms = map2 instance_core ds cs"
    by (cases ns) auto
  have "pass_outputs ov nodes n = n"
    using ns(2) by (simp add: pass_outputs_def core_def instance_core_def)
  moreover have "instantiate make_ports i n = Inr (row_block i c (bi_name d))"
    using ns(2) Cons.hyps(1)
    by (simp add: instantiate_def class_static_def core_def instance_core_def row_block_def)
  ultimately show ?case
    using Cons.IH [OF ns(3), of "Suc i"] by (simp add: ns(1) upt_conv_Cons del: upt_Suc)
qed simp

text \<open>A draft instance the create handler accepts, of a class whose ports are fixed.\<close>

definition plain_instance ::
    "(block_class \<Rightarrow> (string \<times> json) list \<Rightarrow> ports option) \<Rightarrow> block_registry \<Rightarrow> block_instance \<Rightarrow> bool" where
  "plain_instance make_ports reg d =
     (bi_name d \<noteq> [] \<and>
      fst ` set (bi_config d) \<inter> {''self'', ''block_class'', ''name'', ''wire_from''} = {} \<and>
      dynamic_port_names (draft_of d) ''inputs'' = [] \<and> dynamic_port_names (draft_of d) ''outputs'' = [] \<and>
      (case get_block (bi_type d) reg of None \<Rightarrow> True | Some c \<Rightarrow> class_static make_ports c d))"

lemma acyclic_image:
  assumes "acyclic r" "\<And>x y. (x, y) \<in> s \<Longrightarrow> (f x, f y) \<in> r"
  shows "acyclic s"
proof -
  have "(f x, f y) \<in> r\<^sup>+" if "(x, y) \<in> s\<^sup>+" for x y
    using that by (induction rule: trancl_induct) (auto intro: assms(2) trancl_into_trancl)
  with assms(1) show ?thesis by (auto simp: acyclic_def)
qed

lemma wire_cleanE:
  assumes "wire_clean (map (\<lambda>d. (db_name d, d)) ds) (map (\<lambda>d. (db_name d, k d)) ds) types w"
    and "distinct (map db_name ds)"
  obtains sd td where "sd \<in> set ds" "db_name sd = dw_source w" "td \<in> set ds" "db_name td = dw_target w"
    "port_issues w (k sd) sd (k td) td = []"
    "case static_types w (k sd) (k td) of None \<Rightarrow> True | Some (s, t) \<Rightarrow> compatible types s t"
proof -
  have at: "\<exists>d\<in>set ds. db_name d = n \<and> b = f d" if "map_of (map (\<lambda>d. (db_name d, f d)) ds) n = Some b" for n b
    and f :: "draft_block \<Rightarrow> 'z"
    using map_of_SomeD [OF that] by auto
  from assms(1) obtain sb tb sc tc where m:
    "map_of (map (\<lambda>d. (db_name d, d)) ds) (dw_source w) = Some sb"
    "map_of (map (\<lambda>d. (db_name d, d)) ds) (dw_target w) = Some tb"
    "map_of (map (\<lambda>d. (db_name d, k d)) ds) (dw_source w) = Some sc"
    "map_of (map (\<lambda>d. (db_name d, k d)) ds) (dw_target w) = Some tc"
    "port_issues w sc sb tc tb = []"
    "case static_types w sc tc of None \<Rightarrow> True | Some (s, t) \<Rightarrow> compatible types s t"
    by (auto simp: wire_clean_def split: option.splits)
  have eq: "x = y" if "x \<in> set ds" "y \<in> set ds" "db_name x = db_name y" for x y
    using assms(2) that by (auto simp: distinct_map dest: inj_onD)
  from at [OF m(1)] at [OF m(2)] at [OF m(3)] at [OF m(4)] m(5,6) eq that show thesis by metis
qed

text \<open>The wires of the built workflow.\<close>

lemma set_map_filter_iff: "y \<in> set (List.map_filter f xs) \<longleftrightarrow> (\<exists>x\<in>set xs. f x = Some y)"
  by (induction xs) (auto simp: List.map_filter_def)

lemma built_wires:
  assumes "distinct (map bl_name bs)"
  shows "wi \<in> set (build_wires bs (map drawn_wire ws)) \<longleftrightarrow>
    (\<exists>w\<in>set ws. wi_source wi \<in> set bs \<and> bl_name (wi_source wi) = dw_source w \<and>
       wi_target wi \<in> set bs \<and> bl_name (wi_target wi) = dw_target w \<and>
       wi_output wi = dw_output w \<and> wi_input wi = dw_input w)"
proof -
  have "wire_of bs (drawn_wire w) = Some wi \<longleftrightarrow>
      (wi_source wi \<in> set bs \<and> bl_name (wi_source wi) = dw_source w \<and>
       wi_target wi \<in> set bs \<and> bl_name (wi_target wi) = dw_target w \<and>
       wi_output wi = dw_output w \<and> wi_input wi = dw_input w)" for w
    using block_named_iff [OF assms, of "dw_source w" "wi_source wi"]
      block_named_iff [OF assms, of "dw_target w" "wi_target wi"]
    by (cases wi) (auto simp: wire_of_def drawn_wire_def split: option.splits)
  then show ?thesis by (auto simp: build_wires_eq set_map_filter_iff)
qed

lemma ready_workflow:
  assumes valid: "validate_workflow (map draft_of (df_blocks def)) (df_wires def) reg = ([], reg')"
    and cache: "cache_ok (br_types reg)"
    and plain: "\<forall>d\<in>set (df_blocks def). plain_instance make_ports reg d"
  shows "\<exists>b wk g reg''. draft_builder as_names draws reg def = Inr b \<and>
    build_workflow make_ports ov b = Inr wk \<and> build_execution_graph wk reg' = (Inr g, reg'') \<and>
    map bl_name (wf_blocks wk) = map bi_name (df_blocks def) \<and> blocks_of wk = set (wf_blocks wk) \<and>
    ordinary wk \<and> distinct_workflow wk \<and> connected wk \<and> acyclic (edges wk)"
proof -
  let ?ds = "df_blocks def" and ?ws = "df_wires def"
  define cls where "cls d = the (get_block (bi_type d) reg)" for d :: block_instance
  have issues: "concat (map (node_issues (map draft_of ?ds) reg) (map draft_of ?ds)) = []"
    using valid by (auto simp: validate_workflow_def Let_def split_beta)
  have cls: "get_block (bi_type d) reg = Some (cls d)" if "d \<in> set ?ds" for d
    using node_issues_clean(2) [OF issues] that by (auto simp: cls_def draft_of_def)
  have db: "db_name (draft_of d) = bi_name d" "db_type (draft_of d) = bi_type d" for d
    by (simp_all add: draft_of_def)
  have cls': "\<forall>d\<in>set (map draft_of ?ds). get_block (db_type d) reg = Some (the (get_block (db_type d) reg))"
    using cls by (auto simp: db cls_def)
  note draft = validated_draft [OF valid cache cls']
  have names: "distinct (map bi_name ?ds)"
    using draft(1) by (simp add: comp_def db)
  have "list_all2 (instance_ok reg) ?ds (map cls ?ds)"
    using plain cls by (simp add: list_all2_map2 list_all2_same instance_ok_def plain_instance_def)
  from draft_builder_nodes [OF this names, of as_names draws] obtain b where
    b: "draft_builder as_names draws reg def = Inr b" "cores b = map2 instance_core ?ds (map cls ?ds)"
    "wb_wires b = map drawn_wire ?ws" by blast
  have len: "length (wb_nodes b) = length ?ds"
    using b(2) by (simp add: length_cores)
  define bs where "bs = map2 (\<lambda>j (c, d). row_block j c (bi_name d)) [0..<length ?ds] (zip (map cls ?ds) ?ds)"
  have "list_all2 (class_static make_ports) (map cls ?ds) ?ds"
    using plain cls by (auto simp: list_all2_map1 list_all2_same plain_instance_def)
  from build_rows [OF this, of "wb_nodes b" ov "wb_nodes b" 0] b(2)
  have "build_blocks make_ports ov (wb_nodes b) 0 (wb_nodes b) = Inr bs"
    by (simp add: cores_def bs_def len)
  then obtain wk where wk: "build_workflow make_ports ov b = Inr wk" "wf_blocks wk = bs"
    "wf_wires wk = build_wires bs (map drawn_wire ?ws)"
    by (auto simp: build_workflow_def b(3))
  have bs_nth: "bs ! i = row_block i (cls (?ds ! i)) (bi_name (?ds ! i))" if "i < length ?ds" for i
    using that by (simp add: bs_def)
  have bs_len: "length bs = length ?ds" by (simp add: bs_def)
  have bs_names: "map bl_name bs = map bi_name ?ds" "map bl_ref bs = [0..<length ?ds]"
    by (auto intro!: nth_equalityI simp: bs_len bs_nth row_block_def)
  then have bs_dist: "distinct (map bl_name bs)" "distinct (map bl_ref bs)"
    using names by simp_all
  have row: "\<exists>d\<in>set ?ds. bl_name c = bi_name d \<and> bl_kind c = bc_kind (cls d) \<and>
      bl_inputs c = bc_inputs (cls d) \<and> bl_outputs c = bc_outputs (cls d)" if "c \<in> set bs" for c
  proof -
    from that obtain i where "i < length ?ds" "c = bs ! i" by (auto simp: in_set_conv_nth bs_len)
    with bs_nth show ?thesis by (auto simp: row_block_def intro!: bexI [of _ "?ds ! i"])
  qed
  have same: "d = d'" if "d \<in> set ?ds" "d' \<in> set ?ds" "bi_name d = bi_name d'" for d d'
    using that names by (auto simp: distinct_map dest: inj_onD)
  note wires = built_wires [OF bs_dist(1), of _ ?ws, folded wk(3)]
  have blocks: "blocks_of wk = set bs"
    using wires by (auto simp: blocks_of_def wk(2))
  have bs_dest: "c = c'" if "c \<in> set bs" "c' \<in> set bs" "bl_name c = bl_name c'" for c c'
    using that bs_dist(1) by (auto simp: distinct_map dest: inj_onD)
  have fits: "wire_fits (ts_types (br_types reg')) wi" if "wi \<in> set (wf_wires wk)" for wi
  proof -
    from that wires obtain w where w: "w \<in> set ?ws" "wi_source wi \<in> set bs"
      "bl_name (wi_source wi) = dw_source w" "wi_target wi \<in> set bs"
      "bl_name (wi_target wi) = dw_target w" "wi_output wi = dw_output w" "wi_input wi = dw_input w" by blast
    from draft(2) [OF w(1)] obtain sd td where d: "sd \<in> set ?ds" "bi_name sd = dw_source w"
      "td \<in> set ?ds" "bi_name td = dw_target w"
      "port_issues w (cls sd) (draft_of sd) (cls td) (draft_of td) = []"
      "case static_types w (cls sd) (cls td) of None \<Rightarrow> True
       | Some (s, t) \<Rightarrow> compatible (ts_types (br_types reg)) s t"
      by (rule wire_cleanE [OF _ draft(1)]) (auto simp: db cls_def)
    from row [OF w(2)] row [OF w(4)] w(3,5) d(1-4) same
    have "bl_outputs (wi_source wi) = bc_outputs (cls sd)" "bl_inputs (wi_target wi) = bc_inputs (cls td)"
      by metis+
    with d plain show ?thesis
      by (auto simp: wire_fits_def wire_types_def w(6,7) static_types_def port_issues_def has_port_def
          plain_instance_def draft(4) split: if_splits option.splits)
  qed
  obtain g reg'' where built: "build_execution_graph wk reg' = (Inr g, reg'')"
    using build_graph_accepts [OF draft(3), of "wf_wires wk" "\<lambda>_. []"] fits
    by (metis build_execution_graph_def list_all_iff prod.collapse)
  have "ordinary wk"
    using row plain cls by (force simp: ordinary_def blocks is_normal_def plain_instance_def class_static_def)
  moreover have "distinct_workflow wk"
    using bs_dist by (simp add: distinct_workflow_def blocks distinct_map)
  moreover have "acyclic (edges wk)"
    by (rule acyclic_image [OF draft(5), where f = bl_name])
       (auto simp: edges_def wires draft_edges_def)
  moreover have "connected wk"
    unfolding connected_def blocks
  proof (intro ballI conjI)
    fix c assume c: "c \<in> set bs"
    from row [OF this] obtain d where d: "d \<in> set ?ds" "bl_name c = bi_name d"
      "bl_inputs c = bc_inputs (cls d)" by blast
    have into: "\<exists>wi\<in>set (wires_to wk c). wi_input wi = dw_input w"
      if "w \<in> set ?ws" "dw_target w = bi_name d" for w
    proof -
      from draft(2) [OF that(1)] obtain sd where sd: "sd \<in> set ?ds" "bi_name sd = dw_source w"
        by (rule wire_cleanE [OF _ draft(1)]) (auto simp: db)
      from sd bs_names(1) obtain a where "a \<in> set bs" "bl_name a = dw_source w"
        by (metis (no_types, lifting) imageE image_eqI list.set_map)
      with that c d(2) have "\<lparr>wi_source = a, wi_output = dw_output w, wi_target = c, wi_input = dw_input w\<rparr>
          \<in> set (wf_wires wk)" by (auto simp: wires)
      then show ?thesis by (force simp: wires_to_def same_block_def)
    qed
    show "bl_inputs c = [] \<and> c \<in> set (wf_blocks wk) \<or> predecessors wk c \<noteq> []"
    proof (cases "bl_inputs c = []")
      case False
      with draft(7) [of "draft_of d"] d obtain w where "w \<in> set ?ws" "dw_target w = bi_name d"
        by (auto simp: db cls_def)
      with into show ?thesis by (force simp: predecessors_def)
    qed (simp add: wk(2) c)
    show "case x of (n, i) \<Rightarrow> in_nullable i \<or> input_wire wk c n \<noteq> None" if "x \<in> set (bl_inputs c)" for x
    proof -
      obtain n i where x: "x = (n, i)" by (cases x)
      have "input_wire wk c n \<noteq> None" if "\<not> in_nullable i"
      proof -
        from draft(6) [of "draft_of d" n i] \<open>x \<in> set (bl_inputs c)\<close> x d that obtain w where
          "w \<in> set ?ws" "dw_target w = bi_name d" "dw_input w = n"
          by (auto simp: db cls_def)
        with into obtain wi where "wi \<in> set (wires_to wk c)" "wi_input wi = n" by blast
        then show ?thesis by (auto simp: input_wire_def find_None_iff)
      qed
      with x show ?thesis by auto
    qed
  qed
  ultimately show ?thesis
    using b(1) wk built blocks bs_names(1) by auto
qed

text \<open>C19. From the structural check to the run. A draft for which the check reports nothing, whose
  blocks are ordinary blocks with the ports of their classes, is accepted by the create handler
  and by the constructor of the engine, and the run of the workflow built from it returns
  without an error after executing every block of the draft exactly once. (Every class accepts
  the configuration of its blocks, and every block returns its declared outputs.)\<close>

theorem validated_draft_runs_every_block_once:
  fixes en :: "('v, 'w) exec_env" and w :: 'w
  assumes "validate_workflow (map draft_of (df_blocks def)) (df_wires def) reg = ([], reg')"
    and "cache_ok (br_types reg)"
    and "\<forall>d\<in>set (df_blocks def). plain_instance make_ports reg d"
    and answers: "\<forall>b ins w. case fst (en_execute en b ins w) of
           Inl _ \<Rightarrow> False | Inr outs \<Rightarrow> fst ` set (bl_outputs b) \<subseteq> fst ` set outs"
    and fuel: "length (df_blocks def) < n"
  shows "\<exists>b wk g reg'' results evs s'.
    draft_builder as_names draws reg def = Inr b \<and> build_workflow make_ports ov b = Inr wk \<and>
    build_execution_graph wk reg' = (Inr g, reg'') \<and>
    run_workflow n host en wk g (new_state w) = Some (Inr results, evs, s') \<and>
    distinct (map (\<lambda>(c, _). bl_name c) (ex_calls s')) \<and>
    (\<lambda>(c, _). bl_name c) ` set (ex_calls s') = bi_name ` set (df_blocks def)"
proof -
  from ready_workflow [OF assms(1-3), of as_names draws ov] obtain b wk g reg'' where
    b: "draft_builder as_names draws reg def = Inr b" "build_workflow make_ports ov b = Inr wk"
    and built: "build_execution_graph wk reg' = (Inr g, reg'')"
    and names: "map bl_name (wf_blocks wk) = map bi_name (df_blocks def)"
    and wk: "blocks_of wk = set (wf_blocks wk)" "ordinary wk" "distinct_workflow wk" "connected wk"
      "acyclic (edges wk)" by blast
  have "card (blocks_of wk) \<le> length (df_blocks def)"
    using names card_length [of "wf_blocks wk"] by (metis length_map wk(1))
  with fuel have card: "card (blocks_of wk) < n" by simp
  have "productive en wk" using answers by (auto simp: productive_def)
  from acyclic_workflow_runs_every_block_once [OF wk(2-5) this built card, of host w]
  obtain results evs s' where
    run: "run_workflow n host en wk g (new_state w) = Some (Inr results, evs, s')"
    and calls: "distinct (map fst (ex_calls s'))" "fst ` set (ex_calls s') = blocks_of wk" by blast
  have "inj_on bl_name (set (map fst (ex_calls s')))"
    using wk(3) calls(2) by (simp add: distinct_workflow_def)
  with calls(1) have "distinct (map bl_name (map fst (ex_calls s')))"
    unfolding distinct_map by blast
  then have "distinct (map (\<lambda>(c, _). bl_name c) (ex_calls s'))"
    by (simp add: comp_def case_prod_unfold)
  moreover have "(\<lambda>(c, _). bl_name c) ` set (ex_calls s') = bl_name ` (fst ` set (ex_calls s'))"
    by (auto simp: image_image case_prod_unfold)
  moreover have "bl_name ` set (wf_blocks wk) = bi_name ` set (df_blocks def)"
    using names by (metis list.set_map)
  ultimately show ?thesis
    using b built run by (auto simp: calls(2) wk(1))
qed

definition pilot_env :: "(nat, nat) exec_env" where
  "pilot_env = \<lparr>en_execute = (\<lambda>b ins w. (Inr (map (\<lambda>(n, _). (n, w)) (bl_outputs b)), Suc w)),
     en_truth = (\<lambda>_. True)\<rparr>"

definition pilot_checked :: block_registry where
  "pilot_checked =
     snd (validate_workflow (map draft_of (df_blocks pilot_def)) (df_wires pilot_def) pilot_registry)"

theorem validated_draft_runs_every_block_once_witness:
  "\<exists>b wk g reg'' results evs s'.
    draft_builder (\<lambda>_. []) [] pilot_registry pilot_def = Inr b \<and>
    build_workflow (\<lambda>c _. Some (bc_inputs c, bc_outputs c)) (\<lambda>_. JNull) b = Inr wk \<and>
    build_execution_graph wk pilot_checked = (Inr g, reg'') \<and>
    run_workflow 4 False pilot_env wk g (new_state 0) = Some (Inr results, evs, s') \<and>
    distinct (map (\<lambda>(c, _). bl_name c) (ex_calls s')) \<and>
    (\<lambda>(c, _). bl_name c) ` set (ex_calls s') = bi_name ` set (df_blocks pilot_def)"
proof (rule validated_draft_runs_every_block_once)
  have "fst (validate_workflow (map draft_of (df_blocks pilot_def)) (df_wires pilot_def) pilot_registry) = []"
    by code_simp
  then show "validate_workflow (map draft_of (df_blocks pilot_def)) (df_wires pilot_def) pilot_registry =
      ([], pilot_checked)"
    by (simp add: pilot_checked_def prod_eq_iff)
  show "cache_ok (br_types pilot_registry)"
    by (simp add: pilot_registry_def cache_ok_def cached_def)
  show "\<forall>d\<in>set (df_blocks pilot_def).
      plain_instance (\<lambda>c _. Some (bc_inputs c, bc_outputs c)) pilot_registry d"
    by (simp add: pilot_def_def pilot_instance_def plain_instance_def dynamic_port_names_def
        draft_config_def draft_of_def get_block_def pilot_registry_def class_static_def pilot_class_def
        signature_accepts_def)
  show "\<forall>b ins w. case fst (en_execute pilot_env b ins w) of
      Inl _ \<Rightarrow> False | Inr outs \<Rightarrow> fst ` set (bl_outputs b) \<subseteq> fst ` set outs"
    by (force simp: pilot_env_def)
  show "length (df_blocks pilot_def) < 4" by (simp add: pilot_def_def)
qed

end
