(* ===== verification/Workflow_Durability.thy ===== *)
theory Workflow_Durability
  imports Workflow_Registry
begin

text \<open>
  What a restart loads after a write to the workflow table: the table as before the request or
  as after it, whatever fails and wherever the process stops.
\<close>

section \<open>An undisturbed load\<close>

lemma file_at_targets: "file_at p (d, x) = targets d p"
  by (simp add: file_at_def targets_def)

text \<open>The deletion marks and the text a load sees for each workflow.\<close>

definition marked_deleted :: "'p texts \<Rightarrow> path \<Rightarrow> (path \<Rightarrow> string option) \<Rightarrow> string set" where
  "marked_deleted tx base files =
     (case Option.bind (files (tombstones_path base)) (tx_parse_ids tx) of
        None \<Rightarrow> {} | Some ids \<Rightarrow> set ids)"

definition bundled_text ::
    "string set \<Rightarrow> (string \<times> string \<times> string) list \<Rightarrow> string \<Rightarrow> string \<Rightarrow> string option" where
  "bundled_text deleted bundled g w =
     (if workflow_name g w \<in> deleted then None
      else map_option (\<lambda>(_, _, text). text) (List.find (\<lambda>(g', w', _). g' = g \<and> w' = w) bundled))"

definition visible_text ::
    "path \<Rightarrow> string set \<Rightarrow> (string \<times> string \<times> string) list \<Rightarrow> (path \<Rightarrow> string option) \<Rightarrow>
     string \<Rightarrow> string \<Rightarrow> string option" where
  "visible_text base deleted bundled files g w =
     (case files (workflow_path base g w) of
        Some text \<Rightarrow> Some text
      | None \<Rightarrow> bundled_text deleted bundled g w)"

lemma extract_undisturbed:
  "\<exists>t' d'. extract_presets base ps (t, (d, j, [])) = (Done (), t', (d', j, [])) \<and>
     wt_workflows t' = wt_workflows t \<and> wt_deleted t' = wt_deleted t \<and>
     (\<forall>g w. targets d' (workflow_path base g w) = visible_text base (wt_deleted t) ps (targets d) g w)"
proof (induction ps arbitrary: t d)
  case Nil
  show ?case by (auto simp: visible_text_def bundled_text_def split: option.split)
next
  case (Cons p ps)
  obtain g w c where p: "p = (g, w, c)" by (cases p)
  let ?t = "t\<lparr>wt_presets := insert (workflow_name g w) (wt_presets t)\<rparr>"
  show ?case
  proof (cases "workflow_name g w \<in> wt_deleted t \<or> targets d (workflow_path base g w) \<noteq> None")
    case True
    then have "extract_preset base p (t, (d, j, [])) = (Done (), ?t, (d, j, []))"
      by (simp add: extract_preset_def p file_at_targets)
    moreover from True have "visible_text base (wt_deleted t) ps (targets d) g' w' =
        visible_text base (wt_deleted t) (p # ps) (targets d) g' w'" for g' w'
      by (auto simp: visible_text_def bundled_text_def p split: option.split)
    ultimately show ?thesis using Cons [of ?t d] by auto
  next
    case False
    let ?d = "set_file (Target (workflow_path base g w)) (Some c) d"
    have "extract_preset base p (t, (d, j, [])) = (Done (), ?t, (?d, j, []))"
      using False by (simp add: extract_preset_def p file_at_targets io_try_def io_write_def)
    moreover from False have "visible_text base (wt_deleted t) ps (targets ?d) g' w' =
        visible_text base (wt_deleted t) (p # ps) (targets d) g' w'" for g' w'
      by (auto simp: visible_text_def bundled_text_def p targets_set_file split: option.split)
    ultimately show ?thesis using Cons [of ?t ?d] by auto
  qed
qed

text \<open>The workflow a text stands for, under its name.\<close>

definition loaded_workflow ::
    "'p texts \<Rightarrow> (string \<Rightarrow> block_class option) \<Rightarrow> ('p \<Rightarrow> string list) \<Rightarrow> string list \<Rightarrow>
     block_registry \<Rightarrow> string \<Rightarrow> string option \<Rightarrow> 'p builder option" where
  "loaded_workflow tx import_class as_names draws reg name text =
     (case Option.bind text (tx_parse tx) of
        None \<Rightarrow> None
      | Some doc \<Rightarrow>
          (case load_document import_class as_names draws reg doc of
             Inl e \<Rightarrow> None
           | Inr b \<Rightarrow> Some (b\<lparr>wb_id := Some name\<rparr>)))"

lemma load_file_undisturbed:
  "\<exists>t' d'. load_workflow_file tx ic an draws reg base (g, w) t (d, j, []) = (Done (), t', (d', j, [])) \<and>
     (\<forall>g' w'. targets d' (workflow_path base g' w') = targets d (workflow_path base g' w')) \<and>
     wt_workflows t' =
       (case loaded_workflow tx ic an draws reg (workflow_name g w) (targets d (workflow_path base g w)) of
          None \<Rightarrow> wt_workflows t
        | Some b \<Rightarrow> AList.update (workflow_name g w) b (wt_workflows t))"
  by (auto simp: load_workflow_file_def loaded_workflow_def file_at_targets register_workflow_def
      put_workflow_def write_tombstones_def io_atomic_def targets_set_file Let_def
      split: option.split sum.split)

lemma load_files_undisturbed:
  assumes "valid_symbols g" "valid_symbols w" "distinct fs"
  shows "\<exists>t' d'. load_workflow_files tx ic an draws reg base fs t (d, j, []) = (Done (), t', (d', j, [])) \<and>
     map_of (wt_workflows t') (workflow_name g w) =
       (let b = loaded_workflow tx ic an draws reg (workflow_name g w) (targets d (workflow_path base g w))
        in if (g, w) \<in> set fs \<and> b \<noteq> None then b else map_of (wt_workflows t) (workflow_name g w))"
  using assms(3)
proof (induction fs arbitrary: t d)
  case (Cons f fs)
  obtain g1 w1 where f: "f = (g1, w1)" by (cases f)
  from load_file_undisturbed [of tx ic an draws reg base g1 w1 t d j] obtain t1 d1 where
    one: "load_workflow_file tx ic an draws reg base f t (d, j, []) = (Done (), t1, (d1, j, []))"
    "targets d1 (workflow_path base g w) = targets d (workflow_path base g w)"
    "wt_workflows t1 =
       (case loaded_workflow tx ic an draws reg (workflow_name g1 w1) (targets d (workflow_path base g1 w1)) of
          None \<Rightarrow> wt_workflows t
        | Some b \<Rightarrow> AList.update (workflow_name g1 w1) b (wt_workflows t))"
    unfolding f by blast
  have "workflow_name g w = workflow_name g1 w1 \<longleftrightarrow> g = g1 \<and> w = w1"
    using name_inj valid_no_colon assms by blast
  then have "map_of (wt_workflows t1) (workflow_name g w) =
      (let b = loaded_workflow tx ic an draws reg (workflow_name g w) (targets d (workflow_path base g w))
       in if (g, w) = f \<and> b \<noteq> None then b else map_of (wt_workflows t) (workflow_name g w))"
    unfolding one(3) f by (auto simp: update_conv' Let_def split: option.split)
  with Cons.IH [of t1 d1] Cons.prems one(1,2) show ?case by (auto simp: f Let_def)
qed simp

text \<open>What an undisturbed restart serves, read off the files.\<close>

definition served_after_restart ::
    "'p texts \<Rightarrow> (string \<Rightarrow> block_class option) \<Rightarrow> ('p \<Rightarrow> string list) \<Rightarrow> string list \<Rightarrow>
     block_registry \<Rightarrow> path \<Rightarrow> (string \<times> string \<times> string) list \<Rightarrow> (path \<Rightarrow> string option) \<Rightarrow>
     string \<Rightarrow> string \<Rightarrow> 'p builder option" where
  "served_after_restart tx ic an draws reg base bundled files g w =
     loaded_workflow tx ic an draws reg (workflow_name g w)
       (visible_text base (marked_deleted tx base files) bundled files g w)"

lemma load_undisturbed:
  assumes recovered: "recover_directory base (d, j, []) = (Done (), (d1, j1, []))"
    and names: "distinct names" "visible_text base (marked_deleted tx base (targets d1)) bundled (targets d1) g w \<noteq> None \<Longrightarrow>
      (g, w) \<in> set names"
    and valid: "valid_symbols g" "valid_symbols w"
  shows "\<exists>t w'. load_workflows tx ic an draws reg base bundled names new_workflow_table (d, j, []) =
      (Done (), t, w') \<and>
    map_of (wt_workflows t) (workflow_name g w) =
      served_after_restart tx ic an draws reg base bundled (targets d1) g w"
proof -
  let ?t0 = "load_preset_tombstones tx base new_workflow_table (d1, j1, [])"
  have t0: "wt_workflows ?t0 = []" "wt_deleted ?t0 = marked_deleted tx base (targets d1)"
    by (auto simp: load_preset_tombstones_def file_at_targets marked_deleted_def new_workflow_table_def
        split: option.split)
  from extract_undisturbed [of base bundled ?t0 d1 j1] obtain t2 d2 where
    two: "extract_presets base bundled (?t0, (d1, j1, [])) = (Done (), t2, (d2, j1, []))"
    "wt_workflows t2 = []"
    and files: "\<And>g w. targets d2 (workflow_path base g w) =
      visible_text base (marked_deleted tx base (targets d1)) bundled (targets d1) g w"
    using t0 by auto
  let ?fs = "filter (\<lambda>(g, w). file_at (workflow_path base g w) (d2, j1, []) \<noteq> None) names"
  have fs: "distinct ?fs" "(g, w) \<in> set ?fs \<longleftrightarrow> targets d2 (workflow_path base g w) \<noteq> None"
    using names by (auto simp: file_at_targets files)
  from load_files_undisturbed [OF valid fs(1), of tx ic an draws reg base t2 d2 j1, unfolded two(2) map_of.simps]
  obtain t3 d3 where
    "load_workflow_files tx ic an draws reg base ?fs t2 (d2, j1, []) = (Done (), t3, (d3, j1, []))"
    "map_of (wt_workflows t3) (workflow_name g w) =
       (let b = loaded_workflow tx ic an draws reg (workflow_name g w) (targets d2 (workflow_path base g w))
        in if (g, w) \<in> set ?fs \<and> b \<noteq> None then b else None)" by (auto simp: Let_def)
  moreover have "loaded_workflow tx ic an draws reg (workflow_name g w) None = None"
    by (simp add: loaded_workflow_def)
  ultimately show ?thesis
    using recovered two(1) unfolding fs(2)
    by (auto simp: load_workflows_def served_after_restart_def files Let_def split: if_splits)
qed

section \<open>Programs without faults\<close>

definition quiet :: "'a io \<Rightarrow> bool" where
  "quiet p = (\<forall>d j. snd (snd (snd (p (d, j, [])))) = [])"

named_theorems quiet_intros

lemma quiet_basic [quiet_intros]:
  "quiet (io_return a)" "quiet io_raise" "quiet (io_remember f)" "quiet (io_atomic h)"
  "quiet (io_write l c)" "quiet io_sync"
  by (simp_all add: quiet_def io_return_def io_raise_def io_remember_def io_atomic_def io_write_def io_sync_def)

lemma quiet_bind [quiet_intros]: "quiet p \<Longrightarrow> (\<And>a. quiet (f a)) \<Longrightarrow> quiet (io_bind p f)"
  unfolding quiet_def
proof (intro allI)
  fix d j
  assume p: "\<forall>d j. snd (snd (snd (p (d, j, [])))) = []" and f: "\<And>a. \<forall>d j. snd (snd (snd (f a (d, j, [])))) = []"
  obtain r d1 j1 fs1 where run: "p (d, j, []) = (r, d1, j1, fs1)" by (metis prod_cases4)
  from p have "snd (snd (snd (p (d, j, [])))) = []" by blast
  with run have "fs1 = []" by simp
  with run f show "snd (snd (snd (io_bind p f (d, j, [])))) = []"
    by (cases r) (simp_all add: io_bind_def)
qed

lemma quiet_steps [quiet_intros]: "(\<And>p. p \<in> set ps \<Longrightarrow> quiet p) \<Longrightarrow> quiet (io_steps ps)"
  by (induction ps) (auto intro!: quiet_intros)

lemma quiet_look [quiet_intros]: "(\<And>d j. quiet (f d j)) \<Longrightarrow> quiet (io_look f)"
  by (simp add: quiet_def io_look_def)

lemma quiet_try [quiet_intros]: "quiet p \<Longrightarrow> quiet (io_try p)"
  unfolding quiet_def io_try_def
  by (auto split: prod.split outcome.split) (metis snd_conv)+

lemma quiet_recovery: "quiet (recover_directory dir)"
proof -
  have wr: "quiet (write_journal tid)" for tid
    unfolding write_journal_def by (intro quiet_intros) (auto intro!: quiet_intros)
  have publish: "quiet (publish_step tid k)" for tid k
    unfolding publish_step_def publish_entry_def publish_file_def set_entry_state_def
    using wr by (auto intro!: quiet_intros split: if_splits)
  have cleanup: "quiet (cleanup_entries tid es)" for tid es
    unfolding cleanup_entries_def cleanup_entry_def by (auto intro!: quiet_intros split: if_splits)
  have undo: "quiet (rollback_entries tid es)" for tid es
    unfolding rollback_entries_def rollback_entry_def rollback_file_def
    by (auto intro!: quiet_intros split: if_splits)
  have resume: "quiet (resume_journal tid j)" for tid j
    unfolding resume_journal_def publish_all_def set_state_def
    using wr publish undo by (auto intro!: quiet_intros split: journal_state.split if_splits)
  have "quiet (recover_journal dir tid)" for tid
    unfolding recover_journal_def unlink_journal_def
    using resume cleanup by (auto intro!: quiet_intros split: option.split if_splits)
  then show ?thesis
    unfolding recover_directory_def by (auto intro!: quiet_intros)
qed

lemma commit_then_restart:
  assumes run: "commit_then base tid ms f t (d, j, fs) = (r, t', (d1, x))"
    and "dk_journals d = []" "SyncFails \<notin> set fs"
  obtains d2 j2 where
    "recover_directory base (fold (interrupted_restart base) restarts d1, j', []) = (Done (), (d2, j2, []))"
    "targets d2 = published_content (targets d) ms \<or> r \<noteq> Done (Inr ()) \<and> targets d2 = targets d"
proof -
  obtain r0 d0 x0 where commit: "commit base tid ms False (d, j, fs) = (r0, (d0, x0))"
    by (metis prod_cases3)
  with run have d1: "d0 = d1" and r: "r = Done (Inr ()) \<longleftrightarrow> r0 = Done ()"
    by (auto simp: commit_then_def Let_def split: outcome.splits)
  let ?rec = "recover_directory base (fold (interrupted_restart base) restarts d1, j', [])"
  obtain r2 d2 j2 fs2 where rec: "?rec = (r2, (d2, j2, fs2))" by (metis prod_cases4)
  have "snd (snd (snd ?rec)) = []" using quiet_recovery by (simp add: quiet_def)
  with rec have "fs2 = []" by simp
  moreover from atomic_after_restarts [OF assms(2,3), where dir = base and tid = tid and ms = ms and
      callback = False and j = j and restarts = restarts and j' = j'] commit rec d1
  have "r2 = Done ()"
    "targets d2 = published_content (targets d) ms \<or> r0 \<noteq> Done () \<and> targets d2 = targets d" by auto
  ultimately show thesis using that rec r by auto
qed

section \<open>Write requests\<close>

datatype 'p write_request =
    Persist string string "'p builder" "(string \<times> string) option" bool
  | Delete string string

fun serve_write ::
    "'p texts \<Rightarrow> path \<Rightarrow> string \<Rightarrow> block_registry \<Rightarrow> 'p write_request \<Rightarrow> 'p workflow_table \<Rightarrow>
     world \<Rightarrow> 'p table_result" where
  "serve_write tx base tid reg (Persist g w b previous create_only) t wd =
     persist_builder tx base tid reg g w b previous create_only t wd"
| "serve_write tx base tid reg (Delete g w) t wd = delete_persisted tx base tid g w t wd"

text \<open>What a request means: of the workflows served before, \<open>old\<close>, those served after it.\<close>

fun intended ::
    "(string \<Rightarrow> block_class option) \<Rightarrow> ('p \<Rightarrow> string list) \<Rightarrow> string list \<Rightarrow> block_registry \<Rightarrow>
     'p write_request \<Rightarrow> (string \<Rightarrow> string \<Rightarrow> 'p builder option) \<Rightarrow> string \<Rightarrow> string \<Rightarrow>
     'p builder option" where
  "intended ic an draws reg (Persist g w b previous create_only) old g' w' =
     (if g' = g \<and> w' = w then
        case load_document ic an draws reg (save_document reg b) of
          Inl e \<Rightarrow> None
        | Inr b' \<Rightarrow> Some (b'\<lparr>wb_id := Some (workflow_name g w)\<rparr>)
      else if previous = Some (g', w') then None
      else old g' w')"
| "intended ic an draws reg (Delete g w) old g' w' = (if g' = g \<and> w' = w then None else old g' w')"

text \<open>The list of marks that is written can be read back; the marks in memory are those of the
  file, and every bundled preset is known as one.\<close>

definition ids_readable :: "'p texts \<Rightarrow> bool" where
  "ids_readable tx = (\<forall>ids. tx_parse_ids tx (tx_dump_ids tx ids) = Some ids)"

definition marks_in_sync ::
    "'p texts \<Rightarrow> path \<Rightarrow> (string \<times> string \<times> string) list \<Rightarrow> 'p workflow_table \<Rightarrow>
     (path \<Rightarrow> string option) \<Rightarrow> bool" where
  "marks_in_sync tx base bundled t files =
     (wt_deleted t = marked_deleted tx base files \<and>
      (\<forall>(g, w, _)\<in>set bundled. workflow_name g w \<in> wt_presets t))"

text \<open>The document a request writes can be read back; an update names the workflow it replaces.\<close>

fun request_ok :: "'p texts \<Rightarrow> block_registry \<Rightarrow> 'p write_request \<Rightarrow> bool" where
  "request_ok tx reg (Persist g w b previous create_only) =
     (tx_parse tx (tx_dump tx (save_document reg b)) = Some (save_document reg b) \<and>
      (case previous of None \<Rightarrow> True | Some (pg, pw) \<Rightarrow> pg \<noteq> [] \<and> pw \<noteq> []))"
| "request_ok tx reg (Delete g w) = True"

fun written_names :: "'p write_request \<Rightarrow> (string \<times> string) list" where
  "written_names (Persist g w b previous create_only) = [(g, w)]"
| "written_names (Delete g w) = []"

definition lists_names ::
    "path \<Rightarrow> (string \<times> string) list \<Rightarrow> (string \<times> string \<times> string) list \<Rightarrow> 'p write_request \<Rightarrow>
     (path \<Rightarrow> string option) \<Rightarrow> bool" where
  "lists_names base names bundled req files =
     (distinct names \<and> set (written_names req) \<union> (\<lambda>(g, w, _). (g, w)) ` set bundled \<subseteq> set names \<and>
      (\<forall>g w. files (workflow_path base g w) \<noteq> None \<longrightarrow> (g, w) \<in> set names))"

lemma visible_listed:
  assumes "lists_names base names bundled req files"
    and "\<And>g w. files' (workflow_path base g w) \<noteq> None \<Longrightarrow>
      files (workflow_path base g w) \<noteq> None \<or> (g, w) \<in> set (written_names req)"
    and "visible_text base deleted bundled files' g w \<noteq> None"
  shows "(g, w) \<in> set names"
proof (cases "files' (workflow_path base g w) = None")
  case True
  with assms(3) obtain c where "List.find (\<lambda>(g', w', _). g' = g \<and> w' = w) bundled = Some c"
    by (auto simp: visible_text_def bundled_text_def split: if_splits)
  then have "c \<in> set bundled" "fst c = g" "fst (snd c) = w"
    by (auto simp: find_Some_iff split_beta)
  then have "(g, w) \<in> (\<lambda>(g, w, _). (g, w)) ` set bundled" by (force simp: split_beta)
  with assms(1) show ?thesis by (auto simp: lists_names_def)
next
  case False
  with assms(1) assms(2) [of g w] show ?thesis by (auto simp: lists_names_def)
qed

lemma marked_after:
  assumes "ids_readable tx" "finite ids" "files (tombstones_path base) = Some (tombstone_text tx ids)"
  shows "marked_deleted tx base files = ids"
  using assms by (simp add: marked_deleted_def ids_readable_def tombstone_text_def)

lemma bundled_gone:
  assumes "(\<forall>(g, w, _)\<in>set bundled. workflow_name g w \<in> presets)"
    and "workflow_name g w \<in> presets \<Longrightarrow> workflow_name g w \<in> deleted"
  shows "bundled_text deleted bundled g w = None"
proof (cases "workflow_name g w \<in> presets")
  case False
  with assms(1) have "List.find (\<lambda>(g', w', _). g' = g \<and> w' = w) bundled = None"
    by (auto simp: find_None_iff)
  then show ?thesis by (simp add: bundled_text_def)
qed (use assms(2) in \<open>simp add: bundled_text_def\<close>)

lemma served_cong:
  assumes "files' (workflow_path base g w) = files (workflow_path base g w)"
    and "workflow_name g w \<in> marked_deleted tx base files' \<longleftrightarrow>
         workflow_name g w \<in> marked_deleted tx base files"
  shows "served_after_restart tx ic an draws reg base bundled files' g w =
    served_after_restart tx ic an draws reg base bundled files g w"
proof -
  have "bundled_text (marked_deleted tx base files') bundled g w =
      bundled_text (marked_deleted tx base files) bundled g w"
    using assms(2) by (simp add: bundled_text_def)
  then show ?thesis
    using assms(1) by (simp add: served_after_restart_def visible_text_def split: option.split)
qed

lemma finite_marked [simp]: "finite (marked_deleted tx base files)"
  by (simp add: marked_deleted_def split: option.split)

lemma deleted_files:
  assumes tx: "ids_readable tx" and sync: "marks_in_sync tx base bundled t files"
    and valid: "valid_symbols g" "valid_symbols w" "valid_symbols g'" "valid_symbols w'"
    and deleted: "deleted = (if workflow_name g w \<in> wt_presets t
           then insert (workflow_name g w) (wt_deleted t) else wt_deleted t)"
    and ms: "ms = [\<lparr>mu_target = workflow_path base g w, mu_content = None\<rparr>,
           tombstone_mutation tx base deleted]"
  shows "served_after_restart tx ic an draws reg base bundled (published_content files ms) g' w' =
    intended ic an draws reg (Delete g w) (served_after_restart tx ic an draws reg base bundled files) g' w'"
proof -
  let ?files = "published_content files ms"
  have fin: "finite deleted" using sync by (simp add: deleted marks_in_sync_def)
  have marks: "marked_deleted tx base ?files = deleted"
    by (rule marked_after [OF tx fin]) (simp add: ms published_content_def tombstone_mutation_def)
  show ?thesis
  proof (cases "g' = g \<and> w' = w")
    case True
    have "?files (workflow_path base g w) = None" by (simp add: ms published_content_def)
    moreover have "bundled_text deleted bundled g w = None"
      using sync by (intro bundled_gone [where presets = "wt_presets t"]) (auto simp: marks_in_sync_def deleted)
    ultimately show ?thesis
      using True by (simp add: served_after_restart_def visible_text_def marks loaded_workflow_def)
  next
    case False
    then have "workflow_name g' w' \<noteq> workflow_name g w"
      using same_name [OF valid(3,4)] by auto
    then have "workflow_name g' w' \<in> deleted \<longleftrightarrow> workflow_name g' w' \<in> marked_deleted tx base files"
      using sync by (auto simp: deleted marks_in_sync_def)
    moreover have "?files (workflow_path base g' w') = files (workflow_path base g' w')"
      using False by (auto simp: ms published_content_def tombstone_mutation_def)
    ultimately have "served_after_restart tx ic an draws reg base bundled ?files g' w' =
        served_after_restart tx ic an draws reg base bundled files g' w'"
      by (intro served_cong) (simp_all add: marks)
    with False show ?thesis by auto
  qed
qed

lemma persisted_files:
  assumes tx: "ids_readable tx" and sync: "marks_in_sync tx base bundled t files"
    and valid: "valid_symbols g" "valid_symbols w" "valid_symbols g'" "valid_symbols w'"
      "valid_symbols pg" "valid_symbols pw"
    and doc: "tx_parse tx (tx_dump tx (save_document reg b)) = Some (save_document reg b)"
    and previous: "(pg, pw) = (case previous of Some p \<Rightarrow> p | None \<Rightarrow> (g, w))"
    and moved: "moved \<longleftrightarrow> workflow_name pg pw \<noteq> workflow_name g w"
    and deleted: "deleted = (if moved \<and> workflow_name pg pw \<in> wt_presets t
           then insert (workflow_name pg pw) (wt_deleted t - {workflow_name g w})
           else wt_deleted t - {workflow_name g w})"
    and ms: "ms = [\<lparr>mu_target = workflow_path base g w,
              mu_content = Some (tx_dump tx (save_document reg b))\<rparr>,
           tombstone_mutation tx base deleted] @
           (if moved then [\<lparr>mu_target = workflow_path base pg pw, mu_content = None\<rparr>] else [])"
  shows "served_after_restart tx ic an draws reg base bundled (published_content files ms) g' w' =
    intended ic an draws reg (Persist g w b previous create_only)
      (served_after_restart tx ic an draws reg base bundled files) g' w'"
proof -
  let ?files = "published_content files ms"
  have moved': "moved \<longleftrightarrow> \<not> (pg = g \<and> pw = w)" using moved same_name [OF valid(5,6)] by simp
  have fin: "finite deleted" using sync by (simp add: deleted marks_in_sync_def)
  have marks: "marked_deleted tx base ?files = deleted"
    by (rule marked_after [OF tx fin]) (simp add: ms published_content_def tombstone_mutation_def)
  consider (new) "g' = g" "w' = w" | (old) "\<not> (g' = g \<and> w' = w)" "g' = pg" "w' = pw"
    | (other) "\<not> (g' = g \<and> w' = w)" "\<not> (g' = pg \<and> w' = pw)" by blast
  then show ?thesis
  proof cases
    case new
    have "?files (workflow_path base g w) = Some (tx_dump tx (save_document reg b))"
      by (simp add: ms published_content_def)
    with new doc show ?thesis
      by (simp add: served_after_restart_def visible_text_def loaded_workflow_def)
  next
    case old
    with previous moved' have gone: "moved" "previous = Some (g', w')" by (auto split: option.splits)
    have "?files (workflow_path base pg pw) = None"
      using gone moved' by (auto simp: ms published_content_def tombstone_mutation_def)
    moreover have "bundled_text deleted bundled pg pw = None"
      using sync gone(1) by (intro bundled_gone [where presets = "wt_presets t"])
        (auto simp: marks_in_sync_def deleted)
    ultimately show ?thesis
      using old gone by (auto simp: served_after_restart_def visible_text_def marks loaded_workflow_def)
  next
    case other
    then have "workflow_name g' w' \<noteq> workflow_name g w" "workflow_name g' w' \<noteq> workflow_name pg pw"
      using same_name [OF valid(3,4)] by auto
    then have "workflow_name g' w' \<in> deleted \<longleftrightarrow> workflow_name g' w' \<in> marked_deleted tx base files"
      using sync by (auto simp: deleted marks_in_sync_def)
    moreover have "?files (workflow_path base g' w') = files (workflow_path base g' w')"
      using other by (auto simp: ms published_content_def tombstone_mutation_def)
    ultimately have "served_after_restart tx ic an draws reg base bundled ?files g' w' =
        served_after_restart tx ic an draws reg base bundled files g' w'"
      by (intro served_cong) (simp_all add: marks)
    with other previous show ?thesis by (auto split: option.splits)
  qed
qed

text \<open>Every request either is refused and changes nothing or runs one transaction whose files mean
  what the request intends.\<close>

lemma request_transaction:
  assumes tx: "ids_readable tx" and sync: "marks_in_sync tx base bundled t (targets (fst wd))"
    and req: "request_ok tx reg req" and run: "serve_write tx base tid reg req t wd = (r, t', wd')"
  obtains (refused) "r \<noteq> Done (Inr ())" "t' = t" "wd' = wd"
  | (commits) ms f where "commit_then base tid ms f t wd = (r, t', wd')"
      "\<And>g' w' ic an draws. valid_symbols g' \<Longrightarrow> valid_symbols w' \<Longrightarrow>
         served_after_restart tx ic an draws reg base bundled (published_content (targets (fst wd)) ms) g' w' =
         intended ic an draws reg req (served_after_restart tx ic an draws reg base bundled (targets (fst wd))) g' w'"
      "\<And>g' w'. published_content (targets (fst wd)) ms (workflow_path base g' w') \<noteq> None \<Longrightarrow>
         targets (fst wd) (workflow_path base g' w') \<noteq> None \<or> (g', w') \<in> set (written_names req)"
proof (cases req)
  case (Delete g w)
  show ?thesis
  proof (cases "map_of (wt_workflows t) (workflow_name g w) = None \<or> \<not> (valid_symbols g \<and> valid_symbols w)")
    case True
    then have "r \<noteq> Done (Inr ()) \<and> t' = t \<and> wd' = wd"
      using run Delete
      by (auto simp: delete_persisted_def resolve_workflow_path_def Let_def split: if_splits option.splits)
    with refused show ?thesis by blast
  next
    case False
    then have valid: "valid_symbols g" "valid_symbols w"
      and known: "map_of (wt_workflows t) (workflow_name g w) \<noteq> None" by simp_all
    show ?thesis
    proof (rule commits)
      show "commit_then base tid
          [\<lparr>mu_target = workflow_path base g w, mu_content = None\<rparr>, tombstone_mutation tx base
             (if workflow_name g w \<in> wt_presets t then insert (workflow_name g w) (wt_deleted t) else wt_deleted t)]
          (remove_workflow (workflow_name g w)
             (if workflow_name g w \<in> wt_presets t then insert (workflow_name g w) (wt_deleted t) else wt_deleted t))
          t wd = (r, t', wd')"
        using run known valid by (simp add: Delete delete_persisted_def resolve_workflow_path_def Let_def)
    qed (unfold Delete, rule deleted_files [OF tx sync valid],
        auto simp: published_content_def tombstone_mutation_def split: if_splits)
  qed
next
  case (Persist g w b previous create_only)
  obtain pg pw where prev: "(case previous of Some p \<Rightarrow> p | None \<Rightarrow> (g, w)) = (pg, pw)" by fastforce
  have parts: "(if pg = [] then g else pg) = pg" "(if pw = [] then w else pw) = pw"
    and doc: "tx_parse tx (tx_dump tx (save_document reg b)) = Some (save_document reg b)"
    using req prev by (auto simp: Persist split: option.splits)
  let ?name = "workflow_name g w" and ?old = "workflow_name pg pw"
  let ?taken = "map_of (wt_workflows t) ?name \<noteq> None \<or> file_at (workflow_path base g w) wd \<noteq> None"
  show ?thesis
  proof (cases "\<not> (valid_symbols g \<and> valid_symbols w \<and> valid_symbols pg \<and> valid_symbols pw) \<or>
      (create_only \<or> ?old \<noteq> ?name) \<and> ?taken \<or>
      previous \<noteq> None \<and> map_of (wt_workflows t) ?old = None")
    case True
    then have "r \<noteq> Done (Inr ()) \<and> t' = t \<and> wd' = wd"
      using run
      by (auto simp: Persist persist_builder_def prev parts resolve_workflow_path_def Let_def
          simp del: if_image_distrib split: if_splits)
    with refused show ?thesis by blast
  next
    case False
    then have valid: "valid_symbols g" "valid_symbols w" "valid_symbols pg" "valid_symbols pw"
      and free: "\<not> ((create_only \<or> ?old \<noteq> ?name) \<and> ?taken)"
      and known: "\<not> (previous \<noteq> None \<and> map_of (wt_workflows t) ?old = None)" by blast+
    let ?deleted = "if ?old \<noteq> ?name \<and> ?old \<in> wt_presets t then insert ?old (wt_deleted t - {?name})
      else wt_deleted t - {?name}"
    have moved: "?old = ?name \<longleftrightarrow> pg = g \<and> pw = w"
      using same_name [OF valid(3,4)] by simp
    show ?thesis
    proof (rule commits)
      show "commit_then base tid
          ([\<lparr>mu_target = workflow_path base g w, mu_content = Some (tx_dump tx (save_document reg b))\<rparr>,
            tombstone_mutation tx base ?deleted] @
           (if ?old \<noteq> ?name then [\<lparr>mu_target = workflow_path base pg pw, mu_content = None\<rparr>] else []))
          (publish_builder ?name ?old b ?deleted) t wd = (r, t', wd')"
        using run free known valid unfolding Persist serve_write.simps persist_builder_def prev
        by (cases "pg = g \<and> pw = w") (auto simp: parts moved resolve_workflow_path_def Let_def)
    qed (unfold Persist, rule persisted_files [OF tx sync valid(1,2) _ _ valid(3,4) doc prev [symmetric] refl refl refl],
        auto simp: published_content_def tombstone_mutation_def split: if_splits)
  qed
qed

text \<open>C21. A write to the workflow table survives a restart as a whole. Take any create, update,
  rename or delete request on a directory without a pending transaction, with any failures and any
  point where the process stops (only \<open>fsync\<close> of a directory does not raise), then any number of
  restarts that fail or stop anywhere. The next undisturbed restart loads: either every workflow
  is served as if the request had never been made, which is excluded when the request returned
  without an error, or every workflow is served as the request intends: the new one as written,
  the renamed or deleted one not at all (a bundled preset is not released again), every other one
  unchanged.\<close>

theorem write_survives_restart_as_a_whole:
  assumes "ids_readable tx" "request_ok tx reg req"
    and names: "lists_names base names bundled req (targets d)"
    and sync: "marks_in_sync tx base bundled t (targets d)"
    and start: "dk_journals d = []" "SyncFails \<notin> set fs"
    and run: "serve_write tx base tid reg req t (d, j, fs) = (r, t', (d1, x))"
  shows "\<exists>t2 w2. load_workflows tx ic an draws reg base bundled names new_workflow_table
      (fold (interrupted_restart base) restarts d1, j', []) = (Done (), t2, w2) \<and>
    (let old = served_after_restart tx ic an draws reg base bundled (targets d);
         now = (\<lambda>g w. map_of (wt_workflows t2) (workflow_name g w))
     in (\<forall>g w. valid_symbols g \<and> valid_symbols w \<longrightarrow> now g w = intended ic an draws reg req old g w) \<or>
        r \<noteq> Done (Inr ()) \<and> (\<forall>g w. valid_symbols g \<and> valid_symbols w \<longrightarrow> now g w = old g w))"
proof -
  let ?d = "fold (interrupted_restart base) restarts d1"
  obtain d2 j2 where rec: "recover_directory base (?d, j', []) = (Done (), (d2, j2, []))"
    and files: "(\<forall>g w. valid_symbols g \<and> valid_symbols w \<longrightarrow>
        served_after_restart tx ic an draws reg base bundled (targets d2) g w =
        intended ic an draws reg req (served_after_restart tx ic an draws reg base bundled (targets d)) g w) \<or>
      r \<noteq> Done (Inr ()) \<and> targets d2 = targets d"
    and listed: "\<And>g w. targets d2 (workflow_path base g w) \<noteq> None \<Longrightarrow>
      targets d (workflow_path base g w) \<noteq> None \<or> (g, w) \<in> set (written_names req)"
  proof (rule request_transaction [OF assms(1) _ assms(2) run, of bundled])
    show "marks_in_sync tx base bundled t (targets (fst (d, j, fs)))" using sync by simp
  next
    assume refused: "r \<noteq> Done (Inr ())" "t' = t" "(d1, x) = (d, j, fs)"
    have keep: "fold (interrupted_restart base) restarts d = d"
      using start(1) by (induction restarts) (simp_all add: interrupted_restart_def recover_directory_def
          io_look_def io_return_def)
    have "recover_directory base (?d, j', []) = (Done (), (d, j', []))"
      using refused start(1) by (simp add: keep recover_directory_def io_look_def io_return_def)
    with that refused(1) show thesis by blast
  next
    fix ms f
    assume commit: "commit_then base tid ms f t (d, j, fs) = (r, t', (d1, x))"
      and served: "\<And>g' w' ic an draws. valid_symbols g' \<Longrightarrow> valid_symbols w' \<Longrightarrow>
         served_after_restart tx ic an draws reg base bundled
           (published_content (targets (fst (d, j, fs))) ms) g' w' =
         intended ic an draws reg req
           (served_after_restart tx ic an draws reg base bundled (targets (fst (d, j, fs)))) g' w'"
      and "\<And>g' w'. published_content (targets (fst (d, j, fs))) ms (workflow_path base g' w') \<noteq> None \<Longrightarrow>
         targets (fst (d, j, fs)) (workflow_path base g' w') \<noteq> None \<or> (g', w') \<in> set (written_names req)"
    moreover obtain d2 j2 where "recover_directory base (?d, j', []) = (Done (), (d2, j2, []))"
      "targets d2 = published_content (targets d) ms \<or> r \<noteq> Done (Inr ()) \<and> targets d2 = targets d"
      by (rule commit_then_restart [OF commit start])
    ultimately show thesis using that by auto
  qed
  let ?load = "load_workflows tx ic an draws reg base bundled names new_workflow_table (?d, j', [])"
  have dist: "distinct names" using names by (simp add: lists_names_def)
  have load: "\<exists>t w'. ?load = (Done (), t, w') \<and> map_of (wt_workflows t) (workflow_name g w) =
      served_after_restart tx ic an draws reg base bundled (targets d2) g w"
    if "valid_symbols g" "valid_symbols w" for g w
    by (rule load_undisturbed [OF rec dist visible_listed [OF names listed] that]) simp_all
  have "valid_symbols ''a''" by (simp add: valid_symbols_def path_symbol_def)
  from load [OF this this] obtain t2 w2 where run2: "?load = (Done (), t2, w2)" by blast
  have "map_of (wt_workflows t2) (workflow_name g w) =
      served_after_restart tx ic an draws reg base bundled (targets d2) g w"
    if "valid_symbols g" "valid_symbols w" for g w
    using load [OF that] run2 by auto
  with files run2 show ?thesis by (cases w2) (auto simp: Let_def)
qed

section \<open>Examples\<close>

text \<open>A text of the deletion marks: every character is escaped and every name is ended.\<close>

fun mark_text :: "string list \<Rightarrow> string" where
  "mark_text [] = []"
| "mark_text ([] # ids) = CHR ''e'' # mark_text ids"
| "mark_text ((c # s) # ids) = CHR ''c'' # c # mark_text (s # ids)"

fun read_marks :: "string \<Rightarrow> string list option" where
  "read_marks [] = Some []"
| "read_marks [x] = (if x = CHR ''e'' then Some [[]] else None)"
| "read_marks (x # y # r) =
     (if x = CHR ''e'' then map_option (Cons []) (read_marks (y # r))
      else case read_marks r of Some (s # ids) \<Rightarrow> Some ((y # s) # ids) | _ \<Rightarrow> None)"

lemma read_mark_text: "read_marks (mark_text ids) = Some ids"
proof (induction ids rule: mark_text.induct)
  case (2 ids)
  then show ?case by (cases "mark_text ids") auto
qed auto

definition demo_doc :: "nat workflow_doc" where
  "demo_doc = save_document rt_registry rt_builder"

definition demo_texts :: "nat texts" where
  "demo_texts = \<lparr>tx_dump = (\<lambda>_. ''doc''), tx_parse = (\<lambda>s. if s = ''doc'' then Some demo_doc else None),
     tx_dump_ids = mark_text, tx_parse_ids = read_marks\<rparr>"

definition demo_disk :: disk where
  "demo_disk = \<lparr>dk_files = (\<lambda>l. if l = Target (workflow_path [] ''g'' ''old'') then Some ''doc'' else None),
     dk_journals = []\<rparr>"

definition demo_table :: "nat workflow_table" where
  "demo_table = \<lparr>wt_workflows = [(''g:old'', rt_builder)], wt_presets = {}, wt_deleted = {}\<rparr>"

definition demo_journal :: journal where
  "demo_journal = \<lparr>jr_state = Prepared, jr_entries = []\<rparr>"

text \<open>A rename whose transaction commits and is stopped while it cleans up, a restart that is
  stopped as well, and the restart after it.\<close>

definition demo_rename :: "nat write_request" where
  "demo_rename = Persist ''g'' ''new'' rt_builder (Some (''g'', ''old'')) False"

definition demo_faults :: "fault list" where
  "demo_faults = replicate 32 Proceed @ [Fails]"

definition demo_answer :: "nat table_result" where
  "demo_answer = serve_write demo_texts [] ''t'' rt_registry demo_rename demo_table
     (demo_disk, demo_journal, demo_faults)"

lemma demo_answer: "fst demo_answer = Done (Inr ()) \<and> dk_journals (fst (snd (snd demo_answer))) \<noteq> []"
  by code_simp

theorem write_survives_restart_as_a_whole_witness:
  "\<exists>t2 w2. load_workflows demo_texts (\<lambda>_. None) (\<lambda>_. []) [] rt_registry [] [] [(''g'', ''old''), (''g'', ''new'')]
      new_workflow_table
      (fold (interrupted_restart []) [[Stops]] (fst (snd (snd demo_answer))), demo_journal, []) =
      (Done (), t2, w2) \<and>
    map_of (wt_workflows t2) ''g:old'' = None \<and> map_of (wt_workflows t2) ''g:new'' \<noteq> None"
proof -
  obtain r t' d1 x where run: "demo_answer = (r, t', (d1, x))" by (metis prod_cases4)
  have ids: "ids_readable demo_texts" by (simp add: ids_readable_def demo_texts_def read_mark_text)
  have req: "request_ok demo_texts rt_registry demo_rename"
    by (simp add: demo_rename_def demo_texts_def demo_doc_def)
  have names: "lists_names [] [(''g'', ''old''), (''g'', ''new'')] [] demo_rename (targets demo_disk)"
    by (auto simp: lists_names_def demo_rename_def demo_disk_def targets_def workflow_path_def split: if_splits)
  have sync: "marks_in_sync demo_texts [] [] demo_table (targets demo_disk)"
    by (simp add: marks_in_sync_def demo_table_def marked_deleted_def targets_def demo_disk_def
        workflow_path_def tombstones_path_def)
  have start: "dk_journals demo_disk = []" "SyncFails \<notin> set demo_faults"
    by (simp_all add: demo_disk_def demo_faults_def)
  have "serve_write demo_texts [] ''t'' rt_registry demo_rename demo_table
      (demo_disk, demo_journal, demo_faults) = (r, t', (d1, x))"
    using run by (simp add: demo_answer_def)
  note survives = write_survives_restart_as_a_whole [OF ids req names sync start this,
      where ic = "\<lambda>_. None" and an = "\<lambda>_. []" and draws = "[]" and restarts = "[[Stops]]"
        and j' = demo_journal]
  have "r = Done (Inr ())" using demo_answer unfolding run by simp
  with survives obtain t2 w2 where load: "load_workflows demo_texts (\<lambda>_. None) (\<lambda>_. []) [] rt_registry [] []
      [(''g'', ''old''), (''g'', ''new'')] new_workflow_table
      (fold (interrupted_restart []) [[Stops]] d1, demo_journal, []) = (Done (), t2, w2)"
    and now: "\<forall>g w. valid_symbols g \<and> valid_symbols w \<longrightarrow> map_of (wt_workflows t2) (workflow_name g w) =
      intended (\<lambda>_. None) (\<lambda>_. []) [] rt_registry demo_rename
        (served_after_restart demo_texts (\<lambda>_. None) (\<lambda>_. []) [] rt_registry [] [] (targets demo_disk)) g w"
    by (auto simp: Let_def)
  have symbols: "valid_symbols ''g''" "valid_symbols ''old''" "valid_symbols ''new''"
    by (simp_all add: valid_symbols_def path_symbol_def)
  have "\<exists>b. load_document (\<lambda>_. None) (\<lambda>_. []) [] rt_registry (save_document rt_registry rt_builder) = Inr b"
    using load_saved_document [OF rt_savable] by blast
  with now symbols have "map_of (wt_workflows t2) (workflow_name ''g'' ''old'') = None"
    "map_of (wt_workflows t2) (workflow_name ''g'' ''new'') \<noteq> None"
    by (auto simp: demo_rename_def)
  with load show ?thesis unfolding run by (cases w2) (auto simp: workflow_name_def)
qed

text \<open>A failure after the callback: the answer is an error and the files are rolled back, but the
  table in memory keeps the new workflow. Creating it again is refused until the next restart.\<close>

definition late_failure :: "nat table_result" where
  "late_failure = serve_write demo_texts [] ''t'' rt_registry (Persist ''g'' ''new'' rt_builder None True)
     demo_table (demo_disk, demo_journal, replicate 21 Proceed @ [Fails])"

lemma failed_create_stays_in_memory:
  "fst late_failure = Done (Inl NotWritten)"
  "targets (fst (snd (snd late_failure))) (workflow_path [] ''g'' ''new'') = None"
  "map fst (wt_workflows (fst (snd late_failure))) = [''g:old'', ''g:new'']"
  "fst (serve_write demo_texts [] ''u'' rt_registry (Persist ''g'' ''new'' rt_builder None True)
     (fst (snd late_failure)) (snd (snd late_failure))) = Done (Inl (WorkflowExists ''g:new''))"
  by code_simp+

text \<open>A bundled preset is copied without a temporary file. When the process stops in the middle of
  the copy, the torn file is there at every later start: it is neither loaded nor replaced.\<close>

definition torn_start :: disk where
  "torn_start = fst (snd (snd (load_workflows demo_texts (\<lambda>_. None) (\<lambda>_. []) [] rt_registry []
     [(''g'', ''preset'', ''doc'')] [(''g'', ''preset'')] new_workflow_table
     (\<lparr>dk_files = (\<lambda>_. None), dk_journals = []\<rparr>, demo_journal, [StopsTorn ''d'']))))"

lemma torn_preset_stays:
  "case load_workflows demo_texts (\<lambda>_. None) (\<lambda>_. []) [] rt_registry []
     [(''g'', ''preset'', ''doc'')] [(''g'', ''preset'')] new_workflow_table (torn_start, demo_journal, []) of
     (r, t, (d, _)) \<Rightarrow> r = Done () \<and> map fst (wt_workflows t) = [] \<and>
       targets d (workflow_path [] ''g'' ''preset'') = Some ''d''"
  by code_simp

end
