(* ===== verification/Spec2Isabelle.thy ===== *)
theory Spec2Isabelle
  imports Price_Sync Memory_Media Message_Dispatch Agent_Restart Agent_Confirmation Mcp_Confirmation Failover_Stream Outbox_Telegram Outbox_QQBot Outbox_WeCom
    Channel_Receipts File_Recovery Dispatch_Registry
    Workflow_Control Workflow_Ready Workflow_Durability
begin

text \<open>
  Verification library for kirara-ai, a chat bot server. A message arrives at an adapter of a chat
  platform, is recorded as received, is matched against the dispatch rules, and starts the workflow of
  the rule that is chosen; the workflow runs its blocks, some of which ask a model service through the
  provider queue on behalf of an Agent; the answer leaves through the outbox of the adapter. Rules,
  workflows and Agents are edited over HTTP and kept in files. Paths below are under
  \<open>src/kirara_ai\<close>.

  \<^bold>\<open>Shared vocabulary.\<close> \<open>Kirara_Prelude\<close>: seconds as rationals, JSON values, strings with one
  character per code point below 256, bounded deques, tables of rows. It states two interfaces as
  locales: \<open>keyed_rows\<close> (updates that keep the key of a row) and \<open>invariant_machine\<close> with its
  extension \<open>refining_machine\<close> (operations that keep an invariant, and that move an abstract state along
  an abstract relation). The components interpret them on their own tables and operations.

  \<^bold>\<open>Asking a model service\<close> (\<open>llm/\<close>).
  \<^item> \<open>Circuit_Breaker\<close> - \<open>resilience.py\<close>: the breaker, every method. It is proved well formed after any
    calls and to be the automaton closed, open, half-open with the guards of its settings.
  \<^item> \<open>Error_Class\<close> - \<open>resilience.py\<close>: which failure may be replayed.
  \<^item> \<open>Backend_Config\<close> - \<open>config/global_config.py\<close>: the settings of a provider and their validator, and the
    retry delay of the executor; a configuration is accepted exactly when the budgets it sets fit.
  \<^item> \<open>Circuit_Store\<close> - \<open>circuit_store.py\<close> and the life of the breakers in \<open>llm_manager.py\<close>: saving,
    loading and restoring, so that a restart neither shortens nor extends an isolation.
  \<^item> \<open>Failover\<close>, \<open>Failover_Stream\<close> - \<open>llm_manager.py\<close>: candidates, the synchronous and the streaming
    executor. Clock readings, cancellations and replies are lists that the executor consumes. The queue
    moves on only after a failure that may be replayed, a stream never continues another one.
  \<^item> \<open>Price_Catalog\<close>, \<open>Price_Store\<close> - \<open>pricing.py\<close>: price versions, the catalogue with its file and backups,
    and several processes that share the file. An edit that succeeds acts on what the file holds, the
    effective price is the newest one that has taken effect.
  \<^item> \<open>Price_Sync\<close> - \<open>pricing_sync.py\<close> and the costs of \<open>pricing.py\<close>: fetched prices never touch those kept
    by hand, a cost is the price of the tokens, each charged once.

  \<^bold>\<open>Receiving and sending\<close>.
  \<^item> \<open>Inbound_Receipts\<close> - \<open>im/inbound_receipts.py\<close>: an event is claimed at most once;
    \<open>Channel_Receipts\<close> the tables that Telegram and WeCom keep themselves. The locale
    \<open>receipt_contract\<close> is met by all three.
  \<^item> \<open>Outbox_Core\<close> states the contract of a durable outbox (locale \<open>page_outbox\<close>) and the delivery loops;
    \<open>Outbox_OneBot\<close>, \<open>Outbox_Telegram\<close> and \<open>Outbox_QQBot\<close> are the three outboxes (\<open>outbox.py\<close> of the
    adapters under \<open>plugins/\<close>), each an interpretation of the contract. A page is sent again only
    after the platform refused it, pages leave in order, deliveries return. \<open>Outbox_WeCom\<close> is the
    outbox without retries, whose sender runs at most once for a delivery.
  \<^item> \<open>Outbox_Pacing\<close> - \<open>im/outbox_backoff.py\<close>, \<open>plugins/im_onebot_adapter/pacing.py\<close>: waits and their
    bounds.

  \<^bold>\<open>Choosing a workflow\<close> (\<open>workflow/core/dispatch\<close>, \<open>im/sender.py\<close>, \<open>im/message.py\<close>).
  \<^item> \<open>Dispatch_Rules\<close>: conditions, groups, rules, the dispatch order and the reachability report; the
    rule that is chosen is the least one that matches, and one reported unreachable is never chosen.
  \<^item> \<open>Dispatch_Registry\<close>: the rule table, its files, presets, and the handlers of
    \<open>web/api/dispatch/routes.py\<close>; memory holds what a restart would load.
  \<^item> \<open>Message_Dispatch\<close> - \<open>dispatch/dispatcher.py\<close>: whose authority a message has, which way it takes
    (confirmation, Agent, workflow) and what is sent back. A required Agent is never replaced.

  \<^bold>\<open>Running a workflow\<close> (\<open>workflow/core\<close>).
  \<^item> \<open>Block_Types\<close>, \<open>Block_Registry\<close>: annotations, compatibility with its cache, block classes.
  \<^item> \<open>Workflow_Exec\<close> - \<open>execution/executor.py\<close>: construction of the graph, readiness, inputs, the
    execution of ordinary, condition and loop blocks (a condition or loop block with inputs raises);
    \<open>Workflow_Control\<close> the control blocks of \<open>block/base.py\<close>.
  \<^item> \<open>Workflow_Safety\<close>, \<open>Workflow_Typing\<close>, \<open>Workflow_Liveness\<close>: order of execution, where inputs come
    from, type soundness, termination and progress; the facts of a run are proved once in the locale
    \<open>exec_invariant\<close>.
  \<^item> \<open>Workflow_Builder\<close>, \<open>Workflow_Roundtrip\<close> - \<open>workflow/builder.py\<close>: the fluent builder and its
    document, which reads back as the same workflow.
  \<^item> \<open>Workflow_Validation\<close>, \<open>Workflow_Cycles\<close>, \<open>Workflow_Ready\<close> - \<open>workflow/validation.py\<close>: the
    structural check of a draft; a draft without issues is built, accepted and run to completion.
  \<^item> \<open>File_Transaction\<close>, \<open>File_Recovery\<close> - \<open>workflow/persistence.py\<close>: writes of several files over a disk
    whose every operation can fail, tear a file or be the last; the next recovery leaves
    every file as before or every file as after, unless the fsync of a directory raised.
  \<^item> \<open>Workflow_Registry\<close>, \<open>Workflow_Durability\<close>, \<open>Workflow_Routes\<close> - \<open>workflow/registry.py\<close> and
    \<open>web/api/workflow/routes.py\<close>: the table of workflows, its files through those transactions, what a
    restart loads, and what the read handlers show of a posted workflow.

  \<^bold>\<open>Agents\<close> (\<open>agent_runtime/core.py\<close>, \<open>web/auth/principal.py\<close>).
  \<^item> \<open>Agent_Identity\<close>: principals, cleaned identifiers, the channel context of a message and the keys of
    its session; different contexts have different keys, in the new format and across the formats.
  \<^item> \<open>Agent_Policy\<close>: the tools an Agent, its session and its workflow allow; permissions only narrow.
  \<^item> \<open>Agent_Definition\<close>: the constructors of bindings and Agents, with what they leave as invariants
    (\<open>wf_binding\<close>, \<open>wf_agent\<close>).
  \<^item> \<open>Agent_Registry\<close>: the operations of the registry; \<open>Agent_Document\<close> its JSON file, which reads back as
    the same state; \<open>Agent_Restart\<close> requests with writes that succeed or fail, and restarts: bindings
    refer to known Agents, owners stay, a session binding concerns one session, memory is the file.
  \<^item> \<open>Agent_Confirmation\<close> - the confirmation records of \<open>agent_runtime/session_store.py\<close> and the claim in
    \<open>AgentRuntime.confirm\<close>: a finished confirmation starts no call, a running one starts it again.
  \<^item> \<open>Mcp_Confirmation\<close> - \<open>mcp_module/confirmation_store.py\<close>: tokens are single use.

  \<^bold>\<open>Memory and media\<close> (\<open>memory/\<close>, \<open>media/\<close>).
  \<^item> \<open>Media_Store\<close>, \<open>Media_Life\<close> - \<open>media/metadata.py\<close>, \<open>media/manager.py\<close>: media files with their metadata and
    references; a known file is there with the content of its digest, a referenced one stays. A
    registration waits three times: it is modelled whole and in its parts, with other calls in between,
    and overlapping registrations of one content are the exceptions both statements name.
  \<^item> \<open>Media_Carrier\<close> - \<open>media/carrier/\<close>: references named after the component that holds them.
  \<^item> \<open>Memory_Codec\<close>, \<open>Memory_Store\<close>, \<open>Memory_History\<close> - \<open>memory/\<close>: entries and their JSON form, scopes, the
    manager with its queue and files; what a query returns is stated by the abstract memory \<open>spec_step\<close>.
  \<^item> \<open>Memory_Media\<close>: the two together - remembered media are exactly the referenced ones - and where the
    memory falls short.

  \<^bold>\<open>How code and model correspond.\<close> A class is a record of its fields, an enumeration or tagged
  union a datatype, a dictionary an association list where the order of insertion matters. An exception is
  \<open>Inl\<close> of an error or \<open>None\<close>. A method is a function from the state to its result and the new state; a
  lock makes methods atomic, so that concurrent use is a sequence of them. What the surroundings answer
  (clock, random draws, network, worker threads, disk faults) is an argument, usually the list of the
  answers in the order the code asks for them, and the theorems hold for all of them.

  \<^bold>\<open>Bounds and fuel.\<close> Loops that follow a list or a shrinking measure are total functions. A delivery
  consumes one event per attempt and is \<open>None\<close> when the events run out; \<open>onebot_deliver_returns\<close> says
  how many are enough. The workflow engine takes fuel for its nested recursion, and \<open>None\<close> is a run that
  has not returned: \<open>ordinary_run_returns\<close> gives a fuel with which every run over ordinary blocks
  returns; workflows with loop blocks need not return, as in the code. Searches of the structural check
  are bounded by the nodes and edges of the draft.

  \<^bold>\<open>Not modelled.\<close> Request parsing, authentication and responses of the web layer around the services;
  the protocol side of the adapters (sockets, web hooks, vendor libraries); rendering of messages as text
  and images; the ordinary workflow blocks, which are a parameter of the engine; the Agent executor
  with its hooks, conversation histories and resource snapshots, whose lines drive a model service, processes and HTTP; plugin and
  resource installation, the composers of memory, backup, tracing, schema migrations, the scheduler and the release
  scripts, which are file system, network, database or subprocess effects. Log lines, message texts and
  durations are left out everywhere. Floating point numbers are exact rationals; rounding is not modelled.
\<close>

end
